(* ===== verification/Prelude.thy ===== *)
theory Prelude
  imports Main "HOL-Library.Word"
begin

text \<open>
  Shared ground of the development: the machine types of the C++ code, the outcome of a
  call (a value, a C++ exception, or undefined behaviour), and the generic lemmas on byte
  lists that the component theories use.
\<close>

unbundle bit_operations_syntax

named_theorems outcome_simps \<open>evaluation of calls that may throw or be undefined\<close>
named_theorems model_defs \<open>definitions of small operations, unfolded by the component proofs\<close>

type_synonym u8 = "8 word"
type_synonym u16 = "16 word"
type_synonym u32 = "32 word"
type_synonym u64 = "64 word"
type_synonym bytes = "u8 list"

section \<open>Outcome of a call\<close>

text \<open>
  A C++ member function that changes its object ends in one of three ways: it returns a
  value, it throws (the object keeps whatever was written before the throw), or it has run
  into undefined behaviour (a null dereference, an access outside an array, a signed
  overflow), after which nothing is known.
\<close>

datatype ('s, 'e, 'a) outcome = Ret 's 'a | Thr 's 'e | Ub

fun obind :: "('s, 'e, 'a) outcome \<Rightarrow> ('s \<Rightarrow> 'a \<Rightarrow> ('s, 'e, 'b) outcome) \<Rightarrow> ('s, 'e, 'b) outcome"
where
  "obind (Ret s a) f = f s a"
| "obind (Thr s e) f = Thr s e"
| "obind Ub f = Ub"

lemma obind_Ret_iff:
  "obind m f = Ret t b \<longleftrightarrow> (\<exists>s a. m = Ret s a \<and> f s a = Ret t b)"
  by (cases m) auto

lemma obind_assoc: "obind (obind m f) g = obind m (\<lambda>s a. obind (f s a) g)"
  by (cases m) auto

definition omap :: "('a \<Rightarrow> 'b) \<Rightarrow> ('s, 'e, 'a) outcome \<Rightarrow> ('s, 'e, 'b) outcome" where
  "omap f m = obind m (\<lambda>s a. Ret s (f a))"

lemma omap_simps [simp]:
  "omap f (Ret s a) = Ret s (f a)" "omap f (Thr s e) = Thr s e" "omap f Ub = Ub"
  by (simp_all add: omap_def)

declare omap_simps [outcome_simps] obind.simps [outcome_simps]

section \<open>Overwriting a stretch of a buffer\<close>

text \<open>\<open>overwrite xs p ys\<close> is the buffer after \<open>memcpy(xs + p, ys, size of ys)\<close>.\<close>

definition overwrite :: "'a list \<Rightarrow> nat \<Rightarrow> 'a list \<Rightarrow> 'a list" where
  "overwrite xs p ys = take p xs @ ys @ drop (p + length ys) xs"

lemma overwrite_Nil [simp]: "overwrite xs p [] = xs"
  by (simp add: overwrite_def)

lemma length_overwrite [simp]:
  "p + length ys \<le> length xs \<Longrightarrow> length (overwrite xs p ys) = length xs"
  by (simp add: overwrite_def)

lemma overwrite_overwrite:
  assumes "p + length ys + length zs \<le> length xs"
  shows "overwrite (overwrite xs p ys) (p + length ys) zs = overwrite xs p (ys @ zs)"
  using assms by (cases ys) (auto simp: overwrite_def min_def algebra_simps)

lemma take_overwrite_le: "n \<le> p \<Longrightarrow> p + length ys \<le> length xs \<Longrightarrow> take n (overwrite xs p ys) = take n xs"
  by (simp add: overwrite_def min_def)

lemma take_overwrite_all:
  "p + length ys \<le> length xs \<Longrightarrow> take (p + length ys) (overwrite xs p ys) = take p xs @ ys"
  by (cases ys) (auto simp: overwrite_def min_def)

lemma drop_overwrite_ge:
  "p + length ys \<le> n \<Longrightarrow> p + length ys \<le> length xs \<Longrightarrow> drop n (overwrite xs p ys) = drop n xs"
  by (simp add: overwrite_def min_def add.commute)

text \<open>\<open>window xs p n\<close> is what \<open>memcpy(dest, xs + p, n)\<close> copies out.\<close>

definition window :: "'a list \<Rightarrow> nat \<Rightarrow> nat \<Rightarrow> 'a list" where
  "window xs p n = take n (drop p xs)"

lemma window_0 [simp]: "window xs p 0 = []"
  by (simp add: window_def)

lemma length_window [simp]: "p + n \<le> length xs \<Longrightarrow> length (window xs p n) = n"
  by (simp add: window_def)

lemma window_append: "window xs p m @ window xs (p + m) n = window xs p (m + n)"
  by (simp add: window_def take_add add.commute)

lemma window_overwrite_same:
  "p + length ys \<le> length xs \<Longrightarrow> window (overwrite xs p ys) p (length ys) = ys"
  by (simp add: window_def overwrite_def)

lemma window_take: "p + n \<le> m \<Longrightarrow> window (take m xs) p n = window xs p n"
  by (simp add: window_def drop_take min_def)

section \<open>Lists of equally long chunks\<close>

definition uniform :: "nat \<Rightarrow> 'a list list \<Rightarrow> bool" where
  "uniform n xss \<longleftrightarrow> (\<forall>xs \<in> set xss. length xs = n)"

lemma uniform_Nil [simp]: "uniform n []"
  by (simp add: uniform_def)

lemma uniform_Cons [simp]: "uniform n (x # xs) \<longleftrightarrow> length x = n \<and> uniform n xs"
  by (simp add: uniform_def)

lemma uniform_append [simp]: "uniform n (xs @ ys) \<longleftrightarrow> uniform n xs \<and> uniform n ys"
  by (auto simp: uniform_def)

lemma uniform_nth: "uniform n xss \<Longrightarrow> i < length xss \<Longrightarrow> length (xss ! i) = n"
  by (simp add: uniform_def)

lemma uniform_replicate: "length x = n \<Longrightarrow> uniform n (replicate k x)"
  by (auto simp: uniform_def)

lemma uniform_update: "uniform n xss \<Longrightarrow> length x = n \<Longrightarrow> uniform n (xss[i := x])"
  by (auto simp: uniform_def dest!: set_update_subset_insert [THEN subsetD])

lemma length_concat_uniform: "uniform n xss \<Longrightarrow> length (concat xss) = n * length xss"
  by (induction xss) auto

lemma concat_take_uniform: "uniform n xss \<Longrightarrow> concat (take i xss) = take (i * n) (concat xss)"
  by (induction xss arbitrary: i) (auto simp: take_Cons split: nat.splits)

lemma concat_drop_uniform: "uniform n xss \<Longrightarrow> concat (drop i xss) = drop (i * n) (concat xss)"
  by (induction xss arbitrary: i) (auto simp: drop_Cons split: nat.splits)

lemma concat_nth_split:
  "i < length xss \<Longrightarrow> concat xss = concat (take i xss) @ xss ! i @ concat (drop (Suc i) xss)"
  by (metis concat.simps(2) concat_append id_take_nth_drop)

lemma window_chunk:
  assumes "uniform n xss" "i < length xss" "off + k \<le> n"
  shows "window (xss ! i) off k = window (concat xss) (i * n + off) k"
proof -
  have len: "length (concat (take i xss)) = i * n"
    using assms by (simp add: concat_take_uniform length_concat_uniform mult.commute [of n])
  have l: "length (xss ! i) = n" using assms by (simp add: uniform_nth)
  show ?thesis
    unfolding concat_nth_split [OF assms(2)]
    using len l assms(3) by (simp add: window_def)
qed

lemma overwrite_chunk:
  assumes "uniform n xss" "i < length xss" "off + length ys \<le> n"
  shows "concat (xss[i := overwrite (xss ! i) off ys]) = overwrite (concat xss) (i * n + off) ys"
proof -
  let ?a = "concat (take i xss)" and ?z = "concat (drop (Suc i) xss)" and ?x = "xss ! i"
  have len: "length ?a = i * n"
    using assms by (simp add: concat_take_uniform length_concat_uniform mult.commute [of n])
  have l: "length ?x = n" using assms by (simp add: uniform_nth)
  have "concat (xss[i := overwrite ?x off ys]) = ?a @ overwrite ?x off ys @ ?z"
    using assms(2) by (simp add: upd_conv_take_nth_drop)
  also have "\<dots> = overwrite (?a @ ?x @ ?z) (i * n + off) ys"
    using len l assms(3) by (simp add: overwrite_def)
  also have "?a @ ?x @ ?z = concat xss"
    using concat_nth_split [OF assms(2)] by simp
  finally show ?thesis .
qed

section \<open>Lists\<close>

lemma map_filter_agree:
  "(\<And>x. x \<in> set xs \<Longrightarrow> f x = g x) \<Longrightarrow> List.map_filter f xs = List.map_filter g xs"
  by (induction xs) (auto split: option.splits)

end
