(* ===== verification/Endianness.thy ===== *)
theory Endianness
  imports Prelude
begin

text \<open>
  Model of \<open>src/Endian.h\<close>: byte order of integers in memory and byte swapping. The build
  directory of the repository targets x86-64 Linux, so \<open>MY_BYTE_ORDER\<close> is the
  little-endian branch of the header's conditional. Signed and unsigned integers of the same
  width share a word type; \<^const>\<open>sint\<close> reads the signed value.
\<close>

section \<open>Integers as bytes in memory\<close>

text \<open>The \<open>n\<close> low bytes of a word, lowest address first on the little-endian host.\<close>

fun le_bytes :: "nat \<Rightarrow> 'a::len word \<Rightarrow> bytes" where
  "le_bytes 0 w = []"
| "le_bytes (Suc n) w = ucast w # le_bytes n (drop_bit 8 w)"

fun of_le :: "bytes \<Rightarrow> 'a::len word" where
  "of_le [] = 0"
| "of_le (b # bs) = ucast b OR push_bit 8 (of_le bs)"

lemma length_le_bytes [simp]: "length (le_bytes n w) = n"
  by (induction n arbitrary: w) auto

lemma of_le_le_bytes: "of_le (le_bytes n w) = take_bit (8 * n) w"
proof (induction n arbitrary: w)
  case (Suc n)
  then show ?case
    by (auto intro!: bit_word_eqI simp: bit_simps)
qed simp

lemma of_le_le_bytes_full:
  fixes w :: "'a::len word"
  assumes "8 * n = LENGTH('a)"
  shows "of_le (le_bytes n w) = w"
proof -
  have "take_bit (8 * n) w = w"
    using assms by (auto intro!: bit_word_eqI simp: bit_simps dest: bit_imp_le_length)
  then show ?thesis by (simp add: of_le_le_bytes)
qed

lemma bit_of_le_bound: "bit (of_le bs :: 'a::len word) k \<Longrightarrow> k < 8 * length bs"
proof (induction bs arbitrary: k)
  case (Cons b bs)
  then show ?case
    by (auto simp: bit_simps dest: bit_imp_le_length) (metis (no_types) add.commute less_diff_conv2 Cons.IH)+
qed simp

lemma le_bytes_of_le:
  "8 * length bs \<le> LENGTH('a) \<Longrightarrow> le_bytes (length bs) (of_le bs :: 'a::len word) = bs"
proof (induction bs)
  case (Cons b bs)
  let ?x = "of_le bs :: 'a word"
  have hi: "bit ?x k \<Longrightarrow> k + 8 < LENGTH('a)" for k
    using bit_of_le_bound [where ?'a = 'a, of bs k] Cons.prems by auto
  have "ucast (ucast b OR push_bit 8 ?x :: 'a word) = b"
    using Cons.prems by (auto intro!: bit_word_eqI simp: bit_simps)
  moreover have "drop_bit 8 (ucast b OR push_bit 8 ?x :: 'a word) = ?x"
  proof (rule bit_word_eqI)
    fix k
    assume "k < LENGTH('a)"
    have "\<not> bit b (8 + k)" by (auto dest: bit_imp_le_length)
    then show "bit (drop_bit 8 (ucast b OR push_bit 8 ?x :: 'a word)) k = bit ?x k"
      using hi [of k] by (auto simp: bit_simps add.commute)
  qed
  ultimately show ?case using Cons by simp
qed simp

section \<open>Byte swapping\<close>

definition MY_LITTLE_ENDIAN :: nat where "MY_LITTLE_ENDIAN = 1"
definition MY_BIG_ENDIAN :: nat where "MY_BIG_ENDIAN = 2"
definition MY_BYTE_ORDER :: nat where "MY_BYTE_ORDER = MY_LITTLE_ENDIAN"

text \<open>\<open>bswap_16\<close>, \<open>bswap_32\<close>, \<open>bswap_64\<close> of the C library: the bytes in reverse order.\<close>

definition bswap :: "nat \<Rightarrow> 'a::len word \<Rightarrow> 'a word" where
  "bswap n w = of_le (rev (le_bytes n w))"

definition byteswap64 :: "u64 \<Rightarrow> u64" where "byteswap64 value = bswap 8 value"
definition byteswap32 :: "u32 \<Rightarrow> u32" where "byteswap32 value = bswap 4 value"
definition byteswap16 :: "u16 \<Rightarrow> u16" where "byteswap16 value = bswap 2 value"

definition byteswapOnLittleEndian16 :: "u16 \<Rightarrow> u16" where
  "byteswapOnLittleEndian16 t = (if MY_BYTE_ORDER = MY_BIG_ENDIAN then t else byteswap16 t)"

definition byteswapOnLittleEndian32 :: "u32 \<Rightarrow> u32" where
  "byteswapOnLittleEndian32 t = (if MY_BYTE_ORDER = MY_BIG_ENDIAN then t else byteswap32 t)"

definition byteswapOnBigEndian16 :: "u16 \<Rightarrow> u16" where
  "byteswapOnBigEndian16 t = (if MY_BYTE_ORDER = MY_BIG_ENDIAN then byteswap16 t else t)"

definition byteswapOnBigEndian32 :: "u32 \<Rightarrow> u32" where
  "byteswapOnBigEndian32 t = (if MY_BYTE_ORDER = MY_BIG_ENDIAN then byteswap32 t else t)"

lemmas byte_order_defs = MY_BYTE_ORDER_def MY_BIG_ENDIAN_def MY_LITTLE_ENDIAN_def

lemma bswap_bswap:
  fixes w :: "'a::len word"
  assumes "8 * n = LENGTH('a)"
  shows "bswap n (bswap n w) = w"
proof -
  have "le_bytes n (of_le (rev (le_bytes n w)) :: 'a word) = rev (le_bytes n w)"
    using le_bytes_of_le [where ?'a = 'a, of "rev (le_bytes n w)"] assms by simp
  then show ?thesis using assms by (simp add: bswap_def of_le_le_bytes_full)
qed

lemma le_bytes_bswap:
  fixes w :: "'a::len word"
  assumes "8 * n = LENGTH('a)"
  shows "le_bytes n (bswap n w) = rev (le_bytes n w)"
  using le_bytes_of_le [where ?'a = 'a, of "rev (le_bytes n w)"] assms by (simp add: bswap_def)

lemma byteswap_involutive [simp]:
  "byteswap64 (byteswap64 a) = a" "byteswap32 (byteswap32 b) = b" "byteswap16 (byteswap16 c) = c"
  by (simp_all add: byteswap64_def byteswap32_def byteswap16_def bswap_bswap)

lemma byteswapOnLittleEndian_involutive [simp]:
  "byteswapOnLittleEndian16 (byteswapOnLittleEndian16 a) = a"
  "byteswapOnLittleEndian32 (byteswapOnLittleEndian32 b) = b"
  by (simp_all add: byteswapOnLittleEndian16_def byteswapOnLittleEndian32_def)

end
