(* ===== verification/ByteArrays.thy ===== *)
theory ByteArrays
  imports Endianness
begin

text \<open>
  Model of the storage of \<open>ByteArray\<close> (\<open>src/Bytearray.h\<close>, \<open>src/Bytearray.cc\<close>): a chain of
  memory blocks, a read and a write cursor, each kept both as a byte position and as a
  pointer into the chain.

  A block is the list of its bytes, the chain is the list of its blocks from \<open>m_root\<close> on, and
  a \<open>Node*\<close> is the index of the block in the chain, \<open>None\<close> for a null pointer. Blocks are only
  ever appended, and \<open>clear\<close> (which deletes all but the first) resets both cursors, so an
  index never dangles. Bytes of a block that were never written read as 0 in the model.
  Sizes are natural numbers: 64-bit wrap-around is written out where the code can reach it
  (\<open>sub64\<close>), and the conversion \<open>int cnt = ceil(...)\<close> is undefined above \<open>2^31 - 1\<close>.
\<close>

section \<open>State\<close>

datatype ba_exn = out_of_range | length_error

record bytearray =
  m_base_node_size :: nat
  m_capacity :: nat
  m_size :: nat
  m_endian :: nat
  m_nodes :: "bytes list"
  m_read_node :: "nat option"
  m_write_node :: "nat option"
  m_read_position :: nat
  m_write_position :: nat

type_synonym 'a ba_result = "(bytearray, ba_exn, 'a) outcome"

definition new_node :: "nat \<Rightarrow> bytes" where
  "new_node s = replicate s 0"

definition ByteArray_new :: "nat \<Rightarrow> bytearray" where
  "ByteArray_new base_size =
     \<lparr>m_base_node_size = base_size, m_capacity = base_size, m_size = 0,
      m_endian = MY_BIG_ENDIAN, m_nodes = [new_node base_size],
      m_read_node = Some 0, m_write_node = Some 0,
      m_read_position = 0, m_write_position = 0\<rparr>"

definition getReadSize :: "bytearray \<Rightarrow> nat" where
  "getReadSize b = m_size b - m_read_position b"

definition getFreeCapacity :: "bytearray \<Rightarrow> nat" where
  "getFreeCapacity b = m_capacity b - m_write_position b"

definition next_node :: "bytes list \<Rightarrow> nat \<Rightarrow> nat option" where
  "next_node ns i = (if Suc i < length ns then Some (Suc i) else None)"

text \<open>Unsigned 64-bit subtraction.\<close>

definition sub64 :: "nat \<Rightarrow> nat \<Rightarrow> nat" where
  "sub64 a b = (if b \<le> a then a - b else 2 ^ 64 + a - b)"

section \<open>Operations on the storage\<close>

definition clear :: "bytearray \<Rightarrow> bytearray" where
  "clear b = b\<lparr>m_read_position := 0, m_write_position := 0, m_size := 0,
     m_capacity := m_base_node_size b, m_read_node := Some 0, m_write_node := Some 0,
     m_nodes := take 1 (m_nodes b)\<rparr>"

definition addCapacity :: "bytearray \<Rightarrow> nat \<Rightarrow> unit ba_result" where
  "addCapacity b sz =
     (if sz = 0 then Ret b ()
      else let free = getFreeCapacity b in
        if sz \<le> free then Ret b ()
        else let sz' = sz - free; base = m_base_node_size b in
          if base = 0 then Ub
          else let cnt = (sz' + base - 1) div base in
            if 2 ^ 31 \<le> cnt then Ub
            else Ret (b\<lparr>m_nodes := m_nodes b @ replicate cnt (new_node base),
                        m_capacity := m_capacity b + cnt * base,
                        m_write_node := (if free = 0 then Some (length (m_nodes b))
                                         else m_write_node b)\<rparr>) ())"

text \<open>
  The copy loop of \<open>write\<close>: block \<open>i\<close>, the position, the offset in the block and the bytes
  still to be stored. \<open>None\<close> is the dereference of a null \<open>next\<close> pointer.
\<close>

function write_loop ::
  "bytes list \<Rightarrow> nat \<Rightarrow> nat \<Rightarrow> nat \<Rightarrow> bytes \<Rightarrow> (bytes list \<times> nat option \<times> nat) option"
where
  "write_loop ns i pos off buf =
     (if buf = [] then Some (ns, Some i, pos)
      else if i < length ns then
        (let leftcap = length (ns ! i) - off in
          if length buf \<le> leftcap then
            Some (ns[i := overwrite (ns ! i) off buf],
                  (if length buf = leftcap then next_node ns i else Some i),
                  pos + length buf)
          else if Suc i < length ns then
            write_loop (ns[i := overwrite (ns ! i) off (take leftcap buf)]) (Suc i)
              (pos + leftcap) 0 (drop leftcap buf)
          else None)
      else None)"
  by pat_completeness auto
termination
  by (relation "measure (\<lambda>(ns, i, pos, off, buf). length ns - i)") auto

declare write_loop.simps [simp del]

definition ba_write :: "bytearray \<Rightarrow> bytes \<Rightarrow> unit ba_result" where
  "ba_write b buf =
     (if buf = [] then Ret b ()
      else obind (addCapacity b (length buf)) (\<lambda>b _.
        case m_write_node b of
          None \<Rightarrow> Ub
        | Some i \<Rightarrow>
            (if length (m_nodes b) \<le> i \<or> length (m_nodes b ! i) = 0 then Ub
             else case write_loop (m_nodes b) i (m_write_position b)
                    (m_write_position b mod length (m_nodes b ! i)) buf of
               None \<Rightarrow> Ub
             | Some (ns, nd, pos) \<Rightarrow>
                 Ret (b\<lparr>m_nodes := ns, m_write_node := nd, m_write_position := pos,
                        m_size := (if m_size b < pos then pos else m_size b)\<rparr>) ())))"

text \<open>The copy loop of \<open>read\<close>, with the number of bytes still wanted.\<close>

function read_loop ::
  "bytes list \<Rightarrow> nat \<Rightarrow> nat \<Rightarrow> nat \<Rightarrow> nat \<Rightarrow> (bytes \<times> nat option \<times> nat) option"
where
  "read_loop ns i pos off sz =
     (if sz = 0 then Some ([], Some i, pos)
      else if i < length ns then
        (let leftcap = length (ns ! i) - off in
          if sz \<le> leftcap then
            Some (window (ns ! i) off sz,
                  (if sz = leftcap then next_node ns i else Some i), pos + sz)
          else if Suc i < length ns then
            map_option (\<lambda>(bs, nd, p). (window (ns ! i) off leftcap @ bs, nd, p))
              (read_loop ns (Suc i) (pos + leftcap) 0 (sz - leftcap))
          else None)
      else None)"
  by pat_completeness auto
termination
  by (relation "measure (\<lambda>(ns, i, pos, off, sz). length ns - i)") auto

declare read_loop.simps [simp del]

definition ba_read :: "bytearray \<Rightarrow> nat \<Rightarrow> bytes ba_result" where
  "ba_read b sz =
     (if getReadSize b < sz then Thr b out_of_range
      else case m_read_node b of
        None \<Rightarrow> Ub
      | Some i \<Rightarrow>
          (if length (m_nodes b) \<le> i \<or> length (m_nodes b ! i) = 0 then Ub
           else case read_loop (m_nodes b) i (m_read_position b)
                  (m_read_position b mod length (m_nodes b ! i)) sz of
             None \<Rightarrow> Ub
           | Some (bs, nd, pos) \<Rightarrow>
               Ret (b\<lparr>m_read_node := nd, m_read_position := pos\<rparr>) bs))"

text \<open>
  The block at which a read from an explicit position starts: the current read block when
  the position lies in it, the block found by walking from the root otherwise.
\<close>

definition node_for :: "bytearray \<Rightarrow> nat \<Rightarrow> nat option" where
  "node_for b position =
     (let idx = position div m_base_node_size b in
       if idx = m_read_position b div m_base_node_size b then m_read_node b
       else if idx < length (m_nodes b) then Some idx else None)"

definition ba_read_at :: "bytearray \<Rightarrow> nat \<Rightarrow> nat \<Rightarrow> bytes ba_result" where
  "ba_read_at b sz position =
     (if sub64 (m_size b) position < sz then Thr b out_of_range
      else if m_base_node_size b = 0 then Ub
      else case node_for b position of
        None \<Rightarrow> Ub
      | Some i \<Rightarrow>
          (if length (m_nodes b) \<le> i \<or> length (m_nodes b ! i) = 0 then Ub
           else case read_loop (m_nodes b) i position
                  (position mod length (m_nodes b ! i)) sz of
             None \<Rightarrow> Ub
           | Some (bs, nd, pos) \<Rightarrow> Ret b bs))"

text \<open>The pointer walk of \<open>setReadPosition\<close> and \<open>setWritePosition\<close>.\<close>

function seek_loop :: "bytes list \<Rightarrow> nat \<Rightarrow> nat \<Rightarrow> nat option option" where
  "seek_loop ns i v =
     (if i < length ns then
        (if length (ns ! i) < v then seek_loop ns (Suc i) (v - length (ns ! i))
         else Some (if v = length (ns ! i) then next_node ns i else Some i))
      else None)"
  by pat_completeness auto
termination
  by (relation "measure (\<lambda>(ns, i, v). length ns - i)") auto

declare seek_loop.simps [simp del]

definition setReadPosition :: "bytearray \<Rightarrow> nat \<Rightarrow> unit ba_result" where
  "setReadPosition b v =
     (if m_size b < v then Thr b out_of_range
      else case seek_loop (m_nodes b) 0 v of
        None \<Rightarrow> Ub
      | Some nd \<Rightarrow> Ret (b\<lparr>m_read_position := v, m_read_node := nd\<rparr>) ())"

definition setWritePosition :: "bytearray \<Rightarrow> nat \<Rightarrow> unit ba_result" where
  "setWritePosition b v =
     (if m_capacity b < v then Thr b out_of_range
      else case seek_loop (m_nodes b) 0 v of
        None \<Rightarrow> Ub
      | Some nd \<Rightarrow>
          Ret (b\<lparr>m_write_position := v, m_size := (if m_size b < v then v else m_size b),
                 m_write_node := nd\<rparr>) ())"

definition ba_toString :: "bytearray \<Rightarrow> bytes ba_result" where
  "ba_toString b =
     (if getReadSize b = 0 then Ret b []
      else ba_read_at b (getReadSize b) (m_read_position b))"

section \<open>Scatter/gather views\<close>

text \<open>An \<open>iovec\<close> points into a block: (block, offset, length).\<close>

type_synonym iovec = "nat \<times> nat \<times> nat"

function iov_loop :: "bytes list \<Rightarrow> nat \<Rightarrow> nat \<Rightarrow> nat \<Rightarrow> iovec list option" where
  "iov_loop ns i off len =
     (if len = 0 then Some []
      else if i < length ns then
        (let leftcap = length (ns ! i) - off in
          if len \<le> leftcap then Some [(i, off, len)]
          else if Suc i < length ns then
            map_option ((#) (i, off, leftcap)) (iov_loop ns (Suc i) 0 (len - leftcap))
          else None)
      else None)"
  by pat_completeness auto
termination
  by (relation "measure (\<lambda>(ns, i, off, len). length ns - i)") auto

declare iov_loop.simps [simp del]

definition getReadBuffers :: "bytearray \<Rightarrow> nat \<Rightarrow> (iovec list \<times> nat) ba_result" where
  "getReadBuffers b len0 =
     (let len = min len0 (getReadSize b) in
       if len = 0 then Ret b ([], 0)
       else case m_read_node b of
         None \<Rightarrow> Ub
       | Some i \<Rightarrow>
           (if m_base_node_size b = 0 then Ub
            else case iov_loop (m_nodes b) i (m_read_position b mod m_base_node_size b) len of
              None \<Rightarrow> Ub
            | Some iovs \<Rightarrow> Ret b (iovs, len)))"

definition getReadBuffers_at :: "bytearray \<Rightarrow> nat \<Rightarrow> nat \<Rightarrow> (iovec list \<times> nat) ba_result" where
  "getReadBuffers_at b len0 position =
     (let len = min (sub64 (m_size b) position) len0 in
       if len = 0 then Ret b ([], 0)
       else if m_base_node_size b = 0 then Ub
       else case node_for b position of
         None \<Rightarrow> Ub
       | Some i \<Rightarrow>
           (case iov_loop (m_nodes b) i (position mod m_base_node_size b) len of
              None \<Rightarrow> Ub
            | Some iovs \<Rightarrow> Ret b (iovs, len)))"

definition getWriteBuffers :: "bytearray \<Rightarrow> nat \<Rightarrow> (iovec list \<times> nat) ba_result" where
  "getWriteBuffers b len =
     (if len = 0 then Ret b ([], 0)
      else obind (addCapacity b len) (\<lambda>b _.
        if m_base_node_size b = 0 then Ub
        else case m_write_node b of
          None \<Rightarrow> Ub
        | Some i \<Rightarrow>
            (case iov_loop (m_nodes b) i (m_write_position b mod m_base_node_size b) len of
               None \<Rightarrow> Ub
             | Some iovs \<Rightarrow> Ret b (iovs, len))))"

text \<open>What the kernel reads through a list of \<open>iovec\<close>s, and what it stores through one.\<close>

fun gather :: "bytes list \<Rightarrow> iovec list \<Rightarrow> bytes" where
  "gather ns [] = []"
| "gather ns ((i, off, n) # iovs) = window (ns ! i) off n @ gather ns iovs"

fun scatter :: "bytes list \<Rightarrow> iovec list \<Rightarrow> bytes \<Rightarrow> bytes list" where
  "scatter ns [] bs = ns"
| "scatter ns ((i, off, n) # iovs) bs =
     scatter (ns[i := overwrite (ns ! i) off (take n bs)]) iovs (drop n bs)"

section \<open>Files\<close>

text \<open>
  \<open>writeToFile\<close> copies the unread bytes out block by block; \<open>readFromFile\<close> appends the file
  in pieces of one block size (the last piece, possibly empty, is the one that meets the end
  of the file). The stream library is represented by the bytes of the file.
\<close>

function file_loop :: "bytes list \<Rightarrow> nat \<Rightarrow> nat \<Rightarrow> nat \<Rightarrow> bytes option" where
  "file_loop ns i off left =
     (if left = 0 then Some []
      else if i < length ns then
        (let len = (if length (ns ! i) - off < left then length (ns ! i) - off else left)
         in map_option ((@) (window (ns ! i) off len)) (file_loop ns (Suc i) 0 (left - len)))
      else None)"
  by pat_completeness auto
termination
  by (relation "measure (\<lambda>(ns, i, off, left). length ns - i)") auto

declare file_loop.simps [simp del]

definition writeToFile :: "bytearray \<Rightarrow> bytes ba_result" where
  "writeToFile b =
     (case m_read_node b of
        None \<Rightarrow> Ub
      | Some i \<Rightarrow>
          (if length (m_nodes b) \<le> i \<or> length (m_nodes b ! i) = 0 then Ub
           else case file_loop (m_nodes b) i
                  (m_read_position b mod length (m_nodes b ! i)) (getReadSize b) of
             None \<Rightarrow> Ub
           | Some bs \<Rightarrow> Ret b bs))"

function readFromFile :: "bytearray \<Rightarrow> bytes \<Rightarrow> unit ba_result" where
  "readFromFile b file =
     (if m_base_node_size b = 0 then Ub
      else if length file < m_base_node_size b then ba_write b file
      else case ba_write b (take (m_base_node_size b) file) of
        Ret b' _ \<Rightarrow> readFromFile b' (drop (m_base_node_size b) file)
      | Thr b' e \<Rightarrow> Thr b' e
      | Ub \<Rightarrow> Ub)"
  by pat_completeness auto
termination
  by (relation "measure (\<lambda>(b, file). length file)") auto

declare readFromFile.simps [simp del]

section \<open>Storage invariant\<close>

text \<open>Where the block pointer of a byte position stands in a chain of \<open>k\<close> blocks.\<close>

definition node_at :: "nat \<Rightarrow> nat \<Rightarrow> nat \<Rightarrow> nat option" where
  "node_at base k p = (if p div base < k then Some (p div base) else None)"

text \<open>
  The chain is made of equal blocks, the cursors lie inside the data, the write pointer is
  always in step with the write position. The read pointer is either in step with the read
  position or null; it is null when the last read (or seek) ended on the end of the chain.
\<close>

definition ba_inv :: "bytearray \<Rightarrow> bool" where
  "ba_inv b \<longleftrightarrow>
     0 < m_base_node_size b \<and> m_nodes b \<noteq> [] \<and>
     uniform (m_base_node_size b) (m_nodes b) \<and>
     m_capacity b = m_base_node_size b * length (m_nodes b) \<and>
     m_read_position b \<le> m_size b \<and> m_write_position b \<le> m_size b \<and>
     m_size b \<le> m_capacity b \<and>
     m_write_node b = node_at (m_base_node_size b) (length (m_nodes b)) (m_write_position b) \<and>
     (m_read_node b = node_at (m_base_node_size b) (length (m_nodes b)) (m_read_position b) \<or>
      m_read_node b = None \<and> m_read_position b mod m_base_node_size b = 0)"

definition ba_content :: "bytearray \<Rightarrow> bytes" where
  "ba_content b = take (m_size b) (concat (m_nodes b))"

lemma length_concat_nodes:
  "ba_inv b \<Longrightarrow> length (concat (m_nodes b)) = m_capacity b"
  by (simp add: ba_inv_def length_concat_uniform)

lemma length_ba_content: "ba_inv b \<Longrightarrow> length (ba_content b) = m_size b"
  using length_concat_nodes [of b] by (simp add: ba_content_def ba_inv_def)

lemma ba_inv_new: "0 < s \<Longrightarrow> ba_inv (ByteArray_new s)"
  by (simp add: ba_inv_def ByteArray_new_def new_node_def node_at_def)

lemma ba_inv_clear: "ba_inv b \<Longrightarrow> ba_inv (clear b)"
  by (cases "m_nodes b") (auto simp: ba_inv_def clear_def node_at_def)

lemma node_at_offset:
  "0 < base \<Longrightarrow> off < base \<Longrightarrow> node_at base k (i * base + off) = (if i < k then Some i else None)"
  by (simp add: node_at_def)

lemma node_at_next:
  assumes "0 < base" "i < k"
  shows "node_at base k (i * base + base) = (if Suc i < k then Some (Suc i) else None)"
proof -
  have "i * base + base = Suc i * base + 0" by simp
  then show ?thesis using assms node_at_offset [of base 0 k "Suc i"]
    by (simp add: add.commute)
qed

lemma write_loop_spec:
  assumes "uniform base ns" "0 < base" "i < length ns" "off < base"
    and "i * base + off + length buf \<le> base * length ns" "buf \<noteq> []" "pos = i * base + off"
  shows "\<exists>ns'. write_loop ns i pos off buf =
           Some (ns', node_at base (length ns) (pos + length buf), pos + length buf) \<and>
         concat ns' = overwrite (concat ns) pos buf \<and>
         uniform base ns' \<and> length ns' = length ns"
  using assms
proof (induction ns i pos off buf rule: write_loop.induct)
  case (1 ns i pos off buf)
  have l: "length (ns ! i) = base" using 1(2-) by (simp add: uniform_nth)
  let ?cap = "base - off"
  let ?ns = "\<lambda>ys. ns[i := overwrite (ns ! i) off ys]"
  show ?case
  proof (cases "length buf \<le> ?cap")
    case True
    have len: "off + length buf \<le> base" using True 1(2-) by simp
    have "uniform base (?ns buf)" using 1(2-) l len by (simp add: uniform_update)
    moreover have "concat (?ns buf) = overwrite (concat ns) pos buf"
      using overwrite_chunk [of base ns i off buf] 1(2-) len by simp
    moreover have "(if length buf = ?cap then next_node ns i else Some i) =
        node_at base (length ns) (pos + length buf)"
    proof (cases "length buf = ?cap")
      case full: True
      then have "pos + length buf = i * base + base" using 1(2-) by simp
      then show ?thesis using full node_at_next [of base i "length ns"] 1(2-)
        by (simp add: next_node_def)
    next
      case False
      then have "off + length buf < base" using len 1(2-) by linarith
      then show ?thesis using False node_at_offset [of base "off + length buf" "length ns" i] 1(2-)
        by (simp add: add.assoc)
    qed
    ultimately show ?thesis
      using 1(2-) l True by (subst write_loop.simps) simp
  next
    case False
    have lt: "off + length (take ?cap buf) \<le> base" using False 1(2-) by simp
    have suc: "Suc i < length ns"
    proof (rule ccontr)
      assume "\<not> Suc i < length ns"
      then have "length ns = Suc i" using 1(2-) by simp
      then have "base * length ns = i * base + base" by simp
      then show False using 1(2-) False by linarith
    qed
    let ?ns1 = "?ns (take ?cap buf)"
    have u: "uniform base ?ns1" using 1(2-) l lt by (simp add: uniform_update)
    have c: "concat ?ns1 = overwrite (concat ns) pos (take ?cap buf)"
      using overwrite_chunk [of base ns i off "take ?cap buf"] 1(2-) lt by simp
    have pos: "pos + ?cap = Suc i * base + 0" using 1(2-) by simp
    have room: "Suc i * base + 0 + length (drop ?cap buf) \<le> base * length ?ns1"
      using 1(2-) False by simp
    have "\<exists>ns'. write_loop ?ns1 (Suc i) (pos + ?cap) 0 (drop ?cap buf) =
        Some (ns', node_at base (length ?ns1) (pos + ?cap + length (drop ?cap buf)),
              pos + ?cap + length (drop ?cap buf)) \<and>
        concat ns' = overwrite (concat ?ns1) (pos + ?cap) (drop ?cap buf) \<and>
        uniform base ns' \<and> length ns' = length ?ns1"
      using 1(1) [of ?cap] 1(2-) False suc u room pos l by simp
    then obtain ns' where ns': "write_loop ?ns1 (Suc i) (pos + ?cap) 0 (drop ?cap buf) =
        Some (ns', node_at base (length ns) (pos + length buf), pos + length buf)"
      "concat ns' = overwrite (concat ?ns1) (pos + ?cap) (drop ?cap buf)"
      "uniform base ns'" "length ns' = length ns"
      using False by auto
    have "concat ns' = overwrite (concat ns) pos buf"
      using overwrite_overwrite [of pos "take ?cap buf" "drop ?cap buf" "concat ns"]
        ns'(2) c 1(2-) False by (simp add: length_concat_uniform)
    then show ?thesis
      using ns' 1(2-) l False suc by (subst write_loop.simps) simp
  qed
qed

lemma read_loop_spec:
  assumes "uniform base ns" "0 < base" "i < length ns" "off < base"
    and "i * base + off + n \<le> base * length ns" "0 < n" "pos = i * base + off"
  shows "read_loop ns i pos off n =
           Some (window (concat ns) pos n, node_at base (length ns) (pos + n), pos + n)"
  using assms
proof (induction ns i pos off n rule: read_loop.induct)
  case (1 ns i pos off n)
  have l: "length (ns ! i) = base" using 1(2-) by (simp add: uniform_nth)
  let ?cap = "base - off"
  show ?case
  proof (cases "n \<le> ?cap")
    case True
    have len: "off + n \<le> base" using True 1(2-) by simp
    have "window (ns ! i) off n = window (concat ns) pos n"
      using window_chunk [of base ns i off n] 1(2-) len by simp
    moreover have "(if n = ?cap then next_node ns i else Some i) =
        node_at base (length ns) (pos + n)"
    proof (cases "n = ?cap")
      case full: True
      then have "pos + n = i * base + base" using 1(2-) by simp
      then show ?thesis using full node_at_next [of base i "length ns"] 1(2-)
        by (simp add: next_node_def)
    next
      case False
      then have "off + n < base" using len 1(2-) by linarith
      then show ?thesis using False node_at_offset [of base "off + n" "length ns" i] 1(2-)
        by (simp add: add.assoc)
    qed
    ultimately show ?thesis
      using 1(2-) l True by (subst read_loop.simps) simp
  next
    case False
    have suc: "Suc i < length ns"
    proof (rule ccontr)
      assume "\<not> Suc i < length ns"
      then have "length ns = Suc i" using 1(2-) by simp
      then have "base * length ns = i * base + base" by simp
      then show False using 1(2-) False by linarith
    qed
    have pos: "pos + ?cap = Suc i * base + 0" using 1(2-) by simp
    have room: "Suc i * base + 0 + (n - ?cap) \<le> base * length ns"
      using 1(2-) False by simp
    have "read_loop ns (Suc i) (pos + ?cap) 0 (n - ?cap) =
        Some (window (concat ns) (pos + ?cap) (n - ?cap),
              node_at base (length ns) (pos + ?cap + (n - ?cap)), pos + ?cap + (n - ?cap))"
      using 1(1) [of ?cap] 1(2-) False suc room pos l by simp
    moreover have "window (ns ! i) off ?cap = window (concat ns) pos ?cap"
      using window_chunk [of base ns i off ?cap] 1(2-) by simp
    moreover have "window (concat ns) pos ?cap @ window (concat ns) (pos + ?cap) (n - ?cap) =
        window (concat ns) pos n"
      using window_append [of "concat ns" pos ?cap "n - ?cap"] False by simp
    moreover have "i * base + (n + off) = i * base + off + n" by simp
    ultimately show ?thesis
      using 1(2-) l False suc by (subst read_loop.simps) simp
  qed
qed

lemma seek_loop_spec:
  assumes "uniform base ns" "0 < base" "i < length ns" "i * base + v \<le> base * length ns" "0 < v"
  shows "seek_loop ns i v = Some (node_at base (length ns) (i * base + v))"
  using assms
proof (induction ns i v rule: seek_loop.induct)
  case (1 ns i v)
  have l: "length (ns ! i) = base" using 1(2-) by (simp add: uniform_nth)
  consider "v < base" | "v = base" | "base < v" by linarith
  then show ?case
  proof cases
    case 1 then show ?thesis using "1.prems" l node_at_offset [of base v "length ns" i]
      by (subst seek_loop.simps) simp
  next
    case 2 then show ?thesis using "1.prems" l node_at_next [of base i "length ns"]
      by (subst seek_loop.simps) (simp add: next_node_def add.commute)
  next
    case 3
    have suc: "Suc i < length ns"
    proof (rule ccontr)
      assume "\<not> Suc i < length ns"
      then have "length ns = Suc i" using "1.prems" by simp
      then have "base * length ns = i * base + base" by simp
      then show False using "1.prems" 3 by linarith
    qed
    have "seek_loop ns (Suc i) (v - base) =
        Some (node_at base (length ns) (Suc i * base + (v - base)))"
      using "1.IH" "1.prems" suc 3 l by simp
    moreover have "Suc i * base + (v - base) = i * base + v" using 3 by simp
    ultimately show ?thesis using "1.prems" l 3 by (subst seek_loop.simps) simp
  qed
qed

lemma seek_from_root:
  assumes "ba_inv b" "v \<le> m_capacity b"
  shows "seek_loop (m_nodes b) 0 v = Some (node_at (m_base_node_size b) (length (m_nodes b)) v)"
proof (cases "v = 0")
  case True
  have "length (m_nodes b ! 0) = m_base_node_size b" "m_nodes b \<noteq> []" "0 < m_base_node_size b"
    using assms by (auto simp: ba_inv_def uniform_nth)
  then show ?thesis using True by (subst seek_loop.simps) (simp add: node_at_def)
next
  case False
  then show ?thesis
    using assms seek_loop_spec [of "m_base_node_size b" "m_nodes b" 0 v] by (simp add: ba_inv_def)
qed

lemma ceil_div_le: "0 < b \<Longrightarrow> 0 < s \<Longrightarrow> (s + b - 1) div b \<le> (s::nat)"
proof -
  assume a: "0 < b" "0 < s"
  have "s + b - 1 < Suc s * b"
    using a by (cases s; cases b) auto
  then have "(s + b - 1) div b < Suc s" by (simp add: less_mult_imp_div_less)
  then show ?thesis by simp
qed

lemma addCapacity_spec:
  assumes inv: "ba_inv b" and n: "0 < n" "n < 2 ^ 31"
  shows "\<exists>k. addCapacity b n =
      Ret (b\<lparr>m_nodes := m_nodes b @ replicate k (new_node (m_base_node_size b)),
             m_capacity := m_base_node_size b * (length (m_nodes b) + k),
             m_write_node := node_at (m_base_node_size b) (length (m_nodes b) + k)
                               (m_write_position b)\<rparr>) () \<and>
      m_write_position b + n \<le> m_base_node_size b * (length (m_nodes b) + k)"
proof -
  let ?base = "m_base_node_size b" and ?free = "m_capacity b - m_write_position b"
  let ?len = "length (m_nodes b)" and ?w = "m_write_position b"
  have b: "0 < ?base" "m_capacity b = ?base * ?len" "?w \<le> m_capacity b"
    "m_write_node b = node_at ?base ?len ?w"
    using inv by (auto simp: ba_inv_def)
  show ?thesis
  proof (cases "n \<le> ?free")
    case True
    have "addCapacity b n = Ret b ()"
      using True n by (simp add: addCapacity_def getFreeCapacity_def)
    then show ?thesis
      using b True n by (intro exI [of _ 0]) (cases b; simp)
  next
    case False
    let ?s = "n - ?free" let ?cnt = "(?s + ?base - 1) div ?base"
    have "?cnt \<le> ?s" using ceil_div_le [of ?base ?s] b(1) False by simp
    then have cnt: "\<not> 2 ^ 31 \<le> ?cnt" using n by linarith
    have room: "?s \<le> ?cnt * ?base"
      using dividend_less_div_times [of ?base "?s + ?base - 1"] b(1) by linarith
    have "(if ?free = 0 then Some ?len else m_write_node b) = node_at ?base (?len + ?cnt) ?w"
    proof (cases "?free = 0")
      case True
      then have "?w = ?len * ?base + 0" using b by (simp add: mult.commute)
      moreover have "0 < ?cnt" using room False True b by (cases "?cnt = 0") auto
      ultimately show ?thesis using True node_at_offset [of ?base 0 "?len + ?cnt" ?len] b by simp
    next
      case ne: False
      then have "?w div ?base < ?len" using b by (simp add: less_mult_imp_div_less mult.commute)
      then show ?thesis using ne b by (simp add: node_at_def)
    qed
    then have "addCapacity b n =
        Ret (b\<lparr>m_nodes := m_nodes b @ replicate ?cnt (new_node ?base),
             m_capacity := ?base * (?len + ?cnt),
             m_write_node := node_at ?base (?len + ?cnt) ?w\<rparr>) ()"
      using False n cnt b
      by (simp add: addCapacity_def getFreeCapacity_def Let_def algebra_simps
          del: div_less_dividend)
    moreover have "?w + n \<le> ?base * (?len + ?cnt)"
      using room b False by (simp add: algebra_simps)
    ultimately show ?thesis by blast
  qed
qed

section \<open>Abstract buffer\<close>

text \<open>
  What the class promises: a byte string with a read and a write cursor. Writing overlays
  the bytes at the write cursor and extends the string when it runs past the end; reading
  copies from the read cursor or fails.
\<close>

record buffer =
  content :: bytes
  read_pos :: nat
  write_pos :: nat

definition buffer_write :: "bytes \<Rightarrow> buffer \<Rightarrow> buffer" where
  "buffer_write bs a = a\<lparr>content := overwrite (content a) (write_pos a) bs,
     write_pos := write_pos a + length bs\<rparr>"

definition buffer_read :: "nat \<Rightarrow> buffer \<Rightarrow> bytes \<times> buffer" where
  "buffer_read n a = (window (content a) (read_pos a) n, a\<lparr>read_pos := read_pos a + n\<rparr>)"

definition ba_abs :: "bytearray \<Rightarrow> buffer" where
  "ba_abs b = \<lparr>content = ba_content b, read_pos = m_read_position b,
     write_pos = m_write_position b\<rparr>"

lemma take_overwrite_grow:
  assumes "w \<le> s" "w + length ys \<le> length xs" "s \<le> length xs"
  shows "take (max s (w + length ys)) (overwrite xs w ys) = overwrite (take s xs) w ys"
proof -
  let ?m = "w + length ys" and ?d = "s - (w + length ys)"
  have "max s ?m = ?m + ?d" by simp
  then have "take (max s ?m) (overwrite xs w ys) = take w xs @ ys @ take ?d (drop ?m xs)"
    using assms take_add [of ?m ?d "overwrite xs w ys"]
    by (simp only: take_overwrite_all drop_overwrite_ge append_assoc order_refl)
  then show ?thesis using assms by (simp add: overwrite_def drop_take min_def)
qed

text \<open>The facts about one \<open>write\<close> that all clients need, in one bundle.\<close>

definition wrote :: "bytearray \<Rightarrow> bytes \<Rightarrow> bytearray \<Rightarrow> bool" where
  "wrote b bs b' \<longleftrightarrow> ba_inv b' \<and> ba_abs b' = buffer_write bs (ba_abs b) \<and>
     m_endian b' = m_endian b \<and> m_base_node_size b' = m_base_node_size b \<and>
     m_read_node b' = m_read_node b"

lemma read_node_grow:
  assumes "ba_inv b"
  shows "m_read_node b = node_at (m_base_node_size b) (length (m_nodes b) + k) (m_read_position b) \<or>
         m_read_node b = None \<and> m_read_position b mod m_base_node_size b = 0"
proof (cases "m_read_position b div m_base_node_size b < length (m_nodes b)")
  case True
  then show ?thesis using assms by (auto simp: ba_inv_def node_at_def)
next
  case False
  have "m_read_position b \<le> m_base_node_size b * length (m_nodes b)"
    using assms by (simp add: ba_inv_def)
  moreover have "m_base_node_size b * length (m_nodes b) \<le> m_read_position b"
    using False assms by (simp add: ba_inv_def less_eq_div_iff_mult_less_eq mult.commute not_less)
  ultimately have "m_read_position b mod m_base_node_size b = 0" by simp
  then show ?thesis using assms False by (auto simp: ba_inv_def node_at_def)
qed

lemma ba_write_wrote:
  assumes inv: "ba_inv b" and n: "length bs < 2 ^ 31"
  shows "\<exists>b'. ba_write b bs = Ret b' () \<and> wrote b bs b'"
proof (cases "bs = []")
  case True
  then show ?thesis using inv
    by (auto simp: ba_write_def wrote_def buffer_write_def ba_abs_def)
next
  case False
  let ?base = "m_base_node_size b" and ?w = "m_write_position b"
  from False n obtain k where
    add: "addCapacity b (length bs) =
      Ret (b\<lparr>m_nodes := m_nodes b @ replicate k (new_node ?base),
             m_capacity := ?base * (length (m_nodes b) + k),
             m_write_node := node_at ?base (length (m_nodes b) + k) ?w\<rparr>) ()"
    and room: "?w + length bs \<le> ?base * (length (m_nodes b) + k)"
    using addCapacity_spec [OF inv, of "length bs"] by auto
  let ?ns = "m_nodes b @ replicate k (new_node ?base)" and ?i = "?w div ?base"
  have base: "0 < ?base" using inv by (simp add: ba_inv_def)
  have u: "uniform ?base ?ns"
    using inv by (simp add: ba_inv_def uniform_replicate new_node_def)
  have lt: "?w < ?base * length ?ns" using room False by (cases bs) auto
  have i: "?i < length ?ns"
    using lt by (simp add: less_mult_imp_div_less mult.commute)
  have nd: "node_at ?base (length (m_nodes b) + k) ?w = Some ?i"
    using i by (simp add: node_at_def)
  have li: "length (?ns ! ?i) = ?base" using u i by (rule uniform_nth)
  obtain ns' where ns':
    "write_loop ?ns ?i ?w (?w mod ?base) bs =
       Some (ns', node_at ?base (length ?ns) (?w + length bs), ?w + length bs)"
    "concat ns' = overwrite (concat ?ns) ?w bs" "uniform ?base ns'" "length ns' = length ?ns"
    using write_loop_spec [OF u base i, of "?w mod ?base" bs ?w] base room False
    by auto
  have sz: "?w \<le> m_size b" "m_size b \<le> length (concat (m_nodes b))"
    using inv length_concat_nodes [OF inv] by (auto simp: ba_inv_def)
  have lc: "length (concat ?ns) = ?base * length ?ns"
    using u by (rule length_concat_uniform)
  have lenc: "?w + length bs \<le> length (concat ?ns)" "m_size b \<le> length (concat ?ns)"
    using room sz lc by auto
  have cont: "take (max (m_size b) (?w + length bs)) (concat ns') =
      overwrite (ba_content b) ?w bs"
    using take_overwrite_grow [OF sz(1) lenc] sz(2) ns'(2)
    by (simp add: ba_content_def)
  let ?s = "if m_size b < ?w + length bs then ?w + length bs else m_size b"
  have mx: "?s = max (m_size b) (?w + length bs)" by simp
  define b' where "b' = b\<lparr>m_nodes := ns', m_capacity := ?base * (length (m_nodes b) + k),
      m_write_node := node_at ?base (length (m_nodes b) + k) (?w + length bs),
      m_write_position := ?w + length bs, m_size := ?s\<rparr>"
  have "ba_write b bs = Ret b' ()"
    using False add nd i base li ns'(1)
    by (simp add: ba_write_def b'_def)
  moreover have "m_read_node b' = node_at ?base (length ns') (m_read_position b') \<or>
      m_read_node b' = None \<and> m_read_position b' mod ?base = 0"
    using read_node_grow [OF inv, of k] ns'(4) by (simp add: b'_def)
  then have "ba_inv b'"
    using inv ns'(3,4) base room sz lenc(2) lc
    by (simp add: ba_inv_def b'_def) auto
  moreover have "ba_abs b' = buffer_write bs (ba_abs b)"
    using cont unfolding mx [symmetric]
    by (simp add: ba_abs_def b'_def buffer_write_def ba_content_def)
  ultimately show ?thesis by (auto simp: wrote_def b'_def)
qed

text \<open>One \<open>read\<close>, with the read pointer in step.\<close>

definition ba_readable :: "bytearray \<Rightarrow> bool" where
  "ba_readable b \<longleftrightarrow> m_read_node b \<noteq> None"

definition did_read :: "bytearray \<Rightarrow> nat \<Rightarrow> bytearray \<Rightarrow> bytes \<Rightarrow> bool" where
  "did_read b n b' bs \<longleftrightarrow> ba_inv b' \<and> (bs, ba_abs b') = buffer_read n (ba_abs b) \<and>
     m_endian b' = m_endian b \<and> m_base_node_size b' = m_base_node_size b \<and>
     m_size b' = m_size b \<and> (m_read_position b' < m_size b' \<longrightarrow> ba_readable b')"

lemma window_content:
  "p + n \<le> m_size b \<Longrightarrow> window (concat (m_nodes b)) p n = window (ba_content b) p n"
  by (simp add: ba_content_def window_take)

lemma readable_block:
  assumes "ba_inv b" "ba_readable b"
  shows "m_read_node b = Some (m_read_position b div m_base_node_size b)"
    and "m_read_position b div m_base_node_size b < length (m_nodes b)"
  using assms by (auto simp: ba_inv_def ba_readable_def node_at_def split: if_splits)

lemma ba_read_did_read:
  assumes inv: "ba_inv b" and rd: "ba_readable b" and n: "n \<le> getReadSize b"
  shows "\<exists>b' bs. ba_read b n = Ret b' bs \<and> did_read b n b' bs"
proof -
  let ?base = "m_base_node_size b" and ?r = "m_read_position b"
  let ?i = "?r div ?base" and ?ns = "m_nodes b"
  note nd = readable_block [OF inv rd]
  have b: "0 < ?base" "uniform ?base ?ns" "?r + n \<le> m_size b" "m_size b \<le> ?base * length ?ns"
    using inv n by (auto simp: ba_inv_def getReadSize_def)
  have li: "length (?ns ! ?i) = ?base" using b(2) nd(2) by (rule uniform_nth)
  show ?thesis
  proof (cases "n = 0")
    case True
    have "ba_read b 0 = Ret b []"
      using nd li b(1) by (simp add: ba_read_def read_loop.simps)
    then show ?thesis using True inv rd by (auto simp: did_read_def buffer_read_def ba_abs_def)
  next
    case False
    have "read_loop ?ns ?i ?r (?r mod ?base) n =
        Some (window (concat ?ns) ?r n, node_at ?base (length ?ns) (?r + n), ?r + n)"
      by (rule read_loop_spec) (use b nd False in auto)
    then have "ba_read b n = Ret (b\<lparr>m_read_node := node_at ?base (length ?ns) (?r + n),
        m_read_position := ?r + n\<rparr>) (window (ba_content b) ?r n)"
      using nd li b n by (simp add: ba_read_def window_content)
    moreover have "?r + n < m_size b \<Longrightarrow> (?r + n) div ?base < length ?ns"
      using b by (simp add: div_less_iff_less_mult mult.commute)
    ultimately show ?thesis
      using inv b by (auto simp: did_read_def buffer_read_def ba_abs_def ba_content_def
          ba_inv_def ba_readable_def node_at_def)
  qed
qed

lemma ba_read_short:
  "getReadSize b < n \<Longrightarrow> ba_read b n = Thr b out_of_range"
  by (simp add: ba_read_def)

lemma setReadPosition_inv:
  assumes "ba_inv b" "v \<le> m_size b"
  shows "\<exists>b'. setReadPosition b v = Ret b' () \<and> ba_inv b' \<and>
    ba_abs b' = (ba_abs b)\<lparr>read_pos := v\<rparr> \<and> (ba_readable b' \<longleftrightarrow> v < m_capacity b)"
proof -
  have "v \<le> m_capacity b" using assms by (simp add: ba_inv_def)
  note s = seek_from_root [OF assms(1) this]
  let ?nd = "node_at (m_base_node_size b) (length (m_nodes b)) v"
  have "v div m_base_node_size b < length (m_nodes b) \<longleftrightarrow> v < m_capacity b"
    using assms by (simp add: ba_inv_def div_less_iff_less_mult mult.commute)
  then show ?thesis
    using assms s
    by (auto simp: setReadPosition_def ba_inv_def ba_abs_def ba_content_def ba_readable_def
        node_at_def)
qed

lemma setWritePosition_inv:
  assumes "ba_inv b" "v \<le> m_capacity b"
  shows "\<exists>b'. setWritePosition b v = Ret b' () \<and> ba_inv b' \<and> write_pos (ba_abs b') = v \<and>
    take (m_size b) (content (ba_abs b')) = content (ba_abs b) \<and>
    length (content (ba_abs b')) = max (m_size b) v"
proof -
  note s = seek_from_root [OF assms]
  let ?nd = "node_at (m_base_node_size b) (length (m_nodes b)) v"
  let ?b = "b\<lparr>m_write_position := v, m_size := (if m_size b < v then v else m_size b),
                 m_write_node := ?nd\<rparr>"
  have r: "setWritePosition b v = Ret ?b ()"
    using assms s by (simp add: setWritePosition_def)
  have i: "ba_inv ?b" using assms by (simp add: ba_inv_def)
  have "length (content (ba_abs ?b)) = max (m_size b) v"
    using length_ba_content [OF i] by (simp add: ba_abs_def)
  moreover have "take (m_size b) (content (ba_abs ?b)) = content (ba_abs b)"
    by (simp add: ba_abs_def ba_content_def min_def)
  ultimately show ?thesis using r i by (auto simp: ba_abs_def)
qed

section \<open>Views, files and printing\<close>

lemma iov_loop_spec:
  assumes "uniform base ns" "0 < base" "i < length ns" "off < base"
    and "i * base + off + n \<le> base * length ns"
  shows "\<exists>iovs. iov_loop ns i off n = Some iovs \<and>
           gather ns iovs = window (concat ns) (i * base + off) n"
  using assms
proof (induction ns i off n rule: iov_loop.induct)
  case (1 ns i off n)
  have l: "length (ns ! i) = base" using 1(2-) by (simp add: uniform_nth)
  let ?cap = "base - off"
  show ?case
  proof (cases "n \<le> ?cap")
    case True
    then show ?thesis
      using 1(2-) l window_chunk [of base ns i off n] by (subst iov_loop.simps) simp
  next
    case False
    have suc: "Suc i < length ns"
    proof (rule ccontr)
      assume "\<not> Suc i < length ns"
      then have "length ns = Suc i" using 1(2-) by simp
      then have "base * length ns = i * base + base" by simp
      then show False using 1(2-) False by linarith
    qed
    have "\<exists>iovs. iov_loop ns (Suc i) 0 (n - ?cap) = Some iovs \<and>
        gather ns iovs = window (concat ns) (i * base + off + ?cap) (n - ?cap)"
      using 1(1) [of ?cap] 1(2-) False suc l by (simp add: add.commute)
    moreover have "window (ns ! i) off ?cap = window (concat ns) (i * base + off) ?cap"
      using window_chunk [of base ns i off ?cap] 1(2-) by simp
    moreover have "window (concat ns) (i * base + off) ?cap @
        window (concat ns) (i * base + off + ?cap) (n - ?cap) =
        window (concat ns) (i * base + off) n"
      using window_append [of "concat ns" "i * base + off" ?cap "n - ?cap"] False by simp
    ultimately show ?thesis
      using 1(2-) l False suc by (subst iov_loop.simps) auto
  qed
qed

lemma getReadBuffers_spec:
  assumes inv: "ba_inv b" and rd: "ba_readable b"
  shows "\<exists>iovs. getReadBuffers b len = Ret b (iovs, min len (getReadSize b)) \<and>
    gather (m_nodes b) iovs =
      window (ba_content b) (m_read_position b) (min len (getReadSize b))"
proof (cases "min len (getReadSize b) = 0")
  case True
  then show ?thesis by (simp add: getReadBuffers_def)
next
  case False
  note nd = readable_block [OF inv rd]
  let ?n = "min len (getReadSize b)" and ?r = "m_read_position b" and ?base = "m_base_node_size b"
  have b: "0 < ?base" "uniform ?base (m_nodes b)" "?r + ?n \<le> m_size b"
    "m_size b \<le> ?base * length (m_nodes b)"
    using inv by (auto simp: ba_inv_def getReadSize_def)
  then have "\<exists>iovs. iov_loop (m_nodes b) (?r div ?base) (?r mod ?base) ?n = Some iovs \<and>
      gather (m_nodes b) iovs = window (concat (m_nodes b)) ?r ?n"
    using iov_loop_spec [OF b(2,1) nd(2), of "?r mod ?base" ?n] by simp
  then show ?thesis
    using False nd b window_content [OF b(3)] by (auto simp: getReadBuffers_def Let_def)
qed

lemma file_loop_spec:
  assumes "uniform base ns" "0 < base" "off < base" "i < length ns \<or> n = 0"
    and "i * base + off + n \<le> base * length ns"
  shows "file_loop ns i off n = Some (window (concat ns) (i * base + off) n)"
  using assms
proof (induction ns i off n rule: file_loop.induct)
  case (1 ns i off n)
  show ?case
  proof (cases "n = 0")
    case True then show ?thesis by (simp add: file_loop.simps)
  next
    case False
    then have i: "i < length ns" using 1(2-) by simp
    have l: "length (ns ! i) = base" using 1(2-) i by (simp add: uniform_nth)
    let ?len = "if base - off < n then base - off else n"
    have "Suc i < length ns \<or> n - ?len = 0"
    proof (rule ccontr)
      assume a: "\<not> (Suc i < length ns \<or> n - ?len = 0)"
      then have "length ns = Suc i" using i by simp
      then have "base * length ns = i * base + base" by simp
      then show False using 1(2-) a by (auto split: if_splits)
    qed
    moreover have "Suc i * base + 0 + (n - ?len) \<le> base * length ns"
    proof (cases "base - off < n")
      case True
      then show ?thesis using 1(2-) by simp
    next
      case False
      have "Suc i * base \<le> length ns * base" using i by (intro mult_le_mono1) simp
      then show ?thesis using False by (simp add: mult.commute)
    qed
    ultimately have "file_loop ns (Suc i) 0 (n - ?len) =
        Some (window (concat ns) (Suc i * base + 0) (n - ?len))"
      by (intro 1(1)) (use False i 1(2-) l in auto)
    moreover have "window (ns ! i) off ?len = window (concat ns) (i * base + off) ?len"
      by (intro window_chunk) (use 1(2-) i in auto)
    moreover have "window (concat ns) (i * base + off) ?len @
        window (concat ns) (Suc i * base + 0) (n - ?len) = window (concat ns) (i * base + off) n"
      using window_append [of "concat ns" "i * base + off" ?len "n - ?len"] 1(2-)
      by (auto simp: algebra_simps)
    ultimately show ?thesis
      using False i l
      by (subst file_loop.simps) (auto simp: Let_def simp del: mult_Suc split: if_splits)
  qed
qed

lemma writeToFile_spec:
  assumes inv: "ba_inv b" and rd: "ba_readable b"
  shows "writeToFile b = Ret b (drop (m_read_position b) (ba_content b))"
proof -
  note nd = readable_block [OF inv rd]
  let ?r = "m_read_position b" and ?base = "m_base_node_size b"
  have b: "0 < ?base" "uniform ?base (m_nodes b)" "?r + getReadSize b = m_size b"
    "m_size b \<le> ?base * length (m_nodes b)"
    using inv by (auto simp: ba_inv_def getReadSize_def)
  have "file_loop (m_nodes b) (?r div ?base) (?r mod ?base) (getReadSize b) =
      Some (window (concat (m_nodes b)) ?r (getReadSize b))"
    using file_loop_spec [of ?base "m_nodes b" "?r mod ?base" "?r div ?base" "getReadSize b"] b nd
    by simp
  moreover have "window (concat (m_nodes b)) ?r (getReadSize b) = drop ?r (ba_content b)"
    using b by (simp add: window_def ba_content_def drop_take getReadSize_def)
  ultimately show ?thesis
    using nd b uniform_nth [OF b(2) nd(2)] by (simp add: writeToFile_def)
qed

lemma overwrite_grow:
  assumes "p \<le> length xs"
  shows "overwrite (overwrite xs p ys) (p + length ys) zs = overwrite xs p (ys @ zs)"
proof -
  have "take (p + length ys) (overwrite xs p ys) = take p xs @ ys"
    using assms by (simp add: overwrite_def min_def)
  moreover have "drop (p + length ys + length zs) (overwrite xs p ys) =
      drop (p + length (ys @ zs)) xs"
    using assms by (simp add: overwrite_def min_def ac_simps)
  ultimately show ?thesis by (simp add: overwrite_def [of _ "p + length ys"] overwrite_def [of xs p "ys @ zs"])
qed

lemma wrote_trans:
  assumes "ba_inv b" "wrote b xs b1" "wrote b1 ys b2"
  shows "wrote b (xs @ ys) b2"
proof -
  let ?c = "ba_content b" and ?w = "m_write_position b"
  have "?w \<le> length ?c" using assms(1) length_ba_content [OF assms(1)] by (simp add: ba_inv_def)
  then have "overwrite (overwrite ?c ?w xs) (?w + length xs) ys = overwrite ?c ?w (xs @ ys)"
    by (rule overwrite_grow)
  then show ?thesis using assms by (simp add: wrote_def buffer_write_def ba_abs_def add.assoc)
qed

lemma readFromFile_wrote:
  assumes "ba_inv b" "m_base_node_size b < 2 ^ 31"
  shows "\<exists>b'. readFromFile b fs = Ret b' () \<and> wrote b fs b'"
  using assms
proof (induction b fs rule: readFromFile.induct)
  case (1 b fs)
  let ?s = "m_base_node_size b"
  have s: "?s \<noteq> 0" using 1 by (simp add: ba_inv_def)
  show ?case
  proof (cases "length fs < ?s")
    case True
    then show ?thesis using s 1 ba_write_wrote [of b fs] by (subst readFromFile.simps) simp
  next
    case False
    obtain b1 where b1: "ba_write b (take ?s fs) = Ret b1 ()" "wrote b (take ?s fs) b1"
      using ba_write_wrote [OF 1(2), of "take ?s fs"] 1(3) False by auto
    then obtain b2 where b2: "readFromFile b1 (drop ?s fs) = Ret b2 ()"
      "wrote b1 (drop ?s fs) b2"
      using 1(1) [OF s False b1(1)] 1(3) by (auto simp: wrote_def)
    then show ?thesis
      using wrote_trans [OF 1(2) b1(2) b2(2)] s False b1(1) by (subst readFromFile.simps) simp
  qed
qed

section \<open>Properties\<close>

text \<open>C1. Refinement of \<open>write\<close>: in every state the class can reach, writing a buffer returns,
  keeps the storage invariant and has exactly the effect of the abstract buffer: the bytes are
  laid over the content at the write cursor, nothing else of the content changes, the read
  cursor and the byte order stay.\<close>

theorem write_refines:
  assumes "ba_inv b" "length bs < 2 ^ 31"
  shows "\<exists>b'. ba_write b bs = Ret b' () \<and> ba_inv b' \<and>
    ba_abs b' = buffer_write bs (ba_abs b) \<and> m_endian b' = m_endian b"
  using ba_write_wrote [OF assms] by (auto simp: wrote_def)

theorem write_refines_witness:
  "\<exists>b'. ba_write (ByteArray_new 4) [1, 2, 3, 4, 5] = Ret b' () \<and> ba_inv b' \<and>
    ba_abs b' = buffer_write [1, 2, 3, 4, 5] (ba_abs (ByteArray_new 4)) \<and>
    m_endian b' = m_endian (ByteArray_new 4)"
  using write_refines [of "ByteArray_new 4" "[1, 2, 3, 4, 5]"] ba_inv_new [of 4] by simp

text \<open>C2. Refinement of \<open>read\<close>: while the read pointer is set, a read of \<open>n\<close> bytes returns the
  next \<open>n\<close> bytes of the content and advances the read cursor by \<open>n\<close>; a read of more than is
  there throws \<open>out_of_range\<close> and changes nothing.\<close>

theorem read_refines:
  assumes "ba_inv b" "ba_readable b"
  shows "if n \<le> getReadSize b
    then \<exists>b' bs. ba_read b n = Ret b' bs \<and> ba_inv b' \<and>
      (bs, ba_abs b') = buffer_read n (ba_abs b)
    else ba_read b n = Thr b out_of_range"
proof (cases "n \<le> getReadSize b")
  case True
  then show ?thesis using ba_read_did_read [OF assms True] by (auto simp: did_read_def)
next
  case False
  then show ?thesis by (simp add: ba_read_short)
qed

theorem read_refines_witness:
  "ba_read (ByteArray_new 4) 1 = Thr (ByteArray_new 4) out_of_range"
  using read_refines [of "ByteArray_new 4" 1] ba_inv_new [of 4]
  by (simp add: ba_readable_def getReadSize_def ByteArray_new_def)

text \<open>Seeking: \<open>setReadPosition\<close> accepts exactly the positions up to the size, keeps the
  invariant and changes only the cursor; the array can be read afterwards unless the
  position is the end of the last block, where the pointer becomes null.\<close>

theorem seek_correct:
  assumes "ba_inv b"
  shows "if v \<le> m_size b
    then \<exists>b'. setReadPosition b v = Ret b' () \<and> ba_inv b' \<and>
      ba_abs b' = (ba_abs b)\<lparr>read_pos := v\<rparr> \<and> (ba_readable b' \<longleftrightarrow> v < m_capacity b)
    else setReadPosition b v = Thr b out_of_range"
  using setReadPosition_inv [OF assms, of v] by (auto simp: setReadPosition_def)

theorem seek_correct_witness:
  "setReadPosition (ByteArray_new 4) 1 = Thr (ByteArray_new 4) out_of_range"
  using seek_correct [of "ByteArray_new 4" 1] ba_inv_new [of 4]
  by (simp add: ByteArray_new_def)

lemma replicate_2: "replicate 2 x = [x, x]"
  by (simp add: numeral_2_eq_2)

lemmas ba_eval = ByteArray_new_def new_node_def ba_write_def ba_read_def addCapacity_def
  getFreeCapacity_def getReadSize_def Let_def write_loop.simps read_loop.simps next_node_def
  overwrite_def window_def byte_order_defs replicate_2

text \<open>The null read pointer is not repaired by later writes: after reading up to the end of
  the last block, writing one more byte leaves a readable byte that \<open>read\<close> cannot reach, it
  dereferences the null pointer. The state satisfies the storage invariant.\<close>

theorem read_after_block_end_undefined:
  "obind (ba_write (ByteArray_new 2) [1, 2]) (\<lambda>b _.
   obind (ba_read b 2) (\<lambda>b _.
   obind (ba_write b [3]) (\<lambda>b _. Ret b (getReadSize b, ba_read b 1)))) =
   Ret \<lparr>m_base_node_size = 2, m_capacity = 4, m_size = 3, m_endian = 2,
        m_nodes = [[1, 2], [3, 0]], m_read_node = None, m_write_node = Some 1,
        m_read_position = 2, m_write_position = 3\<rparr> (1, Ub)"
  by (simp add: ba_eval)

text \<open>Files: \<open>readFromFile\<close> appends the bytes of the file, however they fall into blocks,
  and \<open>writeToFile\<close> writes exactly the unread bytes, so a file read into a fresh array and
  written out again is the same file.\<close>

theorem file_copy:
  assumes "0 < s" "s < 2 ^ 31"
  shows "\<exists>b. readFromFile (ByteArray_new s) fs = Ret b () \<and> writeToFile b = Ret b fs"
proof -
  obtain b where b: "readFromFile (ByteArray_new s) fs = Ret b ()" "wrote (ByteArray_new s) fs b"
    using readFromFile_wrote [OF ba_inv_new [OF assms(1)]] assms(2)
    by (auto simp: ByteArray_new_def)
  then have "ba_inv b" "ba_readable b" "ba_content b = fs" "m_read_position b = 0"
    by (auto simp: wrote_def ba_readable_def ba_abs_def buffer_write_def ByteArray_new_def
        ba_content_def overwrite_def)
  then show ?thesis using b(1) writeToFile_spec by auto
qed

theorem file_copy_witness:
  "\<exists>b. readFromFile (ByteArray_new 2) [1, 2, 3] = Ret b () \<and> writeToFile b = Ret b [1, 2, 3]"
  using file_copy [of 2 "[1, 2, 3]"] by simp

end
