(* ===== verification/ByteArrayCodec.thy ===== *)
theory ByteArrayCodec
  imports ByteArrays
begin

text \<open>
  Model of the serialisation interface of \<open>ByteArray\<close> (\<open>src/Bytearray.cc\<close>): integers of fixed
  width in the array's byte order, variable-length integers, zigzag signed integers, floating
  point numbers (by their bit patterns), strings behind a length prefix, and printing.

  Signed and unsigned integers of one width share a word type. Two contracts carry the
  round-trip theorems: \<open>byte_stream\<close> (what a codec needs of the storage) and \<open>codec\<close> (a
  writer and the reader that undoes it). The model interprets both.
\<close>

section \<open>Integers of fixed width\<close>

text \<open>The macros \<open>WRITE_FIXED\<close> and \<open>READ_FIXED\<close>, for values of \<open>n\<close> bytes.\<close>

definition WRITE_FIXED :: "nat \<Rightarrow> bytearray \<Rightarrow> 'a::len word \<Rightarrow> unit ba_result" where
  "WRITE_FIXED n b value =
     ba_write b (le_bytes n (if m_endian b \<noteq> MY_BYTE_ORDER then bswap n value else value))"

definition READ_FIXED :: "nat \<Rightarrow> bytearray \<Rightarrow> 'a::len word ba_result" where
  "READ_FIXED n b = omap (\<lambda>bs. let v = of_le bs in
     if m_endian b \<noteq> MY_BYTE_ORDER then bswap n v else v) (ba_read b n)"

definition writeFint8 :: "bytearray \<Rightarrow> u8 \<Rightarrow> unit ba_result" where
  "writeFint8 b value = ba_write b [value]"
definition writeFuint8 :: "bytearray \<Rightarrow> u8 \<Rightarrow> unit ba_result" where
  "writeFuint8 b value = ba_write b [value]"
definition writeFint16 :: "bytearray \<Rightarrow> u16 \<Rightarrow> unit ba_result" where
  "writeFint16 b value = WRITE_FIXED 2 b value"
definition writeFuint16 :: "bytearray \<Rightarrow> u16 \<Rightarrow> unit ba_result" where
  "writeFuint16 b value = WRITE_FIXED 2 b value"
definition writeFint32 :: "bytearray \<Rightarrow> u32 \<Rightarrow> unit ba_result" where
  "writeFint32 b value = WRITE_FIXED 4 b value"
definition writeFuint32 :: "bytearray \<Rightarrow> u32 \<Rightarrow> unit ba_result" where
  "writeFuint32 b value = WRITE_FIXED 4 b value"
definition writeFint64 :: "bytearray \<Rightarrow> u64 \<Rightarrow> unit ba_result" where
  "writeFint64 b value = WRITE_FIXED 8 b value"
definition writeFuint64 :: "bytearray \<Rightarrow> u64 \<Rightarrow> unit ba_result" where
  "writeFuint64 b value = WRITE_FIXED 8 b value"

definition readFint8 :: "bytearray \<Rightarrow> u8 ba_result" where
  "readFint8 b = omap (\<lambda>bs. of_le bs) (ba_read b 1)"
definition readFuint8 :: "bytearray \<Rightarrow> u8 ba_result" where
  "readFuint8 b = omap (\<lambda>bs. of_le bs) (ba_read b 1)"
definition readFint16 :: "bytearray \<Rightarrow> u16 ba_result" where
  "readFint16 b = READ_FIXED 2 b"
definition readFuint16 :: "bytearray \<Rightarrow> u16 ba_result" where
  "readFuint16 b = READ_FIXED 2 b"
definition readFint32 :: "bytearray \<Rightarrow> u32 ba_result" where
  "readFint32 b = READ_FIXED 4 b"
definition readFuint32 :: "bytearray \<Rightarrow> u32 ba_result" where
  "readFuint32 b = READ_FIXED 4 b"
definition readFint64 :: "bytearray \<Rightarrow> u64 ba_result" where
  "readFint64 b = READ_FIXED 8 b"
definition readFuint64 :: "bytearray \<Rightarrow> u64 ba_result" where
  "readFuint64 b = READ_FIXED 8 b"

section \<open>Zigzag\<close>

text \<open>
  \<open>-v\<close> overflows at \<open>INT_MIN\<close>, \<open>v * 2\<close> is a multiplication of signed integers and overflows
  from \<open>2^30\<close> (\<open>2^62\<close>) on; both are undefined, hence \<open>None\<close>.
\<close>

definition EncodeZigzag32 :: "u32 \<Rightarrow> u32 option" where
  "EncodeZigzag32 v =
     (if sint v < 0 then
        (if sint v = - (2 ^ 31) then None else Some ((- v) * 2 - 1))
      else if sint v * 2 < 2 ^ 31 then Some (v * 2) else None)"

definition EncodeZigzag64 :: "u64 \<Rightarrow> u64 option" where
  "EncodeZigzag64 v =
     (if sint v < 0 then
        (if sint v = - (2 ^ 63) then None else Some ((- v) * 2 - 1))
      else if sint v * 2 < 2 ^ 63 then Some (v * 2) else None)"

definition DecodeZigzag32 :: "u32 \<Rightarrow> u32" where
  "DecodeZigzag32 v = drop_bit 1 v XOR - (v AND 1)"

definition DecodeZigzag64 :: "u64 \<Rightarrow> u64" where
  "DecodeZigzag64 v = drop_bit 1 v XOR - (v AND 1)"

section \<open>Integers of variable length\<close>

lemma unat_drop_7: "unat (drop_bit 7 v) = unat v div 2 ^ 7"
  by (subst unat_drop_bit_eq) (rule drop_bit_eq_div)

text \<open>The bytes that the loops of \<open>writeUint32\<close> and \<open>writeUint64\<close> store in \<open>tmp\<close>.\<close>

function varint_bytes :: "'a::len word \<Rightarrow> bytes" where
  "varint_bytes value =
     (if value < 0x80 \<or> LENGTH('a) < 8 then [ucast value]
      else (ucast (value AND 0x7f) OR 0x80) # varint_bytes (drop_bit 7 value))"
  by pat_completeness auto
termination
proof (relation "measure (\<lambda>v. unat v)")
  fix v :: "'a word"
  assume a: "\<not> (v < 0x80 \<or> LENGTH('a) < 8)"
  have "0 < unat v"
  proof (rule ccontr)
    assume "\<not> 0 < unat v"
    then have "v = 0" by (simp add: unat_eq_0)
    moreover have "(0x80 :: 'a word) \<noteq> 0"
    proof -
      have "bit (0x80 :: 'a word) 7" using a by (simp add: bit_numeral_rec)
      then show ?thesis by (metis bit_0_eq bot_apply bot_bool_def)
    qed
    ultimately show False using a by (simp add: word_gt_0)
  qed
  moreover note unat_drop_7 [of v]
  ultimately show "(drop_bit 7 v, v) \<in> measure unat"
    by (simp only: in_measure) simp
qed simp

declare varint_bytes.simps [simp del]

definition writeUint32 :: "bytearray \<Rightarrow> u32 \<Rightarrow> unit ba_result" where
  "writeUint32 b value = ba_write b (varint_bytes value)"

definition writeUint64 :: "bytearray \<Rightarrow> u64 \<Rightarrow> unit ba_result" where
  "writeUint64 b value = ba_write b (varint_bytes value)"

definition writeInt32 :: "bytearray \<Rightarrow> u32 \<Rightarrow> unit ba_result" where
  "writeInt32 b value =
     (case EncodeZigzag32 value of None \<Rightarrow> Ub | Some v \<Rightarrow> writeUint32 b v)"

definition writeInt64 :: "bytearray \<Rightarrow> u64 \<Rightarrow> unit ba_result" where
  "writeInt64 b value =
     (case EncodeZigzag64 value of None \<Rightarrow> Ub | Some v \<Rightarrow> writeUint64 b v)"

text \<open>The \<open>for\<close> loop of \<open>readUint32\<close> (\<open>w = 32\<close>) and \<open>readUint64\<close> (\<open>w = 64\<close>).\<close>

function varint_loop :: "nat \<Rightarrow> nat \<Rightarrow> 'a::len word \<Rightarrow> bytearray \<Rightarrow> 'a word ba_result" where
  "varint_loop w i result b =
     (if i < w then
        (case readFuint8 b of
           Ret b n \<Rightarrow>
             (if n < 0x80 then Ret b (result OR push_bit i (ucast n))
              else varint_loop w (i + 7) (result OR push_bit i (ucast (n AND 0x7f))) b)
         | Thr b e \<Rightarrow> Thr b e
         | Ub \<Rightarrow> Ub)
      else Ret b result)"
  by pat_completeness auto
termination
  by (relation "measure (\<lambda>(w, i, result, b). w - i)") auto

declare varint_loop.simps [simp del]

definition readUint32 :: "bytearray \<Rightarrow> u32 ba_result" where
  "readUint32 b = varint_loop 32 0 0 b"

definition readUint64 :: "bytearray \<Rightarrow> u64 ba_result" where
  "readUint64 b = varint_loop 64 0 0 b"

definition readInt32 :: "bytearray \<Rightarrow> u32 ba_result" where
  "readInt32 b = omap DecodeZigzag32 (readUint32 b)"

definition readInt64 :: "bytearray \<Rightarrow> u64 ba_result" where
  "readInt64 b = omap DecodeZigzag64 (readUint64 b)"

section \<open>Floating point numbers, by their bits\<close>

definition writeFloat :: "bytearray \<Rightarrow> u32 \<Rightarrow> unit ba_result" where
  "writeFloat b bits = writeFint32 b bits"
definition writeDouble :: "bytearray \<Rightarrow> u64 \<Rightarrow> unit ba_result" where
  "writeDouble b bits = writeFint64 b bits"
definition readFloat :: "bytearray \<Rightarrow> u32 ba_result" where
  "readFloat b = readFuint32 b"
definition readDouble :: "bytearray \<Rightarrow> u64 ba_result" where
  "readDouble b = readFuint64 b"

section \<open>Strings\<close>

text \<open>The implicit conversion of \<open>value.size()\<close> to the prefix type keeps the low bits.\<close>

definition writeStringF16 :: "bytearray \<Rightarrow> bytes \<Rightarrow> unit ba_result" where
  "writeStringF16 b value =
     obind (writeFuint16 b (of_nat (length value))) (\<lambda>b _. ba_write b value)"
definition writeStringF32 :: "bytearray \<Rightarrow> bytes \<Rightarrow> unit ba_result" where
  "writeStringF32 b value =
     obind (writeFuint32 b (of_nat (length value))) (\<lambda>b _. ba_write b value)"
definition writeStringF64 :: "bytearray \<Rightarrow> bytes \<Rightarrow> unit ba_result" where
  "writeStringF64 b value =
     obind (writeFuint64 b (of_nat (length value))) (\<lambda>b _. ba_write b value)"
definition writeStringVint :: "bytearray \<Rightarrow> bytes \<Rightarrow> unit ba_result" where
  "writeStringVint b value =
     obind (writeUint64 b (of_nat (length value))) (\<lambda>b _. ba_write b value)"
definition writeStringWithoutLength :: "bytearray \<Rightarrow> bytes \<Rightarrow> unit ba_result" where
  "writeStringWithoutLength b value = ba_write b value"

text \<open>
  \<open>buff.resize(len)\<close> throws \<open>length_error\<close> above \<open>max_size\<close>, which only a 64-bit prefix
  reaches.
\<close>

definition resize_read :: "bytearray \<Rightarrow> nat \<Rightarrow> bytes ba_result" where
  "resize_read b len = (if 2 ^ 63 \<le> len then Thr b length_error else ba_read b len)"

definition readStringF16 :: "bytearray \<Rightarrow> bytes ba_result" where
  "readStringF16 b = obind (readFuint16 b) (\<lambda>b len. ba_read b (unat len))"
definition readStringF32 :: "bytearray \<Rightarrow> bytes ba_result" where
  "readStringF32 b = obind (readFuint32 b) (\<lambda>b len. ba_read b (unat len))"
definition readStringF64 :: "bytearray \<Rightarrow> bytes ba_result" where
  "readStringF64 b = obind (readFuint64 b) (\<lambda>b len. resize_read b (unat len))"
definition readStringVint :: "bytearray \<Rightarrow> bytes ba_result" where
  "readStringVint b = obind (readUint64 b) (\<lambda>b len. resize_read b (unat len))"

section \<open>Byte order and printing\<close>

definition isLittleEndian :: "bytearray \<Rightarrow> bool" where
  "isLittleEndian b \<longleftrightarrow> m_endian b = MY_LITTLE_ENDIAN"

definition setIsLittleEndian :: "bytearray \<Rightarrow> bool \<Rightarrow> bytearray" where
  "setIsLittleEndian b val =
     b\<lparr>m_endian := (if val then MY_LITTLE_ENDIAN else MY_BIG_ENDIAN)\<rparr>"

definition hex_digit :: "nat \<Rightarrow> char" where
  "hex_digit d = (if d < 10 then char_of (48 + d) else char_of (87 + d))"

fun hex_dump :: "nat \<Rightarrow> bytes \<Rightarrow> string" where
  "hex_dump i [] = []"
| "hex_dump i (c # cs) =
     (if 0 < i \<and> i mod 32 = 0 then [char_of (10::nat)] else []) @
     [hex_digit (unat c div 16), hex_digit (unat c mod 16), char_of (32::nat)] @
     hex_dump (Suc i) cs"

definition toHexString :: "bytearray \<Rightarrow> string ba_result" where
  "toHexString b = omap (hex_dump 0) (ba_toString b)"

section \<open>Contracts\<close>

text \<open>
  What a codec needs of the storage: a queue of unread bytes that \<open>put\<close> extends and \<open>get\<close>
  consumes, and a mode (the byte order) that neither changes.
\<close>

locale byte_stream =
  fixes put :: "'s \<Rightarrow> bytes \<Rightarrow> ('s, 'e, unit) outcome"
    and get :: "'s \<Rightarrow> nat \<Rightarrow> ('s, 'e, bytes) outcome"
    and unread :: "'s \<Rightarrow> bytes"
    and ok :: "'s \<Rightarrow> bool"
    and mode :: "'s \<Rightarrow> 'm"
  assumes put_ok: "ok s \<Longrightarrow> length bs < 2 ^ 31 \<Longrightarrow>
      \<exists>s'. put s bs = Ret s' () \<and> ok s' \<and> unread s' = unread s @ bs \<and> mode s' = mode s"
    and get_ok: "ok s \<Longrightarrow> n \<le> length (unread s) \<Longrightarrow>
      \<exists>s'. get s n = Ret s' (take n (unread s)) \<and> unread s' = drop n (unread s) \<and>
        mode s' = mode s \<and> (unread s' \<noteq> [] \<longrightarrow> ok s')"
begin

text \<open>\<open>s'\<close> is \<open>s\<close> with \<open>xs\<close> consumed; it can be used further unless it is exhausted.\<close>

definition consumed :: "'s \<Rightarrow> bytes \<Rightarrow> 's \<Rightarrow> bool" where
  "consumed s xs s' \<longleftrightarrow> unread s = xs @ unread s' \<and> mode s' = mode s \<and>
     (unread s' \<noteq> [] \<longrightarrow> ok s')"

lemma get_prefix:
  assumes "ok s" "unread s = xs @ ys" "length xs = n"
  shows "\<exists>s'. get s n = Ret s' xs \<and> consumed s xs s' \<and> unread s' = ys"
  using get_ok [of s n] assms by (auto simp: consumed_def)

lemma consumed_trans:
  "consumed s xs s1 \<Longrightarrow> consumed s1 ys s2 \<Longrightarrow> consumed s (xs @ ys) s2"
  by (simp add: consumed_def)

lemma consumed_ok: "consumed s xs s' \<Longrightarrow> unread s' \<noteq> [] \<Longrightarrow> ok s'"
  by (simp add: consumed_def)

lemma put_put:
  assumes "ok s" "length xs < 2 ^ 31" "length ys < 2 ^ 31"
  shows "\<exists>s'. obind (put s xs) (\<lambda>s _. put s ys) = Ret s' () \<and> ok s' \<and>
    unread s' = unread s @ xs @ ys \<and> mode s' = mode s"
proof -
  obtain s1 where s1: "put s xs = Ret s1 ()" "ok s1" "unread s1 = unread s @ xs" "mode s1 = mode s"
    using put_ok assms by blast
  obtain s2 where "put s1 ys = Ret s2 ()" "ok s2" "unread s2 = unread s1 @ ys" "mode s2 = mode s1"
    using put_ok s1(2) assms(3) by blast
  then show ?thesis using s1 by simp
qed

end

text \<open>Writing and reading a sequence of values.\<close>

fun write_seq :: "('s \<Rightarrow> 'v \<Rightarrow> ('s, 'e, unit) outcome) \<Rightarrow> 's \<Rightarrow> 'v list \<Rightarrow> ('s, 'e, unit) outcome"
where
  "write_seq wr s [] = Ret s ()"
| "write_seq wr s (v # vs) = obind (wr s v) (\<lambda>s _. write_seq wr s vs)"

fun read_seq :: "('s \<Rightarrow> ('s, 'e, 'v) outcome) \<Rightarrow> nat \<Rightarrow> 's \<Rightarrow> ('s, 'e, 'v list) outcome" where
  "read_seq rd 0 s = Ret s []"
| "read_seq rd (Suc n) s = obind (rd s) (\<lambda>s v. omap ((#) v) (read_seq rd n s))"

text \<open>A writer of values and the reader that undoes it, on top of a byte stream.\<close>

locale codec = byte_stream put get unread ok mode
  for put :: "'s \<Rightarrow> bytes \<Rightarrow> ('s, 'e, unit) outcome"
    and get :: "'s \<Rightarrow> nat \<Rightarrow> ('s, 'e, bytes) outcome"
    and unread :: "'s \<Rightarrow> bytes"
    and ok :: "'s \<Rightarrow> bool"
    and mode :: "'s \<Rightarrow> 'm" +
  fixes wr :: "'s \<Rightarrow> 'v \<Rightarrow> ('s, 'e, unit) outcome"
    and rd :: "'s \<Rightarrow> ('s, 'e, 'v) outcome"
    and enc :: "'m \<Rightarrow> 'v \<Rightarrow> bytes"
    and valid :: "'v \<Rightarrow> bool"
  assumes wr_enc: "ok s \<Longrightarrow> valid v \<Longrightarrow>
      \<exists>s'. wr s v = Ret s' () \<and> ok s' \<and> unread s' = unread s @ enc (mode s) v \<and>
        mode s' = mode s"
    and rd_enc: "ok s \<Longrightarrow> valid v \<Longrightarrow> unread s = enc (mode s) v @ rest \<Longrightarrow>
      \<exists>s'. rd s = Ret s' v \<and> consumed s (enc (mode s) v) s' \<and> unread s' = rest"
    and enc_ne: "valid v \<Longrightarrow> enc m v \<noteq> []"
begin

lemma write_seq_ok:
  "ok s \<Longrightarrow> list_all valid vs \<Longrightarrow>
    \<exists>s'. write_seq wr s vs = Ret s' () \<and> ok s' \<and>
      unread s' = unread s @ concat (map (enc (mode s)) vs) \<and> mode s' = mode s"
proof (induction vs arbitrary: s)
  case (Cons v vs)
  then obtain s1 where s1: "wr s v = Ret s1 ()" "ok s1" "unread s1 = unread s @ enc (mode s) v"
    "mode s1 = mode s"
    using wr_enc [of s v] by auto
  then show ?case using Cons by fastforce
qed simp

lemma read_seq_ok:
  "ok s \<or> vs = [] \<Longrightarrow> list_all valid vs \<Longrightarrow> unread s = concat (map (enc (mode s)) vs) @ rest \<Longrightarrow>
    \<exists>s'. read_seq rd (length vs) s = Ret s' vs \<and> unread s' = rest"
proof (induction vs arbitrary: s)
  case (Cons v vs)
  then obtain s1 where s1: "rd s = Ret s1 v" "consumed s (enc (mode s) v) s1"
    "unread s1 = concat (map (enc (mode s)) vs) @ rest"
    using rd_enc [of s v "concat (map (enc (mode s)) vs) @ rest"] by auto
  have m: "mode s1 = mode s" using s1 by (simp add: consumed_def)
  have "ok s1 \<or> vs = []"
  proof (cases vs)
    case (Cons v' vs')
    then have "unread s1 \<noteq> []" using s1(3) enc_ne Cons.prems by simp
    then show ?thesis using s1(2) consumed_ok by blast
  qed simp
  then obtain s2 where "read_seq rd (length vs) s1 = Ret s2 vs" "unread s2 = rest"
    using Cons.IH [of s1] Cons.prems s1(3) m by auto
  then show ?case using s1(1) by simp
qed simp

lemma round_trip:
  assumes "ok s" "unread s = []" "list_all valid vs"
  shows "\<exists>s1 s2. write_seq wr s vs = Ret s1 () \<and> read_seq rd (length vs) s1 = Ret s2 vs \<and>
    unread s2 = []"
  using write_seq_ok [OF assms(1,3)] read_seq_ok [of _ vs "[]"] assms(2,3) by force

end

section \<open>The model provides the contracts\<close>

definition ba_unread :: "bytearray \<Rightarrow> bytes" where
  "ba_unread b = drop (m_read_position b) (ba_content b)"

text \<open>Ready for appending and for reading: the write cursor at the end, the read block known.\<close>

definition ba_ok :: "bytearray \<Rightarrow> bool" where
  "ba_ok b \<longleftrightarrow> ba_inv b \<and> ba_readable b \<and> m_write_position b = m_size b"

lemma length_ba_unread: "ba_inv b \<Longrightarrow> length (ba_unread b) = getReadSize b"
  by (simp add: ba_unread_def length_ba_content getReadSize_def)

lemma ba_put_ok:
  assumes "ba_ok b" "length bs < 2 ^ 31"
  shows "\<exists>b'. ba_write b bs = Ret b' () \<and> ba_ok b' \<and> ba_unread b' = ba_unread b @ bs \<and>
    m_endian b' = m_endian b"
proof -
  have inv: "ba_inv b" and w: "m_write_position b = m_size b" and rd: "ba_readable b"
    using assms(1) by (auto simp: ba_ok_def)
  obtain b' where b': "ba_write b bs = Ret b' ()" "wrote b bs b'"
    using ba_write_wrote [OF inv assms(2)] by blast
  have c: "ba_content b' = ba_content b @ bs" "m_read_position b' = m_read_position b"
    "m_write_position b' = m_write_position b + length bs"
    using b'(2) length_ba_content [OF inv] w
    by (auto simp: wrote_def ba_abs_def buffer_write_def overwrite_def)
  moreover have "m_size b' = m_size b + length bs"
    using length_ba_content [of b'] length_ba_content [OF inv] b'(2) c(1) by (simp add: wrote_def)
  moreover have "ba_inv b'" "ba_readable b'" "m_endian b' = m_endian b"
    using b'(2) rd by (auto simp: wrote_def ba_readable_def)
  moreover have "m_read_position b \<le> m_size b" using inv by (simp add: ba_inv_def)
  ultimately show ?thesis
    using b'(1) w length_ba_content [OF inv] by (simp add: ba_ok_def ba_unread_def)
qed

lemma ba_get_ok:
  assumes "ba_ok b" "n \<le> length (ba_unread b)"
  shows "\<exists>b'. ba_read b n = Ret b' (take n (ba_unread b)) \<and> ba_unread b' = drop n (ba_unread b) \<and>
    m_endian b' = m_endian b \<and> (ba_unread b' \<noteq> [] \<longrightarrow> ba_ok b')"
proof -
  have inv: "ba_inv b" and rd: "ba_readable b" and w: "m_write_position b = m_size b"
    using assms(1) by (auto simp: ba_ok_def)
  have "n \<le> getReadSize b" using assms(2) length_ba_unread [OF inv] by simp
  then obtain b' bs where b': "ba_read b n = Ret b' bs" "did_read b n b' bs"
    using ba_read_did_read [OF inv rd] by blast
  have "bs = take n (ba_unread b)" "ba_unread b' = drop n (ba_unread b)"
    using b'(2) by (auto simp: did_read_def buffer_read_def ba_abs_def ba_unread_def window_def
        add.commute)
  moreover have "ba_unread b' \<noteq> [] \<longrightarrow> ba_ok b'"
    using b'(2) w length_ba_content [of b']
    by (auto simp: did_read_def buffer_read_def ba_abs_def ba_unread_def ba_ok_def)
  ultimately show ?thesis using b' by (auto simp: did_read_def)
qed

interpretation stream: byte_stream ba_write ba_read ba_unread ba_ok m_endian
  by unfold_locales (use ba_put_ok ba_get_ok in auto)

subsection \<open>Fixed width\<close>

definition fixed_enc :: "nat \<Rightarrow> nat \<Rightarrow> 'a::len word \<Rightarrow> bytes" where
  "fixed_enc n e v = le_bytes n (if e \<noteq> MY_BYTE_ORDER then bswap n v else v)"

lemma WRITE_FIXED_wr:
  "ba_ok b \<Longrightarrow> n < 2 ^ 31 \<Longrightarrow> \<exists>b'. WRITE_FIXED n b v = Ret b' () \<and> ba_ok b' \<and>
    ba_unread b' = ba_unread b @ fixed_enc n (m_endian b) v \<and> m_endian b' = m_endian b"
  using ba_put_ok [of b "fixed_enc n (m_endian b) v"]
  by (simp add: WRITE_FIXED_def fixed_enc_def)

lemma READ_FIXED_rd:
  fixes v :: "'a::len word"
  assumes "ba_ok b" "8 * n = LENGTH('a)" "ba_unread b = fixed_enc n (m_endian b) v @ rest"
  shows "\<exists>b'. READ_FIXED n b = Ret b' v \<and>
    stream.consumed b (fixed_enc n (m_endian b) v) b' \<and> ba_unread b' = rest"
  using stream.get_prefix [OF assms(1,3), of n] assms(2)
  by (auto simp: READ_FIXED_def fixed_enc_def of_le_le_bytes_full bswap_bswap)

lemmas fixed_defs = writeFint8_def writeFuint8_def writeFint16_def writeFuint16_def
  writeFint32_def writeFuint32_def writeFint64_def writeFuint64_def
  readFint8_def readFuint8_def readFint16_def readFuint16_def
  readFint32_def readFuint32_def readFint64_def readFuint64_def
  writeFloat_def writeDouble_def readFloat_def readDouble_def

lemma fixed_enc_ne: "0 < n \<Longrightarrow> fixed_enc n m v \<noteq> []"
  by (metis fixed_enc_def length_le_bytes list.size(3) less_numeral_extra(3))

interpretation fuint16: codec ba_write ba_read ba_unread ba_ok m_endian
  writeFuint16 readFuint16 "fixed_enc 2" "\<lambda>_. True"
  by unfold_locales
    (auto simp: fixed_defs fixed_enc_ne intro!: WRITE_FIXED_wr READ_FIXED_rd)

interpretation fuint32: codec ba_write ba_read ba_unread ba_ok m_endian
  writeFuint32 readFuint32 "fixed_enc 4" "\<lambda>_. True"
  by unfold_locales
    (auto simp: fixed_defs fixed_enc_ne intro!: WRITE_FIXED_wr READ_FIXED_rd)

interpretation fuint64: codec ba_write ba_read ba_unread ba_ok m_endian
  writeFuint64 readFuint64 "fixed_enc 8" "\<lambda>_. True"
  by unfold_locales
    (auto simp: fixed_defs fixed_enc_ne intro!: WRITE_FIXED_wr READ_FIXED_rd)

subsection \<open>Variable length\<close>

lemma small_iff_drop:
  fixes v :: "'a::len word"
  assumes "8 \<le> LENGTH('a)"
  shows "v < 0x80 \<longleftrightarrow> drop_bit 7 v = 0"
proof -
  have "unat (0x80 :: 'a word) = 2 ^ 7"
  proof -
    have "(128 :: nat) < 2 ^ LENGTH('a)"
      using power_increasing [OF assms, of "2 :: nat"] by simp
    then show ?thesis by (simp add: unsigned_numeral take_bit_nat_eq_self)
  qed
  then have "v < 0x80 \<longleftrightarrow> unat v < 2 ^ 7" by (simp only: word_less_nat_alt)
  also have "\<dots> \<longleftrightarrow> unat v div 2 ^ 7 = 0" by (simp add: div_eq_0_iff)
  also have "\<dots> \<longleftrightarrow> unat (drop_bit 7 v) = 0"
    by (simp only: unat_drop_7)
  finally show ?thesis by (simp only: unat_eq_0)
qed

lemma varint_bytes_ne: "varint_bytes v \<noteq> []"
  by (subst varint_bytes.simps) simp

text \<open>A value below \<open>2^(7 n)\<close> takes at most \<open>n\<close> bytes: the arrays \<open>tmp\<close> are long enough.\<close>

lemma length_varint_bytes:
  fixes v :: "'a::len word"
  assumes "8 \<le> LENGTH('a)" "unat v < 2 ^ (7 * n)" "0 < n"
  shows "length (varint_bytes v) \<le> n"
  using assms
proof (induction v arbitrary: n rule: varint_bytes.induct)
  case (1 v)
  show ?case
  proof (cases "v < 0x80")
    case True then show ?thesis using 1(4) by (subst varint_bytes.simps) simp
  next
    case False
    note d = unat_drop_7 [of v]
    obtain m where m: "n = Suc m" using 1(4) by (cases n) auto
    have "unat (drop_bit 7 v) \<noteq> 0"
      using False small_iff_drop [OF 1(2), of v] by (simp only: unat_eq_0) simp
    then have "unat v \<ge> 2 ^ 7" unfolding d by (metis div_less not_le)
    then have m0: "0 < m" using 1(3) m by (cases m) auto
    have "unat v div 2 ^ 7 < 2 ^ (7 * m)"
      using 1(3) m by (simp add: less_mult_imp_div_less power_add mult.commute)
    then have "length (varint_bytes (drop_bit 7 v)) \<le> m"
      using 1(1) [of m] False 1(2) d m0 by simp
    then show ?thesis using False 1(2) m by (subst varint_bytes.simps) simp
  qed
qed

lemma readFuint8_rd:
  assumes "ba_ok b" "ba_unread b = x # rest"
  shows "\<exists>b'. readFuint8 b = Ret b' x \<and> stream.consumed b [x] b' \<and> ba_unread b' = rest"
  using stream.get_prefix [OF assms(1), of "[x]" rest 1] assms(2)
  by (auto simp: readFuint8_def)

lemma drop_bit_nonzero_less:
  fixes w :: "'a::len word"
  assumes "drop_bit n w \<noteq> 0"
  shows "n < LENGTH('a)"
proof (rule ccontr)
  assume "\<not> n < LENGTH('a)"
  then have "drop_bit n w = 0"
    by (intro bit_word_eqI) (auto simp: bit_simps dest: bit_imp_le_length)
  then show False using assms by contradiction
qed

lemma varint_last_step:
  fixes w :: "'a::len word"
  assumes "drop_bit 7 (drop_bit i w) = 0"
  shows "take_bit i w OR push_bit i (ucast (ucast (drop_bit i w) :: u8)) = w"
proof (rule bit_word_eqI)
  fix k
  assume k: "k < LENGTH('a)"
  have "\<not> bit (drop_bit 7 (drop_bit i w)) (k - i - 7)" using assms by simp
  then have "bit w k \<Longrightarrow> \<not> k < i \<Longrightarrow> k - i < 8"
    by (cases "k - i < 7") (auto simp: bit_simps)
  then show "bit (take_bit i w OR push_bit i (ucast (ucast (drop_bit i w) :: u8))) k = bit w k"
    using k by (auto simp: bit_simps)
qed

lemma varint_more_step:
  fixes w :: "'a::len word"
  shows "take_bit i w OR
      push_bit i (ucast ((ucast (drop_bit i w AND 0x7f) OR 0x80 :: u8) AND 0x7f)) =
    take_bit (i + 7) w"
proof -
  have m7: "(0x7f :: 'a word) = mask 7" "(0x7f :: u8) = mask 7"
    by (simp_all add: mask_eq_exp_minus_1)
  have "(0x80 :: int) = 2 ^ 7" by simp
  then have b80: "bit (0x80 :: int) k \<longleftrightarrow> k = 7" for k
    by (simp only: bit_exp_iff) auto
  show ?thesis
    unfolding m7 by (rule bit_word_eqI) (auto simp: bit_simps b80)
qed

lemma varint_loop_rd:
  fixes w :: "'a::len word"
  assumes "8 \<le> LENGTH('a)" "ba_ok b" "i < LENGTH('a)"
    and "ba_unread b = varint_bytes (drop_bit i w) @ rest"
  shows "\<exists>b'. varint_loop LENGTH('a) i (take_bit i w) b = Ret b' w \<and>
    stream.consumed b (varint_bytes (drop_bit i w)) b' \<and> ba_unread b' = rest"
  using assms(2-)
proof (induction "drop_bit i w" arbitrary: i b rule: varint_bytes.induct)
  case (1 i b)
  let ?v = "drop_bit i w"
  show ?case
  proof (cases "?v < 0x80")
    case True
    then have enc: "varint_bytes ?v = [ucast ?v]" by (subst varint_bytes.simps) simp
    then obtain b' where b': "readFuint8 b = Ret b' (ucast ?v)"
      "stream.consumed b [ucast ?v] b'" "ba_unread b' = rest"
      using readFuint8_rd [OF 1(2), of "ucast ?v" rest] 1(4) by auto
    have d: "drop_bit 7 ?v = 0" using True small_iff_drop [OF assms(1)] by blast
    have "(ucast ?v :: u8) < 0x80"
    proof -
      have "drop_bit 7 (ucast ?v :: u8) = 0"
      proof (rule bit_word_eqI)
        fix n
        have "\<not> bit (drop_bit 7 ?v) n" using d by simp
        then show "bit (drop_bit 7 (ucast ?v :: u8)) n = bit (0 :: u8) n"
          by (auto simp: bit_simps add.commute)
      qed
      then show ?thesis using small_iff_drop [of "ucast ?v :: u8"] by simp
    qed
    then show ?thesis
      using b' 1(3) enc varint_last_step [OF d] by (subst varint_loop.simps) simp
  next
    case False
    let ?n = "ucast (?v AND 0x7f) OR 0x80 :: u8"
    have nz: "drop_bit 7 ?v \<noteq> 0" using False small_iff_drop [OF assms(1)] by blast
    have dd: "drop_bit 7 ?v = drop_bit (i + 7) w" by (simp add: add.commute)
    have i7: "i + 7 < LENGTH('a)" using nz drop_bit_nonzero_less [of "i + 7" w] dd by simp
    have enc: "varint_bytes ?v = ?n # varint_bytes (drop_bit (i + 7) w)"
      using False assms(1) dd by (subst varint_bytes.simps) simp
    obtain b1 where b1: "readFuint8 b = Ret b1 ?n" "stream.consumed b [?n] b1"
      "ba_unread b1 = varint_bytes (drop_bit (i + 7) w) @ rest"
      using readFuint8_rd [OF 1(2), of ?n "varint_bytes (drop_bit (i + 7) w) @ rest"] 1(4) enc
      by auto
    have ok: "ba_ok b1"
      using stream.consumed_ok [OF b1(2)] b1(3) varint_bytes_ne [of "drop_bit (i + 7) w"]
      by simp
    obtain b2 where b2: "varint_loop LENGTH('a) (i + 7) (take_bit (i + 7) w) b1 = Ret b2 w"
      "stream.consumed b1 (varint_bytes (drop_bit (i + 7) w)) b2" "ba_unread b2 = rest"
      using 1(1) [OF _ dd ok i7 b1(3)] False assms(1) by auto
    have "\<not> ?n < 0x80"
    proof -
      have "bit (drop_bit 7 ?n) 0"
      proof -
        have "(0x80 :: u8) = 2 ^ 7" by simp
        then have "bit (0x80 :: u8) 7" by (simp only: bit_exp_iff) simp
        then show ?thesis by (simp add: bit_simps)
      qed
      then have "drop_bit 7 ?n \<noteq> 0" by (metis bit_0_eq bot_apply bot_bool_def)
      then show ?thesis using small_iff_drop [of ?n] by simp
    qed
    then show ?thesis
      using b1 b2 1(3) enc varint_more_step [of i w] stream.consumed_trans [OF b1(2) b2(2)]
      by (subst varint_loop.simps) simp
  qed
qed

lemma length_varint_32: "length (varint_bytes (v :: u32)) \<le> 5"
  using length_varint_bytes [of v 5] unsigned_less [where ?'a = nat, of v] by simp

lemma length_varint_64: "length (varint_bytes (v :: u64)) \<le> 10"
  using length_varint_bytes [of v 10] unsigned_less [where ?'a = nat, of v] by simp

lemma writeUint32_wr:
  "ba_ok b \<Longrightarrow> \<exists>b'. writeUint32 b v = Ret b' () \<and> ba_ok b' \<and>
    ba_unread b' = ba_unread b @ varint_bytes v \<and> m_endian b' = m_endian b"
  using ba_put_ok [of b "varint_bytes v"] length_varint_32 [of v] by (simp add: writeUint32_def)

lemma writeUint64_wr:
  "ba_ok b \<Longrightarrow> \<exists>b'. writeUint64 b v = Ret b' () \<and> ba_ok b' \<and>
    ba_unread b' = ba_unread b @ varint_bytes v \<and> m_endian b' = m_endian b"
  using ba_put_ok [of b "varint_bytes v"] length_varint_64 [of v] by (simp add: writeUint64_def)

lemma readUint32_rd:
  "ba_ok b \<Longrightarrow> ba_unread b = varint_bytes v @ rest \<Longrightarrow>
    \<exists>b'. readUint32 b = Ret b' v \<and> stream.consumed b (varint_bytes v) b' \<and> ba_unread b' = rest"
  using varint_loop_rd [of b 0 v rest] by (simp add: readUint32_def)

lemma readUint64_rd:
  "ba_ok b \<Longrightarrow> ba_unread b = varint_bytes v @ rest \<Longrightarrow>
    \<exists>b'. readUint64 b = Ret b' v \<and> stream.consumed b (varint_bytes v) b' \<and> ba_unread b' = rest"
  using varint_loop_rd [of b 0 v rest] by (simp add: readUint64_def)

interpretation uint32: codec ba_write ba_read ba_unread ba_ok m_endian
  writeUint32 readUint32 "\<lambda>_. varint_bytes" "\<lambda>_. True"
  by unfold_locales (auto simp: varint_bytes_ne intro!: writeUint32_wr readUint32_rd)

interpretation uint64: codec ba_write ba_read ba_unread ba_ok m_endian
  writeUint64 readUint64 "\<lambda>_. varint_bytes" "\<lambda>_. True"
  by unfold_locales (auto simp: varint_bytes_ne intro!: writeUint64_wr readUint64_rd)

subsection \<open>Zigzag\<close>

lemma below_top_bit:
  fixes v :: "'a::len word"
  assumes "n < LENGTH('a)" "bit v n \<noteq> bit v (LENGTH('a) - Suc 0)"
  shows "Suc n < LENGTH('a)"
  using assms by (cases "n = LENGTH('a) - Suc 0") auto

lemma zigzag_decode_even:
  fixes v :: "'a::len word"
  assumes "\<not> bit v (LENGTH('a) - 1)"
  shows "drop_bit 1 (v * 2) XOR - (v * 2 AND 1) = v"
proof -
  have two: "v * 2 = push_bit 1 v" by (simp add: push_bit_eq_mult)
  have "v * 2 AND 1 = 0"
    by (intro bit_word_eqI) (auto simp: bit_simps mult.commute [of _ 2])
  moreover have "drop_bit 1 (v * 2) = v"
    by (intro bit_word_eqI)
      (use assms in \<open>auto simp: mult.commute [of _ 2] bit_simps intro!: below_top_bit\<close>)
  ultimately show ?thesis by simp
qed

lemma zigzag_neg: "(- v) * 2 - 1 = (NOT v) * 2 + (1 :: 'a::len word)"
  by (simp add: not_eq_complement algebra_simps)

lemma zigzag_decode_odd:
  fixes v :: "'a::len word"
  assumes "bit v (LENGTH('a) - 1)"
  shows "drop_bit 1 ((- v) * 2 - 1) XOR - ((- v) * 2 - 1 AND 1) = v"
proof -
  let ?n = "NOT v"
  have "\<not> bit (?n * 2) 0" by (simp add: mult.commute [of _ 2] bit_simps)
  then have two: "?n * 2 + 1 = push_bit 1 ?n OR 1"
    by (subst disjunctive_add) (auto simp: push_bit_eq_mult mult.commute [of _ 2] bit_simps)
  have "(push_bit 1 ?n OR 1) AND 1 = 1"
    by (intro bit_word_eqI) (auto simp: bit_simps)
  moreover have "drop_bit 1 (push_bit 1 ?n OR 1) = ?n"
    by (intro bit_word_eqI)
      (use assms in \<open>auto simp: mult.commute [of _ 2] bit_simps intro!: below_top_bit\<close>)
  ultimately show ?thesis
    unfolding zigzag_neg two by simp
qed

lemma DecodeZigzag32_Encode: "EncodeZigzag32 v = Some e \<Longrightarrow> DecodeZigzag32 e = v"
  using zigzag_decode_even [of v] zigzag_decode_odd [of v] bit_last_iff [of v]
  by (auto simp: EncodeZigzag32_def DecodeZigzag32_def split: if_splits)

lemma DecodeZigzag64_Encode: "EncodeZigzag64 v = Some e \<Longrightarrow> DecodeZigzag64 e = v"
  using zigzag_decode_even [of v] zigzag_decode_odd [of v] bit_last_iff [of v]
  by (auto simp: EncodeZigzag64_def DecodeZigzag64_def split: if_splits)

lemma zigzag32_wr:
  assumes "ba_ok b" "EncodeZigzag32 v \<noteq> None"
  shows "\<exists>b'. writeInt32 b v = Ret b' () \<and> ba_ok b' \<and>
    ba_unread b' = ba_unread b @ varint_bytes (the (EncodeZigzag32 v)) \<and>
    m_endian b' = m_endian b"
  using assms writeUint32_wr by (auto simp: writeInt32_def)

lemma zigzag64_wr:
  assumes "ba_ok b" "EncodeZigzag64 v \<noteq> None"
  shows "\<exists>b'. writeInt64 b v = Ret b' () \<and> ba_ok b' \<and>
    ba_unread b' = ba_unread b @ varint_bytes (the (EncodeZigzag64 v)) \<and>
    m_endian b' = m_endian b"
  using assms writeUint64_wr by (auto simp: writeInt64_def)

lemma zigzag32_rd:
  assumes "ba_ok b" "EncodeZigzag32 v \<noteq> None"
    and "ba_unread b = varint_bytes (the (EncodeZigzag32 v)) @ rest"
  shows "\<exists>b'. readInt32 b = Ret b' v \<and>
    stream.consumed b (varint_bytes (the (EncodeZigzag32 v))) b' \<and> ba_unread b' = rest"
  using readUint32_rd [OF assms(1,3)] assms(2)
  by (auto simp: readInt32_def DecodeZigzag32_Encode)

lemma zigzag64_rd:
  assumes "ba_ok b" "EncodeZigzag64 v \<noteq> None"
    and "ba_unread b = varint_bytes (the (EncodeZigzag64 v)) @ rest"
  shows "\<exists>b'. readInt64 b = Ret b' v \<and>
    stream.consumed b (varint_bytes (the (EncodeZigzag64 v))) b' \<and> ba_unread b' = rest"
  using readUint64_rd [OF assms(1,3)] assms(2)
  by (auto simp: readInt64_def DecodeZigzag64_Encode)

interpretation int32: codec ba_write ba_read ba_unread ba_ok m_endian
  writeInt32 readInt32 "\<lambda>_ v. varint_bytes (the (EncodeZigzag32 v))" "\<lambda>v. EncodeZigzag32 v \<noteq> None"
  by unfold_locales
    (blast intro: zigzag32_wr, blast intro: zigzag32_rd, simp add: varint_bytes_ne)

interpretation int64: codec ba_write ba_read ba_unread ba_ok m_endian
  writeInt64 readInt64 "\<lambda>_ v. varint_bytes (the (EncodeZigzag64 v))" "\<lambda>v. EncodeZigzag64 v \<noteq> None"
  by unfold_locales
    (blast intro: zigzag64_wr, blast intro: zigzag64_rd, simp add: varint_bytes_ne)

subsection \<open>Strings\<close>

text \<open>
  A string behind a prefix written by \<open>wp\<close> and read by \<open>rp\<close>. The string must not be empty:
  after the prefix nothing may be left to read, and \<open>read\<close> looks at its block first.
\<close>

lemma string_wr:
  assumes wp: "\<exists>b'. wp b p = Ret b' () \<and> ba_ok b' \<and>
      ba_unread b' = ba_unread b @ pre \<and> m_endian b' = m_endian b"
    and "length s < 2 ^ 31"
  shows "\<exists>b'. obind (wp b p) (\<lambda>b _. ba_write b s) = Ret b' () \<and> ba_ok b' \<and>
    ba_unread b' = ba_unread b @ pre @ s \<and> m_endian b' = m_endian b"
proof -
  obtain b1 where b1: "wp b p = Ret b1 ()" "ba_ok b1" "ba_unread b1 = ba_unread b @ pre"
    "m_endian b1 = m_endian b"
    using wp by blast
  then show ?thesis using ba_put_ok [OF b1(2) assms(2)] by auto
qed

lemma string_rd:
  assumes rp: "\<exists>b'. rp b = Ret b' p \<and> stream.consumed b pre b' \<and> ba_unread b' = s @ rest"
    and s: "unat p = length s" "s \<noteq> []"
  shows "\<exists>b'. obind (rp b) (\<lambda>b len. ba_read b (unat len)) = Ret b' s \<and>
    stream.consumed b (pre @ s) b' \<and> ba_unread b' = rest"
proof -
  obtain b1 where b1: "rp b = Ret b1 p" "stream.consumed b pre b1" "ba_unread b1 = s @ rest"
    using rp by blast
  have "ba_ok b1" using stream.consumed_ok [OF b1(2)] b1(3) s(2) by simp
  then obtain b2 where b2: "ba_read b1 (length s) = Ret b2 s" "stream.consumed b1 s b2"
    "ba_unread b2 = rest"
    using stream.get_prefix [OF _ b1(3), of "length s"] by blast
  then show ?thesis using b1(1) s(1) stream.consumed_trans [OF b1(2) b2(2)] by simp
qed

lemma unat_of_length:
  "length s < 2 ^ LENGTH('a) \<Longrightarrow> unat (of_nat (length s) :: 'a::len word) = length s"
  by (simp add: unat_of_nat)

definition f16_enc :: "nat \<Rightarrow> bytes \<Rightarrow> bytes" where
  "f16_enc m s = fixed_enc 2 m (of_nat (length s) :: u16) @ s"
definition f32_enc :: "nat \<Rightarrow> bytes \<Rightarrow> bytes" where
  "f32_enc m s = fixed_enc 4 m (of_nat (length s) :: u32) @ s"
definition vint_enc :: "nat \<Rightarrow> bytes \<Rightarrow> bytes" where
  "vint_enc m s = varint_bytes (of_nat (length s) :: u64) @ s"

definition string_fits :: "nat \<Rightarrow> bytes \<Rightarrow> bool" where
  "string_fits k s \<longleftrightarrow> s \<noteq> [] \<and> length s < 2 ^ k"

interpretation string16: codec ba_write ba_read ba_unread ba_ok m_endian
  writeStringF16 readStringF16 f16_enc "string_fits 16"
proof unfold_locales
  fix b s
  assume "ba_ok b" "string_fits 16 s"
  then show "\<exists>b'. writeStringF16 b s = Ret b' () \<and> ba_ok b' \<and>
      ba_unread b' = ba_unread b @ f16_enc (m_endian b) s \<and> m_endian b' = m_endian b"
    using string_wr [of writeFuint16 b "of_nat (length s)" "fixed_enc 2 (m_endian b) (of_nat (length s) :: u16)" s] fuint16.wr_enc [of b] by (simp add: writeStringF16_def f16_enc_def string_fits_def)
next
  fix b s rest
  assume "ba_ok b" "string_fits 16 s" "ba_unread b = f16_enc (m_endian b) s @ rest"
  then show "\<exists>b'. readStringF16 b = Ret b' s \<and>
      stream.consumed b (f16_enc (m_endian b) s) b' \<and> ba_unread b' = rest"
    using string_rd [of readFuint16 b "of_nat (length s)" "fixed_enc 2 (m_endian b) (of_nat (length s) :: u16)" s rest] fuint16.rd_enc [of b "of_nat (length s)" "s @ rest"]
    by (simp add: readStringF16_def f16_enc_def string_fits_def unat_of_length)
qed (auto simp: f16_enc_def string_fits_def)

interpretation string32: codec ba_write ba_read ba_unread ba_ok m_endian
  writeStringF32 readStringF32 f32_enc "string_fits 31"
proof unfold_locales
  fix b s
  assume "ba_ok b" "string_fits 31 s"
  then show "\<exists>b'. writeStringF32 b s = Ret b' () \<and> ba_ok b' \<and>
      ba_unread b' = ba_unread b @ f32_enc (m_endian b) s \<and> m_endian b' = m_endian b"
    using string_wr [of writeFuint32 b "of_nat (length s)" "fixed_enc 4 (m_endian b) (of_nat (length s) :: u32)" s] fuint32.wr_enc [of b] by (simp add: writeStringF32_def f32_enc_def string_fits_def)
next
  fix b s rest
  assume "ba_ok b" "string_fits 31 s" "ba_unread b = f32_enc (m_endian b) s @ rest"
  then show "\<exists>b'. readStringF32 b = Ret b' s \<and>
      stream.consumed b (f32_enc (m_endian b) s) b' \<and> ba_unread b' = rest"
    using string_rd [of readFuint32 b "of_nat (length s)" "fixed_enc 4 (m_endian b) (of_nat (length s) :: u32)" s rest] fuint32.rd_enc [of b "of_nat (length s)" "s @ rest"]
    by (simp add: readStringF32_def f32_enc_def string_fits_def unat_of_length)
qed (auto simp: f32_enc_def string_fits_def)

interpretation stringv: codec ba_write ba_read ba_unread ba_ok m_endian
  writeStringVint readStringVint vint_enc "string_fits 31"
proof unfold_locales
  fix b s
  assume "ba_ok b" "string_fits 31 s"
  then show "\<exists>b'. writeStringVint b s = Ret b' () \<and> ba_ok b' \<and>
      ba_unread b' = ba_unread b @ vint_enc (m_endian b) s \<and> m_endian b' = m_endian b"
    using string_wr [of writeUint64 b "of_nat (length s)" "varint_bytes (of_nat (length s) :: u64)" s] uint64.wr_enc [of b] by (simp add: writeStringVint_def vint_enc_def string_fits_def)
next
  fix b s rest
  assume a: "ba_ok b" "string_fits 31 s" "ba_unread b = vint_enc (m_endian b) s @ rest"
  have "resize_read b' (unat (of_nat (length s) :: u64)) = ba_read b' (unat (of_nat (length s) :: u64))" for b'
    using a(2) by (simp add: resize_read_def string_fits_def unat_of_length)
  then show "\<exists>b'. readStringVint b = Ret b' s \<and>
      stream.consumed b (vint_enc (m_endian b) s) b' \<and> ba_unread b' = rest"
    using string_rd [of readUint64 b "of_nat (length s)" "varint_bytes (of_nat (length s) :: u64)" s rest] a
      uint64.rd_enc [of b "of_nat (length s)" "s @ rest"]
    by (auto simp: readStringVint_def vint_enc_def string_fits_def unat_of_length)
qed (auto simp: vint_enc_def string_fits_def)

section \<open>Properties\<close>

text \<open>C37. Round trip of strings: any sequence of non-empty strings written with
  \<open>writeStringVint\<close> to a drained array is read back by as many calls of \<open>readStringVint\<close>,
  in order, and the array is drained again.\<close>

theorem stringVint_round_trip:
  assumes "ba_ok b" "ba_unread b = []" "list_all (string_fits 31) ss"
  shows "\<exists>b1 b2. write_seq writeStringVint b ss = Ret b1 () \<and>
    read_seq readStringVint (length ss) b1 = Ret b2 ss \<and> ba_unread b2 = []"
  using assms by (rule stringv.round_trip)

lemma ba_ok_new: "0 < s \<Longrightarrow> ba_ok (ByteArray_new s) \<and> ba_unread (ByteArray_new s) = []"
  using ba_inv_new [of s]
  by (simp add: ba_ok_def ba_readable_def ByteArray_new_def ba_unread_def ba_content_def)

theorem stringVint_round_trip_witness:
  "\<exists>b1 b2. write_seq writeStringVint (ByteArray_new 3) [[1, 2, 3, 4], [5]] = Ret b1 () \<and>
    read_seq readStringVint 2 b1 = Ret b2 [[1, 2, 3, 4], [5]] \<and> ba_unread b2 = []"
proof -
  have "list_all (string_fits 31) [[1, 2, 3, 4], [5]]" by (simp add: string_fits_def)
  then show ?thesis
    using stringVint_round_trip [of "ByteArray_new 3" "[[1, 2, 3, 4], [5]]"] ba_ok_new [of 3]
    by (simp add: numeral_2_eq_2)
qed

text \<open>Round trip of zigzag integers: any sequence of 32-bit integers for which the encoding is
  defined (from \<open>-2^31 + 1\<close> to \<open>2^30 - 1\<close>) is read back as it was written.\<close>

theorem int32_round_trip:
  assumes "ba_ok b" "ba_unread b = []"
    and "list_all (\<lambda>v. - (2 ^ 31) < sint v \<and> sint v < 2 ^ 30) vs"
  shows "\<exists>b1 b2. write_seq writeInt32 b vs = Ret b1 () \<and>
    read_seq readInt32 (length vs) b1 = Ret b2 vs \<and> ba_unread b2 = []"
proof (rule int32.round_trip [OF assms(1,2)])
  show "list_all (\<lambda>v. EncodeZigzag32 v \<noteq> None) vs"
    using assms(3) by (auto simp: list_all_iff EncodeZigzag32_def)
qed

theorem int32_round_trip_witness:
  "\<exists>b1 b2. write_seq writeInt32 (ByteArray_new 3) [- 1, 300] = Ret b1 () \<and>
    read_seq readInt32 2 b1 = Ret b2 [- 1, 300] \<and> ba_unread b2 = []"
  using int32_round_trip [of "ByteArray_new 3" "[- 1, 300]"] ba_ok_new [of 3]
  by (simp add: numeral_2_eq_2)

text \<open>Round trip of fixed-width integers: a 32-bit value is read back as written, in whichever
  byte order the array is set to; the bytes stored are its big-endian representation when
  \<open>isLittleEndian\<close> is false and its little-endian one otherwise.\<close>

theorem fuint32_round_trip:
  assumes "ba_ok b" "ba_unread b = []"
  shows "\<exists>b1 b2. writeFuint32 (setIsLittleEndian b le) v = Ret b1 () \<and>
    ba_unread b1 = (if le then le_bytes 4 v else rev (le_bytes 4 v)) \<and>
    readFuint32 b1 = Ret b2 v \<and> ba_unread b2 = []"
proof -
  let ?b = "setIsLittleEndian b le"
  have ok: "ba_ok ?b" "ba_unread ?b = []"
    using assms
    by (auto simp: setIsLittleEndian_def ba_ok_def ba_inv_def ba_readable_def ba_unread_def
        ba_content_def)
  have enc: "fixed_enc 4 (m_endian ?b) v = (if le then le_bytes 4 v else rev (le_bytes 4 v))"
    by (simp add: fixed_enc_def setIsLittleEndian_def byte_order_defs le_bytes_bswap)
  obtain b1 where b1: "writeFuint32 ?b v = Ret b1 ()" "ba_ok b1"
    "ba_unread b1 = fixed_enc 4 (m_endian ?b) v" "m_endian b1 = m_endian ?b"
    using fuint32.wr_enc [OF ok(1), of v] ok(2) by auto
  then show ?thesis using fuint32.rd_enc [OF b1(2), of v "[]"] enc by auto
qed

theorem fuint32_round_trip_witness:
  "\<exists>b1 b2. writeFuint32 (setIsLittleEndian (ByteArray_new 3) False) 0x01020304 = Ret b1 () \<and>
    ba_unread b1 = [1, 2, 3, 4] \<and> readFuint32 b1 = Ret b2 0x01020304 \<and> ba_unread b2 = []"
proof -
  have "rev (le_bytes 4 (0x01020304 :: u32)) = [1, 2, 3, 4]" by code_simp
  then show ?thesis
    using fuint32_round_trip [of "ByteArray_new 3" False "0x01020304"] ba_ok_new [of 3] by simp
qed

text \<open>The arrays \<open>tmp[5]\<close> and \<open>tmp[10]\<close> of the varint writers are never overrun.\<close>

theorem varint_buffers_suffice:
  "length (varint_bytes (v :: u32)) \<le> 5 \<and> length (varint_bytes (w :: u64)) \<le> 10"
  by (simp add: length_varint_32 length_varint_64)

text \<open>An empty string is not always read back: when its length prefix fills the last block
  the following \<open>read\<close> of no bytes dereferences the null read pointer.\<close>

theorem empty_string_undefined:
  "\<exists>b. writeStringF16 (ByteArray_new 2) [] = Ret b () \<and> ba_ok b \<and> readStringF16 b = Ub"
proof -
  let ?b = "\<lparr>m_base_node_size = 2, m_capacity = 2, m_size = 2, m_endian = 2,
      m_nodes = [[0, 0]], m_read_node = Some 0, m_write_node = None,
      m_read_position = 0, m_write_position = 2\<rparr>"
  have le: "le_bytes 2 (0 :: u16) = [0, 0]" "of_le [0, 0] = (0 :: u16)"
    by (simp_all add: numeral_2_eq_2)
  have "writeStringF16 (ByteArray_new 2) [] = Ret ?b ()" "readStringF16 ?b = Ub"
    by (simp_all add: ba_eval writeStringF16_def readStringF16_def writeFuint16_def
        readFuint16_def WRITE_FIXED_def READ_FIXED_def bswap_def le)
  moreover have "ba_ok ?b"
    by (simp add: ba_ok_def ba_inv_def ba_readable_def node_at_def)
  ultimately show ?thesis by blast
qed

end
