(* ===== verification/CStrings.thy ===== *)
theory CStrings
  imports Prelude
begin

text \<open>
  C and C++ strings. A \<open>std::string\<close> is a list of characters (bytes); \<open>c_str\<close> is what a C
  function sees of it, the characters before the first NUL. The functions of the C library
  that the code uses on strings are modelled in the C locale.
\<close>

definition NUL :: char where "NUL = char_of (0::nat)"

definition code :: "char \<Rightarrow> nat" where "code c = of_char c"

definition c_str :: "string \<Rightarrow> string" where
  "c_str s = takeWhile (\<lambda>c. c \<noteq> NUL) s"

definition is_upper :: "nat \<Rightarrow> bool" where "is_upper n \<longleftrightarrow> 65 \<le> n \<and> n \<le> 90"
definition is_digit :: "nat \<Rightarrow> bool" where "is_digit n \<longleftrightarrow> 48 \<le> n \<and> n \<le> 57"
definition is_xdigit :: "nat \<Rightarrow> bool" where
  "is_xdigit n \<longleftrightarrow> is_digit n \<or> 65 \<le> n \<and> n \<le> 70 \<or> 97 \<le> n \<and> n \<le> 102"
definition is_space :: "nat \<Rightarrow> bool" where "is_space n \<longleftrightarrow> n = 32 \<or> 9 \<le> n \<and> n \<le> 13"

definition to_lower :: "nat \<Rightarrow> nat" where
  "to_lower n = (if is_upper n then n + 32 else n)"

text \<open>The sign of \<open>strcmp\<close>: bytes compared as unsigned, a proper prefix is smaller.\<close>

fun bytes_less :: "nat list \<Rightarrow> nat list \<Rightarrow> bool" where
  "bytes_less xs [] = False"
| "bytes_less [] (y # ys) = True"
| "bytes_less (x # xs) (y # ys) = (x < y \<or> x = y \<and> bytes_less xs ys)"

definition lower_codes :: "string \<Rightarrow> nat list" where
  "lower_codes s = map (\<lambda>c. to_lower (code c)) (c_str s)"

definition strcasecmp_less :: "string \<Rightarrow> string \<Rightarrow> bool" where
  "strcasecmp_less a b = bytes_less (lower_codes a) (lower_codes b)"

definition strcasecmp_eq :: "string \<Rightarrow> string \<Rightarrow> bool" where
  "strcasecmp_eq a b \<longleftrightarrow> lower_codes a = lower_codes b"

definition starts_with :: "'a list \<Rightarrow> 'a list \<Rightarrow> bool" where
  "starts_with p s \<longleftrightarrow> take (length p) s = p"

fun contains_list :: "'a list \<Rightarrow> 'a list \<Rightarrow> bool" where
  "contains_list p [] = (p = [])"
| "contains_list p (x # xs) = (starts_with p (x # xs) \<or> contains_list p xs)"

definition strcasestr :: "string \<Rightarrow> string \<Rightarrow> bool" where
  "strcasestr hay needle = contains_list (lower_codes needle) (lower_codes hay)"

text \<open>Decimal output of an unsigned integer.\<close>

definition digit_char :: "nat \<Rightarrow> char" where "digit_char d = char_of (48 + d)"

fun dec_string :: "nat \<Rightarrow> string" where
  "dec_string n =
     (if n < 10 then [digit_char n] else dec_string (n div 10) @ [digit_char (n mod 10)])"

declare dec_string.simps [simp del]

text \<open>The value of a string of decimal digits (what \<open>atoi\<close> accumulates).\<close>

definition dec_value :: "string \<Rightarrow> nat" where
  "dec_value s = foldl (\<lambda>v c. 10 * v + (code c - 48)) 0 s"

definition all_digits :: "string \<Rightarrow> bool" where
  "all_digits s \<longleftrightarrow> s \<noteq> [] \<and> list_all (\<lambda>c. is_digit (code c)) s"

section \<open>Lemmas\<close>

lemma code_digit_char [simp]: "d < 10 \<Longrightarrow> code (digit_char d) = 48 + d"
  by (simp add: code_def digit_char_def of_char_of)

lemma dec_value_dec_string [simp]: "dec_value (dec_string n) = n"
proof (induction n rule: dec_string.induct)
  case (1 n)
  then show ?case
    by (cases "n < 10") (subst dec_string.simps, simp add: dec_value_def)+
qed

lemma all_digits_dec_string [simp]: "all_digits (dec_string n)"
proof (induction n rule: dec_string.induct)
  case (1 n)
  then show ?case
    by (cases "n < 10") (subst dec_string.simps, simp add: all_digits_def is_digit_def)+
qed

lemma bytes_less_irrefl: "\<not> bytes_less x x"
  by (induction x) auto

lemma bytes_less_trans: "bytes_less x y \<Longrightarrow> bytes_less y z \<Longrightarrow> bytes_less x z"
proof (induction x y arbitrary: z rule: bytes_less.induct)
  case (2 y ys) then show ?case by (cases z) auto
next
  case (3 x xs y ys) then show ?case by (cases z) auto
qed auto

lemma bytes_less_total: "bytes_less x y \<or> bytes_less y x \<or> x = y"
proof (induction x y rule: bytes_less.induct)
  case (1 xs) then show ?case by (cases xs) auto
qed auto

lemma bytes_less_cotrans: "bytes_less x z \<Longrightarrow> bytes_less x y \<or> bytes_less y z"
  using bytes_less_total bytes_less_trans by blast

lemma contains_list_iff: "contains_list p s \<longleftrightarrow> (\<exists>u v. s = u @ p @ v)"
proof (induction s)
  case (Cons x xs)
  have "starts_with p (x # xs) \<longleftrightarrow> (\<exists>v. x # xs = p @ v)"
    by (auto simp: starts_with_def) (metis append_take_drop_id)
  then show ?case using Cons by (auto simp: Cons_eq_append_conv)
qed auto

end
