(* ===== verification/UrlText.thy ===== *)
theory UrlText
  imports CStrings
begin

text \<open>
  Model of the string functions of \<open>src/Util.cc\<close>: trimming and URL encoding. The lookup
  tables are the ones of the source, indexed by the code of a character.
\<close>

section \<open>Trimming\<close>

definition TrimLeft :: "string \<Rightarrow> string \<Rightarrow> string" where
  "TrimLeft str delimit = dropWhile (\<lambda>c. c \<in> set delimit) str"

definition TrimRight :: "string \<Rightarrow> string \<Rightarrow> string" where
  "TrimRight str delimit = rev (dropWhile (\<lambda>c. c \<in> set delimit) (rev str))"

text \<open>
  \<open>find_first_not_of\<close> and \<open>find_last_not_of\<close>, with \<open>None\<close> for \<open>npos\<close>.
\<close>

definition find_first_not_of :: "string \<Rightarrow> string \<Rightarrow> nat option" where
  "find_first_not_of str delimit =
     (let n = length (takeWhile (\<lambda>c. c \<in> set delimit) str)
      in if n = length str then None else Some n)"

definition find_last_not_of :: "string \<Rightarrow> string \<Rightarrow> nat option" where
  "find_last_not_of str delimit =
     (let n = length (takeWhile (\<lambda>c. c \<in> set delimit) (rev str))
      in if n = length str then None else Some (length str - 1 - n))"

definition Trim :: "string \<Rightarrow> string \<Rightarrow> string" where
  "Trim str delimit =
     (case find_first_not_of str delimit of
        None \<Rightarrow> []
      | Some start \<Rightarrow>
          (case find_last_not_of str delimit of
             None \<Rightarrow> drop start str
           | Some last_pos \<Rightarrow> take (last_pos - start + 1) (drop start str)))"

section \<open>URL encoding\<close>

definition uri_chars :: "nat list" where
  "uri_chars =
    [0, 0, 0, 0, 0, 0, 0, 0,   0, 0, 0, 0, 0, 0, 0, 0,
     0, 0, 0, 0, 0, 0, 0, 0,   0, 0, 0, 0, 0, 0, 0, 0,
     0, 0, 0, 0, 0, 0, 0, 0,   0, 0, 0, 0, 0, 1, 1, 0,
     1, 1, 1, 1, 1, 1, 1, 1,   1, 1, 0, 0, 0, 1, 0, 0,
     0, 1, 1, 1, 1, 1, 1, 1,   1, 1, 1, 1, 1, 1, 1, 1,
     1, 1, 1, 1, 1, 1, 1, 1,   1, 1, 1, 0, 0, 0, 0, 1,
     0, 1, 1, 1, 1, 1, 1, 1,   1, 1, 1, 1, 1, 1, 1, 1,
     1, 1, 1, 1, 1, 1, 1, 1,   1, 1, 1, 0, 0, 0, 1, 0] @ replicate 128 0"

definition xdigit_chars :: "nat list" where
  "xdigit_chars =
    [0,0,0,0,0,0,0,0,0,0,0,0,0,0,0,0,
     0,0,0,0,0,0,0,0,0,0,0,0,0,0,0,0,
     0,0,0,0,0,0,0,0,0,0,0,0,0,0,0,0,
     0,1,2,3,4,5,6,7,8,9,0,0,0,0,0,0,
     0,10,11,12,13,14,15,0,0,0,0,0,0,0,0,0,
     0,0,0,0,0,0,0,0,0,0,0,0,0,0,0,0,
     0,10,11,12,13,14,15,0,0,0,0,0,0,0,0,0,
     0,0,0,0,0,0,0,0,0,0,0,0,0,0,0,0] @ replicate 128 0"

definition IS_URL_CHAR :: "char \<Rightarrow> bool" where
  "IS_URL_CHAR c \<longleftrightarrow> uri_chars ! code c = 1"

definition hex_upper :: "nat \<Rightarrow> char" where
  "hex_upper d = ''0123456789ABCDEF'' ! d"

definition url_encode_char :: "bool \<Rightarrow> char \<Rightarrow> string" where
  "url_encode_char space_as_plus c =
     (if IS_URL_CHAR c then [c]
      else if c = CHR '' '' \<and> space_as_plus then ''+''
      else [CHR ''%'', hex_upper (code c div 16), hex_upper (code c mod 16)])"

definition UrlEncode :: "string \<Rightarrow> bool \<Rightarrow> string" where
  "UrlEncode str space_as_plus =
     (let pos = length (takeWhile IS_URL_CHAR str) in
      if pos = length str then str
      else take pos str @ concat (map (url_encode_char space_as_plus) (drop pos str)))"

text \<open>
  The guard of the decoder as it is written: the second parenthesis of the first \<open>isxdigit\<close>
  closes after the conjunction, so its argument is the truth value of the conjunction.
\<close>

definition decode_guard :: "char \<Rightarrow> char \<Rightarrow> bool" where
  "decode_guard a b = is_xdigit (if code a \<noteq> 0 \<and> is_xdigit (code b) then 1 else 0)"

fun url_decode_loop :: "bool \<Rightarrow> string \<Rightarrow> string" where
  "url_decode_loop space_as_plus [] = []"
| "url_decode_loop space_as_plus (c # cs) =
     (if c = CHR ''%'' \<and> 2 \<le> length cs \<and> decode_guard (cs ! 0) (cs ! 1) then
        char_of (xdigit_chars ! code (cs ! 0) * 16 + xdigit_chars ! code (cs ! 1)) #
          url_decode_loop space_as_plus (drop 2 cs)
      else if c = CHR ''+'' \<and> space_as_plus then CHR '' '' # url_decode_loop space_as_plus cs
      else c # url_decode_loop space_as_plus cs)"

definition decode_stop :: "bool \<Rightarrow> char \<Rightarrow> bool" where
  "decode_stop space_as_plus c \<longleftrightarrow> c = CHR ''%'' \<or> c = CHR ''+'' \<and> space_as_plus"

definition UrlDecode :: "string \<Rightarrow> bool \<Rightarrow> string" where
  "UrlDecode str space_as_plus =
     (let pos = length (takeWhile (\<lambda>c. \<not> decode_stop space_as_plus c) str) in
      if pos = length str then str
      else take pos str @ url_decode_loop space_as_plus (drop pos str))"

section \<open>Lemmas\<close>

lemma decode_guard_False [simp]: "\<not> decode_guard a b"
  by (simp add: decode_guard_def is_xdigit_def is_digit_def)

definition plus_to_space :: "bool \<Rightarrow> char \<Rightarrow> char" where
  "plus_to_space sp c = (if c = CHR ''+'' \<and> sp then CHR '' '' else c)"

lemma url_decode_loop_map: "url_decode_loop sp s = map (plus_to_space sp) s"
  by (induction s) (auto simp: plus_to_space_def)

lemma takeWhile_split:
  "take (length (takeWhile P s)) s = takeWhile P s"
  "drop (length (takeWhile P s)) s = dropWhile P s"
  by (simp_all add: takeWhile_eq_take [symmetric] dropWhile_eq_drop [symmetric])

lemma map_plus_id: "map (plus_to_space sp) (takeWhile (\<lambda>c. \<not> decode_stop sp c) s) =
    takeWhile (\<lambda>c. \<not> decode_stop sp c) s"
  by (rule map_idI) (auto simp: plus_to_space_def decode_stop_def dest: set_takeWhileD)

lemma takeWhile_full: "length (takeWhile P s) = length s \<Longrightarrow> takeWhile P s = s"
  by (metis takeWhile_split(1) take_all order_refl)

text \<open>The prefix shortcuts of both routines change nothing.\<close>

lemma UrlDecode_map: "UrlDecode s sp = map (plus_to_space sp) s"
proof -
  let ?p = "takeWhile (\<lambda>c. \<not> decode_stop sp c) s"
  have "s = ?p @ dropWhile (\<lambda>c. \<not> decode_stop sp c) s" by simp
  then have "map (plus_to_space sp) s =
      ?p @ map (plus_to_space sp) (dropWhile (\<lambda>c. \<not> decode_stop sp c) s)"
    by (metis map_append map_plus_id)
  note split = this
  show ?thesis
  proof (cases "length ?p = length s")
    case True
    then have "map (plus_to_space sp) s = s" using takeWhile_full map_plus_id by metis
    then show ?thesis using True by (simp add: UrlDecode_def Let_def)
  next
    case False
    then show ?thesis
      using split by (simp add: UrlDecode_def Let_def takeWhile_split url_decode_loop_map)
  qed
qed

lemma UrlEncode_concat: "UrlEncode s sp = concat (map (url_encode_char sp) s)"
proof -
  have id: "concat (map (url_encode_char sp) (takeWhile IS_URL_CHAR s)) = takeWhile IS_URL_CHAR s"
    by (induction s) (auto simp: url_encode_char_def)
  have "concat (map (url_encode_char sp) s) =
      takeWhile IS_URL_CHAR s @ concat (map (url_encode_char sp) (dropWhile IS_URL_CHAR s))"
    by (metis concat_append id map_append takeWhile_dropWhile_id)
  note split = this
  show ?thesis
  proof (cases "length (takeWhile IS_URL_CHAR s) = length s")
    case True
    then have "concat (map (url_encode_char sp) s) = s" using takeWhile_full id by metis
    then show ?thesis using True by (simp add: UrlEncode_def Let_def)
  next
    case False
    then show ?thesis using split by (simp add: UrlEncode_def Let_def takeWhile_split)
  qed
qed

section \<open>A reference decoder\<close>

text \<open>
  What the decoder is meant to do: a percent sign and two hexadecimal digits stand for one
  character. It is the left inverse of \<open>UrlEncode\<close>.
\<close>

fun percent_decode :: "bool \<Rightarrow> string \<Rightarrow> string" where
  "percent_decode sp (c # a # b # cs) =
     (if c = CHR ''%'' \<and> is_xdigit (code a) \<and> is_xdigit (code b) then
        char_of (xdigit_chars ! code a * 16 + xdigit_chars ! code b) # percent_decode sp cs
      else plus_to_space sp c # percent_decode sp (a # b # cs))"
| "percent_decode sp (c # cs) = plus_to_space sp c # percent_decode sp cs"
| "percent_decode sp [] = []"

lemma hex_upper_digit:
  assumes "d < 16"
  shows "is_xdigit (code (hex_upper d)) \<and> xdigit_chars ! code (hex_upper d) = d"
proof -
  have "\<forall>d \<in> set [0..<16]. is_xdigit (code (hex_upper d)) \<and> xdigit_chars ! code (hex_upper d) = d"
    by code_simp
  then show ?thesis using assms by simp
qed

lemma code_less: "code c < 256"
  unfolding code_def by (rule nat_of_char_less_256)

lemma char_of_code [simp]: "char_of (code c) = c"
  by (simp add: code_def)

lemma percent_decode_hex:
  "percent_decode sp (CHR ''%'' # hex_upper (code c div 16) # hex_upper (code c mod 16) # cs) =
     c # percent_decode sp cs"
proof -
  have "code c div 16 < 16" "code c mod 16 < 16" using code_less [of c] by auto
  then show ?thesis using hex_upper_digit by simp
qed

lemma url_char_not_special: "IS_URL_CHAR c \<Longrightarrow> c \<noteq> CHR ''%'' \<and> c \<noteq> CHR ''+''"
  by (auto simp: IS_URL_CHAR_def code_def uri_chars_def)

lemma percent_decode_plain:
  "c \<noteq> CHR ''%'' \<Longrightarrow> percent_decode sp (c # cs) = plus_to_space sp c # percent_decode sp cs"
  by (cases cs rule: list.exhaust; cases "tl cs") auto

lemma percent_decode_encode_char:
  "percent_decode sp (url_encode_char sp c @ rest) = c # percent_decode sp rest"
proof (cases "IS_URL_CHAR c")
  case True
  then show ?thesis
    using url_char_not_special [OF True] percent_decode_plain [of c]
    by (simp add: url_encode_char_def plus_to_space_def)
next
  case False
  show ?thesis
  proof (cases "c = CHR '' '' \<and> sp")
    case True
    then show ?thesis using False percent_decode_plain [of "CHR ''+''"]
      by (simp add: url_encode_char_def plus_to_space_def)
  next
    case False2: False
    then show ?thesis using False percent_decode_hex by (auto simp: url_encode_char_def)
  qed
qed

section \<open>Properties\<close>

text \<open>C39. URL encoding is right: a decoder that reads \<open>%XX\<close> as one character gives the original
  string back, for every string and both settings of the flag.\<close>

theorem UrlEncode_decodable: "percent_decode sp (UrlEncode s sp) = s"
  by (induction s) (auto simp: UrlEncode_concat percent_decode_encode_char)

text \<open>URL decoding is not: \<open>UrlDecode\<close> never decodes a percent sequence, all it does is to turn
  plus signs into spaces when the flag asks for it (the parenthesis of the guard is misplaced,
  so it is always false).\<close>

theorem UrlDecode_only_plus:
  "UrlDecode s sp = map (\<lambda>c. if c = CHR ''+'' \<and> sp then CHR '' '' else c) s \<and>
   UrlDecode (UrlEncode ''a&b'' True) True = ''a%26b''"
proof
  show "UrlDecode s sp = map (\<lambda>c. if c = CHR ''+'' \<and> sp then CHR '' '' else c) s"
    by (simp add: UrlDecode_map plus_to_space_def cong: map_cong)
  have "UrlEncode ''a&b'' True = ''a%26b''" by code_simp
  then show "UrlDecode (UrlEncode ''a&b'' True) True = ''a%26b''"
    by (simp add: UrlDecode_map plus_to_space_def)
qed

end
