(* ===== verification/OrderedContainers.thy ===== *)
theory OrderedContainers
  imports Prelude
begin

text \<open>
  The ordered containers of the C++ standard library that the code uses: a \<open>std::set\<close> with
  a comparator is the list of its elements in comparator order, a \<open>std::map\<close> the list of its
  (key, value) nodes in key order. The operations follow the library's contract: two keys
  are the same key when neither is less than the other; \<open>insert\<close> leaves an existing node
  alone; \<open>operator[]\<close> assigns to the existing node and keeps its old key.

  The locale \<open>comparator\<close> states what the library asks of a comparator (a strict weak
  order); the laws of the containers are proved in it once. Each component that stores its
  data in such a container interprets the locale at its own comparator.
\<close>

section \<open>The operations\<close>

fun oset_insert :: "('k \<Rightarrow> 'k \<Rightarrow> bool) \<Rightarrow> 'k \<Rightarrow> 'k list \<Rightarrow> 'k list" where
  "oset_insert lt x [] = [x]"
| "oset_insert lt x (y # ys) =
     (if lt x y then x # y # ys else if lt y x then y # oset_insert lt x ys else y # ys)"

fun oset_find :: "('k \<Rightarrow> 'k \<Rightarrow> bool) \<Rightarrow> 'k \<Rightarrow> 'k list \<Rightarrow> 'k option" where
  "oset_find lt x [] = None"
| "oset_find lt x (y # ys) =
     (if lt y x then oset_find lt x ys else if lt x y then None else Some y)"

fun oset_erase :: "('k \<Rightarrow> 'k \<Rightarrow> bool) \<Rightarrow> 'k \<Rightarrow> 'k list \<Rightarrow> 'k list" where
  "oset_erase lt x [] = []"
| "oset_erase lt x (y # ys) =
     (if lt y x then y # oset_erase lt x ys else if lt x y then y # ys else ys)"

text \<open>Number of elements before \<open>upper_bound(x)\<close>, the first element greater than \<open>x\<close>.\<close>

fun oset_upper_bound :: "('k \<Rightarrow> 'k \<Rightarrow> bool) \<Rightarrow> 'k \<Rightarrow> 'k list \<Rightarrow> nat" where
  "oset_upper_bound lt x [] = 0"
| "oset_upper_bound lt x (y # ys) = (if lt x y then 0 else Suc (oset_upper_bound lt x ys))"

fun omap_find :: "('k \<Rightarrow> 'k \<Rightarrow> bool) \<Rightarrow> 'k \<Rightarrow> ('k \<times> 'v) list \<Rightarrow> 'v option" where
  "omap_find lt k [] = None"
| "omap_find lt k ((k', v) # m) =
     (if lt k' k then omap_find lt k m else if lt k k' then None else Some v)"

text \<open>\<open>m.insert(make_pair(k, v))\<close>\<close>

fun omap_insert :: "('k \<Rightarrow> 'k \<Rightarrow> bool) \<Rightarrow> 'k \<Rightarrow> 'v \<Rightarrow> ('k \<times> 'v) list \<Rightarrow> ('k \<times> 'v) list" where
  "omap_insert lt k v [] = [(k, v)]"
| "omap_insert lt k v ((k', v') # m) =
     (if lt k' k then (k', v') # omap_insert lt k v m
      else if lt k k' then (k, v) # (k', v') # m
      else (k', v') # m)"

text \<open>\<open>m[k] = v\<close>\<close>

fun omap_assign :: "('k \<Rightarrow> 'k \<Rightarrow> bool) \<Rightarrow> 'k \<Rightarrow> 'v \<Rightarrow> ('k \<times> 'v) list \<Rightarrow> ('k \<times> 'v) list" where
  "omap_assign lt k v [] = [(k, v)]"
| "omap_assign lt k v ((k', v') # m) =
     (if lt k' k then (k', v') # omap_assign lt k v m
      else if lt k k' then (k, v) # (k', v') # m
      else (k', v) # m)"

text \<open>\<open>m.erase(k)\<close>\<close>

fun omap_erase :: "('k \<Rightarrow> 'k \<Rightarrow> bool) \<Rightarrow> 'k \<Rightarrow> ('k \<times> 'v) list \<Rightarrow> ('k \<times> 'v) list" where
  "omap_erase lt k [] = []"
| "omap_erase lt k ((k', v') # m) =
     (if lt k' k then (k', v') # omap_erase lt k m
      else if lt k k' then (k', v') # m else m)"

definition okeys :: "('k \<times> 'v) list \<Rightarrow> 'k list" where
  "okeys m = map fst m"

lemma okeys_simps [simp]: "okeys [] = []" "okeys ((k, v) # m) = k # okeys m"
  by (simp_all add: okeys_def)

section \<open>The laws, for a strict weak order\<close>

locale comparator =
  fixes lt :: "'k \<Rightarrow> 'k \<Rightarrow> bool"
  assumes lt_irrefl: "\<not> lt x x"
    and lt_trans: "lt x y \<Longrightarrow> lt y z \<Longrightarrow> lt x z"
    and lt_cotrans: "lt x z \<Longrightarrow> lt x y \<or> lt y z"
begin

lemma lt_asym: "lt x y \<Longrightarrow> \<not> lt y x"
  using lt_irrefl lt_trans by blast

lemma eqv_lt1: "\<not> lt x y \<Longrightarrow> \<not> lt y x \<Longrightarrow> lt x z = lt y z"
  using lt_cotrans by blast

lemma eqv_lt2: "\<not> lt x y \<Longrightarrow> \<not> lt y x \<Longrightarrow> lt z x = lt z y"
  using lt_cotrans by blast

text \<open>Sets.\<close>

lemma set_oset_insert_sub: "set (oset_insert lt x ys) \<subseteq> insert x (set ys)"
  by (induction ys) auto

lemma set_oset_erase_sub: "set (oset_erase lt x ys) \<subseteq> set ys"
  by (induction ys) auto

lemma sorted_oset_insert: "sorted_wrt lt ys \<Longrightarrow> sorted_wrt lt (oset_insert lt x ys)"
proof (induction ys)
  case (Cons y ys)
  consider "lt x y" | "lt y x" "\<not> lt x y" | "\<not> lt x y" "\<not> lt y x" by blast
  then show ?case
  proof cases
    case 1
    then show ?thesis using Cons.prems lt_trans [OF 1] by auto
  next
    case 2
    have "\<forall>z \<in> set (oset_insert lt x ys). lt y z"
      using set_oset_insert_sub [of x ys] 2 Cons.prems by auto
    then show ?thesis using 2 Cons by simp
  qed (use Cons.prems in simp)
qed simp

lemma sorted_oset_erase: "sorted_wrt lt ys \<Longrightarrow> sorted_wrt lt (oset_erase lt x ys)"
proof (induction ys)
  case (Cons y ys)
  have "\<forall>z \<in> set (oset_erase lt x ys). lt y z"
    using set_oset_erase_sub [of x ys] Cons.prems by auto
  then show ?case using Cons by simp
qed simp

lemma oset_find_member:
  "sorted_wrt lt ys \<Longrightarrow> x \<in> set ys \<Longrightarrow> oset_find lt x ys = Some x"
  by (induction ys) (auto simp: lt_irrefl dest: lt_asym)

lemma oset_find_Some: "oset_find lt x ys = Some y \<Longrightarrow> y \<in> set ys \<and> \<not> lt x y \<and> \<not> lt y x"
  by (induction ys) (auto split: if_splits)

lemma oset_erase_member:
  "sorted_wrt lt ys \<Longrightarrow> x \<in> set ys \<Longrightarrow> set (oset_erase lt x ys) = set ys - {x}"
proof (induction ys)
  case (Cons y ys)
  show ?case
  proof (cases "x = y")
    case True
    then have "x \<notin> set ys" using Cons.prems lt_irrefl by auto
    then show ?thesis using True lt_irrefl by simp
  next
    case False
    then have "lt y x" using Cons.prems by auto
    then show ?thesis using False Cons by auto
  qed
qed simp

lemma oset_insert_new:
  assumes "\<forall>y \<in> set ys. lt x y \<or> lt y x"
  shows "set (oset_insert lt x ys) = insert x (set ys)"
  using assms by (induction ys) auto

lemma oset_insert_hd:
  "sorted_wrt lt ys \<Longrightarrow> \<forall>y \<in> set ys. lt x y \<Longrightarrow> oset_insert lt x ys = x # ys"
  by (cases ys) auto

lemma oset_upper_bound_le: "oset_upper_bound lt x ys \<le> length ys"
  by (induction ys) auto

lemma oset_upper_bound_take:
  "y \<in> set (take (oset_upper_bound lt x ys) ys) \<Longrightarrow> \<not> lt x y"
  by (induction ys) (auto split: if_splits)

lemma oset_upper_bound_drop:
  "sorted_wrt lt ys \<Longrightarrow> y \<in> set (drop (oset_upper_bound lt x ys) ys) \<Longrightarrow> lt x y"
  by (induction ys) (auto split: if_splits intro: lt_trans)

text \<open>Maps.\<close>

lemma okeys_omap_insert: "set (okeys (omap_insert lt k v m)) \<subseteq> insert k (set (okeys m))"
  by (induction m) (auto split: if_splits)

lemma okeys_omap_assign: "set (okeys (omap_assign lt k v m)) \<subseteq> insert k (set (okeys m))"
  by (induction m) (auto split: if_splits)

lemma okeys_omap_erase: "set (okeys (omap_erase lt k m)) \<subseteq> set (okeys m)"
  by (induction m) (auto split: if_splits)

lemma sorted_omap_insert:
  "sorted_wrt lt (okeys m) \<Longrightarrow> sorted_wrt lt (okeys (omap_insert lt k v m))"
proof (induction m)
  case (Cons p m)
  obtain k' v' where p: "p = (k', v')" by (cases p)
  have "lt k' k \<Longrightarrow> \<forall>z \<in> set (okeys (omap_insert lt k v m)). lt k' z"
    using okeys_omap_insert [of k v m] Cons.prems p by auto
  then show ?case using Cons p lt_trans [of k k'] by auto
qed simp

lemma sorted_omap_assign:
  "sorted_wrt lt (okeys m) \<Longrightarrow> sorted_wrt lt (okeys (omap_assign lt k v m))"
proof (induction m)
  case (Cons p m)
  obtain k' v' where p: "p = (k', v')" by (cases p)
  have "lt k' k \<Longrightarrow> \<forall>z \<in> set (okeys (omap_assign lt k v m)). lt k' z"
    using okeys_omap_assign [of k v m] Cons.prems p by auto
  then show ?case using Cons p lt_trans [of k k'] by auto
qed simp

lemma sorted_omap_erase:
  "sorted_wrt lt (okeys m) \<Longrightarrow> sorted_wrt lt (okeys (omap_erase lt k m))"
proof (induction m)
  case (Cons p m)
  obtain k' v' where p: "p = (k', v')" by (cases p)
  have "\<forall>z \<in> set (okeys (omap_erase lt k m)). lt k' z"
    using okeys_omap_erase [of k m] Cons.prems p by auto
  then show ?case using Cons p by auto
qed simp

lemma omap_find_less: "\<forall>k' \<in> set (okeys m). lt k k' \<Longrightarrow> omap_find lt k m = None"
  by (cases m) (auto dest: lt_asym)

lemma omap_find_assign:
  "sorted_wrt lt (okeys m) \<Longrightarrow>
   omap_find lt j (omap_assign lt k v m) =
     (if \<not> lt j k \<and> \<not> lt k j then Some v else omap_find lt j m)"
proof (induction m)
  case Nil
  then show ?case by simp
next
  case (Cons p m)
  obtain k' v' where p: "p = (k', v')" by (cases p)
  consider "lt k' k" | "lt k k'" "\<not> lt k' k" | "\<not> lt k' k" "\<not> lt k k'" by blast
  then show ?case
  proof cases
    case 1
    then show ?thesis
      using Cons p lt_trans [of j k' k] eqv_lt1 [of j k' k] lt_asym [of j k'] by auto
  next
    case 2
    then show ?thesis
      using Cons.prems p lt_trans [of j k k'] eqv_lt1 [of j k k'] lt_asym [of j k'] by auto
  next
    case 3
    show ?thesis
      using 3 Cons.prems p eqv_lt1 [of k k' j] eqv_lt2 [of k k' j] by auto
  qed
qed

lemma omap_find_insert:
  "sorted_wrt lt (okeys m) \<Longrightarrow>
   omap_find lt j (omap_insert lt k v m) =
     (if \<not> lt j k \<and> \<not> lt k j \<and> omap_find lt k m = None then Some v else omap_find lt j m)"
proof (induction m)
  case Nil
  then show ?case by simp
next
  case (Cons p m)
  obtain k' v' where p: "p = (k', v')" by (cases p)
  consider "lt k' k" | "lt k k'" "\<not> lt k' k" | "\<not> lt k' k" "\<not> lt k k'" by blast
  then show ?case
  proof cases
    case 1
    then show ?thesis
      using Cons p lt_trans [of j k' k] eqv_lt1 [of j k' k] lt_asym [of j k'] by auto
  next
    case 2
    then show ?thesis
      using Cons.prems p lt_trans [of j k k'] eqv_lt1 [of j k k'] lt_asym [of j k'] by auto
  next
    case 3
    show ?thesis
      using 3 Cons.prems p eqv_lt1 [of k k' j] eqv_lt2 [of k k' j] by auto
  qed
qed

lemma omap_find_erase:
  "sorted_wrt lt (okeys m) \<Longrightarrow>
   omap_find lt j (omap_erase lt k m) =
     (if \<not> lt j k \<and> \<not> lt k j then None else omap_find lt j m)"
proof (induction m)
  case Nil
  then show ?case by simp
next
  case (Cons p m)
  obtain k' v' where p: "p = (k', v')" by (cases p)
  consider "lt k' k" | "lt k k'" "\<not> lt k' k" | "\<not> lt k' k" "\<not> lt k k'" by blast
  then show ?case
  proof cases
    case 1
    then show ?thesis
      using Cons p lt_trans [of j k' k] eqv_lt1 [of j k' k] lt_asym [of j k'] by auto
  next
    case 2
    then show ?thesis
      using Cons.prems p lt_trans [of j k k'] eqv_lt1 [of j k k'] lt_asym [of j k'] by auto
  next
    case 3
    have gt: "\<forall>x \<in> set (okeys m). lt k' x" using Cons.prems p by auto
    have none: "omap_find lt j m = None" if "\<not> lt j k" "\<not> lt k j"
    proof (rule omap_find_less)
      show "\<forall>x \<in> set (okeys m). lt j x"
        using gt eqv_lt1 [of j k] eqv_lt1 [of k k'] that 3 by auto
    qed
    have less: "omap_find lt j m = None" if "lt j k'"
      using gt lt_trans [OF that] by (auto intro: omap_find_less)
    show ?thesis
      using 3 Cons.prems p none less eqv_lt1 [of k k' j] eqv_lt2 [of k k' j] by auto
  qed
qed

lemma omap_find_eqv: "\<not> lt j k \<Longrightarrow> \<not> lt k j \<Longrightarrow> omap_find lt j m = omap_find lt k m"
proof (induction m)
  case (Cons p m)
  obtain k' v' where p: "p = (k', v')" by (cases p)
  show ?case
    using Cons p eqv_lt1 [of j k k'] eqv_lt2 [of j k k'] by simp
qed simp

end

text \<open>
  What the clients of an ordered map rely on, gathered as one bundle per interpretation is
  reached through the qualifier (for example \<open>ci.omap_find_assign\<close>).
\<close>

end
