(* ===== verification/HttpMessages.thy ===== *)
theory HttpMessages
  imports UrlText OrderedContainers
begin

text \<open>
  Model of \<open>src/Http/Http.h\<close> and \<open>src/Http/Http.cc\<close>: request methods and status codes, the
  case-insensitive maps of header fields, parameters and cookies, requests and responses with
  their lazily parsed parameters, and their output on a stream.

  A \<open>MapType\<close> is a \<open>std::map\<close> ordered by \<open>CompareIngnoreCase\<close>. A status is the number of the
  enumeration, since parsers cast arbitrary numbers to it. A stream is the string written to
  it. \<open>lexical_cast<T>\<close> is an argument of the generic getters (\<open>None\<close> when it throws), and so
  are the default-constructed value of \<open>T\<close> and the text that \<open>Time2Str\<close> produces.
\<close>

section \<open>Methods and status codes\<close>

datatype http_method =
  HTTP_DELETE | HTTP_GET | HTTP_HEAD | HTTP_POST | HTTP_PUT | HTTP_CONNECT | HTTP_OPTIONS |
  HTTP_TRACE | HTTP_COPY | HTTP_LOCK | HTTP_MKCOL | HTTP_MOVE | HTTP_PROPFIND |
  HTTP_PROPPATCH | HTTP_SEARCH | HTTP_UNLOCK | HTTP_BIND | HTTP_REBIND | HTTP_UNBIND |
  HTTP_ACL | HTTP_REPORT | HTTP_MKACTIVITY | HTTP_CHECKOUT | HTTP_MERGE | HTTP_MSEARCH |
  HTTP_NOTIFY | HTTP_SUBSCRIBE | HTTP_UNSUBSCRIBE | HTTP_PATCH | HTTP_PURGE | HTTP_MKCALENDAR |
  HTTP_LINK | HTTP_UNLINK | HTTP_SOURCE | INVALID_METHOD

definition http_method_map :: "(http_method \<times> string) list" where
  "http_method_map =
    [(HTTP_DELETE, ''DELETE''), (HTTP_GET, ''GET''), (HTTP_HEAD, ''HEAD''),
     (HTTP_POST, ''POST''), (HTTP_PUT, ''PUT''), (HTTP_CONNECT, ''CONNECT''),
     (HTTP_OPTIONS, ''OPTIONS''), (HTTP_TRACE, ''TRACE''), (HTTP_COPY, ''COPY''),
     (HTTP_LOCK, ''LOCK''), (HTTP_MKCOL, ''MKCOL''), (HTTP_MOVE, ''MOVE''),
     (HTTP_PROPFIND, ''PROPFIND''), (HTTP_PROPPATCH, ''PROPPATCH''), (HTTP_SEARCH, ''SEARCH''),
     (HTTP_UNLOCK, ''UNLOCK''), (HTTP_BIND, ''BIND''), (HTTP_REBIND, ''REBIND''),
     (HTTP_UNBIND, ''UNBIND''), (HTTP_ACL, ''ACL''), (HTTP_REPORT, ''REPORT''),
     (HTTP_MKACTIVITY, ''MKACTIVITY''), (HTTP_CHECKOUT, ''CHECKOUT''), (HTTP_MERGE, ''MERGE''),
     (HTTP_MSEARCH, ''M-SEARCH''), (HTTP_NOTIFY, ''NOTIFY''), (HTTP_SUBSCRIBE, ''SUBSCRIBE''),
     (HTTP_UNSUBSCRIBE, ''UNSUBSCRIBE''), (HTTP_PATCH, ''PATCH''), (HTTP_PURGE, ''PURGE''),
     (HTTP_MKCALENDAR, ''MKCALENDAR''), (HTTP_LINK, ''LINK''), (HTTP_UNLINK, ''UNLINK''),
     (HTTP_SOURCE, ''SOURCE'')]"

definition http_status_map :: "(nat \<times> string) list" where
  "http_status_map =
    [(100, ''Continue''), (101, ''Switching Protocols''), (102, ''Processing''), (200, ''OK''),
     (201, ''Created''), (202, ''Accepted''), (203, ''Non-Authoritative Information''),
     (204, ''No Content''), (205, ''Reset Content''), (206, ''Partial Content''),
     (207, ''Multi-Status''), (208, ''Already Reported''), (226, ''IM Used''),
     (300, ''Multiple Choices''), (301, ''Moved Permanently''), (302, ''Found''),
     (303, ''See Other''), (304, ''Not Modified''), (305, ''Use Proxy''),
     (307, ''Temporary Redirect''), (308, ''Permanent Redirect''), (400, ''Bad Request''),
     (401, ''Unauthorized''), (402, ''Payment Required''), (403, ''Forbidden''),
     (404, ''Not Found''), (405, ''Method Not Allowed''), (406, ''Not Acceptable''),
     (407, ''Proxy Authentication Required''), (408, ''Request Timeout''), (409, ''Conflict''),
     (410, ''Gone''), (411, ''Length Required''), (412, ''Precondition Failed''),
     (413, ''Payload Too Large''), (414, ''URI Too Long''), (415, ''Unsupported Media Type''),
     (416, ''Range Not Satisfiable''), (417, ''Expectation Failed''),
     (421, ''Misdirected Request''), (422, ''Unprocessable Entity''), (423, ''Locked''),
     (424, ''Failed Dependency''), (426, ''Upgrade Required''),
     (428, ''Precondition Required''), (429, ''Too Many Requests''),
     (431, ''Request Header Fields Too Large''), (451, ''Unavailable For Legal Reasons''),
     (500, ''Internal Server Error''), (501, ''Not Implemented''), (502, ''Bad Gateway''),
     (503, ''Service Unavailable''), (504, ''Gateway Timeout''),
     (505, ''HTTP Version Not Supported''), (506, ''Variant Also Negotiates''),
     (507, ''Insufficient Storage''), (508, ''Loop Detected''), (510, ''Not Extended''),
     (511, ''Network Authentication Required'')]"

definition StringToHttpMethod :: "string \<Rightarrow> http_method" where
  "StringToHttpMethod m =
     (case find (\<lambda>(num, name). name = c_str m) http_method_map of
        Some (num, name) \<Rightarrow> num | None \<Rightarrow> INVALID_METHOD)"

text \<open>\<open>strncmp(name, m, strlen(name)) == 0\<close>: the first method of the table that \<open>m\<close> starts with.\<close>

definition CharsToHttpMethod :: "string \<Rightarrow> http_method" where
  "CharsToHttpMethod m =
     (case find (\<lambda>(num, name). starts_with name (c_str m)) http_method_map of
        Some (num, name) \<Rightarrow> num | None \<Rightarrow> INVALID_METHOD)"

text \<open>
  The guard admits \<open>INVALID_METHOD\<close> itself, whose number is one past the end of
  \<open>s_method_string\<close>: reading there is undefined (\<open>None\<close>).
\<close>

definition HttpMethodToString :: "http_method \<Rightarrow> string option" where
  "HttpMethodToString m = map_of http_method_map m"

definition HttpStatusToString :: "nat \<Rightarrow> string" where
  "HttpStatusToString s =
     (case map_of http_status_map s of Some string \<Rightarrow> string | None \<Rightarrow> ''<unknown>'')"

definition CompareIngnoreCase :: "string \<Rightarrow> string \<Rightarrow> bool" where
  "CompareIngnoreCase lhs rhs = strcasecmp_less lhs rhs"

type_synonym ci_map = "(string \<times> string) list"

abbreviation ci_find :: "string \<Rightarrow> ci_map \<Rightarrow> string option" where
  "ci_find \<equiv> omap_find CompareIngnoreCase"
abbreviation ci_insert :: "string \<Rightarrow> string \<Rightarrow> ci_map \<Rightarrow> ci_map" where
  "ci_insert \<equiv> omap_insert CompareIngnoreCase"
abbreviation ci_assign :: "string \<Rightarrow> string \<Rightarrow> ci_map \<Rightarrow> ci_map" where
  "ci_assign \<equiv> omap_assign CompareIngnoreCase"
abbreviation ci_erase :: "string \<Rightarrow> ci_map \<Rightarrow> ci_map" where
  "ci_erase \<equiv> omap_erase CompareIngnoreCase"

section \<open>Generic getters\<close>

definition checkgetAs ::
  "(string \<Rightarrow> 'a option) \<Rightarrow> ci_map \<Rightarrow> string \<Rightarrow> 'a \<Rightarrow> 'a \<Rightarrow> bool \<times> 'a" where
  "checkgetAs lexical_cast m key v def =
     (case ci_find key m of
        None \<Rightarrow> (False, v)
      | Some s \<Rightarrow> (case lexical_cast s of Some x \<Rightarrow> (True, x) | None \<Rightarrow> (False, def)))"

text \<open>The third argument of \<open>getAs\<close> is a value that the function never uses.\<close>

definition getAs :: "(string \<Rightarrow> 'a option) \<Rightarrow> ci_map \<Rightarrow> string \<Rightarrow> 'a \<Rightarrow> 'a \<Rightarrow> 'a" where
  "getAs lexical_cast m key v def =
     (case ci_find key m of
        None \<Rightarrow> def
      | Some s \<Rightarrow> (case lexical_cast s of Some x \<Rightarrow> x | None \<Rightarrow> def))"

section \<open>Requests\<close>

record http_request =
  rq_method :: http_method
  rq_path :: string
  rq_query :: string
  rq_fragment :: string
  rq_version :: nat
  rq_headers :: ci_map
  rq_cookies :: ci_map
  rq_body :: string
  rq_close :: bool
  rq_websocket :: bool
  rq_parserParamFlag :: u8
  rq_params :: ci_map

record http_response =
  rs_version :: nat
  rs_status :: nat
  rs_reason :: string
  rs_headers :: ci_map
  rs_cookies :: "string list"
  rs_body :: string
  rs_close :: bool
  rs_websocket :: bool

definition HttpRequest_new :: "nat \<Rightarrow> bool \<Rightarrow> http_request" where
  "HttpRequest_new version close =
     \<lparr>rq_method = HTTP_GET, rq_path = ''/'', rq_query = [], rq_fragment = [],
      rq_version = version, rq_headers = [], rq_cookies = [], rq_body = [], rq_close = close,
      rq_websocket = False, rq_parserParamFlag = 0, rq_params = []\<rparr>"

definition HttpResponse_new :: "nat \<Rightarrow> bool \<Rightarrow> http_response" where
  "HttpResponse_new version close =
     \<lparr>rs_version = version, rs_status = 200, rs_reason = [], rs_headers = [], rs_cookies = [],
      rs_body = [], rs_close = close, rs_websocket = False\<rparr>"

definition createHttpResponse :: "http_request \<Rightarrow> http_response" where
  "createHttpResponse rq = HttpResponse_new (rq_version rq) (rq_close rq)"

definition rq_getHeader :: "http_request \<Rightarrow> string \<Rightarrow> string \<Rightarrow> string" where
  "rq_getHeader rq key def =
     (case ci_find key (rq_headers rq) of None \<Rightarrow> def | Some v \<Rightarrow> v)"

definition rq_init :: "http_request \<Rightarrow> http_request" where
  "rq_init rq =
     (let con = rq_getHeader rq ''Connection'' [] in
      if con = ''keep-alive'' then rq\<lparr>rq_close := False\<rparr> else rq\<lparr>rq_close := True\<rparr>)"

text \<open>One key-value pair of \<open>ParseParam\<close>, and its loop over the text from \<open>start\<close> on.\<close>

definition param_trim :: string where
  "param_trim = [char_of (9::nat), char_of (13::nat), char_of (10::nat)]"

definition parse_pair :: "string \<Rightarrow> ci_map \<Rightarrow> ci_map" where
  "parse_pair pair m =
     (if pair = [] then m
      else if CHR ''='' \<in> set pair then
        ci_insert (Trim (takeWhile (\<lambda>c. c \<noteq> CHR ''='') pair) param_trim)
          (UrlDecode (tl (dropWhile (\<lambda>c. c \<noteq> CHR ''='') pair)) True) m
      else ci_insert (Trim pair param_trim) [] m)"

function ParseParam :: "string \<Rightarrow> ci_map \<Rightarrow> char \<Rightarrow> ci_map" where
  "ParseParam str m flag =
     (if str = [] then m
      else let pair = takeWhile (\<lambda>c. c \<noteq> flag) str
        in ParseParam (drop (length pair + 1) str) (parse_pair pair m) flag)"
  by pat_completeness auto
termination
  by (relation "measure (\<lambda>(str, m, flag). length str)") auto

declare ParseParam.simps [simp del]

definition initQueryParam :: "http_request \<Rightarrow> http_request" where
  "initQueryParam rq =
     (if rq_parserParamFlag rq AND 0x01 \<noteq> 0 then rq
      else rq\<lparr>rq_params := ParseParam (rq_query rq) (rq_params rq) CHR ''&'',
              rq_parserParamFlag := rq_parserParamFlag rq OR 0x01\<rparr>)"

definition initBodyParam :: "http_request \<Rightarrow> http_request" where
  "initBodyParam rq =
     (if rq_parserParamFlag rq AND 0x02 \<noteq> 0 then rq
      else if \<not> strcasestr (rq_getHeader rq ''content-type'' [])
                 ''application/x-www-form-urlencoded''
      then rq\<lparr>rq_parserParamFlag := rq_parserParamFlag rq OR 0x2\<rparr>
      else rq\<lparr>rq_params := ParseParam (rq_body rq) (rq_params rq) CHR ''&'',
              rq_parserParamFlag := rq_parserParamFlag rq OR 0x02\<rparr>)"

definition initCookies :: "http_request \<Rightarrow> http_request" where
  "initCookies rq =
     (if rq_parserParamFlag rq AND 0x04 \<noteq> 0 then rq
      else let cookie = rq_getHeader rq ''cookie'' [] in
        if cookie = [] then rq\<lparr>rq_parserParamFlag := rq_parserParamFlag rq OR 0x04\<rparr>
        else rq\<lparr>rq_cookies := ParseParam cookie (rq_cookies rq) CHR '';'',
                rq_parserParamFlag := rq_parserParamFlag rq OR 0x04\<rparr>)"

definition initParamsAndCookies :: "http_request \<Rightarrow> http_request" where
  "initParamsAndCookies rq = initCookies (initBodyParam (initQueryParam rq))"

definition rq_getParam :: "http_request \<Rightarrow> string \<Rightarrow> string \<Rightarrow> http_request \<times> string" where
  "rq_getParam rq key def =
     (let rq = initBodyParam (initQueryParam rq)
      in (rq, case ci_find key (rq_params rq) of None \<Rightarrow> def | Some v \<Rightarrow> v))"

definition rq_getCookie :: "http_request \<Rightarrow> string \<Rightarrow> string \<Rightarrow> http_request \<times> string" where
  "rq_getCookie rq key def =
     (let rq = initCookies rq
      in (rq, case ci_find key (rq_cookies rq) of None \<Rightarrow> def | Some v \<Rightarrow> v))"

definition rq_setHeader :: "http_request \<Rightarrow> string \<Rightarrow> string \<Rightarrow> http_request" where
  "rq_setHeader rq key val = rq\<lparr>rq_headers := ci_assign key val (rq_headers rq)\<rparr>"
definition rq_delHeader :: "http_request \<Rightarrow> string \<Rightarrow> http_request" where
  "rq_delHeader rq key = rq\<lparr>rq_headers := ci_erase key (rq_headers rq)\<rparr>"
definition rq_setParam :: "http_request \<Rightarrow> string \<Rightarrow> string \<Rightarrow> http_request" where
  "rq_setParam rq key val = rq\<lparr>rq_params := ci_assign key val (rq_params rq)\<rparr>"
definition rq_delParam :: "http_request \<Rightarrow> string \<Rightarrow> http_request" where
  "rq_delParam rq key = rq\<lparr>rq_params := ci_erase key (rq_params rq)\<rparr>"
definition rq_setCookie :: "http_request \<Rightarrow> string \<Rightarrow> string \<Rightarrow> http_request" where
  "rq_setCookie rq key val = rq\<lparr>rq_cookies := ci_assign key val (rq_cookies rq)\<rparr>"
definition rq_delCookie :: "http_request \<Rightarrow> string \<Rightarrow> http_request" where
  "rq_delCookie rq key = rq\<lparr>rq_cookies := ci_erase key (rq_cookies rq)\<rparr>"

text \<open>The \<open>has\<close> functions return the value found, \<open>None\<close> when the key is missing.\<close>

definition rq_hasHeader :: "http_request \<Rightarrow> string \<Rightarrow> string option" where
  "rq_hasHeader rq key = ci_find key (rq_headers rq)"
definition rq_hasParam :: "http_request \<Rightarrow> string \<Rightarrow> http_request \<times> string option" where
  "rq_hasParam rq key =
     (let rq = initBodyParam (initQueryParam rq) in (rq, ci_find key (rq_params rq)))"
definition rq_hasCookie :: "http_request \<Rightarrow> string \<Rightarrow> http_request \<times> string option" where
  "rq_hasCookie rq key = (let rq = initCookies rq in (rq, ci_find key (rq_cookies rq)))"

text \<open>\<open>getHeaderAs\<close> passes the caller's default as the unused argument of \<open>getAs\<close>.\<close>

definition rq_checkGetHeaderAs ::
  "(string \<Rightarrow> 'a option) \<Rightarrow> http_request \<Rightarrow> string \<Rightarrow> 'a \<Rightarrow> 'a \<Rightarrow> bool \<times> 'a" where
  "rq_checkGetHeaderAs lexical_cast rq key val def =
     checkgetAs lexical_cast (rq_headers rq) key val def"
definition rq_getHeaderAs ::
  "(string \<Rightarrow> 'a option) \<Rightarrow> 'a \<Rightarrow> http_request \<Rightarrow> string \<Rightarrow> 'a \<Rightarrow> 'a" where
  "rq_getHeaderAs lexical_cast T_default rq key def =
     getAs lexical_cast (rq_headers rq) key def T_default"
definition rq_checkGetParamAs ::
  "(string \<Rightarrow> 'a option) \<Rightarrow> http_request \<Rightarrow> string \<Rightarrow> 'a \<Rightarrow> 'a \<Rightarrow> http_request \<times> bool \<times> 'a" where
  "rq_checkGetParamAs lexical_cast rq key val def =
     (let rq = initBodyParam (initQueryParam rq)
      in (rq, checkgetAs lexical_cast (rq_params rq) key val def))"
definition rq_getParamAs ::
  "(string \<Rightarrow> 'a option) \<Rightarrow> 'a \<Rightarrow> http_request \<Rightarrow> string \<Rightarrow> 'a \<Rightarrow> http_request \<times> 'a" where
  "rq_getParamAs lexical_cast T_default rq key def =
     (let rq = initBodyParam (initQueryParam rq)
      in (rq, getAs lexical_cast (rq_params rq) key def T_default))"
definition rq_checkGetCookieAs ::
  "(string \<Rightarrow> 'a option) \<Rightarrow> http_request \<Rightarrow> string \<Rightarrow> 'a \<Rightarrow> 'a \<Rightarrow> http_request \<times> bool \<times> 'a" where
  "rq_checkGetCookieAs lexical_cast rq key val def =
     (let rq = initCookies rq in (rq, checkgetAs lexical_cast (rq_cookies rq) key val def))"
definition rq_getCookieAs ::
  "(string \<Rightarrow> 'a option) \<Rightarrow> 'a \<Rightarrow> http_request \<Rightarrow> string \<Rightarrow> 'a \<Rightarrow> http_request \<times> 'a" where
  "rq_getCookieAs lexical_cast T_default rq key def =
     (let rq = initCookies rq in (rq, getAs lexical_cast (rq_cookies rq) key def T_default))"

section \<open>Output\<close>

definition CRLF :: string where "CRLF = [char_of (13::nat), char_of (10::nat)]"

definition is_connection :: "string \<Rightarrow> bool" where
  "is_connection key = strcasecmp_eq key ''connection''"

definition dump_headers :: "bool \<Rightarrow> ci_map \<Rightarrow> string" where
  "dump_headers websocket m =
     concat (map (\<lambda>(k, v). k @ '': '' @ v @ CRLF)
       (filter (\<lambda>(k, v). \<not> (\<not> websocket \<and> is_connection k)) m))"

definition dump_version :: "nat \<Rightarrow> string" where
  "dump_version v = ''HTTP/'' @ dec_string (v div 16) @ ''.'' @ dec_string (v mod 16)"

definition dump_connection :: "bool \<Rightarrow> bool \<Rightarrow> string" where
  "dump_connection websocket close =
     (if websocket then []
      else ''connection: '' @ (if close then ''close'' else ''keep-alive'') @ CRLF)"

definition dump_body :: "string \<Rightarrow> string" where
  "dump_body body =
     (if body \<noteq> [] then ''content-length: '' @ dec_string (length body) @ CRLF @ CRLF @ body
      else CRLF)"

text \<open>\<open>None\<close> when the method is \<open>INVALID_METHOD\<close>, whose name cannot be read.\<close>

definition rq_dump :: "http_request \<Rightarrow> string option" where
  "rq_dump rq =
     (case HttpMethodToString (rq_method rq) of
        None \<Rightarrow> None
      | Some mname \<Rightarrow> Some (
          mname @ '' '' @ rq_path rq @
          (if rq_query rq = [] then [] else ''?'') @ rq_query rq @
          (if rq_fragment rq = [] then [] else ''#'') @ rq_fragment rq @
          '' '' @ dump_version (rq_version rq) @ CRLF @
          dump_connection (rq_websocket rq) (rq_close rq) @
          dump_headers (rq_websocket rq) (rq_headers rq) @
          dump_body (rq_body rq)))"

definition rs_getHeader :: "http_response \<Rightarrow> string \<Rightarrow> string \<Rightarrow> string" where
  "rs_getHeader rs key def =
     (case ci_find key (rs_headers rs) of None \<Rightarrow> def | Some v \<Rightarrow> v)"
definition rs_setHeader :: "http_response \<Rightarrow> string \<Rightarrow> string \<Rightarrow> http_response" where
  "rs_setHeader rs key val = rs\<lparr>rs_headers := ci_assign key val (rs_headers rs)\<rparr>"
definition rs_delHeader :: "http_response \<Rightarrow> string \<Rightarrow> http_response" where
  "rs_delHeader rs key = rs\<lparr>rs_headers := ci_erase key (rs_headers rs)\<rparr>"

definition rs_checkGetHeaderAs ::
  "(string \<Rightarrow> 'a option) \<Rightarrow> http_response \<Rightarrow> string \<Rightarrow> 'a \<Rightarrow> 'a \<Rightarrow> bool \<times> 'a" where
  "rs_checkGetHeaderAs lexical_cast rs key val def =
     checkgetAs lexical_cast (rs_headers rs) key val def"
definition rs_getHeaderAs ::
  "(string \<Rightarrow> 'a option) \<Rightarrow> 'a \<Rightarrow> http_response \<Rightarrow> string \<Rightarrow> 'a \<Rightarrow> 'a" where
  "rs_getHeaderAs lexical_cast T_default rs key def =
     getAs lexical_cast (rs_headers rs) key def T_default"

definition rs_setCookie ::
  "(int \<Rightarrow> string) \<Rightarrow> http_response \<Rightarrow> string \<Rightarrow> string \<Rightarrow> int \<Rightarrow> string \<Rightarrow> string \<Rightarrow> bool \<Rightarrow> http_response"
where
  "rs_setCookie Time2Str rs key val expired path domain secure =
     rs\<lparr>rs_cookies := rs_cookies rs @
       [key @ ''='' @ val @
        (if expired > 0 then '';expires='' @ Time2Str expired @ '' GMT'' else []) @
        (if domain \<noteq> [] then '';domain='' @ domain else []) @
        (if path \<noteq> [] then '';path='' @ path else []) @
        (if secure then '';secure'' else [])]\<rparr>"

definition setRedirect :: "http_response \<Rightarrow> string \<Rightarrow> http_response" where
  "setRedirect rs url = rs_setHeader (rs\<lparr>rs_status := 302\<rparr>) ''Location'' url"

definition rs_dump :: "http_response \<Rightarrow> string" where
  "rs_dump rs =
     dump_version (rs_version rs) @ '' '' @ dec_string (rs_status rs) @ '' '' @
     (if rs_reason rs = [] then HttpStatusToString (rs_status rs) else rs_reason rs) @ CRLF @
     dump_headers (rs_websocket rs) (rs_headers rs) @
     concat (map (\<lambda>c. ''Set-Cookie: '' @ c @ CRLF) (rs_cookies rs)) @
     dump_connection (rs_websocket rs) (rs_close rs) @
     dump_body (rs_body rs)"

section \<open>The case-insensitive maps\<close>

interpretation ci: comparator CompareIngnoreCase
proof unfold_locales
  fix x y z :: string
  show "\<not> CompareIngnoreCase x x"
    by (simp add: CompareIngnoreCase_def strcasecmp_less_def bytes_less_irrefl)
  show "CompareIngnoreCase x y \<Longrightarrow> CompareIngnoreCase y z \<Longrightarrow> CompareIngnoreCase x z"
    unfolding CompareIngnoreCase_def strcasecmp_less_def by (rule bytes_less_trans)
  show "CompareIngnoreCase x z \<Longrightarrow> CompareIngnoreCase x y \<or> CompareIngnoreCase y z"
    unfolding CompareIngnoreCase_def strcasecmp_less_def by (rule bytes_less_cotrans)
qed

lemma ci_eqv: "\<not> CompareIngnoreCase a b \<and> \<not> CompareIngnoreCase b a \<longleftrightarrow> strcasecmp_eq a b"
  using bytes_less_total [of "lower_codes a" "lower_codes b"] bytes_less_irrefl
  by (auto simp: CompareIngnoreCase_def strcasecmp_less_def strcasecmp_eq_def)

definition ci_sorted :: "ci_map \<Rightarrow> bool" where
  "ci_sorted m \<longleftrightarrow> sorted_wrt CompareIngnoreCase (okeys m)"

lemma ci_sorted_ops [simp]:
  "ci_sorted []"
  "ci_sorted m \<Longrightarrow> ci_sorted (ci_insert k v m)"
  "ci_sorted m \<Longrightarrow> ci_sorted (ci_assign k v m)"
  "ci_sorted m \<Longrightarrow> ci_sorted (ci_erase k m)"
  by (simp_all add: ci_sorted_def ci.sorted_omap_insert ci.sorted_omap_assign ci.sorted_omap_erase)

lemma ci_find_ops:
  assumes "ci_sorted m"
  shows "ci_find j (ci_assign k v m) = (if strcasecmp_eq j k then Some v else ci_find j m)"
    and "ci_find j (ci_erase k m) = (if strcasecmp_eq j k then None else ci_find j m)"
    and "ci_find j (ci_insert k v m) =
      (if strcasecmp_eq j k \<and> ci_find k m = None then Some v else ci_find j m)"
  using assms ci.omap_find_assign [of m j k v] ci.omap_find_erase [of m j k]
    ci.omap_find_insert [of m j k v] ci_eqv [of j k]
  by (auto simp: ci_sorted_def)

lemma ci_find_cong: "strcasecmp_eq j k \<Longrightarrow> ci_find j m = ci_find k m"
  using ci.omap_find_eqv [of j k m] ci_eqv [of j k] by blast

text \<open>The node of \<open>j\<close> after an insertion, by precedence: what is there stays.\<close>

lemma ci_find_insert_first:
  assumes "ci_sorted m"
  shows "ci_find j (ci_insert k v m) =
    (case ci_find j m of Some x \<Rightarrow> Some x | None \<Rightarrow> if strcasecmp_eq j k then Some v else None)"
  using ci_find_ops(3) [OF assms, of j k v] ci_find_cong [of j k m]
  by (auto split: option.splits)

definition first_of :: "'a option \<Rightarrow> 'a option \<Rightarrow> 'a option" where
  "first_of a b = (case a of Some x \<Rightarrow> Some x | None \<Rightarrow> b)"

lemma parse_pair_first:
  assumes "ci_sorted m"
  shows "ci_sorted (parse_pair p m) \<and>
    ci_find j (parse_pair p m) = first_of (ci_find j m) (ci_find j (parse_pair p []))"
proof -
  have n: "\<And>k v. ci_find j (ci_insert k v []) = (if strcasecmp_eq j k then Some v else None)"
    using ci_find_insert_first [of "[]" j] by simp
  show ?thesis
    using assms n
    by (auto simp: parse_pair_def first_of_def ci_find_insert_first split: option.splits)
qed

lemma first_of_assoc: "first_of (first_of a b) c = first_of a (first_of b c)"
  by (simp add: first_of_def split: option.splits)

lemma ParseParam_first:
  assumes "ci_sorted m"
  shows "ci_sorted (ParseParam s m f) \<and>
    ci_find j (ParseParam s m f) = first_of (ci_find j m) (ci_find j (ParseParam s [] f))"
  using assms
proof (induction "length s" arbitrary: s m rule: less_induct)
  case less
  show ?case
  proof (cases "s = []")
    case True
    then show ?thesis using less.prems
      by (subst (1 2 3) ParseParam.simps) (simp add: first_of_def split: option.splits)
  next
    case False
    let ?p = "takeWhile (\<lambda>c. c \<noteq> f) s"
    let ?r = "drop (length ?p + 1) s"
    have r: "length ?r < length s" using False by simp
    have step: "ParseParam s m' f = ParseParam ?r (parse_pair ?p m') f" for m'
      using False by (subst ParseParam.simps) (simp add: Let_def)
    have pm: "ci_sorted (parse_pair ?p m)" "ci_sorted (parse_pair ?p [])"
      "ci_find j (parse_pair ?p m) = first_of (ci_find j m) (ci_find j (parse_pair ?p []))"
      using parse_pair_first [of m ?p j] parse_pair_first [of "[]" ?p j] less.prems by auto
    show ?thesis
      using less.hyps [OF r pm(1)] less.hyps [OF r pm(2)] pm(3) step first_of_assoc by auto
  qed
qed

section \<open>Well-formed requests\<close>

definition rq_wf :: "http_request \<Rightarrow> bool" where
  "rq_wf rq \<longleftrightarrow> ci_sorted (rq_headers rq) \<and> ci_sorted (rq_cookies rq) \<and> ci_sorted (rq_params rq)"

lemma rq_wf_new: "rq_wf (HttpRequest_new v c)"
  by (simp add: rq_wf_def HttpRequest_new_def)

lemma rq_wf_inits:
  assumes "rq_wf rq"
  shows "rq_wf (initQueryParam rq)" "rq_wf (initBodyParam rq)" "rq_wf (initCookies rq)"
  using assms ParseParam_first
  by (simp_all add: rq_wf_def initQueryParam_def initBodyParam_def initCookies_def Let_def)

lemma init_flags:
  "rq_parserParamFlag (initQueryParam rq) = rq_parserParamFlag rq OR 1"
  "rq_parserParamFlag (initBodyParam rq) = rq_parserParamFlag rq OR 2"
  "rq_parserParamFlag (initCookies rq) = rq_parserParamFlag rq OR 4"
proof -
  have "x AND 1 \<noteq> 0 \<Longrightarrow> x OR 1 = x" "x AND 2 \<noteq> 0 \<Longrightarrow> x OR 2 = x" "x AND 4 \<noteq> 0 \<Longrightarrow> x OR 4 = x"
    for x :: u8
  proof -
    have p: "(1 :: u8) = push_bit 0 1" "(2 :: u8) = push_bit 1 1" "(4 :: u8) = push_bit 2 1" by simp_all
    have g: "x AND push_bit n 1 \<noteq> 0 \<Longrightarrow> x OR push_bit n 1 = x" for n
    proof -
      assume "x AND push_bit n 1 \<noteq> 0"
      moreover have "\<not> bit x n \<Longrightarrow> x AND push_bit n 1 = 0"
        by (intro bit_word_eqI) (auto simp: bit_simps)
      ultimately have "bit x n" by blast
      then show ?thesis by (intro bit_word_eqI) (auto simp: bit_simps)
    qed
    show "x AND 1 \<noteq> 0 \<Longrightarrow> x OR 1 = x" using g [of 0] by simp
    show "x AND 2 \<noteq> 0 \<Longrightarrow> x OR 2 = x" using g [of 1] by simp
    show "x AND 4 \<noteq> 0 \<Longrightarrow> x OR 4 = x" using g [of 2] by simp
  qed
  then show "rq_parserParamFlag (initQueryParam rq) = rq_parserParamFlag rq OR 1"
    "rq_parserParamFlag (initBodyParam rq) = rq_parserParamFlag rq OR 2"
    "rq_parserParamFlag (initCookies rq) = rq_parserParamFlag rq OR 4"
    by (auto simp: initQueryParam_def initBodyParam_def initCookies_def Let_def)
qed

lemma flag_set [simp]: "(x OR 1) AND 1 \<noteq> (0 :: u8)" "(x OR 2) AND 2 \<noteq> (0 :: u8)"
  "(x OR 4) AND 4 \<noteq> (0 :: u8)"
  by (simp_all add: bit.conj_disj_distrib2)

lemma init_idem:
  "initQueryParam (initQueryParam rq) = initQueryParam rq"
  "initBodyParam (initBodyParam rq) = initBodyParam rq"
  "initCookies (initCookies rq) = initCookies rq"
proof -
  have f: "rq_parserParamFlag (initQueryParam rq) AND 1 \<noteq> 0"
    "rq_parserParamFlag (initBodyParam rq) AND 2 \<noteq> 0"
    "rq_parserParamFlag (initCookies rq) AND 4 \<noteq> 0"
    by (simp_all add: init_flags)
  show "initQueryParam (initQueryParam rq) = initQueryParam rq"
    by (subst initQueryParam_def) (simp only: f if_True not_False_eq_True)
  show "initBodyParam (initBodyParam rq) = initBodyParam rq"
    by (subst initBodyParam_def) (simp only: f if_True not_False_eq_True)
  show "initCookies (initCookies rq) = initCookies rq"
    by (subst initCookies_def) (simp only: f if_True not_False_eq_True)
qed

lemma method_table:
  "list_all (\<lambda>(m, s). StringToHttpMethod s = m \<and> CharsToHttpMethod s = m \<and>
      HttpMethodToString m = Some s) http_method_map"
  by code_simp

section \<open>Properties\<close>

text \<open>Method names: every method but \<open>INVALID_METHOD\<close> has a name, both parsers map the name
  back to the method, and \<open>StringToHttpMethod\<close> accepts nothing but the names.\<close>

theorem method_names_round_trip:
  "(m \<noteq> INVALID_METHOD \<longrightarrow> (\<exists>s. HttpMethodToString m = Some s \<and>
      StringToHttpMethod s = m \<and> CharsToHttpMethod s = m)) \<and>
   (StringToHttpMethod s' = m \<and> m \<noteq> INVALID_METHOD \<longrightarrow> HttpMethodToString m = Some (c_str s'))"
proof (intro conjI impI)
  note method_table
  moreover assume "m \<noteq> INVALID_METHOD"
  then have "\<exists>s. (m, s) \<in> set http_method_map"
    by (cases m) (auto simp: http_method_map_def)
  ultimately show "\<exists>s. HttpMethodToString m = Some s \<and>
      StringToHttpMethod s = m \<and> CharsToHttpMethod s = m"
    by (auto simp: list_all_iff)
next
  assume a: "StringToHttpMethod s' = m \<and> m \<noteq> INVALID_METHOD"
  have d: "distinct (map fst http_method_map)" by code_simp
  obtain p where p: "find (\<lambda>(num, name). name = c_str s') http_method_map = Some p"
    using a by (cases "find (\<lambda>(num, name). name = c_str s') http_method_map")
      (auto simp: StringToHttpMethod_def)
  then have "p \<in> set http_method_map" "snd p = c_str s'"
    by (auto simp: find_Some_iff case_prod_beta)
  moreover have "fst p = m" using a p by (simp add: StringToHttpMethod_def case_prod_beta)
  ultimately show "HttpMethodToString m = Some (c_str s')"
    using d by (simp add: HttpMethodToString_def map_of_eq_Some_iff) (metis prod.collapse)
qed

theorem method_names_round_trip_witness:
  "StringToHttpMethod ''M-SEARCH'' = HTTP_MSEARCH \<and>
   HttpMethodToString HTTP_MSEARCH = Some ''M-SEARCH''"
proof -
  have "StringToHttpMethod ''M-SEARCH'' = HTTP_MSEARCH" "c_str ''M-SEARCH'' = ''M-SEARCH''"
    by code_simp+
  then show ?thesis using method_names_round_trip [of HTTP_MSEARCH "''M-SEARCH''"] by simp
qed

text \<open>The invalid method has no name: its number indexes one past the table of names, so
  printing a request whose method was not recognised is undefined.\<close>

theorem invalid_method_has_no_name:
  "HttpMethodToString INVALID_METHOD = None \<and>
   rq_dump ((HttpRequest_new 0x11 True)\<lparr>rq_method := INVALID_METHOD\<rparr>) = None"
proof -
  have "HttpMethodToString INVALID_METHOD = None" by code_simp
  then show ?thesis by (simp add: rq_dump_def HttpRequest_new_def)
qed

text \<open>Header fields are a map without regard to case: after \<open>setHeader\<close> every spelling of the
  key yields the new value and every other key is unaffected, after \<open>delHeader\<close> no spelling
  yields any.\<close>

theorem headers_ignore_case:
  assumes "rq_wf rq"
  shows "rq_wf (rq_setHeader rq key val) \<and> rq_wf (rq_delHeader rq key) \<and>
    rq_getHeader (rq_setHeader rq key val) k def =
      (if strcasecmp_eq k key then val else rq_getHeader rq k def) \<and>
    rq_getHeader (rq_delHeader rq key) k def =
      (if strcasecmp_eq k key then def else rq_getHeader rq k def)"
  using assms
  by (simp add: rq_wf_def rq_setHeader_def rq_delHeader_def rq_getHeader_def ci_find_ops)

theorem headers_ignore_case_witness:
  "rq_getHeader (rq_setHeader (HttpRequest_new 0x11 True) ''Host'' ''a'') ''HOST'' [] = ''a''"
proof -
  have "strcasecmp_eq ''HOST'' ''Host''" by code_simp
  then show ?thesis
    using headers_ignore_case [of "HttpRequest_new 0x11 True" "''Host''" "''a''" "''HOST''" "[]"]
      rq_wf_new by simp
qed

text \<open>Lazy parsing: query and body are parsed at most once however often parameters are asked
  for, parameters set by hand are never overwritten, and a parameter of the query hides one
  of the same name in the body.\<close>

theorem params_parsed_once:
  assumes "rq_wf rq" "rq_parserParamFlag rq = 0"
  shows "let rq' = fst (rq_getParam rq key def); form = strcasestr (rq_getHeader rq ''content-type'' [])
           ''application/x-www-form-urlencoded'' in
    rq_wf rq' \<and> fst (rq_getParam rq' key2 def2) = rq' \<and> rq_parserParamFlag rq' = 3 \<and>
    ci_find k (rq_params rq') = first_of (first_of (ci_find k (rq_params rq))
      (ci_find k (ParseParam (rq_query rq) [] CHR ''&'')))
      (if form then ci_find k (ParseParam (rq_body rq) [] CHR ''&'') else None)"
proof -
  let ?q = "initQueryParam rq" and ?b = "initBodyParam (initQueryParam rq)"
  have wf: "rq_wf ?q" "rq_wf ?b" using rq_wf_inits assms(1) by auto
  have fl: "rq_parserParamFlag ?b = 3" using assms(2) by (simp add: init_flags)
  have q: "ci_sorted (rq_params ?q)" "ci_find k (rq_params ?q) = first_of (ci_find k (rq_params rq))
      (ci_find k (ParseParam (rq_query rq) [] CHR ''&''))"
    using ParseParam_first [of "rq_params rq" "rq_query rq" "CHR ''&''" k] assms
    by (auto simp: initQueryParam_def rq_wf_def)
  have same: "rq_headers ?q = rq_headers rq" "rq_body ?q = rq_body rq" "rq_parserParamFlag ?q = 1"
    using assms(2) by (auto simp: initQueryParam_def)
  have "ci_find k (rq_params ?b) = first_of (ci_find k (rq_params ?q))
      (if strcasestr (rq_getHeader rq ''content-type'' []) ''application/x-www-form-urlencoded''
       then ci_find k (ParseParam (rq_body rq) [] CHR ''&'') else None)"
    using same ParseParam_first [OF q(1), of "rq_body rq" "CHR ''&''" k]
    by (simp add: initBodyParam_def rq_getHeader_def first_of_def split: option.splits)
  moreover have "initBodyParam (initQueryParam ?b) = ?b"
    using fl by (simp add: initQueryParam_def [of ?b] initBodyParam_def [of ?b])
  ultimately show ?thesis using wf fl q by (simp add: rq_getParam_def Let_def)
qed

theorem params_parsed_once_witness:
  "rq_parserParamFlag (fst (rq_getParam (HttpRequest_new 0x11 True) ''a'' [])) = 3"
  using params_parsed_once [of "HttpRequest_new 0x11 True" "''a''" "[]" "''a''" "[]" "''a''"]
    rq_wf_new by (simp add: HttpRequest_new_def Let_def)

text \<open>Cookies after the first one keep the space that separates them: trimming removes tabs
  and line ends only, so the second cookie of the standard form is found under a name that
  starts with a space and not under its own.\<close>

theorem second_cookie_keeps_space:
  "let rq = rq_setHeader (HttpRequest_new 0x11 True) ''Cookie'' ''a=1; b=2'' in
   snd (rq_getCookie rq ''a'' ''none'') = ''1'' \<and> snd (rq_getCookie rq ''b'' ''none'') = ''none'' \<and>
   snd (rq_getCookie rq '' b'' ''none'') = ''2''"
  by code_simp

text \<open>The default of the typed getters is ignored: \<open>getHeaderAs\<close> gives the same result for
  every default the caller passes.\<close>

theorem getHeaderAs_ignores_default:
  "rq_getHeaderAs cast d rq key def = rq_getHeaderAs cast d rq key def' \<and>
   rq_getHeaderAs cast (0 :: int) (HttpRequest_new 0x11 True) ''x'' 7 = 0"
  by (simp add: rq_getHeaderAs_def getAs_def HttpRequest_new_def)

end
