(* ===== verification/Timers.thy ===== *)
theory Timers
  imports OrderedContainers
begin

text \<open>
  Model of \<open>src/Timer.h\<close> and \<open>src/Timer.cc\<close>: timers kept in a \<open>std::set\<close> ordered by the next
  expiry and, for equal expiry, by address.

  The set holds shared pointers and the comparator reads the objects behind them, so the
  model has an explicit store: \<open>heap\<close> maps addresses to timer objects, \<open>m_timers\<close> is the list
  of the addresses in set order, address 0 is the null pointer. Times are 64-bit and their
  sums wrap around. \<open>now\<close> is the value of \<open>GetCurrentMS()\<close> in the call, \<open>a\<close> the address the
  allocator returns; both are arguments. Every operation takes the manager's lock for its
  whole critical section, so each is one atomic step here. The virtual call \<open>Haslatest()\<close>,
  made after the lock is released, is the boolean result of \<open>addtimer\<close>.
\<close>

section \<open>State\<close>

text \<open>A callback, or one bound by \<open>Condition\<close> to a weak pointer.\<close>

datatype 'c timer_cb = Plain 'c | Cond 'c nat

record 'c timer =
  m_ms :: u64
  m_next :: u64
  m_repeat :: bool
  m_cb :: "'c timer_cb option"

record 'c timer_manager =
  heap :: "nat \<Rightarrow> 'c timer"
  m_timers :: "nat list"
  m_notify :: bool
  m_previoustime :: u64

definition Compare :: "(nat \<Rightarrow> 'c timer) \<Rightarrow> nat \<Rightarrow> nat \<Rightarrow> bool" where
  "Compare h t1 t2 =
     (if t1 = 0 \<and> t2 = 0 then False
      else if t1 = 0 then True
      else if t2 = 0 then False
      else if m_next (h t1) = m_next (h t2) then t1 < t2
      else m_next (h t1) < m_next (h t2))"

definition Timer_at :: "u64 \<Rightarrow> 'c timer" where
  "Timer_at nxt = \<lparr>m_ms = 0, m_next = nxt, m_repeat = False, m_cb = None\<rparr>"

definition Timer_new :: "u64 \<Rightarrow> u64 \<Rightarrow> 'c timer_cb option \<Rightarrow> bool \<Rightarrow> 'c timer" where
  "Timer_new now ms cb repeat =
     \<lparr>m_ms = ms, m_next = now + ms, m_repeat = repeat, m_cb = cb\<rparr>"

definition TimerManager_new :: "(nat \<Rightarrow> 'c timer) \<Rightarrow> u64 \<Rightarrow> 'c timer_manager" where
  "TimerManager_new h now =
     \<lparr>heap = h, m_timers = [], m_notify = False, m_previoustime = now\<rparr>"

section \<open>Operations\<close>

definition addtimer :: "'c timer_manager \<Rightarrow> nat \<Rightarrow> 'c timer_manager \<times> bool" where
  "addtimer m t =
     (let ts = oset_insert (Compare (heap m)) t (m_timers m);
          need_notify = (hd ts = t \<and> \<not> m_notify m)
      in (m\<lparr>m_timers := ts, m_notify := (if need_notify then True else m_notify m)\<rparr>, need_notify))"

definition addTimer ::
  "'c timer_manager \<Rightarrow> u64 \<Rightarrow> nat \<Rightarrow> u64 \<Rightarrow> 'c timer_cb option \<Rightarrow> bool \<Rightarrow> 'c timer_manager \<times> bool"
where
  "addTimer m now a ms cb repeat =
     addtimer (m\<lparr>heap := (heap m)(a := Timer_new now ms cb repeat)\<rparr>) a"

definition addConditionTimer ::
  "'c timer_manager \<Rightarrow> u64 \<Rightarrow> nat \<Rightarrow> u64 \<Rightarrow> 'c \<Rightarrow> nat \<Rightarrow> bool \<Rightarrow> 'c timer_manager \<times> bool"
where
  "addConditionTimer m now a ms cb weak_cond repeat =
     addTimer m now a ms (Some (Cond cb weak_cond)) repeat"

text \<open>Running a callback: \<open>alive\<close> tells whether a weak pointer can still be locked.\<close>

fun Condition :: "(nat \<Rightarrow> bool) \<Rightarrow> 'c timer_cb \<Rightarrow> 'c option" where
  "Condition alive (Plain cb) = Some cb"
| "Condition alive (Cond cb weak_cond) = (if alive weak_cond then Some cb else None)"

definition refresh :: "'c timer_manager \<Rightarrow> u64 \<Rightarrow> nat \<Rightarrow> 'c timer_manager \<times> bool \<times> bool" where
  "refresh m now t =
     (if m_cb (heap m t) = None then (m, False, False)
      else case oset_find (Compare (heap m)) t (m_timers m) of
        None \<Rightarrow> (m, False, False)
      | Some it \<Rightarrow>
          (let m1 = m\<lparr>m_timers := oset_erase (Compare (heap m)) it (m_timers m)\<rparr>;
               m2 = m1\<lparr>heap := (heap m1)(t := (heap m1 t)\<lparr>m_next := now + m_ms (heap m1 t)\<rparr>)\<rparr>;
               (m3, notified) = addtimer m2 t
           in (m3, True, notified)))"

definition cancel :: "'c timer_manager \<Rightarrow> nat \<Rightarrow> 'c timer_manager \<times> bool" where
  "cancel m t =
     (if m_cb (heap m t) = None then (m, False)
      else let m1 = m\<lparr>heap := (heap m)(t := (heap m t)\<lparr>m_cb := None\<rparr>)\<rparr> in
        case oset_find (Compare (heap m1)) t (m_timers m1) of
          None \<Rightarrow> (m1, False)
        | Some it \<Rightarrow>
            (m1\<lparr>m_timers := oset_erase (Compare (heap m1)) it (m_timers m1)\<rparr>, True))"

definition timer_reset ::
  "'c timer_manager \<Rightarrow> u64 \<Rightarrow> nat \<Rightarrow> u64 \<Rightarrow> bool \<Rightarrow> 'c timer_manager \<times> bool \<times> bool" where
  "timer_reset m now t ms from_now =
     (if m_ms (heap m t) = ms \<and> \<not> from_now then (m, True, False)
      else case oset_find (Compare (heap m)) t (m_timers m) of
        None \<Rightarrow> (m, False, False)
      | Some it \<Rightarrow>
          (let m1 = m\<lparr>m_timers := oset_erase (Compare (heap m)) it (m_timers m)\<rparr>;
               nxt = (if from_now then now else m_next (heap m1 t)) + ms;
               m2 = m1\<lparr>heap := (heap m1)(t := (heap m1 t)\<lparr>m_ms := ms, m_next := nxt\<rparr>)\<rparr>;
               (m3, notified) = addtimer m2 t
           in (m3, True, notified)))"

definition getNextTimer :: "'c timer_manager \<Rightarrow> u64 \<Rightarrow> 'c timer_manager \<times> u64" where
  "getNextTimer m now =
     (let m1 = m\<lparr>m_notify := False\<rparr> in
      case m_timers m1 of
        [] \<Rightarrow> (m1, - 1)
      | t # _ \<Rightarrow>
          (if now < m_next (heap m1 t) then (m1, m_next (heap m1 t) - now) else (m1, 0)))"

definition detectClockRollover :: "'c timer_manager \<Rightarrow> u64 \<Rightarrow> 'c timer_manager \<times> bool" where
  "detectClockRollover m now_ms =
     (if now_ms < m_previoustime m \<and> now_ms < m_previoustime m - 60 * 60 * 1000 then (m, True)
      else (m\<lparr>m_previoustime := now_ms\<rparr>, False))"

definition hasTimer :: "'c timer_manager \<Rightarrow> bool" where
  "hasTimer m \<longleftrightarrow> m_timers m \<noteq> []"

text \<open>The loop over the expired timers.\<close>

fun expire_loop ::
  "u64 \<Rightarrow> nat list \<Rightarrow> 'c timer_manager \<Rightarrow> 'c timer_cb list \<Rightarrow> 'c timer_manager \<times> 'c timer_cb list"
where
  "expire_loop now [] m cbs = (m, cbs)"
| "expire_loop now (t # ts) m cbs =
     (let cbs1 = (case m_cb (heap m t) of Some cb \<Rightarrow> cbs @ [cb] | None \<Rightarrow> cbs) in
      if m_repeat (heap m t) then
        (let h = (heap m)(t := (heap m t)\<lparr>m_next := now + m_ms (heap m t)\<rparr>)
         in expire_loop now ts
              (m\<lparr>heap := h, m_timers := oset_insert (Compare h) t (m_timers m)\<rparr>) cbs1)
      else expire_loop now ts
             (m\<lparr>heap := (heap m)(t := (heap m t)\<lparr>m_cb := None\<rparr>)\<rparr>) cbs1)"

text \<open>
  \<open>p\<close> is the address of \<open>now_timer\<close>. \<open>++it\<close> steps past the first timer that is greater than
  \<open>now_timer\<close>; at the end of the set it is undefined.
\<close>

definition listExpiredCb ::
  "'c timer_manager \<Rightarrow> u64 \<Rightarrow> nat \<Rightarrow> ('c timer_manager, unit, 'c timer_cb list) outcome" where
  "listExpiredCb m now p =
     (case m_timers m of
        [] \<Rightarrow> Ret m []
      | first # _ \<Rightarrow>
          (let (m1, rollover) = detectClockRollover m now in
           if \<not> rollover \<and> now < m_next (heap m1 first) then Ret m1 []
           else
             let m2 = m1\<lparr>heap := (heap m1)(p := Timer_at now)\<rparr>;
                 it = (if rollover then length (m_timers m2)
                       else oset_upper_bound (Compare (heap m2)) p (m_timers m2))
             in if it = length (m_timers m2) then Ub
                else let expired = take (Suc it) (m_timers m2);
                         (m3, cbs) = expire_loop now expired
                                       (m2\<lparr>m_timers := drop (Suc it) (m_timers m2)\<rparr>) []
                     in Ret m3 cbs))"

section \<open>The comparator and the set\<close>

lemma Compare_iff:
  "Compare h x y \<longleftrightarrow> y \<noteq> 0 \<and>
     (x = 0 \<or> m_next (h x) < m_next (h y) \<or> m_next (h x) = m_next (h y) \<and> x < y)"
  by (cases x; cases y) (auto simp: Compare_def)

lemma lex_trans:
  fixes a b c :: "'a::linorder" and x y z :: "'b::linorder"
  assumes "a < b \<or> a = b \<and> x < y" "b < c \<or> b = c \<and> y < z"
  shows "a < c \<or> a = c \<and> x < z"
  using assms by auto

lemma lex_cotrans:
  fixes a b c :: "'a::linorder" and x y z :: "'b::linorder"
  assumes "a < c \<or> a = c \<and> x < z"
  shows "(a < b \<or> a = b \<and> x < y) \<or> (b < c \<or> b = c \<and> y < z)"
  using assms by auto

interpretation timer_order: comparator "Compare h" for h :: "nat \<Rightarrow> 'c timer"
proof unfold_locales
  fix x y z :: nat
  let ?n = "\<lambda>x. m_next (h x)"
  show "\<not> Compare h x x" by (auto simp: Compare_iff)
  show "Compare h x z" if "Compare h x y" "Compare h y z"
  proof (cases "x = 0")
    case True
    then show ?thesis using that by (simp add: Compare_iff)
  next
    case False
    then show ?thesis
      using that lex_trans [of "?n x" "?n y" x y "?n z" z] by (simp add: Compare_iff)
  qed
  show "Compare h x y \<or> Compare h y z" if "Compare h x z"
  proof (cases "x = 0 \<or> y = 0")
    case True
    then show ?thesis using that by (auto simp: Compare_iff)
  next
    case False
    then show ?thesis
      using that lex_cotrans [of "?n x" "?n z" x z "?n y" y] by (simp add: Compare_iff)
  qed
qed

lemma Compare_total: "x \<noteq> y \<Longrightarrow> Compare h x y \<or> Compare h y x"
  by (auto simp: Compare_def)

lemma Compare_upd: "a \<noteq> x \<Longrightarrow> a \<noteq> y \<Longrightarrow> Compare (h(a := t)) x y = Compare h x y"
  by (simp add: Compare_def)

lemma Compare_next:
  "m_next t = m_next (h a) \<Longrightarrow> Compare (h(a := t)) = Compare h"
  by (intro ext) (simp add: Compare_def)

lemma sorted_upd:
  "a \<notin> set ts \<Longrightarrow> sorted_wrt (Compare (h(a := t))) ts = sorted_wrt (Compare h) ts"
proof (induction ts)
  case (Cons x ts)
  then have "(\<forall>y \<in> set ts. Compare (h(a := t)) x y) = (\<forall>y \<in> set ts. Compare h x y)"
    by (intro ball_cong refl Compare_upd) auto
  moreover have "sorted_wrt (Compare (h(a := t))) ts = sorted_wrt (Compare h) ts"
    by (rule Cons.IH) (use Cons.prems in auto)
  ultimately show ?case by (simp only: sorted_wrt.simps)
qed simp

lemma set_insert_timer: "set (oset_insert (Compare h) t ts) = insert t (set ts)"
proof (induction ts)
  case (Cons y ts)
  then show ?case using Compare_total [of t y h] by auto
qed simp

text \<open>Well-formedness: the list is in comparator order and holds no null pointer.\<close>

definition tm_wf :: "'c timer_manager \<Rightarrow> bool" where
  "tm_wf m \<longleftrightarrow> sorted_wrt (Compare (heap m)) (m_timers m) \<and> 0 \<notin> set (m_timers m)"

lemma sorted_Compare_distinct: "sorted_wrt (Compare h) ts \<Longrightarrow> distinct ts"
  by (induction ts) (auto simp: timer_order.lt_irrefl)

lemma find_timer:
  assumes "sorted_wrt (Compare h) ts"
  shows "oset_find (Compare h) t ts = (if t \<in> set ts then Some t else None)"
proof (cases "t \<in> set ts")
  case True
  then show ?thesis using timer_order.oset_find_member [OF assms] by simp
next
  case False
  have "oset_find (Compare h) t ts = None"
  proof (rule ccontr)
    assume "oset_find (Compare h) t ts \<noteq> None"
    then obtain y where y: "y \<in> set ts" "\<not> Compare h t y" "\<not> Compare h y t"
      using timer_order.oset_find_Some [of h t ts] by auto
    then show False using Compare_total [of t y h] False by auto
  qed
  then show ?thesis using False by simp
qed

lemma wf_insert:
  assumes "sorted_wrt (Compare h) ts" "0 \<notin> set ts" "t \<noteq> 0"
  shows "sorted_wrt (Compare h) (oset_insert (Compare h) t ts) \<and>
    0 \<notin> set (oset_insert (Compare h) t ts)"
  using assms timer_order.sorted_oset_insert [OF assms(1)] by (simp add: set_insert_timer)

lemma wf_erase:
  assumes "sorted_wrt (Compare h) ts" "t \<in> set ts"
  shows "sorted_wrt (Compare h) (oset_erase (Compare h) t ts) \<and>
    set (oset_erase (Compare h) t ts) = set ts - {t}"
  using timer_order.sorted_oset_erase [OF assms(1)] timer_order.oset_erase_member [OF assms]
  by blast

lemma addtimer_wf: "tm_wf m \<Longrightarrow> t \<noteq> 0 \<Longrightarrow> tm_wf (fst (addtimer m t))"
  using wf_insert [of "heap m" "m_timers m" t] by (simp add: addtimer_def tm_wf_def Let_def)

lemma addtimer_simps [simp]:
  "heap (fst (addtimer m t)) = heap m"
  "set (m_timers (fst (addtimer m t))) = insert t (set (m_timers m))"
  "m_previoustime (fst (addtimer m t)) = m_previoustime m"
  by (simp_all add: addtimer_def Let_def set_insert_timer)

section \<open>Every operation keeps the set in order\<close>

lemma addTimer_wf:
  assumes "tm_wf m" "a \<noteq> 0" "a \<notin> set (m_timers m)"
  shows "tm_wf (fst (addTimer m now a ms cb repeat))"
  unfolding addTimer_def
  by (rule addtimer_wf) (use assms in \<open>auto simp: tm_wf_def sorted_upd simp del: fun_upd_apply\<close>)

lemma reinsert_wf:
  assumes "tm_wf m" "t \<in> set (m_timers m)"
  shows "tm_wf (fst (addtimer
    (m\<lparr>m_timers := oset_erase (Compare (heap m)) t (m_timers m), heap := (heap m)(t := t')\<rparr>) t))"
proof (rule addtimer_wf)
  let ?e = "oset_erase (Compare (heap m)) t (m_timers m)"
  have e: "sorted_wrt (Compare (heap m)) ?e" "set ?e = set (m_timers m) - {t}"
    using wf_erase [of "heap m" "m_timers m" t] assms by (auto simp: tm_wf_def)
  then have "sorted_wrt (Compare ((heap m)(t := t'))) ?e" by (subst sorted_upd) auto
  then show "tm_wf (m\<lparr>m_timers := ?e, heap := (heap m)(t := t')\<rparr>)"
    using e(2) assms by (simp add: tm_wf_def del: fun_upd_apply)
  show "t \<noteq> 0" using assms unfolding tm_wf_def by metis
qed

lemma refresh_cases:
  assumes "tm_wf m"
  shows "refresh m now t =
    (if m_cb (heap m t) = None \<or> t \<notin> set (m_timers m) then (m, False, False)
     else let r = addtimer (m\<lparr>m_timers := oset_erase (Compare (heap m)) t (m_timers m),
                              heap := (heap m)(t := (heap m t)\<lparr>m_next := now + m_ms (heap m t)\<rparr>)\<rparr>) t
          in (fst r, True, snd r))"
  using assms
  by (simp add: refresh_def find_timer tm_wf_def Let_def case_prod_beta del: fun_upd_apply)

lemma timer_reset_cases:
  assumes "tm_wf m"
  shows "timer_reset m now t ms from_now =
    (if m_ms (heap m t) = ms \<and> \<not> from_now then (m, True, False)
     else if t \<notin> set (m_timers m) then (m, False, False)
     else let r = addtimer (m\<lparr>m_timers := oset_erase (Compare (heap m)) t (m_timers m),
                 heap := (heap m)(t := (heap m t)\<lparr>m_ms := ms,
                   m_next := (if from_now then now else m_next (heap m t)) + ms\<rparr>)\<rparr>) t
          in (fst r, True, snd r))"
  using assms
  by (simp add: timer_reset_def find_timer tm_wf_def Let_def case_prod_beta del: fun_upd_apply)

lemma refresh_wf: "tm_wf m \<Longrightarrow> tm_wf (fst (refresh m now t))"
  using reinsert_wf [of m t] by (simp add: refresh_cases Let_def del: fun_upd_apply)

lemma timer_reset_wf: "tm_wf m \<Longrightarrow> tm_wf (fst (timer_reset m now t ms from_now))"
  using reinsert_wf [of m t] by (simp add: timer_reset_cases Let_def del: fun_upd_apply)

text \<open>What \<open>cancel\<close> does, on every branch.\<close>

lemma cancel_cases:
  assumes "tm_wf m"
  shows "cancel m t =
    (if m_cb (heap m t) = None then (m, False)
     else (m\<lparr>heap := (heap m)(t := (heap m t)\<lparr>m_cb := None\<rparr>),
             m_timers := (if t \<in> set (m_timers m)
                          then oset_erase (Compare (heap m)) t (m_timers m) else m_timers m)\<rparr>,
           t \<in> set (m_timers m)))"
proof -
  let ?h = "(heap m)(t := (heap m t)\<lparr>m_cb := None\<rparr>)"
  have c: "Compare ?h = Compare (heap m)" by (rule Compare_next) simp
  have "sorted_wrt (Compare (heap m)) (m_timers m)" using assms by (simp add: tm_wf_def)
  then show ?thesis
    using c by (auto simp: cancel_def find_timer Let_def simp del: fun_upd_apply)
qed

lemma cancel_wf: 
  assumes "tm_wf m" shows "tm_wf (fst (cancel m t))"
proof -
  have "Compare ((heap m)(t := (heap m t)\<lparr>m_cb := None\<rparr>)) = Compare (heap m)"
    by (rule Compare_next) simp
  then show ?thesis
    using assms wf_erase [of "heap m" "m_timers m" t]
    by (auto simp: cancel_cases tm_wf_def simp del: fun_upd_apply)
qed

lemma getNextTimer_wf: "tm_wf m \<Longrightarrow> tm_wf (fst (getNextTimer m now))"
  by (auto simp: getNextTimer_def tm_wf_def Let_def split: list.splits)

lemma detectClockRollover_simps [simp]:
  "heap (fst (detectClockRollover m now)) = heap m"
  "m_timers (fst (detectClockRollover m now)) = m_timers m"
  by (simp_all add: detectClockRollover_def)

text \<open>The loop over the expired timers, which are no longer in the set.\<close>

lemma expire_loop_spec:
  assumes "distinct ts" "set ts \<inter> set (m_timers m) = {}" "0 \<notin> set ts" "tm_wf m"
  shows "case expire_loop now ts m cbs of (m', out) \<Rightarrow>
    tm_wf m' \<and>
    out = cbs @ List.map_filter (\<lambda>t. m_cb (heap m t)) ts \<and>
    set (m_timers m') = set (m_timers m) \<union> {t \<in> set ts. m_repeat (heap m t)} \<and>
    (\<forall>t. heap m' t = (if t \<in> set ts then
        (if m_repeat (heap m t) then (heap m t)\<lparr>m_next := now + m_ms (heap m t)\<rparr>
         else (heap m t)\<lparr>m_cb := None\<rparr>) else heap m t)) \<and>
    m_notify m' = m_notify m \<and> m_previoustime m' = m_previoustime m"
  using assms
proof (induction ts arbitrary: m cbs)
  case Nil
  then show ?case by (simp add: map_filter_simps)
next
  case (Cons t ts)
  let ?cbs = "case m_cb (heap m t) of Some cb \<Rightarrow> cbs @ [cb] | None \<Rightarrow> cbs"
  have out: "cbs @ List.map_filter (\<lambda>t. m_cb (heap m t)) (t # ts) =
      ?cbs @ List.map_filter (\<lambda>t. m_cb (heap m t)) ts"
    by (simp add: map_filter_simps split: option.splits)
  have same: "List.map_filter (\<lambda>t'. m_cb (((heap m)(t := x)) t')) ts =
      List.map_filter (\<lambda>t. m_cb (heap m t)) ts" for x
    using Cons.prems(1) by (intro map_filter_agree) auto
  have upd: "sorted_wrt (Compare ((heap m)(t := x))) (m_timers m)" for x
    using Cons.prems by (subst sorted_upd) (auto simp: tm_wf_def)
  show ?case
  proof (cases "m_repeat (heap m t)")
    case True
    let ?h = "(heap m)(t := (heap m t)\<lparr>m_next := now + m_ms (heap m t)\<rparr>)"
    let ?m = "m\<lparr>heap := ?h, m_timers := oset_insert (Compare ?h) t (m_timers m)\<rparr>"
    have wf: "tm_wf ?m"
      using wf_insert [OF upd, of t] Cons.prems by (auto simp: tm_wf_def)
    have dj: "set ts \<inter> set (m_timers ?m) = {}" "distinct ts" "0 \<notin> set ts"
      using Cons.prems by (auto simp: set_insert_timer)
    show ?thesis
      using Cons.IH [OF dj(2) dj(1) dj(3) wf, of ?cbs] True Cons.prems(1) out same
      by (auto simp: set_insert_timer Let_def split: prod.splits)
  next
    case False
    let ?m = "m\<lparr>heap := (heap m)(t := (heap m t)\<lparr>m_cb := None\<rparr>)\<rparr>"
    have wf: "tm_wf ?m" using upd Cons.prems by (simp add: tm_wf_def)
    have dj: "set ts \<inter> set (m_timers ?m) = {}" "distinct ts" "0 \<notin> set ts"
      using Cons.prems by auto
    show ?thesis
      using Cons.IH [OF dj(2) dj(1) dj(3) wf, of ?cbs] False Cons.prems(1) out same
      by (auto simp: Let_def split: prod.splits)
  qed
qed

section \<open>Runs of the manager\<close>

text \<open>
  One operation of a client, at any time; new timers carry a callback and the allocator
  returns an address that no timer of the set has.
\<close>

inductive tm_step :: "'c timer_manager \<Rightarrow> 'c timer_manager \<Rightarrow> bool" where
  step_add: "a \<noteq> 0 \<Longrightarrow> a \<notin> set (m_timers m) \<Longrightarrow>
    tm_step m (fst (addTimer m now a ms (Some cb) repeat))"
| step_refresh: "tm_step m (fst (refresh m now t))"
| step_cancel: "tm_step m (fst (cancel m t))"
| step_reset: "tm_step m (fst (timer_reset m now t ms from_now))"
| step_next: "tm_step m (fst (getNextTimer m now))"
| step_expire: "p \<noteq> 0 \<Longrightarrow> p \<notin> set (m_timers m) \<Longrightarrow> listExpiredCb m now p = Ret m' cbs \<Longrightarrow>
    tm_step m m'"

text \<open>Every timer of the set still has its callback.\<close>

definition tm_armed :: "'c timer_manager \<Rightarrow> bool" where
  "tm_armed m \<longleftrightarrow> (\<forall>t \<in> set (m_timers m). m_cb (heap m t) \<noteq> None)"

lemma upd_timer_wf:
  "tm_wf m \<Longrightarrow> p \<notin> set (m_timers m) \<Longrightarrow> tm_wf (m\<lparr>heap := (heap m)(p := t)\<rparr>)"
  by (simp add: tm_wf_def sorted_upd del: fun_upd_apply)

text \<open>The whole of \<open>listExpiredCb\<close> in terms of the number \<open>n\<close> of timers it takes out.\<close>

lemma sorted_take_drop:
  assumes "sorted_wrt (Compare h) ts"
  shows "distinct (take n ts)" "set (take n ts) \<inter> set (drop n ts) = {}"
    "sorted_wrt (Compare h) (drop n ts)"
  using sorted_Compare_distinct [OF assms] set_take_disj_set_drop_if_distinct [of ts n n] assms
  by (auto simp: sorted_wrt_drop)

lemma listExpired_Ret:
  assumes wf: "tm_wf m" and p: "p \<noteq> 0" "p \<notin> set (m_timers m)"
    and ret: "listExpiredCb m now p = Ret m' cbs"
  shows "\<exists>n. cbs = List.map_filter (\<lambda>t. m_cb (heap m t)) (take n (m_timers m)) \<and> tm_wf m' \<and>
    set (m_timers m') = set (drop n (m_timers m)) \<union>
      {t \<in> set (take n (m_timers m)). m_repeat (heap m t)} \<and>
    (\<forall>t \<in> set (m_timers m). m_cb (heap m' t) =
       (if t \<in> set (take n (m_timers m)) \<and> \<not> m_repeat (heap m t) then None
        else m_cb (heap m t)))"
proof (cases "m_timers m")
  case Nil
  then show ?thesis using ret wf by (intro exI [of _ 0]) (simp add: listExpiredCb_def)
next
  case (Cons first rest)
  obtain m1 rollover where m1: "detectClockRollover m now = (m1, rollover)" by fastforce
  have m1s: "heap m1 = heap m" "m_timers m1 = m_timers m"
    using detectClockRollover_simps [of m now] m1 by auto
  show ?thesis
  proof (cases "\<not> rollover \<and> now < m_next (heap m1 first)")
    case True
    then have "m' = m1" "cbs = []" using ret Cons m1 by (auto simp: listExpiredCb_def)
    then show ?thesis using wf m1s by (intro exI [of _ 0]) (simp add: tm_wf_def)
  next
    case False
    let ?m2 = "m1\<lparr>heap := (heap m1)(p := Timer_at now)\<rparr>"
    let ?it = "if rollover then length (m_timers ?m2)
               else oset_upper_bound (Compare (heap ?m2)) p (m_timers ?m2)"
    let ?e = "take (Suc ?it) (m_timers m)" and ?d = "drop (Suc ?it) (m_timers m)"
    obtain m3 out where loop: "expire_loop now ?e (?m2\<lparr>m_timers := ?d\<rparr>) [] = (m3, out)"
      by fastforce
    have r: "m' = m3" "cbs = out"
      using ret Cons m1 False loop m1s
      by (auto simp: listExpiredCb_def Let_def split: if_splits)
    have srt: "sorted_wrt (Compare (heap ?m2)) (m_timers m)"
      using wf p m1s by (simp add: tm_wf_def sorted_upd del: fun_upd_apply)
    note td = sorted_take_drop [OF srt, of "Suc ?it"]
    have z: "0 \<notin> set ?e" "0 \<notin> set ?d"
      using wf by (auto simp: tm_wf_def dest: in_set_takeD in_set_dropD)
    have wf2: "tm_wf (?m2\<lparr>m_timers := ?d\<rparr>)" using td(3) z by (simp add: tm_wf_def)
    have np: "p \<notin> set ?e" using p by (auto dest: in_set_takeD)
    have same: "List.map_filter (\<lambda>t. m_cb (heap ?m2 t)) ?e =
        List.map_filter (\<lambda>t. m_cb (heap m t)) ?e"
      by (rule map_filter_agree) (use np m1s in auto)
    have sp: "tm_wf m3 \<and> out = List.map_filter (\<lambda>t. m_cb (heap ?m2 t)) ?e \<and>
        set (m_timers m3) = set ?d \<union> {t \<in> set ?e. m_repeat (heap ?m2 t)} \<and>
        (\<forall>t. heap m3 t = (if t \<in> set ?e then
          (if m_repeat (heap ?m2 t) then (heap ?m2 t)\<lparr>m_next := now + m_ms (heap ?m2 t)\<rparr>
           else (heap ?m2 t)\<lparr>m_cb := None\<rparr>) else heap ?m2 t))"
      using expire_loop_spec [OF td(1) _ z(1) wf2, where now = now and cbs = "[]"] td(2) loop by simp
    show ?thesis
    proof (intro exI [of _ "Suc ?it"] conjI)
      show "cbs = List.map_filter (\<lambda>t. m_cb (heap m t)) ?e" using sp same r by simp
      show "tm_wf m'" using sp r by simp
      show "set (m_timers m') = set ?d \<union> {t \<in> set ?e. m_repeat (heap m t)}"
        using sp r np m1s by auto
      show "\<forall>t \<in> set (m_timers m). m_cb (heap m' t) =
          (if t \<in> set ?e \<and> \<not> m_repeat (heap m t) then None else m_cb (heap m t))"
        using sp r np m1s p by auto
    qed
  qed
qed

lemma addtimer_armed:
  "tm_armed m \<Longrightarrow> m_cb (heap m t) \<noteq> None \<Longrightarrow> tm_armed (fst (addtimer m t))"
  by (simp add: tm_armed_def)

lemma reinsert_armed:
  assumes "tm_wf m" "tm_armed m" "t \<in> set (m_timers m)" "m_cb t' \<noteq> None"
  shows "tm_armed (fst (addtimer
    (m\<lparr>m_timers := oset_erase (Compare (heap m)) t (m_timers m), heap := (heap m)(t := t')\<rparr>) t))"
  using assms wf_erase [of "heap m" "m_timers m" t]
  by (auto simp: tm_armed_def tm_wf_def)

lemma tm_step_inv:
  assumes "tm_step m m'" "tm_wf m" "tm_armed m"
  shows "tm_wf m' \<and> tm_armed m'"
  using assms
proof cases
  case (step_add a now ms cb repeat)
  have "tm_armed m'"
    using step_add assms(3)
    by (auto simp: addTimer_def tm_armed_def Timer_new_def)
  then show ?thesis using step_add assms addTimer_wf by blast
next
  case (step_refresh now t)
  then show ?thesis
    using assms refresh_wf [of m now t] reinsert_armed [of m t]
    by (auto simp: refresh_cases Let_def tm_armed_def simp del: fun_upd_apply)
next
  case (step_cancel t)
  then show ?thesis
    using assms cancel_wf [of m t] wf_erase [of "heap m" "m_timers m" t]
    by (auto simp: cancel_cases tm_armed_def tm_wf_def)
next
  case (step_reset now t ms from_now)
  have "t \<in> set (m_timers m) \<Longrightarrow> m_cb (heap m t) \<noteq> None" using assms by (simp add: tm_armed_def)
  then show ?thesis
    using step_reset assms timer_reset_wf [of m now t ms from_now] reinsert_armed [of m t]
    by (simp add: timer_reset_cases Let_def del: fun_upd_apply)
next
  case (step_next now)
  then show ?thesis
    using assms getNextTimer_wf [of m now]
    by (auto simp: getNextTimer_def tm_armed_def Let_def split: list.splits)
next
  case (step_expire p now cbs)
  obtain n where n: "tm_wf m'" "set (m_timers m') = set (drop n (m_timers m)) \<union>
      {t \<in> set (take n (m_timers m)). m_repeat (heap m t)}"
    "\<forall>t \<in> set (m_timers m). m_cb (heap m' t) =
       (if t \<in> set (take n (m_timers m)) \<and> \<not> m_repeat (heap m t) then None
        else m_cb (heap m t))"
    using listExpired_Ret [OF assms(2) step_expire(1,2,3)] by blast
  have dj: "set (take n (m_timers m)) \<inter> set (drop n (m_timers m)) = {}"
    using assms(2) sorted_take_drop(2) by (auto simp: tm_wf_def)
  have "m_cb (heap m' t) \<noteq> None" if "t \<in> set (m_timers m')" for t
  proof -
    have t: "t \<in> set (m_timers m)" "\<not> (t \<in> set (take n (m_timers m)) \<and> \<not> m_repeat (heap m t))"
      using that n(2) dj by (auto dest: in_set_takeD in_set_dropD)
    then show ?thesis using n(3) assms(3) by (auto simp: tm_armed_def)
  qed
  then show ?thesis using n(1) by (simp add: tm_armed_def)
qed

lemma tm_reach_inv:
  assumes "tm_step\<^sup>*\<^sup>* m m'" "tm_wf m" "tm_armed m"
  shows "tm_wf m' \<and> tm_armed m'"
  using assms by (induction rule: rtranclp_induct) (auto dest: tm_step_inv)

lemma tm_new_inv [simp]: "tm_wf (TimerManager_new h now)" "tm_armed (TimerManager_new h now)"
  "m_timers (TimerManager_new h now) = []" "m_notify (TimerManager_new h now) = False"
  by (simp_all add: tm_wf_def tm_armed_def TimerManager_new_def)

lemma first_is_least:
  "tm_wf m \<Longrightarrow> m_timers m = f # r \<Longrightarrow> t \<in> set (m_timers m) \<Longrightarrow>
    m_next (heap m f) \<le> m_next (heap m t)"
  by (auto simp: tm_wf_def Compare_iff)

text \<open>Milliseconds from \<open>now\<close> until a timer is due.\<close>

definition wait_of :: "u64 \<Rightarrow> 'c timer \<Rightarrow> u64" where
  "wait_of now t = (if now < m_next t then m_next t - now else 0)"

lemma wait_of_mono: "m_next s \<le> m_next t \<Longrightarrow> wait_of now s \<le> wait_of now t"
  by (auto simp: wait_of_def word_le_minus_mono_left)

section \<open>Properties\<close>

text \<open>C9. Order of the timer set: from a new manager on, whatever timers are added, refreshed,
  reset, cancelled or fired, the set stays strictly ordered by next expiry and address, holds
  no timer twice and no null pointer, and every timer in it has its callback.\<close>

theorem timers_stay_ordered:
  assumes "tm_step\<^sup>*\<^sup>* (TimerManager_new h now) m"
  shows "sorted_wrt (Compare (heap m)) (m_timers m) \<and> distinct (m_timers m) \<and>
    0 \<notin> set (m_timers m) \<and> (\<forall>t \<in> set (m_timers m). m_cb (heap m t) \<noteq> None)"
  using tm_reach_inv [OF assms tm_new_inv(1,2)] sorted_Compare_distinct [of "heap m" "m_timers m"]
  by (simp add: tm_wf_def tm_armed_def)

theorem timers_stay_ordered_witness:
  "sorted_wrt (Compare (heap (fst (addTimer (TimerManager_new (\<lambda>_. Timer_at 0) 0) 5 8 10
      (Some (Plain ''cb'')) False)))) [8]"
proof -
  let ?m = "fst (addTimer (TimerManager_new (\<lambda>_. Timer_at 0) 0) 5 8 10
      (Some (Plain ''cb'')) False)"
  have "tm_step (TimerManager_new (\<lambda>_. Timer_at 0) 0) ?m"
    by (rule step_add) (auto simp: TimerManager_new_def)
  then have "tm_step\<^sup>*\<^sup>* (TimerManager_new (\<lambda>_. Timer_at 0) 0) ?m" by (rule r_into_rtranclp)
  then show ?thesis using timers_stay_ordered [of "\<lambda>_. Timer_at 0" 0 ?m]
    by (simp add: addTimer_def addtimer_def TimerManager_new_def Let_def)
qed

text \<open>\<open>getNextTimer\<close> returns the time until the earliest timer of the set is due (0 when one
  is due already, all ones when there is none) and allows the next notification.\<close>

theorem getNextTimer_earliest:
  assumes "tm_wf m"
  shows "(if m_timers m = [] then snd (getNextTimer m now) = - 1
     else snd (getNextTimer m now) \<in> wait_of now ` heap m ` set (m_timers m) \<and>
          (\<forall>t \<in> set (m_timers m). snd (getNextTimer m now) \<le> wait_of now (heap m t))) \<and>
    fst (getNextTimer m now) = m\<lparr>m_notify := False\<rparr>"
proof (cases "m_timers m")
  case Nil
  then show ?thesis by (simp add: getNextTimer_def)
next
  case (Cons f r)
  have r: "getNextTimer m now = (m\<lparr>m_notify := False\<rparr>, wait_of now (heap m f))"
    using Cons by (simp add: getNextTimer_def wait_of_def)
  have "wait_of now (heap m f) \<le> wait_of now (heap m t)" if "t \<in> set (m_timers m)" for t
    using first_is_least [OF assms Cons that] by (rule wait_of_mono)
  then show ?thesis using Cons r by auto
qed

theorem getNextTimer_earliest_witness:
  "snd (getNextTimer (TimerManager_new (\<lambda>_. Timer_at 0) 0 :: string timer_manager) 3) = - 1"
  using getNextTimer_earliest [of "TimerManager_new (\<lambda>_. Timer_at 0) 0 :: string timer_manager" 3] by simp

text \<open>C33. Notification: adding a timer calls \<open>Haslatest\<close> exactly when the timer has become the
  earliest one and no notification is outstanding, and an outstanding one stays so.\<close>

theorem notify_when_earliest:
  assumes "tm_wf m"
  shows "snd (addtimer m t) = ((\<forall>s \<in> set (m_timers m). s = t \<or> Compare (heap m) t s) \<and> \<not> m_notify m)
    \<and> m_notify (fst (addtimer m t)) = (m_notify m \<or> snd (addtimer m t))"
proof -
  let ?ts = "oset_insert (Compare (heap m)) t (m_timers m)"
  have srt: "sorted_wrt (Compare (heap m)) ?ts"
    using assms by (simp add: tm_wf_def timer_order.sorted_oset_insert)
  have mem: "set ?ts = insert t (set (m_timers m))" by (rule set_insert_timer)
  obtain f r where fr: "?ts = f # r" using mem by (cases ?ts) auto
  have "f = t \<longleftrightarrow> (\<forall>s \<in> set (m_timers m). s = t \<or> Compare (heap m) t s)"
  proof
    assume "f = t"
    then show "\<forall>s \<in> set (m_timers m). s = t \<or> Compare (heap m) t s"
      using srt fr mem by auto
  next
    assume a: "\<forall>s \<in> set (m_timers m). s = t \<or> Compare (heap m) t s"
    show "f = t"
    proof (rule ccontr)
      assume n: "f \<noteq> t"
      then have "f \<in> set (m_timers m)" "t \<in> set r" using fr mem by auto
      then have "Compare (heap m) t f" "Compare (heap m) f t" using a n srt fr by auto
      then show False using timer_order.lt_asym by blast
    qed
  qed
  then show ?thesis using fr by (auto simp: addtimer_def Let_def)
qed

theorem notify_when_earliest_witness:
  "snd (addtimer (TimerManager_new (\<lambda>_. Timer_at 0) 0 :: string timer_manager) 8)"
  using notify_when_earliest [of "TimerManager_new (\<lambda>_. Timer_at 0) 0 :: string timer_manager" 8] by simp

text \<open>A cancelled timer is dead: it has left the set, no later call that fires timers returns
  its callback from it, and \<open>refresh\<close> and a changing \<open>reset\<close> refuse it.\<close>

theorem cancel_is_final:
  assumes "tm_wf m" "cancel m t = (m', ok)"
  shows "t \<notin> set (m_timers m') \<and> tm_wf m' \<and> refresh m' now t = (m', False, False) \<and>
    (from_now \<longrightarrow> timer_reset m' now t ms from_now = (m', False, False)) \<or>
    m_cb (heap m t) = None \<and> m' = m \<and> \<not> ok"
proof (cases "m_cb (heap m t) = None")
  case True
  then show ?thesis using assms by (simp add: cancel_cases)
next
  case False
  have wf: "tm_wf m'" using cancel_wf [OF assms(1), of t] assms(2) by simp
  have t: "t \<notin> set (m_timers m')"
    using False assms wf_erase [of "heap m" "m_timers m" t]
    by (auto simp: cancel_cases tm_wf_def)
  then show ?thesis using wf by (auto simp: refresh_cases timer_reset_cases)
qed

theorem cancel_is_final_witness:
  "let m = fst (addTimer (TimerManager_new (\<lambda>_. Timer_at 0) 0) 5 8 10 (Some (Plain ''cb'')) False)
   in 8 \<notin> set (m_timers (fst (cancel m 8)))"
proof -
  let ?m = "fst (addTimer (TimerManager_new (\<lambda>_. Timer_at 0) 0) 5 8 10 (Some (Plain ''cb'')) False)"
  have "tm_wf ?m" by (rule addTimer_wf) (auto simp: TimerManager_new_def tm_wf_def)
  moreover have "m_cb (heap ?m 8) \<noteq> None"
    by (simp add: addTimer_def addtimer_def Let_def Timer_new_def)
  ultimately show ?thesis
    using cancel_is_final [of ?m 8 "fst (cancel ?m 8)" "snd (cancel ?m 8)" 0 False 0] by auto
qed

abbreviation first_later :: "'c timer_manager \<Rightarrow> nat \<Rightarrow> u64 \<Rightarrow> nat" where
  "first_later m p now \<equiv>
     oset_upper_bound (Compare ((heap m)(p := Timer_at now))) p (m_timers m)"

lemma due_before_first_later:
  assumes "tm_wf m" "p \<notin> set (m_timers m)" "t \<in> set (take (first_later m p now) (m_timers m))"
  shows "m_next (heap m t) \<le> now"
proof -
  have "\<not> Compare ((heap m)(p := Timer_at now)) p t" "t \<in> set (m_timers m)"
    using assms(3) timer_order.oset_upper_bound_take by (blast, auto dest: in_set_takeD)
  moreover from this have "t \<noteq> 0" "t \<noteq> p" using assms(1,2) unfolding tm_wf_def by metis+
  ultimately show ?thesis by (auto simp: Compare_iff not_less Timer_at_def)
qed

lemma later_from_first_later:
  assumes "tm_wf m" "p \<noteq> 0" "p \<notin> set (m_timers m)" "t \<in> set (drop (first_later m p now) (m_timers m))"
  shows "now \<le> m_next (heap m t)"
proof -
  have "sorted_wrt (Compare ((heap m)(p := Timer_at now))) (m_timers m)"
    using assms(1,3) by (simp add: tm_wf_def sorted_upd del: fun_upd_apply)
  then have "Compare ((heap m)(p := Timer_at now)) p t" "t \<in> set (m_timers m)"
    using assms(4) timer_order.oset_upper_bound_drop by (blast, auto dest: in_set_dropD)
  moreover from this have "t \<noteq> p" using assms(3) by metis
  ultimately show ?thesis using assms(2) by (auto simp: Compare_iff Timer_at_def)
qed

lemma listExpiredCb_run:
  assumes "m_timers m \<noteq> []" "m_next (heap m (hd (m_timers m))) \<le> now"
    and "detectClockRollover m now = (m1, False)"
  shows "listExpiredCb m now p =
    (if first_later m p now = length (m_timers m) then Ub
     else let r = expire_loop now (take (Suc (first_later m p now)) (m_timers m))
            (m1\<lparr>heap := (heap m)(p := Timer_at now), m_timers := drop (Suc (first_later m p now)) (m_timers m)\<rparr>) []
          in Ret (fst r) (snd r))"
proof -
  have "heap m1 = heap m" "m_timers m1 = m_timers m"
    using detectClockRollover_simps [of m now] assms(3) by auto
  moreover have "\<not> now < m_next (heap m (hd (m_timers m)))" using assms(2) by (simp add: not_less)
  ultimately show ?thesis
    using assms(1,3) by (cases "m_timers m")
      (simp_all add: listExpiredCb_def Let_def case_prod_beta del: fun_upd_apply expire_loop.simps
        oset_upper_bound.simps)
qed

lemma expire_loop_split:
  assumes "tm_wf m" "p \<notin> set (m_timers m)" "m_timers m = taken @ later"
    and "m2 = m1\<lparr>heap := (heap m)(p := Timer_at now), m_timers := later\<rparr>"
  shows "\<exists>m'. expire_loop now taken m2 [] = (m', List.map_filter (\<lambda>t. m_cb (heap m t)) taken) \<and>
    set (m_timers m') = set later \<union> {t \<in> set taken. m_repeat (heap m t)}"
proof -
  have "sorted_wrt (Compare (heap m2)) (taken @ later)"
    using assms by (simp add: tm_wf_def sorted_upd del: fun_upd_apply)
  note td = sorted_take_drop [OF this, of "length taken", simplified]
  have nz: "0 \<notin> set (taken @ later)" using assms(1,3) unfolding tm_wf_def by metis
  have np: "p \<notin> set taken" using assms(2,3) by simp
  have wf2: "tm_wf m2" using td nz assms(4) unfolding tm_wf_def by auto
  obtain m3 out where loop: "expire_loop now taken m2 [] = (m3, out)" by fastforce
  have "distinct taken" "set taken \<inter> set (m_timers m2) = {}" "0 \<notin> set taken"
    using td nz assms(4) by auto
  then have sp: "out = List.map_filter (\<lambda>t. m_cb (heap m2 t)) taken"
    "set (m_timers m3) = set later \<union> {t \<in> set taken. m_repeat (heap m2 t)}"
    using expire_loop_spec [where ts = taken and m = m2 and now = now and cbs = "[]"] wf2 loop assms(4)
    by auto
  have "List.map_filter (\<lambda>t. m_cb (heap m2 t)) taken = List.map_filter (\<lambda>t. m_cb (heap m t)) taken"
    by (rule map_filter_agree) (use np assms(4) in auto)
  moreover have "{t \<in> set taken. m_repeat (heap m2 t)} = {t \<in> set taken. m_repeat (heap m t)}"
    using np assms(4) by auto
  ultimately show ?thesis using loop sp by auto
qed

text \<open>C10. Firing: with some timer due and the clock not set back, \<open>listExpiredCb\<close> takes every timer
  that is due before \<open>now\<close> out of the set, hands out the callbacks of the timers it took in
  the order of the set, and besides the due ones takes the next timer of the set too, which
  is not due before \<open>now\<close>. When no such timer is left the iterator is stepped past the end of
  the set, which is undefined.\<close>

theorem listExpired_takes_due_and_next:
  assumes "tm_wf m" "p \<noteq> 0" "p \<notin> set (m_timers m)" "m_timers m \<noteq> []"
    and "m_next (heap m (hd (m_timers m))) \<le> now" "\<not> snd (detectClockRollover m now)"
  shows "\<exists>due rest. m_timers m = due @ rest \<and>
    (\<forall>t \<in> set due. m_next (heap m t) \<le> now) \<and> (\<forall>t \<in> set rest. now \<le> m_next (heap m t)) \<and>
    (case rest of
       [] \<Rightarrow> listExpiredCb m now p = Ub
     | early # later \<Rightarrow> \<exists>m'. listExpiredCb m now p =
         Ret m' (List.map_filter (\<lambda>t. m_cb (heap m t)) (due @ [early])) \<and>
         set (m_timers m') = set later \<union> {t \<in> set (due @ [early]). m_repeat (heap m t)})"
proof -
  let ?it = "first_later m p now" and ?ts = "m_timers m"
  obtain m1 where m1: "detectClockRollover m now = (m1, False)"
    using assms(6) by (cases "detectClockRollover m now") auto
  note run = listExpiredCb_run [OF assms(4,5) m1, of p]
  show ?thesis
  proof (intro exI conjI ballI)
    show "?ts = take ?it ?ts @ drop ?it ?ts" by (rule append_take_drop_id [symmetric])
    show "case drop ?it ?ts of
       [] \<Rightarrow> listExpiredCb m now p = Ub
     | early # later \<Rightarrow> \<exists>m'. listExpiredCb m now p =
         Ret m' (List.map_filter (\<lambda>t. m_cb (heap m t)) (take ?it ?ts @ [early])) \<and>
         set (m_timers m') = set later \<union> {t \<in> set (take ?it ?ts @ [early]). m_repeat (heap m t)}"
    proof (cases "drop ?it ?ts")
      case Nil
      then have "?it = length ?ts"
        by (intro le_antisym timer_order.oset_upper_bound_le) simp
      then show ?thesis using run Nil by simp
    next
      case (Cons early later)
      then have lt: "?it < length ?ts" by (metis drop_all not_less list.distinct(1))
      then have tk: "take (Suc ?it) ?ts = take ?it ?ts @ [early]" "drop (Suc ?it) ?ts = later"
        using Cons by (simp_all add: take_Suc_conv_app_nth Cons_nth_drop_Suc [symmetric])
      then have "?ts = (take ?it ?ts @ [early]) @ later" by (metis append_take_drop_id)
      from expire_loop_split [OF assms(1,3) this refl, of now m1] obtain m' where
        "expire_loop now (take ?it ?ts @ [early])
           (m1\<lparr>heap := (heap m)(p := Timer_at now), m_timers := later\<rparr>) [] =
         (m', List.map_filter (\<lambda>t. m_cb (heap m t)) (take ?it ?ts @ [early]))"
        "set (m_timers m') = set later \<union> {t \<in> set (take ?it ?ts @ [early]). m_repeat (heap m t)}"
        by blast
      moreover from this(1) have "listExpiredCb m now p =
          Ret m' (List.map_filter (\<lambda>t. m_cb (heap m t)) (take ?it ?ts @ [early]))"
        using run lt by (simp only: tk) simp
      ultimately show ?thesis using Cons by simp
    qed
  qed (use assms due_before_first_later later_from_first_later in blast)+
qed

text \<open>Two timers, due at 15 and at 1000.\<close>

definition two_timers :: "string timer_manager" where
  "two_timers =
     (let m = fst (addTimer (TimerManager_new (\<lambda>_. Timer_at 0) 0) 5 8 10 (Some (Plain ''a'')) False)
      in fst (addTimer m 5 16 995 (Some (Plain ''b'')) False))"

lemma two_timers_run:
  "tm_wf two_timers" "m_timers two_timers = [8, 16]" "\<not> snd (detectClockRollover two_timers 20)"
  "m_next (heap two_timers 8) = 15" "m_next (heap two_timers 16) = 1000"
  "m_cb (heap two_timers 8) = Some (Plain ''a'')" "m_cb (heap two_timers 16) = Some (Plain ''b'')"
  by (simp_all add: two_timers_def addTimer_def addtimer_def TimerManager_new_def Let_def tm_wf_def
      Timer_new_def Compare_def Timer_at_def detectClockRollover_def)

theorem listExpired_takes_due_and_next_witness:
  "\<exists>m'. listExpiredCb two_timers 20 24 = Ret m' [Plain ''a'', Plain ''b'']"
proof -
  obtain due rest where d: "[8, 16] = due @ rest" "\<forall>t \<in> set due. m_next (heap two_timers t) \<le> 20"
    "\<forall>t \<in> set rest. 20 \<le> m_next (heap two_timers t)"
    "case rest of
       [] \<Rightarrow> listExpiredCb two_timers 20 24 = Ub
     | early # later \<Rightarrow> \<exists>m'. listExpiredCb two_timers 20 24 =
         Ret m' (List.map_filter (\<lambda>t. m_cb (heap two_timers t)) (due @ [early])) \<and>
         set (m_timers m') = set later \<union> {t \<in> set (due @ [early]). m_repeat (heap two_timers t)}"
    using listExpired_takes_due_and_next [of two_timers 24 20] two_timers_run by auto
  have "due = [8]"
  proof (cases due)
    case Nil
    then show ?thesis using d two_timers_run by auto
  next
    case (Cons a l)
    then show ?thesis using d two_timers_run by (cases l) auto
  qed
  then show ?thesis using d(1,4) two_timers_run by auto
qed

text \<open>A timer that is alone in the set cannot fire: when it is due, \<open>listExpiredCb\<close> increments
  the end iterator.\<close>

theorem single_timer_undefined:
  "listExpiredCb (fst (addTimer (TimerManager_new (\<lambda>_. Timer_at 0) 0) 5 8 10
     (Some (Plain ''a'')) False)) 20 24 = Ub"
  by (simp add: addTimer_def addtimer_def TimerManager_new_def Let_def Timer_new_def Compare_def
      Timer_at_def detectClockRollover_def listExpiredCb_def)

end
