(* ===== verification/Fibers.thy ===== *)
theory Fibers
  imports Prelude
begin

text \<open>
  Model of \<open>src/Fiber1.h\<close> and \<open>src/Fiber1.cc\<close>: the fibers of one thread.

  A fiber is known by its address. Besides the fields of the class the model keeps \<open>resume\<close>,
  the place at which the saved context \<open>m_ctx\<close> continues: the entry function, the middle of
  the callback, or the assertion after the last switch of the entry function. \<open>on_cpu\<close> is the
  fiber whose context the processor executes; \<open>swapcontext\<close> moves it. The thread-local
  pointers are fields of the same record. A failed \<open>MY_ASSERT\<close> ends the process (\<open>Thr\<close>), a
  dereference of a null thread-local pointer is undefined (\<open>Ub\<close>); \<open>getcontext\<close> and
  \<open>swapcontext\<close> are taken to succeed.
\<close>

datatype fiber_state = Fiber_INIT | Fiber_RUNNING | Fiber_TERM | Fiber_HOLD

datatype resume_point = At_entry | In_callback | After_end

datatype fiber_error = assertion_failed

record 'c fiber =
  m_state :: fiber_state
  m_stack_ptr :: bool
  m_fib_id :: nat
  m_cb :: "'c option"
  resume :: resume_point

record 'c fiber_env =
  fibers :: "nat \<Rightarrow> 'c fiber"
  t_curfiber :: "nat option"
  t_schedule_fiber :: "nat option"
  t_root_fiber :: "nat option"
  on_cpu :: "nat option"
  s_fiber_id :: nat
  s_fiber_count :: nat

type_synonym ('c, 'a) fiber_result = "('c fiber_env, fiber_error, 'a) outcome"

abbreviation upd_fiber :: "nat \<Rightarrow> 'c fiber \<Rightarrow> 'c fiber_env \<Rightarrow> 'c fiber_env" where
  "upd_fiber f x e \<equiv> e\<lparr>fibers := (fibers e)(f := x)\<rparr>"

definition u32_succ :: "nat \<Rightarrow> nat" where "u32_succ n = (n + 1) mod 2 ^ 32"
definition u32_pred :: "nat \<Rightarrow> nat" where "u32_pred n = (n + 2 ^ 32 - 1) mod 2 ^ 32"

section \<open>Construction\<close>

text \<open>The three constructors; the object is placed at address \<open>f\<close>.\<close>

definition Fiber_main :: "'c fiber_env \<Rightarrow> nat \<Rightarrow> 'c fiber_env" where
  "Fiber_main e f =
     (let i = u32_succ (s_fiber_id e) in
      upd_fiber f \<lparr>m_state = Fiber_INIT, m_stack_ptr = False, m_fib_id = i, m_cb = None,
                    resume = In_callback\<rparr>
        (e\<lparr>s_fiber_id := i, s_fiber_count := u32_succ (s_fiber_count e)\<rparr>))"

definition Fiber_root_schedule ::
  "'c fiber_env \<Rightarrow> nat \<Rightarrow> bool \<Rightarrow> 'c option \<Rightarrow> ('c, unit) fiber_result" where
  "Fiber_root_schedule e f use_main sc_cb =
     (if \<not> use_main then Thr e assertion_failed
      else if t_root_fiber e = None then Thr e assertion_failed
      else let i = u32_succ (s_fiber_id e) in
        Ret (upd_fiber f \<lparr>m_state = Fiber_INIT, m_stack_ptr = True, m_fib_id = i, m_cb = sc_cb,
                           resume = At_entry\<rparr>
             (e\<lparr>s_fiber_id := i, s_fiber_count := u32_succ (s_fiber_count e),
                t_schedule_fiber := Some f\<rparr>)) ())"

definition Fiber_new :: "'c fiber_env \<Rightarrow> nat \<Rightarrow> 'c option \<Rightarrow> ('c, unit) fiber_result" where
  "Fiber_new e f cb =
     (if t_schedule_fiber e = None then Thr e assertion_failed
      else if cb = None then Thr e assertion_failed
      else let i = u32_succ (s_fiber_id e) in
        Ret (upd_fiber f \<lparr>m_state = Fiber_INIT, m_stack_ptr = True, m_fib_id = i, m_cb = cb,
                           resume = At_entry\<rparr>
             (e\<lparr>s_fiber_id := i, s_fiber_count := u32_succ (s_fiber_count e)\<rparr>)) ())"

definition Fiber_destroy :: "'c fiber_env \<Rightarrow> 'c fiber_env" where
  "Fiber_destroy e = e\<lparr>s_fiber_count := u32_pred (s_fiber_count e)\<rparr>"

definition SetCurFiber :: "'c fiber_env \<Rightarrow> nat option \<Rightarrow> 'c fiber_env" where
  "SetCurFiber e f = e\<lparr>t_curfiber := f\<rparr>"

definition SetScheduleFiber :: "'c fiber_env \<Rightarrow> nat option \<Rightarrow> 'c fiber_env" where
  "SetScheduleFiber e f = e\<lparr>t_schedule_fiber := f\<rparr>"

definition SetState :: "'c fiber_env \<Rightarrow> nat \<Rightarrow> fiber_state \<Rightarrow> 'c fiber_env" where
  "SetState e f s = upd_fiber f ((fibers e f)\<lparr>m_state := s\<rparr>) e"

definition GetState :: "'c fiber_env \<Rightarrow> nat \<Rightarrow> fiber_state" where
  "GetState e f = m_state (fibers e f)"

section \<open>Switching\<close>

text \<open>
  The processor resumes at the saved point of the target: a fresh fiber enters its entry
  function, a suspended one goes on inside its callback, and one whose entry function has
  made its last switch runs into the assertion behind it.
\<close>

definition swapcontext_to :: "'c fiber_env \<Rightarrow> nat \<Rightarrow> ('c, unit) fiber_result" where
  "swapcontext_to e f =
     (case resume (fibers e f) of
        After_end \<Rightarrow> Thr e assertion_failed
      | At_entry \<Rightarrow>
          Ret (upd_fiber f ((fibers e f)\<lparr>resume := In_callback\<rparr>) (e\<lparr>on_cpu := Some f\<rparr>)) ()
      | In_callback \<Rightarrow> Ret (e\<lparr>on_cpu := Some f\<rparr>) ())"

definition SwapIn :: "'c fiber_env \<Rightarrow> nat \<Rightarrow> ('c, unit) fiber_result" where
  "SwapIn e f =
     (let e1 = SetState (SetCurFiber e (Some f)) f Fiber_RUNNING in
      case t_schedule_fiber e1 of None \<Rightarrow> Ub | Some s \<Rightarrow> swapcontext_to e1 f)"

definition SwapOut :: "'c fiber_env \<Rightarrow> nat \<Rightarrow> ('c, unit) fiber_result" where
  "SwapOut e f =
     (case t_schedule_fiber e of
        None \<Rightarrow> Ub
      | Some s \<Rightarrow> swapcontext_to (SetCurFiber e (Some s)) s)"

definition RootScheduleSwapIn :: "'c fiber_env \<Rightarrow> nat \<Rightarrow> ('c, unit) fiber_result" where
  "RootScheduleSwapIn e f =
     (let e1 = SetState (SetCurFiber e (Some f)) f Fiber_RUNNING in
      case t_root_fiber e1 of None \<Rightarrow> Ub | Some r \<Rightarrow> swapcontext_to e1 f)"

definition RootScheduleSwapOut :: "'c fiber_env \<Rightarrow> nat \<Rightarrow> ('c, unit) fiber_result" where
  "RootScheduleSwapOut e f =
     (case t_root_fiber e of
        None \<Rightarrow> Ub
      | Some r \<Rightarrow> swapcontext_to (SetCurFiber e (Some r)) r)"

definition fiber_Reset :: "'c fiber_env \<Rightarrow> nat \<Rightarrow> 'c option \<Rightarrow> ('c, unit) fiber_result" where
  "fiber_Reset e f cb =
     (if \<not> m_stack_ptr (fibers e f) then Thr e assertion_failed
      else Ret (upd_fiber f ((fibers e f)\<lparr>m_cb := cb, m_state := Fiber_INIT, resume := At_entry\<rparr>) e) ())"

text \<open>
  The entry function, split at the call of the callback: \<open>ContextFunc_begin\<close> is what runs up
  to the call (the callback to run, if there is one), \<open>ContextFunc_end\<close> what runs after it.
\<close>

definition ContextFunc_begin :: "'c fiber_env \<Rightarrow> ('c, 'c option) fiber_result" where
  "ContextFunc_begin e =
     (case t_curfiber e of
        None \<Rightarrow> Thr e assertion_failed
      | Some f \<Rightarrow> Ret e (m_cb (fibers e f)))"

definition ContextFunc_end :: "'c fiber_env \<Rightarrow> ('c, unit) fiber_result" where
  "ContextFunc_end e =
     (case t_curfiber e of
        None \<Rightarrow> Ub
      | Some f \<Rightarrow>
          SwapOut (upd_fiber f ((fibers e f)\<lparr>m_cb := None, m_state := Fiber_TERM, resume := After_end\<rparr>) e) f)"

definition RootScheduleContextFunc_end :: "'c fiber_env \<Rightarrow> ('c, unit) fiber_result" where
  "RootScheduleContextFunc_end e =
     (case t_schedule_fiber e of
        None \<Rightarrow> Thr e assertion_failed
      | Some f \<Rightarrow>
          RootScheduleSwapOut
            (upd_fiber f ((fibers e f)\<lparr>m_cb := None, m_state := Fiber_TERM, resume := After_end\<rparr>) e) f)"

definition YieldToHold :: "'c fiber_env \<Rightarrow> ('c, unit) fiber_result" where
  "YieldToHold e =
     (case t_curfiber e of
        None \<Rightarrow> Thr e assertion_failed
      | Some f \<Rightarrow>
          (if m_state (fibers e f) \<noteq> Fiber_RUNNING \<and> m_state (fibers e f) \<noteq> Fiber_HOLD
           then Thr e assertion_failed
           else SwapOut (SetState e f Fiber_HOLD) f))"

definition fiber_GetThis :: "'c fiber_env \<Rightarrow> nat option" where
  "fiber_GetThis e = t_curfiber e"

definition fiber_GetId :: "'c fiber_env \<Rightarrow> int" where
  "fiber_GetId e =
     (case t_curfiber e of None \<Rightarrow> - 1 | Some f \<Rightarrow> sint (of_nat (m_fib_id (fibers e f)) :: u32))"

definition TotalFibers :: "'c fiber_env \<Rightarrow> int" where
  "TotalFibers e = sint (of_nat (s_fiber_count e) :: u32)"

lemmas fiber_defs = SwapIn_def SwapOut_def swapcontext_to_def SetState_def SetCurFiber_def
  YieldToHold_def ContextFunc_end_def ContextFunc_begin_def fiber_Reset_def GetState_def Let_def

section \<open>The switches of a thread\<close>

text \<open>
  The operations that the code performs on one thread, with the guards of their callers. \<open>s\<close> is the
  scheduler's fiber and \<open>r\<close> the fiber of the thread itself when it takes part (\<open>use_main\<close>).
  While the scheduler runs, \<open>Scheduler::Run\<close> resets fibers, puts them on hold and swaps them in
  (only the state \<open>TERM\<close> keeps it from that); a fiber on the processor yields or reaches the end of its
  callback; anybody but the fiber itself constructs or destroys it. With \<open>use_main\<close>, \<open>Stop\<close> enters the
  scheduler's fiber from the thread's fiber, and the end of \<open>Run\<close> returns there. The outcome of the
  operation is part of the relation.
\<close>

inductive fiber_op :: "nat option \<Rightarrow> nat \<Rightarrow> 'c fiber_env \<Rightarrow> ('c, unit) fiber_result \<Rightarrow> bool"
  for r :: "nat option" and s :: nat
where
  construct: "f \<noteq> s \<Longrightarrow> Some f \<noteq> r \<Longrightarrow> on_cpu e \<noteq> Some f \<Longrightarrow> fiber_op r s e (Fiber_new e f (Some g))"
| destroy: "f \<noteq> s \<Longrightarrow> Some f \<noteq> r \<Longrightarrow> on_cpu e \<noteq> Some f \<Longrightarrow> fiber_op r s e (Ret (Fiber_destroy e) ())"
| reset: "on_cpu e = Some s \<Longrightarrow> f \<noteq> s \<Longrightarrow> Some f \<noteq> r \<Longrightarrow> m_stack_ptr (fibers e f) \<Longrightarrow>
    fiber_op r s e (fiber_Reset e f cb)"
| set_hold: "on_cpu e = Some s \<Longrightarrow> f \<noteq> s \<Longrightarrow> Some f \<noteq> r \<Longrightarrow> m_stack_ptr (fibers e f) \<Longrightarrow>
    GetState e f \<noteq> Fiber_TERM \<Longrightarrow> fiber_op r s e (Ret (SetState e f Fiber_HOLD) ())"
| swap_in: "on_cpu e = Some s \<Longrightarrow> f \<noteq> s \<Longrightarrow> Some f \<noteq> r \<Longrightarrow> m_stack_ptr (fibers e f) \<Longrightarrow>
    GetState e f \<noteq> Fiber_TERM \<Longrightarrow> fiber_op r s e (SwapIn e f)"
| yield: "on_cpu e = Some f \<Longrightarrow> f \<noteq> s \<Longrightarrow> Some f \<noteq> r \<Longrightarrow> fiber_op r s e (YieldToHold e)"
| finish: "on_cpu e = Some f \<Longrightarrow> f \<noteq> s \<Longrightarrow> Some f \<noteq> r \<Longrightarrow> fiber_op r s e (ContextFunc_end e)"
| enter: "r \<noteq> None \<Longrightarrow> on_cpu e = r \<Longrightarrow> GetState e s = Fiber_INIT \<Longrightarrow> fiber_op r s e (RootScheduleSwapIn e s)"
| leave: "r \<noteq> None \<Longrightarrow> on_cpu e = Some s \<Longrightarrow> fiber_op r s e (RootScheduleContextFunc_end e)"

text \<open>The two ways a thread gets there: a thread of the pool at the start of \<open>Run\<close>, and the thread that
  constructs a scheduler with \<open>use_main\<close>, whose fiber is at address \<open>r\<close>.\<close>

definition pool_thread :: "nat \<Rightarrow> 'c fiber_env \<Rightarrow> 'c fiber_env" where
  "pool_thread s e = SetScheduleFiber (Fiber_main e s) (Some s)"

definition main_thread :: "nat \<Rightarrow> nat \<Rightarrow> 'c option \<Rightarrow> 'c fiber_env \<Rightarrow> ('c, unit) fiber_result" where
  "main_thread r s run e =
     (let e = SetCurFiber ((Fiber_main e r)\<lparr>t_root_fiber := Some r\<rparr>) (Some r)
      in obind (Fiber_root_schedule e s True run) (\<lambda>e _. Ret (SetScheduleFiber e (Some s)) ()))"

inductive fiber_start :: "nat option \<Rightarrow> nat \<Rightarrow> 'c fiber_env \<Rightarrow> bool" where
  pool: "(\<And>f. \<not> m_stack_ptr (fibers e f)) \<Longrightarrow> on_cpu e = Some s \<Longrightarrow> fiber_start None s (pool_thread s e)"
| main: "(\<And>f. \<not> m_stack_ptr (fibers e f)) \<Longrightarrow> on_cpu e = Some r \<Longrightarrow> r \<noteq> s \<Longrightarrow>
    main_thread r s (Some run) e = Ret e' () \<Longrightarrow> fiber_start (Some r) s e'"

inductive fiber_reach :: "nat option \<Rightarrow> nat \<Rightarrow> 'c fiber_env \<Rightarrow> bool" for r :: "nat option" and s :: nat where
  start: "fiber_start r s e \<Longrightarrow> fiber_reach r s e"
| step: "fiber_reach r s e \<Longrightarrow> fiber_op r s e (Ret e' ()) \<Longrightarrow> fiber_reach r s e'"

section \<open>The invariant\<close>

text \<open>The state of a worker says where it continues, and exactly the fiber on the processor is running.\<close>

definition worker_ok :: "'c fiber_env \<Rightarrow> nat \<Rightarrow> bool" where
  "worker_ok e f \<longleftrightarrow>
     (m_state (fibers e f) = Fiber_RUNNING \<longleftrightarrow> on_cpu e = Some f) \<and>
     (m_state (fibers e f) = Fiber_TERM \<longleftrightarrow> resume (fibers e f) = After_end) \<and>
     (m_state (fibers e f) = Fiber_INIT \<longrightarrow> resume (fibers e f) = At_entry) \<and>
     (on_cpu e = Some f \<longrightarrow> resume (fibers e f) = In_callback \<and> t_curfiber e = Some f)"

text \<open>The scheduler's fiber: with \<open>use_main\<close> it is off the processor only before it was entered or after it
  has ended, while the thread's own fiber runs.\<close>

definition system_ok :: "nat option \<Rightarrow> nat \<Rightarrow> 'c fiber_env \<Rightarrow> bool" where
  "system_ok r s e \<longleftrightarrow> t_schedule_fiber e = Some s \<and>
     (case r of
        None \<Rightarrow> resume (fibers e s) = In_callback
      | Some x \<Rightarrow> t_root_fiber e = Some x \<and> x \<noteq> s \<and> resume (fibers e x) = In_callback \<and>
          (if on_cpu e = Some x then m_state (fibers e s) = Fiber_INIT \<longrightarrow> resume (fibers e s) = At_entry
           else resume (fibers e s) = In_callback))"

definition fiber_inv :: "nat option \<Rightarrow> nat \<Rightarrow> 'c fiber_env \<Rightarrow> bool" where
  "fiber_inv r s e \<longleftrightarrow> system_ok r s e \<and>
     (\<exists>x. on_cpu e = Some x \<and> (x = s \<or> Some x = r \<or> m_stack_ptr (fibers e x))) \<and>
     (\<forall>f. f \<noteq> s \<and> Some f \<noteq> r \<and> m_stack_ptr (fibers e f) \<longrightarrow> worker_ok e f)"

lemmas fiber_inv_defs = fiber_inv_def system_ok_def worker_ok_def

lemma fiber_start_inv: "fiber_start r s e \<Longrightarrow> fiber_inv r s e"
  by (induction rule: fiber_start.induct)
    (auto simp: fiber_inv_defs pool_thread_def main_thread_def Fiber_main_def Fiber_root_schedule_def
      SetScheduleFiber_def SetCurFiber_def Let_def)

lemma yield_back:
  assumes "fiber_inv r s e" "on_cpu e = Some f" "f \<noteq> s" "Some f \<noteq> r"
  shows "\<exists>e'. YieldToHold e = Ret e' () \<and> fiber_inv r s e' \<and> on_cpu e' = Some s \<and> GetState e' f = Fiber_HOLD \<and>
    resume (fibers e' f) = In_callback \<and> m_cb (fibers e' f) = m_cb (fibers e f)"
proof -
  let ?e = "upd_fiber f ((fibers e f)\<lparr>m_state := Fiber_HOLD\<rparr>) e\<lparr>t_curfiber := Some s, on_cpu := Some s\<rparr>"
  have w: "worker_ok e f" and s: "system_ok r s e" using assms by (auto simp: fiber_inv_def)
  have "YieldToHold e = Ret ?e ()"
    using w s assms(2-4) by (cases r) (auto simp: fiber_defs worker_ok_def system_ok_def)
  moreover have "fiber_inv r s ?e" using assms by (cases r) (auto simp: fiber_inv_defs)
  ultimately show ?thesis using w assms(2) by (auto simp: GetState_def worker_ok_def)
qed

lemma finish_back:
  assumes "fiber_inv r s e" "on_cpu e = Some f" "f \<noteq> s" "Some f \<noteq> r"
  shows "\<exists>e'. ContextFunc_end e = Ret e' () \<and> fiber_inv r s e' \<and> on_cpu e' = Some s \<and>
    GetState e' f = Fiber_TERM \<and> m_cb (fibers e' f) = None"
proof -
  let ?e = "upd_fiber f ((fibers e f)\<lparr>m_cb := None, m_state := Fiber_TERM, resume := After_end\<rparr>) e
    \<lparr>t_curfiber := Some s, on_cpu := Some s\<rparr>"
  have w: "worker_ok e f" and s: "system_ok r s e" using assms by (auto simp: fiber_inv_def)
  have "ContextFunc_end e = Ret ?e ()"
    using w s assms(2-4) by (cases r) (auto simp: fiber_defs worker_ok_def system_ok_def)
  moreover have "fiber_inv r s ?e" using assms by (cases r) (auto simp: fiber_inv_defs)
  ultimately show ?thesis by (auto simp: GetState_def)
qed

lemma fiber_op_inv:
  assumes "fiber_op r s e res" "fiber_inv r s e"
  shows "\<exists>e'. res = Ret e' () \<and> fiber_inv r s e'"
  using assms
proof cases
  case (construct f g)
  then show ?thesis using assms(2)
    by (cases r) (auto simp: Fiber_new_def fiber_inv_defs Let_def)
next
  case (destroy f)
  then show ?thesis using assms(2) by (auto simp: Fiber_destroy_def fiber_inv_defs split: option.splits)
next
  case (reset f cb)
  then show ?thesis using assms(2)
    by (cases r) (auto simp: fiber_Reset_def fiber_inv_defs)
next
  case (set_hold f)
  then show ?thesis using assms(2)
    by (cases r) (auto simp: SetState_def GetState_def fiber_inv_defs)
next
  case (swap_in f)
  then show ?thesis using assms(2)
    by (cases r; cases "resume (fibers e f)") (auto simp: fiber_defs fiber_inv_defs)
next
  case (yield f)
  then show ?thesis using yield_back [OF assms(2)] by blast
next
  case (finish f)
  then show ?thesis using finish_back [OF assms(2)] by blast
next
  case enter
  then show ?thesis using assms(2)
    by (cases r) (auto simp: RootScheduleSwapIn_def fiber_defs fiber_inv_defs)
next
  case leave
  then show ?thesis using assms(2)
    by (cases r) (auto simp: RootScheduleContextFunc_end_def RootScheduleSwapOut_def fiber_defs fiber_inv_defs)
qed

lemma fiber_reach_inv: "fiber_reach r s e \<Longrightarrow> fiber_inv r s e"
  by (induction rule: fiber_reach.induct) (auto dest: fiber_start_inv fiber_op_inv)

section \<open>Properties\<close>

text \<open>C31. Fibers of a thread, over all orders of its operations and for a thread of the pool as well as one
  that takes part with \<open>use_main\<close>: in every reachable state a worker is running exactly when it is
  on the processor, it is terminated exactly when its entry function has made its last switch, and in
  the state \<open>INIT\<close> it starts at its entry function; no operation fails an assertion or uses a null
  pointer; and a worker on the processor that yields or ends gives the processor back to the scheduler, on hold in
  the middle of its callback or terminated without callback.\<close>

theorem fiber_switching_safe:
  assumes "fiber_reach r s e"
  shows "(\<forall>f. f \<noteq> s \<and> Some f \<noteq> r \<and> m_stack_ptr (fibers e f) \<longrightarrow>
      (GetState e f = Fiber_RUNNING \<longleftrightarrow> on_cpu e = Some f) \<and>
      (GetState e f = Fiber_TERM \<longleftrightarrow> resume (fibers e f) = After_end) \<and>
      (GetState e f = Fiber_INIT \<longrightarrow> resume (fibers e f) = At_entry)) \<and>
    (\<forall>res. fiber_op r s e res \<longrightarrow> (\<exists>e'. res = Ret e' ())) \<and>
    (\<forall>f. on_cpu e = Some f \<and> f \<noteq> s \<and> Some f \<noteq> r \<longrightarrow>
      (\<exists>e1. YieldToHold e = Ret e1 () \<and> on_cpu e1 = Some s \<and> GetState e1 f = Fiber_HOLD \<and>
         resume (fibers e1 f) = In_callback \<and> m_cb (fibers e1 f) = m_cb (fibers e f)) \<and>
      (\<exists>e2. ContextFunc_end e = Ret e2 () \<and> on_cpu e2 = Some s \<and> GetState e2 f = Fiber_TERM \<and>
         m_cb (fibers e2 f) = None))"
proof -
  note inv = fiber_reach_inv [OF assms]
  show ?thesis
  proof (intro conjI allI impI)
    show "\<exists>e'. res = Ret e' ()" if "fiber_op r s e res" for res using fiber_op_inv [OF that inv] by blast
  qed (use inv yield_back [OF inv] finish_back [OF inv] in \<open>auto simp: fiber_inv_def worker_ok_def GetState_def\<close>)
qed

text \<open>A thread that takes part: it constructs a worker in its own fiber, enters the scheduler's fiber and
  swaps the worker in.\<close>

definition no_fibers :: "string fiber_env" where
  "no_fibers =
     \<lparr>fibers = (\<lambda>f. \<lparr>m_state = Fiber_INIT, m_stack_ptr = False, m_fib_id = 0, m_cb = None, resume = At_entry\<rparr>),
      t_curfiber = None, t_schedule_fiber = None, t_root_fiber = None, on_cpu = Some 0,
      s_fiber_id = 0, s_fiber_count = 0\<rparr>"

theorem fiber_switching_safe_witness:
  "\<exists>e0 e1 e2 e3 e4. main_thread 0 1 (Some ''Run'') no_fibers = Ret e0 () \<and> Fiber_new e0 2 (Some ''cb'') = Ret e1 () \<and>
     RootScheduleSwapIn e1 1 = Ret e2 () \<and> SwapIn e2 2 = Ret e3 () \<and> on_cpu e3 = Some 2 \<and>
     YieldToHold e3 = Ret e4 () \<and> on_cpu e4 = Some 1 \<and> GetState e4 2 = Fiber_HOLD"
proof -
  obtain e0 where e0: "main_thread 0 1 (Some ''Run'') no_fibers = Ret e0 ()"
    by (simp add: main_thread_def Fiber_main_def Fiber_root_schedule_def SetCurFiber_def Let_def)
  obtain e1 where e1: "Fiber_new e0 2 (Some ''cb'') = Ret e1 ()" "on_cpu e1 = Some 0" "GetState e1 1 = Fiber_INIT"
    using e0 by (auto simp: main_thread_def Fiber_main_def Fiber_root_schedule_def Let_def no_fibers_def
        SetScheduleFiber_def SetCurFiber_def Fiber_new_def GetState_def)
  obtain e2 e3 where e2: "RootScheduleSwapIn e1 1 = Ret e2 ()" "on_cpu e2 = Some 1" "m_stack_ptr (fibers e2 2)"
      "GetState e2 2 \<noteq> Fiber_TERM" "SwapIn e2 2 = Ret e3 ()" "on_cpu e3 = Some 2"
    using e0 e1(1) by (auto simp: main_thread_def Fiber_main_def Fiber_root_schedule_def Let_def no_fibers_def
        SetScheduleFiber_def Fiber_new_def RootScheduleSwapIn_def fiber_defs)
  have "fiber_reach (Some 0) 1 e0" by (rule start, rule main [OF _ _ _ e0]) (auto simp: no_fibers_def)
  then have "fiber_reach (Some 0) 1 e1"
    by (rule step) (use construct [of 2 1 "Some 0" e0 "''cb''"] e0 e1 in
      \<open>auto simp: main_thread_def Fiber_main_def Fiber_root_schedule_def Let_def no_fibers_def SetScheduleFiber_def SetCurFiber_def\<close>)
  then have "fiber_reach (Some 0) 1 e2" by (rule step) (use enter [of "Some 0" e1 1] e1 e2 in simp)
  then have "fiber_reach (Some 0) 1 e3" by (rule step) (use swap_in [of e2 1 2 "Some 0"] e2 in simp)
  from fiber_switching_safe [OF this] show ?thesis using e0 e1 e2 by auto
qed

text \<open>
  A thread in its scheduler: the schedule fiber is on the processor, it has no stack of its
  own and was suspended in the middle (it is not a worker), and \<open>f\<close> is another fiber.
\<close>

definition in_scheduler :: "'c fiber_env \<Rightarrow> nat \<Rightarrow> nat \<Rightarrow> bool" where
  "in_scheduler e s f \<longleftrightarrow> t_schedule_fiber e = Some s \<and> s \<noteq> f \<and>
     resume (fibers e s) = In_callback"

definition two_fibers :: "string fiber_env" where
  "two_fibers =
     \<lparr>fibers = (\<lambda>f. \<lparr>m_state = Fiber_INIT, m_stack_ptr = (f = 1), m_fib_id = f + 1, m_cb = None,
                     resume = In_callback\<rparr>),
      t_curfiber = Some 0, t_schedule_fiber = Some 0, t_root_fiber = None, on_cpu = Some 0,
      s_fiber_id = 2, s_fiber_count = 2\<rparr>"

text \<open>A terminated fiber cannot be resumed: swapping it in again ends the process in the
  assertion behind its last switch; only \<open>Reset\<close> makes it runnable.\<close>

theorem terminated_fiber_not_resumable:
  assumes "in_scheduler e s f" "t_curfiber e = Some f"
  shows "\<exists>e1. ContextFunc_end e = Ret e1 () \<and> (\<exists>e2. SwapIn e1 f = Thr e2 assertion_failed) \<and>
    (m_stack_ptr (fibers e f) \<longrightarrow>
      (\<exists>e3 e4. fiber_Reset e1 f (Some cb) = Ret e3 () \<and> SwapIn e3 f = Ret e4 () \<and>
        GetState e4 f = Fiber_RUNNING))"
  using assms by (simp add: in_scheduler_def fiber_defs)

theorem terminated_fiber_not_resumable_witness:
  "\<exists>e1 e2. ContextFunc_end (two_fibers\<lparr>t_curfiber := Some 1\<rparr>) = Ret e1 () \<and>
    SwapIn e1 1 = Thr e2 assertion_failed"
  using terminated_fiber_not_resumable [of "two_fibers\<lparr>t_curfiber := Some 1\<rparr>" 0 1 "''cb''"]
  by (auto simp: in_scheduler_def two_fibers_def)

end
