(* ===== verification/Schedulers.thy ===== *)
theory Schedulers
  imports Fibers "HOL-Library.Multiset"
begin

text \<open>
  Model of \<open>src/Schedule1.h\<close> and \<open>src/Schedule1.cc\<close>: the task queue of a scheduler and the
  loop \<open>Run\<close> that each of its threads executes.

  The queue operations are functions. The loop is a step relation over the state that the
  threads share (queue, counters, fiber states) and the program counter of each thread, cut
  at the points where another thread can act: the scan under the lock, the counter updates
  around a switch, the return of a fiber, the test of its state, the stop test under the lock.
  Pushes by running callbacks and by other code are steps of their own.
\<close>

section \<open>Tasks\<close>

record 'c task =
  fiberptr :: "nat option"
  cb :: "'c option"
  thread_id :: int

definition Task_fiber :: "nat option \<Rightarrow> int \<Rightarrow> 'c task" where
  "Task_fiber f i = \<lparr>fiberptr = f, cb = None, thread_id = i\<rparr>"

definition Task_cb :: "'c option \<Rightarrow> int \<Rightarrow> 'c task" where
  "Task_cb f i = \<lparr>fiberptr = None, cb = f, thread_id = i\<rparr>"

definition Task_Reset :: "'c task \<Rightarrow> 'c task" where
  "Task_Reset t = t\<lparr>fiberptr := None, cb := None, thread_id := - 1\<rparr>"

definition task_valid :: "'c task \<Rightarrow> bool" where
  "task_valid t \<longleftrightarrow> fiberptr t \<noteq> None \<or> cb t \<noteq> None"

text \<open>
  The overloads of \<open>addTask\<close>. The first four only differ in moving or copying. The two that
  take a pointer (\<open>None\<close> is the null pointer) take the value out of the caller's variable;
  the result is the queue, the variable and whether a task was added.
\<close>

definition addTask_fiber :: "'c task list \<Rightarrow> nat option \<Rightarrow> int \<Rightarrow> 'c task list \<times> bool" where
  "addTask_fiber ts fiber tid = (ts @ [Task_fiber fiber tid], True)"

definition addTask_cb :: "'c task list \<Rightarrow> 'c option \<Rightarrow> int \<Rightarrow> 'c task list \<times> bool" where
  "addTask_cb ts f tid = (ts @ [Task_cb f tid], True)"

definition addTask_fiberp ::
  "'c task list \<Rightarrow> nat option option \<Rightarrow> int \<Rightarrow> 'c task list \<times> nat option option \<times> bool" where
  "addTask_fiberp ts fiber tid =
     (case fiber of
        Some (Some f) \<Rightarrow> (ts @ [Task_fiber (Some f) tid], Some None, True)
      | _ \<Rightarrow> (ts, fiber, False))"

definition addTask_cbp ::
  "'c task list \<Rightarrow> 'c option option \<Rightarrow> int \<Rightarrow> 'c task list \<times> 'c option option \<times> bool" where
  "addTask_cbp ts f tid =
     (case f of
        Some (Some c) \<Rightarrow> (ts @ [Task_cb (Some c) tid], Some None, True)
      | _ \<Rightarrow> (ts, f, False))"

text \<open>\<open>pushtask\<close> and \<open>pushtasks\<close>: the queue and whether \<open>Notify\<close> is called after the lock.\<close>

definition pushtask :: "'c task list \<Rightarrow> 'c task \<Rightarrow> 'c task list \<times> bool" where
  "pushtask ts t = (ts @ [t], True)"

fun pushtasks :: "'c task list \<Rightarrow> 'c task list \<Rightarrow> 'c task list \<times> bool" where
  "pushtasks ts [] = (ts, False)"
| "pushtasks ts (x # xs) =
     (let (ts1, n) = pushtask ts x; (ts2, n') = pushtasks ts1 xs in (ts2, n \<or> n'))"

text \<open>
  The scan of \<open>Run\<close>: empty tasks are dropped, tasks bound to another thread are left, the
  first other task is taken. The result is that task, the queue left and \<open>need_notify\<close>.
\<close>

fun scan_tasks :: "int \<Rightarrow> 'c task list \<Rightarrow> 'c task option \<times> 'c task list \<times> bool" where
  "scan_tasks me [] = (None, [], False)"
| "scan_tasks me (t # ts) =
     (if task_valid t then
        (if thread_id t \<noteq> - 1 \<and> thread_id t \<noteq> me then
           (let (p, rest, n) = scan_tasks me ts in (p, t # rest, True))
         else (Some t, ts, ts \<noteq> []))
      else scan_tasks me ts)"

definition can_take :: "int \<Rightarrow> 'c task \<Rightarrow> bool" where
  "can_take me t \<longleftrightarrow> task_valid t \<and> (thread_id t = - 1 \<or> thread_id t = me)"

section \<open>The object\<close>

record scheduler =
  m_isRunning :: bool
  use_main :: bool
  m_enable_stop :: bool
  m_buildThdCnt :: int
  m_rootThreadId :: int
  m_threads :: "string list"
  m_name :: string

datatype sched_error = sched_assertion

text \<open>\<open>me\<close> is the calling thread. The threads are known by their names.\<close>

definition Scheduler_new :: "int \<Rightarrow> int \<Rightarrow> bool \<Rightarrow> string \<Rightarrow> scheduler option" where
  "Scheduler_new me threadnum usemain name =
     (let n = (if usemain then threadnum - 1 else threadnum) in
      if n < 0 then None
      else Some \<lparr>m_isRunning = False, use_main = usemain, m_enable_stop = False,
                 m_buildThdCnt = n, m_rootThreadId = me, m_threads = [], m_name = name\<rparr>)"

definition Scheduler_Start ::
  "(nat \<Rightarrow> string) \<Rightarrow> scheduler \<Rightarrow> (scheduler, sched_error, unit) outcome" where
  "Scheduler_Start to_string s =
     (if m_isRunning s then Ret s ()
      else let s = s\<lparr>m_isRunning := True\<rparr> in
        if m_threads s \<noteq> [] then Thr s sched_assertion
        else Ret (s\<lparr>m_threads := map (\<lambda>i. m_name s @ ''_'' @ to_string i)
                                  [0..<nat (m_buildThdCnt s)]\<rparr>) ())"

text \<open>
  \<open>Stop\<close> up to the joins: the result is the list of threads that are joined, after the
  calling thread has run its own scheduler fiber when it takes part.
\<close>

definition Scheduler_Stop ::
  "int \<Rightarrow> scheduler \<Rightarrow> (scheduler, sched_error, string list) outcome" where
  "Scheduler_Stop me s =
     (if \<not> m_isRunning s then Ret s []
      else if m_enable_stop s then Thr s sched_assertion
      else let s = s\<lparr>m_isRunning := False, m_enable_stop := True\<rparr> in
        if use_main s \<and> m_rootThreadId s \<noteq> me then Thr s sched_assertion
        else Ret (s\<lparr>m_threads := []\<rparr>) (m_threads s))"

section \<open>The loop of the threads\<close>

text \<open>
  Where a thread stands in \<open>Run\<close>: before the scan, after it with the task it took (or none),
  in the idle fiber, back from it before the stop test, inside a callback or a fiber, back
  from one before its state is looked at, or out of the loop.
\<close>

datatype 'c phase =
  Scan | Got "'c task option" | Idling | Stop_test
  | In_cb nat | In_fiber nat | Back_cb nat | Back_fiber nat | Exited

record 'c sys =
  tasks :: "'c task list"
  active :: int
  idle :: int
  enable_stop :: bool
  phases :: "int \<Rightarrow> 'c phase"
  cb_fiber :: "int \<Rightarrow> nat option"
  fstate :: "nat \<Rightarrow> fiber_state"
  pushed :: "'c task list"
  started :: "(int \<times> 'c task) list"
  late :: "'c task list"

text \<open>
  The last three fields are a history that the code does not keep: every task ever put in the
  queue, the tasks that threads took out of it, and the tasks that code outside the pool pushed
  after \<open>Stop\<close>.
\<close>

definition init_sys :: "(nat \<Rightarrow> fiber_state) \<Rightarrow> 'c sys" where
  "init_sys fs = \<lparr>tasks = [], active = 0, idle = 0, enable_stop = False,
     phases = (\<lambda>_. Scan), cb_fiber = (\<lambda>_. None), fstate = fs,
     pushed = [], started = [], late = []\<rparr>"

definition CanStop :: "'c sys \<Rightarrow> bool" where
  "CanStop s \<longleftrightarrow> enable_stop s \<and> tasks s = [] \<and> active s = 0"

abbreviation goto :: "int \<Rightarrow> 'c phase \<Rightarrow> 'c sys \<Rightarrow> 'c sys" where
  "goto me p s \<equiv> s\<lparr>phases := (phases s)(me := p)\<rparr>"

definition in_task :: "'c phase \<Rightarrow> bool" where
  "in_task p \<longleftrightarrow> (\<exists>f. p = In_cb f \<or> p = In_fiber f \<or> p = Back_cb f \<or> p = Back_fiber f)"

definition do_scan :: "int \<Rightarrow> 'c sys \<Rightarrow> 'c sys" where
  "do_scan me s =
     (case scan_tasks me (tasks s) of (p, rest, need_notify) \<Rightarrow>
        goto me (Got p) (s\<lparr>tasks := rest,
          started := (case p of Some t \<Rightarrow> started s @ [(me, t)] | None \<Rightarrow> started s)\<rparr>))"

definition push_task :: "'c task \<Rightarrow> 'c sys \<Rightarrow> 'c sys" where
  "push_task t s = s\<lparr>tasks := fst (pushtask (tasks s) t), pushed := pushed s @ [t]\<rparr>"

text \<open>A push from outside the pool; nothing stops it after \<open>Stop\<close>.\<close>

definition push_from_outside :: "'c task \<Rightarrow> 'c sys \<Rightarrow> 'c sys" where
  "push_from_outside t s =
     (push_task t s)\<lparr>late := (if enable_stop s then late s @ [t] else late s)\<rparr>"

text \<open>
  A callback task runs in the thread's own callback fiber, which is created (at a new address
  \<open>f\<close>) when there is none, and dropped when the callback left it on hold.
\<close>

definition start_cb :: "int \<Rightarrow> nat \<Rightarrow> 'c sys \<Rightarrow> 'c sys" where
  "start_cb me f s =
     goto me (In_cb f) (s\<lparr>active := active s + 1, cb_fiber := (cb_fiber s)(me := Some f),
                          fstate := (fstate s)(f := Fiber_RUNNING)\<rparr>)"

definition start_fiber :: "int \<Rightarrow> nat \<Rightarrow> 'c sys \<Rightarrow> 'c sys" where
  "start_fiber me f s =
     (if fstate s f = Fiber_TERM then goto me Scan s
      else goto me (In_fiber f) (s\<lparr>active := active s + 1,
             fstate := (fstate s)(f := Fiber_RUNNING)\<rparr>))"

definition finish_cb :: "int \<Rightarrow> nat \<Rightarrow> 'c sys \<Rightarrow> 'c sys" where
  "finish_cb me f s =
     goto me Scan (s\<lparr>active := active s - 1,
       fstate := (if fstate s f = Fiber_TERM then (fstate s)(f := Fiber_INIT) else fstate s),
       cb_fiber := (if fstate s f = Fiber_HOLD then (cb_fiber s)(me := None) else cb_fiber s)\<rparr>)"

definition finish_fiber :: "int \<Rightarrow> nat \<Rightarrow> 'c sys \<Rightarrow> 'c sys" where
  "finish_fiber me f s =
     goto me Scan (s\<lparr>active := active s - 1,
       fstate := (if fstate s f \<noteq> Fiber_TERM then (fstate s)(f := Fiber_HOLD) else fstate s)\<rparr>)"

text \<open>A callback or fiber gives the processor back, terminated or on hold.\<close>

definition end_task :: "int \<Rightarrow> 'c phase \<Rightarrow> nat \<Rightarrow> fiber_state \<Rightarrow> 'c sys \<Rightarrow> 'c sys" where
  "end_task me back f st s = goto me back (s\<lparr>fstate := (fstate s)(f := st)\<rparr>)"

definition fiber_of :: "'c phase \<Rightarrow> nat option" where
  "fiber_of p = (case p of In_cb f \<Rightarrow> Some f | In_fiber f \<Rightarrow> Some f | Back_cb f \<Rightarrow> Some f
     | Back_fiber f \<Rightarrow> Some f | _ \<Rightarrow> None)"

definition unused :: "int set \<Rightarrow> nat \<Rightarrow> 'c sys \<Rightarrow> bool" where
  "unused T f s \<longleftrightarrow> (\<forall>x \<in> T. cb_fiber s x \<noteq> Some f \<and> fiber_of (phases s x) \<noteq> Some f) \<and>
     Some f \<notin> fiberptr ` set (tasks s)"

text \<open>
  One step of the threads \<open>T\<close>. Running callbacks and code outside the pool push tasks at any time.
\<close>

inductive sched_step :: "int set \<Rightarrow> 'c sys \<Rightarrow> 'c sys \<Rightarrow> bool" for T :: "int set" where
  scan: "me \<in> T \<Longrightarrow> phases s me = Scan \<Longrightarrow> sched_step T s (do_scan me s)"
| go_idle: "me \<in> T \<Longrightarrow> phases s me = Got None \<Longrightarrow>
    sched_step T s (goto me Idling (s\<lparr>idle := idle s + 1\<rparr>))"
| leave_idle: "me \<in> T \<Longrightarrow> phases s me = Idling \<Longrightarrow>
    sched_step T s (goto me Stop_test (s\<lparr>idle := idle s - 1\<rparr>))"
| stop_test: "me \<in> T \<Longrightarrow> phases s me = Stop_test \<Longrightarrow>
    sched_step T s (goto me (if CanStop s then Exited else Scan) s)"
| run_cb: "me \<in> T \<Longrightarrow> phases s me = Got (Some t) \<Longrightarrow> cb t \<noteq> None \<Longrightarrow>
    (case cb_fiber s me of Some g \<Rightarrow> f = g | None \<Rightarrow> unused T f s) \<Longrightarrow>
    sched_step T s (start_cb me f s)"
| run_fiber: "me \<in> T \<Longrightarrow> phases s me = Got (Some t) \<Longrightarrow> cb t = None \<Longrightarrow> fiberptr t = Some f \<Longrightarrow>
    sched_step T s (start_fiber me f s)"
| end_cb: "me \<in> T \<Longrightarrow> phases s me = In_cb f \<Longrightarrow> st = Fiber_TERM \<or> st = Fiber_HOLD \<Longrightarrow>
    sched_step T s (end_task me (Back_cb f) f st s)"
| end_fiber: "me \<in> T \<Longrightarrow> phases s me = In_fiber f \<Longrightarrow> st = Fiber_TERM \<or> st = Fiber_HOLD \<Longrightarrow>
    sched_step T s (end_task me (Back_fiber f) f st s)"
| done_cb: "me \<in> T \<Longrightarrow> phases s me = Back_cb f \<Longrightarrow> sched_step T s (finish_cb me f s)"
| done_fiber: "me \<in> T \<Longrightarrow> phases s me = Back_fiber f \<Longrightarrow> sched_step T s (finish_fiber me f s)"
| push_inside: "me \<in> T \<Longrightarrow> phases s me = In_cb f \<or> phases s me = In_fiber f \<Longrightarrow>
    sched_step T s (push_task t s)"
| push_outside: "sched_step T s (push_from_outside t s)"
| stop: "sched_step T s (s\<lparr>enable_stop := True\<rparr>)"

section \<open>The scan\<close>

lemma scan_tasks_spec:
  "scan_tasks me ts =
     (find (can_take me) ts,
      filter task_valid (takeWhile (\<lambda>t. \<not> can_take me t) ts) @
        tl (dropWhile (\<lambda>t. \<not> can_take me t) ts),
      (\<exists>t \<in> set (takeWhile (\<lambda>t. \<not> can_take me t) ts). task_valid t) \<or>
        tl (dropWhile (\<lambda>t. \<not> can_take me t) ts) \<noteq> [])"
  by (induction ts) (auto simp: can_take_def)

lemma scan_count:
  "scan_tasks me ts = (p, rest, n) \<Longrightarrow>
     filter_mset task_valid (mset ts) =
       (case p of Some t \<Rightarrow> {#t#} | None \<Rightarrow> {#}) + filter_mset task_valid (mset rest) \<and>
     (\<forall>t. p = Some t \<longrightarrow> can_take me t)"
proof (induction ts arbitrary: p rest n)
  case (Cons t ts)
  obtain p' rest' n' where r: "scan_tasks me ts = (p', rest', n')" by (metis prod_cases3)
  show ?case using Cons.prems Cons.IH [OF r] r by (auto simp: can_take_def split: if_splits)
qed simp

section \<open>Invariants\<close>

text \<open>Counting threads by phase: the change when one thread moves.\<close>

definition count_in :: "int set \<Rightarrow> ('c phase \<Rightarrow> bool) \<Rightarrow> (int \<Rightarrow> 'c phase) \<Rightarrow> int" where
  "count_in T P ph = int (card {me \<in> T. P (ph me)})"

lemma count_in_upd:
  assumes "finite T" "me \<in> T"
  shows "count_in T P (ph(me := q)) =
    count_in T P ph + (if P q then 1 else 0) - (if P (ph me) then 1 else 0)"
proof -
  let ?A = "{x \<in> T. x \<noteq> me \<and> P (ph x)}"
  have fin: "finite ?A" "me \<notin> ?A" using assms by auto
  have s: "{x \<in> T. P ((ph(me := q)) x)} = (if P q then insert me ?A else ?A)"
    "{x \<in> T. P (ph x)} = (if P (ph me) then insert me ?A else ?A)"
    using assms by auto
  show ?thesis unfolding count_in_def s using fin by simp
qed

text \<open>A thread inside a task it may run, with the counters in step.\<close>

definition sys_inv :: "int set \<Rightarrow> 'c sys \<Rightarrow> bool" where
  "sys_inv T s \<longleftrightarrow>
     active s = count_in T in_task (phases s) \<and>
     idle s = count_in T (\<lambda>p. p = Idling) (phases s) \<and>
     filter_mset task_valid (mset (pushed s)) =
       filter_mset task_valid (mset (tasks s)) + mset (map snd (started s)) \<and>
     (\<forall>(me, t) \<in> set (started s). can_take me t) \<and>
     (\<forall>me \<in> T. phases s me = Exited \<longrightarrow> enable_stop s) \<and>
     (T \<noteq> {} \<and> (\<forall>me \<in> T. phases s me = Exited) \<longrightarrow> mset (tasks s) \<subseteq># mset (late s))"

lemmas sched_step_defs = do_scan_def push_from_outside_def push_task_def pushtask_def start_cb_def start_fiber_def
  finish_cb_def finish_fiber_def CanStop_def in_task_def end_task_def

lemma in_task_simps [simp]:
  "\<not> in_task Scan" "\<not> in_task (Got x)" "\<not> in_task Idling" "\<not> in_task Stop_test"
  "\<not> in_task Exited" "in_task (In_cb f)" "in_task (In_fiber f)" "in_task (Back_cb f)"
  "in_task (Back_fiber f)"
  by (simp_all add: in_task_def)

lemma init_sys_inv: "sys_inv T (init_sys fs)"
  by (auto simp: sys_inv_def init_sys_def count_in_def)

lemma all_exited_upd:
  assumes "me \<in> T" "q \<noteq> Exited"
  shows "\<not> (\<forall>x \<in> T. (ph(me := q)) x = Exited)"
  using assms by auto

lemma inv_move:
  assumes "finite T" "me \<in> T" "sys_inv T s" "q \<noteq> Exited"
    and "active s' = active s + (if in_task q then 1 else 0) - (if in_task (phases s me) then 1 else 0)"
    and "idle s' = idle s + (if q = Idling then 1 else 0) - (if phases s me = Idling then 1 else 0)"
    and "phases s' = (phases s)(me := q)"
    and "enable_stop s' = enable_stop s" "tasks s' = tasks s" "pushed s' = pushed s"
    and "started s' = started s" "late s' = late s"
  shows "sys_inv T s'"
  using assms count_in_upd [OF assms(1,2), of in_task "phases s" q]
    count_in_upd [OF assms(1,2), of "\<lambda>p. p = Idling" "phases s" q]
    all_exited_upd [OF assms(2,4), of "phases s"]
  by (auto simp: sys_inv_def)

lemma inv_scan:
  assumes "finite T" "me \<in> T" "sys_inv T s" "phases s me = Scan"
  shows "sys_inv T (do_scan me s)"
proof -
  obtain p rest n where r: "scan_tasks me (tasks s) = (p, rest, n)" by (metis prod_cases3)
  have c: "count_in T in_task ((phases s)(me := Got p)) = count_in T in_task (phases s)"
    "count_in T (\<lambda>p. p = Idling) ((phases s)(me := Got p)) = count_in T (\<lambda>p. p = Idling) (phases s)"
    by (simp_all add: count_in_upd [OF assms(1,2)] assms(4))
  show ?thesis
    using assms(2,3) c scan_count [OF r] all_exited_upd [OF assms(2), of "Got p" "phases s"]
    by (cases p) (auto simp: sys_inv_def do_scan_def r)
qed

lemma inv_stop_test:
  assumes "finite T" "me \<in> T" "sys_inv T s" "phases s me = Stop_test"
  shows "sys_inv T (goto me (if CanStop s then Exited else Scan) s)"
proof -
  have c: "count_in T in_task ((phases s)(me := q)) = count_in T in_task (phases s)"
    "count_in T (\<lambda>p. p = Idling) ((phases s)(me := q)) = count_in T (\<lambda>p. p = Idling) (phases s)"
    if "q = Exited \<or> q = Scan" for q
    using that by (auto simp: count_in_upd [OF assms(1,2)] assms(4))
  show ?thesis
    using assms(2,3) c all_exited_upd [OF assms(2), of Scan "phases s"]
    by (auto simp: sys_inv_def CanStop_def)
qed

lemma inv_push:
  assumes "sys_inv T s" "me \<in> T" "phases s me \<noteq> Exited"
  shows "sys_inv T (push_task t s)"
  using assms by (auto simp: sys_inv_def push_task_def pushtask_def)

lemma sched_step_inv:
  assumes "sched_step T s s'" "finite T" "sys_inv T s"
  shows "sys_inv T s'"
  using assms
proof (induction rule: sched_step.induct)
  case (scan me s) then show ?case by (simp add: inv_scan)
next
  case (go_idle me s)
  show ?case by (rule inv_move [of T me s "Idling"]) (use go_idle in simp_all)
next
  case (leave_idle me s)
  show ?case by (rule inv_move [of T me s "Stop_test"]) (use leave_idle in simp_all)
next
  case (stop_test me s) then show ?case by (simp only: inv_stop_test)
next
  case (run_cb me s t f)
  show ?case by (rule inv_move [of T me s "In_cb f"]) (use run_cb in \<open>simp_all add: start_cb_def\<close>)
next
  case (run_fiber me s t f)
  show ?case
  proof (cases "fstate s f = Fiber_TERM")
    case True
    show ?thesis
      by (rule inv_move [of T me s "Scan"]) (use run_fiber True in \<open>simp_all add: start_fiber_def\<close>)
  next
    case False
    show ?thesis
      by (rule inv_move [of T me s "In_fiber f"])
        (use run_fiber False in \<open>simp_all add: start_fiber_def\<close>)
  qed
next
  case (end_cb me s f st)
  show ?case by (rule inv_move [of T me s "Back_cb f"]) (use end_cb in \<open>simp_all add: end_task_def\<close>)
next
  case (end_fiber me s f st)
  show ?case by (rule inv_move [of T me s "Back_fiber f"]) (use end_fiber in \<open>simp_all add: end_task_def\<close>)
next
  case (done_cb me s f)
  show ?case by (rule inv_move [of T me s "Scan"]) (use done_cb in \<open>simp_all add: finish_cb_def\<close>)
next
  case (done_fiber me s f)
  show ?case
    by (rule inv_move [of T me s "Scan"]) (use done_fiber in \<open>simp_all add: finish_fiber_def\<close>)
next
  case (push_inside me s f t)
  then have "phases s me \<noteq> Exited" by auto
  then show ?case using push_inside inv_push by blast
next
  case (push_outside s t)
  then show ?case
    by (auto simp: sys_inv_def push_from_outside_def push_task_def pushtask_def)
next
  case (stop s) then show ?case by (auto simp: sys_inv_def)
qed

text \<open>What the step of leaving the loop has tested, and what the active count says.\<close>

lemma exit_step:
  assumes "sched_step T s s'" "phases s me \<noteq> Exited" "phases s' me = Exited"
  shows "CanStop s"
  using assms
  by cases (auto simp: do_scan_def start_cb_def start_fiber_def finish_cb_def finish_fiber_def end_task_def
      push_from_outside_def push_task_def split: if_splits prod.splits)

lemma no_task_active:
  assumes "sys_inv T s" "finite T"
  shows "active s = 0 \<longleftrightarrow> (\<forall>x \<in> T. \<not> in_task (phases s x))"
proof -
  have "active s = int (card {x \<in> T. in_task (phases s x)})"
    using assms(1) by (simp add: sys_inv_def count_in_def)
  then show ?thesis using assms(2) by auto
qed

lemma sched_reach_inv:
  assumes "(sched_step T)\<^sup>*\<^sup>* s s'" "finite T" "sys_inv T s"
  shows "sys_inv T s'"
  using assms by (induction rule: rtranclp_induct) (auto dest: sched_step_inv)

section \<open>Properties\<close>

text \<open>C6. Task selection: a thread takes the first task of the queue that is not empty and is bound
  to no thread or to itself; the tasks before it that are bound to other threads stay in
  order, nothing behind it is touched, and the others are notified exactly when a usable task
  was passed over or tasks are left behind the one taken.\<close>

theorem scan_takes_first_eligible:
  assumes "\<forall>x \<in> set xs. \<not> can_take me x"
  shows "scan_tasks me xs = (None, filter task_valid xs, \<exists>x \<in> set xs. task_valid x) \<and>
    (can_take me t \<longrightarrow> scan_tasks me (xs @ t # ys) =
       (Some t, filter task_valid xs @ ys, (\<exists>x \<in> set xs. task_valid x) \<or> ys \<noteq> []))"
  using assms by (induction xs) (auto simp: can_take_def)

theorem scan_takes_first_eligible_witness:
  "scan_tasks 7 ([Task_cb (Some ''a'') 5] @ Task_cb (Some ''b'') (- 1) # []) =
     (Some (Task_cb (Some ''b'') (- 1)), [Task_cb (Some ''a'') 5], True)"
  using scan_takes_first_eligible
    [of "[Task_cb (Some ''a'') 5]" 7 "Task_cb (Some ''b'') (- 1)" "[]"]
  by (simp add: can_take_def task_valid_def Task_cb_def)

text \<open>C3. Bookkeeping of the threads: in every reachable state the active count is the number of
  threads inside a task, the idle count the number of threads in the idle fiber, every task
  that is not empty is in the queue or was started, exactly as often as it was pushed, and
  every task bound to a thread was started by that thread only.\<close>

theorem scheduler_bookkeeping:
  assumes "finite T" "(sched_step T)\<^sup>*\<^sup>* (init_sys fs) s"
  shows "active s = count_in T in_task (phases s) \<and>
    idle s = count_in T (\<lambda>p. p = Idling) (phases s) \<and>
    filter_mset task_valid (mset (pushed s)) =
      filter_mset task_valid (mset (tasks s)) + mset (map snd (started s)) \<and>
    (\<forall>(me, t) \<in> set (started s). thread_id t = - 1 \<or> thread_id t = me)"
  using sched_reach_inv [OF assms(2,1) init_sys_inv] by (auto simp: sys_inv_def can_take_def)

theorem scheduler_bookkeeping_witness:
  "active (goto 7 Idling ((do_scan 7 (init_sys (\<lambda>_. Fiber_INIT) :: string sys))\<lparr>idle := 1\<rparr>)) = 0"
proof -
  let ?s0 = "init_sys (\<lambda>_. Fiber_INIT) :: string sys"
  let ?s1 = "do_scan 7 ?s0"
  let ?s2 = "goto 7 Idling (?s1\<lparr>idle := idle ?s1 + 1\<rparr>)"
  have "sched_step {7} ?s0 ?s1" by (rule scan) (auto simp: init_sys_def)
  moreover have "sched_step {7} ?s1 ?s2"
    by (rule go_idle) (auto simp: do_scan_def init_sys_def)
  ultimately have "(sched_step {7})\<^sup>*\<^sup>* ?s0 ?s2" by (meson rtranclp.rtrancl_into_rtrancl rtranclp.rtrancl_refl)
  then have "active ?s2 = count_in {7} in_task (phases ?s2)"
    using scheduler_bookkeeping [of "{7}" "\<lambda>_. Fiber_INIT" ?s2] by simp
  moreover have "count_in {7} in_task (phases ?s2) = 0" by (simp add: count_in_def)
  ultimately show ?thesis by simp
qed

lemma path_step: "R\<^sup>*\<^sup>* a b \<Longrightarrow> R b c \<Longrightarrow> R\<^sup>*\<^sup>* a c"
  by (rule rtranclp.rtrancl_into_rtrancl)

text \<open>Runs given by the steps taken, for computing reachable states.\<close>

datatype 'c label =
  L_scan int | L_run_cb int nat | L_run_fiber int | L_end int fiber_state | L_done int |
  L_push_in int "'c task" | L_push_out "'c task" | L_idle int | L_leave int | L_test int | L_stop

fun do_label :: "int list \<Rightarrow> 'c label \<Rightarrow> 'c sys \<Rightarrow> 'c sys option" where
  "do_label T (L_scan me) s =
     (if me \<in> set T \<and> phases s me = Scan then Some (do_scan me s) else None)"
| "do_label T (L_run_cb me f) s =
     (case phases s me of
        Got (Some t) \<Rightarrow>
          (if me \<in> set T \<and> cb t \<noteq> None \<and>
              (case cb_fiber s me of Some g \<Rightarrow> f = g | None \<Rightarrow> unused (set T) f s)
           then Some (start_cb me f s) else None)
      | _ \<Rightarrow> None)"
| "do_label T (L_run_fiber me) s =
     (case phases s me of
        Got (Some t) \<Rightarrow>
          (case fiberptr t of
             Some f \<Rightarrow> (if me \<in> set T \<and> cb t = None then Some (start_fiber me f s) else None)
           | None \<Rightarrow> None)
      | _ \<Rightarrow> None)"
| "do_label T (L_end me st) s =
     (if me \<in> set T \<and> (st = Fiber_TERM \<or> st = Fiber_HOLD) then
        (case phases s me of
           In_cb f \<Rightarrow> Some (end_task me (Back_cb f) f st s)
         | In_fiber f \<Rightarrow> Some (end_task me (Back_fiber f) f st s)
         | _ \<Rightarrow> None)
      else None)"
| "do_label T (L_done me) s =
     (if me \<in> set T then
        (case phases s me of
           Back_cb f \<Rightarrow> Some (finish_cb me f s)
         | Back_fiber f \<Rightarrow> Some (finish_fiber me f s)
         | _ \<Rightarrow> None)
      else None)"
| "do_label T (L_push_in me t) s =
     (if me \<in> set T then
        (case phases s me of
           In_cb f \<Rightarrow> Some (push_task t s) | In_fiber f \<Rightarrow> Some (push_task t s) | _ \<Rightarrow> None)
      else None)"
| "do_label T (L_push_out t) s = Some (push_from_outside t s)"
| "do_label T (L_idle me) s =
     (case phases s me of
        Got None \<Rightarrow> (if me \<in> set T then Some (goto me Idling (s\<lparr>idle := idle s + 1\<rparr>)) else None)
      | _ \<Rightarrow> None)"
| "do_label T (L_leave me) s =
     (if me \<in> set T \<and> phases s me = Idling then Some (goto me Stop_test (s\<lparr>idle := idle s - 1\<rparr>)) else None)"
| "do_label T (L_test me) s =
     (if me \<in> set T \<and> phases s me = Stop_test then Some (goto me (if CanStop s then Exited else Scan) s)
      else None)"
| "do_label T L_stop s = Some (s\<lparr>enable_stop := True\<rparr>)"

lemma stop_test_steps:
  "me \<in> T \<Longrightarrow> phases s me = Stop_test \<Longrightarrow> CanStop s \<Longrightarrow> sched_step T s (goto me Exited s)"
  "me \<in> T \<Longrightarrow> phases s me = Stop_test \<Longrightarrow> \<not> CanStop s \<Longrightarrow> sched_step T s (goto me Scan s)"
  using sched_step.stop_test [of me T s] by simp_all

lemma do_label_step: "do_label T l s = Some s' \<Longrightarrow> sched_step (set T) s s'"
  by (cases l)
    (auto split: if_splits phase.splits option.splits
      intro: sched_step.intros sched_step.go_idle [simplified] sched_step.leave_idle [simplified] stop_test_steps
      simp del: split_paired_Ex)

fun do_labels :: "int list \<Rightarrow> 'c label list \<Rightarrow> 'c sys \<Rightarrow> 'c sys option" where
  "do_labels T [] s = Some s"
| "do_labels T (l # ls) s =
     (case do_label T l s of None \<Rightarrow> None | Some s1 \<Rightarrow> do_labels T ls s1)"

lemma do_labels_reach: "do_labels T ls s = Some s' \<Longrightarrow> (sched_step (set T))\<^sup>*\<^sup>* s s'"
proof (induction ls arbitrary: s)
  case (Cons l ls)
  then obtain s1 where s1: "do_label T l s = Some s1" "do_labels T ls s1 = Some s'"
    by (auto split: option.splits)
  show ?case
    by (rule converse_rtranclp_into_rtranclp [OF do_label_step [OF s1(1)] Cons.IH [OF s1(2)]])
qed simp

text \<open>C4. Leaving the loop: a thread leaves it only after \<open>Stop\<close>, and when it does the queue is empty and
  no thread is inside a callback or a fiber (one that has just taken a task may still be on its way
  into it). When all threads have left, every task was started exactly as often as it was pushed,
  except for those left in the queue, and these were all pushed from outside after \<open>Stop\<close>.\<close>

theorem stop_drains_queue:
  assumes "finite T" "T \<noteq> {}" "(sched_step T)\<^sup>*\<^sup>* (init_sys fs) s"
  shows "(\<forall>s' me. sched_step T s s' \<and> phases s me \<noteq> Exited \<and> phases s' me = Exited \<longrightarrow>
      enable_stop s \<and> tasks s = [] \<and> (\<forall>x \<in> T. \<not> in_task (phases s x))) \<and>
    ((\<forall>me \<in> T. phases s me = Exited) \<longrightarrow>
      enable_stop s \<and> mset (tasks s) \<subseteq># mset (late s) \<and>
      filter_mset task_valid (mset (pushed s)) =
        filter_mset task_valid (mset (tasks s)) + mset (map snd (started s)))"
proof -
  have inv: "sys_inv T s" by (rule sched_reach_inv [OF assms(3,1) init_sys_inv])
  have "enable_stop s \<and> tasks s = [] \<and> (\<forall>x \<in> T. \<not> in_task (phases s x))"
    if "sched_step T s s'" "phases s me \<noteq> Exited" "phases s' me = Exited" for s' me
    using exit_step [OF that] no_task_active [OF inv assms(1)] by (simp add: CanStop_def)
  then show ?thesis using inv assms(2) by (auto simp: sys_inv_def)
qed

text \<open>A run of one thread to its exit, with a task pushed before \<open>Stop\<close> and one pushed behind it.\<close>

definition stopped_run :: "string label list" where
  "stopped_run =
     [L_push_out (Task_cb (Some ''A'') (- 1)), L_stop, L_scan 7, L_run_cb 7 5, L_end 7 Fiber_TERM, L_done 7,
      L_scan 7, L_idle 7, L_leave 7, L_test 7, L_push_out (Task_cb (Some ''B'') (- 1))]"

theorem stop_drains_queue_witness:
  "\<exists>s. do_labels [7] stopped_run (init_sys (\<lambda>_. Fiber_INIT)) = Some s \<and> phases s 7 = Exited \<and>
     tasks s = [Task_cb (Some ''B'') (- 1)] \<and> mset (tasks s) \<subseteq># mset (late s) \<and>
     mset (pushed s) = mset (tasks s) + mset (map snd (started s))"
proof -
  obtain s where s: "do_labels [7] stopped_run (init_sys (\<lambda>_. Fiber_INIT)) = Some s"
    "phases s 7 = Exited" "tasks s = [Task_cb (Some ''B'') (- 1)]"
    "pushed s = [Task_cb (Some ''A'') (- 1), Task_cb (Some ''B'') (- 1)]"
    by (simp add: stopped_run_def init_sys_def sched_step_defs unused_def fiber_of_def
        task_valid_def Task_cb_def Task_fiber_def)
  have v: "task_valid (Task_cb (Some c) i)" for c :: string and i by (simp add: task_valid_def Task_cb_def)
  have "filter_mset task_valid (mset (pushed s)) = mset (pushed s)"
    "filter_mset task_valid (mset (tasks s)) = mset (tasks s)"
    using s(3,4) v by simp_all
  then show ?thesis
    using stop_drains_queue [of "{7}" "\<lambda>_. Fiber_INIT" s] do_labels_reach [OF s(1)] s by auto
qed

text \<open>
  A callback that puts its own fiber back in the queue and yields (as every hooked system call
  does, through the event loop), resumed by a second thread before the first one looks at the
  state of the fiber it came back from.
\<close>

definition race_run :: "string label list" where
  "race_run =
     [L_push_out (Task_cb (Some ''A'') (- 1)), L_scan 1, L_run_cb 1 5,
      L_push_in 1 (Task_fiber (Some 5) (- 1)), L_end 1 Fiber_HOLD,
      L_scan 2, L_run_fiber 2, L_done 1,
      L_push_out (Task_cb (Some ''B'') (- 1)), L_scan 1, L_run_cb 1 5]"

text \<open>The reuse of the callback fiber is not safe: there is a run of two threads in which a
  callback yields, is resumed by the second thread, and its fiber, which the first thread
  still holds as its callback fiber, is given a new callback and entered by the first thread
  while the second is inside it.\<close>

theorem callback_fiber_entered_twice:
  "\<exists>s. (sched_step {1, 2})\<^sup>*\<^sup>* (init_sys (\<lambda>_. Fiber_INIT) :: string sys) s \<and>
     phases s 1 = In_cb 5 \<and> phases s 2 = In_fiber 5"
proof -
  have "\<exists>s. do_labels [1, 2] race_run (init_sys (\<lambda>_. Fiber_INIT)) = Some s \<and>
      phases s 1 = In_cb 5 \<and> phases s 2 = In_fiber 5"
    by (simp add: race_run_def init_sys_def sched_step_defs unused_def fiber_of_def
        task_valid_def Task_cb_def Task_fiber_def)
  then show ?thesis using do_labels_reach [of "[1, 2]" race_run] by auto
qed

text \<open>A task bound to a thread that has left the loop blocks the scheduler for ever: in every
  later state the task is still in the queue and no further thread leaves the loop, so \<open>Stop\<close>
  does not return from joining them.\<close>

theorem task_of_exited_thread_blocks:
  assumes "(sched_step T)\<^sup>*\<^sup>* s s'" "phases s u = Exited" "t \<in> set (tasks s)" "task_valid t"
    and "thread_id t = u" "u \<noteq> - 1"
  shows "t \<in> set (tasks s') \<and> phases s' u = Exited \<and>
    (\<forall>me. phases s' me = Exited \<longrightarrow> phases s me = Exited)"
  using assms(1)
proof (induction rule: rtranclp_induct)
  case base
  then show ?case using assms by simp
next
  case (step y z)
  then have y: "t \<in> set (tasks y)" "phases y u = Exited"
    "\<forall>me. phases y me = Exited \<longrightarrow> phases s me = Exited" by auto
  have keep: "t \<in> set (tasks (do_scan me y))" if "phases y me = Scan" for me
  proof -
    obtain p rest n where r: "scan_tasks me (tasks y) = (p, rest, n)" by (metis prod_cases3)
    have "\<not> can_take me t" using that y(2) assms(5,6) by (auto simp: can_take_def)
    moreover have "t \<in># filter_mset task_valid (mset (tasks y))" using y(1) assms(4) by simp
    ultimately have "t \<in> set rest"
      using scan_count [OF r] by (cases p) (auto simp: can_take_def)
    then show ?thesis by (simp add: do_scan_def r)
  qed
  from step(2) show ?case
  proof cases
    case (scan me)
    then show ?thesis using y keep [of me] by (auto simp: do_scan_def split: prod.splits)
  next
    case (stop_test me)
    then show ?thesis using y by (auto simp: CanStop_def)
  next
    case (run_fiber me x f)
    then show ?thesis using y by (auto simp: start_fiber_def)
  qed (use y in \<open>auto simp: start_cb_def finish_cb_def finish_fiber_def end_task_def
      push_from_outside_def push_task_def pushtask_def\<close>)
qed

theorem task_of_exited_thread_blocks_witness:
  "let s = (init_sys (\<lambda>_. Fiber_INIT) :: string sys)\<lparr>tasks := [Task_cb (Some ''A'') 7],
       phases := (\<lambda>_. Scan)(7 := Exited)\<rparr>
   in Task_cb (Some ''A'') 7 \<in> set (tasks s)"
proof -
  let ?s = "(init_sys (\<lambda>_. Fiber_INIT) :: string sys)\<lparr>tasks := [Task_cb (Some ''A'') 7],
       phases := (\<lambda>_. Scan)(7 := Exited)\<rparr>"
  have "(sched_step {7})\<^sup>*\<^sup>* ?s ?s" by simp
  from task_of_exited_thread_blocks [OF this, of 7 "Task_cb (Some ''A'') 7"]
  show ?thesis by (simp add: task_valid_def Task_cb_def)
qed

end
