(* ===== verification/IOManagers.thy ===== *)
theory IOManagers
  imports Timers Schedulers
begin

text \<open>
  Model of \<open>src/IOManager.h\<close> and \<open>src/IOManager.cc\<close>: the table of descriptor contexts, the
  operations that register, delete, cancel and trigger events, and one round of the idle loop.

  Every operation holds the lock of the context for its whole effect, so it is one step here.
  \<open>m_fd_contexts\<close> is the table (a context's number is its index), \<open>queued\<close> collects what was
  pushed to which scheduler, \<open>interest\<close> is the kernel's side: the event mask registered in
  epoll for each descriptor, changed by every \<open>epoll_ctl\<close> that succeeds. Whether a call of
  \<open>epoll_ctl\<close> or \<open>write\<close> succeeds is an argument (\<open>ok\<close>). The calling fiber, its state and
  the calling thread's scheduler are arguments as well. A failed \<open>MY_ASSERT\<close> is \<open>Thr\<close>, an
  access outside the table or a call through a null scheduler is \<open>Ub\<close>.
\<close>

section \<open>State\<close>

type_synonym event = u32

definition NONE :: event where "NONE = 0"
definition READ :: event where "READ = 0x01"
definition WRITE :: event where "WRITE = 0x04"

definition EPOLLIN :: u32 where "EPOLLIN = 0x01"
definition EPOLLOUT :: u32 where "EPOLLOUT = 0x04"
definition EPOLLERR :: u32 where "EPOLLERR = 0x08"
definition EPOLLHUP :: u32 where "EPOLLHUP = 0x10"
definition EPOLLET :: u32 where "EPOLLET = 0x80000000"

datatype epoll_op = EPOLL_CTL_ADD | EPOLL_CTL_MOD | EPOLL_CTL_DEL

record 'c event_context =
  ec_scheduler :: "nat option"
  ec_fiber :: "nat option"
  ec_cb :: "'c option"

record 'c fd_context =
  read_event :: "'c event_context"
  write_event :: "'c event_context"
  fd_no :: nat
  event_type :: event

record 'c iomanager =
  m_fd_contexts :: "'c fd_context list"
  m_pendingCnt :: int
  queued :: "(nat \<times> 'c task) list"
  interest :: "nat \<Rightarrow> u32 option"
  eventfd_count :: nat

datatype iom_error = iom_assertion

type_synonym ('c, 'a) iom_result = "('c iomanager, iom_error, 'a) outcome"

definition empty_context :: "'c event_context" where
  "empty_context = \<lparr>ec_scheduler = None, ec_fiber = None, ec_cb = None\<rparr>"

definition FdContext_new :: "nat \<Rightarrow> 'c fd_context" where
  "FdContext_new i =
     \<lparr>read_event = empty_context, write_event = empty_context, fd_no = i, event_type = NONE\<rparr>"

definition resizeContext :: "'c iomanager \<Rightarrow> nat \<Rightarrow> 'c iomanager" where
  "resizeContext m n =
     m\<lparr>m_fd_contexts := take n (m_fd_contexts m) @
         map FdContext_new [length (m_fd_contexts m)..<n]\<rparr>"

definition IOManager_new :: "'c iomanager" where
  "IOManager_new = resizeContext
     \<lparr>m_fd_contexts = [], m_pendingCnt = 0, queued = [], interest = (\<lambda>_. None),
      eventfd_count = 0\<rparr> 64"

text \<open>The destructor, once \<open>Stop\<close> has returned: closing the descriptor of epoll drops the kernel's table, and
  the contexts are deleted.\<close>

definition IOManager_destroy :: "'c iomanager \<Rightarrow> 'c iomanager" where
  "IOManager_destroy m = m\<lparr>interest := (\<lambda>_. None), m_fd_contexts := []\<rparr>"

text \<open>What a successful \<open>epoll_ctl\<close> does to the kernel's table.\<close>

fun epoll_ctl :: "epoll_op \<Rightarrow> nat \<Rightarrow> u32 \<Rightarrow> 'c iomanager \<Rightarrow> 'c iomanager" where
  "epoll_ctl EPOLL_CTL_DEL fd ev m = m\<lparr>interest := (interest m)(fd := None)\<rparr>"
| "epoll_ctl op fd ev m = m\<lparr>interest := (interest m)(fd := Some ev)\<rparr>"

section \<open>Contexts\<close>

definition getContext :: "'c fd_context \<Rightarrow> event \<Rightarrow> 'c event_context option" where
  "getContext c event =
     (if event = READ then Some (read_event c)
      else if event = WRITE then Some (write_event c) else None)"

definition setContext :: "'c fd_context \<Rightarrow> event \<Rightarrow> 'c event_context \<Rightarrow> 'c fd_context" where
  "setContext c event x =
     (if event = READ then c\<lparr>read_event := x\<rparr> else c\<lparr>write_event := x\<rparr>)"

definition resetContext :: "'c event_context \<Rightarrow> 'c event_context" where
  "resetContext context = context\<lparr>ec_cb := None, ec_fiber := None, ec_scheduler := None\<rparr>"

abbreviation upd_ctx :: "nat \<Rightarrow> 'c fd_context \<Rightarrow> 'c iomanager \<Rightarrow> 'c iomanager" where
  "upd_ctx i c m \<equiv> m\<lparr>m_fd_contexts := (m_fd_contexts m)[i := c]\<rparr>"

text \<open>
  \<open>triggerEvent\<close> on the context \<open>i\<close>: the waiting fiber, or else the callback, is handed to the
  scheduler it belongs to and taken out of the context.
\<close>

definition triggerEvent :: "'c iomanager \<Rightarrow> nat \<Rightarrow> event \<Rightarrow> ('c, unit) iom_result" where
  "triggerEvent m i event =
     (let c = m_fd_contexts m ! i in
      if event_type c AND event = 0 then Thr m iom_assertion
      else let c = c\<lparr>event_type := event_type c AND NOT event\<rparr> in
        case getContext c event of
          None \<Rightarrow> Thr (upd_ctx i c m) iom_assertion
        | Some e \<Rightarrow>
            (case ec_fiber e of
               Some f \<Rightarrow>
                 (case ec_scheduler e of
                    None \<Rightarrow> Ub
                  | Some s \<Rightarrow>
                      Ret (upd_ctx i (setContext c event (e\<lparr>ec_fiber := None, ec_scheduler := None\<rparr>))
                        (m\<lparr>queued := queued m @ [(s, Task_fiber (Some f) (- 1))]\<rparr>)) ())
             | None \<Rightarrow>
                 (case ec_cb e of
                    Some f \<Rightarrow>
                      (case ec_scheduler e of
                         None \<Rightarrow> Ub
                       | Some s \<Rightarrow>
                           Ret (upd_ctx i (setContext c event (e\<lparr>ec_cb := None, ec_scheduler := None\<rparr>))
                             (m\<lparr>queued := queued m @ [(s, Task_cb (Some f) (- 1))]\<rparr>)) ())
                  | None \<Rightarrow>
                      Ret (upd_ctx i (setContext c event (e\<lparr>ec_scheduler := None\<rparr>)) m) ())))"

section \<open>Registering and removing events\<close>

definition grow_for :: "'c iomanager \<Rightarrow> int \<Rightarrow> 'c iomanager" where
  "grow_for m fd =
     (if fd > int (length (m_fd_contexts m)) then resizeContext m (nat (fd * 3 div 2)) else m)"

definition in_table :: "'c iomanager \<Rightarrow> int \<Rightarrow> bool" where
  "in_table m fd \<longleftrightarrow> 0 \<le> fd \<and> fd < int (length (m_fd_contexts m))"

definition addEvent ::
  "nat option \<Rightarrow> (nat \<times> fiber_state) option \<Rightarrow> bool \<Rightarrow> 'c iomanager \<Rightarrow> int \<Rightarrow> event \<Rightarrow> 'c option
    \<Rightarrow> ('c, bool) iom_result" where
  "addEvent this_sched this_fiber ok m fd event callback =
     (let m = grow_for m fd in
      if \<not> in_table m fd then Ub
      else let i = nat fd; c = m_fd_contexts m ! i in
        if event_type c AND event \<noteq> 0 then Ret m False
        else if \<not> ok then Ret m False
        else let m = epoll_ctl (if event_type c = NONE then EPOLL_CTL_ADD else EPOLL_CTL_MOD) i
                       (EPOLLET OR event_type c OR event) m;
                 m = m\<lparr>m_pendingCnt := m_pendingCnt m + 1\<rparr>;
                 c = c\<lparr>event_type := event OR event_type c\<rparr>
          in case getContext c event of
            None \<Rightarrow> Thr (upd_ctx i c m) iom_assertion
          | Some e \<Rightarrow>
              (if ec_cb e \<noteq> None \<or> ec_fiber e \<noteq> None \<or> ec_scheduler e \<noteq> None
               then Thr (upd_ctx i c m) iom_assertion
               else let e = e\<lparr>ec_scheduler := this_sched\<rparr> in
                 case callback of
                   Some f \<Rightarrow> Ret (upd_ctx i (setContext c event (e\<lparr>ec_cb := Some f\<rparr>)) m) True
                 | None \<Rightarrow>
                     (case this_fiber of
                        Some (f, Fiber_RUNNING) \<Rightarrow>
                          Ret (upd_ctx i (setContext c event (e\<lparr>ec_fiber := Some f\<rparr>)) m) True
                      | _ \<Rightarrow> Thr (upd_ctx i (setContext c event e) m) iom_assertion)))"

text \<open>The mask that is left, and the operation that tells the kernel.\<close>

definition leave_op :: "event \<Rightarrow> epoll_op" where
  "leave_op ev = (if ev = NONE then EPOLL_CTL_DEL else EPOLL_CTL_MOD)"

definition delEvent :: "bool \<Rightarrow> 'c iomanager \<Rightarrow> int \<Rightarrow> event \<Rightarrow> ('c, bool) iom_result" where
  "delEvent ok m fd event =
     (if fd \<ge> int (length (m_fd_contexts m)) then Ret m False
      else if fd < 0 then Ub
      else let i = nat fd; c = m_fd_contexts m ! i in
        if event_type c AND event = 0 then Ret m False
        else let new_events = event_type c AND NOT event in
          if \<not> ok then Ret m False
          else let m = epoll_ctl (leave_op new_events) i (EPOLLET OR new_events) m;
                   m = m\<lparr>m_pendingCnt := m_pendingCnt m - 1\<rparr>;
                   c = c\<lparr>event_type := new_events\<rparr>
            in case getContext c event of
              None \<Rightarrow> Thr (upd_ctx i c m) iom_assertion
            | Some e \<Rightarrow> Ret (upd_ctx i (setContext c event (resetContext e)) m) True)"

definition cancelEvent :: "bool \<Rightarrow> 'c iomanager \<Rightarrow> int \<Rightarrow> event \<Rightarrow> ('c, bool) iom_result" where
  "cancelEvent ok m fd event =
     (if fd \<ge> int (length (m_fd_contexts m)) then Ret m False
      else if fd < 0 then Ub
      else let i = nat fd; c = m_fd_contexts m ! i in
        if event_type c AND event = 0 then Ret m False
        else let new_events = event_type c AND NOT event in
          if \<not> ok then Ret m False
          else obind (triggerEvent (epoll_ctl (leave_op new_events) i (EPOLLET OR new_events) m) i event)
                 (\<lambda>m _. Ret (m\<lparr>m_pendingCnt := m_pendingCnt m - 1\<rparr>) True))"

text \<open>Trigger an event if it is registered, as \<open>cancelAll\<close> does for each of the two.\<close>

definition trigger_counted :: "bool \<Rightarrow> event \<Rightarrow> nat \<Rightarrow> 'c iomanager \<Rightarrow> ('c, unit) iom_result" where
  "trigger_counted go event i m =
     (if go then obind (triggerEvent m i event) (\<lambda>m _. Ret (m\<lparr>m_pendingCnt := m_pendingCnt m - 1\<rparr>) ())
      else Ret m ())"

definition cancelAll :: "bool \<Rightarrow> 'c iomanager \<Rightarrow> int \<Rightarrow> ('c, bool) iom_result" where
  "cancelAll ok m fd =
     (if fd \<ge> int (length (m_fd_contexts m)) then Ret m False
      else if fd < 0 then Ub
      else let i = nat fd; c = m_fd_contexts m ! i in
        if event_type c = NONE then Ret m False
        else if \<not> ok then Ret m False
        else obind (trigger_counted (event_type c AND READ \<noteq> 0) READ i (epoll_ctl EPOLL_CTL_DEL i 0 m)) (\<lambda>m _.
             obind (trigger_counted (event_type (m_fd_contexts m ! i) AND WRITE \<noteq> 0) WRITE i m) (\<lambda>m _.
             if event_type (m_fd_contexts m ! i) = NONE then Ret m True else Thr m iom_assertion)))"

section \<open>The idle loop\<close>

definition iom_Notify :: "bool \<Rightarrow> bool \<Rightarrow> 'c iomanager \<Rightarrow> ('c, unit) iom_result" where
  "iom_Notify hasIdleThreads ok m =
     (if \<not> hasIdleThreads then Ret m ()
      else if ok then Ret (m\<lparr>eventfd_count := eventfd_count m + 1\<rparr>) ()
      else Thr m iom_assertion)"

definition Haslatest :: "bool \<Rightarrow> bool \<Rightarrow> 'c iomanager \<Rightarrow> ('c, unit) iom_result" where
  "Haslatest hasIdleThreads ok m = iom_Notify hasIdleThreads ok m"

definition iom_CanStop :: "'c iomanager \<Rightarrow> 'd timer_manager \<Rightarrow> 'e sys \<Rightarrow> bool" where
  "iom_CanStop m tm s \<longleftrightarrow> m_pendingCnt m = 0 \<and> \<not> hasTimer tm \<and> CanStop s"

definition MAX_TIMEOUT :: u64 where "MAX_TIMEOUT = 1000 * 60 * 1"

text \<open>\<open>(int)\<close> of a 64-bit value: its low 32 bits as a signed number.\<close>

definition to_int :: "u64 \<Rightarrow> int" where
  "to_int x = sint (ucast x :: u32)"

definition idle_timeout :: "u64 \<Rightarrow> int" where
  "idle_timeout next_timeout =
     to_int (if next_timeout \<noteq> - 1 then
               (if to_int next_timeout > to_int MAX_TIMEOUT then MAX_TIMEOUT else next_timeout)
             else MAX_TIMEOUT)"

text \<open>One ready descriptor: what the loop does with the events that epoll reported for it.\<close>

definition real_event :: "u32 \<Rightarrow> event \<Rightarrow> event" where
  "real_event events registered =
     (let events = (if events AND (EPOLLERR OR EPOLLHUP) \<noteq> 0
                    then events OR ((EPOLLIN OR EPOLLOUT) AND registered) else events)
      in (if events AND EPOLLIN \<noteq> 0 then READ else NONE) OR
         (if events AND EPOLLOUT \<noteq> 0 then WRITE else NONE))"

definition handle_event :: "bool \<Rightarrow> nat \<Rightarrow> u32 \<Rightarrow> 'c iomanager \<Rightarrow> ('c, unit) iom_result" where
  "handle_event ok i events m =
     (let c = m_fd_contexts m ! i; realevent = real_event events (event_type c) in
      if event_type c AND realevent = NONE then Ret m ()
      else let leftevent = event_type c AND NOT realevent in
        if \<not> ok then Ret m ()
        else obind (trigger_counted (realevent AND READ \<noteq> 0) READ i
                     (epoll_ctl (leave_op leftevent) i (leftevent OR EPOLLET) m)) (\<lambda>m _.
             trigger_counted (realevent AND WRITE \<noteq> 0) WRITE i m))"

text \<open>
  The reports of one \<open>epoll_wait\<close>, in order: the notification descriptor, or a context with
  its events and the success of its \<open>epoll_ctl\<close>.
\<close>

datatype report = Notified | Ready nat u32 bool

fun handle_reports :: "report list \<Rightarrow> 'c iomanager \<Rightarrow> ('c, unit) iom_result" where
  "handle_reports [] m = Ret m ()"
| "handle_reports (Notified # rs) m = handle_reports rs (m\<lparr>eventfd_count := 0\<rparr>)"
| "handle_reports (Ready i events ok # rs) m =
     obind (handle_event ok i events m) (\<lambda>m _. handle_reports rs m)"

text \<open>
  One round of \<open>Idle\<close> in a thread of the scheduler \<open>s\<close>, from the stop test to the yield:
  \<open>None\<close> is the exit from the loop, otherwise the result is the time-out passed to
  \<open>epoll_wait\<close> and the two objects afterwards. \<open>t1\<close> and \<open>t2\<close> are the clock before and after
  the wait, \<open>p\<close> the address of the helper timer.
\<close>

definition idle_round ::
  "nat \<Rightarrow> 'c sys \<Rightarrow> u64 \<Rightarrow> u64 \<Rightarrow> nat \<Rightarrow> report list \<Rightarrow> 'c timer_manager \<Rightarrow> 'c timer_cb iomanager
    \<Rightarrow> ('c timer_cb iomanager, iom_error, (int \<times> 'c timer_manager) option) outcome" where
  "idle_round this_sched s t1 t2 p reports tm m =
     (if iom_CanStop m tm s then Ret m None
      else let (tm1, nxt) = getNextTimer tm t1 in
        case listExpiredCb tm1 t2 p of
          Ub \<Rightarrow> Ub
        | Thr tm2 e \<Rightarrow> Ub
        | Ret tm2 cbs \<Rightarrow>
            obind (handle_reports reports
                     (m\<lparr>queued := queued m @ map (\<lambda>f. (this_sched, Task_cb (Some f) (- 1))) cbs\<rparr>))
              (\<lambda>m _. Ret m (Some (idle_timeout nxt, tm2))))"

section \<open>Invariant\<close>

text \<open>
  A slot of a context whose event is registered holds exactly one of a fiber and a callback,
  and a scheduler; one whose event is not registered is empty. The kernel knows the same mask, and the pending
  count is the number of registered events.
\<close>

definition slot_ok :: "event \<Rightarrow> event \<Rightarrow> 'c event_context \<Rightarrow> bool" where
  "slot_ok et ev e \<longleftrightarrow>
     (if et AND ev \<noteq> 0
      then (ec_fiber e = None) \<noteq> (ec_cb e = None) \<and> ec_scheduler e \<noteq> None
      else e = empty_context)"

definition ctx_ok :: "nat \<Rightarrow> 'c fd_context \<Rightarrow> bool" where
  "ctx_ok i c \<longleftrightarrow> fd_no c = i \<and>
     (event_type c = 0 \<or> event_type c = 1 \<or> event_type c = 4 \<or> event_type c = 5) \<and>
     slot_ok (event_type c) READ (read_event c) \<and> slot_ok (event_type c) WRITE (write_event c)"

definition weight :: "'c fd_context \<Rightarrow> int" where
  "weight c = (if event_type c AND READ \<noteq> 0 then 1 else 0) +
              (if event_type c AND WRITE \<noteq> 0 then 1 else 0)"

definition kernel_mask :: "event \<Rightarrow> u32 option" where
  "kernel_mask et = (if et = NONE then None else Some (EPOLLET OR et))"

definition iom_inv :: "'c iomanager \<Rightarrow> bool" where
  "iom_inv m \<longleftrightarrow>
     (\<forall>i < length (m_fd_contexts m). ctx_ok i (m_fd_contexts m ! i) \<and>
        interest m i = kernel_mask (event_type (m_fd_contexts m ! i))) \<and>
     m_pendingCnt m = sum_list (map weight (m_fd_contexts m))"

lemma sum_list_upd:
  fixes f :: "'a \<Rightarrow> int"
  shows "i < length xs \<Longrightarrow> sum_list (map f (xs[i := x])) = sum_list (map f xs) + f x - f (xs ! i)"
  by (induction xs arbitrary: i) (auto split: nat.splits)

lemma inv_upd:
  assumes "iom_inv m" "i < length (m_fd_contexts m)" "ctx_ok i c"
    and "m_fd_contexts m' = (m_fd_contexts m)[i := c]"
    and "m_pendingCnt m' = m_pendingCnt m + weight c - weight (m_fd_contexts m ! i)"
    and "interest m' = (interest m)(i := kernel_mask (event_type c))"
  shows "iom_inv m'"
  using assms by (auto simp: iom_inv_def sum_list_upd nth_list_update)

lemma weight_new [simp]: "weight (FdContext_new i) = 0"
  by (simp add: weight_def FdContext_new_def NONE_def)

lemma event_type_new: "event_type (FdContext_new i) = NONE"
  by (simp add: FdContext_new_def)

lemma ctx_ok_new: "ctx_ok i (FdContext_new i)"
  by (simp add: ctx_ok_def FdContext_new_def slot_ok_def NONE_def)

lemma sum_zero: "(\<And>x. x \<in> set xs \<Longrightarrow> f x = (0 :: int)) \<Longrightarrow> sum_list (map f xs) = 0"
  by (induction xs) auto

text \<open>Growing the table: the kernel knows nothing of the new descriptors.\<close>

lemma grow_inv:
  assumes "iom_inv m" "\<forall>i \<ge> length (m_fd_contexts m). interest m i = None"
  shows "iom_inv (grow_for m fd) \<and> length (m_fd_contexts m) \<le> length (m_fd_contexts (grow_for m fd)) \<and>
    interest (grow_for m fd) = interest m"
proof (cases "fd > int (length (m_fd_contexts m))")
  case False
  then show ?thesis using assms by (simp add: grow_for_def)
next
  case True
  let ?n = "nat (fd * 3 div 2)" and ?l = "length (m_fd_contexts m)"
  have n: "?l \<le> ?n" using True by linarith
  let ?new = "map FdContext_new [?l..<?n]"
  have t: "m_fd_contexts (grow_for m fd) = m_fd_contexts m @ ?new"
    "interest (grow_for m fd) = interest m" "m_pendingCnt (grow_for m fd) = m_pendingCnt m"
    using True n by (simp_all add: grow_for_def resizeContext_def)
  have "sum_list (map weight ?new) = 0" by (rule sum_zero) auto
  moreover have "ctx_ok i ((m_fd_contexts m @ ?new) ! i) \<and>
      interest m i = kernel_mask (event_type ((m_fd_contexts m @ ?new) ! i))"
    if "i < length (m_fd_contexts m @ ?new)" for i
  proof (cases "i < ?l")
    case True
    then show ?thesis using assms(1) by (simp add: iom_inv_def nth_append)
  next
    case False
    then have "(m_fd_contexts m @ ?new) ! i = FdContext_new i"
      using that n by (auto simp: nth_append)
    then show ?thesis using assms(2) False ctx_ok_new
      by (simp add: kernel_mask_def FdContext_new_def)
  qed
  ultimately show ?thesis using assms(1) n t by (simp add: iom_inv_def)
qed

text \<open>The four masks and two events: all the bit operations that occur.\<close>

lemmas event_bits = READ_def WRITE_def NONE_def EPOLLIN_def EPOLLOUT_def

lemma mask_cases:
  assumes "ctx_ok i c"
  obtains "event_type c = 0" | "event_type c = 1" | "event_type c = 4" | "event_type c = 5"
  using assms by (auto simp: ctx_ok_def)

text \<open>\<open>triggerEvent\<close> of a registered event whose slot has a scheduler.\<close>

definition slot_of :: "'c fd_context \<Rightarrow> event \<Rightarrow> 'c event_context" where
  "slot_of c event = (if event = READ then read_event c else write_event c)"

definition slot_task :: "'c event_context \<Rightarrow> nat \<times> 'c task" where
  "slot_task e = (the (ec_scheduler e),
     case ec_fiber e of Some f \<Rightarrow> Task_fiber (Some f) (- 1)
     | None \<Rightarrow> Task_cb (ec_cb e) (- 1))"

definition without :: "'c fd_context \<Rightarrow> event \<Rightarrow> 'c fd_context" where
  "without c event = setContext (c\<lparr>event_type := event_type c AND NOT event\<rparr>) event empty_context"

lemma triggerEvent_registered:
  assumes "ctx_ok i (m_fd_contexts m ! i)" "event = READ \<or> event = WRITE"
    and "event_type (m_fd_contexts m ! i) AND event \<noteq> 0"
  shows "triggerEvent m i event =
    Ret (upd_ctx i (without (m_fd_contexts m ! i) event)
      (m\<lparr>queued := queued m @ [slot_task (slot_of (m_fd_contexts m ! i) event)]\<rparr>)) ()"
proof -
  let ?c = "m_fd_contexts m ! i"
  have ne: "READ \<noteq> WRITE" by (simp add: event_bits)
  have slot: "slot_ok (event_type ?c) event (slot_of ?c event)"
    using assms(1,2) ne by (auto simp: ctx_ok_def slot_of_def)
  obtain s where s: "ec_scheduler (slot_of ?c event) = Some s"
    using slot assms(3) by (auto simp: slot_ok_def)
  obtain g where g: "getContext (?c\<lparr>event_type := event_type ?c AND NOT event\<rparr>) event = Some g"
    "g = slot_of ?c event"
    using assms(2) ne by (auto simp: getContext_def slot_of_def)
  show ?thesis
  proof (cases "ec_fiber g")
    case (Some f)
    then have "ec_cb g = None" using slot assms(3) g(2) by (simp add: slot_ok_def)
    then have "g\<lparr>ec_fiber := None, ec_scheduler := None\<rparr> = empty_context"
      by (simp add: empty_context_def)
    then show ?thesis
      using assms(3) s g Some
      by (simp add: triggerEvent_def Let_def without_def slot_task_def)
  next
    case None
    then obtain f where f: "ec_cb g = Some f" using slot assms(3) g(2) by (auto simp: slot_ok_def)
    have "g\<lparr>ec_cb := None, ec_scheduler := None\<rparr> = empty_context"
      using None by (simp add: empty_context_def)
    then show ?thesis
      using assms(3) s g None f
      by (simp add: triggerEvent_def Let_def without_def slot_task_def)
  qed
qed

lemma without_ok:
  assumes "ctx_ok i c" "event = READ \<or> event = WRITE" "event_type c AND event \<noteq> 0"
  shows "ctx_ok i (without c event)" "weight (without c event) = weight c - 1"
    "event_type (without c event) = event_type c AND NOT event"
    "(event_type (without c event) AND READ \<noteq> 0) = (event_type c AND READ \<noteq> 0 \<and> event \<noteq> READ)"
    "(event_type (without c event) AND WRITE \<noteq> 0) = (event_type c AND WRITE \<noteq> 0 \<and> event \<noteq> WRITE)"
  using assms
  by (cases rule: mask_cases [OF assms(1)];
      force simp: without_def setContext_def ctx_ok_def slot_ok_def weight_def event_bits)+

text \<open>Taking an event out after the kernel was told: the invariant is kept.\<close>

definition retire :: "nat \<Rightarrow> event \<Rightarrow> 'c iomanager \<Rightarrow> 'c iomanager" where
  "retire i event m =
     upd_ctx i (without (m_fd_contexts m ! i) event)
       (m\<lparr>queued := queued m @ [slot_task (slot_of (m_fd_contexts m ! i) event)],
          m_pendingCnt := m_pendingCnt m - 1\<rparr>)"

lemma trigger_counted_registered:
  assumes "ctx_ok i (m_fd_contexts m ! i)" "event = READ \<or> event = WRITE"
    and "event_type (m_fd_contexts m ! i) AND event \<noteq> 0"
  shows "trigger_counted True event i m = Ret (retire i event m) ()"
  using triggerEvent_registered [OF assms] by (simp add: trigger_counted_def retire_def)

lemma epoll_ctl_simps [simp]:
  "m_fd_contexts (epoll_ctl op fd ev m) = m_fd_contexts m"
  "m_pendingCnt (epoll_ctl op fd ev m) = m_pendingCnt m"
  "queued (epoll_ctl op fd ev m) = queued m"
  "interest (epoll_ctl op fd ev m) =
     (interest m)(fd := (if op = EPOLL_CTL_DEL then None else Some ev))"
  by (cases op; simp)+

lemma leave_op_mask:
  "(if leave_op ev = EPOLL_CTL_DEL then None else Some (EPOLLET OR ev)) = kernel_mask ev"
  by (simp add: leave_op_def kernel_mask_def)

lemma iom_inv_ctx: "iom_inv m \<Longrightarrow> i < length (m_fd_contexts m) \<Longrightarrow> ctx_ok i (m_fd_contexts m ! i)"
  by (simp add: iom_inv_def)

lemma retire_inv:
  assumes "iom_inv m" "i < length (m_fd_contexts m)" "event = READ \<or> event = WRITE"
    and "event_type (m_fd_contexts m ! i) AND event \<noteq> 0"
    and "ev = event_type (m_fd_contexts m ! i) AND NOT event"
  shows "iom_inv (retire i event (epoll_ctl (leave_op ev) i (EPOLLET OR ev) m))"
proof -
  note c = iom_inv_ctx [OF assms(1,2)]
  note w = without_ok [OF c assms(3,4)]
  show ?thesis
    by (rule inv_upd [OF assms(1,2) w(1)])
      (simp_all add: retire_def w(2,3) leave_op_mask assms(5))
qed

lemma in_table_nat: "in_table m fd \<Longrightarrow> nat fd < length (m_fd_contexts m)"
  by (auto simp: in_table_def nat_less_iff)

lemma cancelEvent_cases:
  assumes "iom_inv m" "event = READ \<or> event = WRITE" "0 \<le> fd"
  shows "cancelEvent ok m fd event =
    (if in_table m fd \<and> event_type (m_fd_contexts m ! nat fd) AND event \<noteq> 0 \<and> ok
     then let ev = event_type (m_fd_contexts m ! nat fd) AND NOT event in
       Ret (retire (nat fd) event (epoll_ctl (leave_op ev) (nat fd) (EPOLLET OR ev) m)) True
     else Ret m False)"
proof (cases "in_table m fd \<and> event_type (m_fd_contexts m ! nat fd) AND event \<noteq> 0 \<and> ok")
  case True
  let ?ev = "event_type (m_fd_contexts m ! nat fd) AND NOT event"
  let ?m = "epoll_ctl (leave_op ?ev) (nat fd) (EPOLLET OR ?ev) m"
  have c: "ctx_ok (nat fd) (m_fd_contexts ?m ! nat fd)"
    using iom_inv_ctx [OF assms(1), of "nat fd"] True by (simp add: in_table_nat)
  have "triggerEvent ?m (nat fd) event =
      Ret (upd_ctx (nat fd) (without (m_fd_contexts ?m ! nat fd) event)
        (?m\<lparr>queued := queued ?m @ [slot_task (slot_of (m_fd_contexts ?m ! nat fd) event)]\<rparr>)) ()"
    using triggerEvent_registered [OF c assms(2)] True by simp
  then show ?thesis
    using True by (simp add: cancelEvent_def Let_def in_table_def retire_def)
next
  case False
  then show ?thesis using assms(3) by (auto simp: cancelEvent_def Let_def in_table_def)
qed

lemma resetContext_empty: "resetContext g = empty_context"
  by (simp add: resetContext_def empty_context_def)

text \<open>What both removals do to the table and the kernel.\<close>

definition event_removed :: "'c iomanager \<Rightarrow> nat \<Rightarrow> event \<Rightarrow> 'c iomanager \<Rightarrow> bool" where
  "event_removed m i event m' \<longleftrightarrow>
     m_fd_contexts m' = (m_fd_contexts m)[i := without (m_fd_contexts m ! i) event] \<and>
     interest m' = (interest m)(i := kernel_mask (event_type (m_fd_contexts m ! i) AND NOT event)) \<and>
     m_pendingCnt m' = m_pendingCnt m - 1 \<and> iom_inv m'"

lemma delEvent_spec:
  assumes "iom_inv m" "event = READ \<or> event = WRITE" "0 \<le> fd"
  shows "if in_table m fd \<and> event_type (m_fd_contexts m ! nat fd) AND event \<noteq> 0 \<and> ok
    then \<exists>m'. delEvent ok m fd event = Ret m' True \<and> event_removed m (nat fd) event m' \<and> queued m' = queued m
    else delEvent ok m fd event = Ret m False"
proof (cases "in_table m fd \<and> event_type (m_fd_contexts m ! nat fd) AND event \<noteq> 0 \<and> ok")
  case True
  let ?i = "nat fd" let ?c = "m_fd_contexts m ! ?i" let ?ev = "event_type ?c AND NOT event"
  have i: "?i < length (m_fd_contexts m)" using True by (simp add: in_table_nat)
  note c = iom_inv_ctx [OF assms(1) i]
  have reg: "event_type ?c AND event \<noteq> 0" using True by simp
  note w = without_ok [OF c assms(2) reg]
  let ?m = "epoll_ctl (leave_op ?ev) ?i (EPOLLET OR ?ev) m"
  have "getContext (?c\<lparr>event_type := ?ev\<rparr>) event \<noteq> None"
    using assms(2) by (auto simp: getContext_def)
  then obtain g where g: "getContext (?c\<lparr>event_type := ?ev\<rparr>) event = Some g" by blast
  have wo: "setContext (?c\<lparr>event_type := ?ev\<rparr>) event (resetContext g) = without ?c event"
    by (simp add: without_def resetContext_empty)
  have "delEvent ok m fd event =
      Ret (upd_ctx ?i (without ?c event) (?m\<lparr>m_pendingCnt := m_pendingCnt m - 1\<rparr>)) True"
    using True g wo by (simp add: delEvent_def Let_def in_table_def)
  moreover have "iom_inv (upd_ctx ?i (without ?c event) (?m\<lparr>m_pendingCnt := m_pendingCnt m - 1\<rparr>))"
    by (rule inv_upd [OF assms(1) i w(1)]) (simp_all add: w(2,3) leave_op_mask)
  ultimately show ?thesis
    using True leave_op_mask [of ?ev] by (simp add: event_removed_def)
next
  case False
  then have "delEvent ok m fd event = Ret m False"
    using assms(3) by (auto simp: delEvent_def Let_def in_table_def)
  then show ?thesis unfolding if_not_P [OF False] .
qed

lemma cancelEvent_spec:
  assumes "iom_inv m" "event = READ \<or> event = WRITE" "0 \<le> fd"
  shows "if in_table m fd \<and> event_type (m_fd_contexts m ! nat fd) AND event \<noteq> 0 \<and> ok
    then \<exists>m'. cancelEvent ok m fd event = Ret m' True \<and> event_removed m (nat fd) event m' \<and>
      queued m' = queued m @ [slot_task (slot_of (m_fd_contexts m ! nat fd) event)]
    else cancelEvent ok m fd event = Ret m False"
proof (cases "in_table m fd \<and> event_type (m_fd_contexts m ! nat fd) AND event \<noteq> 0 \<and> ok")
  case True
  let ?i = "nat fd" let ?ev = "event_type (m_fd_contexts m ! ?i) AND NOT event"
  let ?m = "retire ?i event (epoll_ctl (leave_op ?ev) ?i (EPOLLET OR ?ev) m)"
  have "iom_inv ?m" by (rule retire_inv [OF assms(1)]) (use True assms(2) in \<open>simp_all add: in_table_nat\<close>)
  then show ?thesis
    using cancelEvent_cases [OF assms, of ok] True leave_op_mask [of ?ev]
    by (simp add: Let_def event_removed_def retire_def)
next
  case False
  then show ?thesis using cancelEvent_cases [OF assms, of ok] by auto
qed

lemma setContext_add_ok:
  assumes "ctx_ok i c" "event = READ \<or> event = WRITE" "event_type c AND event = 0"
    and "(ec_fiber e = None) \<noteq> (ec_cb e = None)" "ec_scheduler e \<noteq> None"
  shows "ctx_ok i (setContext (c\<lparr>event_type := event OR event_type c\<rparr>) event e)"
    "weight (setContext (c\<lparr>event_type := event OR event_type c\<rparr>) event e) = weight c + 1"
    "event_type (setContext (c\<lparr>event_type := event OR event_type c\<rparr>) event e) = event OR event_type c"
  using assms
  by (cases rule: mask_cases [OF assms(1)];
      force simp: setContext_def ctx_ok_def slot_ok_def weight_def event_bits)+

text \<open>
  \<open>addEvent\<close> inside the (grown) table, called from a thread of a scheduler, with a callback
  or from a running fiber.
\<close>

definition waiting_task :: "nat \<Rightarrow> (nat \<times> fiber_state) option \<Rightarrow> 'c option \<Rightarrow> nat \<times> 'c task" where
  "waiting_task s this_fiber callback =
     (s, case callback of Some g \<Rightarrow> Task_cb (Some g) (- 1)
         | None \<Rightarrow> Task_fiber (Some (fst (the this_fiber))) (- 1))"

lemma addEvent_spec:
  fixes m :: "'c iomanager"
  assumes inv: "iom_inv m" and beyond: "\<forall>i \<ge> length (m_fd_contexts m). interest m i = None"
    and ev: "event = READ \<or> event = WRITE" and tab: "in_table (grow_for m fd) fd"
    and caller: "callback \<noteq> None \<or> (\<exists>f. this_fiber = Some (f, Fiber_RUNNING))"
    and m0: "m0 = grow_for m fd" and c0: "c = m_fd_contexts m0 ! nat fd"
  shows "iom_inv m0 \<and> queued m0 = queued m \<and>
    (if event_type c AND event \<noteq> 0 \<or> \<not> ok then addEvent (Some s) this_fiber ok m fd event callback = Ret m0 False
     else \<exists>m' c'. addEvent (Some s) this_fiber ok m fd event callback = Ret m' True \<and> iom_inv m' \<and>
       m_fd_contexts m' = (m_fd_contexts m0)[nat fd := c'] \<and> event_type c' = event OR event_type c \<and>
       slot_task (slot_of c' event) = waiting_task s this_fiber callback \<and>
       (\<forall>other. other = READ \<or> other = WRITE \<longrightarrow> other \<noteq> event \<longrightarrow> slot_of c' other = slot_of c other) \<and>
       interest m' = (interest m)(nat fd := Some (EPOLLET OR event_type c OR event)) \<and>
       m_pendingCnt m' = m_pendingCnt m0 + 1 \<and> queued m' = queued m)"
proof -
  let ?m = "grow_for m fd" let ?i = "nat fd" let ?c = "m_fd_contexts ?m ! ?i"
  have ginv: "iom_inv ?m" "interest ?m = interest m" using grow_inv [OF inv beyond] by blast+
  have q: "queued ?m = queued m" by (simp add: grow_for_def resizeContext_def)
  have i: "?i < length (m_fd_contexts ?m)" using tab by (rule in_table_nat)
  note c = iom_inv_ctx [OF ginv(1) i]
  show ?thesis
  proof (cases "event_type ?c AND event \<noteq> 0 \<or> \<not> ok")
    case True
    then have "addEvent (Some s) this_fiber ok m fd event callback = Ret ?m False"
      using tab by (auto simp: addEvent_def Let_def)
    then show ?thesis using ginv(1) q True unfolding m0 c0 by simp
  next
    case False
    then have fresh: "event_type ?c AND event = 0" and ok: ok by auto
    have ne: "READ \<noteq> WRITE" by (simp add: event_bits)
    let ?c1 = "?c\<lparr>event_type := event OR event_type ?c\<rparr>"
    have "slot_of ?c event = empty_context"
      using c ev fresh ne by (auto simp: ctx_ok_def slot_ok_def slot_of_def)
    then have g: "getContext ?c1 event = Some empty_context"
      using ev ne by (auto simp: getContext_def slot_of_def)
    define e :: "'c event_context" where "e = (case callback of
        Some f \<Rightarrow> empty_context\<lparr>ec_scheduler := Some s, ec_cb := Some f\<rparr>
      | None \<Rightarrow> empty_context\<lparr>ec_scheduler := Some s, ec_fiber := Some (fst (the this_fiber))\<rparr>)"
    have e: "(ec_fiber e = None) \<noteq> (ec_cb e = None)" "ec_scheduler e \<noteq> None"
      by (auto simp: e_def empty_context_def split: option.splits)
    note ok1 = setContext_add_ok [OF c ev fresh e]
    let ?op = "if event_type ?c = NONE then EPOLL_CTL_ADD else EPOLL_CTL_MOD"
    let ?m1 = "epoll_ctl ?op ?i (EPOLLET OR event_type ?c OR event) ?m"
    let ?m2 = "upd_ctx ?i (setContext ?c1 event e) (?m1\<lparr>m_pendingCnt := m_pendingCnt ?m1 + 1\<rparr>)"
    have run: "addEvent (Some s) this_fiber ok m fd event callback = Ret ?m2 True"
      using tab fresh ok g caller
      by (auto simp: addEvent_def Let_def e_def empty_context_def split: option.splits)
    have nz: "event OR event_type ?c \<noteq> NONE"
      using ev by (cases rule: mask_cases [OF c]) (auto simp: event_bits)
    have "iom_inv ?m2"
      by (rule inv_upd [OF ginv(1) i ok1(1)])
        (simp_all add: ok1(2,3) nz kernel_mask_def or.commute or.left_commute)
    moreover have "slot_of (setContext ?c1 event e) event = e"
      "\<forall>other. other = READ \<or> other = WRITE \<longrightarrow> other \<noteq> event \<longrightarrow> slot_of (setContext ?c1 event e) other = slot_of ?c other"
      using ev ne by (auto simp: slot_of_def setContext_def)
    moreover have "slot_task e = waiting_task s this_fiber callback"
      by (auto simp: slot_task_def waiting_task_def e_def empty_context_def split: option.splits)
    moreover have "interest ?m2 = (interest m)(?i := Some (EPOLLET OR event_type ?c OR event))"
      using ginv(2) by simp
    ultimately show ?thesis
      unfolding m0 c0 using run q ginv(1) fresh ok ok1(3)
      by (intro conjI) (auto intro!: exI [of _ ?m2] exI [of _ "setContext ?c1 event e"])
  qed
qed

text \<open>\<open>cancelAll\<close> and the handling of a report: both take out a set of registered events.\<close>

lemma retire_ctx:
  "i < length (m_fd_contexts m) \<Longrightarrow>
    m_fd_contexts (retire i ev m) ! i = without (m_fd_contexts m ! i) ev \<and>
    length (m_fd_contexts (retire i ev m)) = length (m_fd_contexts m) \<and>
    interest (retire i ev m) = interest m"
  by (simp add: retire_def)

text \<open>Both events in turn, each when registered and wanted.\<close>

definition retire_both :: "bool \<Rightarrow> bool \<Rightarrow> nat \<Rightarrow> 'c iomanager \<Rightarrow> 'c iomanager" where
  "retire_both r w i m =
     (let m = (if r then retire i READ m else m) in if w then retire i WRITE m else m)"

lemma retire_both_ctx:
  assumes "ctx_ok i (m_fd_contexts m ! i)" "i < length (m_fd_contexts m)"
    and "r \<longrightarrow> event_type (m_fd_contexts m ! i) AND READ \<noteq> 0"
    and "w \<longrightarrow> event_type (m_fd_contexts m ! i) AND WRITE \<noteq> 0"
  shows "\<exists>c. m_fd_contexts (retire_both r w i m) = (m_fd_contexts m)[i := c] \<and> ctx_ok i c \<and>
    m_pendingCnt (retire_both r w i m) = m_pendingCnt m + weight c - weight (m_fd_contexts m ! i) \<and>
    event_type c = event_type (m_fd_contexts m ! i) AND NOT ((if r then READ else NONE) OR (if w then WRITE else NONE)) \<and>
    interest (retire_both r w i m) = interest m"
proof -
  let ?c = "m_fd_contexts m ! i"
  let ?c1 = "if r then without ?c READ else ?c"
  let ?c2 = "if w then without ?c1 WRITE else ?c1"
  have ne: "READ \<noteq> WRITE" by (simp add: event_bits)
  have 1: "ctx_ok i ?c1" "weight ?c1 = weight ?c - (if r then 1 else 0)"
    "event_type ?c1 = event_type ?c AND NOT (if r then READ else NONE)"
    "event_type ?c1 AND WRITE \<noteq> 0 \<longleftrightarrow> event_type ?c AND WRITE \<noteq> 0"
    using assms without_ok [OF assms(1), of READ] ne by (auto simp: NONE_def)
  have 2: "ctx_ok i ?c2" "weight ?c2 = weight ?c1 - (if w then 1 else 0)"
    "event_type ?c2 = event_type ?c1 AND NOT (if w then WRITE else NONE)"
    using assms(4) without_ok [OF 1(1), of WRITE] 1(1,4)
    by (cases w; simp add: NONE_def)+
  have "event_type ?c2 = event_type ?c AND NOT ((if r then READ else NONE) OR (if w then WRITE else NONE))"
    unfolding 2(3) 1(3) by (simp add: bit.de_Morgan_disj and.assoc)
  then show ?thesis
    using 1 2 assms(2)
    by (intro exI [of _ ?c2]) (auto simp: retire_both_def retire_def)
qed

text \<open>The context without the events of a mask, and what waited for them, in the order of the triggers.\<close>

definition without_all :: "'c fd_context \<Rightarrow> event \<Rightarrow> 'c fd_context" where
  "without_all c re =
     (let c = (if re AND READ \<noteq> 0 then without c READ else c) in if re AND WRITE \<noteq> 0 then without c WRITE else c)"

definition waiters :: "'c fd_context \<Rightarrow> event \<Rightarrow> (nat \<times> 'c task) list" where
  "waiters c re =
     (if re AND READ \<noteq> 0 then [slot_task (read_event c)] else []) @
     (if re AND WRITE \<noteq> 0 then [slot_task (write_event c)] else [])"

lemma retire_both_exact:
  assumes "i < length (m_fd_contexts m)"
  shows "m_fd_contexts (retire_both (re AND READ \<noteq> 0) (re AND WRITE \<noteq> 0) i m) =
      (m_fd_contexts m)[i := without_all (m_fd_contexts m ! i) re]"
    "queued (retire_both (re AND READ \<noteq> 0) (re AND WRITE \<noteq> 0) i m) = queued m @ waiters (m_fd_contexts m ! i) re"
    "interest (retire_both (re AND READ \<noteq> 0) (re AND WRITE \<noteq> 0) i m) = interest m"
  using assms
  by (auto simp: retire_both_def retire_def without_all_def waiters_def slot_of_def without_def setContext_def
      event_bits Let_def)

lemma without_all_events:
  assumes "ctx_ok i c"
  shows "without_all c (event_type c) = FdContext_new i"
  using assms
  by (cases rule: mask_cases [OF assms]; cases c)
    (auto simp: without_all_def without_def setContext_def FdContext_new_def ctx_ok_def slot_ok_def event_bits)

lemma trigger_both:
  assumes "ctx_ok i (m_fd_contexts m ! i)" "i < length (m_fd_contexts m)"
    and r: "r \<longrightarrow> event_type (m_fd_contexts m ! i) AND READ \<noteq> 0"
    and w: "w \<longrightarrow> event_type (m_fd_contexts m ! i) AND WRITE \<noteq> 0"
  shows "obind (trigger_counted r READ i m) (\<lambda>m _. trigger_counted w WRITE i m) =
    Ret (retire_both r w i m) ()"
proof -
  have ne: "READ \<noteq> WRITE" by (simp add: event_bits)
  let ?m1 = "if r then retire i READ m else m"
  have t: "trigger_counted r READ i m = Ret ?m1 ()"
    using trigger_counted_registered [OF assms(1), of READ] r by (simp add: trigger_counted_def)
  have c1: "ctx_ok i (m_fd_contexts ?m1 ! i)"
    "event_type (m_fd_contexts ?m1 ! i) AND WRITE \<noteq> 0 \<longleftrightarrow>
      event_type (m_fd_contexts m ! i) AND WRITE \<noteq> 0"
    using without_ok [OF assms(1), of READ] r assms(1,2) ne retire_ctx [OF assms(2), of READ]
    by (cases r; simp)+
  have "trigger_counted w WRITE i ?m1 = Ret (if w then retire i WRITE ?m1 else ?m1) ()"
    using trigger_counted_registered [OF c1(1), of WRITE] w c1(2)
    by (cases w) (simp_all add: trigger_counted_def)
  then show ?thesis using t by (simp add: retire_both_def Let_def)
qed

lemma retire_both_inv:
  assumes "iom_inv m" "i < length (m_fd_contexts m)"
    and "r \<longrightarrow> event_type (m_fd_contexts m ! i) AND READ \<noteq> 0"
    and "w \<longrightarrow> event_type (m_fd_contexts m ! i) AND WRITE \<noteq> 0"
    and "ev = event_type (m_fd_contexts m ! i) AND NOT ((if r then READ else NONE) OR (if w then WRITE else NONE))"
    and "m1 = epoll_ctl (leave_op ev) i km m" "ev \<noteq> NONE \<longrightarrow> km = EPOLLET OR ev"
  shows "iom_inv (retire_both r w i m1) \<and>
    event_type (m_fd_contexts (retire_both r w i m1) ! i) = ev"
proof -
  have ctx: "m_fd_contexts m1 = m_fd_contexts m" by (simp add: assms(6))
  obtain c where c: "m_fd_contexts (retire_both r w i m1) = (m_fd_contexts m1)[i := c]" "ctx_ok i c"
    "m_pendingCnt (retire_both r w i m1) = m_pendingCnt m1 + weight c - weight (m_fd_contexts m1 ! i)"
    "event_type c = ev" "interest (retire_both r w i m1) = interest m1"
    using retire_both_ctx [of i m1 r w] iom_inv_ctx [OF assms(1,2)] assms(2-5) ctx by auto
  have "(if leave_op ev = EPOLL_CTL_DEL then None else Some km) = kernel_mask ev"
    using assms(7) by (auto simp: leave_op_def kernel_mask_def)
  then have "interest m1 = (interest m)(i := kernel_mask ev)" by (simp add: assms(6))
  then have "iom_inv (retire_both r w i m1)"
    by (intro inv_upd [OF assms(1,2) c(2)]) (use c ctx in \<open>simp_all add: assms(6)\<close>)
  then show ?thesis using c assms(2) ctx by simp
qed

lemma real_event_cases:
  "real_event events et = 0 \<or> real_event events et = READ \<or> real_event events et = WRITE \<or>
    real_event events et = READ OR WRITE"
  by (auto simp: real_event_def Let_def NONE_def)

text \<open>The union of the wanted events is the reported mask.\<close>

lemma mask_parts:
  assumes "re = 0 \<or> re = READ \<or> re = WRITE \<or> re = READ OR WRITE"
  shows "(if re AND READ \<noteq> 0 then READ else NONE) OR (if re AND WRITE \<noteq> 0 then WRITE else NONE) = re"
  using assms by (auto simp: event_bits)

lemma subset_bits:
  assumes "re AND NOT et = 0" "re AND e \<noteq> (0 :: u32)"
  shows "et AND e \<noteq> 0"
proof
  assume z: "et AND e = 0"
  have "re AND e = (re AND NOT et AND e) OR (re AND (et AND e))"
    by (intro bit_word_eqI) (auto simp: bit_simps)
  then show False using assms z by (simp add: and.assoc [symmetric])
qed

lemma handle_event_registered:
  assumes "iom_inv m" "i < length (m_fd_contexts m)"
    and "re = real_event events (event_type (m_fd_contexts m ! i))"
    and "re AND NOT (event_type (m_fd_contexts m ! i)) = 0" "re \<noteq> 0" "ok"
  shows "\<exists>m'. handle_event ok i events m = Ret m' () \<and> iom_inv m' \<and>
    event_type (m_fd_contexts m' ! i) = event_type (m_fd_contexts m ! i) AND NOT re \<and>
    m' = retire_both (re AND READ \<noteq> 0) (re AND WRITE \<noteq> 0) i
      (epoll_ctl (leave_op (event_type (m_fd_contexts m ! i) AND NOT re)) i
        (event_type (m_fd_contexts m ! i) AND NOT re OR EPOLLET) m)"
proof -
  let ?et = "event_type (m_fd_contexts m ! i)" and ?r = "re AND READ \<noteq> 0" and ?w = "re AND WRITE \<noteq> 0"
  let ?ev = "?et AND NOT re"
  let ?m1 = "epoll_ctl (leave_op ?ev) i (?ev OR EPOLLET) m"
  have rw: "?r \<longrightarrow> ?et AND READ \<noteq> 0" "?w \<longrightarrow> ?et AND WRITE \<noteq> 0"
    using subset_bits [OF assms(4)] by auto
  have parts: "?ev = ?et AND NOT ((if ?r then READ else NONE) OR (if ?w then WRITE else NONE))"
    using mask_parts [of re] real_event_cases assms(3) by simp
  have ne: "?et AND re \<noteq> NONE"
  proof -
    have "re = (re AND NOT ?et) OR (?et AND re)"
      by (intro bit_word_eqI) (auto simp: bit_simps)
    then show ?thesis using assms(4,5) by (auto simp: NONE_def)
  qed
  have c: "ctx_ok i (m_fd_contexts ?m1 ! i)" using iom_inv_ctx [OF assms(1,2)] by simp
  have "handle_event ok i events m = Ret (retire_both ?r ?w i ?m1) ()"
    using ne trigger_both [OF c, of ?r ?w] rw assms(2,3,6)
    by (simp add: handle_event_def Let_def)
  moreover have "iom_inv (retire_both ?r ?w i ?m1) \<and>
      event_type (m_fd_contexts (retire_both ?r ?w i ?m1) ! i) = ?ev"
    by (rule retire_both_inv [OF assms(1,2) rw parts refl]) (simp add: or.commute)
  ultimately show ?thesis by blast
qed

lemma cancelAll_spec:
  assumes "iom_inv m" "0 \<le> fd"
  shows "\<exists>m' r. cancelAll ok m fd = Ret m' r \<and> iom_inv m' \<and>
    (r \<longleftrightarrow> in_table m fd \<and> event_type (m_fd_contexts m ! nat fd) \<noteq> 0 \<and> ok) \<and>
    (if r then m_fd_contexts m' = (m_fd_contexts m)[nat fd := FdContext_new (nat fd)] \<and>
       interest m' = (interest m)(nat fd := None) \<and>
       queued m' = queued m @ waiters (m_fd_contexts m ! nat fd) (event_type (m_fd_contexts m ! nat fd))
     else m' = m)"
proof (cases "in_table m fd \<and> event_type (m_fd_contexts m ! nat fd) \<noteq> 0 \<and> ok")
  case False
  then have "cancelAll ok m fd = Ret m False"
    using assms(2) by (auto simp: cancelAll_def Let_def in_table_def NONE_def)
  then show ?thesis using False assms(1) by auto
next
  case True
  let ?i = "nat fd" let ?et = "event_type (m_fd_contexts m ! ?i)"
  let ?r = "?et AND READ \<noteq> 0" and ?w = "?et AND WRITE \<noteq> 0"
  let ?m1 = "epoll_ctl EPOLL_CTL_DEL ?i 0 m"
  have i: "?i < length (m_fd_contexts m)" using True by (simp add: in_table_nat)
  note c = iom_inv_ctx [OF assms(1) i]
  have c1: "ctx_ok ?i (m_fd_contexts ?m1 ! ?i)" using c by simp
  have ev: "(0 :: u32) = ?et AND NOT ((if ?r then READ else NONE) OR (if ?w then WRITE else NONE))"
    by (cases rule: mask_cases [OF c]) (auto simp: event_bits)
  have dm: "?m1 = epoll_ctl (leave_op 0) ?i 0 m" by (simp add: leave_op_def NONE_def)
  have inv: "iom_inv (retire_both ?r ?w ?i ?m1)"
    "event_type (m_fd_contexts (retire_both ?r ?w ?i ?m1) ! ?i) = 0"
    using retire_both_inv [OF assms(1) i _ _ ev dm] by (auto simp: NONE_def)
  have seq: "obind (trigger_counted ?r READ ?i ?m1) (\<lambda>m _. trigger_counted ?w WRITE ?i m) =
      Ret (retire_both ?r ?w ?i ?m1) ()"
    using trigger_both [OF c1, of ?r ?w] i by simp
  let ?m2 = "if ?r then retire ?i READ ?m1 else ?m1"
  have t1: "trigger_counted ?r READ ?i ?m1 = Ret ?m2 ()"
    using trigger_counted_registered [OF c1, of READ] by (simp add: trigger_counted_def)
  have same: "event_type (m_fd_contexts ?m2 ! ?i) AND WRITE \<noteq> 0 \<longleftrightarrow> ?w"
    using without_ok(5) [OF c1, of READ] retire_ctx [of ?i ?m1 READ] i
    by (cases ?r) (simp_all add: event_bits)
  have "cancelAll ok m fd = Ret (retire_both ?r ?w ?i ?m1) True"
    using True seq t1 same inv(2)
    by (simp add: cancelAll_def Let_def in_table_def NONE_def)
  moreover have "m_fd_contexts (retire_both ?r ?w ?i ?m1) = (m_fd_contexts m)[?i := FdContext_new ?i]"
    "queued (retire_both ?r ?w ?i ?m1) = queued m @ waiters (m_fd_contexts m ! ?i) ?et"
    "interest (retire_both ?r ?w ?i ?m1) = (interest m)(?i := None)"
    using retire_both_exact [of ?i ?m1 ?et] i without_all_events [OF c] by simp_all
  ultimately show ?thesis using inv(1) True by auto
qed

text \<open>With a willing kernel the descriptor is as new in any case.\<close>

lemma cancelAll_clear:
  assumes "iom_inv m" "0 \<le> fd"
  shows "\<exists>m' r. cancelAll True m fd = Ret m' r \<and> iom_inv m' \<and>
    (if in_table m fd
     then m_fd_contexts m' = (m_fd_contexts m)[nat fd := FdContext_new (nat fd)] \<and>
       interest m' = (interest m)(nat fd := None) \<and>
       queued m' = queued m @ waiters (m_fd_contexts m ! nat fd) (event_type (m_fd_contexts m ! nat fd))
     else m' = m)"
proof -
  let ?i = "nat fd" let ?c = "m_fd_contexts m ! ?i"
  obtain m' r where m': "cancelAll True m fd = Ret m' r" "iom_inv m'" "r \<longleftrightarrow> in_table m fd \<and> event_type ?c \<noteq> 0"
    "if r then m_fd_contexts m' = (m_fd_contexts m)[?i := FdContext_new ?i] \<and>
       interest m' = (interest m)(?i := None) \<and> queued m' = queued m @ waiters ?c (event_type ?c)
     else m' = m"
    using cancelAll_spec [OF assms, of True] by blast
  show ?thesis
  proof (cases "in_table m fd \<and> event_type ?c = 0")
    case True
    then have i: "?i < length (m_fd_contexts m)" by (simp add: in_table_nat)
    have "?c = FdContext_new ?i"
      using without_all_events [OF iom_inv_ctx [OF assms(1) i]] True by (simp add: without_all_def)
    moreover have "interest m ?i = None" using assms(1) i True by (simp add: iom_inv_def kernel_mask_def NONE_def)
    ultimately show ?thesis
      using m' True by (auto simp: waiters_def list_update_id fun_upd_idem [symmetric] intro!: exI [of _ m'])
        (metis list_update_id)
  next
    case False
    then show ?thesis using m' by (intro exI [of _ m'] exI [of _ r]) (auto split: if_splits)
  qed
qed

lemma iom_inv_new:
  "iom_inv (IOManager_new :: 'c iomanager)"
  "\<forall>i \<ge> length (m_fd_contexts (IOManager_new :: 'c iomanager)).
     interest (IOManager_new :: 'c iomanager) i = None"
proof -
  let ?m = "\<lparr>m_fd_contexts = [], m_pendingCnt = 0, queued = [], interest = (\<lambda>_. None),
      eventfd_count = 0\<rparr> :: 'c iomanager"
  have "sum_list (map weight (map FdContext_new [0..<64])) = 0" by (rule sum_zero) auto
  then show "iom_inv (IOManager_new :: 'c iomanager)"
    by (simp add: iom_inv_def IOManager_new_def resizeContext_def ctx_ok_new kernel_mask_def
        event_type_new o_def)
  show "\<forall>i \<ge> length (m_fd_contexts (IOManager_new :: 'c iomanager)). interest (IOManager_new :: 'c iomanager) i = None"
    by (simp add: IOManager_new_def resizeContext_def)
qed

section \<open>Properties\<close>



definition one_reader :: "string iomanager" where
  "one_reader = (case addEvent (Some 1) None True IOManager_new 5 READ (Some ''cb'') of
     Ret m r \<Rightarrow> m | _ \<Rightarrow> IOManager_new)"

lemma one_reader_eq:
  "addEvent (Some 1) None True IOManager_new 5 READ (Some ''cb'') = Ret one_reader True"
  by (simp add: one_reader_def addEvent_def grow_for_def in_table_def IOManager_new_def
      resizeContext_def Let_def FdContext_new_def getContext_def setContext_def event_bits
      empty_context_def)

lemma one_reader_ok:
  "iom_inv one_reader" "5 < length (m_fd_contexts one_reader)"
  "event_type (m_fd_contexts one_reader ! 5) = READ"
proof -
  have t: "in_table (grow_for (IOManager_new :: string iomanager) 5) 5"
    by (simp add: in_table_def grow_for_def IOManager_new_def resizeContext_def)
  have z: "event_type (m_fd_contexts (grow_for (IOManager_new :: string iomanager) 5) ! nat 5) AND READ = 0"
    by (simp add: grow_for_def IOManager_new_def resizeContext_def event_type_new NONE_def)
  have "Some ''cb'' \<noteq> None \<or> (\<exists>f. None = Some (f, Fiber_RUNNING))" by simp
  from addEvent_spec [OF iom_inv_new disjI1 [OF refl] t this refl refl, of True 1] z
  obtain m' where "addEvent (Some 1) None True IOManager_new 5 READ (Some ''cb'') = Ret m' True" "iom_inv m'"
    by auto
  then show "iom_inv one_reader" using one_reader_eq by simp
  show "5 < length (m_fd_contexts one_reader)" "event_type (m_fd_contexts one_reader ! 5) = READ"
    by (simp_all add: one_reader_def addEvent_def grow_for_def in_table_def IOManager_new_def
        resizeContext_def Let_def FdContext_new_def getContext_def setContext_def event_bits
        empty_context_def)
qed

lemma one_reader_waits:
  "slot_task (read_event (m_fd_contexts one_reader ! 5)) = (1, Task_cb (Some ''cb'') (- 1))"
  "queued one_reader = []" "m_pendingCnt one_reader = 1"
  by (simp_all add: one_reader_def addEvent_def grow_for_def in_table_def IOManager_new_def
      resizeContext_def Let_def FdContext_new_def getContext_def setContext_def event_bits
      empty_context_def slot_task_def)

text \<open>C7. Removing an event. When it is registered and the kernel agrees, \<open>delEvent\<close> and \<open>cancelEvent\<close> both
  return \<open>True\<close>, take exactly this event out of the mask, empty its slot, tell the kernel the mask that
  is left (or remove the descriptor when none is left) and count one pending event less, with the other slot
  and all other descriptors as before; \<open>delEvent\<close> runs nothing, \<open>cancelEvent\<close> hands exactly the
  waiting fiber or callback to its scheduler. In every other case both return \<open>False\<close> and change
  nothing.\<close>

theorem remove_event_correct:
  assumes "iom_inv m" "event = READ \<or> event = WRITE" "0 \<le> fd" "c = m_fd_contexts m ! nat fd"
    and "c' = setContext (c\<lparr>event_type := event_type c AND NOT event\<rparr>) event empty_context"
    and "changed = (\<lambda>m'. m_fd_contexts m' = (m_fd_contexts m)[nat fd := c'] \<and>
      interest m' = (interest m)(nat fd :=
        if event_type c AND NOT event = NONE then None else Some (EPOLLET OR event_type c AND NOT event)) \<and>
      m_pendingCnt m' = m_pendingCnt m - 1 \<and> iom_inv m')"
  shows "if in_table m fd \<and> event_type c AND event \<noteq> 0 \<and> ok
    then (\<exists>m'. delEvent ok m fd event = Ret m' True \<and> changed m' \<and> queued m' = queued m) \<and>
      (\<exists>m'. cancelEvent ok m fd event = Ret m' True \<and> changed m' \<and> queued m' = queued m @ [slot_task (slot_of c event)])
    else delEvent ok m fd event = Ret m False \<and> cancelEvent ok m fd event = Ret m False"
proof -
  have "changed = event_removed m (nat fd) event"
    using assms(4-6) by (simp add: fun_eq_iff event_removed_def without_def kernel_mask_def)
  then show ?thesis
    using delEvent_spec [OF assms(1-3), of ok] cancelEvent_spec [OF assms(1-3), of ok] unfolding assms(4) by auto
qed

theorem remove_event_correct_witness:
  "(\<exists>m'. cancelEvent True one_reader 5 READ = Ret m' True \<and> interest m' 5 = None \<and> m_pendingCnt m' = 0 \<and>
      queued m' = [(1, Task_cb (Some ''cb'') (- 1))]) \<and>
   (\<exists>m'. delEvent True one_reader 5 READ = Ret m' True \<and> interest m' 5 = None \<and> queued m' = [])"
proof -
  have t: "in_table one_reader 5" using one_reader_ok(2) by (simp add: in_table_def)
  have r: "READ AND NOT READ = NONE" "READ AND READ \<noteq> 0" by (simp_all add: event_bits)
  note rm = remove_event_correct [OF one_reader_ok(1) disjI1 [OF refl] _ refl refl refl, of 5 True]
  have "slot_of c READ = read_event c" for c :: "string fd_context" by (simp add: slot_of_def)
  then show ?thesis
    using rm t r one_reader_ok(3) one_reader_waits by (force simp del: and.right_idem)
qed

text \<open>\<open>cancelAll\<close> clears a descriptor: if it had events and the kernel agrees, afterwards it
  has none, and in every case the invariant holds; the assertion at its end never fails.\<close>

theorem cancelAll_clears:
  assumes "iom_inv m" "0 \<le> fd"
  shows "\<exists>m' r. cancelAll ok m fd = Ret m' r \<and> iom_inv m' \<and>
    (r \<longleftrightarrow> in_table m fd \<and> event_type (m_fd_contexts m ! nat fd) \<noteq> 0 \<and> ok) \<and>
    (if r then m_fd_contexts m' = (m_fd_contexts m)[nat fd := FdContext_new (nat fd)] \<and>
       interest m' = (interest m)(nat fd := None) \<and>
       queued m' = queued m @ waiters (m_fd_contexts m ! nat fd) (event_type (m_fd_contexts m ! nat fd))
     else m' = m)"
  by (rule cancelAll_spec [OF assms])

theorem cancelAll_clears_witness:
  "\<exists>m' r. cancelAll True (IOManager_new :: string iomanager) 5 = Ret m' r \<and> iom_inv m'"
  using cancelAll_clears [OF iom_inv_new(1), of 5 True] by auto

lemma unregistered_report_aborts:
  assumes "iom_inv m" "i < length (m_fd_contexts m)" "c = m_fd_contexts m ! i"
    and "et = event_type c" "re = real_event events et" "re AND et \<noteq> 0" "re AND NOT et \<noteq> 0"
  shows "\<exists>m'. handle_event True i events m = Thr m' iom_assertion"
proof -
  let ?m1 = "epoll_ctl (leave_op (et AND NOT re)) i (et AND NOT re OR EPOLLET) m"
  have c: "ctx_ok i (m_fd_contexts ?m1 ! i)" using iom_inv_ctx [OF assms(1,2)] by simp
  have he: "handle_event True i events m =
      obind (trigger_counted (re AND READ \<noteq> 0) READ i ?m1)
        (\<lambda>m _. trigger_counted (re AND WRITE \<noteq> 0) WRITE i m)"
    using assms(3-6) by (simp add: handle_event_def Let_def NONE_def and.commute)
  have "et = 0 \<or> et = 1 \<or> et = 4 \<or> et = 5"
    by (rule mask_cases [OF iom_inv_ctx [OF assms(1,2)]]) (simp_all add: assms(3,4))
  moreover have "re = 0 \<or> re = READ \<or> re = WRITE \<or> re = READ OR WRITE"
    unfolding assms(5) by (rule real_event_cases)
  ultimately have re: "re = READ OR WRITE" "et = READ \<or> et = WRITE"
    using assms(6,7) by (elim disjE; simp add: event_bits)+
  have both: "re AND READ \<noteq> 0" "re AND WRITE \<noteq> 0" using re(1) by (simp_all add: event_bits)
  have et1: "event_type (m_fd_contexts ?m1 ! i) = et" using assms(3,4) by simp
  from re(2) show ?thesis
  proof
    assume "et = WRITE"
    then have "trigger_counted True READ i ?m1 = Thr ?m1 iom_assertion"
      using et1 by (simp add: trigger_counted_def triggerEvent_def event_bits)
    then show ?thesis unfolding he using both by simp
  next
    assume r: "et = READ"
    have reg: "event_type (m_fd_contexts ?m1 ! i) AND READ \<noteq> 0" using et1 r by (simp add: event_bits)
    have t: "trigger_counted True READ i ?m1 = Ret (retire i READ ?m1) ()"
      by (rule trigger_counted_registered [OF c _ reg]) simp
    have "event_type (m_fd_contexts (retire i READ ?m1) ! i) AND WRITE = 0"
      using without_ok(5) [OF c _ reg] retire_ctx [of i ?m1 READ] assms(2) et1 r
      by (simp add: event_bits)
    then have "trigger_counted True WRITE i (retire i READ ?m1) = Thr (retire i READ ?m1) iom_assertion"
      by (simp add: trigger_counted_def triggerEvent_def Let_def)
    then show ?thesis unfolding he using both t by simp
  qed
qed

text \<open>C32. A report of epoll, as it is read (errors count as the registered events). When it names no
  registered event, or the kernel refuses the new mask, nothing changes. When all events it names are
  registered, exactly these are taken out of the context and of the kernel's mask, and exactly the
  fibers and callbacks that waited for them are handed to their schedulers, the reader first. When it
  names a registered event and also one that is not registered any more (another thread may have
  cancelled it since the wait) the process aborts: the events are not masked before they are triggered.\<close>

theorem report_handling:
  assumes "iom_inv m" "i < length (m_fd_contexts m)" "c = m_fd_contexts m ! i"
    and "et = event_type c" "re = real_event events et"
  shows "if re AND et = 0 \<or> \<not> ok then handle_event ok i events m = Ret m ()
    else if re AND NOT et = 0
    then \<exists>m'. handle_event ok i events m = Ret m' () \<and> iom_inv m' \<and>
      m_fd_contexts m' = (m_fd_contexts m)[i := without_all c re] \<and> event_type (without_all c re) = et AND NOT re \<and>
      interest m' = (interest m)(i := if et AND NOT re = NONE then None else Some (et AND NOT re OR EPOLLET)) \<and>
      queued m' = queued m @ (if re AND READ \<noteq> 0 then [slot_task (read_event c)] else []) @
        (if re AND WRITE \<noteq> 0 then [slot_task (write_event c)] else [])
    else \<exists>m'. handle_event ok i events m = Thr m' iom_assertion"
proof (cases "re AND et = 0 \<or> \<not> ok")
  case True
  then show ?thesis using assms(3-5) by (auto simp: handle_event_def Let_def NONE_def and.commute)
next
  case named: False
  show ?thesis
  proof (cases "re AND NOT et = 0")
    case True
    let ?m1 = "epoll_ctl (leave_op (et AND NOT re)) i (et AND NOT re OR EPOLLET) m"
    have "re \<noteq> 0" using named by auto
    then obtain m' where m': "handle_event ok i events m = Ret m' ()" "iom_inv m'"
      "event_type (m_fd_contexts m' ! i) = et AND NOT re"
      "m' = retire_both (re AND READ \<noteq> 0) (re AND WRITE \<noteq> 0) i ?m1"
      using handle_event_registered [OF assms(1,2), of re events ok] True named assms(3-5) by auto
    then show ?thesis
      using retire_both_exact [of i ?m1 re] assms(2,3) True named
      by (auto simp: waiters_def leave_op_def)
  next
    case False
    then show ?thesis using unregistered_report_aborts [OF assms(1-5)] named by auto
  qed
qed

theorem report_handling_witness:
  "(\<exists>m'. handle_event True 5 (EPOLLIN OR EPOLLOUT) one_reader = Thr m' iom_assertion) \<and>
   (\<exists>m'. handle_event True 5 EPOLLIN one_reader = Ret m' () \<and> interest m' 5 = None \<and>
      queued m' = [(1, Task_cb (Some ''cb'') (- 1))])"
proof -
  have re: "real_event (EPOLLIN OR EPOLLOUT) READ = READ OR WRITE" "real_event EPOLLIN READ = READ"
    by (simp_all add: real_event_def event_bits EPOLLERR_def EPOLLHUP_def)
  note r = report_handling [OF one_reader_ok(1,2) refl refl refl, of "EPOLLIN OR EPOLLOUT" True]
    report_handling [OF one_reader_ok(1,2) refl refl refl, of EPOLLIN True]
  show ?thesis
    using r one_reader_waits unfolding one_reader_ok(3) re by (auto simp: event_bits)
qed

text \<open>The time-out of the event loop: for timers due within \<open>2^31\<close> milliseconds it is the time
  to the next timer, at most a minute; without a timer it is a minute; a timer due in \<open>2^31\<close> to
  \<open>2^32 - 1\<close> milliseconds makes it negative, which epoll takes as no time-out at all.\<close>

theorem idle_timeout_range:
  "idle_timeout (- 1) = 60000 \<and>
   (unat nxt < 2 ^ 31 \<longrightarrow> idle_timeout nxt = min (int (unat nxt)) 60000) \<and>
   (2 ^ 31 \<le> unat nxt \<and> unat nxt < 2 ^ 32 \<longrightarrow> idle_timeout nxt < 0)"
proof -
  have mx: "to_int MAX_TIMEOUT = 60000"
    by (simp add: to_int_def MAX_TIMEOUT_def)
  define n where "n = unat nxt"
  have shift: "to_int nxt = (int n + 2 ^ 31) mod 2 ^ 32 - 2 ^ 31"
    by (simp add: n_def to_int_def sint_uint unsigned_ucast_eq signed_take_bit_eq_take_bit_shift
        take_bit_eq_mod mod_simps)
  have lo: "to_int nxt = int n" if "n < 2 ^ 31"
  proof -
    have "(int n + 2 ^ 31) mod 2 ^ 32 = int n + 2 ^ 31"
      using that by (intro mod_pos_pos_trivial) simp_all
    then show ?thesis unfolding shift by simp
  qed
  have hi: "to_int nxt = int n - 2 ^ 32" if "2 ^ 31 \<le> n" "n < 2 ^ 32"
  proof -
    have "(int n + 2 ^ 31) mod 2 ^ 32 = (int n + 2 ^ 31 - 2 ^ 32) mod 2 ^ 32"
      by (rule minus_mod_self2 [symmetric])
    also have "\<dots> = int n + 2 ^ 31 - 2 ^ 32"
      using that by (intro mod_pos_pos_trivial) simp_all
    finally show ?thesis unfolding shift by simp
  qed
  have ne: "nxt \<noteq> - 1" if "n < 2 ^ 32"
  proof
    assume "nxt = - 1"
    then have "n = 2 ^ 64 - 1" by (simp add: n_def unsigned_minus_1_eq_mask mask_eq_exp_minus_1)
    then show False using that by simp
  qed
  have 1: "idle_timeout (- 1) = 60000" by (simp add: idle_timeout_def mx)
  have 2: "idle_timeout nxt = min (int n) 60000" if "n < 2 ^ 31"
    using lo [OF that] ne that by (auto simp: idle_timeout_def mx)
  have 3: "idle_timeout nxt < 0" if "2 ^ 31 \<le> n" "n < 2 ^ 32"
    using hi [OF that] ne that by (auto simp: idle_timeout_def mx)
  show ?thesis using 1 2 3 unfolding n_def by blast
qed

theorem idle_timeout_range_witness: "idle_timeout 5 = 5 \<and> idle_timeout 0x80000000 < 0"
  using idle_timeout_range [of 5] idle_timeout_range [of "0x80000000"] by simp

end
