(* ===== verification/FdManagers.thy ===== *)
theory FdManagers
  imports IOManagers
begin

text \<open>
  Model of \<open>src/FdManager.h\<close> and \<open>src/FdManager.cc\<close>: the context of a descriptor and the
  table of contexts.

  \<open>kern\<close> is the part of the kernel the code relies on: what \<open>fstat\<close> says of a descriptor
  (\<open>None\<close>: it fails, \<open>Some b\<close>: it succeeds and \<open>b\<close> tells a socket) and whether the status flag
  \<open>O_NONBLOCK\<close> of the descriptor is set. Whether an \<open>F_SETFL\<close> succeeds is an argument (\<open>ok\<close>).
  A context is shared by pointer in the code; there is at most one for each slot of the table,
  so the slot stands for the pointer.
\<close>

section \<open>A descriptor context\<close>

record fd_ctx =
  m_isInit :: bool
  m_isSocket :: bool
  m_sysNonblock :: bool
  m_userNonblock :: bool
  m_close :: bool
  m_fd :: int
  m_recvTimeout :: u64
  m_sendTimeout :: u64

record kernel =
  k_stat :: "int \<Rightarrow> bool option"
  k_nonblock :: "int \<Rightarrow> bool"

record fd_manager =
  m_datas :: "fd_ctx option list"
  kern :: kernel

definition FdCtx_init :: "bool \<Rightarrow> kernel \<Rightarrow> fd_ctx \<Rightarrow> kernel \<times> fd_ctx \<times> bool" where
  "FdCtx_init ok k c =
     (if m_isInit c then (k, c, True)
      else
        let c = c\<lparr>m_recvTimeout := - 1, m_sendTimeout := - 1\<rparr>;
            c = (case k_stat k (m_fd c) of
                   None \<Rightarrow> c\<lparr>m_isInit := False, m_isSocket := False\<rparr>
                 | Some sock \<Rightarrow> c\<lparr>m_isInit := True, m_isSocket := sock\<rparr>);
            k = (if m_isSocket c \<and> \<not> k_nonblock k (m_fd c) \<and> ok
                 then k\<lparr>k_nonblock := (k_nonblock k)(m_fd c := True)\<rparr> else k);
            c = c\<lparr>m_sysNonblock := m_isSocket c, m_userNonblock := False\<rparr>
        in (k, c, m_isInit c))"

definition FdCtx_new :: "bool \<Rightarrow> kernel \<Rightarrow> int \<Rightarrow> kernel \<times> fd_ctx" where
  "FdCtx_new ok k fd =
     (let (k, c, _) = FdCtx_init ok k
        \<lparr>m_isInit = False, m_isSocket = False, m_sysNonblock = False, m_userNonblock = False,
         m_close = False, m_fd = fd, m_recvTimeout = - 1, m_sendTimeout = - 1\<rparr>
      in (k, c))"

definition SO_RCVTIMEO :: int where "SO_RCVTIMEO = 20"
definition SO_SNDTIMEO :: int where "SO_SNDTIMEO = 21"

definition setTimeout :: "fd_ctx \<Rightarrow> int \<Rightarrow> u64 \<Rightarrow> fd_ctx" where
  "setTimeout c typ v =
     (if typ = SO_RCVTIMEO then c\<lparr>m_recvTimeout := v\<rparr> else c\<lparr>m_sendTimeout := v\<rparr>)"

definition getTimeout :: "fd_ctx \<Rightarrow> int \<Rightarrow> u64" where
  "getTimeout c typ = (if typ = SO_RCVTIMEO then m_recvTimeout c else m_sendTimeout c)"

section \<open>The table\<close>

definition FdManager_new :: "kernel \<Rightarrow> fd_manager" where
  "FdManager_new k = \<lparr>m_datas = replicate 64 None, kern = k\<rparr>"

text \<open>
  \<open>get\<close> looks the descriptor up under the read lock; only when it has to create a context it
  takes the write lock and looks again. The two critical sections are two operations;
  \<open>others\<close> is what the other threads did to the table in between. A descriptor below \<open>-1\<close>
  indexes before the table, which is undefined.
\<close>

datatype lookup = Found "fd_ctx option" | Must_create

definition get_lookup :: "fd_manager \<Rightarrow> int \<Rightarrow> bool \<Rightarrow> (fd_manager, unit, lookup) outcome" where
  "get_lookup m fd auto_create =
     (if fd < int (length (m_datas m)) then
        if fd < 0 then Ub
        else case m_datas m ! nat fd of
            Some c \<Rightarrow> Ret m (Found (Some c))
          | None \<Rightarrow> Ret m (if auto_create then Must_create else Found None)
      else Ret m (if auto_create then Must_create else Found None))"

definition get_create :: "bool \<Rightarrow> fd_manager \<Rightarrow> int \<Rightarrow> (fd_manager, unit, fd_ctx option) outcome" where
  "get_create ok m fd =
     (if fd < 0 then Ub
      else if fd < int (length (m_datas m)) \<and> m_datas m ! nat fd \<noteq> None
      then Ret m (m_datas m ! nat fd)
      else
        let n = nat (fd * 3 div 2 + 1);
            ds = (if int (length (m_datas m)) \<le> fd
                  then take n (m_datas m) @ replicate (n - length (m_datas m)) None
                  else m_datas m);
            (k, c) = FdCtx_new ok (kern m) fd
        in Ret (m\<lparr>m_datas := ds[nat fd := Some c], kern := k\<rparr>) (Some c))"

definition fdm_get ::
  "bool \<Rightarrow> (fd_manager \<Rightarrow> fd_manager) \<Rightarrow> fd_manager \<Rightarrow> int \<Rightarrow> bool
   \<Rightarrow> (fd_manager, unit, fd_ctx option) outcome" where
  "fdm_get ok others m fd auto_create =
     (if fd = - 1 then Ret m None
      else obind (get_lookup m fd auto_create)
        (\<lambda>m r. case r of Found c \<Rightarrow> Ret m c | Must_create \<Rightarrow> get_create ok (others m) fd))"

definition fdm_del :: "fd_manager \<Rightarrow> int \<Rightarrow> (fd_manager, unit, unit) outcome" where
  "fdm_del m fd =
     (if fd = - 1 then Ret m ()
      else if int (length (m_datas m)) \<le> fd then Ret m ()
      else if fd < 0 then Ub
      else Ret (m\<lparr>m_datas := (m_datas m)[nat fd := None]\<rparr>) ())"

section \<open>Invariant\<close>

text \<open>
  A slot holds the context of its own descriptor; a context says \<open>sysNonblock\<close> exactly for
  sockets, and for those the kernel's flag is indeed set.
\<close>

definition fd_ctx_ok :: "kernel \<Rightarrow> nat \<Rightarrow> fd_ctx \<Rightarrow> bool" where
  "fd_ctx_ok k i c \<longleftrightarrow>
     m_fd c = int i \<and> (m_isSocket c \<longrightarrow> m_isInit c) \<and> m_sysNonblock c = m_isSocket c \<and>
     (m_isSocket c \<longrightarrow> k_nonblock k (int i))"

definition fdm_inv :: "fd_manager \<Rightarrow> bool" where
  "fdm_inv m \<longleftrightarrow> (\<forall>i c. i < length (m_datas m) \<longrightarrow> m_datas m ! i = Some c \<longrightarrow> fd_ctx_ok (kern m) i c)"

definition ctx_at :: "fd_manager \<Rightarrow> int \<Rightarrow> fd_ctx option" where
  "ctx_at m fd = (if 0 \<le> fd \<and> fd < int (length (m_datas m)) then m_datas m ! nat fd else None)"

definition upd_data :: "int \<Rightarrow> (fd_ctx \<Rightarrow> fd_ctx) \<Rightarrow> fd_manager \<Rightarrow> fd_manager" where
  "upd_data fd f m = m\<lparr>m_datas := (m_datas m)[nat fd := map_option f (m_datas m ! nat fd)]\<rparr>"

lemma fdm_invD: "fdm_inv m \<Longrightarrow> ctx_at m fd = Some c \<Longrightarrow> fd_ctx_ok (kern m) (nat fd) c"
  by (auto simp: fdm_inv_def ctx_at_def split: if_splits)

lemma fdm_inv_iff: "fdm_inv m \<longleftrightarrow> (\<forall>fd c. ctx_at m fd = Some c \<longrightarrow> fd_ctx_ok (kern m) (nat fd) c)"
proof
  assume r: "\<forall>fd c. ctx_at m fd = Some c \<longrightarrow> fd_ctx_ok (kern m) (nat fd) c"
  show "fdm_inv m" unfolding fdm_inv_def
  proof (intro allI impI)
    fix i c
    assume "i < length (m_datas m)" "m_datas m ! i = Some c"
    then have "ctx_at m (int i) = Some c" by (simp add: ctx_at_def)
    then show "fd_ctx_ok (kern m) i c" using r by fastforce
  qed
qed (blast intro: fdm_invD)

lemma ctx_at_upd:
  "ctx_at m fd = Some c \<Longrightarrow>
   ctx_at (upd_data fd f m) i = (if i = fd then Some (f c) else ctx_at m i)"
  by (auto simp: ctx_at_def upd_data_def nth_list_update split: if_splits)

lemma kern_upd [simp]: "kern (upd_data fd f m) = kern m"
  by (simp add: upd_data_def)

lemma FdManager_new_inv: "fdm_inv (FdManager_new k)"
  by (simp add: fdm_inv_def FdManager_new_def)

lemma FdCtx_new_eq:
  "FdCtx_new ok k fd =
     ((if k_stat k fd = Some True \<and> \<not> k_nonblock k fd \<and> ok
       then k\<lparr>k_nonblock := (k_nonblock k)(fd := True)\<rparr> else k),
      \<lparr>m_isInit = k_stat k fd \<noteq> None, m_isSocket = k_stat k fd = Some True,
       m_sysNonblock = k_stat k fd = Some True, m_userNonblock = False, m_close = False,
       m_fd = fd, m_recvTimeout = - 1, m_sendTimeout = - 1\<rparr>)"
  by (auto simp: FdCtx_new_def FdCtx_init_def Let_def split: option.splits)

lemma FdCtx_new_ok:
  assumes "FdCtx_new True k fd = (k', c)" "0 \<le> fd"
  shows "fd_ctx_ok k' (nat fd) c" "k_nonblock k' = (k_nonblock k)(fd := k_nonblock k fd \<or> m_isSocket c)"
    "k_stat k' = k_stat k"
  using assms by (auto simp: FdCtx_new_eq fd_ctx_ok_def fun_eq_iff split: if_splits)

lemma ctx_at_create:
  assumes "0 \<le> fd" "ctx_at m fd = None"
  obtains k c m' where "FdCtx_new ok (kern m) fd = (k, c)" "get_create ok m fd = Ret m' (Some c)"
    "kern m' = k" "\<And>i. ctx_at m' i = (if i = fd then Some c else ctx_at m i)"
proof -
  obtain k c where kc: "FdCtx_new ok (kern m) fd = (k, c)" by force
  define n where "n = nat (fd * 3 div 2 + 1)"
  have n: "fd < int n" using assms(1) by (simp add: n_def)
  define ds where "ds = (if int (length (m_datas m)) \<le> fd
      then take n (m_datas m) @ replicate (n - length (m_datas m)) None else m_datas m)"
  define m' where "m' = m\<lparr>m_datas := ds[nat fd := Some c], kern := k\<rparr>"
  have len: "nat fd < length ds" using n assms(1) by (simp add: ds_def nat_less_iff)
  have old: "ds ! i = (if i < length (m_datas m) then m_datas m ! i else None)" if "i < length ds" for i
    using that n by (auto simp: ds_def nth_append)
  have lenle: "length (m_datas m) \<le> length ds" using n by (auto simp: ds_def)
  have "get_create ok m fd = Ret m' (Some c)"
    using assms kc by (auto simp: get_create_def ctx_at_def m'_def ds_def n_def Let_def split: if_splits)
  moreover have "ctx_at m' i = (if i = fd then Some c else ctx_at m i)" for i
    using len old [of "nat i"] lenle assms(1)
    by (auto simp: ctx_at_def m'_def nth_list_update nat_eq_iff)
  ultimately show ?thesis using kc that by (simp add: m'_def)
qed

lemma fdm_get_cases:
  assumes "0 \<le> fd"
  shows "fdm_get ok others m fd auto_create =
    (case ctx_at m fd of Some c \<Rightarrow> Ret m (Some c)
     | None \<Rightarrow> if auto_create then get_create ok (others m) fd else Ret m None)"
  using assms by (auto simp: fdm_get_def get_lookup_def ctx_at_def split: option.splits)

lemma get_create_found:
  "0 \<le> fd \<Longrightarrow> ctx_at m fd = Some c \<Longrightarrow> get_create ok m fd = Ret m (Some c)"
  by (auto simp: get_create_def ctx_at_def split: if_splits)

lemma get_create_inv:
  assumes "fdm_inv m" "0 \<le> fd"
  obtains m' c where "get_create True m fd = Ret m' (Some c)" "fdm_inv m'" "ctx_at m' fd = Some c"
    "\<And>i c. ctx_at m i = Some c \<Longrightarrow> ctx_at m' i = Some c"
proof (cases "ctx_at m fd")
  case (Some c)
  then show ?thesis using get_create_found [OF assms(2) Some] assms(1) that by blast
next
  case None
  from ctx_at_create [OF assms(2) None, of True] obtain k c m' where n:
    "FdCtx_new True (kern m) fd = (k, c)" "get_create True m fd = Ret m' (Some c)"
    "kern m' = k" "\<And>i. ctx_at m' i = (if i = fd then Some c else ctx_at m i)" by metis
  have "fd_ctx_ok k (nat i) d" if "ctx_at m i = Some d" for i d
    using fdm_invD [OF assms(1) that] FdCtx_new_ok(2) [OF n(1) assms(2)] by (auto simp: fd_ctx_ok_def)
  then have "fdm_inv m'" using n FdCtx_new_ok(1) [OF n(1) assms(2)] by (auto simp: fdm_inv_iff)
  moreover have "ctx_at m' i = Some d" if "ctx_at m i = Some d" for i d
    using that None n(4) by auto
  ultimately show ?thesis using n that by auto
qed

lemma fdm_del_eq:
  assumes "0 \<le> fd"
  obtains m' where "fdm_del m fd = Ret m' ()" "kern m' = kern m" "ctx_at m' = (ctx_at m)(fd := None)"
proof (cases "fd < int (length (m_datas m))")
  case True
  then show ?thesis using assms
    by (intro that [of "m\<lparr>m_datas := (m_datas m)[nat fd := None]\<rparr>"])
      (auto simp: fdm_del_def ctx_at_def nth_list_update fun_eq_iff)
next
  case False
  then show ?thesis using assms
    by (intro that [of m]) (auto simp: fdm_del_def ctx_at_def fun_eq_iff)
qed

text \<open>
  C0. \<open>get\<close> with \<open>auto_create\<close> gives a context for every descriptor from 0 on, whatever the other
  threads do between its two critical sections as long as they keep the invariant: the result
  is the context in the table, a context another thread has put there meanwhile is the one that
  is returned, no other context is lost, and every managed socket is non-blocking in the kernel.
\<close>

theorem fd_get_agrees:
  assumes "fdm_inv m" "0 \<le> fd" "\<And>x. fdm_inv x \<Longrightarrow> fdm_inv (others x)"
  shows "\<exists>m' c. fdm_get True others m fd True = Ret m' (Some c) \<and> fdm_inv m' \<and>
    ctx_at m' fd = Some c \<and> m_fd c = fd \<and> (m_isSocket c \<longrightarrow> k_nonblock (kern m') fd) \<and>
    (ctx_at m fd = None \<longrightarrow> (\<forall>d. ctx_at (others m) fd = Some d \<longrightarrow> c = d \<and> m' = others m)) \<and>
    fdm_get True others m' fd auto_create = Ret m' (Some c)"
proof (cases "ctx_at m fd")
  case (Some c)
  then show ?thesis
    using fdm_invD [OF assms(1) Some] assms by (auto simp: fdm_get_cases fd_ctx_ok_def)
next
  case None
  from get_create_inv [OF assms(3) [OF assms(1)] assms(2)] obtain m' c where
    n: "get_create True (others m) fd = Ret m' (Some c)" "fdm_inv m'" "ctx_at m' fd = Some c" by metis
  moreover have "c = d \<and> m' = others m" if "ctx_at (others m) fd = Some d" for d
    using get_create_found [OF assms(2) that, of True] n(1) by simp
  ultimately show ?thesis
    using None fdm_invD [OF n(2,3)] assms(2) by (auto simp: fdm_get_cases fd_ctx_ok_def)
qed

theorem fd_get_agrees_witness:
  "\<exists>m' c. fdm_get True id (FdManager_new \<lparr>k_stat = (\<lambda>_. Some True), k_nonblock = (\<lambda>_. False)\<rparr>) 100 True =
     Ret m' (Some c) \<and> m_fd c = 100 \<and> k_nonblock (kern m') 100"
proof -
  let ?m = "FdManager_new \<lparr>k_stat = (\<lambda>_. Some True), k_nonblock = (\<lambda>_. False)\<rparr>"
  obtain m' c where a: "fdm_get True id ?m 100 True = Ret m' (Some c)" "m_fd c = 100"
    "m_isSocket c \<longrightarrow> k_nonblock (kern m') 100"
    using fd_get_agrees [OF FdManager_new_inv, of 100 id _ True] by fastforce
  moreover have "m_isSocket c"
    using a(1) by (auto simp: fdm_get_def get_lookup_def get_create_def FdCtx_new_eq FdManager_new_def Let_def)
  ultimately show ?thesis by blast
qed

end
