(* ===== verification/Hooks.thy ===== *)
theory Hooks
  imports FdManagers "HOL-Library.Signed_Division"
begin

text \<open>
  Model of \<open>src/Hook.cc\<close>: the replacements of the blocking system calls.

  A call that may wait is a conversation with its surroundings: the system call answers, the
  registration of the event succeeds or not, the fiber is resumed after its timer has fired or
  before. \<open>do_io\<close> and \<open>connect_with_timeout\<close> consume the list of these answers and log what
  they do; they are \<open>Waiting\<close> when the list ends first. The other replacements do not wait and
  are single steps on the thread's state. The system call itself is an argument: its result,
  and for calls that change a flag of the descriptor its success.
\<close>

section \<open>Constants of the platform\<close>

definition EINTR :: int where "EINTR = 4"
definition EBADF :: int where "EBADF = 9"
definition EAGAIN :: int where "EAGAIN = 11"
definition EPIPE :: int where "EPIPE = 32"
definition ECONNRESET :: int where "ECONNRESET = 104"
definition ETIMEDOUT :: int where "ETIMEDOUT = 110"
definition EINPROGRESS :: int where "EINPROGRESS = 115"
definition O_NONBLOCK :: u32 where "O_NONBLOCK = 0x800"
definition FIONBIO :: u64 where "FIONBIO = 0x5421"
definition SOL_SOCKET :: int where "SOL_SOCKET = 1"

lemmas errno_defs = EINTR_def EBADF_def EAGAIN_def EPIPE_def ECONNRESET_def ETIMEDOUT_def EINPROGRESS_def

section \<open>State of a thread\<close>

record 'c hook_env =
  t_hook_enable :: bool
  fdm :: fd_manager
  iom :: "'c iomanager option"
  errno :: int

datatype hook_error = hook_assertion

type_synonym ('c, 'a) hook_result = "('c hook_env, hook_error, 'a) outcome"

definition IsHookEnable :: "'c hook_env \<Rightarrow> bool" where
  "IsHookEnable e = t_hook_enable e"

definition SetHookEnable :: "'c hook_env \<Rightarrow> bool \<Rightarrow> 'c hook_env" where
  "SetHookEnable e flag = e\<lparr>t_hook_enable := flag\<rparr>"

text \<open>Calls of the two managers from a hook.\<close>

fun on_fdm :: "'c hook_env \<Rightarrow> (fd_manager, unit, 'a) outcome
    \<Rightarrow> ('c hook_env \<Rightarrow> 'a \<Rightarrow> ('c, 'b) hook_result) \<Rightarrow> ('c, 'b) hook_result" where
  "on_fdm e (Ret m a) k = k (e\<lparr>fdm := m\<rparr>) a"
| "on_fdm e (Thr m _) k = Thr (e\<lparr>fdm := m\<rparr>) hook_assertion"
| "on_fdm e Ub k = Ub"

fun on_iom :: "'c hook_env \<Rightarrow> ('c, 'a) iom_result
    \<Rightarrow> ('c hook_env \<Rightarrow> ('c, 'b) hook_result) \<Rightarrow> ('c, 'b) hook_result" where
  "on_iom e (Ret m _) k = k (e\<lparr>iom := Some m\<rparr>)"
| "on_iom e (Thr m _) k = Thr (e\<lparr>iom := Some m\<rparr>) hook_assertion"
| "on_iom e Ub k = Ub"

section \<open>Input and output\<close>

datatype io_answer =
  Sys int int        \<comment> \<open>a system call: its result and, when it failed, the error number\<close>
| Reg bool int       \<comment> \<open>the registration of the event, and the error number after it\<close>
| Woken bool         \<comment> \<open>the fiber is resumed; whether its timer had fired by then\<close>
| So_error int int int  \<comment> \<open>\<open>getsockopt(SO_ERROR)\<close>: result, error number, value\<close>

datatype io_action = Called | Armed u64 | Disarmed | Registered event | Yielded

datatype io_result = Done int int "io_action list" | Waiting "io_action list" | Undefined

definition set_errno :: "int \<Rightarrow> int \<Rightarrow> int \<Rightarrow> int" where
  "set_errno ret e err = (if ret < 0 then e else err)"

text \<open>The loop that repeats an interrupted call.\<close>

fun retry_eintr ::
  "int \<Rightarrow> int \<Rightarrow> io_answer list \<Rightarrow> io_action list \<Rightarrow> (int \<times> int \<times> io_answer list \<times> io_action list) option"
where
  "retry_eintr ret err (Sys r e # xs) acts =
     (if ret = - 1 \<and> err = EINTR then retry_eintr r (set_errno r e err) xs (acts @ [Called])
      else Some (ret, err, Sys r e # xs, acts))"
| "retry_eintr ret err xs acts =
     (if ret = - 1 \<and> err = EINTR then None else Some (ret, err, xs, acts))"

lemma retry_eintr_shorter:
  "retry_eintr ret err xs acts = Some (r, e, ys, bs) \<Longrightarrow> length ys \<le> length xs"
  by (induction ret err xs acts rule: retry_eintr.induct) (auto split: if_splits)

definition armed :: "u64 \<Rightarrow> io_action list" where
  "armed timeout = (if timeout \<noteq> - 1 then [Armed timeout] else [])"

definition disarmed :: "u64 \<Rightarrow> io_action list" where
  "disarmed timeout = (if timeout \<noteq> - 1 then [Disarmed] else [])"

text \<open>
  The body from the label \<open>retry\<close>. \<open>has_iom\<close> tells whether the thread has an IOManager; its
  methods are called on a null pointer otherwise.
\<close>

function (sequential) do_io_loop ::
  "bool \<Rightarrow> event \<Rightarrow> u64 \<Rightarrow> int \<Rightarrow> io_answer list \<Rightarrow> io_action list \<Rightarrow> io_result" where
  "do_io_loop has_iom ev timeout err (Sys ret e # xs) acts =
     (let acts = acts @ [Called]; err = set_errno ret e err in
      if ret \<ge> 0 then Done ret err acts
      else case retry_eintr ret err xs acts of
        None \<Rightarrow> Waiting acts
      | Some (ret, err, ys, acts) \<Rightarrow>
          if err = ECONNRESET \<or> err = EPIPE then Done ret err acts
          else if err = EAGAIN then
            if \<not> has_iom then Undefined
            else (case ys of
              Reg rt e1 # Woken fired # zs \<Rightarrow>
                if \<not> rt then Done (- 1) e1 (acts @ armed timeout @ [Registered ev] @ disarmed timeout)
                else
                  let acts = acts @ armed timeout @ [Registered ev, Yielded] @ disarmed timeout in
                  if fired \<and> timeout \<noteq> - 1 then Done (- 1) ETIMEDOUT acts
                  else do_io_loop has_iom ev timeout err zs acts
            | Reg rt e1 # zs \<Rightarrow>
                if \<not> rt then Done (- 1) e1 (acts @ armed timeout @ [Registered ev] @ disarmed timeout)
                else Waiting (acts @ armed timeout @ [Registered ev, Yielded])
            | _ \<Rightarrow> Waiting acts)
          else Done ret err acts)"
| "do_io_loop has_iom ev timeout err xs acts = Waiting acts"
  by pat_completeness auto
termination
  by (relation "measure (\<lambda>(h, ev, t, e, xs, a). length xs)") (auto dest!: retry_eintr_shorter)

definition direct :: "int \<Rightarrow> io_answer list \<Rightarrow> io_result" where
  "direct err xs = (case xs of Sys ret e # _ \<Rightarrow> Done ret (set_errno ret e err) [Called] | _ \<Rightarrow> Waiting [])"

definition do_io :: "'c hook_env \<Rightarrow> int \<Rightarrow> event \<Rightarrow> int \<Rightarrow> io_answer list \<Rightarrow> io_result" where
  "do_io e fd event timeout_ms xs =
     (if \<not> IsHookEnable e then direct (errno e) xs
      else case fdm_get True id (fdm e) fd False of
        Ret _ None \<Rightarrow> direct (errno e) xs
      | Ret _ (Some c) \<Rightarrow>
          (if m_close c then Done (- 1) EBADF []
           else if \<not> m_isSocket c \<or> m_userNonblock c then direct (errno e) xs
           else do_io_loop (iom e \<noteq> None) event (getTimeout c timeout_ms) (errno e) xs [])
      | _ \<Rightarrow> Undefined)"

text \<open>The calls that are \<open>do_io\<close> with a direction and the time-out of that direction.\<close>

definition hook_read :: "'c hook_env \<Rightarrow> int \<Rightarrow> io_answer list \<Rightarrow> io_result" where
  "hook_read e fd xs = do_io e fd READ SO_RCVTIMEO xs"

definition hook_write :: "'c hook_env \<Rightarrow> int \<Rightarrow> io_answer list \<Rightarrow> io_result" where
  "hook_write e fd xs = do_io e fd WRITE SO_SNDTIMEO xs"

text \<open>The callback of the timer of a waiting call: \<open>canceled\<close> is the field behind the weak
  pointer, \<open>None\<close> when the call is over.\<close>

definition io_timeout_cb ::
  "bool \<Rightarrow> int option \<Rightarrow> 'c iomanager \<Rightarrow> int \<Rightarrow> event \<Rightarrow> ('c, int option) iom_result" where
  "io_timeout_cb ok canceled m fd event =
     (case canceled of
        None \<Rightarrow> Ret m None
      | Some n \<Rightarrow>
          (if n \<noteq> 0 then Ret m (Some n)
           else obind (cancelEvent ok m fd event) (\<lambda>m _. Ret m (Some ETIMEDOUT))))"

definition hook_accept ::
  "bool \<Rightarrow> 'c hook_env \<Rightarrow> int \<Rightarrow> io_answer list \<Rightarrow> ('c, int option) hook_result" where
  "hook_accept ok e s xs =
     (case do_io e s READ SO_RCVTIMEO xs of
        Done fd err _ \<Rightarrow>
          (if fd \<ge> 0 then on_fdm (e\<lparr>errno := err\<rparr>) (fdm_get ok id (fdm e) fd True) (\<lambda>e _. Ret e (Some fd))
           else Ret (e\<lparr>errno := err\<rparr>) (Some fd))
      | Waiting _ \<Rightarrow> Ret e None
      | Undefined \<Rightarrow> Ub)"

definition connect_with_timeout :: "'c hook_env \<Rightarrow> int \<Rightarrow> u64 \<Rightarrow> io_answer list \<Rightarrow> io_result" where
  "connect_with_timeout e fd timeout_ms xs =
     (if \<not> IsHookEnable e then direct (errno e) xs
      else case fdm_get True id (fdm e) fd False of
        Ret _ None \<Rightarrow> Done (- 1) EBADF []
      | Ret _ (Some c) \<Rightarrow>
          (if m_close c then Done (- 1) EBADF []
           else if \<not> m_isSocket c \<or> m_userNonblock c then direct (errno e) xs
           else (case xs of
               Sys n en # ys \<Rightarrow>
                 let err = set_errno n en (errno e) in
                 if n = 0 then Done n err [Called]
                 else if n \<noteq> - 1 \<or> err \<noteq> EINPROGRESS then Done n err [Called]
                 else if iom e = None then Undefined
                 else (case ys of
                     Reg False e1 # zs \<Rightarrow>
                       Done (- 1) e1 ([Called] @ armed timeout_ms @ [Registered WRITE] @ disarmed timeout_ms)
                   | Reg True e1 # Woken fired # zs \<Rightarrow>
                       let acts = [Called] @ armed timeout_ms @ [Registered WRITE, Yielded] @ disarmed timeout_ms in
                       if fired \<and> timeout_ms \<noteq> - 1 then Done (- 1) ETIMEDOUT acts
                       else (case zs of
                           So_error r e2 error # ws \<Rightarrow>
                             if r = - 1 then Done (- 1) e2 acts
                             else if error = 0 then Done 0 err acts
                             else Done (- 1) error acts
                         | _ \<Rightarrow> Waiting acts)
                   | _ \<Rightarrow> Waiting [Called])
             | _ \<Rightarrow> Waiting []))
      | _ \<Rightarrow> Undefined)"

section \<open>Opening and closing\<close>

definition hook_socket :: "bool \<Rightarrow> 'c hook_env \<Rightarrow> int \<Rightarrow> ('c, int) hook_result" where
  "hook_socket ok e fd =
     (if \<not> IsHookEnable e then Ret e fd
      else if fd < 0 then Ret e fd
      else on_fdm e (fdm_get ok id (fdm e) fd True) (\<lambda>e _. Ret e fd))"

text \<open>\<open>ret\<close> is the result of the system call, \<open>ok\<close> the success of \<open>epoll_ctl\<close> in \<open>cancelAll\<close>.\<close>

definition hook_close :: "bool \<Rightarrow> 'c hook_env \<Rightarrow> int \<Rightarrow> int \<Rightarrow> ('c, int) hook_result" where
  "hook_close ok e fd ret =
     (if \<not> IsHookEnable e then Ret e ret
      else on_fdm e (fdm_get True id (fdm e) fd False) (\<lambda>e ctx.
        case ctx of
          None \<Rightarrow> Ret e ret
        | Some c \<Rightarrow>
            let e = e\<lparr>fdm := upd_data fd (\<lambda>c. c\<lparr>m_close := True\<rparr>) (fdm e)\<rparr>;
                finish = (\<lambda>e. on_fdm e (fdm_del (fdm e) fd) (\<lambda>e _. Ret e ret))
            in case iom e of
                 None \<Rightarrow> finish e
               | Some m \<Rightarrow> on_iom e (cancelAll ok m fd) finish))"

section \<open>Flags and options\<close>

text \<open>
  \<open>managed e fd\<close> is the context of an open socket, the guard that \<open>fcntl\<close> and \<open>ioctl\<close> share.
\<close>

definition managed :: "'c hook_env \<Rightarrow> int \<Rightarrow> ('c, fd_ctx option) hook_result" where
  "managed e fd = on_fdm e (fdm_get True id (fdm e) fd False) (\<lambda>e ctx.
     Ret e (case ctx of None \<Rightarrow> None
            | Some c \<Rightarrow> if m_close c \<or> \<not> m_isSocket c then None else Some c))"

definition set_kernel_nonblock :: "int \<Rightarrow> bool \<Rightarrow> 'c hook_env \<Rightarrow> 'c hook_env" where
  "set_kernel_nonblock fd b e =
     e\<lparr>fdm := (fdm e)\<lparr>kern := (kern (fdm e))\<lparr>k_nonblock := (k_nonblock (kern (fdm e)))(fd := b)\<rparr>\<rparr>\<rparr>"

text \<open>
  The system's \<open>fcntl\<close> for the two commands on status flags, of which the model tracks
  \<open>O_NONBLOCK\<close>: \<open>ans\<close> is the result of the call, for \<open>F_GETFL\<close> with the other flags in it.
\<close>

definition fcntl_setfl :: "int \<Rightarrow> int \<Rightarrow> u32 \<Rightarrow> 'c hook_env \<Rightarrow> 'c hook_env \<times> int" where
  "fcntl_setfl ans fd flags e =
     (if ans = - 1 then (e, - 1) else (set_kernel_nonblock fd (flags AND O_NONBLOCK \<noteq> 0) e, ans))"

definition fcntl_getfl :: "u32 \<Rightarrow> int \<Rightarrow> 'c hook_env \<Rightarrow> u32" where
  "fcntl_getfl ans fd e =
     (if ans = - 1 then - 1
      else if k_nonblock (kern (fdm e)) fd then ans OR O_NONBLOCK else ans AND (NOT O_NONBLOCK))"

text \<open>
  The command and what the system's \<open>fcntl\<close> is passed for it. The code reads the argument with
  \<open>va_arg\<close> from a list it never started; \<open>va\<close> is what that read delivers, \<open>None\<close> when the
  platform makes it undefined.
\<close>

datatype fcntl_result = Flags u32 | Result int | Passed nat "int option"

definition F_GETFL :: nat where "F_GETFL = 3"
definition F_SETFL :: nat where "F_SETFL = 4"

text \<open>\<open>F_DUPFD\<close>, \<open>F_DUPFD_CLOEXEC\<close>, \<open>F_SETFD\<close>, \<open>F_SETOWN\<close>, \<open>F_SETSIG\<close>, \<open>F_SETLEASE\<close>, \<open>F_NOTIFY\<close>,
  \<open>F_SETPIPE_SZ\<close>; then \<open>F_SETLK\<close>, \<open>F_SETLKW\<close>, \<open>F_GETLK\<close>; then \<open>F_GETOWN_EX\<close>, \<open>F_SETOWN_EX\<close>.\<close>

definition arg_cmds :: "nat list" where
  "arg_cmds = [0, 1030, 2, 8, 10, 1024, 1026, 1031] @ [6, 7, 5] @ [16, 15]"

definition hook_fcntl ::
  "int \<Rightarrow> int option \<Rightarrow> 'c hook_env \<Rightarrow> int \<Rightarrow> nat \<Rightarrow> ('c, fcntl_result) hook_result" where
  "hook_fcntl ans va e fd cmd =
     (if cmd = F_SETFL then
        (case va of
           None \<Rightarrow> Ub
         | Some v \<Rightarrow> obind (managed e fd) (\<lambda>e ctx.
             case ctx of
               None \<Rightarrow> let (e, r) = fcntl_setfl ans fd (word_of_int v) e in Ret e (Result r)
             | Some c \<Rightarrow>
                 let arg = word_of_int v :: u32;
                     e = e\<lparr>fdm := upd_data fd (\<lambda>c. c\<lparr>m_userNonblock := (arg AND O_NONBLOCK \<noteq> 0)\<rparr>) (fdm e)\<rparr>;
                     arg = (if m_sysNonblock c then arg OR O_NONBLOCK else arg AND (NOT O_NONBLOCK));
                     (e, r) = fcntl_setfl ans fd arg e
                 in Ret e (Result r)))
      else if cmd = F_GETFL then
        (let arg = fcntl_getfl (word_of_int ans) fd e in
         obind (managed e fd) (\<lambda>e ctx.
           case ctx of
             None \<Rightarrow> Ret e (Flags arg)
           | Some c \<Rightarrow> Ret e (Flags (if m_userNonblock c then arg OR O_NONBLOCK
                                     else arg AND (NOT O_NONBLOCK)))))
      else if cmd \<in> set arg_cmds then
        (case va of None \<Rightarrow> Ub | Some v \<Rightarrow> Ret e (Passed cmd (Some v)))
      else Ret e (Passed cmd None))"

text \<open>\<open>arg\<close> is the integer the caller's pointer refers to.\<close>

definition hook_ioctl ::
  "int \<Rightarrow> 'c hook_env \<Rightarrow> int \<Rightarrow> u64 \<Rightarrow> int \<Rightarrow> ('c, int) hook_result" where
  "hook_ioctl ans e d request arg =
     (let ioctl_f = (\<lambda>e. if request = FIONBIO \<and> ans \<noteq> - 1 then set_kernel_nonblock d (arg \<noteq> 0) e else e) in
      if request = FIONBIO then
        obind (managed e d) (\<lambda>e ctx.
          case ctx of
            None \<Rightarrow> Ret (ioctl_f e) ans
          | Some c \<Rightarrow>
              Ret (ioctl_f (e\<lparr>fdm := upd_data d (\<lambda>c. c\<lparr>m_userNonblock := (arg \<noteq> 0)\<rparr>) (fdm e)\<rparr>)) ans)
      else Ret (ioctl_f e) ans)"

text \<open>\<open>sec\<close> and \<open>usec\<close> are the fields of the \<open>timeval\<close>.\<close>

definition hook_setsockopt ::
  "'c hook_env \<Rightarrow> int \<Rightarrow> int \<Rightarrow> int \<Rightarrow> int \<Rightarrow> int \<Rightarrow> int \<Rightarrow> ('c, int) hook_result" where
  "hook_setsockopt e sockfd level optname sec usec ans =
     (if t_hook_enable e \<and> level = SOL_SOCKET \<and> (optname = SO_RCVTIMEO \<or> optname = SO_SNDTIMEO) then
        on_fdm e (fdm_get True id (fdm e) sockfd False) (\<lambda>e ctx.
          case ctx of
            None \<Rightarrow> Ret e ans
          | Some c \<Rightarrow>
              Ret (e\<lparr>fdm := upd_data sockfd
                     (\<lambda>c. setTimeout c optname (word_of_int (sec * 1000 + usec sdiv 1000))) (fdm e)\<rparr>) ans)
      else Ret e ans)"

section \<open>Sleeping\<close>

text \<open>
  The delays that reach the timer: \<open>sleep\<close> multiplies in 32 bits, \<open>usleep\<close> divides, \<open>nanosleep\<close>
  narrows to \<open>int\<close> before the value is widened to 64 bits.
\<close>

definition sleep_ms :: "u32 \<Rightarrow> u64" where
  "sleep_ms seconds = ucast (seconds * 1000)"

definition usleep_ms :: "u32 \<Rightarrow> u64" where
  "usleep_ms usec = ucast (usec div 1000)"

definition nanosleep_ms :: "int \<Rightarrow> int \<Rightarrow> u64" where
  "nanosleep_ms tv_sec tv_nsec =
     word_of_int (sint (word_of_int (tv_sec * 1000 + tv_nsec sdiv 1000 sdiv 1000) :: u32))"

text \<open>
  The common body: a one-shot timer (at address \<open>a\<close>) that pushes the current fiber, and a
  yield. The callbacks of this timer manager are the fibers to push.
\<close>

definition sleep_on ::
  "u64 \<Rightarrow> u64 \<Rightarrow> nat \<Rightarrow> nat timer_manager \<Rightarrow> 'c fiber_env
    \<Rightarrow> ('c fiber_env, fiber_error, nat timer_manager) outcome" where
  "sleep_on ms now a tm fe =
     (case fiber_GetThis fe of
        None \<Rightarrow> Thr fe assertion_failed
      | Some f \<Rightarrow>
          let tm = fst (addTimer tm now a ms (Some (Plain f)) False)
          in omap (\<lambda>_. tm) (YieldToHold fe))"

definition hook_sleep ::
  "'d hook_env \<Rightarrow> u64 \<Rightarrow> nat \<Rightarrow> nat timer_manager \<Rightarrow> 'c fiber_env \<Rightarrow> u32 \<Rightarrow> u32
    \<Rightarrow> ('c fiber_env, fiber_error, nat timer_manager \<times> u32) outcome" where
  "hook_sleep e now a tm fe ans seconds =
     (if \<not> IsHookEnable e then Ret fe (tm, ans)
      else omap (\<lambda>tm. (tm, 0)) (sleep_on (sleep_ms seconds) now a tm fe))"

definition hook_usleep ::
  "'d hook_env \<Rightarrow> u64 \<Rightarrow> nat \<Rightarrow> nat timer_manager \<Rightarrow> 'c fiber_env \<Rightarrow> int \<Rightarrow> u32
    \<Rightarrow> ('c fiber_env, fiber_error, nat timer_manager \<times> int) outcome" where
  "hook_usleep e now a tm fe ans usec =
     (if \<not> IsHookEnable e then Ret fe (tm, ans)
      else omap (\<lambda>tm. (tm, 0)) (sleep_on (usleep_ms usec) now a tm fe))"

definition hook_nanosleep ::
  "'d hook_env \<Rightarrow> u64 \<Rightarrow> nat \<Rightarrow> nat timer_manager \<Rightarrow> 'c fiber_env \<Rightarrow> int \<Rightarrow> int \<Rightarrow> int
    \<Rightarrow> ('c fiber_env, fiber_error, nat timer_manager \<times> int) outcome" where
  "hook_nanosleep e now a tm fe ans tv_sec tv_nsec =
     (if \<not> IsHookEnable e then Ret fe (tm, ans)
      else omap (\<lambda>tm. (tm, 0)) (sleep_on (nanosleep_ms tv_sec tv_nsec) now a tm fe))"

section \<open>Lemmas\<close>

text \<open>System calls answer with \<open>-1\<close> or a count.\<close>

definition answers_ok :: "io_answer list \<Rightarrow> bool" where
  "answers_ok xs \<longleftrightarrow> (\<forall>x \<in> set xs. case x of Sys r n \<Rightarrow> - 1 \<le> r | _ \<Rightarrow> True)"

lemma answers_ok_simps [simp]:
  "answers_ok []" "answers_ok (Sys r n # xs) \<longleftrightarrow> - 1 \<le> r \<and> answers_ok xs"
  "answers_ok (Reg b n # xs) \<longleftrightarrow> answers_ok xs" "answers_ok (Woken f # xs) \<longleftrightarrow> answers_ok xs"
  by (simp_all add: answers_ok_def)

lemma answers_ok_subset: "answers_ok xs \<Longrightarrow> set ys \<subseteq> set xs \<Longrightarrow> answers_ok ys"
  by (auto simp: answers_ok_def)

lemma neg_answer: "- 1 \<le> (r :: int) \<Longrightarrow> r < 0 \<longleftrightarrow> r = - 1"
  by auto

lemma retry_eintr_spec:
  assumes "retry_eintr ret err xs acts = Some (r, e, ys, bs)" "ret = - 1 \<or> err = EINTR"
    "answers_ok xs"
  shows "\<not> (r = - 1 \<and> e = EINTR)" "r = - 1 \<or> e = EINTR" "set ys \<subseteq> set xs"
    "\<exists>k. bs = acts @ replicate k Called" "(r = ret \<and> e = err) \<or> (\<exists>n. Sys r n \<in> set xs)"
  using assms
proof (induction ret err xs acts rule: retry_eintr.induct)
  case (1 ret err r1 e1 xs acts)
  {
    case 1 then show ?case using "1.IH"(1) "1.prems" by (auto simp: set_errno_def neg_answer split: if_splits)
  next
    case 2 then show ?case using "1.IH"(2) by (auto simp: set_errno_def neg_answer split: if_splits)
  next
    case 3 then show ?case using "1.IH"(3) by (auto simp: set_errno_def neg_answer split: if_splits)
  next
    case 4
    show ?case
    proof (cases "ret = - 1 \<and> err = EINTR")
      case True
      have "r1 = - 1 \<or> set_errno r1 e1 err = EINTR" using True 4 by (auto simp: set_errno_def)
      then have "\<exists>k. bs = (acts @ [Called]) @ replicate k Called"
        using "1.IH"(4) [OF True] 4 True by simp
      then obtain k where "bs = (acts @ [Called]) @ replicate k Called" ..
      then show ?thesis by (intro exI [of _ "Suc k"]) simp
    qed (use 4 in \<open>auto intro: exI [of _ 0]\<close>)
  next
    case 5 then show ?case using "1.IH"(5) by (auto simp: set_errno_def neg_answer split: if_splits)
  }
qed (auto split: if_splits intro: exI [of _ 0])

text \<open>The last timer that was armed has been disarmed.\<close>

definition balanced :: "io_action list \<Rightarrow> bool" where
  "balanced acts \<longleftrightarrow>
     length (filter (\<lambda>a. a \<in> range Armed) acts) = length (filter (\<lambda>a. a = Disarmed) acts)"

lemma called_only:
  "filter (\<lambda>a. a \<in> range Armed) (replicate k Called) = []"
  "filter (\<lambda>a. a = Disarmed) (replicate k Called) = []"
  by (auto simp: filter_empty_conv)

lemma balanced_simps [simp]:
  "balanced []" "balanced [Called]"
  "balanced (acts @ [Called]) = balanced acts"
  "balanced (acts @ replicate k Called) = balanced acts"
  "balanced (acts @ Called # replicate k Called) = balanced acts"
  "balanced (acts @ armed t @ [Registered v] @ disarmed t) = balanced acts"
  "balanced (acts @ armed t @ [Registered v, Yielded] @ disarmed t) = balanced acts"
  "balanced (acts @ armed t @ Registered v # disarmed t) = balanced acts"
  "balanced (acts @ armed t @ Registered v # Yielded # disarmed t) = balanced acts"
  by (auto simp: balanced_def armed_def disarmed_def called_only)

lemma do_io_loop_spec:
  assumes "do_io_loop h ev t err0 xs acts0 = Done ret err acts"
    and "answers_ok xs"
    and "\<And>b n. Reg b n \<in> set xs \<Longrightarrow> b"
    and "balanced acts0"
  shows "balanced acts \<and> (ret < 0 \<longrightarrow> err \<noteq> EAGAIN \<and> err \<noteq> EINTR) \<and>
    ((\<exists>n. Sys ret n \<in> set xs) \<or> t \<noteq> - 1 \<and> ret = - 1 \<and> err = ETIMEDOUT)"
  using assms
proof (induction "length xs" arbitrary: xs err0 acts0 rule: less_induct)
  case (less zs0 err0 acts0)
  obtain r0 e0 xs where zs0: "zs0 = Sys r0 e0 # xs"
    using less.prems(1) by (cases "(h, ev, t, err0, zs0, acts0)" rule: do_io_loop.cases) auto
  note prems = less.prems [unfolded zs0]
  have r0: "- 1 \<le> r0" and ok: "answers_ok xs" using prems(2) by simp_all
  show ?case
  proof (cases "0 \<le> r0")
    case True
    then show ?thesis using prems zs0 by auto
  next
    case False
    then have m: "r0 = - 1" using r0 by simp
    show ?thesis
    proof (cases "retry_eintr r0 e0 xs (acts0 @ [Called])")
      case None
      then show ?thesis using prems(1) m by (simp add: set_errno_def)
    next
      case (Some p)
      obtain r e ys bs where p: "p = (r, e, ys, bs)" by (cases p)
      have n0: "\<not> 0 \<le> r0" using False .
      note eq = Some [unfolded p]
      note sp = retry_eintr_spec [OF eq disjI1 [OF m] ok]
      have bb: "balanced bs" using sp(4) prems(4) by auto
      have rs: "\<exists>n. Sys r n \<in> set (Sys r0 e0 # xs)" using sp(5) by auto
      then have rg: "- 1 \<le> r" using prems(2) by (auto simp: answers_ok_def)
      show ?thesis
      proof (cases "e = EAGAIN")
        case False
        then show ?thesis
          using prems(1) m eq sp(1,2) bb rs rg neg_answer [OF rg]
          by (auto simp: set_errno_def errno_defs zs0 split: if_splits)
      next
        case ag: True
        then have rm: "r = - 1" using sp(2) by (auto simp: errno_defs)
        from prems(1) m eq ag obtain rt e1 zs where ys: "ys = Reg rt e1 # zs"
          by (auto simp: set_errno_def errno_defs split: if_splits list.splits io_answer.splits)
        have rt: rt using prems(3) sp(3) ys by auto
        from prems(1) m eq ag ys rt obtain fired ws where zs: "zs = Woken fired # ws"
          by (auto simp: set_errno_def errno_defs split: if_splits list.splits io_answer.splits)
        have sub: "set ws \<subseteq> set xs" and okw: "answers_ok ws"
          using sp(3) ys zs answers_ok_subset [OF ok, of ws] by auto
        show ?thesis
        proof (cases "fired \<and> t \<noteq> - 1")
          case True
          then show ?thesis using prems(1) m eq ag ys zs rt bb
            by (auto simp: set_errno_def errno_defs split: if_splits)
        next
          case no: False
          have h: h using prems(1) m eq ag by (auto simp: set_errno_def errno_defs split: if_splits)
          have go: "do_io_loop h ev t e ws (bs @ armed t @ [Registered ev, Yielded] @ disarmed t) =
              Done ret err acts"
            using prems(1) m eq ag ys zs rt no h by (auto simp: set_errno_def errno_defs)
          have "balanced acts \<and> (ret < 0 \<longrightarrow> err \<noteq> EAGAIN \<and> err \<noteq> EINTR) \<and>
              ((\<exists>n. Sys ret n \<in> set ws) \<or> t \<noteq> - 1 \<and> ret = - 1 \<and> err = ETIMEDOUT)"
            by (rule less.hyps [OF _ go okw])
              (use prems(3) retry_eintr_shorter [OF eq] ys zs sub bb zs0 in auto)
          then show ?thesis using sub zs0 by auto
        qed
      qed
    qed
  qed
qed

lemma managed_do_io:
  assumes "IsHookEnable e" "ctx_at (fdm e) fd = Some c" "m_isSocket c" "\<not> m_userNonblock c" "\<not> m_close c"
  shows "do_io e fd event typ xs = do_io_loop (iom e \<noteq> None) event (getTimeout c typ) (errno e) xs []"
proof -
  have "0 \<le> fd" using assms(2) by (auto simp: ctx_at_def split: if_splits)
  then show ?thesis using assms by (simp add: do_io_def fdm_get_cases)
qed

lemma managed_eq:
  assumes "ctx_at (fdm e) fd = Some c" "m_isSocket c" "\<not> m_close c"
  shows "managed e fd = Ret e (Some c)"
proof -
  have "0 \<le> fd" using assms(1) by (auto simp: ctx_at_def split: if_splits)
  then show ?thesis using assms by (simp add: managed_def fdm_get_cases)
qed

text \<open>A wait that ends because the event came, repeated \<open>n\<close> times.\<close>

lemma do_io_loop_waits:
  "do_io_loop True ev t err (concat (replicate n [Sys (- 1) EAGAIN, Reg True e1, Woken False]) @ [Sys r 0]) acts =
     (if 0 \<le> r
      then Done r (if n = 0 then err else EAGAIN)
        (acts @ concat (replicate n ([Called] @ armed t @ [Registered ev, Yielded] @ disarmed t)) @ [Called])
      else do_io_loop True ev t (if n = 0 then err else EAGAIN) [Sys r 0]
        (acts @ concat (replicate n ([Called] @ armed t @ [Registered ev, Yielded] @ disarmed t))))"
  by (induction n arbitrary: err acts) (auto simp: set_errno_def errno_defs)

lemma set_kernel_nonblock_simps [simp]:
  "ctx_at (fdm (set_kernel_nonblock fd b e)) = ctx_at (fdm e)"
  "k_nonblock (kern (fdm (set_kernel_nonblock fd b e))) = (k_nonblock (kern (fdm e)))(fd := b)"
  "t_hook_enable (set_kernel_nonblock fd b e) = t_hook_enable e"
  "iom (set_kernel_nonblock fd b e) = iom e" "errno (set_kernel_nonblock fd b e) = errno e"
  by (simp_all add: set_kernel_nonblock_def ctx_at_def fun_eq_iff)

section \<open>Properties\<close>

text \<open>C21. To its caller a hooked call blocks: on a managed socket it hides "try again" and
  "interrupted", its result is the result of one of the system calls it made or the time-out
  it was given, and it leaves no timer armed behind, as long as the event can be registered.\<close>

theorem do_io_blocks:
  assumes "IsHookEnable e" "ctx_at (fdm e) fd = Some c" "m_isSocket c" "\<not> m_userNonblock c" "\<not> m_close c"
    and "do_io e fd ev typ xs = Done ret err acts"
    and "answers_ok xs" "\<forall>b n. Reg b n \<in> set xs \<longrightarrow> b"
  shows "balanced acts \<and> (ret < 0 \<longrightarrow> err \<noteq> EAGAIN \<and> err \<noteq> EINTR) \<and>
    ((\<exists>n. Sys ret n \<in> set xs) \<or> getTimeout c typ \<noteq> - 1 \<and> ret = - 1 \<and> err = ETIMEDOUT)"
proof -
  have "do_io_loop (iom e \<noteq> None) ev (getTimeout c typ) (errno e) xs [] = Done ret err acts"
    using assms(6) managed_do_io [OF assms(1-5)] by simp
  from do_io_loop_spec [OF this assms(7)] assms(8) show ?thesis by auto
qed

definition one_socket :: "'c hook_env" where
  "one_socket = \<lparr>t_hook_enable = True,
     fdm = \<lparr>m_datas = [None, None, None, Some \<lparr>m_isInit = True, m_isSocket = True, m_sysNonblock = True,
              m_userNonblock = False, m_close = False, m_fd = 3, m_recvTimeout = - 1, m_sendTimeout = 20\<rparr>],
            kern = \<lparr>k_stat = (\<lambda>_. Some True), k_nonblock = (\<lambda>_. True)\<rparr>\<rparr>,
     iom = Some IOManager_new, errno = 0\<rparr>"

lemma one_socket_simps [simp]:
  "IsHookEnable one_socket" "iom one_socket = Some IOManager_new" "fdm_inv (fdm one_socket)"
  "ctx_at (fdm one_socket) 3 = Some \<lparr>m_isInit = True, m_isSocket = True, m_sysNonblock = True,
     m_userNonblock = False, m_close = False, m_fd = 3, m_recvTimeout = - 1, m_sendTimeout = 20\<rparr>"
  by (auto simp: one_socket_def IsHookEnable_def ctx_at_def fdm_inv_def fd_ctx_ok_def
      less_Suc_eq nth_Cons split: nat.splits)

lemma one_socket_write:
  "do_io one_socket 3 WRITE SO_SNDTIMEO
     [Sys (- 1) EINTR, Sys (- 1) EAGAIN, Reg True 0, Woken True] =
   Done (- 1) ETIMEDOUT [Called, Called, Armed 20, Registered WRITE, Yielded, Disarmed]"
  by (simp add: managed_do_io getTimeout_def SO_SNDTIMEO_def SO_RCVTIMEO_def set_errno_def errno_defs
      armed_def disarmed_def)

theorem do_io_blocks_witness:
  "balanced [Called, Called, Armed 20, Registered WRITE, Yielded, Disarmed]"
  by (rule do_io_blocks [OF one_socket_simps(1,4) _ _ _ one_socket_write, THEN conjunct1])
    (simp_all add: answers_ok_def errno_defs)

text \<open>C22. A hooked call returns the data once they are there: after any number of wake-ups
  without data, each answered by a new registration and, with a time-out, a new timer for the
  full time, the count the system call then delivers is the result.\<close>

theorem do_io_returns_data:
  assumes "IsHookEnable e" "ctx_at (fdm e) fd = Some c" "m_isSocket c" "\<not> m_userNonblock c" "\<not> m_close c"
    and "iom e \<noteq> None" "0 \<le> r"
  shows "\<exists>err. do_io e fd ev typ
      (concat (replicate n [Sys (- 1) EAGAIN, Reg True e1, Woken False]) @ [Sys r 0]) =
    Done r err (concat (replicate n ([Called] @ armed (getTimeout c typ) @ [Registered ev, Yielded] @
      disarmed (getTimeout c typ))) @ [Called])"
  using assms(6,7) by (simp add: managed_do_io [OF assms(1-5)] do_io_loop_waits)

theorem do_io_returns_data_witness:
  "\<exists>err. do_io one_socket 3 READ SO_RCVTIMEO
     (concat (replicate 2 [Sys (- 1) EAGAIN, Reg True 0, Woken False]) @ [Sys 5 0]) =
   Done 5 err (concat (replicate 2 ([Called] @ armed (- 1) @ [Registered READ, Yielded] @ disarmed (- 1))) @ [Called])"
proof -
  have t: "getTimeout \<lparr>m_isInit = True, m_isSocket = True, m_sysNonblock = True, m_userNonblock = False,
     m_close = False, m_fd = 3, m_recvTimeout = - 1, m_sendTimeout = 20\<rparr> SO_RCVTIMEO = - 1"
    by (simp add: getTimeout_def)
  show ?thesis
    using do_io_returns_data [OF one_socket_simps(1,4), of 5 READ SO_RCVTIMEO 2 0]
    by (simp add: t)
qed

text \<open>C25. Closing a managed descriptor wakes what waits on it and forgets it. Afterwards the table of
  contexts has none for it and is otherwise unchanged; in the event loop its entry is as new, the kernel watches it no
  longer, the fibers and callbacks that waited for its events (and only those) are handed to their
  schedulers, and the entries of all other descriptors are unchanged. A descriptor that the event loop has no
  entry for leaves it alone. Both managers keep their invariants.\<close>

theorem close_forgets:
  assumes "IsHookEnable e" "fdm_inv (fdm e)" "iom e = Some m" "iom_inv m" "ctx_at (fdm e) fd = Some c"
    and "x = m_fd_contexts m ! nat fd"
  shows "\<exists>e' m'. hook_close True e fd ret = Ret e' ret \<and> ctx_at (fdm e') = (ctx_at (fdm e))(fd := None) \<and>
    fdm_inv (fdm e') \<and> iom e' = Some m' \<and> iom_inv m' \<and>
    (if in_table m fd
     then m_fd_contexts m' = (m_fd_contexts m)[nat fd := FdContext_new (nat fd)] \<and>
       interest m' = (interest m)(nat fd := None) \<and>
       queued m' = queued m @
         (if event_type x AND READ \<noteq> 0 then [slot_task (read_event x)] else []) @
         (if event_type x AND WRITE \<noteq> 0 then [slot_task (write_event x)] else [])
     else m' = m)"
proof -
  have fd: "0 \<le> fd" using assms(5) by (auto simp: ctx_at_def split: if_splits)
  obtain m' r where c: "cancelAll True m fd = Ret m' r" "iom_inv m'"
      "if in_table m fd then m_fd_contexts m' = (m_fd_contexts m)[nat fd := FdContext_new (nat fd)] \<and>
         interest m' = (interest m)(nat fd := None) \<and> queued m' = queued m @ waiters x (event_type x)
       else m' = m"
    using cancelAll_clear [OF assms(4) fd] unfolding assms(6) by blast
  define x where "x = upd_data fd (\<lambda>c. c\<lparr>m_close := True\<rparr>) (fdm e)"
  obtain x' where d: "fdm_del x fd = Ret x' ()" "kern x' = kern x" "ctx_at x' = (ctx_at x)(fd := None)"
    by (rule fdm_del_eq [OF fd])
  have cx: "ctx_at x' = (ctx_at (fdm e))(fd := None)"
    using ctx_at_upd [OF assms(5)] by (auto simp: d(3) x_def fun_eq_iff)
  then have "fdm_inv x'"
    using assms(2) d(2) by (auto simp: fdm_inv_iff x_def)
  moreover have "hook_close True e fd ret = Ret (e\<lparr>fdm := x', iom := Some m'\<rparr>) ret"
    using assms(1,3,5) fd c(1) d(1) by (simp add: hook_close_def fdm_get_cases x_def)
  ultimately show ?thesis
    using cx c by (intro exI [of _ "e\<lparr>fdm := x', iom := Some m'\<rparr>"] exI [of _ m']) (simp add: waiters_def)
qed

text \<open>A socket on which a callback waits for data.\<close>

definition read_waiter :: "string hook_env" where
  "read_waiter = one_socket\<lparr>iom := Some (the (case addEvent (Some 1) None True IOManager_new 3 READ (Some ''cb'') of
     Ret m r \<Rightarrow> Some m | _ \<Rightarrow> None))\<rparr>"

theorem close_forgets_witness:
  "\<exists>e' m'. hook_close True read_waiter 3 0 = Ret e' 0 \<and> ctx_at (fdm e') 3 = None \<and> iom e' = Some m' \<and>
     interest m' 3 = None \<and> queued m' = [(1, Task_cb (Some ''cb'') (- 1))]"
proof -
  let ?m = "IOManager_new :: string iomanager"
  have t: "in_table (grow_for ?m 3) 3" "event_type (m_fd_contexts (grow_for ?m 3) ! nat 3) AND READ = 0"
    by (simp_all add: grow_for_def IOManager_new_def resizeContext_def in_table_def event_type_new NONE_def)
  have cb: "Some ''cb'' \<noteq> None \<or> (\<exists>f. None = Some (f, Fiber_RUNNING))" by simp
  obtain m where m: "addEvent (Some 1) None True ?m 3 READ (Some ''cb'') = Ret m True" "iom_inv m"
    using addEvent_spec [OF iom_inv_new disjI1 [OF refl] t(1) cb refl refl, of True 1] t(2) by auto
  have w: "in_table m 3" "event_type (m_fd_contexts m ! nat 3) = READ" "queued m = []"
    "slot_task (read_event (m_fd_contexts m ! nat 3)) = (1, Task_cb (Some ''cb'') (- 1))"
    using m(1) by (auto simp: addEvent_def grow_for_def in_table_def IOManager_new_def resizeContext_def Let_def
        FdContext_new_def getContext_def setContext_def event_bits empty_context_def slot_task_def)
  have e: "IsHookEnable read_waiter" "iom read_waiter = Some m" "fdm read_waiter = fdm (one_socket :: string hook_env)"
    by (simp_all add: read_waiter_def m(1) [unfolded One_nat_def] IsHookEnable_def one_socket_def)
  have r: "READ AND READ \<noteq> 0" "READ AND WRITE = 0" by (simp_all add: event_bits)
  show ?thesis
    using close_forgets [OF e(1) _ e(2) m(2) _ refl, of 3 _ 0] e(3) w r one_socket_simps(3,4) by fastforce
qed

text \<open>The status flag the program sees is the one it has set: after a successful \<open>F_SETFL\<close> on
  a managed socket, \<open>F_GETFL\<close> reports \<open>O_NONBLOCK\<close> exactly when the argument had it, while the
  descriptor stays non-blocking in the kernel.\<close>

theorem fcntl_shows_user_flag:
  assumes "fdm_inv (fdm e)" "ctx_at (fdm e) fd = Some c" "m_isSocket c" "\<not> m_close c" "ans \<noteq> - 1"
  shows "\<exists>e'. hook_fcntl ans (Some v) e fd F_SETFL = Ret e' (Result ans) \<and> fdm_inv (fdm e') \<and>
    k_nonblock (kern (fdm e')) fd \<and>
    (\<forall>g va. word_of_int g \<noteq> (- 1 :: u32) \<longrightarrow> (\<exists>fl. hook_fcntl g va e' fd F_GETFL = Ret e' (Flags fl) \<and>
       (fl AND O_NONBLOCK \<noteq> 0 \<longleftrightarrow> word_of_int v AND O_NONBLOCK \<noteq> 0)))"
proof -
  let ?b = "word_of_int v AND O_NONBLOCK \<noteq> 0"
  have nb: "(x OR O_NONBLOCK) AND O_NONBLOCK \<noteq> 0" "(x AND (NOT O_NONBLOCK)) AND O_NONBLOCK = 0" for x
    by (simp_all add: O_NONBLOCK_def bit.conj_disj_distrib2 and.assoc)
  have ok: "fd_ctx_ok (kern (fdm e)) (nat fd) c" by (rule fdm_invD [OF assms(1,2)])
  have fd: "0 \<le> fd" using assms(2) by (auto simp: ctx_at_def split: if_splits)
  define e' where "e' = set_kernel_nonblock fd True
      (e\<lparr>fdm := upd_data fd (\<lambda>c. c\<lparr>m_userNonblock := ?b\<rparr>) (fdm e)\<rparr>)"
  have at: "ctx_at (fdm e') i = (if i = fd then Some (c\<lparr>m_userNonblock := ?b\<rparr>) else ctx_at (fdm e) i)" for i
    using ctx_at_upd [OF assms(2)] by (simp add: e'_def)
  have k: "kern (fdm e') = kern (fdm e)"
    using ok assms(3) fd by (simp add: e'_def set_kernel_nonblock_def fd_ctx_ok_def fun_upd_idem)
  have set: "hook_fcntl ans (Some v) e fd F_SETFL = Ret e' (Result ans)"
    using ok assms(3,5) managed_eq [OF assms(2-4)] nb
    by (simp add: hook_fcntl_def fcntl_setfl_def e'_def fd_ctx_ok_def Let_def)
  have inv: "fdm_inv (fdm e')"
    using assms(1) ok by (auto simp: fdm_inv_iff at k fd_ctx_ok_def)
  have "managed e' fd = Ret e' (Some (c\<lparr>m_userNonblock := ?b\<rparr>))"
    by (rule managed_eq) (use assms at in auto)
  then have "hook_fcntl g va e' fd F_GETFL = Ret e' (Flags (if ?b then fcntl_getfl (word_of_int g) fd e' OR O_NONBLOCK
      else fcntl_getfl (word_of_int g) fd e' AND (NOT O_NONBLOCK)))" for g va
    by (simp add: hook_fcntl_def F_GETFL_def F_SETFL_def Let_def)
  then show ?thesis using set inv nb ok assms(3) fd by (auto simp: k fd_ctx_ok_def)
qed

theorem fcntl_shows_user_flag_witness:
  "\<exists>e'. hook_fcntl 0 (Some 0x802) (one_socket :: nat hook_env) 3 F_SETFL = Ret e' (Result 0) \<and>
    k_nonblock (kern (fdm e')) 3"
  using fcntl_shows_user_flag [OF one_socket_simps(3,4), of 0 "0x802"] by auto

text \<open>\<open>ioctl\<close> does not keep the socket non-blocking: clearing the flag with \<open>FIONBIO\<close> reaches
  the kernel, although the context goes on to say that the socket is non-blocking there and
  calls on it are still handled as if it were.\<close>

theorem ioctl_unblocks_kernel:
  assumes "IsHookEnable e" "fdm_inv (fdm e)" "ctx_at (fdm e) fd = Some c" "m_isSocket c" "\<not> m_close c"
  shows "\<exists>e' c'. hook_ioctl 0 e fd FIONBIO 0 = Ret e' 0 \<and> ctx_at (fdm e') fd = Some c' \<and>
    m_sysNonblock c' \<and> \<not> k_nonblock (kern (fdm e')) fd \<and> \<not> fdm_inv (fdm e') \<and>
    do_io e' fd ev typ xs = do_io_loop (iom e \<noteq> None) ev (getTimeout c typ) (errno e) xs []"
proof -
  have fd: "0 \<le> fd" using assms(3) by (auto simp: ctx_at_def split: if_splits)
  define e' where "e' = set_kernel_nonblock fd False
      (e\<lparr>fdm := upd_data fd (\<lambda>c. c\<lparr>m_userNonblock := False\<rparr>) (fdm e)\<rparr>)"
  have at: "ctx_at (fdm e') fd = Some (c\<lparr>m_userNonblock := False\<rparr>)"
    using ctx_at_upd [OF assms(3)] by (simp add: e'_def)
  have k: "\<not> k_nonblock (kern (fdm e')) fd" by (simp add: e'_def)
  have "\<not> fdm_inv (fdm e')"
    using fdm_invD [of "fdm e'" fd] at k assms(4) fd by (auto simp: fd_ctx_ok_def)
  moreover have "m_sysNonblock c" using fdm_invD [OF assms(2,3)] assms(4) by (simp add: fd_ctx_ok_def)
  moreover have "hook_ioctl 0 e fd FIONBIO 0 = Ret e' 0"
    using managed_eq [OF assms(3-5)] by (simp add: hook_ioctl_def e'_def Let_def)
  moreover have "do_io e' fd ev typ xs = do_io_loop (iom e' \<noteq> None) ev
      (getTimeout (c\<lparr>m_userNonblock := False\<rparr>) typ) (errno e') xs []"
    by (rule managed_do_io) (use assms at in \<open>auto simp: e'_def IsHookEnable_def\<close>)
  ultimately show ?thesis
    using at k by (auto simp: getTimeout_def e'_def)
qed

theorem ioctl_unblocks_kernel_witness:
  "\<exists>e'. hook_ioctl 0 (one_socket :: nat hook_env) 3 FIONBIO 0 = Ret e' 0 \<and>
    \<not> k_nonblock (kern (fdm e')) 3"
  using ioctl_unblocks_kernel [OF one_socket_simps(1,3,4), of READ SO_RCVTIMEO "[]"] by auto

text \<open>A time-out of zero, which \<open>socket(7)\<close> defines as "never", is taken as zero
  milliseconds: a later read whose data are not yet there arms a timer of no delay and fails
  with \<open>ETIMEDOUT\<close> when that timer fires.\<close>

theorem zero_timeout_expires:
  assumes "IsHookEnable e" "ctx_at (fdm e) fd = Some c" "m_isSocket c" "\<not> m_userNonblock c" "\<not> m_close c"
    and "iom e \<noteq> None"
  shows "\<exists>e'. hook_setsockopt e fd SOL_SOCKET SO_RCVTIMEO 0 0 0 = Ret e' 0 \<and>
    hook_read e' fd [Sys (- 1) EAGAIN, Reg True 0, Woken True] =
      Done (- 1) ETIMEDOUT [Called, Armed 0, Registered READ, Yielded, Disarmed]"
proof -
  have fd: "0 \<le> fd" using assms(2) by (auto simp: ctx_at_def split: if_splits)
  define e' where "e' = e\<lparr>fdm := upd_data fd (\<lambda>c. setTimeout c SO_RCVTIMEO 0) (fdm e)\<rparr>"
  have "ctx_at (fdm e') fd = Some (setTimeout c SO_RCVTIMEO 0)"
    using ctx_at_upd [OF assms(2)] by (simp add: e'_def)
  then have "hook_read e' fd xs = do_io_loop True READ 0 (errno e) xs []" for xs
    using managed_do_io [of e' fd "setTimeout c SO_RCVTIMEO 0"] assms
    by (simp add: hook_read_def setTimeout_def getTimeout_def e'_def IsHookEnable_def)
  moreover have "hook_setsockopt e fd SOL_SOCKET SO_RCVTIMEO 0 0 0 = Ret e' 0"
    using assms(1,2) fd by (simp add: hook_setsockopt_def IsHookEnable_def fdm_get_cases e'_def)
  ultimately show ?thesis by (simp add: set_errno_def errno_defs armed_def disarmed_def)
qed

theorem zero_timeout_expires_witness:
  "\<exists>e'. hook_setsockopt (one_socket :: nat hook_env) 3 SOL_SOCKET SO_RCVTIMEO 0 0 0 = Ret e' 0"
  using zero_timeout_expires [OF one_socket_simps(1,4)] by auto

text \<open>A hooked \<open>sleep\<close> gives the processor to the scheduler with the fiber on hold, and leaves
  in the ordered timer set a timer that pushes this fiber; its delay is the requested time up
  to 4294967 seconds and wraps around above.\<close>

theorem sleep_parks_fiber:
  assumes "IsHookEnable e" "in_scheduler fe s f" "t_curfiber fe = Some f" "GetState fe f = Fiber_RUNNING"
    and "tm_wf tm" "a \<noteq> 0" "a \<notin> set (m_timers tm)"
  shows "\<exists>fe' tm'. hook_sleep e now a tm fe ans seconds = Ret fe' (tm', 0) \<and>
    on_cpu fe' = Some s \<and> GetState fe' f = Fiber_HOLD \<and> tm_wf tm' \<and> a \<in> set (m_timers tm') \<and>
    Timers.m_cb (heap tm' a) = Some (Plain f) \<and> m_next (heap tm' a) = now + sleep_ms seconds \<and>
    uint (sleep_ms seconds) = uint seconds * 1000 mod 2 ^ 32"
proof -
  have ms: "uint (sleep_ms seconds) = uint seconds * 1000 mod 2 ^ 32"
    by (simp add: sleep_ms_def uint_up_ucast is_up uint_word_ariths)
  define tm' where "tm' = fst (addTimer tm now a (sleep_ms seconds) (Some (Plain f)) False)"
  have "tm_wf tm'" unfolding tm'_def by (rule addTimer_wf [OF assms(5-7)])
  moreover have "a \<in> set (m_timers tm')" "Timers.m_cb (heap tm' a) = Some (Plain f)"
    "m_next (heap tm' a) = now + sleep_ms seconds"
    by (simp_all add: tm'_def addTimer_def Timer_new_def)
  moreover obtain fe' where "YieldToHold fe = Ret fe' ()" "on_cpu fe' = Some s" "GetState fe' f = Fiber_HOLD"
    using assms(2-4) by (auto simp: in_scheduler_def fiber_defs)
  ultimately show ?thesis
    using assms(1,3) ms by (simp add: hook_sleep_def sleep_on_def fiber_GetThis_def tm'_def)
qed

theorem sleep_parks_fiber_witness:
  "\<exists>fe' tm'. hook_sleep (one_socket :: nat hook_env) 100 8 (TimerManager_new (\<lambda>_. Timer_at 0) 0)
      (two_fibers\<lparr>t_curfiber := Some 1,
         fibers := (fibers two_fibers)(1 := (fibers two_fibers 1)\<lparr>m_state := Fiber_RUNNING\<rparr>)\<rparr>) 0 2 =
    Ret fe' (tm', 0) \<and> on_cpu fe' = Some 0 \<and> m_next (heap tm' 8) = 100 + sleep_ms 2"
proof -
  let ?fe = "two_fibers\<lparr>t_curfiber := Some 1,
    fibers := (fibers two_fibers)(1 := (fibers two_fibers 1)\<lparr>m_state := Fiber_RUNNING\<rparr>)\<rparr>"
  have f: "in_scheduler ?fe 0 1" "t_curfiber ?fe = Some 1" "GetState ?fe 1 = Fiber_RUNNING"
    by (simp_all add: in_scheduler_def two_fibers_def GetState_def)
  have tm: "tm_wf (TimerManager_new (\<lambda>_. Timer_at 0) 0)" "8 \<noteq> (0 :: nat)"
    "8 \<notin> set (m_timers (TimerManager_new (\<lambda>_. Timer_at 0) 0))"
    by (simp_all add: tm_wf_def TimerManager_new_def)
  from sleep_parks_fiber [OF one_socket_simps(1) f tm, of 100 0 2] show ?thesis by blast
qed

end
