(* ===== verification/Addresses.thy ===== *)
theory Addresses
  imports Endianness CStrings
begin

text \<open>
  Model of \<open>src/Address.h\<close> and \<open>src/Address.cc\<close>: socket addresses, their comparison, subnet
  arithmetic, and the splitting of host names.

  The integers of a \<open>sockaddr\<close> are the values of the fields as the little-endian host reads
  them, so a port or an IPv4 address in network order is a byte-swapped word; \<open>getAddr\<close> gives the
  bytes in memory. The name services (\<open>getaddrinfo\<close>, \<open>inet_pton\<close>, \<open>inet_ntop\<close> for IPv6 and
  \<open>getifaddrs\<close>) are arguments: their result is the list of socket addresses they deliver.
\<close>

section \<open>Socket addresses\<close>

definition AF_UNSPEC :: u16 where "AF_UNSPEC = 0"
definition AF_UNIX :: u16 where "AF_UNIX = 1"
definition AF_INET :: u16 where "AF_INET = 2"
definition AF_INET6 :: u16 where "AF_INET6 = 10"

record sockaddr_in =
  sin_family :: u16
  sin_port :: u16
  s_addr :: u32
  sin_zero :: bytes

record sockaddr_in6 =
  sin6_family :: u16
  sin6_port :: u16
  sin6_flowinfo :: u32
  s6_addr :: bytes
  sin6_scope_id :: u32

record sockaddr_un =
  sun_family :: u16
  sun_path :: bytes

text \<open>The classes derived from \<open>Address\<close>; \<open>UnixAddress\<close> also keeps its length, \<open>UnknownAddress\<close>
  is a family and the 14 bytes behind it.\<close>

datatype address =
  IPv4Address sockaddr_in
| IPv6Address sockaddr_in6
| UnixAddress sockaddr_un nat
| UnknownAddress u16 bytes

definition SUN_PATH :: nat where "SUN_PATH = 108"
definition SUN_OFFSET :: nat where "SUN_OFFSET = 2"
definition MAX_PATH_LEN :: nat where "MAX_PATH_LEN = SUN_PATH - 1"

fun getAddr :: "address \<Rightarrow> bytes" where
  "getAddr (IPv4Address a) =
     le_bytes 2 (sin_family a) @ le_bytes 2 (sin_port a) @ le_bytes 4 (s_addr a) @ sin_zero a"
| "getAddr (IPv6Address a) =
     le_bytes 2 (sin6_family a) @ le_bytes 2 (sin6_port a) @ le_bytes 4 (sin6_flowinfo a) @ s6_addr a @
     le_bytes 4 (sin6_scope_id a)"
| "getAddr (UnixAddress a n) = le_bytes 2 (sun_family a) @ sun_path a"
| "getAddr (UnknownAddress f d) = le_bytes 2 f @ d"

fun getAddrLen :: "address \<Rightarrow> nat" where
  "getAddrLen (IPv4Address a) = 16"
| "getAddrLen (IPv6Address a) = 28"
| "getAddrLen (UnixAddress a n) = n"
| "getAddrLen (UnknownAddress f d) = 16"

fun getFamily :: "address \<Rightarrow> u16" where
  "getFamily (IPv4Address a) = sin_family a"
| "getFamily (IPv6Address a) = sin6_family a"
| "getFamily (UnixAddress a n) = sun_family a"
| "getFamily (UnknownAddress f d) = f"

text \<open>The arrays have their size, and the length that a Unix address reports lies inside it.\<close>

fun address_wf :: "address \<Rightarrow> bool" where
  "address_wf (IPv4Address a) \<longleftrightarrow> length (sin_zero a) = 8"
| "address_wf (IPv6Address a) \<longleftrightarrow> length (s6_addr a) = 16"
| "address_wf (UnixAddress a n) \<longleftrightarrow> length (sun_path a) = SUN_PATH \<and> n \<le> SUN_OFFSET + SUN_PATH"
| "address_wf (UnknownAddress f d) \<longleftrightarrow> length d = 14"

section \<open>Comparison\<close>

definition memcmp_less :: "bytes \<Rightarrow> bytes \<Rightarrow> bool" where
  "memcmp_less xs ys = bytes_less (map unat xs) (map unat ys)"

definition address_less :: "address \<Rightarrow> address \<Rightarrow> bool" where
  "address_less a b =
     (let n = min (getAddrLen a) (getAddrLen b); x = take n (getAddr a); y = take n (getAddr b) in
      if memcmp_less x y then True
      else if memcmp_less y x then False
      else getAddrLen a < getAddrLen b)"

definition address_eq :: "address \<Rightarrow> address \<Rightarrow> bool" where
  "address_eq a b \<longleftrightarrow> getAddrLen a = getAddrLen b \<and>
     take (getAddrLen a) (getAddr a) = take (getAddrLen a) (getAddr b)"

definition address_neq :: "address \<Rightarrow> address \<Rightarrow> bool" where
  "address_neq a b \<longleftrightarrow> \<not> address_eq a b"

section \<open>Construction\<close>

definition IPv4_any :: "u32 \<Rightarrow> u16 \<Rightarrow> sockaddr_in" where
  "IPv4_any address port =
     \<lparr>sin_family = AF_INET, sin_port = byteswapOnLittleEndian16 port,
      s_addr = byteswapOnLittleEndian32 address, sin_zero = replicate 8 0\<rparr>"

definition IPv6_any :: sockaddr_in6 where
  "IPv6_any = \<lparr>sin6_family = AF_INET6, sin6_port = 0, sin6_flowinfo = 0, s6_addr = replicate 16 0,
               sin6_scope_id = 0\<rparr>"

definition IPv6_of_bytes :: "bytes \<Rightarrow> u16 \<Rightarrow> sockaddr_in6" where
  "IPv6_of_bytes address port =
     IPv6_any\<lparr>sin6_port := byteswapOnLittleEndian16 port, s6_addr := take 16 address\<rparr>"

definition UnixAddress_new :: address where
  "UnixAddress_new =
     UnixAddress \<lparr>sun_family = AF_UNIX, sun_path = replicate SUN_PATH 0\<rparr> (SUN_OFFSET + MAX_PATH_LEN)"

text \<open>The constructor throws \<open>logic_error\<close> (\<open>None\<close>) when the path does not fit.\<close>

definition UnixAddress_of :: "bytes \<Rightarrow> address option" where
  "UnixAddress_of path =
     (let n = length path + 1;
          n = (if path \<noteq> [] \<and> hd path = 0 then n - 1 else n) in
      if n > SUN_PATH then None
      else Some (UnixAddress
        \<lparr>sun_family = AF_UNIX,
         sun_path = overwrite (replicate SUN_PATH 0) 0 (take n (path @ [0]))\<rparr> (n + SUN_OFFSET)))"

fun setAddrLen :: "address \<Rightarrow> nat \<Rightarrow> address" where
  "setAddrLen (UnixAddress a n) v = UnixAddress a v"
| "setAddrLen a v = a"

text \<open>\<open>getPath\<close>: the path up to the first NUL, or a backslash, a zero and the abstract name.\<close>

definition getPath :: "sockaddr_un \<Rightarrow> nat \<Rightarrow> bytes" where
  "getPath a n =
     (if n > SUN_OFFSET \<and> hd (sun_path a) = 0
      then [0x5C, 0x30] @ take (n - SUN_OFFSET - 1) (tl (sun_path a))
      else takeWhile (\<lambda>b. b \<noteq> 0) (sun_path a))"

text \<open>What \<open>getaddrinfo\<close> and \<open>getifaddrs\<close> deliver: a socket address of one of the families.\<close>

datatype raw_addr = Raw_in sockaddr_in | Raw_in6 sockaddr_in6 | Raw_un sockaddr_un nat | Raw_other u16 bytes

fun Address_Create :: "raw_addr \<Rightarrow> address" where
  "Address_Create (Raw_in a) = IPv4Address a"
| "Address_Create (Raw_in6 a) = IPv6Address a"
| "Address_Create (Raw_un a n) = UnixAddress_new"
| "Address_Create (Raw_other f d) = UnknownAddress f d"

fun is_ip :: "address \<Rightarrow> bool" where
  "is_ip (IPv4Address a) = True"
| "is_ip (IPv6Address a) = True"
| "is_ip _ = False"

fun getPort :: "address \<Rightarrow> u32" where
  "getPort (IPv4Address a) = ucast (byteswapOnLittleEndian16 (sin_port a))"
| "getPort (IPv6Address a) = ucast (byteswapOnLittleEndian16 (sin6_port a))"
| "getPort _ = 0"

fun setPort :: "address \<Rightarrow> u16 \<Rightarrow> address" where
  "setPort (IPv4Address a) v = IPv4Address (a\<lparr>sin_port := byteswapOnLittleEndian16 v\<rparr>)"
| "setPort (IPv6Address a) v = IPv6Address (a\<lparr>sin6_port := byteswapOnLittleEndian16 v\<rparr>)"
| "setPort a v = a"

text \<open>From text: \<open>pton\<close> is the conversion of \<open>inet_pton\<close>, \<open>numeric\<close> the one of \<open>getaddrinfo\<close>
  with \<open>AI_NUMERICHOST\<close>.\<close>

definition IPv4_Create :: "(string \<Rightarrow> u32 option) \<Rightarrow> string \<Rightarrow> u16 \<Rightarrow> address option" where
  "IPv4_Create pton address port =
     (case pton (c_str address) of
        None \<Rightarrow> None
      | Some v \<Rightarrow> Some (IPv4Address ((IPv4_any 0 0)\<lparr>sin_port := port, s_addr := v\<rparr>)))"

definition IPv6_Create :: "(string \<Rightarrow> bytes option) \<Rightarrow> string \<Rightarrow> u16 \<Rightarrow> address option" where
  "IPv6_Create pton address port =
     (case pton (c_str address) of
        None \<Rightarrow> None
      | Some v \<Rightarrow> Some (IPv6Address (IPv6_any\<lparr>sin6_port := byteswapOnLittleEndian16 port, s6_addr := v\<rparr>)))"

definition IPAddress_Create :: "(string \<Rightarrow> raw_addr list option) \<Rightarrow> string \<Rightarrow> u16 \<Rightarrow> address option" where
  "IPAddress_Create numeric address port =
     (case numeric (c_str address) of
        Some (r # _) \<Rightarrow>
          (let a = Address_Create r in if is_ip a then Some (setPort a port) else None)
      | _ \<Rightarrow> None)"

section \<open>Subnets\<close>

text \<open>
  \<open>CreateMask\<close> shifts an \<open>int\<close>: for a 32-bit mask a shift by 32 is undefined, and one by 31
  makes the subtraction overflow. It throws for \<open>bits\<close> not below the width.
\<close>

definition CreateMask32 :: "nat \<Rightarrow> (unit, unit, u32) outcome" where
  "CreateMask32 bits =
     (if bits \<ge> 32 then Thr () ()
      else if 32 - bits \<ge> 31 then Ub
      else Ret () (push_bit (32 - bits) 1 - 1))"

definition CreateMask8 :: "nat \<Rightarrow> (unit, unit, u8) outcome" where
  "CreateMask8 bits =
     (if bits \<ge> 8 then Thr () ()
      else Ret () (ucast (push_bit (8 - bits) 1 - 1 :: u32)))"

function CountBits :: "'a::len word \<Rightarrow> nat" where
  "CountBits v = (if v = 0 then 0 else CountBits (v AND (v - 1)) + 1)"
  by auto

definition broadcast4 :: "sockaddr_in \<Rightarrow> nat \<Rightarrow> (unit, unit, sockaddr_in option) outcome" where
  "broadcast4 a prefix_len =
     (if prefix_len \<ge> 32 then Ret () None
      else omap (\<lambda>mask. Some (a\<lparr>s_addr := s_addr a OR byteswapOnLittleEndian32 mask\<rparr>)) (CreateMask32 prefix_len))"

definition network4 :: "sockaddr_in \<Rightarrow> nat \<Rightarrow> (unit, unit, sockaddr_in option) outcome" where
  "network4 a prefix_len =
     (if prefix_len \<ge> 32 then Ret () None
      else omap (\<lambda>mask. Some (a\<lparr>s_addr := s_addr a AND byteswapOnLittleEndian32 mask\<rparr>)) (CreateMask32 prefix_len))"

definition subnetMask4 :: "nat \<Rightarrow> (unit, unit, sockaddr_in option) outcome" where
  "subnetMask4 prefix_len =
     (if prefix_len \<ge> 32 then Ret () None
      else omap (\<lambda>mask.
          let sub = \<lparr>sin_family = AF_INET, sin_port = 0, s_addr = 0, sin_zero = replicate 8 0\<rparr>
          in Some (sub\<lparr>s_addr := s_addr sub AND (NOT (byteswapOnLittleEndian32 mask))\<rparr>))
        (CreateMask32 prefix_len))"

text \<open>The IPv6 versions index the 16 bytes of the address without a check.\<close>

definition on_byte ::
  "(u8 \<Rightarrow> u8 \<Rightarrow> u8) \<Rightarrow> nat \<Rightarrow> bytes \<Rightarrow> (unit, unit, bytes) outcome" where
  "on_byte f prefix_len bs =
     (if prefix_len div 8 \<ge> length bs then Ub
      else omap (\<lambda>mask. bs[prefix_len div 8 := f (bs ! (prefix_len div 8)) mask]) (CreateMask8 (prefix_len mod 8)))"

definition fill_after :: "nat \<Rightarrow> u8 \<Rightarrow> bytes \<Rightarrow> bytes" where
  "fill_after i b bs = take (i + 1) bs @ replicate (length bs - (i + 1)) b"

definition broadcast6 :: "sockaddr_in6 \<Rightarrow> nat \<Rightarrow> (unit, unit, sockaddr_in6) outcome" where
  "broadcast6 a prefix_len =
     omap (\<lambda>bs. a\<lparr>s6_addr := fill_after (prefix_len div 8) 0xFF bs\<rparr>)
       (on_byte (\<lambda>x mask. x OR mask) prefix_len (s6_addr a))"

definition network6 :: "sockaddr_in6 \<Rightarrow> nat \<Rightarrow> (unit, unit, sockaddr_in6) outcome" where
  "network6 a prefix_len =
     omap (\<lambda>bs. a\<lparr>s6_addr := fill_after (prefix_len div 8) 0 bs\<rparr>)
       (on_byte (\<lambda>x mask. x AND mask) prefix_len (s6_addr a))"

definition subnetMask6 :: "nat \<Rightarrow> (unit, unit, sockaddr_in6) outcome" where
  "subnetMask6 prefix_len =
     omap (\<lambda>bs. IPv6_any\<lparr>s6_addr := replicate (prefix_len div 8) 0xFF @ drop (prefix_len div 8) bs\<rparr>)
       (on_byte (\<lambda>x mask. NOT mask) prefix_len (s6_addr IPv6_any))"

termination CountBits
proof (relation "measure unat")
  fix v :: "'a word"
  assume "v \<noteq> 0"
  then have "v - 1 < v" by (simp add: word_less_1 measure_unat word_less_nat_alt)
  moreover have "v AND (v - 1) \<le> v - 1" by (simp add: word_and_le1)
  ultimately show "(v AND (v - 1), v) \<in> measure unat"
    by (simp add: word_less_nat_alt [symmetric] order_le_less_trans)
qed simp

declare CountBits.simps [simp del]

section \<open>Printing\<close>

fun intersperse_dots :: "string list \<Rightarrow> string" where
  "intersperse_dots [] = []"
| "intersperse_dots [s] = s"
| "intersperse_dots (s # ss) = s @ ''.'' @ intersperse_dots ss"

definition dotted :: "u32 \<Rightarrow> string" where
  "dotted v = intersperse_dots (map (\<lambda>b. dec_string (unat b)) (le_bytes 4 v))"

definition insert4 :: "sockaddr_in \<Rightarrow> string" where
  "insert4 a = dotted (s_addr a) @ '':'' @ dec_string (unat (byteswap16 (sin_port a)))"

text \<open>\<open>ntop\<close> is the text that \<open>inet_ntop\<close> gives for the 16 bytes.\<close>

definition insert6 :: "(bytes \<Rightarrow> string option) \<Rightarrow> sockaddr_in6 \<Rightarrow> string" where
  "insert6 ntop a =
     (case ntop (s6_addr a) of Some s \<Rightarrow> ''['' @ s @ '']'' | None \<Rightarrow> ''[<invalid_ipv6>]'') @
     '':'' @ dec_string (unat (byteswap16 (sin6_port a)))"

definition chars_of :: "bytes \<Rightarrow> string" where
  "chars_of bs = map (\<lambda>b. char_of (unat b)) bs"

fun insert_address :: "(bytes \<Rightarrow> string option) \<Rightarrow> address \<Rightarrow> string" where
  "insert_address ntop (IPv4Address a) = insert4 a"
| "insert_address ntop (IPv6Address a) = insert6 ntop a"
| "insert_address ntop (UnixAddress a n) = chars_of (getPath a n)"
| "insert_address ntop (UnknownAddress f d) =
     ''[UnknownAddress family='' @ dec_string (unat f) @ '']''"

section \<open>Host names\<close>

text \<open>
  \<open>Lookup\<close> splits \<open>host\<close> into the node and the service it passes to \<open>getaddrinfo\<close>. The first
  attempt is the bracket form, the second the part before the first colon; each only sets the
  service when it found a node delimiter with text behind it. The node of the second attempt
  may be empty, and then the whole host is the node while the service stays set.
\<close>

definition find_char :: "char \<Rightarrow> string \<Rightarrow> nat option" where
  "find_char c s = (if c \<in> set s then Some (length (takeWhile (\<lambda>x. x \<noteq> c) s)) else None)"

definition split_bracket :: "string \<Rightarrow> string \<times> string option" where
  "split_bracket host =
     (case host of
        c # rest \<Rightarrow>
          (if c = CHR ''['' then
             (case find_char (CHR '']'') rest of
                None \<Rightarrow> ([], None)
              | Some i \<Rightarrow>
                  (take i rest,
                   case drop (i + 1) rest of
                     d # e # tl_s \<Rightarrow> if d = CHR '':'' then Some (e # tl_s) else None
                   | _ \<Rightarrow> None))
           else ([], None))
      | [] \<Rightarrow> ([], None))"

definition split_colon :: "string \<Rightarrow> string option \<Rightarrow> string \<times> string option" where
  "split_colon host service =
     (case find_char (CHR '':'') host of
        None \<Rightarrow> ([], service)
      | Some i \<Rightarrow> (take i host, if drop (i + 1) host \<noteq> [] then Some (drop (i + 1) host) else service))"

definition split_host :: "string \<Rightarrow> string \<times> string option" where
  "split_host host =
     (let (node, service) = split_bracket host;
          (node, service) = (if node = [] then split_colon host service else (node, service));
          node = (if node = [] then host else node)
      in (c_str node, map_option c_str service))"

text \<open>\<open>gai\<close> is \<open>getaddrinfo\<close> for the family, type and protocol of the call.\<close>

definition Lookup ::
  "(string \<Rightarrow> string option \<Rightarrow> raw_addr list option) \<Rightarrow> address list \<Rightarrow> string \<Rightarrow> address list \<times> bool" where
  "Lookup gai result host =
     (let (node, service) = split_host host in
      case gai node service of
        None \<Rightarrow> (result, False)
      | Some rs \<Rightarrow> let result = result @ map Address_Create rs in (result, result \<noteq> []))"

definition LookupAny ::
  "(string \<Rightarrow> string option \<Rightarrow> raw_addr list option) \<Rightarrow> string \<Rightarrow> address option" where
  "LookupAny gai host =
     (let (result, ok) = Lookup gai [] host in if ok then Some (result ! 0) else None)"

definition LookupAnyIPAddress ::
  "(string \<Rightarrow> string option \<Rightarrow> raw_addr list option) \<Rightarrow> string \<Rightarrow> address option" where
  "LookupAnyIPAddress gai host =
     (let (result, ok) = Lookup gai [] host in if ok then find is_ip result else None)"

section \<open>Interfaces\<close>

text \<open>
  One entry of \<open>getifaddrs\<close>: name, address if there is one, and the netmask as a socket
  address. The multimap is the list of its entries in insertion order; \<open>equal_range\<close> is a
  filter, since entries with equal keys keep that order.
\<close>

record ifaddr =
  ifa_name :: string
  ifa_addr :: "raw_addr option"
  ifa_netmask :: raw_addr

fun raw_family :: "raw_addr \<Rightarrow> u16" where
  "raw_family (Raw_in a) = AF_INET"
| "raw_family (Raw_in6 a) = AF_INET6"
| "raw_family (Raw_un a n) = AF_UNIX"
| "raw_family (Raw_other f d) = f"

fun prefix_of :: "raw_addr \<Rightarrow> nat" where
  "prefix_of (Raw_in m) = CountBits (s_addr m)"
| "prefix_of (Raw_in6 m) = sum_list (map CountBits (s6_addr m))"
| "prefix_of m = 0"

definition interface_entry :: "u16 \<Rightarrow> ifaddr \<Rightarrow> (string \<times> address \<times> nat) option" where
  "interface_entry family i =
     (case ifa_addr i of
        None \<Rightarrow> None
      | Some a \<Rightarrow>
          (if family \<noteq> AF_UNSPEC \<and> family \<noteq> raw_family a then None
           else case a of
             Raw_in s \<Rightarrow> Some (ifa_name i, Address_Create a, prefix_of (ifa_netmask i))
           | Raw_in6 s \<Rightarrow> Some (ifa_name i, Address_Create a, prefix_of (ifa_netmask i))
           | _ \<Rightarrow> None))"

definition GetInterfaceAddresses_all ::
  "ifaddr list option \<Rightarrow> (string \<times> address \<times> nat) list \<Rightarrow> u16 \<Rightarrow> (string \<times> address \<times> nat) list \<times> bool" where
  "GetInterfaceAddresses_all ifs result family =
     (case ifs of
        None \<Rightarrow> (result, False)
      | Some xs \<Rightarrow>
          let result = result @ List.map_filter (interface_entry family) xs in (result, result \<noteq> []))"

definition GetInterfaceAddresses ::
  "ifaddr list option \<Rightarrow> (address \<times> nat) list \<Rightarrow> string \<Rightarrow> u16 \<Rightarrow> (address \<times> nat) list \<times> bool" where
  "GetInterfaceAddresses ifs result iface family =
     (if iface = [] \<or> iface = ''*'' then
        (result @
           (if family = AF_INET \<or> family = AF_UNSPEC then [(IPv4Address (IPv4_any 0 0), 0)] else []) @
           (if family = AF_INET6 \<or> family = AF_UNSPEC then [(IPv6Address IPv6_any, 0)] else []),
         True)
      else
        let (all_addrs, ok) = GetInterfaceAddresses_all ifs [] family in
        if \<not> ok then (result, False)
        else let result = result @ map snd (filter (\<lambda>e. fst e = iface) all_addrs)
             in (result, result \<noteq> []))"

section \<open>Lemmas\<close>

definition addr_key :: "address \<Rightarrow> nat list" where
  "addr_key a = map unat (take (getAddrLen a) (getAddr a))"

lemma length_addr_key: "address_wf a \<Longrightarrow> length (addr_key a) = getAddrLen a"
  by (cases a) (auto simp: addr_key_def SUN_PATH_def SUN_OFFSET_def)

lemma bytes_less_prefix:
  "bytes_less xs ys \<longleftrightarrow>
     (let n = min (length xs) (length ys) in
      bytes_less (take n xs) (take n ys) \<or> take n xs = take n ys \<and> length xs < length ys)"
proof (induction xs ys rule: bytes_less.induct)
  case (1 xs) then show ?case by (auto simp: Let_def)
next
  case (3 x xs y ys) then show ?case by (auto simp: Let_def)
qed auto

lemma address_less_key:
  assumes "address_wf a" "address_wf b"
  shows "address_less a b = bytes_less (addr_key a) (addr_key b)"
proof -
  have t: "take n (addr_key c) = map unat (take n (getAddr c))" if "n \<le> getAddrLen c" for n c
    using that by (simp add: addr_key_def take_map min_def)
  have inj: "map unat (xs :: bytes) = map unat ys \<longleftrightarrow> xs = ys" for xs ys
    by (meson inj_map_eq_map inj_onI word_unat_eq_iff)
  show ?thesis
    using length_addr_key [OF assms(1)] length_addr_key [OF assms(2)]
      bytes_less_total bytes_less_irrefl bytes_less_trans
    by (subst bytes_less_prefix) (auto simp: address_less_def memcmp_less_def Let_def t inj;
        metis bytes_less_total bytes_less_irrefl bytes_less_trans inj)
qed

lemma address_eq_key:
  assumes "address_wf a" "address_wf b"
  shows "address_eq a b \<longleftrightarrow> addr_key a = addr_key b"
proof -
  have inj: "map unat (xs :: bytes) = map unat ys \<longleftrightarrow> xs = ys" for xs ys
    by (meson inj_map_eq_map inj_onI word_unat_eq_iff)
  have la: "length (take (getAddrLen c) (getAddr c)) = getAddrLen c" if "address_wf c" for c
    using length_addr_key [OF that] by (simp add: addr_key_def)
  show ?thesis
    unfolding address_eq_def addr_key_def inj using la [OF assms(1)] la [OF assms(2)] by metis
qed

text \<open>Clearing the lowest set bit.\<close>

lemma clear_lowest:
  fixes v :: "'a::len word"
  assumes "bit v n" "\<And>k. k < n \<Longrightarrow> \<not> bit v k"
  shows "bit (v AND (v - 1)) k \<longleftrightarrow> bit v k \<and> k \<noteq> n"
proof -
  define s where "s = Suc n"
  let ?A = "push_bit s (drop_bit s v)"
  have nl: "n < LENGTH('a)" using assms(1) by (rule bit_imp_le_length)
  have A: "bit ?A j \<longleftrightarrow> bit v j \<and> n < j" for j
    using bit_imp_le_length [of v j] by (auto simp: bit_simps s_def [symmetric]) (auto simp: s_def)
  have B: "bit (push_bit n 1 :: 'a word) j \<longleftrightarrow> j = n" for j
    using nl by (auto simp: bit_simps)
  have M: "bit (mask n :: 'a word) j \<longleftrightarrow> j < n" for j
    using nl by (auto simp: bit_simps)
  have "v = ?A OR push_bit n 1"
    by (rule bit_word_eqI) (use assms A B in \<open>auto simp: bit_or_iff intro: linorder_neqE_nat\<close>)
  also have "\<dots> = ?A + push_bit n 1"
    by (rule disjunctive_add [symmetric]) (use A B in auto)
  finally have "v - 1 = ?A + (push_bit n 1 - 1)" by simp
  also have "push_bit n 1 - 1 = (mask n :: 'a word)"
    by (simp add: mask_eq_exp_minus_1)
  also have "?A + mask n = ?A OR mask n"
    by (rule disjunctive_add) (use A M in auto)
  finally have "bit (v - 1) k \<longleftrightarrow> bit v k \<and> n < k \<or> k < n"
    using A M by (simp add: bit_or_iff)
  then show ?thesis using assms by (auto simp: bit_and_iff)
qed

lemma finite_bits [simp]: "finite {k. bit (v :: 'a::len word) k}"
  by (rule finite_subset [of _ "{..<LENGTH('a)}"]) (auto dest: bit_imp_le_length)

lemma CountBits_card: "CountBits v = card {k. bit v k}"
proof (induction v rule: CountBits.induct)
  case (1 v)
  show ?case
  proof (cases "v = 0")
    case True
    then show ?thesis by (subst CountBits.simps) (simp add: bot_fun_def)
  next
    case False
    then have "\<exists>k. bit v k" by (auto simp: bit_eq_iff)
    define n where "n = (LEAST k. bit v k)"
    have n: "bit v n" "\<And>k. k < n \<Longrightarrow> \<not> bit v k"
      using \<open>\<exists>k. bit v k\<close> by (auto simp: n_def intro: LeastI_ex dest: not_less_Least)
    have "{k. bit v k} = insert n {k. bit (v AND (v - 1)) k}"
      using n clear_lowest [OF n] by auto
    moreover have "n \<notin> {k. bit (v AND (v - 1)) k}" using clear_lowest [OF n] by auto
    ultimately have "card {k. bit v k} = card {k. bit (v AND (v - 1)) k} + 1" by simp
    then show ?thesis using 1 [OF False] False by (simp add: CountBits.simps [of v])
  qed
qed

text \<open>Bit \<open>k\<close> of an address, counted from its most significant bit.\<close>

definition addr_bit :: "bytes \<Rightarrow> nat \<Rightarrow> bool" where
  "addr_bit bs k = bit (bs ! (k div 8)) (7 - k mod 8)"

lemma CreateMask8_bits:
  assumes "r < 8"
  obtains m where "CreateMask8 r = Ret () m" "\<And>j. j < 8 \<Longrightarrow> bit m (7 - j) \<longleftrightarrow> r \<le> j"
proof -
  have e: "(push_bit (8 - r) 1 - 1 :: u32) = mask (8 - r)"
    by (simp add: mask_eq_exp_minus_1)
  have "bit (ucast (mask (8 - r) :: u32) :: u8) (7 - j) \<longleftrightarrow> r \<le> j" if "j < 8" for j
    using that assms by (auto simp: bit_simps)
  then show ?thesis using assms e that by (simp add: CreateMask8_def)
qed

lemma on_byte_ok:
  assumes "p < 8 * length bs"
  obtains m where "on_byte f p bs = Ret () (bs[p div 8 := f (bs ! (p div 8)) m])"
    "\<And>j. j < 8 \<Longrightarrow> bit m (7 - j) \<longleftrightarrow> p mod 8 \<le> j"
proof -
  have "p div 8 < length bs" using assms by (simp add: less_mult_imp_div_less mult.commute)
  moreover have "p mod 8 < 8" by simp
  ultimately show ?thesis
    using that by (elim CreateMask8_bits) (simp add: on_byte_def)
qed

lemma div_mod_le: "(p :: nat) div 8 = k div 8 \<Longrightarrow> p mod 8 \<le> k mod 8 \<longleftrightarrow> p \<le> k"
  by (metis add_le_cancel_left div_mod_decomp)

lemma div_less_le: "(k :: nat) div 8 < p div 8 \<Longrightarrow> k < p"
  by (metis div_le_mono leD leI)

lemma bit_full_byte: "j < 8 \<Longrightarrow> bit (0xFF :: u8) j"
proof -
  have e: "(0xFF :: u8) = - 1" by simp
  show "j < 8 \<Longrightarrow> bit (0xFF :: u8) j" unfolding e by simp
qed

lemma le_bytes_bitwise:
  "le_bytes n (a OR b) = map2 (OR) (le_bytes n a) (le_bytes n b)"
  "le_bytes n (a AND b) = map2 (AND) (le_bytes n a) (le_bytes n b)"
proof (induction n arbitrary: a b)
  case (Suc n)
  {
    case 1 show ?case using Suc by (simp add: drop_bit_or unsigned_or_eq)
  next
    case 2 show ?case using Suc by (simp add: drop_bit_and unsigned_and_eq)
  }
qed simp_all

lemma of_le_bitwise:
  assumes "length xs = length ys"
  shows "of_le (map2 (OR) xs ys) = (of_le xs OR of_le ys :: 'a::len word)"
    "of_le (map2 (AND) xs ys) = (of_le xs AND of_le ys :: 'a::len word)"
  using assms
proof (induction xs ys rule: list_induct2)
  case (Cons x xs y ys)
  have out: "\<not> bit b n" if "8 \<le> n" for b :: u8 and n
    using that bit_imp_le_length [of b n] by auto
  {
    case 1 show ?case using Cons by (auto intro!: bit_word_eqI simp: bit_simps)
  next
    case 2 show ?case using Cons by (auto intro!: bit_word_eqI simp: bit_simps out)
  }
qed simp_all

lemma byteswap32_bitwise:
  "byteswap32 (a OR b) = byteswap32 a OR byteswap32 b"
  "byteswap32 (a AND b) = byteswap32 a AND byteswap32 b"
  by (simp_all add: byteswap32_def bswap_def le_bytes_bitwise rev_map zip_rev [symmetric] of_le_bitwise)

lemma swap32 [simp]: "byteswapOnLittleEndian32 x = byteswap32 x"
  by (simp add: byteswapOnLittleEndian32_def byte_order_defs)

lemma swap16 [simp]: "byteswapOnLittleEndian16 x = byteswap16 x"
  by (simp add: byteswapOnLittleEndian16_def byte_order_defs)

lemma CountBits_0: "CountBits (0 :: 'a::len word) = 0"
  by (subst CountBits.simps) simp

lemma CountBits_FF: "CountBits (0xFF :: u8) = 8"
  by (simp add: CountBits.simps)

lemma CountBits_CreateMask8:
  assumes "r < 8"
  shows "\<exists>m. CreateMask8 r = Ret () m \<and> CountBits (NOT m) = r"
proof -
  have "r = 0 \<or> r = 1 \<or> r = 2 \<or> r = 3 \<or> r = 4 \<or> r = 5 \<or> r = 6 \<or> r = 7" using assms by auto
  then show ?thesis by (elim disjE) (simp_all add: CreateMask8_def CountBits.simps)
qed

lemma takeWhile_stop: "d \<notin> set xs \<Longrightarrow> takeWhile (\<lambda>x. x \<noteq> d) (xs @ d # r) = xs"
  by (induction xs) auto

section \<open>Properties\<close>

lemma address_order_laws:
  assumes "address_wf a" "address_wf b" "address_wf c"
  shows "address_less a b \<longleftrightarrow> \<not> address_eq a b \<and> \<not> address_less b a"
    and "address_less a b \<Longrightarrow> address_less b c \<Longrightarrow> address_less a c"
    and "address_neq a b \<longleftrightarrow> address_less a b \<or> address_less b a"
  using bytes_less_total bytes_less_irrefl bytes_less_trans
  by (metis address_less_key address_eq_key address_neq_def assms)+

text \<open>The comparison of addresses is a strict total order that agrees with equality: for
  any two addresses exactly one of less, equal and greater holds, and less is transitive.\<close>

theorem address_order:
  assumes "address_wf a" "address_wf b" "address_wf c"
  shows "(address_less a b \<longleftrightarrow> \<not> address_eq a b \<and> \<not> address_less b a) \<and>
    (address_less a b \<and> address_less b c \<longrightarrow> address_less a c) \<and>
    (address_neq a b \<longleftrightarrow> address_less a b \<or> address_less b a)"
  using address_order_laws [OF assms] by blast

theorem address_order_witness:
  "address_less (IPv4Address (IPv4_any 1 0)) (IPv4Address (IPv4_any 2 0)) \<longleftrightarrow>
     \<not> address_eq (IPv4Address (IPv4_any 1 0)) (IPv4Address (IPv4_any 2 0)) \<and>
     \<not> address_less (IPv4Address (IPv4_any 2 0)) (IPv4Address (IPv4_any 1 0))"
  using address_order [of "IPv4Address (IPv4_any 1 0)" "IPv4Address (IPv4_any 2 0)" "IPv4Address (IPv4_any 1 0)"]
  by (simp add: IPv4_any_def)

lemma ipv6_subnet_bits:
  assumes "length (s6_addr a) = 16"
  shows "p < 128 \<Longrightarrow> \<exists>m b n. subnetMask6 p = Ret () m \<and> broadcast6 a p = Ret () b \<and> network6 a p = Ret () n \<and>
     (\<forall>k < 128. (addr_bit (s6_addr m) k \<longleftrightarrow> k < p) \<and>
        (addr_bit (s6_addr b) k \<longleftrightarrow> addr_bit (s6_addr a) k \<or> p \<le> k) \<and>
        (addr_bit (s6_addr n) k \<longleftrightarrow> addr_bit (s6_addr a) k \<and>
           (k div 8 < p div 8 \<or> k div 8 = p div 8 \<and> p \<le> k)))"
    and "128 \<le> p \<Longrightarrow> subnetMask6 p = Ub \<and> broadcast6 a p = Ub \<and> network6 a p = Ub"
proof -
  assume p: "p < 128"
  define q where "q = p div 8"
  have q: "q < 16" using p by (simp add: q_def)
  have z: "length (s6_addr IPv6_any) = 16" by (simp add: IPv6_any_def)
  obtain m where m: "on_byte (\<lambda>x mask. NOT mask) p (s6_addr IPv6_any) = Ret () ((s6_addr IPv6_any)[p div 8 := NOT m])"
    "\<And>j. j < 8 \<Longrightarrow> bit m (7 - j) \<longleftrightarrow> p mod 8 \<le> j"
    using on_byte_ok [of p "s6_addr IPv6_any" "\<lambda>x mask. NOT mask"] p z by auto
  obtain b where b: "on_byte (\<lambda>x mask. x OR mask) p (s6_addr a) = Ret () ((s6_addr a)[p div 8 := s6_addr a ! (p div 8) OR b])"
    "\<And>j. j < 8 \<Longrightarrow> bit b (7 - j) \<longleftrightarrow> p mod 8 \<le> j"
    using on_byte_ok [of p "s6_addr a" "\<lambda>x mask. x OR mask"] p assms by auto
  obtain n where n: "on_byte (\<lambda>x mask. x AND mask) p (s6_addr a) = Ret () ((s6_addr a)[p div 8 := s6_addr a ! (p div 8) AND n])"
    "\<And>j. j < 8 \<Longrightarrow> bit n (7 - j) \<longleftrightarrow> p mod 8 \<le> j"
    using on_byte_ok [of p "s6_addr a" "\<lambda>x mask. x AND mask"] p assms by auto
  let ?M = "replicate q 0xFF @ drop q ((s6_addr IPv6_any)[q := NOT m])"
  let ?B = "fill_after q 0xFF ((s6_addr a)[q := s6_addr a ! q OR b])"
  let ?N = "fill_after q 0 ((s6_addr a)[q := s6_addr a ! q AND n])"
  have bits: "(addr_bit ?M k \<longleftrightarrow> k < p) \<and> (addr_bit ?B k \<longleftrightarrow> addr_bit (s6_addr a) k \<or> p \<le> k) \<and>
      (addr_bit ?N k \<longleftrightarrow> addr_bit (s6_addr a) k \<and> (k div 8 < q \<or> k div 8 = q \<and> p \<le> k))" if "k < 128" for k
  proof -
    have i: "k div 8 < 16" and j: "k mod 8 < 8" using that by simp_all
    have f: "bit (0xFF :: u8) (7 - k mod 8)" by (rule bit_full_byte) simp
    consider "k div 8 < q" | "k div 8 = q" | "q < k div 8" by linarith
    then show ?thesis
    proof cases
      case 1
      then have "k < p" unfolding q_def by (rule div_less_le)
      then show ?thesis using 1 f assms q
        by (simp add: addr_bit_def nth_append fill_after_def)
    next
      case 2
      then have "p mod 8 \<le> k mod 8 \<longleftrightarrow> p \<le> k" unfolding q_def by (intro div_mod_le) simp
      then show ?thesis using 2 m(2) [OF j] b(2) [OF j] n(2) [OF j] assms q
        by (auto simp: addr_bit_def nth_append fill_after_def IPv6_any_def bit_simps)
    next
      case 3
      then have "p < k" unfolding q_def by (rule div_less_le)
      then show ?thesis using 3 f assms q i
        by (simp add: addr_bit_def nth_append fill_after_def IPv6_any_def)
    qed
  qed
  show "\<exists>m b n. subnetMask6 p = Ret () m \<and> broadcast6 a p = Ret () b \<and> network6 a p = Ret () n \<and>
     (\<forall>k < 128. (addr_bit (s6_addr m) k \<longleftrightarrow> k < p) \<and>
        (addr_bit (s6_addr b) k \<longleftrightarrow> addr_bit (s6_addr a) k \<or> p \<le> k) \<and>
        (addr_bit (s6_addr n) k \<longleftrightarrow> addr_bit (s6_addr a) k \<and>
           (k div 8 < p div 8 \<or> k div 8 = p div 8 \<and> p \<le> k)))"
    by (intro exI [of _ "IPv6_any\<lparr>s6_addr := ?M\<rparr>"] exI [of _ "a\<lparr>s6_addr := ?B\<rparr>"]
        exI [of _ "a\<lparr>s6_addr := ?N\<rparr>"])
      (use bits m(1) b(1) n(1) in \<open>simp add: subnetMask6_def broadcast6_def network6_def q_def\<close>)
next
  assume "128 \<le> p"
  then have "16 \<le> p div 8" by simp
  then show "subnetMask6 p = Ub \<and> broadcast6 a p = Ub \<and> network6 a p = Ub"
    using assms by (simp add: subnetMask6_def broadcast6_def network6_def on_byte_def IPv6_any_def)
qed

text \<open>C38. The IPv6 subnet operations, bit by bit from the most significant one: the subnet mask
  sets exactly the first \<open>p\<close> bits, the broadcast address sets every bit from \<open>p\<close> on and keeps
  the others, and the network address is wrong in the byte that contains the boundary, where it
  keeps the host bits and clears the network bits. From prefix length 128 on all three index
  past the address.\<close>

theorem ipv6_subnets:
  assumes "length (s6_addr a) = 16"
  shows "if p < 128
    then \<exists>m b n. subnetMask6 p = Ret () m \<and> broadcast6 a p = Ret () b \<and> network6 a p = Ret () n \<and>
     (\<forall>k < 128. (addr_bit (s6_addr m) k \<longleftrightarrow> k < p) \<and>
        (addr_bit (s6_addr b) k \<longleftrightarrow> addr_bit (s6_addr a) k \<or> p \<le> k) \<and>
        (addr_bit (s6_addr n) k \<longleftrightarrow> addr_bit (s6_addr a) k \<and>
           (k div 8 < p div 8 \<or> k div 8 = p div 8 \<and> p \<le> k)))
    else subnetMask6 p = Ub \<and> broadcast6 a p = Ub \<and> network6 a p = Ub"
  using ipv6_subnet_bits [OF assms, of p] by simp

theorem ipv6_subnets_witness:
  "\<exists>m. subnetMask6 61 = Ret () m \<and> (\<forall>k < 128. addr_bit (s6_addr m) k \<longleftrightarrow> k < 61)"
  using ipv6_subnets [of IPv6_any 61] by (auto simp: IPv6_any_def)

text \<open>The IPv4 subnet operations, on the value of the address in host order and for prefix
  lengths from 2 to 31: the broadcast address sets the host bits, but the network address keeps
  the host bits and clears the network bits, and the subnet mask is 0.0.0.0 whatever the prefix
  length. Prefix lengths 0 and 1 overflow the shift, and from 32 on the result is null.\<close>

theorem ipv4_subnets:
  shows "2 \<le> p \<Longrightarrow> p < 32 \<Longrightarrow> \<exists>b n m. broadcast4 a p = Ret () (Some b) \<and> network4 a p = Ret () (Some n) \<and>
     subnetMask4 p = Ret () (Some m) \<and>
     byteswap32 (s_addr b) = byteswap32 (s_addr a) OR mask (32 - p) \<and>
     byteswap32 (s_addr n) = byteswap32 (s_addr a) AND mask (32 - p) \<and> s_addr m = 0"
    and "p < 2 \<Longrightarrow> broadcast4 a p = Ub \<and> network4 a p = Ub \<and> subnetMask4 p = Ub"
    and "32 \<le> p \<Longrightarrow> broadcast4 a p = Ret () None \<and> network4 a p = Ret () None \<and> subnetMask4 p = Ret () None"
proof -
  assume p: "2 \<le> p" "p < 32"
  have "CreateMask32 p = Ret () (mask (32 - p))"
    using p by (simp add: CreateMask32_def mask_eq_exp_minus_1)
  then show "\<exists>b n m. broadcast4 a p = Ret () (Some b) \<and> network4 a p = Ret () (Some n) \<and>
     subnetMask4 p = Ret () (Some m) \<and>
     byteswap32 (s_addr b) = byteswap32 (s_addr a) OR mask (32 - p) \<and>
     byteswap32 (s_addr n) = byteswap32 (s_addr a) AND mask (32 - p) \<and> s_addr m = 0"
    using p by (simp add: broadcast4_def network4_def subnetMask4_def byteswap32_bitwise)
qed (simp_all add: broadcast4_def network4_def subnetMask4_def CreateMask32_def)

theorem ipv4_subnets_witness:
  "\<exists>n. network4 (IPv4_any 0xC0A80105 0) 24 = Ret () (Some n) \<and> byteswap32 (s_addr n) = 5"
  using ipv4_subnets(1) [of 24 "IPv4_any 0xC0A80105 0"] by (auto simp: IPv4_any_def mask_eq_exp_minus_1)

text \<open>The prefix length reported for an interface is the number of bits set in its netmask.
  Counting the bits of the 16 bytes of the mask that \<open>subnetMask\<close> makes for \<open>p\<close> gives \<open>p\<close>
  for every prefix length the operation is defined for.\<close>

theorem prefix_length_counts_bits:
  shows "CountBits (v :: 'a::len word) = card {k. bit v k}"
    and "p < 128 \<Longrightarrow> \<exists>m. subnetMask6 p = Ret () m \<and> prefix_of (Raw_in6 m) = p"
proof -
  show "CountBits (v :: 'a word) = card {k. bit v k}" by (rule CountBits_card)
next
  assume p: "p < 128"
  define q where "q = p div 8"
  have q: "q < 16" using p by (simp add: q_def)
  obtain m where m: "CreateMask8 (p mod 8) = Ret () m" "CountBits (NOT m) = p mod 8"
    using CountBits_CreateMask8 [of "p mod 8"] by auto
  let ?bs = "replicate q 0xFF @ drop q ((replicate 16 0)[q := NOT m])"
  have "16 - q = Suc (15 - q)" using q by simp
  then have "drop q ((replicate 16 0)[q := NOT m]) = NOT m # replicate (15 - q) 0"
    using q by (simp add: drop_update_swap)
  then have "sum_list (map CountBits ?bs) = p"
    using m(2) by (simp add: map_replicate CountBits_FF CountBits_0 sum_list_replicate q_def)
  moreover have "subnetMask6 p = Ret () (IPv6_any\<lparr>s6_addr := ?bs\<rparr>)"
    using m(1) p by (simp add: subnetMask6_def on_byte_def IPv6_any_def q_def)
  ultimately show "\<exists>m. subnetMask6 p = Ret () m \<and> prefix_of (Raw_in6 m) = p"
    by (auto simp: IPv6_any_def)
qed

theorem prefix_length_counts_bits_witness:
  "\<exists>m. subnetMask6 61 = Ret () m \<and> prefix_of (Raw_in6 m) = 61"
  by (rule prefix_length_counts_bits(2)) simp

text \<open>A path that fits is read back from the Unix address made of it; an abstract name comes
  back behind a backslash and a zero; a path that does not fit is refused. A path of 107 bytes
  fits, an abstract name of 108.\<close>

theorem unix_path_round_trip:
  assumes "path \<noteq> []"
  shows "0 \<notin> set path \<Longrightarrow> length path \<le> 107 \<Longrightarrow>
      \<exists>a n. UnixAddress_of path = Some (UnixAddress a n) \<and> address_wf (UnixAddress a n) \<and> getPath a n = path"
    and "hd path = 0 \<Longrightarrow> length path \<le> 108 \<Longrightarrow>
      \<exists>a n. UnixAddress_of path = Some (UnixAddress a n) \<and> address_wf (UnixAddress a n) \<and>
        getPath a n = [0x5C, 0x30] @ tl path"
    and "UnixAddress_of path = None \<longleftrightarrow> (if hd path = 0 then 108 < length path else 107 < length path)"
proof -
  assume n: "0 \<notin> set path" "length path \<le> 107"
  then have "hd path \<noteq> 0" using assms by (metis hd_in_set)
  then show "\<exists>a n. UnixAddress_of path = Some (UnixAddress a n) \<and> address_wf (UnixAddress a n) \<and> getPath a n = path"
    using n assms
    by (auto simp: UnixAddress_of_def SUN_PATH_def SUN_OFFSET_def getPath_def overwrite_def takeWhile_stop
        hd_append)
next
  assume n: "hd path = 0" "length path \<le> 108"
  then show "\<exists>a n. UnixAddress_of path = Some (UnixAddress a n) \<and> address_wf (UnixAddress a n) \<and>
        getPath a n = [0x5C, 0x30] @ tl path"
    using assms
    by (intro exI [of _ "\<lparr>sun_family = AF_UNIX, sun_path = path @ replicate (108 - length path) 0\<rparr>"]
        exI [of _ "Suc (Suc (length path))"])
      (simp add: UnixAddress_of_def SUN_PATH_def SUN_OFFSET_def getPath_def overwrite_def Let_def
        Suc_le_eq)
next
  show "UnixAddress_of path = None \<longleftrightarrow> (if hd path = 0 then 108 < length path else 107 < length path)"
    using assms by (simp add: UnixAddress_of_def SUN_PATH_def Let_def Suc_le_eq less_Suc_eq_le not_le)
qed

theorem unix_path_round_trip_witness:
  "\<exists>a n. UnixAddress_of [0x2F, 0x61] = Some (UnixAddress a n) \<and> getPath a n = [0x2F, 0x61]"
  using unix_path_round_trip(1) [of "[0x2F, 0x61]"] by auto

text \<open>\<open>Lookup\<close> takes apart the two forms it knows: a bracketed address with or without a port,
  and anything else at its first colon. So a bare IPv6 address is cut in the middle: its first
  group is looked up as the node with the rest as the service, and the loopback address is
  looked up with the service ":1".\<close>

theorem lookup_splits_host:
  assumes "NUL \<notin> set node" "NUL \<notin> set port" "node \<noteq> []" "port \<noteq> []"
  shows "CHR '']'' \<notin> set node \<Longrightarrow> split_host (''['' @ node @ '']:'' @ port) = (node, Some port)"
    and "CHR '']'' \<notin> set node \<Longrightarrow> split_host (''['' @ node @ '']'') = (node, None)"
    and "CHR '':'' \<notin> set node \<Longrightarrow> hd node \<noteq> CHR ''['' \<Longrightarrow> split_host (node @ '':'' @ port) = (node, Some port)"
    and "CHR '':'' \<notin> set node \<Longrightarrow> hd node \<noteq> CHR ''['' \<Longrightarrow> split_host node = (node, None)"
    and "split_host ''2001:db8::1'' = (''2001'', Some ''db8::1'')"
    and "split_host ''::1'' = (''::1'', Some '':1'')"
proof -
  have c: "c_str node = node" "c_str port = port"
    using assms by (auto simp: c_str_def takeWhile_eq_all_conv)
  note tw = takeWhile_stop [of _ node]
  obtain p ps where ps: "port = p # ps" using assms(4) by (cases port) auto
  obtain h hs where hs: "node = h # hs" using assms(3) by (cases node) auto
  show "split_host (''['' @ node @ '']:'' @ port) = (node, Some port)" if "CHR '']'' \<notin> set node"
    using that tw [of "CHR '']''"] c ps assms(3)
    by (simp add: split_host_def split_bracket_def find_char_def)
  show "split_host (''['' @ node @ '']'') = (node, None)" if "CHR '']'' \<notin> set node"
    using that tw [of "CHR '']''"] c assms(3)
    by (simp add: split_host_def split_bracket_def find_char_def)
  have nb: "split_bracket (node @ r) = ([], None)" if "hd node \<noteq> CHR ''[''" for r
    using that hs by (simp add: split_bracket_def)
  show "split_host (node @ '':'' @ port) = (node, Some port)" if "CHR '':'' \<notin> set node" "hd node \<noteq> CHR ''[''"
    using that tw [of "CHR '':''"] c nb assms(3,4)
    by (simp add: split_host_def split_colon_def find_char_def)
  show "split_host node = (node, None)" if "CHR '':'' \<notin> set node" "hd node \<noteq> CHR ''[''"
    using that c nb [of "[]"] by (simp add: split_host_def split_colon_def find_char_def)
  show "split_host ''2001:db8::1'' = (''2001'', Some ''db8::1'')" "split_host ''::1'' = (''::1'', Some '':1'')"
    by code_simp+
qed

theorem lookup_splits_host_witness:
  "split_host (''['' @ ''::1'' @ '']:'' @ ''80'') = (''::1'', Some ''80'')"
  by (rule lookup_splits_host(1)) (code_simp+)

text \<open>A port that is set is read back, and the port given to the IPv6 factory is the port of the
  address; the IPv4 factory stores it in host order, so that the port of the address it makes
  has its bytes exchanged.\<close>

theorem port_round_trip:
  shows "is_ip a \<Longrightarrow> getPort (setPort a v) = ucast v"
    and "IPv6_Create pton6 txt v = Some b \<Longrightarrow> getPort b = ucast v"
    and "IPv4_Create pton4 txt v = Some b \<Longrightarrow> getPort b = ucast (byteswap16 v)"
proof -
  show "is_ip a \<Longrightarrow> getPort (setPort a v) = ucast v" by (cases a) auto
qed (auto simp: IPv6_Create_def IPv4_Create_def split: option.splits)

theorem port_round_trip_witness:
  "\<exists>b. IPv4_Create (\<lambda>_. Some 0x0100007F) ''127.0.0.1'' 8080 = Some b \<and> getPort b = ucast (byteswap16 8080)"
proof -
  obtain b where b: "IPv4_Create (\<lambda>_. Some 0x0100007F) ''127.0.0.1'' 8080 = Some b"
    by (simp add: IPv4_Create_def)
  then show ?thesis using port_round_trip(3) by blast
qed

end
