(* ===== verification/PicoHttp.thy ===== *)
theory PicoHttp
  imports CStrings
begin

text \<open>
  Model of \<open>src/Http/picohttpparser.c\<close>, the parser of request and response heads and the
  decoder of chunked bodies, in its portable branch (the build sets no SSE flags).

  The pointer \<open>buf\<close> is the list of the characters from it to \<open>buf_end\<close>. A parser returns the
  value it stored through its output arguments and the characters left, or fails with the code
  it wrote to \<open>*ret\<close>: \<open>-1\<close> for bad input, \<open>-2\<close> for input that ends too early.

  The locale \<open>incremental\<close> is what the users of the parser rely on when the input arrives in
  pieces: an answer other than "too early" is not changed by further input. Every parser is
  shown to satisfy it.
\<close>

section \<open>Parsers\<close>

datatype 'a parse = Parsed 'a string | Fail int

fun pbind :: "'a parse \<Rightarrow> ('a \<Rightarrow> string \<Rightarrow> 'b parse) \<Rightarrow> 'b parse" where
  "pbind (Parsed v r) f = f v r"
| "pbind (Fail e) f = Fail e"

definition CR :: char where "CR = CHR 0x0D"
definition LF :: char where "LF = CHR 0x0A"
definition SP :: char where "SP = CHR 0x20"
definition TAB :: char where "TAB = CHR 0x09"

definition IS_PRINTABLE_ASCII :: "char \<Rightarrow> bool" where
  "IS_PRINTABLE_ASCII c \<longleftrightarrow> 32 \<le> code c \<and> code c < 32 + 95"

definition is_blank :: "char \<Rightarrow> bool" where
  "is_blank c \<longleftrightarrow> c = SP \<or> c = TAB"

text \<open>The table of the characters that may be part of a token.\<close>

definition token_char_map :: "nat \<Rightarrow> bool" where
  "token_char_map n \<longleftrightarrow>
     n \<in> {33, 35, 36, 37, 38, 39, 42, 43, 45, 46} \<or> 48 \<le> n \<and> n \<le> 57 \<or> 65 \<le> n \<and> n \<le> 90 \<or>
     n \<in> {94, 95} \<or> 96 \<le> n \<and> n \<le> 122 \<or> n \<in> {124, 126}"

definition token_char :: "char \<Rightarrow> bool" where
  "token_char c = token_char_map (code c)"

fun expect_char :: "char \<Rightarrow> string \<Rightarrow> unit parse" where
  "expect_char ch [] = Fail (- 2)"
| "expect_char ch (c # cs) = (if c = ch then Parsed () cs else Fail (- 1))"

text \<open>\<open>++buf\<close>; never executed at the end of the buffer.\<close>

fun next_char :: "string \<Rightarrow> unit parse" where
  "next_char [] = Fail (- 2)"
| "next_char (c # cs) = Parsed () cs"

fun parse_token :: "char \<Rightarrow> string \<Rightarrow> string parse" where
  "parse_token nxt [] = Fail (- 2)"
| "parse_token nxt (c # cs) =
     (if c = nxt then Parsed [] (c # cs)
      else if \<not> token_char c then Fail (- 1)
      else pbind (parse_token nxt cs) (\<lambda>t r. Parsed (c # t) r))"

text \<open>\<open>ADVANCE_TOKEN\<close>: up to the next space.\<close>

fun advance_token :: "string \<Rightarrow> string parse" where
  "advance_token [] = Fail (- 2)"
| "advance_token (c # cs) =
     (if c = SP then Parsed [] (c # cs)
      else if \<not> IS_PRINTABLE_ASCII c \<and> (code c < 32 \<or> code c = 127) then Fail (- 1)
      else pbind (advance_token cs) (\<lambda>t r. Parsed (c # t) r))"

text \<open>The loop that skips spaces, and the one that skips spaces and tabs.\<close>

fun skip_while :: "(char \<Rightarrow> bool) \<Rightarrow> string \<Rightarrow> unit parse" where
  "skip_while P [] = Fail (- 2)"
| "skip_while P (c # cs) = (if P c then skip_while P cs else Parsed () (c # cs))"

definition is_ctl :: "char \<Rightarrow> bool" where
  "is_ctl c \<longleftrightarrow> \<not> IS_PRINTABLE_ASCII c \<and> (code c < 32 \<and> c \<noteq> TAB \<or> code c = 127)"

fun get_token_to_eol :: "string \<Rightarrow> string parse" where
  "get_token_to_eol [] = Fail (- 2)"
| "get_token_to_eol (c # cs) =
     (if is_ctl c then
        (if c = CR then pbind (expect_char LF cs) (\<lambda>_ r. Parsed [] r)
         else if c = LF then Parsed [] cs
         else Fail (- 1))
      else pbind (get_token_to_eol cs) (\<lambda>t r. Parsed (c # t) r))"

text \<open>The end of a line after a line's content has been read: \<open>None\<close> when there is none here.\<close>

definition line_end :: "string \<Rightarrow> unit parse option" where
  "line_end s =
     (case s of
        c # cs \<Rightarrow> if c = CR then Some (expect_char LF cs) else if c = LF then Some (Parsed () cs) else None
      | [] \<Rightarrow> Some (Fail (- 2)))"

fun is_complete_loop :: "nat \<Rightarrow> string \<Rightarrow> unit parse" where
  "is_complete_loop ret_cnt [] = Fail (- 2)"
| "is_complete_loop ret_cnt [c] =
     (if c = CR then Fail (- 2)
      else if c = LF then (if ret_cnt + 1 = 2 then Parsed () [] else Fail (- 2))
      else Fail (- 2))"
| "is_complete_loop ret_cnt (c # d # cs) =
     (if c = CR then
        (if d \<noteq> LF then Fail (- 1)
         else if ret_cnt + 1 = 2 then Parsed () cs else is_complete_loop (ret_cnt + 1) cs)
      else if c = LF then
        (if ret_cnt + 1 = 2 then Parsed () (d # cs) else is_complete_loop (ret_cnt + 1) (d # cs))
      else is_complete_loop 0 (d # cs))"

definition is_complete :: "string \<Rightarrow> nat \<Rightarrow> unit parse" where
  "is_complete buf last_len = is_complete_loop 0 (if last_len < 3 then buf else drop (last_len - 3) buf)"

definition digit_at :: "char \<Rightarrow> nat \<Rightarrow> nat option" where
  "digit_at c mul = (if code c < 48 \<or> 57 < code c then None else Some (mul * (code c - 48)))"

fun parse_int :: "nat \<Rightarrow> string \<Rightarrow> nat parse" where
  "parse_int mul [] = Fail (- 2)"
| "parse_int mul (c # cs) =
     (case digit_at c mul of None \<Rightarrow> Fail (- 1) | Some v \<Rightarrow> Parsed v cs)"

fun expect_string :: "string \<Rightarrow> string \<Rightarrow> unit parse" where
  "expect_string [] s = Parsed () s"
| "expect_string (ch # chs) s = pbind (expect_char ch s) (\<lambda>_ r. expect_string chs r)"

definition parse_http_version :: "string \<Rightarrow> nat parse" where
  "parse_http_version buf =
     (if length buf < 9 then Fail (- 2)
      else pbind (expect_string ''HTTP/1.'' buf) (\<lambda>_ r. parse_int 1 r))"

text \<open>A header; the name of a continuation line is null, which is the empty string here.\<close>

type_synonym phr_header = "string \<times> string"

definition trim_end :: "string \<Rightarrow> string" where
  "trim_end s = rev (dropWhile is_blank (rev s))"

definition header_name :: "bool \<Rightarrow> string \<Rightarrow> string parse" where
  "header_name first buf =
     (case buf of
        c # _ \<Rightarrow>
          (if \<not> (\<not> first \<and> is_blank c) then
             pbind (parse_token (CHR '':'') buf) (\<lambda>nm r.
               if nm = [] then Fail (- 1)
               else pbind (next_char r) (\<lambda>_ r. pbind (skip_while is_blank r) (\<lambda>_ r. Parsed nm r)))
           else Parsed [] buf)
      | [] \<Rightarrow> Fail (- 2))"

definition one_header :: "bool \<Rightarrow> string \<Rightarrow> phr_header parse" where
  "one_header first buf =
     pbind (header_name first buf) (\<lambda>nm r. pbind (get_token_to_eol r) (\<lambda>val r. Parsed (nm, trim_end val) r))"

lemma pbind_Parsed_iff: "pbind p f = Parsed v r \<longleftrightarrow> (\<exists>u s. p = Parsed u s \<and> f u s = Parsed v r)"
  by (cases p) auto

lemma expect_shorter: "expect_char c s = Parsed v r \<Longrightarrow> length r < length s"
  by (cases s) (auto split: if_splits)

lemma parse_token_shorter: "parse_token c s = Parsed t r \<Longrightarrow> length r \<le> length s \<and> r \<noteq> []"
  by (induction c s arbitrary: t rule: parse_token.induct) (fastforce simp: pbind_Parsed_iff split: if_splits)+

lemma skip_while_shorter: "skip_while P s = Parsed t r \<Longrightarrow> length r \<le> length s"
  by (induction P s rule: skip_while.induct) (auto split: if_splits)

lemma next_shorter: "next_char s = Parsed v r \<Longrightarrow> length r < length s"
  by (cases s) auto

lemma eol_shorter: "get_token_to_eol s = Parsed t r \<Longrightarrow> length r < length s"
proof (induction s arbitrary: t rule: get_token_to_eol.induct)
  case (2 c cs)
  then show ?case by (cases cs) (fastforce simp: pbind_Parsed_iff split: if_splits)+
qed auto

lemma one_header_shorter: "one_header first s = Parsed h r \<Longrightarrow> length r < length s"
  by (auto simp: one_header_def header_name_def pbind_Parsed_iff split: list.splits if_splits
      dest!: eol_shorter skip_while_shorter parse_token_shorter expect_shorter
        next_shorter)

function parse_headers :: "nat \<Rightarrow> phr_header list \<Rightarrow> string \<Rightarrow> phr_header list parse" where
  "parse_headers max_headers headers buf =
     (case line_end buf of
        Some e \<Rightarrow> pbind e (\<lambda>_ r. Parsed headers r)
      | None \<Rightarrow>
          (if length headers = max_headers then Fail (- 1)
           else case one_header (headers = []) buf of
               Parsed h r \<Rightarrow> parse_headers max_headers (headers @ [h]) r
             | Fail e \<Rightarrow> Fail e))"
  by auto
termination
  by (relation "measure (\<lambda>(m, hs, s). length s)") (auto dest: one_header_shorter)

declare parse_headers.simps [simp del]

record phr_request =
  pr_method :: string
  pr_path :: string
  pr_minor :: nat
  pr_headers :: "phr_header list"

definition skip_empty_line :: "string \<Rightarrow> unit parse" where
  "skip_empty_line buf = (case line_end buf of Some e \<Rightarrow> e | None \<Rightarrow> Parsed () buf)"

definition end_of_line :: "string \<Rightarrow> unit parse" where
  "end_of_line buf = (case line_end buf of Some e \<Rightarrow> e | None \<Rightarrow> Fail (- 1))"

text \<open>\<open>do { ++buf; CHECK_EOF(); } while (*buf == ' ')\<close>.\<close>

definition skip_spaces :: "string \<Rightarrow> unit parse" where
  "skip_spaces buf = pbind (next_char buf) (\<lambda>_ buf. skip_while (\<lambda>c. c = SP) buf)"

definition parse_request :: "nat \<Rightarrow> string \<Rightarrow> phr_request parse" where
  "parse_request max_headers buf =
     pbind (skip_empty_line buf) (\<lambda>_ buf.
     pbind (parse_token SP buf) (\<lambda>meth buf.
     pbind (skip_spaces buf) (\<lambda>_ buf.
     pbind (advance_token buf) (\<lambda>path buf.
     pbind (skip_spaces buf) (\<lambda>_ buf.
     if meth = [] \<or> path = [] then Fail (- 1)
     else
       pbind (parse_http_version buf) (\<lambda>minor buf.
       pbind (end_of_line buf) (\<lambda>_ buf.
       pbind (parse_headers max_headers [] buf) (\<lambda>hs r.
         Parsed \<lparr>pr_method = meth, pr_path = path, pr_minor = minor, pr_headers = hs\<rparr> r))))))))"

text \<open>The result of the two entry points: the return value, and the outputs when it is positive.\<close>

definition phr_parse :: "(string \<Rightarrow> 'a parse) \<Rightarrow> string \<Rightarrow> nat \<Rightarrow> int \<times> 'a option" where
  "phr_parse p buf last_len =
     (case if last_len \<noteq> 0 then is_complete buf last_len else Parsed () [] of
        Fail e \<Rightarrow> (e, None)
      | Parsed _ _ \<Rightarrow>
          (case p buf of
             Fail e \<Rightarrow> (e, None)
           | Parsed v r \<Rightarrow> (int (length buf) - int (length r), Some v)))"

definition phr_parse_request :: "nat \<Rightarrow> string \<Rightarrow> nat \<Rightarrow> int \<times> phr_request option" where
  "phr_parse_request max_headers = phr_parse (parse_request max_headers)"

record phr_response =
  ps_minor :: nat
  ps_status :: nat
  ps_msg :: string
  ps_headers :: "phr_header list"

definition parse_status :: "string \<Rightarrow> nat parse" where
  "parse_status buf =
     (if length buf < 4 then Fail (- 2)
      else pbind (parse_int 100 buf) (\<lambda>a buf. pbind (parse_int 10 buf) (\<lambda>b buf.
           pbind (parse_int 1 buf) (\<lambda>c buf. Parsed (a + b + c) buf))))"

definition parse_msg :: "string \<Rightarrow> string parse" where
  "parse_msg buf =
     pbind (get_token_to_eol buf) (\<lambda>msg buf.
       if msg = [] then Parsed [] buf
       else if hd msg = SP then Parsed (dropWhile (\<lambda>c. c = SP) msg) buf
       else Fail (- 1))"

definition parse_sp :: "string \<Rightarrow> unit parse" where
  "parse_sp buf = (case buf of [] \<Rightarrow> Fail (- 2)
     | c # _ \<Rightarrow> if c \<noteq> SP then Fail (- 1) else skip_spaces buf)"

definition parse_response :: "nat \<Rightarrow> string \<Rightarrow> phr_response parse" where
  "parse_response max_headers buf =
     pbind (parse_http_version buf) (\<lambda>minor buf.
     pbind (parse_sp buf) (\<lambda>_ buf.
     pbind (parse_status buf) (\<lambda>status buf.
     pbind (parse_msg buf) (\<lambda>msg buf.
     pbind (parse_headers max_headers [] buf) (\<lambda>hs r.
       Parsed \<lparr>ps_minor = minor, ps_status = status, ps_msg = msg, ps_headers = hs\<rparr> r)))))"

definition phr_parse_response :: "nat \<Rightarrow> string \<Rightarrow> nat \<Rightarrow> int \<times> phr_response option" where
  "phr_parse_response max_headers = phr_parse (parse_response max_headers)"

definition phr_parse_headers :: "nat \<Rightarrow> string \<Rightarrow> nat \<Rightarrow> int \<times> phr_header list option" where
  "phr_parse_headers max_headers = phr_parse (parse_headers max_headers [])"

section \<open>Incremental parsers\<close>

text \<open>
  \<open>ok_more\<close> and \<open>bad_more\<close>: success and failure stand when more input follows.
  \<open>ok_suffix\<close>: what is left is a suffix of the input.
\<close>

locale incremental =
  fixes p :: "string \<Rightarrow> 'a parse"
  assumes ok_more: "p xs = Parsed v r \<Longrightarrow> p (xs @ ys) = Parsed v (r @ ys)"
    and bad_more: "p xs = Fail (- 1) \<Longrightarrow> p (xs @ ys) = Fail (- 1)"
    and fail_code: "p xs = Fail e \<Longrightarrow> e = - 1 \<or> e = - 2"
    and ok_suffix: "p xs = Parsed v r \<Longrightarrow> \<exists>u. xs = u @ r"
begin

text \<open>An input whose parse succeeds only with the help of what follows is reported as too short.\<close>

lemma short_input:
  assumes "p (xs @ ys) = Parsed v r" "length r < length ys"
  shows "p xs = Fail (- 2)"
proof (cases "p xs")
  case (Parsed w s)
  then have "p (xs @ ys) = Parsed w (s @ ys)" by (rule ok_more)
  then show ?thesis using assms by simp
next
  case (Fail e)
  then show ?thesis using fail_code [OF Fail] bad_more [of xs ys] assms(1) by auto
qed

lemma ok_length: "p xs = Parsed v r \<Longrightarrow> length r \<le> length xs"
  using ok_suffix by force

end

text \<open>The laws are kept by sequencing, and hold for the elementary parsers.\<close>

lemma incremental_bind:
  assumes "incremental p" "\<And>v. incremental (f v)"
  shows "incremental (\<lambda>s. pbind (p s) f)"
proof (rule incremental.intro)
  fix xs ys v r
  assume "pbind (p xs) f = Parsed v r"
  then obtain u s where "p xs = Parsed u s" "f u s = Parsed v r" by (auto simp: pbind_Parsed_iff)
  then show "pbind (p (xs @ ys)) f = Parsed v (r @ ys)" "\<exists>u. xs = u @ r"
    using incremental.ok_more [OF assms(1)] incremental.ok_more [OF assms(2)]
      incremental.ok_suffix [OF assms(1)] incremental.ok_suffix [OF assms(2)]
    by (simp, metis append.assoc)
next
  fix xs ys
  assume a: "pbind (p xs) f = Fail (- 1)"
  then show "pbind (p (xs @ ys)) f = Fail (- 1)"
    using incremental.bad_more [OF assms(1)] incremental.ok_more [OF assms(1)]
      incremental.bad_more [OF assms(2)]
    by (cases "p xs") auto
next
  fix xs e
  assume "pbind (p xs) f = Fail e"
  then show "e = - 1 \<or> e = - 2"
    using incremental.fail_code [OF assms(1)] incremental.fail_code [OF assms(2)]
    by (cases "p xs") auto
qed

lemma incremental_return: "incremental (Parsed v)"
  by unfold_locales auto

lemma incremental_if:
  "(b \<Longrightarrow> incremental p) \<Longrightarrow> (\<not> b \<Longrightarrow> incremental q) \<Longrightarrow> incremental (\<lambda>s. if b then p s else q s)"
  by (cases b) simp_all

lemma incremental_fail: "incremental (\<lambda>s. Fail (- 1))"
  by unfold_locales auto

text \<open>A guard that waits for \<open>n\<close> characters.\<close>

lemma incremental_at_least:
  assumes "incremental p"
  shows "incremental (\<lambda>s. if length s < n then Fail (- 2) else p s)"
  by (rule incremental.intro)
    (use incremental.ok_more [OF assms] incremental.bad_more [OF assms] incremental.fail_code [OF assms]
      incremental.ok_suffix [OF assms] in \<open>auto split: if_splits\<close>)

text \<open>A parser that first looks at the next character.\<close>

lemma incremental_case:
  assumes "\<And>c. incremental (\<lambda>cs. f c (c # cs))"
  shows "incremental (\<lambda>s. case s of [] \<Rightarrow> Fail (- 2) | c # cs \<Rightarrow> f c s)"
proof (rule incremental.intro)
  fix xs ys v r
  assume a: "(case xs of [] \<Rightarrow> Fail (- 2) | c # cs \<Rightarrow> f c xs) = Parsed v r"
  then obtain c cs where x: "xs = c # cs" "f c (c # cs) = Parsed v r" by (cases xs) auto
  then show "(case xs @ ys of [] \<Rightarrow> Fail (- 2) | c # cs \<Rightarrow> f c (xs @ ys)) = Parsed v (r @ ys)"
    using incremental.ok_more [OF assms, of c cs v r ys] by simp
  obtain u where "cs = u @ r" using incremental.ok_suffix [OF assms x(2)] ..
  then show "\<exists>u. xs = u @ r" using x(1) by (intro exI [of _ "c # u"]) simp
next
  fix xs ys
  assume "(case xs of [] \<Rightarrow> Fail (- 2) | c # cs \<Rightarrow> f c xs) = Fail (- 1)"
  then show "(case xs @ ys of [] \<Rightarrow> Fail (- 2) | c # cs \<Rightarrow> f c (xs @ ys)) = Fail (- 1)"
    using incremental.bad_more [OF assms] by (cases xs) auto
next
  fix xs e
  assume "(case xs of [] \<Rightarrow> Fail (- 2) | c # cs \<Rightarrow> f c xs) = Fail e"
  then show "e = - 1 \<or> e = - 2"
    using incremental.fail_code [OF assms] by (cases xs) auto
qed

interpretation expect: incremental "expect_char ch" for ch
proof
  fix xs ys :: string and v r e
  show "expect_char ch xs = Parsed v r \<Longrightarrow> expect_char ch (xs @ ys) = Parsed v (r @ ys)"
    "expect_char ch xs = Fail (- 1) \<Longrightarrow> expect_char ch (xs @ ys) = Fail (- 1)"
    "expect_char ch xs = Fail e \<Longrightarrow> e = - 1 \<or> e = - 2"
    "expect_char ch xs = Parsed v r \<Longrightarrow> \<exists>u. xs = u @ r"
    by (cases xs; auto split: if_splits)+
qed

interpretation token: incremental "parse_token c" for c
proof
  fix xs ys :: string and v r e
  show "parse_token c xs = Parsed v r \<Longrightarrow> parse_token c (xs @ ys) = Parsed v (r @ ys)"
    by (induction c xs arbitrary: v rule: parse_token.induct) (auto simp: pbind_Parsed_iff split: if_splits)
  show "parse_token c xs = Fail (- 1) \<Longrightarrow> parse_token c (xs @ ys) = Fail (- 1)"
    by (induction c xs rule: parse_token.induct) (auto split: if_splits elim!: pbind.elims)
  show "parse_token c xs = Fail e \<Longrightarrow> e = - 1 \<or> e = - 2"
    by (induction c xs rule: parse_token.induct) (auto split: if_splits elim!: pbind.elims)
  show "parse_token c xs = Parsed v r \<Longrightarrow> \<exists>u. xs = u @ r"
    by (induction c xs arbitrary: v rule: parse_token.induct)
      (auto simp: pbind_Parsed_iff split: if_splits intro: exI [of _ "_ # _"])
qed

interpretation target: incremental advance_token
proof
  fix xs ys :: string and v r e
  show "advance_token xs = Parsed v r \<Longrightarrow> advance_token (xs @ ys) = Parsed v (r @ ys)"
    by (induction xs arbitrary: v) (auto simp: pbind_Parsed_iff split: if_splits)
  show "advance_token xs = Fail (- 1) \<Longrightarrow> advance_token (xs @ ys) = Fail (- 1)"
    by (induction xs) (auto split: if_splits elim!: pbind.elims)
  show "advance_token xs = Fail e \<Longrightarrow> e = - 1 \<or> e = - 2"
    by (induction xs) (auto split: if_splits elim!: pbind.elims)
  show "advance_token xs = Parsed v r \<Longrightarrow> \<exists>u. xs = u @ r"
    by (induction xs arbitrary: v) (auto simp: pbind_Parsed_iff split: if_splits intro: exI [of _ "_ # _"])
qed

interpretation skip: incremental "skip_while P" for P
proof
  fix xs ys :: string and v r e
  show "skip_while P xs = Parsed v r \<Longrightarrow> skip_while P (xs @ ys) = Parsed v (r @ ys)"
    by (induction xs) (auto split: if_splits)
  show "skip_while P xs = Fail (- 1) \<Longrightarrow> skip_while P (xs @ ys) = Fail (- 1)"
    by (induction xs) (auto split: if_splits)
  show "skip_while P xs = Fail e \<Longrightarrow> e = - 1 \<or> e = - 2"
    by (induction xs) (auto split: if_splits)
  show "skip_while P xs = Parsed v r \<Longrightarrow> \<exists>u. xs = u @ r"
    by (induction xs) (auto split: if_splits intro: exI [of _ "_ # _"])
qed

interpretation eol: incremental get_token_to_eol
proof
  fix xs ys :: string and v r e
  show "get_token_to_eol xs = Parsed v r \<Longrightarrow> get_token_to_eol (xs @ ys) = Parsed v (r @ ys)"
    by (induction xs arbitrary: v) (auto simp: pbind_Parsed_iff expect.ok_more split: if_splits)
  show "get_token_to_eol xs = Fail (- 1) \<Longrightarrow> get_token_to_eol (xs @ ys) = Fail (- 1)"
    by (induction xs) (auto simp: expect.bad_more split: if_splits elim!: pbind.elims)
  show "get_token_to_eol xs = Fail e \<Longrightarrow> e = - 1 \<or> e = - 2"
    by (induction xs) (auto split: if_splits elim!: pbind.elims dest: expect.fail_code)
  show "get_token_to_eol xs = Parsed v r \<Longrightarrow> \<exists>u. xs = u @ r"
  proof (induction xs arbitrary: v)
    case (Cons c cs)
    then show ?case using expect.ok_suffix [of LF cs]
      by (auto simp: pbind_Parsed_iff split: if_splits intro: exI [of _ "_ # _"])
  qed simp
qed

lemma incremental_peek:
  assumes "\<And>c. incremental (f c)"
  shows "incremental (\<lambda>s. case s of [] \<Rightarrow> Fail (- 2) | c # _ \<Rightarrow> f c s)"
proof (rule incremental.intro)
  fix xs ys v r
  assume "(case xs of [] \<Rightarrow> Fail (- 2) | c # _ \<Rightarrow> f c xs) = Parsed v r"
  then obtain c cs where x: "xs = c # cs" "f c (c # cs) = Parsed v r" by (cases xs) auto
  then show "(case xs @ ys of [] \<Rightarrow> Fail (- 2) | c # _ \<Rightarrow> f c (xs @ ys)) = Parsed v (r @ ys)"
    "\<exists>u. xs = u @ r"
    using incremental.ok_more [OF assms, of c "c # cs" v r ys] incremental.ok_suffix [OF assms x(2)]
    by simp_all
next
  fix xs ys
  assume "(case xs of [] \<Rightarrow> Fail (- 2) | c # _ \<Rightarrow> f c xs) = Fail (- 1)"
  then show "(case xs @ ys of [] \<Rightarrow> Fail (- 2) | c # _ \<Rightarrow> f c (xs @ ys)) = Fail (- 1)"
    using incremental.bad_more [OF assms] by (cases xs) fastforce+
next
  fix xs e
  assume "(case xs of [] \<Rightarrow> Fail (- 2) | c # _ \<Rightarrow> f c xs) = Fail e"
  then show "e = - 1 \<or> e = - 2"
    using incremental.fail_code [OF assms] by (cases xs) auto
qed

interpretation nxt: incremental next_char
proof
  fix xs ys :: string and v r e
  show "next_char xs = Parsed v r \<Longrightarrow> next_char (xs @ ys) = Parsed v (r @ ys)"
    "next_char xs = Fail (- 1) \<Longrightarrow> next_char (xs @ ys) = Fail (- 1)"
    "next_char xs = Fail e \<Longrightarrow> e = - 1 \<or> e = - 2"
    "next_char xs = Parsed v r \<Longrightarrow> \<exists>u. xs = u @ r"
    by (cases xs; auto)+
qed

interpretation digit: incremental "parse_int m" for m
proof
  fix xs ys :: string and v r e
  show "parse_int m xs = Parsed v r \<Longrightarrow> parse_int m (xs @ ys) = Parsed v (r @ ys)"
    "parse_int m xs = Fail (- 1) \<Longrightarrow> parse_int m (xs @ ys) = Fail (- 1)"
    "parse_int m xs = Fail e \<Longrightarrow> e = - 1 \<or> e = - 2"
    "parse_int m xs = Parsed v r \<Longrightarrow> \<exists>u. xs = u @ r"
    by (cases xs; auto split: option.splits)+
qed

lemmas incremental_intros = incremental_bind incremental_return incremental_if incremental_fail
  incremental_peek incremental_at_least incremental_case nxt.incremental_axioms
  expect.incremental_axioms token.incremental_axioms target.incremental_axioms
  skip.incremental_axioms eol.incremental_axioms digit.incremental_axioms

lemma incremental_string: "incremental (expect_string s)"
  by (induction s) (auto intro!: incremental_intros)

lemma incremental_version: "incremental parse_http_version"
  unfolding parse_http_version_def by (intro incremental_intros incremental_string)

lemma incremental_header: "incremental (one_header first)"
proof -
  have p: "incremental (\<lambda>s. Parsed [] s)" by (rule incremental_return)
  have "incremental (header_name first)"
    unfolding header_name_def by (intro incremental_intros)
  then show ?thesis unfolding one_header_def by (intro incremental_intros)
qed

interpretation hdr: incremental "one_header first" for first
  by (rule incremental_header)

lemma line_end_Cons:
  "line_end (c # cs) = (if c = CR then Some (expect_char LF cs) else if c = LF then Some (Parsed () cs) else None)"
  by (simp add: line_end_def)

lemma line_end_cases:
  "line_end xs = None \<Longrightarrow> line_end (xs @ ys) = None"
  "line_end xs = Some (Parsed v r) \<Longrightarrow> line_end (xs @ ys) = Some (Parsed v (r @ ys))"
  "line_end xs = Some (Fail (- 1)) \<Longrightarrow> line_end (xs @ ys) = Some (Fail (- 1))"
  "line_end xs = Some (Fail e) \<Longrightarrow> e = - 1 \<or> e = - 2"
proof -
  have n: "line_end [] = Some (Fail (- 2))" by (simp add: line_end_def)
  show "line_end xs = None \<Longrightarrow> line_end (xs @ ys) = None"
    by (cases xs) (auto simp: line_end_Cons n split: if_splits)
  show "line_end xs = Some (Parsed v r) \<Longrightarrow> line_end (xs @ ys) = Some (Parsed v (r @ ys))"
    by (cases xs) (auto simp: line_end_Cons n expect.ok_more split: if_splits)
  show "line_end xs = Some (Fail (- 1)) \<Longrightarrow> line_end (xs @ ys) = Some (Fail (- 1))"
    by (cases xs) (auto simp: line_end_Cons n expect.bad_more split: if_splits)
  show "line_end xs = Some (Fail e) \<Longrightarrow> e = - 1 \<or> e = - 2"
    by (cases xs) (auto simp: line_end_Cons n dest: expect.fail_code split: if_splits)
qed

lemma line_end_suffix: "line_end xs = Some (Parsed v r) \<Longrightarrow> \<exists>u. xs = u @ r"
proof (cases xs)
  case (Cons c cs)
  assume "line_end xs = Some (Parsed v r)"
  then show ?thesis using Cons expect.ok_suffix [of LF cs v r]
    by (auto simp: line_end_Cons split: if_splits intro: exI [of _ "_ # _"])
qed (simp add: line_end_def)

lemma incremental_line_end:
  assumes "\<And>s. line_end s = None \<Longrightarrow> p s = q s" "\<And>s e. line_end s = Some e \<Longrightarrow> p s = e" "incremental q"
  shows "incremental p"
proof (rule incremental.intro)
  fix xs ys v r
  assume a: "p xs = Parsed v r"
  show "p (xs @ ys) = Parsed v (r @ ys)"
    using a assms(1,2) line_end_cases(1,2) [of xs] incremental.ok_more [OF assms(3), of xs v r ys]
    by (cases "line_end xs") simp_all
  show "\<exists>u. xs = u @ r"
    using a assms(1,2) line_end_suffix [of xs] incremental.ok_suffix [OF assms(3), of xs v r]
    by (cases "line_end xs") simp_all
next
  fix xs ys
  assume a: "p xs = Fail (- 1)"
  show "p (xs @ ys) = Fail (- 1)"
    using a assms(1,2) line_end_cases(1,3) [of xs] incremental.bad_more [OF assms(3), of xs ys]
    by (cases "line_end xs") simp_all
next
  fix xs e
  assume a: "p xs = Fail e"
  show "e = - 1 \<or> e = - 2"
    using a assms(1,2) line_end_cases(4) [of xs e] incremental.fail_code [OF assms(3), of xs e]
    by (cases "line_end xs") simp_all
qed

lemma incremental_lines: "incremental skip_empty_line" "incremental end_of_line"
  by (rule incremental_line_end [OF _ _ incremental_return] incremental_line_end [OF _ _ incremental_fail];
      simp add: skip_empty_line_def end_of_line_def)+

lemma parse_headers_cases:
  obtains (stop) e where "line_end buf = Some e"
      "parse_headers m hs buf = pbind e (\<lambda>_ r. Parsed hs r)"
    | (full) "line_end buf = None" "length hs = m" "parse_headers m hs buf = Fail (- 1)"
    | (bad) n where "line_end buf = None" "length hs \<noteq> m" "one_header (hs = []) buf = Fail n"
      "parse_headers m hs buf = Fail n"
    | (one_more) h r where "line_end buf = None" "length hs \<noteq> m" "one_header (hs = []) buf = Parsed h r"
      "parse_headers m hs buf = parse_headers m (hs @ [h]) r"
  using that by (cases "line_end buf"; cases "one_header (hs = []) buf"; cases "length hs = m")
    (simp_all add: parse_headers.simps [of m hs buf])

lemma parse_headers_eqs:
  "line_end buf = Some e \<Longrightarrow> parse_headers m hs buf = pbind e (\<lambda>_ r. Parsed hs r)"
  "line_end buf = None \<Longrightarrow> length hs = m \<Longrightarrow> parse_headers m hs buf = Fail (- 1)"
  "line_end buf = None \<Longrightarrow> length hs \<noteq> m \<Longrightarrow> one_header (hs = []) buf = Fail n \<Longrightarrow> parse_headers m hs buf = Fail n"
  "line_end buf = None \<Longrightarrow> length hs \<noteq> m \<Longrightarrow> one_header (hs = []) buf = Parsed h r \<Longrightarrow>
     parse_headers m hs buf = parse_headers m (hs @ [h]) r"
  by (simp_all add: parse_headers.simps [of m hs buf])

lemma headers_ok_more:
  "parse_headers m hs xs = Parsed v r \<Longrightarrow> parse_headers m hs (xs @ ys) = Parsed v (r @ ys)"
proof (induction "length xs" arbitrary: xs hs rule: less_induct)
  case less
  show ?case
  proof (cases rule: parse_headers_cases [of xs m hs])
    case (stop e)
    then have "e = Parsed () r" "hs = v" using less.prems by (cases e; simp)+
    then show ?thesis using line_end_cases(2) [of xs "()" r ys] stop(1) by (simp add: parse_headers_eqs)
  next
    case (one_more h s)
    then have "parse_headers m (hs @ [h]) (s @ ys) = Parsed v (r @ ys)"
      using less one_header_shorter [OF one_more(3)] by simp
    then show ?thesis
      using one_more hdr.ok_more [OF one_more(3), of ys] line_end_cases(1) [OF one_more(1), of ys]
      by (simp add: parse_headers_eqs)
  qed (use less.prems in simp_all)
qed

lemma headers_bad_more:
  "parse_headers m hs xs = Fail (- 1) \<Longrightarrow> parse_headers m hs (xs @ ys) = Fail (- 1)"
proof (induction "length xs" arbitrary: xs hs rule: less_induct)
  case less
  show ?case
  proof (cases rule: parse_headers_cases [of xs m hs])
    case (stop e)
    then have "e = Fail (- 1)" using less.prems by (cases e) auto
    then show ?thesis using line_end_cases(3) [of xs ys] stop(1) by (simp add: parse_headers_eqs)
  next
    case (one_more h s)
    then have "parse_headers m (hs @ [h]) (s @ ys) = Fail (- 1)"
      using less one_header_shorter [OF one_more(3)] by simp
    then show ?thesis
      using one_more hdr.ok_more [OF one_more(3), of ys] line_end_cases(1) [OF one_more(1), of ys]
      by (simp add: parse_headers_eqs)
  next
    case full
    then show ?thesis using line_end_cases(1) [OF full(1), of ys] by (simp add: parse_headers_eqs)
  next
    case (bad n)
    then show ?thesis
      using less.prems line_end_cases(1) [OF bad(1), of ys] hdr.bad_more [of "hs = []" xs ys]
      by (simp add: parse_headers_eqs)
  qed
qed

lemma headers_fail_code:
  "parse_headers m hs xs = Fail e \<Longrightarrow> e = - 1 \<or> e = - 2"
proof (induction "length xs" arbitrary: xs hs rule: less_induct)
  case less
  show ?case
  proof (cases rule: parse_headers_cases [of xs m hs])
    case (stop e')
    then have "e' = Fail e" using less.prems by (cases e') auto
    then show ?thesis using line_end_cases(4) [of xs e] stop(1) by simp
  next
    case (one_more h s)
    then show ?thesis using less one_header_shorter [OF one_more(3)] by simp
  next
    case (bad n)
    then show ?thesis using less.prems hdr.fail_code [OF bad(3)] by simp
  qed (use less.prems in simp)
qed

lemma headers_suffix:
  "parse_headers m hs xs = Parsed v r \<Longrightarrow> \<exists>u. xs = u @ r"
proof (induction "length xs" arbitrary: xs hs rule: less_induct)
  case less
  show ?case
  proof (cases rule: parse_headers_cases [of xs m hs])
    case (stop e)
    then have "e = Parsed () r" using less.prems by (cases e) simp_all
    then show ?thesis using line_end_suffix [of xs "()" r] stop(1) by simp
  next
    case (one_more h s)
    have "\<exists>u. s = u @ r" using less one_more one_header_shorter [OF one_more(3)] by simp
    then obtain u where "s = u @ r" ..
    moreover obtain w where "xs = w @ s" using hdr.ok_suffix [OF one_more(3)] ..
    ultimately show ?thesis by (intro exI [of _ "w @ u"]) simp
  qed (use less.prems in simp_all)
qed

interpretation headers: incremental "parse_headers m hs" for m hs
  by unfold_locales (fact headers_ok_more headers_bad_more headers_fail_code headers_suffix)+

lemma incremental_spaces: "incremental skip_spaces"
  unfolding skip_spaces_def by (intro incremental_intros)

lemmas incremental_more = incremental_intros incremental_lines incremental_spaces
  incremental_version incremental_string headers.incremental_axioms

interpretation request: incremental "parse_request m" for m
  unfolding parse_request_def by (intro incremental_more)

interpretation response: incremental "parse_response m" for m
  unfolding parse_response_def parse_sp_def parse_status_def parse_msg_def
  by (intro incremental_more)

section \<open>What the parsers consume\<close>

text \<open>Every carriage return is followed by a line feed, the last character is not looked at.\<close>

fun crlf_ok :: "string \<Rightarrow> bool" where
  "crlf_ok (c # d # cs) \<longleftrightarrow> (c = CR \<longrightarrow> d = LF) \<and> crlf_ok (d # cs)"
| "crlf_ok cs = True"

lemma crlf_ok_append: "crlf_ok u \<Longrightarrow> u = [] \<or> last u \<noteq> CR \<Longrightarrow> crlf_ok v \<Longrightarrow> crlf_ok (u @ v)"
  by (induction u rule: crlf_ok.induct; cases v) auto

lemma crlf_ok_prefix: "crlf_ok (u @ v) \<Longrightarrow> crlf_ok u"
  by (induction u rule: crlf_ok.induct) auto

lemma crlf_ok_suffix: "crlf_ok (u @ v) \<Longrightarrow> crlf_ok v"
proof (induction u)
  case (Cons a u)
  then show ?case by (cases "u @ v") auto
qed simp

lemma crlf_ok_drop: "crlf_ok s \<Longrightarrow> crlf_ok (drop n s)"
  using crlf_ok_suffix [of "take n s" "drop n s"] by simp

lemma crlf_ok_no_CR: "CR \<notin> set u \<Longrightarrow> crlf_ok u"
  by (induction u rule: crlf_ok.induct) auto

text \<open>\<open>lines_ok u\<close>: \<open>u\<close> has proper line ends and does not stop inside one.\<close>

definition lines_ok :: "string \<Rightarrow> bool" where
  "lines_ok u \<longleftrightarrow> crlf_ok u \<and> (u = [] \<or> last u \<noteq> CR)"

lemma lines_ok_append [intro]: "lines_ok u \<Longrightarrow> lines_ok v \<Longrightarrow> lines_ok (u @ v)"
  by (auto simp: lines_ok_def last_append intro: crlf_ok_append)

lemma lines_ok_no_CR [intro]: "CR \<notin> set u \<Longrightarrow> lines_ok u"
  by (metis lines_ok_def crlf_ok_no_CR last_in_set)

lemma line_chars [simp]:
  "\<not> token_char CR" "CR \<noteq> LF" "LF \<noteq> CR" "CR \<noteq> SP" "SP \<noteq> CR" "LF \<noteq> SP" "SP \<noteq> LF" "is_ctl CR" "is_ctl LF"
  "\<not> IS_PRINTABLE_ASCII CR" "\<not> IS_PRINTABLE_ASCII LF" "code CR < 32" "code LF < 32" "\<not> is_blank CR"
  "\<not> is_blank LF" "\<not> token_char LF" "\<not> token_char SP" "TAB \<noteq> CR" "TAB \<noteq> LF"
  by (simp_all add: CR_def LF_def SP_def TAB_def code_def token_char_def token_char_map_def is_ctl_def
      IS_PRINTABLE_ASCII_def is_blank_def)

lemma lines_ok_ends [simp]: "lines_ok [LF]" "lines_ok [CR, LF]"
  by (simp_all add: lines_ok_def)

text \<open>The characters a successful parser has used, for the elementary parsers.\<close>

lemma token_used:
  "parse_token c s = Parsed t r \<Longrightarrow> s = t @ r \<and> list_all token_char t \<and> c \<notin> set t \<and> r \<noteq> [] \<and> hd r = c"
proof (induction c s arbitrary: t rule: parse_token.induct)
  case (2 nxt c cs)
  then show ?case by (fastforce simp: pbind_Parsed_iff split: if_splits)
qed simp

lemma target_used:
  "advance_token s = Parsed t r \<Longrightarrow> s = t @ r \<and> CR \<notin> set t \<and> r \<noteq> [] \<and> hd r = SP"
proof (induction s arbitrary: t)
  case (Cons c cs)
  then show ?case by (fastforce simp: pbind_Parsed_iff split: if_splits)
qed simp

lemma skip_used: "skip_while P s = Parsed v r \<Longrightarrow> \<exists>u. s = u @ r \<and> list_all P u"
proof (induction s)
  case (Cons c cs)
  then show ?case
    by (auto split: if_splits intro: exI [of _ "[]"] exI [of _ "_ # _"])
qed simp

lemma expect_used: "expect_char c s = Parsed v r \<longleftrightarrow> s = c # r"
  by (cases s) auto

lemma eol_used:
  "get_token_to_eol s = Parsed t r \<Longrightarrow> CR \<notin> set t \<and> (s = t @ LF # r \<or> s = t @ CR # LF # r)"
proof (induction s arbitrary: t)
  case (Cons c cs)
  then show ?case
    by (fastforce simp: pbind_Parsed_iff expect_used split: if_splits)
qed simp

lemma line_end_used: "line_end s = Some (Parsed v r) \<Longrightarrow> s = LF # r \<or> s = CR # LF # r"
  by (cases s) (auto simp: line_end_Cons expect_used line_end_def split: if_splits)

lemma string_used: "expect_string w s = Parsed v r \<Longrightarrow> s = w @ r"
  by (induction w arbitrary: s) (auto simp: pbind_Parsed_iff expect_used)

lemma list_all_no_CR: "list_all P u \<Longrightarrow> \<not> P CR \<Longrightarrow> CR \<notin> set u"
  by (auto simp: list_all_iff)

lemma blank_lines_ok: "list_all is_blank u \<Longrightarrow> lines_ok u" "list_all (\<lambda>c. c = SP) u \<Longrightarrow> lines_ok u"
  "list_all token_char u \<Longrightarrow> lines_ok u"
  by (auto intro!: lines_ok_no_CR dest: list_all_no_CR)

lemma next_used: "next_char s = Parsed v r \<longleftrightarrow> s \<noteq> [] \<and> r = tl s"
  by (cases s) auto

lemma spaces_used:
  assumes "skip_spaces s = Parsed v r" "hd s = SP"
  shows "\<exists>u. s = u @ r \<and> lines_ok u"
proof -
  obtain u where "s \<noteq> []" "tl s = u @ r" "list_all (\<lambda>c. c = SP) u"
    using assms(1) skip_used [of "\<lambda>c. c = SP" "tl s" "()" r]
    by (auto simp: skip_spaces_def pbind_Parsed_iff next_used)
  then show ?thesis using assms(2)
    by (intro exI [of _ "SP # u"]) (cases s; auto intro!: blank_lines_ok(2))
qed

lemma header_used:
  assumes "one_header first s = Parsed h r"
  shows "\<exists>u. s = u @ LF # r \<and> lines_ok (u @ [LF])"
proof -
  from assms obtain nm s1 val where n: "header_name first s = Parsed nm s1"
    and v: "get_token_to_eol s1 = Parsed val r"
    by (auto simp: one_header_def pbind_Parsed_iff)
  have "\<exists>u. s = u @ s1 \<and> lines_ok u"
  proof (cases "s \<noteq> [] \<and> \<not> (\<not> first \<and> is_blank (hd s))")
    case True
    then obtain t s2 s3 where t: "parse_token (CHR '':'') s = Parsed t s2" "next_char s2 = Parsed () s3"
      "skip_while is_blank s3 = Parsed () s1"
      using n by (cases s) (auto simp: header_name_def pbind_Parsed_iff split: if_splits)
    obtain w where "s3 = w @ s1" "list_all is_blank w" using skip_used [OF t(3)] by blast
    moreover have "lines_ok [CHR '':'']" by (rule lines_ok_no_CR) (simp add: CR_def)
    ultimately have "lines_ok (t @ [CHR '':''] @ w)"
      using token_used [OF t(1)] blank_lines_ok(1,3) by blast
    moreover have "s = (t @ [CHR '':''] @ w) @ s1"
      using token_used [OF t(1)] t(2) \<open>s3 = w @ s1\<close> by (auto simp: next_used neq_Nil_conv)
    ultimately show ?thesis by blast
  next
    case False
    then have "s = s1" using n by (cases s) (auto simp: header_name_def)
    then show ?thesis by (intro exI [of _ "[]"]) auto
  qed
  then obtain u where u: "s = u @ s1" "lines_ok u" by blast
  from eol_used [OF v] have c: "CR \<notin> set val" "s1 = val @ LF # r \<or> s1 = val @ CR # LF # r" by auto
  have "lines_ok (u @ val @ [LF])" "lines_ok (u @ val @ [CR, LF])"
    by (intro lines_ok_append u(2) lines_ok_no_CR c(1) lines_ok_ends)+
  with c(2) consider "s = (u @ val) @ LF # r" "lines_ok (u @ val @ [LF])"
    | "s = (u @ val @ [CR]) @ LF # r" "lines_ok (u @ val @ [CR, LF])"
    using u by auto
  then show ?thesis by cases (metis append.assoc append_Cons append_Nil)+
qed

lemma headers_used:
  "parse_headers m hs s = Parsed v r \<Longrightarrow>
     \<exists>u e. s = u @ e @ r \<and> (e = [LF] \<or> e = [CR, LF]) \<and> lines_ok u \<and> (u = [] \<or> last u = LF)"
proof (induction "length s" arbitrary: s hs rule: less_induct)
  case less
  show ?case
  proof (cases rule: parse_headers_cases [of s m hs])
    case (stop e)
    then have "e = Parsed () r" using less.prems by (cases e) simp_all
    then have "s = LF # r \<or> s = CR # LF # r" using line_end_used stop(1) by blast
    then obtain e where "s = [] @ e @ r" "e = [LF] \<or> e = [CR, LF]" by auto
    then show ?thesis using lines_ok_no_CR [of "[]"] by auto
  next
    case (one_more h s1)
    then obtain u e where u: "s1 = u @ e @ r" "e = [LF] \<or> e = [CR, LF]" "lines_ok u" "u = [] \<or> last u = LF"
      using less.hyps [of s1 "hs @ [h]"] less.prems one_header_shorter [OF one_more(3)] by auto
    obtain w where w: "s = w @ LF # s1" "lines_ok (w @ [LF])" using header_used [OF one_more(3)] by blast
    have "s = (w @ [LF] @ u) @ e @ r" "lines_ok (w @ [LF] @ u)" "last (w @ [LF] @ u) = LF"
      using u w lines_ok_append [OF w(2) u(3)] by auto
    then show ?thesis using u(2) by blast
  qed (use less.prems in simp_all)
qed

subsection \<open>Looking ahead\<close>

text \<open>
  \<open>cuts n p\<close>: when \<open>p\<close> succeeds with at least \<open>n\<close> characters left before \<open>ys\<close>, it does so without \<open>ys\<close>.
  The elementary parsers look one character ahead, those that end a line do not.
\<close>

definition cuts :: "nat \<Rightarrow> (string \<Rightarrow> 'a parse) \<Rightarrow> bool" where
  "cuts n p \<longleftrightarrow> (\<forall>xs ys v r. p (xs @ ys) = Parsed v (r @ ys) \<longrightarrow> n \<le> length r \<longrightarrow> p xs = Parsed v r)"

lemma cutsI: "(\<And>xs ys v r. p (xs @ ys) = Parsed v (r @ ys) \<Longrightarrow> n \<le> length r \<Longrightarrow> p xs = Parsed v r) \<Longrightarrow> cuts n p"
  unfolding cuts_def by blast

lemma cutsD: "cuts n p \<Longrightarrow> p (xs @ ys) = Parsed v (r @ ys) \<Longrightarrow> n \<le> length r \<Longrightarrow> p xs = Parsed v r"
  by (rule cuts_def [THEN iffD1, THEN spec, THEN spec, THEN spec, THEN spec, THEN mp, THEN mp])

lemma cuts_bind:
  assumes "cuts 1 p" "\<And>u. cuts n (f u)" "\<And>u. incremental (f u)"
    and "n = 1 \<or> (\<forall>u s v r. f u s = Parsed v r \<longrightarrow> length r < length s)"
  shows "cuts n (\<lambda>s. pbind (p s) f)"
proof (rule cutsI)
  fix xs ys v r
  assume "pbind (p (xs @ ys)) f = Parsed v (r @ ys)" and n: "n \<le> length r"
  then obtain u s where s: "p (xs @ ys) = Parsed u s" "f u s = Parsed v (r @ ys)" by (auto simp: pbind_Parsed_iff)
  obtain w where w: "s = (w @ r) @ ys" using incremental.ok_suffix [OF assms(3) s(2)] by auto
  have "1 \<le> length (w @ r)"
  proof (cases "n = 1")
    case False
    then have "length (r @ ys) < length s" using assms(4) s(2) by blast
    then show ?thesis using w by (cases w) simp_all
  qed (use n in simp)
  then have "p xs = Parsed u (w @ r)" using cutsD [OF assms(1), of xs ys u "w @ r"] s(1) w by simp
  moreover have "f u (w @ r) = Parsed v r" using cutsD [OF assms(2), of u "w @ r" ys v r] s(2) w n by simp
  ultimately show "pbind (p xs) f = Parsed v r" by simp
qed

lemma cuts_return: "cuts n (Parsed v)"
  by (simp add: cuts_def)

lemma cuts_fail: "cuts n (\<lambda>s. Fail e)"
  by (simp add: cuts_def)

lemma cuts_if: "(b \<Longrightarrow> cuts n p) \<Longrightarrow> (\<not> b \<Longrightarrow> cuts n q) \<Longrightarrow> cuts n (\<lambda>s. if b then p s else q s)"
  by (cases b) simp_all

lemma cuts_peek:
  assumes "\<And>c. cuts 1 (f c)" "\<And>c. incremental (f c)"
  shows "cuts 1 (\<lambda>s. case s of [] \<Rightarrow> Fail e | c # _ \<Rightarrow> f c s)"
proof (rule cutsI)
  fix xs ys v r
  assume a: "(case xs @ ys of [] \<Rightarrow> Fail e | c # _ \<Rightarrow> f c (xs @ ys)) = Parsed v (r @ ys)" "1 \<le> length r"
  have "xs \<noteq> []"
  proof
    assume "xs = []"
    then obtain c where "f c ys = Parsed v (r @ ys)" using a(1) by (cases ys) auto
    from incremental.ok_suffix [OF assms(2) this] show False using a(2) by (auto dest: arg_cong [of _ _ length])
  qed
  then show "(case xs of [] \<Rightarrow> Fail e | c # _ \<Rightarrow> f c xs) = Parsed v r"
    using a cutsD [OF assms(1), of _ xs ys v r] by (cases xs) auto
qed

lemma cuts_expect: "cuts 0 (expect_char c)"
  by (rule cutsI) (auto simp: expect_used Cons_eq_append_conv append_eq_append_conv2)

lemma cuts_next: "cuts 0 next_char"
proof (rule cutsI)
  fix xs ys v and r :: string
  assume "next_char (xs @ ys) = Parsed v (r @ ys)"
  then show "next_char xs = Parsed v r"
    using arg_cong [of "r @ ys" "tl ys" length] by (cases xs; cases ys) (auto simp: next_used)
qed

lemma cuts_token: "cuts 1 (parse_token c)"
proof (rule cutsI)
  fix xs ys v r
  assume "parse_token c (xs @ ys) = Parsed v (r @ ys)" "1 \<le> length r"
  then show "parse_token c xs = Parsed v r"
  proof (induction xs arbitrary: v)
    case Nil
    then show ?case by (auto dest: parse_token_shorter)
  next
    case (Cons x xs)
    then show ?case by (cases r) (auto simp: pbind_Parsed_iff split: if_splits)
  qed
qed

lemma cuts_target: "cuts 1 advance_token"
proof (rule cutsI)
  fix xs ys v r
  assume "advance_token (xs @ ys) = Parsed v (r @ ys)" "1 \<le> length r"
  then show "advance_token xs = Parsed v r"
  proof (induction xs arbitrary: v)
    case Nil
    then show ?case by (auto dest: target.ok_length)
  next
    case (Cons x xs)
    then show ?case by (cases r) (auto simp: pbind_Parsed_iff split: if_splits)
  qed
qed

lemma cuts_skip: "cuts 1 (skip_while P)"
proof (rule cutsI)
  fix xs ys v r
  assume "skip_while P (xs @ ys) = Parsed v (r @ ys)" "1 \<le> length r"
  then show "skip_while P xs = Parsed v r"
  proof (induction xs)
    case Nil
    then show ?case by (auto dest: skip.ok_length)
  next
    case (Cons x xs)
    then show ?case by (auto split: if_splits)
  qed
qed

lemma cuts_eol: "cuts 0 get_token_to_eol"
proof (rule cutsI)
  fix xs ys v r
  assume "get_token_to_eol (xs @ ys) = Parsed v (r @ ys)"
  then show "get_token_to_eol xs = Parsed v r"
  proof (induction xs arbitrary: v)
    case Nil
    then show ?case by (auto dest: eol_shorter)
  next
    case (Cons x xs)
    show ?case
    proof (cases "is_ctl x")
      case True
      then show ?thesis using Cons.prems cutsD [OF cuts_expect, of LF xs ys "()" r]
        by (auto simp: pbind_Parsed_iff split: if_splits)
    next
      case False
      then show ?thesis using Cons by (auto simp: pbind_Parsed_iff)
    qed
  qed
qed

lemma cuts_line_end:
  assumes "line_end (xs @ ys) = Some (Parsed v (r @ ys))"
  shows "line_end xs = Some (Parsed v r)"
proof -
  have "xs @ ys = (LF # r) @ ys \<or> xs @ ys = (CR # LF # r) @ ys" using line_end_used [OF assms] by simp
  then have "xs = LF # r \<or> xs = CR # LF # r" by (simp only: append_same_eq)
  then show ?thesis by (auto simp: line_end_Cons)
qed

lemma cuts_end_of_line: "cuts 0 end_of_line"
proof (rule cutsI)
  fix xs ys v and r :: string
  assume "end_of_line (xs @ ys) = Parsed v (r @ ys)"
  then show "end_of_line xs = Parsed v r"
    using cuts_line_end [of xs ys v r] by (auto simp: end_of_line_def split: option.splits)
qed

lemma cuts_empty_line: "cuts 1 skip_empty_line"
proof (rule cutsI)
  fix xs ys v and r :: string
  assume a: "skip_empty_line (xs @ ys) = Parsed v (r @ ys)" "1 \<le> length r"
  show "skip_empty_line xs = Parsed v r"
  proof (cases "line_end (xs @ ys)")
    case None
    then have "xs = r" using a(1) by (simp add: skip_empty_line_def)
    then show ?thesis using None a(2) by (cases xs) (auto simp: skip_empty_line_def line_end_Cons split: if_splits)
  next
    case (Some e)
    then show ?thesis using a(1) cuts_line_end [of xs ys v r] by (simp add: skip_empty_line_def)
  qed
qed

lemma cuts_mono: "cuts 0 p \<Longrightarrow> cuts 1 p"
  unfolding cuts_def by blast

lemma cuts_version: "cuts 1 parse_http_version"
proof (rule cutsI)
  fix xs ys v r
  assume a: "parse_http_version (xs @ ys) = Parsed v (r @ ys)" "1 \<le> length r"
  then obtain t where t: "expect_string ''HTTP/1.'' (xs @ ys) = Parsed () t" "parse_int 1 t = Parsed v (r @ ys)"
    by (auto simp: parse_http_version_def pbind_Parsed_iff split: if_splits)
  obtain d where d: "t = d # r @ ys" "parse_int 1 (d # r) = Parsed v r"
    using t(2) by (cases t) (auto split: option.splits)
  have "xs @ ys = (''HTTP/1.'' @ d # r) @ ys" using string_used [OF t(1)] d(1) by simp
  then have "xs = ''HTTP/1.'' @ d # r" by (simp only: append_same_eq)
  then show "parse_http_version xs = Parsed v r" using d(2) a(2) by (cases r) (auto simp: parse_http_version_def)
qed

lemmas cuts_intros = cuts_bind cuts_return cuts_fail cuts_if cuts_peek cuts_token cuts_target cuts_skip
  cuts_mono [OF cuts_next] cuts_mono [OF cuts_expect] disjI1 [OF refl]

lemma cuts_spaces: "cuts 1 skip_spaces"
  unfolding skip_spaces_def by (intro cuts_intros incremental_more)

lemma cuts_one_header: "cuts 0 (one_header first)"
proof -
  have p: "cuts 1 (\<lambda>s. Parsed [] s)" "incremental (\<lambda>s. Parsed [] s)" by (rule cuts_return incremental_return)+
  have "cuts 1 (header_name first)"
    unfolding header_name_def by (intro cuts_intros incremental_more p)
  moreover have "cuts 0 (\<lambda>r. pbind (get_token_to_eol r) (\<lambda>val r. Parsed (nm, trim_end val) r))" for nm
  proof (rule cutsI)
    fix xs ys v r
    assume "pbind (get_token_to_eol (xs @ ys)) (\<lambda>val r. Parsed (nm, trim_end val) r) = Parsed v (r @ ys)"
    then show "pbind (get_token_to_eol xs) (\<lambda>val r. Parsed (nm, trim_end val) r) = Parsed v r"
      using cutsD [OF cuts_eol, of xs ys _ r] by (auto simp: pbind_Parsed_iff)
  qed
  moreover have "incremental (\<lambda>r. pbind (get_token_to_eol r) (\<lambda>val r. Parsed (nm, trim_end val) r))" for nm
    by (intro incremental_more)
  ultimately show ?thesis
    unfolding one_header_def by (rule cuts_bind) (auto simp: pbind_Parsed_iff dest: eol_shorter)
qed

lemma cuts_headers: "cuts 0 (parse_headers m hs)"
proof (rule cutsI)
  fix xs ys v r
  assume "parse_headers m hs (xs @ ys) = Parsed v (r @ ys)"
  then show "parse_headers m hs xs = Parsed v r"
  proof (induction "length xs" arbitrary: xs hs rule: less_induct)
    case less
    show ?case
    proof (cases rule: parse_headers_cases [of "xs @ ys" m hs])
      case (stop e)
      then have "e = Parsed () (r @ ys)" "hs = v" using less.prems by (cases e; simp)+
      then show ?thesis using cuts_line_end [of xs ys "()" r] stop(1) by (simp add: parse_headers_eqs)
    next
      case (one_more h s)
      then obtain w where w: "s = (w @ r) @ ys" using less.prems headers.ok_suffix [of m "hs @ [h]" s v "r @ ys"] by auto
      have h: "one_header (hs = []) xs = Parsed h (w @ r)"
        using cutsD [OF cuts_one_header, of "hs = []" xs ys h "w @ r"] one_more(3) w by simp
      then have "xs \<noteq> []" using one_header_shorter [OF h] by auto
      then have n: "line_end xs = None" using one_more(1) by (cases xs) (auto simp: line_end_Cons split: if_splits)
      have "parse_headers m (hs @ [h]) (w @ r) = Parsed v r"
        using less.hyps [of "w @ r" "hs @ [h]"] one_header_shorter [OF h] one_more(4) less.prems w by simp
      then show ?thesis using h n one_more(2) by (simp add: parse_headers_eqs)
    qed (use less.prems in simp_all)
  qed
qed

text \<open>\<open>ends p\<close>: \<open>p\<close> reads at least one character and looks at none behind its last.\<close>

definition ends :: "(string \<Rightarrow> 'a parse) \<Rightarrow> bool" where
  "ends p \<longleftrightarrow> cuts 0 p \<and> incremental p \<and> (\<forall>s v r. p s = Parsed v r \<longrightarrow> length r < length s)"

lemma ends_bind:
  assumes "cuts 1 p" "incremental p" "\<And>u. ends (f u)"
  shows "ends (\<lambda>s. pbind (p s) f)"
proof -
  have f: "cuts 0 (f u)" "incremental (f u)" "f u s = Parsed v r \<Longrightarrow> length r < length s" for u s v r
    using assms(3) by (auto simp: ends_def)
  have "length r < length s" if "pbind (p s) f = Parsed v r" for s v r
    using that incremental.ok_length [OF assms(2)] f(3) by (fastforce simp: pbind_Parsed_iff)
  moreover have "cuts 0 (\<lambda>s. pbind (p s) f)" by (rule cuts_bind [OF assms(1) f(1,2)]) (use f(3) in blast)
  ultimately show ?thesis using incremental_bind [OF assms(2) f(2)] by (simp add: ends_def)
qed

lemma ends_fail_if: "(\<not> b \<Longrightarrow> ends p) \<Longrightarrow> ends (\<lambda>s. if b then Fail (- 1) else p s)"
  by (cases b) (simp_all add: ends_def cuts_fail incremental_fail)

lemma ends_headers: "ends (\<lambda>s. pbind (parse_headers m [] s) (\<lambda>hs r. Parsed (f hs) r))"
proof -
  have "cuts 0 (\<lambda>s. pbind (parse_headers m [] s) (\<lambda>hs r. Parsed (f hs) r))"
  proof (rule cutsI)
    fix xs ys v r
    assume "pbind (parse_headers m [] (xs @ ys)) (\<lambda>hs r. Parsed (f hs) r) = Parsed v (r @ ys)"
    then show "pbind (parse_headers m [] xs) (\<lambda>hs r. Parsed (f hs) r) = Parsed v r"
      using cutsD [OF cuts_headers, of m "[]" xs ys _ r] by (auto simp: pbind_Parsed_iff)
  qed
  moreover have "length r < length s" if "parse_headers m hs s = Parsed v r" for hs s v r
    using headers_used [OF that] by auto
  ultimately show ?thesis
    unfolding ends_def by (intro conjI incremental_more) (auto simp: pbind_Parsed_iff)
qed

lemma ends_request: "ends (parse_request m)"
  unfolding parse_request_def
  by (intro ends_bind ends_fail_if ends_headers cuts_empty_line cuts_token cuts_spaces cuts_target cuts_version
      cuts_mono [OF cuts_end_of_line] incremental_more)

lemma request_alone: "parse_request m (h @ r) = Parsed q r \<Longrightarrow> parse_request m h = Parsed q []"
  using ends_request [of m] cutsD [of 0 "parse_request m" h r q "[]"] by (simp add: ends_def)

text \<open>A request head is text with proper line ends, a line feed and an empty line.\<close>

definition used_ok :: "string \<Rightarrow> string \<Rightarrow> bool" where
  "used_ok s r \<longleftrightarrow> (\<exists>u. s = u @ r \<and> lines_ok u)"

lemma used_okI: "s = u @ r \<Longrightarrow> lines_ok u \<Longrightarrow> used_ok s r"
  by (auto simp: used_ok_def)

lemma used_ok_trans [trans]: "used_ok a b \<Longrightarrow> used_ok b c \<Longrightarrow> used_ok a c"
  by (metis used_ok_def append.assoc lines_ok_append)

lemma version_used:
  assumes "parse_http_version s = Parsed minor r"
  shows "used_ok s r"
proof -
  from assms obtain t where t: "expect_string ''HTTP/1.'' s = Parsed () t" "parse_int 1 t = Parsed minor r"
    by (auto simp: parse_http_version_def pbind_Parsed_iff split: if_splits)
  obtain d where "t = d # r" "digit_at d 1 = Some minor"
    using t(2) by (cases t) (auto split: option.splits)
  moreover have "digit_at CR 1 = None" by (simp add: digit_at_def CR_def code_def)
  ultimately have d: "t = d # r" "d \<noteq> CR" by auto
  show ?thesis
    by (rule used_okI [of _ "''HTTP/1.'' @ [d]"])
      (use string_used [OF t(1)] d in \<open>auto simp: CR_def\<close>)
qed

lemma end_of_line_used: "end_of_line s = Parsed () r \<Longrightarrow> \<exists>x. s = x @ LF # r \<and> lines_ok (x @ [LF])"
  using line_end_used [of s "()" r]
  by (auto simp: end_of_line_def split: option.splits intro: exI [of _ "[]"] exI [of _ "[CR]"])

lemma empty_line_used: "skip_empty_line s = Parsed () r \<Longrightarrow> used_ok s r"
  using line_end_used [of s "()" r] lines_ok_ends lines_ok_no_CR [of "[]"]
  by (auto simp: skip_empty_line_def split: option.splits intro: used_okI [of _ "[]"] used_okI [of _ "[LF]"]
      used_okI [of _ "[CR, LF]"])

lemma request_used:
  assumes "parse_request m s = Parsed q r"
  shows "\<exists>u e. s = u @ LF # e @ r \<and> (e = [LF] \<or> e = [CR, LF]) \<and> lines_ok (u @ [LF])"
proof -
  from assms obtain s1 s2 s3 s4 s5 s6 s7 meth path minor hs where p:
    "skip_empty_line s = Parsed () s1" "parse_token SP s1 = Parsed meth s2" "skip_spaces s2 = Parsed () s3"
    "advance_token s3 = Parsed path s4" "skip_spaces s4 = Parsed () s5"
    "parse_http_version s5 = Parsed minor s6" "end_of_line s6 = Parsed () s7"
    "parse_headers m [] s7 = Parsed hs r"
    by (auto simp: parse_request_def pbind_Parsed_iff split: if_splits)
  have "used_ok s s1" by (rule empty_line_used [OF p(1)])
  also have "used_ok s1 s2" using token_used [OF p(2)] blank_lines_ok(3) by (blast intro: used_okI)
  also have "used_ok s2 s3"
    using spaces_used [OF p(3)] token_used [OF p(2)] by (auto simp: used_ok_def)
  also have "used_ok s3 s4" using target_used [OF p(4)] by (blast intro: used_okI)
  also have "used_ok s4 s5"
    using spaces_used [OF p(5)] target_used [OF p(4)] by (auto simp: used_ok_def)
  also have "used_ok s5 s6" by (rule version_used [OF p(6)])
  finally obtain w where w: "s = w @ s6" "lines_ok w" by (auto simp: used_ok_def)
  obtain x where x: "s6 = x @ LF # s7" "lines_ok (x @ [LF])" using end_of_line_used [OF p(7)] by blast
  obtain u e where u: "s7 = u @ e @ r" "e = [LF] \<or> e = [CR, LF]" "lines_ok u" "u = [] \<or> last u = LF"
    using headers_used [OF p(8)] by blast
  have ok: "lines_ok (w @ (x @ [LF]) @ u)" using w x u by blast
  have eq: "s = (w @ (x @ [LF]) @ u) @ e @ r" using w x u by simp
  show ?thesis
  proof (cases "u = []")
    case True
    then show ?thesis using eq ok u(2) by (intro exI [of _ "w @ x"] exI [of _ e]) simp
  next
    case False
    then obtain y where "u = y @ [LF]" using u(4) by (metis append_butlast_last_id)
    then show ?thesis using eq ok u(2)
      by (intro exI [of _ "w @ (x @ [LF]) @ y"] exI [of _ e]) simp
  qed
qed

section \<open>The test for a complete head\<close>

lemma is_complete_never_bad:
  "crlf_ok s \<Longrightarrow> is_complete_loop n s = Fail e \<Longrightarrow> e = - 2"
proof (induction n s rule: is_complete_loop.induct)
  case (3 n c d cs)
  have "crlf_ok cs" using "3.prems"(1) by (cases cs) auto
  then show ?case using 3 by (auto split: if_splits)
qed (auto split: if_splits)

lemma is_complete_finds_end:
  assumes "lines_ok (u @ [LF])" "e = [LF] \<or> e = [CR, LF]" "n < 2"
  shows "\<exists>r. is_complete_loop n (u @ LF # e @ s) = Parsed () r"
  using assms(1,3)
proof (induction "length u" arbitrary: u n rule: less_induct)
  case less
  have n: "n = 0 \<or> n = 1" using less.prems by auto
  have single: "\<exists>r. is_complete_loop 1 (LF # x) = Parsed () r" for x by (cases x) auto
  show ?case
  proof (cases u)
    case Nil
    then show ?thesis using n assms(2) single by auto
  next
    case (Cons c v)
    have v: "lines_ok (v @ [LF])"
      using less.prems(1) crlf_ok_suffix [of "[c]" "v @ [LF]"] by (auto simp: lines_ok_def Cons)
    note IH = less.hyps [of v, OF _ v]
    show ?thesis
    proof (cases v)
      case Nil2: Nil
      then show ?thesis
        using n assms(2) less.prems(1) single [of s] by (auto simp: Cons lines_ok_def)
    next
      case (Cons d w)
      have w: "c = CR \<Longrightarrow> d = LF \<and> lines_ok (w @ [LF])"
        using less.prems(1) v crlf_ok_suffix [of "[d]" "w @ [LF]"] by (auto simp: lines_ok_def \<open>u = c # v\<close> Cons)
      have "\<exists>r. is_complete_loop 0 (v @ LF # e @ s) = Parsed () r"
        "\<exists>r. is_complete_loop 1 (v @ LF # e @ s) = Parsed () r"
        using IH \<open>u = c # v\<close> by simp_all
      moreover have "\<exists>r. is_complete_loop 1 (w @ LF # e @ s) = Parsed () r" if "c = CR"
        using less.hyps [of w 1] w [OF that] \<open>u = c # v\<close> Cons by simp
      ultimately show ?thesis using n w by (auto simp: \<open>u = c # v\<close> Cons)
    qed
  qed
qed

lemma is_complete_head:
  assumes "parse_request m h = Parsed q []" "last_len < length h"
  shows "\<exists>r. is_complete (h @ s) last_len = Parsed () r"
proof -
  obtain u e where h: "h = u @ LF # e" "e = [LF] \<or> e = [CR, LF]" "lines_ok (u @ [LF])"
    using request_used [OF assms(1)] by auto
  define k where "k = last_len - 3"
  have k: "k \<le> length u" using assms(2) h(1,2) by (auto simp: k_def)
  have "(if last_len < 3 then h @ s else drop (last_len - 3) (h @ s)) = drop k u @ LF # e @ s"
    using k h(1) by (auto simp: k_def)
  moreover have "lines_ok (drop k u @ [LF])"
    using h(3) crlf_ok_drop [of "u @ [LF]" k] k by (simp add: lines_ok_def)
  ultimately show ?thesis
    using is_complete_finds_end [of "drop k u" e 0 s] h(2) by (simp add: is_complete_def)
qed

text \<open>
  The law the session relies on: a head that arrives in pieces is reported as incomplete until
  it is there, and then, whatever follows it and whatever length the previous call has seen,
  parsed with its length as the result.
\<close>

lemma phr_request_pieces:
  assumes "parse_request m h = Parsed q []"
  shows "last_len < length h \<Longrightarrow> phr_parse_request m (h @ s) last_len = (int (length h), Some q)"
    and "h = a @ b \<Longrightarrow> b \<noteq> [] \<Longrightarrow> phr_parse_request m a last_len = (- 2, None)"
proof -
  assume l: "last_len < length h"
  then obtain r where "is_complete (h @ s) last_len = Parsed () r" using is_complete_head [OF assms] by blast
  moreover have "parse_request m (h @ s) = Parsed q s" using request.ok_more [OF assms, of s] by simp
  ultimately show "phr_parse_request m (h @ s) last_len = (int (length h), Some q)"
    by (simp add: phr_parse_request_def phr_parse_def)
next
  assume h: "h = a @ b" "b \<noteq> []"
  obtain u e where u: "h = u @ LF # e" "e = [LF] \<or> e = [CR, LF]" "lines_ok (u @ [LF])"
    using request_used [OF assms] by auto
  have "lines_ok e" using u(2) by auto
  then have "lines_ok ((u @ [LF]) @ e)" by (rule lines_ok_append [OF u(3)])
  then have "crlf_ok h" using u(1) by (simp add: lines_ok_def)
  then have k: "crlf_ok a" using crlf_ok_prefix h(1) by blast
  have "is_complete a last_len = Fail n \<Longrightarrow> n = - 2" for n
    by (rule is_complete_never_bad [of "if last_len < 3 then a else drop (last_len - 3) a" 0])
      (simp_all add: crlf_ok_drop k is_complete_def)
  moreover have "parse_request m a = Fail (- 2)"
    by (rule request.short_input [of _ _ b]) (use assms h in auto)
  ultimately show "phr_parse_request m a last_len = (- 2, None)"
    by (cases "is_complete a last_len") (auto simp: phr_parse_request_def phr_parse_def)
qed

lemma two_of: "x \<in> {p, q} \<Longrightarrow> y \<in> {p, q} \<Longrightarrow> x = y \<or> {x, y} = {p, q}"
  by auto

lemma phr_rejects:
  assumes "parse_request m a = Fail e"
  shows "phr_parse_request m a n \<in> {(- 1, None), (- 2, None)}"
proof -
  have "is_complete_loop k s = Fail x \<Longrightarrow> x = - 1 \<or> x = - 2" for k s x
    by (induction k s rule: is_complete_loop.induct) (auto split: if_splits)
  then show ?thesis
    using assms request.fail_code [OF assms]
    by (auto simp: phr_parse_request_def phr_parse_def is_complete_def split: parse.splits if_splits)
qed

section \<open>Printing\<close>

text \<open>Text in the form the parser accepts, and the fields that can be written in it.\<close>

definition header_ok :: "phr_header \<Rightarrow> bool" where
  "header_ok h \<longleftrightarrow> fst h \<noteq> [] \<and> list_all token_char (fst h) \<and> list_all (\<lambda>c. \<not> is_ctl c) (snd h) \<and>
     (snd h \<noteq> [] \<longrightarrow> \<not> is_blank (hd (snd h)) \<and> \<not> is_blank (last (snd h)))"

definition target_char :: "char \<Rightarrow> bool" where
  "target_char c \<longleftrightarrow> c \<noteq> SP \<and> (IS_PRINTABLE_ASCII c \<or> \<not> (code c < 32 \<or> code c = 127))"

definition show_header :: "phr_header \<Rightarrow> string" where
  "show_header h = fst h @ '': '' @ snd h @ [CR, LF]"

lemma parse_token_show:
  "list_all token_char t \<Longrightarrow> \<not> token_char c \<Longrightarrow> parse_token c (t @ c # r) = Parsed t (c # r)"
  by (induction t) auto

lemma advance_token_show: "list_all target_char t \<Longrightarrow> advance_token (t @ SP # r) = Parsed t (SP # r)"
  by (induction t) (auto simp: target_char_def)

lemma eol_show: "list_all (\<lambda>c. \<not> is_ctl c) t \<Longrightarrow> get_token_to_eol (t @ CR # LF # r) = Parsed t r"
  by (induction t) auto

lemma trim_end_id: "s = [] \<or> \<not> is_blank (last s) \<Longrightarrow> trim_end s = s"
  by (cases s rule: rev_cases) (auto simp: trim_end_def)

lemma token_char_simps [simp]: "\<not> token_char (CHR '':'')" "\<not> token_char SP" "\<not> token_char (CHR '' '')"
  "\<not> token_char TAB"
  by (simp_all add: token_char_def token_char_map_def code_def SP_def TAB_def)

lemma SP_char: "SP = CHR '' ''"
  by (simp add: SP_def)

lemma one_header_show:
  assumes "header_ok h"
  shows "one_header first (show_header h @ r) = Parsed h r"
proof -
  obtain n v where h: "h = (n, v)" by (cases h)
  obtain c cs where n: "n = c # cs" "token_char c" using assms by (cases n) (auto simp: header_ok_def h)
  have nb: "\<not> is_blank c" using n(2) by (auto simp: is_blank_def)
  have sk: "skip_while is_blank (v @ CR # LF # r) = Parsed () (v @ CR # LF # r)"
    using assms by (cases v) (auto simp: header_ok_def h)
  have "header_name first (n @ '': '' @ v @ [CR, LF] @ r) = Parsed n (v @ CR # LF # r)"
    using assms nb parse_token_show [of n "CHR '':''" "CHR '' '' # v @ CR # LF # r"] sk
    by (simp add: header_name_def header_ok_def h n(1) is_blank_def SP_char)
  then show ?thesis
    using assms eol_show [of v r] trim_end_id [of v]
    by (auto simp: one_header_def show_header_def header_ok_def h)
qed

lemma line_end_show: "header_ok h \<Longrightarrow> line_end (show_header h @ r) = None"
  by (cases h; cases "fst h") (auto simp: header_ok_def show_header_def line_end_Cons)

lemma parse_headers_show:
  "list_all header_ok hs \<Longrightarrow> length acc + length hs \<le> m \<Longrightarrow>
     parse_headers m acc (concat (map show_header hs) @ CR # LF # r) = Parsed (acc @ hs) r"
proof (induction hs arbitrary: acc)
  case Nil
  then show ?case by (simp add: parse_headers.simps line_end_def)
next
  case (Cons h hs)
  then show ?case
    using line_end_show [of h "concat (map show_header hs) @ CR # LF # r"]
      one_header_show [of h "acc = []" "concat (map show_header hs) @ CR # LF # r"]
    by (simp add: parse_headers_eqs)
qed

definition show_request :: "phr_request \<Rightarrow> string" where
  "show_request q = pr_method q @ '' '' @ pr_path q @ '' HTTP/1.'' @ dec_string (pr_minor q) @ [CR, LF] @
     concat (map show_header (pr_headers q)) @ [CR, LF]"

definition request_ok :: "phr_request \<Rightarrow> bool" where
  "request_ok q \<longleftrightarrow> pr_method q \<noteq> [] \<and> list_all token_char (pr_method q) \<and>
     pr_path q \<noteq> [] \<and> list_all target_char (pr_path q) \<and> pr_minor q < 10 \<and> list_all header_ok (pr_headers q)"

lemma target_char_sp [simp]: "\<not> target_char (CHR '' '')"
  by (simp add: target_char_def SP_char)

lemma parse_request_show:
  assumes "request_ok q" "length (pr_headers q) \<le> m"
  shows "parse_request m (show_request q) = Parsed q []"
proof -
  define h where "h = concat (map show_header (pr_headers q)) @ [CR, LF]"
  define v where "v = ''HTTP/1.'' @ dec_string (pr_minor q) @ CR # LF # h"
  obtain c cs where mc: "pr_method q = c # cs" "token_char c"
    using assms(1) by (cases "pr_method q") (auto simp: request_ok_def)
  obtain d ds where pd: "pr_path q = d # ds" "target_char d"
    using assms(1) by (cases "pr_path q") (auto simp: request_ok_def)
  have c: "c \<noteq> CR" "c \<noteq> LF" using mc(2) by auto
  have s0: "skip_empty_line (show_request q) = Parsed () (show_request q)"
    using c by (simp add: skip_empty_line_def line_end_def show_request_def mc(1))
  have eq: "show_request q = pr_method q @ SP # pr_path q @ SP # v"
    by (simp add: show_request_def v_def h_def SP_char)
  have s1: "parse_token SP (show_request q) = Parsed (pr_method q) (SP # pr_path q @ SP # v)"
    using parse_token_show [of "pr_method q" SP] assms(1) by (simp add: eq request_ok_def)
  have s2: "skip_spaces (SP # pr_path q @ SP # v) = Parsed () (pr_path q @ SP # v)"
    using pd by (auto simp: skip_spaces_def target_char_def)
  have s3: "advance_token (pr_path q @ SP # v) = Parsed (pr_path q) (SP # v)"
    using advance_token_show [of "pr_path q" v] assms(1) by (simp add: request_ok_def)
  have s4: "skip_spaces (SP # v) = Parsed () v"
    by (simp add: skip_spaces_def v_def SP_char)
  have dg: "dec_string (pr_minor q) = [digit_char (pr_minor q)]"
    using assms(1) by (simp add: dec_string.simps request_ok_def)
  have s5: "parse_http_version v = Parsed (pr_minor q) (CR # LF # h)"
    using assms(1) by (simp add: parse_http_version_def dg digit_at_def request_ok_def v_def)
  have s6: "end_of_line (CR # LF # h) = Parsed () h"
    by (simp add: end_of_line_def line_end_def)
  have s7: "parse_headers m [] h = Parsed (pr_headers q) []"
    using parse_headers_show [of "pr_headers q" "[]" m "[]"] assms by (simp add: request_ok_def h_def)
  show ?thesis
    using assms(1) by (simp add: parse_request_def s0 s1 s2 s3 s4 s5 s6 s7 request_ok_def)
qed


definition show_response :: "phr_response \<Rightarrow> string" where
  "show_response q = ''HTTP/1.'' @ dec_string (ps_minor q) @ '' '' @ dec_string (ps_status q) @ '' '' @
     ps_msg q @ [CR, LF] @ concat (map show_header (ps_headers q)) @ [CR, LF]"

definition response_ok :: "phr_response \<Rightarrow> bool" where
  "response_ok q \<longleftrightarrow> ps_minor q < 10 \<and> 100 \<le> ps_status q \<and> ps_status q < 1000 \<and>
     list_all (\<lambda>c. \<not> is_ctl c) (ps_msg q) \<and> (ps_msg q \<noteq> [] \<longrightarrow> hd (ps_msg q) \<noteq> SP) \<and>
     list_all header_ok (ps_headers q)"

lemma dec_string_status:
  assumes "100 \<le> n" "n < 1000"
  shows "dec_string n = [digit_char (n div 100), digit_char (n div 10 mod 10), digit_char (n mod 10)]"
proof -
  have "n div 10 div 10 < 10" using assms(2) by (intro less_mult_imp_div_less) simp
  then have "dec_string (n div 10 div 10) = [digit_char (n div 10 div 10)]"
    by (subst dec_string.simps) simp
  then have "dec_string (n div 10) = [digit_char (n div 10 div 10), digit_char (n div 10 mod 10)]"
    using assms by (subst dec_string.simps) simp
  then show ?thesis using assms by (subst dec_string.simps) (simp add: div_mult2_eq [symmetric])
qed

lemma parse_status_digits:
  assumes "a < 10" "b < 10" "d < 10"
  shows "parse_status (digit_char a # digit_char b # digit_char d # c # r) = Parsed (a * 100 + b * 10 + d) (c # r)"
  using assms by (simp add: parse_status_def digit_at_def)

lemma status_digits: "n div 100 * 100 + n div 10 mod 10 * 10 + n mod 10 = (n::nat)"
proof -
  have a: "n div 10 div 10 * 10 + n div 10 mod 10 = n div 10" by (rule div_mult_mod_eq)
  have b: "n div 10 * 10 + n mod 10 = n" by (rule div_mult_mod_eq)
  have "n div 100 = n div 10 div 10" by (simp add: div_mult2_eq [symmetric])
  then show ?thesis using a b by linarith
qed

lemma parse_status_show:
  assumes "100 \<le> n" "n < 1000"
  shows "parse_status (dec_string n @ c # r) = Parsed n (c # r)"
proof -
  have "n div 100 < 10" using assms(2) by (rule less_mult_imp_div_less [of n 10 100, simplified])
  then show ?thesis
    using parse_status_digits [of "n div 100" "n div 10 mod 10" "n mod 10" c r] dec_string_status [OF assms]
    by (simp only: append_Cons append_Nil status_digits pos_mod_bound mod_less_divisor)
qed

lemma parse_response_show:
  assumes "response_ok q" "length (ps_headers q) \<le> m"
  shows "parse_response m (show_response q) = Parsed q []"
proof -
  define h where "h = concat (map show_header (ps_headers q)) @ [CR, LF]"
  define s where "s = dec_string (ps_status q) @ SP # ps_msg q @ CR # LF # h"
  have dg: "dec_string (ps_minor q) = [digit_char (ps_minor q)]"
    using assms(1) by (simp add: dec_string.simps response_ok_def)
  have st: "100 \<le> ps_status q" "ps_status q < 1000" using assms(1) by (simp_all add: response_ok_def)
  have s0: "parse_http_version (show_response q) = Parsed (ps_minor q) (SP # s)"
    using assms(1) by (simp add: parse_http_version_def dg digit_at_def response_ok_def show_response_def
        s_def h_def SP_char)
  obtain d ds where d: "s = d # ds" "d \<noteq> SP"
  proof -
    have "digit_char (ps_status q div 100) \<noteq> SP"
    proof
      assume "digit_char (ps_status q div 100) = SP"
      then have "code (digit_char (ps_status q div 100)) = 32" by (simp add: SP_def code_def)
      then show False using st by simp
    qed
    then show thesis using that st by (simp add: s_def dec_string_status)
  qed
  have s1: "parse_sp (SP # s) = Parsed () s"
    using d by (simp add: parse_sp_def skip_spaces_def)
  have s2: "parse_status s = Parsed (ps_status q) (SP # ps_msg q @ CR # LF # h)"
    using parse_status_show [OF st] by (simp add: s_def)
  have "get_token_to_eol ((SP # ps_msg q) @ CR # LF # h) = Parsed (SP # ps_msg q) h"
    using assms(1) by (intro eol_show) (simp add: response_ok_def is_ctl_def IS_PRINTABLE_ASCII_def code_def SP_def)
  then have s3: "parse_msg (SP # ps_msg q @ CR # LF # h) = Parsed (ps_msg q) h"
    using assms(1) by (cases "ps_msg q") (auto simp: parse_msg_def response_ok_def)
  have s4: "parse_headers m [] h = Parsed (ps_headers q) []"
    using parse_headers_show [of "ps_headers q" "[]" m "[]"] assms by (simp add: response_ok_def h_def)
  show ?thesis
    by (simp add: parse_response_def s0 s1 s2 s3 s4)
qed

section \<open>Well-formed results\<close>

text \<open>
  What a caller can rely on: the name of a header is a token, empty on a continuation line only, and
  neither the target nor a header value carries a control character (so none can end a line).
\<close>

definition header_wf :: "phr_header \<Rightarrow> bool" where
  "header_wf h \<longleftrightarrow> list_all token_char (fst h) \<and> list_all (\<lambda>c. \<not> is_ctl c) (snd h) \<and>
     (snd h = [] \<or> \<not> is_blank (last (snd h)))"

definition headers_wf :: "nat \<Rightarrow> phr_header list \<Rightarrow> bool" where
  "headers_wf m hs \<longleftrightarrow> length hs \<le> m \<and> list_all header_wf hs \<and> (hs \<noteq> [] \<longrightarrow> fst (hd hs) \<noteq> [])"

definition request_wf :: "nat \<Rightarrow> phr_request \<Rightarrow> bool" where
  "request_wf m q \<longleftrightarrow> pr_method q \<noteq> [] \<and> list_all token_char (pr_method q) \<and>
     pr_path q \<noteq> [] \<and> list_all (\<lambda>c. c \<noteq> SP \<and> 32 \<le> code c \<and> code c \<noteq> 127) (pr_path q) \<and>
     pr_minor q < 10 \<and> headers_wf m (pr_headers q)"

lemma parse_token_chars: "parse_token c s = Parsed t r \<Longrightarrow> list_all token_char t"
  by (induction c s arbitrary: t rule: parse_token.induct) (auto simp: pbind_Parsed_iff split: if_splits)

lemma advance_token_chars:
  "advance_token s = Parsed t r \<Longrightarrow> list_all (\<lambda>c. c \<noteq> SP \<and> 32 \<le> code c \<and> code c \<noteq> 127) t \<and> length r \<le> length s"
  by (induction s arbitrary: t rule: advance_token.induct)
    (fastforce simp: pbind_Parsed_iff IS_PRINTABLE_ASCII_def split: if_splits)+

lemma eol_chars: "get_token_to_eol s = Parsed t r \<Longrightarrow> list_all (\<lambda>c. \<not> is_ctl c) t"
  by (induction s arbitrary: t rule: get_token_to_eol.induct) (auto simp: pbind_Parsed_iff split: if_splits)

lemma trim_end_chars: "list_all P v \<Longrightarrow> list_all P (trim_end v)"
  by (auto simp: trim_end_def list_all_iff dest: set_dropWhileD)

lemma trim_end_last: "trim_end v = [] \<or> \<not> is_blank (last (trim_end v))"
  by (cases "dropWhile is_blank (rev v)") (auto simp: trim_end_def last_rev dest: dropWhile_eq_Cons_conv [THEN iffD1])

lemma one_header_wf:
  assumes "one_header first s = Parsed h r"
  shows "header_wf h \<and> (first \<longrightarrow> fst h \<noteq> [])"
proof -
  obtain n u v where h: "header_name first s = Parsed n u" "get_token_to_eol u = Parsed v r" "h = (n, trim_end v)"
    using assms by (auto simp: one_header_def pbind_Parsed_iff)
  have "list_all token_char n \<and> (first \<longrightarrow> n \<noteq> [])"
    using h(1) by (auto simp: header_name_def pbind_Parsed_iff dest: parse_token_chars split: list.splits if_splits)
  then show ?thesis using trim_end_chars [OF eol_chars [OF h(2)]] trim_end_last h(3) by (auto simp: header_wf_def)
qed

lemma parse_headers_wf:
  "parse_headers m hs s = Parsed hs' r \<Longrightarrow> headers_wf m hs \<Longrightarrow> headers_wf m hs' \<and> length r \<le> length s"
proof (induction m hs s rule: parse_headers.induct)
  case (1 m hs s)
  show ?case
  proof (cases "line_end s")
    case (Some e)
    then have "hs' = hs" "length r \<le> length s"
      using 1(2) by (auto simp: parse_headers.simps [of m hs s] line_end_def pbind_Parsed_iff
          split: list.splits if_splits dest!: expect_shorter)
    then show ?thesis using 1(3) by simp
  next
    case None
    then obtain h u where h: "one_header (hs = []) s = Parsed h u" "length hs \<noteq> m"
        "parse_headers m (hs @ [h]) u = Parsed hs' r"
      using 1(2) by (auto simp: parse_headers.simps [of m hs s] split: if_splits parse.splits)
    have "headers_wf m (hs @ [h])"
      using one_header_wf [OF h(1)] 1(3) h(2) by (cases hs) (auto simp: headers_wf_def)
    then show ?thesis using 1(1) [OF None h(2,1,3)] one_header_shorter [OF h(1)] by simp
  qed
qed

lemma parse_request_wf:
  assumes "parse_request m s = Parsed q r"
  shows "request_wf m q \<and> length r < length s"
proof -
  obtain s1 me s2 s3 p s4 s5 mi s6 s7 hs where q:
    "skip_empty_line s = Parsed () s1" "parse_token SP s1 = Parsed me s2" "skip_spaces s2 = Parsed () s3"
    "advance_token s3 = Parsed p s4" "skip_spaces s4 = Parsed () s5" "me \<noteq> []" "p \<noteq> []"
    "parse_http_version s5 = Parsed mi s6" "end_of_line s6 = Parsed () s7" "parse_headers m [] s7 = Parsed hs r"
    "q = \<lparr>pr_method = me, pr_path = p, pr_minor = mi, pr_headers = hs\<rparr>"
    using assms by (auto simp: parse_request_def pbind_Parsed_iff split: if_splits)
  have l: "length s1 \<le> length s" using q(1)
    by (auto simp: skip_empty_line_def line_end_def split: list.splits if_splits dest!: expect_shorter)
  have sp: "length v < length u" if "skip_spaces u = Parsed () v" for u v
    using that by (auto simp: skip_spaces_def pbind_Parsed_iff dest!: next_shorter skip_while_shorter)
  have e: "length s7 < length s6" using q(9)
    by (auto simp: end_of_line_def line_end_def split: list.splits if_splits dest!: expect_shorter)
  have ex: "length v \<le> length u" if "expect_string w u = Parsed () v" for w u v
    using that by (induction w u rule: expect_string.induct) (fastforce simp: pbind_Parsed_iff dest!: expect_shorter)+
  obtain u where u: "expect_string ''HTTP/1.'' s5 = Parsed () u" "parse_int 1 u = Parsed mi s6"
    using q(8) by (auto simp: parse_http_version_def pbind_Parsed_iff split: if_splits)
  have i: "mi < 10 \<and> length s6 \<le> length u" using u(2) by (cases u) (auto simp: digit_at_def split: if_splits)
  have "headers_wf m hs \<and> length r \<le> length s7" using parse_headers_wf [OF q(10)] by (simp add: headers_wf_def)
  moreover have "length r < length s"
    using calculation l parse_token_shorter [OF q(2)] sp [OF q(3)] advance_token_chars [OF q(4)] sp [OF q(5)] ex [OF u(1)] i e
    by linarith
  ultimately show ?thesis
    using q parse_token_chars [OF q(2)] advance_token_chars [OF q(4)] i by (simp add: request_wf_def)
qed

section \<open>Properties\<close>

text \<open>C16. Incremental parsing agrees with parsing from scratch. The second call of the parser, on everything
  received so far, only looks for the end of the head behind the \<open>last_len\<close> bytes that the first call
  found to be incomplete. Whatever the bytes are, it returns what a parse from scratch returns; or else the bytes
  are the beginning of no request head at all, no continuation of them is accepted, and of the two calls one
  rejects them now and the other reports them as incomplete. So the result is the same whenever a head is or
  may still become complete, an accepted head is accepted by both with the same length and contents, and only
  the moment of a rejection differs.\<close>

theorem incremental_parse_equivalent:
  assumes "fst (phr_parse_request m (take last_len a) 0) = - 2"
  shows "phr_parse_request m a last_len = phr_parse_request m a 0 \<or>
    (\<forall>b. snd (phr_parse_request m (a @ b) 0) = None) \<and>
    {phr_parse_request m a last_len, phr_parse_request m a 0} = {(- 1, None), (- 2, None)}"
proof (cases "\<exists>b q r. parse_request m (a @ b) = Parsed q r")
  case True
  then obtain b q r where q: "parse_request m (a @ b) = Parsed q r" by blast
  obtain h where h: "a @ b = h @ r" using request.ok_suffix [OF q] ..
  have alone: "parse_request m h = Parsed q []" using request_alone q h by simp
  note pieces = phr_request_pieces [OF alone]
  have "phr_parse_request m a last_len = phr_parse_request m a 0"
  proof (cases "length h \<le> length a")
    case True
    then obtain u where a: "a = h @ u" using h by (auto simp: append_eq_append_conv2)
    have "last_len < length h"
    proof (rule ccontr)
      assume "\<not> last_len < length h"
      then have "take last_len a = h @ take (last_len - length h) u" using a by simp
      then have "fst (phr_parse_request m (take last_len a) 0) \<ge> 0"
        using request.ok_more [OF alone, of "take (last_len - length h) u"] by (simp add: phr_parse_request_def phr_parse_def)
      then show False using assms by simp
    qed
    moreover have "0 < length h" using calculation by linarith
    ultimately show ?thesis using pieces(1) [of last_len u] pieces(1) [of 0 u] a by simp
  next
    case False
    then obtain u where "h = a @ u" "u \<noteq> []" using h by (auto simp: append_eq_append_conv2)
    then show ?thesis using pieces(2) [of a u] by simp
  qed
  then show ?thesis by blast
next
  case False
  have none: "snd (phr_parse_request m (a @ b) 0) = None" for b
    using False by (cases "parse_request m (a @ b)") (auto simp: phr_parse_request_def phr_parse_def)
  have "phr_parse_request m a n \<in> {(- 1, None), (- 2, None)}" for n
    using False phr_rejects [of m a] by (cases "parse_request m a") (metis append_Nil2)+
  note codes = this
  from two_of [OF codes [of last_len] codes [of 0]] show ?thesis
  proof
    assume "{phr_parse_request m a last_len, phr_parse_request m a 0} = {(- 1, None), (- 2, None)}"
    then show ?thesis using none by (intro disjI2 conjI allI)
  qed (rule disjI1)
qed

text \<open>A head that arrives in two pieces, and a head with a bad version: the parse from scratch rejects it, the
  other call waits for the rest.\<close>

theorem incremental_parse_equivalent_witness:
  "phr_parse_request 100 (''GET / HTTP/1.1'' @ [CR, LF, CR, LF]) 14 =
     phr_parse_request 100 (''GET / HTTP/1.1'' @ [CR, LF, CR, LF]) 0 \<and>
   fst (phr_parse_request 100 (''GET / HTTP/1.1'' @ [CR, LF, CR, LF]) 0) = 18 \<and>
   phr_parse_request 100 ''GET / HTXXXXXXXX'' 8 = (- 2, None) \<and>
   phr_parse_request 100 ''GET / HTXXXXXXXX'' 0 = (- 1, None) \<and>
   (\<forall>b. snd (phr_parse_request 100 (''GET / HTXXXXXXXX'' @ b) 0) = None)"
proof -
  let ?h = "''GET / HTTP/1.1'' @ [CR, LF, CR, LF]" let ?x = "''GET / HTXXXXXXXX''"
  have c: "fst (phr_parse_request 100 (take 14 ?h) 0) = - 2" "fst (phr_parse_request 100 ?h 0) = 18"
    "fst (phr_parse_request 100 (take 8 ?x) 0) = - 2" "phr_parse_request 100 ?x 8 = (- 2, None)"
    "phr_parse_request 100 ?x 0 = (- 1, None)" by code_simp+
  have "phr_parse_request 100 ?h 14 = phr_parse_request 100 ?h 0"
    using incremental_parse_equivalent [OF c(1)] c(2) by (auto simp: doubleton_eq_iff)
  then show ?thesis using incremental_parse_equivalent [OF c(3)] c by auto
qed

text \<open>C18. Whatever bytes arrive, a request that the parser accepts is well formed: a non-empty method that is
  a token, a target without spaces and control characters, a one-digit minor version, no more
  headers than there is room for, tokens as their names (the first one is no continuation) and
  values without control characters or trailing blanks; the length returned is positive and inside
  the buffer.\<close>

theorem accepted_request_well_formed:
  assumes "phr_parse_request m buf last_len = (ret, Some q)"
  shows "request_wf m q \<and> 0 < ret \<and> ret \<le> int (length buf)"
proof -
  obtain r where "parse_request m buf = Parsed q r" "ret = int (length buf) - int (length r)"
    using assms by (auto simp: phr_parse_request_def phr_parse_def split: parse.splits)
  then show ?thesis using parse_request_wf [of m buf q r] by simp
qed

theorem accepted_request_well_formed_witness:
  "request_wf 100 \<lparr>pr_method = ''GET'', pr_path = ''/'', pr_minor = 1, pr_headers = [(''a'', ''b'')]\<rparr>"
proof -
  have "phr_parse_request 100 (''GET / HTTP/1.1'' @ [CR, LF] @ ''a:  b '' @ [CR, LF, CR, LF]) 0 =
      (26, Some \<lparr>pr_method = ''GET'', pr_path = ''/'', pr_minor = 1, pr_headers = [(''a'', ''b'')]\<rparr>)" by code_simp
  from accepted_request_well_formed [OF this] show ?thesis by simp
qed

end
