(* ===== verification/HttpParsers.thy ===== *)
theory HttpParsers
  imports HttpMessages PicoHttp
begin

text \<open>
  Model of \<open>src/Http/HttpParser.cc\<close>: the request and the response parser, which run
  \<open>picohttpparser\<close> on the bytes received so far and, once a head is complete, fill the message
  from its fields. At most 100 headers are accepted.
\<close>

section \<open>Requests\<close>

record request_parser =
  rp_request :: http_request
  rp_error :: bool
  rp_finished :: bool

definition HttpRequestParser_new :: request_parser where
  "HttpRequestParser_new =
     \<lparr>rp_request = HttpRequest_new 0x11 True, rp_error = False, rp_finished = False\<rparr>"

definition max_headers :: nat where "max_headers = 100"

definition set_target :: "string \<Rightarrow> http_request \<Rightarrow> http_request" where
  "set_target full_path rq =
     (if CHR ''?'' \<in> set full_path
      then rq\<lparr>rq_path := takeWhile (\<lambda>c. c \<noteq> CHR ''?'') full_path,
              rq_query := tl (dropWhile (\<lambda>c. c \<noteq> CHR ''?'') full_path)\<rparr>
      else rq\<lparr>rq_path := full_path\<rparr>)"

definition parsed_version :: "nat \<Rightarrow> nat" where
  "parsed_version minor_version = (if minor_version = 1 then 0x11 else 0x10)"

definition fill_request :: "phr_request \<Rightarrow> http_request \<Rightarrow> http_request" where
  "fill_request q rq =
     (let rq = rq\<lparr>rq_method := StringToHttpMethod (pr_method q)\<rparr>;
          rq = set_target (pr_path q) rq;
          rq = rq\<lparr>rq_version := parsed_version (pr_minor q)\<rparr>;
          rq = fold (\<lambda>(name, value) rq. rq_setHeader rq name value) (pr_headers q) rq
      in rq_init rq)"

definition rp_execute :: "request_parser \<Rightarrow> string \<Rightarrow> nat \<Rightarrow> request_parser \<times> int" where
  "rp_execute p data last_len =
     (let (ret, out) = phr_parse_request max_headers data last_len in
      case out of
        Some q \<Rightarrow>
          if ret > 0
          then (p\<lparr>rp_finished := True, rp_request := fill_request q (rp_request p)\<rparr>, ret)
          else (p, ret)
      | None \<Rightarrow> if ret = - 1 then (p\<lparr>rp_error := True\<rparr>, ret) else (p, ret))"

section \<open>Responses\<close>

record response_parser =
  sp_response :: http_response
  sp_error :: bool
  sp_finished :: bool

definition HttpResponseParser_new :: response_parser where
  "HttpResponseParser_new =
     \<lparr>sp_response = HttpResponse_new 0x11 True, sp_error = False, sp_finished = False\<rparr>"

definition fill_response :: "phr_response \<Rightarrow> http_response \<Rightarrow> http_response" where
  "fill_response q rs =
     (let rs = rs\<lparr>rs_version := parsed_version (ps_minor q)\<rparr>;
          rs = rs\<lparr>rs_status := ps_status q\<rparr>;
          rs = (if ps_msg q \<noteq> [] then rs\<lparr>rs_reason := ps_msg q\<rparr> else rs)
      in fold (\<lambda>(name, value) rs. rs_setHeader rs name value) (ps_headers q) rs)"

definition sp_execute :: "response_parser \<Rightarrow> string \<Rightarrow> nat \<Rightarrow> response_parser \<times> int" where
  "sp_execute p data last_len =
     (let (ret, out) = phr_parse_response max_headers data last_len in
      case out of
        Some q \<Rightarrow>
          if ret > 0
          then (p\<lparr>sp_finished := True, sp_response := fill_response q (sp_response p)\<rparr>, ret)
          else (p, ret)
      | None \<Rightarrow> if ret = - 1 then (p\<lparr>sp_error := True\<rparr>, ret) else (p, ret))"

section \<open>What a head in pieces does to the parser\<close>

definition request_done :: "phr_request \<Rightarrow> request_parser" where
  "request_done q = \<lparr>rp_request = fill_request q (HttpRequest_new 0x11 True), rp_error = False,
     rp_finished = True\<rparr>"

lemma rp_execute_pieces:
  assumes "parse_request max_headers h = Parsed q []"
  shows "last_len < length h \<Longrightarrow> rp_execute HttpRequestParser_new (h @ s) last_len = (request_done q, int (length h))"
    and "h = a @ b \<Longrightarrow> b \<noteq> [] \<Longrightarrow> rp_execute HttpRequestParser_new a last_len = (HttpRequestParser_new, - 2)"
  using phr_request_pieces [OF assms]
  by (auto simp: rp_execute_def request_done_def HttpRequestParser_new_def)

section \<open>The fields of a filled message\<close>

text \<open>Header assignment in order: of headers with one name, the last one stays.\<close>

fun last_header :: "string \<Rightarrow> phr_header list \<Rightarrow> string option" where
  "last_header k [] = None"
| "last_header k ((name, v) # hs) =
     (case last_header k hs of Some x \<Rightarrow> Some x
      | None \<Rightarrow> if strcasecmp_eq k name then Some v else None)"

definition assign_all :: "phr_header list \<Rightarrow> ci_map \<Rightarrow> ci_map" where
  "assign_all hs m = fold (\<lambda>(name, v) m. ci_assign name v m) hs m"

lemma assign_all_simps [simp]:
  "assign_all [] m = m" "assign_all ((n, v) # hs) m = assign_all hs (ci_assign n v m)"
  by (simp_all add: assign_all_def)

lemma ci_find_assign_all:
  "ci_sorted m \<Longrightarrow> ci_sorted (assign_all hs m) \<and>
     ci_find k (assign_all hs m) = (case last_header k hs of Some v \<Rightarrow> Some v | None \<Rightarrow> ci_find k m)"
  by (induction hs arbitrary: m) (auto simp: ci_find_ops(1) split: option.splits)

lemma fold_setHeader:
  "fold (\<lambda>(name, value) rq. rq_setHeader rq name value) hs rq = rq\<lparr>rq_headers := assign_all hs (rq_headers rq)\<rparr>"
  by (induction hs arbitrary: rq) (auto simp: rq_setHeader_def)

lemma fold_rs_setHeader:
  "fold (\<lambda>(name, value) rs. rs_setHeader rs name value) hs rs = rs\<lparr>rs_headers := assign_all hs (rs_headers rs)\<rparr>"
  by (induction hs arbitrary: rs) (auto simp: rs_setHeader_def)

lemma rq_init_fields [simp]:
  "rq_method (rq_init rq) = rq_method rq" "rq_path (rq_init rq) = rq_path rq"
  "rq_query (rq_init rq) = rq_query rq" "rq_version (rq_init rq) = rq_version rq"
  "rq_headers (rq_init rq) = rq_headers rq" "rq_body (rq_init rq) = rq_body rq"
  "rq_close (rq_init rq) \<longleftrightarrow> rq_getHeader rq ''Connection'' [] \<noteq> ''keep-alive''"
  by (simp_all add: rq_init_def Let_def)

lemma filled_fields [simp]:
  "rq_method (fill_request q rq) = StringToHttpMethod (pr_method q)"
  "rq_version (fill_request q rq) = parsed_version (pr_minor q)"
  "rq_headers (fill_request q rq) = assign_all (pr_headers q) (rq_headers rq)"
  "rq_body (fill_request q rq) = rq_body rq"
  by (simp_all add: fill_request_def fold_setHeader set_target_def Let_def)

lemma cut_at:
  "c \<notin> set p \<Longrightarrow> takeWhile (\<lambda>x. x \<noteq> c) (p @ c # s) = p \<and> dropWhile (\<lambda>x. x \<noteq> c) (p @ c # s) = c # s"
  by (induction p) auto

lemma filled_target:
  "CHR ''?'' \<notin> set p \<Longrightarrow> pr_path q = p @ CHR ''?'' # s \<Longrightarrow>
     rq_path (fill_request q rq) = p \<and> rq_query (fill_request q rq) = s"
  "CHR ''?'' \<notin> set (pr_path q) \<Longrightarrow>
     rq_path (fill_request q rq) = pr_path q \<and> rq_query (fill_request q rq) = rq_query rq"
  by (simp_all add: fill_request_def fold_setHeader set_target_def Let_def cut_at)

lemma filled_headers:
  assumes "ci_sorted (rq_headers rq)"
  shows "ci_find k (rq_headers (fill_request q rq)) =
    (case last_header k (pr_headers q) of Some v \<Rightarrow> Some v | None \<Rightarrow> ci_find k (rq_headers rq))"
  using ci_find_assign_all [OF assms] by simp

end
