(* ===== verification/Streams.thy ===== *)
theory Streams
  imports ByteArrays CStrings
begin

text \<open>
  Model of \<open>src/Stream.cc\<close>, of the transfers of \<open>src/Stream/SocketStream.cc\<close>, and of the
  transfers of a connected socket that they end in.

  The four fixed-size transfers of \<open>Stream\<close> are one loop over a virtual \<open>read\<close> or \<open>write\<close>: the
  loop is modelled once (\<open>fix_loop\<close>), with the step and its state as parameters. The locales
  \<open>byte_source\<close> and \<open>byte_sink\<close> state what the loop relies on; they are interpreted at the
  socket below, whose kernel side is the list of segments that arrive and the list of sizes
  that successive sends accept.
\<close>

section \<open>Fixed-size transfers\<close>

text \<open>The conversion of the 64-bit length to the \<open>int\<close> that is returned.\<close>

definition ret_int :: "nat \<Rightarrow> int" where
  "ret_int n = sint (of_nat n :: u32)"

text \<open>\<open>step s left\<close> transfers at most \<open>left\<close> bytes and returns how many, or a number \<open>\<le> 0\<close>.\<close>

function fix_loop :: "('s \<Rightarrow> nat \<Rightarrow> 's \<times> int) \<Rightarrow> 's \<Rightarrow> nat \<Rightarrow> 's \<times> int option" where
  "fix_loop step s left =
     (if left = 0 then (s, None)
      else let (s', lent) = step s left in
        if lent \<le> 0 then (s', Some lent) else fix_loop step s' (left - nat lent))"
  by auto
termination
  by (relation "measure (\<lambda>(step, s, left). left)") auto

declare fix_loop.simps [simp del]

definition fixsize :: "('s \<Rightarrow> nat \<Rightarrow> 's \<times> int) \<Rightarrow> 's \<Rightarrow> nat \<Rightarrow> 's \<times> int" where
  "fixsize step s len =
     (let (s', failed) = fix_loop step s len in
      (s', case failed of Some e \<Rightarrow> e | None \<Rightarrow> ret_int len))"

text \<open>
  Reading into a buffer: \<open>rd\<close> also gives the bytes it stored, which are appended at the offset
  reached so far. Writing from a buffer: the bytes not yet accepted are the rest.
\<close>

definition read_step :: "('s \<Rightarrow> nat \<Rightarrow> 's \<times> int \<times> 'b list) \<Rightarrow> 's \<times> 'b list \<Rightarrow> nat \<Rightarrow> ('s \<times> 'b list) \<times> int" where
  "read_step rd = (\<lambda>(s, acc) left. let (s', lent, c) = rd s left in ((s', acc @ c), lent))"

definition write_step :: "('s \<Rightarrow> 'b list \<Rightarrow> 's \<times> int) \<Rightarrow> 's \<times> 'b list \<Rightarrow> nat \<Rightarrow> ('s \<times> 'b list) \<times> int" where
  "write_step wr = (\<lambda>(s, rest) left. let (s', lent) = wr s (take left rest) in ((s', drop (nat lent) rest), lent))"

definition readfixsize :: "('s \<Rightarrow> nat \<Rightarrow> 's \<times> int \<times> 'b list) \<Rightarrow> 's \<Rightarrow> nat \<Rightarrow> 's \<times> int \<times> 'b list" where
  "readfixsize rd s len = (let ((s', buf), r) = fixsize (read_step rd) (s, []) len in (s', r, buf))"

definition writefixsize :: "('s \<Rightarrow> 'b list \<Rightarrow> 's \<times> int) \<Rightarrow> 's \<Rightarrow> 'b list \<Rightarrow> 's \<times> int" where
  "writefixsize wr s buf = (let ((s', rest), r) = fixsize (write_step wr) (s, buf) (length buf) in (s', r))"

lemma ret_int_small: "n < 2 ^ 31 \<Longrightarrow> ret_int n = int n"
  by (simp add: ret_int_def signed_of_nat signed_take_bit_int_eq_self)

section \<open>What a stream promises\<close>

text \<open>
  A source: each step takes a non-empty prefix of what is pending, at most as much as it is
  asked for, and stores it (\<open>took s c s'\<close>); with nothing pending it reports the end or an error.
\<close>

locale byte_source =
  fixes step :: "'s \<Rightarrow> nat \<Rightarrow> 's \<times> int"
    and pend :: "'s \<Rightarrow> 'b list"
    and ok :: "'s \<Rightarrow> bool"
    and took :: "'s \<Rightarrow> 'b list \<Rightarrow> 's \<Rightarrow> bool"
  assumes took_nil: "ok s \<Longrightarrow> took s [] s"
    and took_app: "took s c s1 \<Longrightarrow> took s1 d s2 \<Longrightarrow> took s (c @ d) s2"
    and step_some: "ok s \<Longrightarrow> pend s \<noteq> [] \<Longrightarrow> 0 < n \<Longrightarrow> n < 2 ^ 31 \<Longrightarrow>
      \<exists>s' c. step s n = (s', int (length c)) \<and> c \<noteq> [] \<and> length c \<le> n \<and>
        pend s = c @ pend s' \<and> ok s' \<and> took s c s'"
    and step_none: "ok s \<Longrightarrow> pend s = [] \<Longrightarrow> 0 < n \<Longrightarrow> n < 2 ^ 31 \<Longrightarrow>
      \<exists>s' e. step s n = (s', e) \<and> e \<le> 0 \<and> pend s' = [] \<and> ok s' \<and> took s [] s'"
begin

lemma fix_loop_reads:
  "ok s \<Longrightarrow> n \<le> length (pend s) \<Longrightarrow> n < 2 ^ 31 \<Longrightarrow>
   \<exists>s'. fix_loop step s n = (s', None) \<and> took s (take n (pend s)) s' \<and>
     pend s' = drop n (pend s) \<and> ok s'"
proof (induction n arbitrary: s rule: less_induct)
  case (less n)
  show ?case
  proof (cases "n = 0")
    case True
    then show ?thesis using less.prems by (auto simp: fix_loop.simps took_nil)
  next
    case False
    then have "pend s \<noteq> []" using less.prems by auto
    then obtain s1 c where c: "step s n = (s1, int (length c))" "c \<noteq> []" "length c \<le> n"
      "pend s = c @ pend s1" "ok s1" "took s c s1"
      using step_some [of s n] less.prems(1,3) False by blast
    have len: "length (pend s) = length c + length (pend s1)" using c(4) by simp
    have "n - length c \<le> length (pend s1)" "n - length c < 2 ^ 31" using less.prems(2,3) len by simp_all
    moreover have "n - length c < n" using c(2) False by simp
    ultimately obtain s2 where
      "fix_loop step s1 (n - length c) = (s2, None)" "took s1 (take (n - length c) (pend s1)) s2"
      "pend s2 = drop (n - length c) (pend s1)" "ok s2"
      using less.IH [of "n - length c" s1] c(5) by auto
    moreover from this(2) c(3,4,6) have "took s (take n (pend s)) s2"
      using took_app [OF c(6), of "take (n - length c) (pend s1)" s2] by simp
    ultimately show ?thesis
      using False c by (subst fix_loop.simps) simp
  qed
qed

lemma fixsize_all:
  assumes "ok s" "n \<le> length (pend s)" "n < 2 ^ 31"
  obtains s' where "fixsize step s n = (s', int n)" "took s (take n (pend s)) s'"
    "pend s' = drop n (pend s)" "ok s'"
  using fix_loop_reads [OF assms] assms(3) by (auto simp: fixsize_def ret_int_small)

text \<open>When the source ends too early, everything it had has been stored and the call fails.\<close>

lemma fix_loop_starves:
  "ok s \<Longrightarrow> length (pend s) < n \<Longrightarrow> n < 2 ^ 31 \<Longrightarrow>
   \<exists>s' e. fix_loop step s n = (s', Some e) \<and> e \<le> 0 \<and> took s (pend s) s' \<and> pend s' = [] \<and> ok s'"
proof (induction n arbitrary: s rule: less_induct)
  case (less n)
  show ?case
  proof (cases "pend s = []")
    case True
    then show ?thesis
      using step_none [of s n] less.prems by (subst fix_loop.simps) (auto split: prod.splits)
  next
    case False
    have n: "0 < n" using less.prems by simp
    obtain s1 c where c: "step s n = (s1, int (length c))" "c \<noteq> []" "length c \<le> n"
      "pend s = c @ pend s1" "ok s1" "took s c s1"
      using step_some [of s n] less.prems(1,3) False n by blast
    have len: "length (pend s) = length c + length (pend s1)" using c(4) by simp
    have "length (pend s1) < n - length c" "n - length c < 2 ^ 31" using less.prems(2,3) len by simp_all
    moreover have "n - length c < n" using c(2) n by simp
    ultimately obtain s2 e where
      "fix_loop step s1 (n - length c) = (s2, Some e)" "e \<le> 0" "took s1 (pend s1) s2" "pend s2 = []" "ok s2"
      using less.IH [of "n - length c" s1] c(5) by blast
    moreover have "took s (pend s) s2"
      using took_app [OF c(6) \<open>took s1 (pend s1) s2\<close>] c(4) by simp
    ultimately show ?thesis
      using n c by (subst fix_loop.simps) simp
  qed
qed

lemma fixsize_starves:
  assumes "ok s" "length (pend s) < n" "n < 2 ^ 31"
  obtains s' e where "fixsize step s n = (s', e)" "e \<le> 0" "took s (pend s) s'" "pend s' = []" "ok s'"
  using fix_loop_starves [OF assms] by (auto simp: fixsize_def)

end

text \<open>
  A sink: a step that reports \<open>k\<close> bytes has sent the next \<open>k\<close> bytes of what is to be sent.
\<close>

locale byte_sink =
  fixes step :: "'s \<Rightarrow> nat \<Rightarrow> 's \<times> int"
    and todo :: "'s \<Rightarrow> 'b list"
    and sent :: "'s \<Rightarrow> 'b list"
    and ok :: "'s \<Rightarrow> bool"
  assumes step_sent: "ok s \<Longrightarrow> 0 < n \<Longrightarrow> n \<le> length (todo s) \<Longrightarrow> n < 2 ^ 31 \<Longrightarrow>
      \<exists>s' k. step s n = (s', k) \<and> k \<le> int n \<and> ok s' \<and>
        sent s' = sent s @ take (nat k) (todo s) \<and> todo s' = drop (nat k) (todo s)"
begin

lemma fix_loop_writes:
  "ok s \<Longrightarrow> n \<le> length (todo s) \<Longrightarrow> n < 2 ^ 31 \<Longrightarrow>
   \<exists>s' r k. fix_loop step s n = (s', r) \<and> k \<le> n \<and> ok s' \<and>
     sent s' = sent s @ take k (todo s) \<and> todo s' = drop k (todo s) \<and>
     (case r of None \<Rightarrow> k = n | Some e \<Rightarrow> e \<le> 0 \<and> k < n)"
proof (induction n arbitrary: s rule: less_induct)
  case (less n)
  show ?case
  proof (cases "n = 0")
    case True
    then show ?thesis using less.prems by (auto simp: fix_loop.simps)
  next
    case False
    then obtain s1 k where k: "step s n = (s1, k)" "k \<le> int n" "ok s1"
      "sent s1 = sent s @ take (nat k) (todo s)" "todo s1 = drop (nat k) (todo s)"
      using step_sent [OF less.prems(1), of n] less.prems(2,3) by blast
    show ?thesis
    proof (cases "k \<le> 0")
      case True
      then show ?thesis using k False by (subst fix_loop.simps) auto
    next
      case pos: False
      have "n - nat k < n" using pos False by simp
      moreover have "n - nat k \<le> length (todo s1)" "n - nat k < 2 ^ 31" using less.prems(2,3) k(5) by simp_all
      ultimately obtain s2 r j where j: "fix_loop step s1 (n - nat k) = (s2, r)" "j \<le> n - nat k" "ok s2"
        "sent s2 = sent s1 @ take j (todo s1)" "todo s2 = drop j (todo s1)"
        "case r of None \<Rightarrow> j = n - nat k | Some e \<Rightarrow> e \<le> 0 \<and> j < n - nat k"
        using less.IH [of "n - nat k" s1] k(3) by blast
      have "sent s2 = sent s @ take (nat k + j) (todo s)"
        by (simp only: j(4) k(4,5) take_add append_assoc)
      moreover have "todo s2 = drop (nat k + j) (todo s)"
        by (simp only: j(5) k(5) drop_drop add.commute)
      moreover have "case r of None \<Rightarrow> nat k + j = n | Some e \<Rightarrow> e \<le> 0 \<and> nat k + j < n"
        using j(6) k(2) pos by (cases r) auto
      moreover have "fix_loop step s n = (s2, r)"
        using False k(1) pos j(1) by (subst fix_loop.simps) simp
      moreover have "nat k + j \<le> n" using j(2) k(2) by linarith
      ultimately show ?thesis using j(3) by blast
    qed
  qed
qed

text \<open>A complete write has sent everything asked for, a failed one a proper prefix of it.\<close>

lemma fixsize_sent:
  assumes "ok s" "n \<le> length (todo s)" "n < 2 ^ 31"
  obtains s' r k where "fixsize step s n = (s', r)" "k \<le> n" "ok s'"
    "sent s' = sent s @ take k (todo s)" "todo s' = drop k (todo s)"
    "k = n \<and> r = int n \<or> k < n \<and> r \<le> 0"
proof -
  obtain s' r k where f: "fix_loop step s n = (s', r)" "k \<le> n" "ok s'"
     "sent s' = sent s @ take k (todo s)" "todo s' = drop k (todo s)"
     "case r of None \<Rightarrow> k = n | Some e \<Rightarrow> e \<le> 0 \<and> k < n"
    using fix_loop_writes [OF assms] by blast
  have "fixsize step s n = (s', case r of Some e \<Rightarrow> e | None \<Rightarrow> int n)"
    using f(1) ret_int_small [OF assms(3)] by (simp add: fixsize_def split: option.splits)
  then show thesis by (rule that [OF _ f(2-5)]) (use f(6) in \<open>auto split: option.splits\<close>)
qed

end

section \<open>A connected socket\<close>

text \<open>
  The kernel side of a connected socket: whether the \<open>Socket\<close> object says connected, the
  segments that arrive, what \<open>recv\<close> returns when there are none, how much each successive
  \<open>send\<close> accepts, and what has been sent. \<open>recv\<close> delivers at most one segment.
\<close>

record 'b sock =
  is_connected :: bool
  incoming :: "'b list list"
  at_end :: int
  room :: "nat list"
  outgoing :: "'b list"

definition sock_recv :: "'b sock \<Rightarrow> nat \<Rightarrow> 'b sock \<times> int \<times> 'b list" where
  "sock_recv t n =
     (if \<not> is_connected t then (t, - 1, [])
      else case incoming t of
        [] \<Rightarrow> (t, at_end t, [])
      | seg # segs \<Rightarrow>
          let c = take n seg; left = drop n seg
          in (t\<lparr>incoming := (if left = [] then segs else left # segs)\<rparr>, int (length c), c))"

definition sock_send :: "'b sock \<Rightarrow> 'b list \<Rightarrow> 'b sock \<times> int" where
  "sock_send t d =
     (if \<not> is_connected t then (t, - 1)
      else case room t of
        [] \<Rightarrow> (t, - 1)
      | n # ns \<Rightarrow> (t\<lparr>room := ns, outgoing := outgoing t @ take n d\<rparr>, int (min n (length d))))"

definition sock_close :: "'b sock \<Rightarrow> 'b sock" where
  "sock_close t = t\<lparr>is_connected := False\<rparr>"

definition sock_ok :: "'b sock \<Rightarrow> bool" where
  "sock_ok t \<longleftrightarrow> is_connected t \<and> [] \<notin> set (incoming t) \<and> at_end t \<le> 0"

definition pending :: "'b sock \<Rightarrow> 'b list" where
  "pending t = concat (incoming t)"

lemma sock_recv_some:
  assumes "sock_ok t" "pending t \<noteq> []" "0 < n"
  shows "\<exists>t' c. sock_recv t n = (t', int (length c), c) \<and> c \<noteq> [] \<and> length c \<le> n \<and>
    pending t = c @ pending t' \<and> sock_ok t' \<and> outgoing t' = outgoing t \<and> room t' = room t \<and>
    (\<exists>seg segs. incoming t = seg # segs \<and> c = take n seg)"
proof -
  from assms(1,2) obtain seg segs where s: "incoming t = seg # segs" "seg \<noteq> []"
    by (cases "incoming t") (auto simp: sock_ok_def pending_def)
  have "seg = take n seg @ drop n seg" by simp
  then show ?thesis
    using assms s by (auto simp: sock_recv_def sock_ok_def pending_def Let_def)
qed

text \<open>Reading into a buffer: the bytes received are appended at the offset reached.\<close>

interpretation into_buffer: byte_source "read_step sock_recv" "pending \<circ> fst" "sock_ok \<circ> fst"
  "\<lambda>s c s'. snd s' = snd s @ c \<and> outgoing (fst s') = outgoing (fst s) \<and> room (fst s') = room (fst s)"
proof (unfold_locales, goal_cases)
  case (3 s n)
  then obtain t' c where "sock_recv (fst s) n = (t', int (length c), c)" "c \<noteq> []" "length c \<le> n"
    "pending (fst s) = c @ pending t'" "sock_ok t'" "outgoing t' = outgoing (fst s)" "room t' = room (fst s)"
    using sock_recv_some [of "fst s" n] by auto
  then show ?case
    by (intro exI [of _ "(t', snd s @ c)"] exI [of _ c]) (simp add: read_step_def split_beta)
next
  case (4 s n)
  then show ?case
    by (cases "incoming (fst s)") (auto simp: read_step_def sock_recv_def sock_ok_def pending_def split_beta)
qed simp_all

lemma readfixsize_receives:
  assumes "sock_ok t" "n \<le> length (pending t)" "n < 2 ^ 31"
  obtains t' where "readfixsize sock_recv t n = (t', int n, take n (pending t))"
    "pending t' = drop n (pending t)" "sock_ok t'" "outgoing t' = outgoing t" "room t' = room t"
proof -
  obtain s where "fixsize (read_step sock_recv) (t, []) n = (s, int n)" "snd s = take n (pending t)"
    "pending (fst s) = drop n (pending t)" "sock_ok (fst s)"
    "outgoing (fst s) = outgoing t" "room (fst s) = room t"
    by (rule into_buffer.fixsize_all [of "(t, [])" n]) (use assms in auto)
  then show thesis by (intro that [of "fst s"]) (auto simp: readfixsize_def split_beta)
qed

lemma readfixsize_starves:
  assumes "sock_ok t" "length (pending t) < n" "n < 2 ^ 31"
  obtains t' e where "readfixsize sock_recv t n = (t', e, pending t)" "e \<le> 0"
    "pending t' = []" "sock_ok t'"
proof -
  obtain u e where "fixsize (read_step sock_recv) (t, []) n = ((u, pending t), e)" "e \<le> 0"
    "pending u = []" "sock_ok u"
    by (rule into_buffer.fixsize_starves [of "(t, [])" n]) (use assms in auto)
  then show thesis by (intro that) (auto simp: readfixsize_def)
qed

lemma sock_send_some:
  "\<exists>t' k. sock_send t d = (t', k) \<and> k \<le> int (length d) \<and> outgoing t' = outgoing t @ take (nat k) d"
  by (cases "room t") (auto simp: sock_send_def min_def)

interpretation from_buffer: byte_sink "write_step sock_send" snd "outgoing \<circ> fst"
  "\<lambda>s. True"
proof (unfold_locales, goal_cases)
  case (1 s n)
  obtain t' k where "sock_send (fst s) (take n (snd s)) = (t', k)" "k \<le> int (length (take n (snd s)))"
    "outgoing t' = outgoing (fst s) @ take (nat k) (take n (snd s))"
    using sock_send_some by blast
  moreover have "length (take n (snd s)) = n" using 1 by simp
  ultimately show ?case
    by (intro exI [of _ "(t', drop (nat k) (snd s))"] exI [of _ k])
      (simp add: write_step_def split_beta min_def nat_le_iff)
qed

lemma writefixsize_sends:
  assumes "length d < 2 ^ 31"
  obtains t' r k where "writefixsize sock_send t d = (t', r)"
    "outgoing t' = outgoing t @ take k d" "k = length d \<and> r = int (length d) \<or> k < length d \<and> r \<le> 0"
proof -
  obtain s r k where "fixsize (write_step sock_send) (t, d) (length d) = (s, r)" "k \<le> length d"
    "outgoing (fst s) = outgoing t @ take k d" "k = length d \<and> r = int (length d) \<or> k < length d \<and> r \<le> 0"
    by (rule from_buffer.fixsize_sent [where s = "(t, d)" and n = "length d"]) (use assms in auto)
  then show thesis by (intro that [of "fst s" r k]) (auto simp: writefixsize_def split_beta)
qed

section \<open>Byte arrays over a socket\<close>

text \<open>
  \<open>SocketStream\<close> passes the blocks of the array to \<open>recvmsg\<close> and \<open>sendmsg\<close>. The address of
  the first \<open>iovec\<close> is taken even when there is none, which is undefined.
\<close>

definition stream_read_ba :: "u8 sock \<Rightarrow> nat \<Rightarrow> bytearray \<Rightarrow> (u8 sock \<times> int) ba_result" where
  "stream_read_ba t len b =
     obind (getWriteBuffers b len) (\<lambda>b (iovs, n).
       if iovs = [] then Ub
       else let (t', ret, c) = sock_recv t n in
         if ret > 0
         then obind (setWritePosition (b\<lparr>m_nodes := scatter (m_nodes b) iovs c\<rparr>) (m_write_position b + nat ret))
                (\<lambda>b _. Ret b (t', ret))
         else Ret b (t', ret))"

definition stream_write_ba :: "u8 sock \<Rightarrow> nat \<Rightarrow> bytearray \<Rightarrow> (u8 sock \<times> int) ba_result" where
  "stream_write_ba t len b =
     obind (getReadBuffers b len) (\<lambda>b (iovs, n).
       if iovs = [] then Ub
       else let (t', ret) = sock_send t (gather (m_nodes b) iovs) in
         if ret > 0
         then obind (setReadPosition b (m_read_position b + nat ret)) (\<lambda>b _. Ret b (t', ret))
         else Ret b (t', ret))"

lemma iov_loop_cong:
  "map length ns = map length ms \<Longrightarrow> iov_loop ns i off n = iov_loop ms i off n"
proof (induction ns i off n rule: iov_loop.induct)
  case (1 ns i off n)
  have l: "length ns = length ms" using 1(2) by (metis length_map)
  have e: "length (ns ! i) = length (ms ! i)" if "i < length ns" for i
    using 1(2) that l by (metis nth_map)
  show ?case
    using 1 l e by (subst (1 2) iov_loop.simps) (auto simp: Let_def)
qed

lemma scatter_spec:
  assumes "uniform base ns" "0 < base" "off < base" "i * base + off + n \<le> base * length ns"
    and "iov_loop ns i off n = Some iovs" "length c \<le> n"
  shows "concat (scatter ns iovs c) = overwrite (concat ns) (i * base + off) c \<and>
    uniform base (scatter ns iovs c) \<and> length (scatter ns iovs c) = length ns"
  using assms
proof (induction n arbitrary: ns i off iovs c rule: less_induct)
  case (less n)
  show ?case
  proof (cases "n = 0")
    case True
    then show ?thesis using less.prems by (simp add: iov_loop.simps)
  next
    case False
    then have i: "i < length ns" using less.prems(5) by (auto simp: iov_loop.simps split: if_splits)
    have l: "length (ns ! i) = base" using less.prems(1) i by (simp add: uniform_nth)
    let ?cap = "base - off"
    let ?c = "take (min n ?cap) c"
    let ?ns = "ns[i := overwrite (ns ! i) off ?c]"
    have one: "concat ?ns = overwrite (concat ns) (i * base + off) ?c"
      by (rule overwrite_chunk) (use less.prems i in auto)
    have lo: "length (overwrite (ns ! i) off ?c) = base" using l less.prems(3) by simp
    then have u: "uniform base ?ns" using less.prems(1) by (simp add: uniform_update)
    show ?thesis
    proof (cases "n \<le> ?cap")
      case True
      then have "iovs = [(i, off, n)]" "?c = c"
        using less.prems(5,6) False i l by (auto simp: iov_loop.simps)
      then show ?thesis using one u by simp
    next
      case big: False
      obtain js where js: "iov_loop ns (Suc i) 0 (n - ?cap) = Some js" "iovs = (i, off, ?cap) # js"
        using less.prems(5) False i l big by (auto simp: iov_loop.simps [of ns i off n] Let_def split: if_splits)
      have same: "map length ?ns = map length ns"
        using i lo l by (intro nth_equalityI) (auto simp: nth_list_update)
      have "concat (scatter ?ns js (drop ?cap c)) = overwrite (concat ?ns) (Suc i * base + 0) (drop ?cap c) \<and>
          uniform base (scatter ?ns js (drop ?cap c)) \<and> length (scatter ?ns js (drop ?cap c)) = length ?ns"
        by (rule less.IH [of "n - ?cap"])
          (use less.prems big u js iov_loop_cong [OF same] in \<open>auto simp: algebra_simps\<close>)
      moreover have "overwrite (concat ?ns) (Suc i * base) (drop ?cap c) =
          overwrite (concat ns) (i * base + off) c"
      proof (cases "length c \<le> ?cap")
        case True
        then show ?thesis using one big by simp
      next
        case long: False
        have "Suc i * base = i * base + off + length ?c"
          using less.prems(3) long big by simp
        moreover have "length (concat ns) = base * length ns"
          using less.prems(1) by (rule length_concat_uniform)
        ultimately show ?thesis
          using one overwrite_overwrite [of "i * base + off" ?c "drop ?cap c" "concat ns"]
            less.prems(4,6) big long by (simp add: min_def add.commute)
      qed
      ultimately show ?thesis using js(2) big by (simp add: min_def)
    qed
  qed
qed


lemma getWriteBuffers_spec:
  assumes inv: "ba_inv b" and n: "0 < n" "n < 2 ^ 31"
  shows "\<exists>b' iovs. getWriteBuffers b n = Ret b' (iovs, n) \<and> iovs \<noteq> [] \<and> ba_inv b' \<and> ba_abs b' = ba_abs b \<and>
    m_read_node b' = m_read_node b \<and>
    iov_loop (m_nodes b') (m_write_position b' div m_base_node_size b')
      (m_write_position b' mod m_base_node_size b') n = Some iovs \<and>
    m_write_position b' + n \<le> m_capacity b'"
proof -
  let ?base = "m_base_node_size b" and ?w = "m_write_position b"
  obtain k where
    add: "addCapacity b n =
      Ret (b\<lparr>m_nodes := m_nodes b @ replicate k (new_node ?base),
             m_capacity := ?base * (length (m_nodes b) + k),
             m_write_node := node_at ?base (length (m_nodes b) + k) ?w\<rparr>) ()"
    and room: "?w + n \<le> ?base * (length (m_nodes b) + k)"
    using addCapacity_spec [OF inv n] by blast
  let ?ns = "m_nodes b @ replicate k (new_node ?base)" and ?i = "?w div ?base"
  let ?b = "b\<lparr>m_nodes := ?ns, m_capacity := ?base * (length (m_nodes b) + k),
             m_write_node := node_at ?base (length (m_nodes b) + k) ?w\<rparr>"
  have base: "0 < ?base" using inv by (simp add: ba_inv_def)
  have u: "uniform ?base ?ns"
    using inv by (simp add: ba_inv_def uniform_replicate new_node_def)
  have sz: "m_size b \<le> length (concat (m_nodes b))"
    using inv length_concat_nodes [OF inv] by (auto simp: ba_inv_def)
  have i: "?i < length ?ns"
    using room n by (simp add: less_mult_imp_div_less mult.commute)
  have "?i * ?base + ?w mod ?base + n \<le> ?base * length ?ns" using room by simp
  then obtain iovs where iovs: "iov_loop ?ns ?i (?w mod ?base) n = Some iovs"
    using iov_loop_spec [OF u base i, of "?w mod ?base" n] base by auto
  have ne: "iovs \<noteq> []"
    using iovs n by (auto simp: iov_loop.simps [of ?ns ?i "?w mod ?base" n] Let_def split: if_splits)
  have "getWriteBuffers b n = Ret ?b (iovs, n)"
    using n add base iovs i by (simp add: getWriteBuffers_def node_at_def)
  moreover have "m_size b \<le> ?base * (length (m_nodes b) + k)"
    using sz length_concat_nodes [OF inv] inv by (simp add: ba_inv_def algebra_simps)
  then have "ba_inv ?b"
    using inv u room n read_node_grow [OF inv, of k] by (auto simp: ba_inv_def)
  moreover have "ba_abs ?b = ba_abs b"
    using sz by (simp add: ba_abs_def ba_content_def)
  ultimately show ?thesis
    using iovs ne room
    by (intro exI [of _ ?b] exI [of _ iovs]) (simp del: add_mult_distrib2)
qed

text \<open>
  Storing received bytes through the blocks and then moving the write cursor is one write of
  these bytes.
\<close>

lemma scatter_is_write:
  assumes inv: "ba_inv b" and c: "length c \<le> n" "m_write_position b + n \<le> m_capacity b"
    and iovs: "iov_loop (m_nodes b) (m_write_position b div m_base_node_size b)
      (m_write_position b mod m_base_node_size b) n = Some iovs"
  shows "\<exists>b'. setWritePosition (b\<lparr>m_nodes := scatter (m_nodes b) iovs c\<rparr>)
        (m_write_position b + length c) = Ret b' () \<and> ba_inv b' \<and>
      ba_abs b' = buffer_write c (ba_abs b) \<and> m_read_node b' = m_read_node b"
proof -
  let ?base = "m_base_node_size b" and ?w = "m_write_position b"
  let ?ns = "scatter (m_nodes b) iovs c" and ?v = "?w + length c"
  have b: "0 < ?base" "uniform ?base (m_nodes b)" "m_capacity b = ?base * length (m_nodes b)"
    "?w \<le> m_size b" "m_size b \<le> m_capacity b"
    using inv by (simp_all add: ba_inv_def)
  have "?w div ?base * ?base + ?w mod ?base + n \<le> ?base * length (m_nodes b)"
    using c(2) b(3) by simp
  from scatter_spec [OF b(2,1) _ this iovs c(1)]
  have s: "concat ?ns = overwrite (concat (m_nodes b)) ?w c" "uniform ?base ?ns"
    "length ?ns = length (m_nodes b)"
    using b(1) by simp_all
  have ne: "?ns \<noteq> []" using s(3) inv by (auto simp: ba_inv_def)
  let ?b = "b\<lparr>m_nodes := ?ns\<rparr>"
  have inv': "ba_inv ?b" using inv s ne by (auto simp: ba_inv_def)
  have v: "?v \<le> m_capacity ?b" using c by simp
  note seek = seek_from_root [OF inv' v]
  let ?b' = "?b\<lparr>m_write_position := ?v, m_size := (if m_size b < ?v then ?v else m_size b),
                 m_write_node := node_at ?base (length ?ns) ?v\<rparr>"
  have "setWritePosition ?b ?v = Ret ?b' ()"
    using seek v by (simp add: setWritePosition_def)
  moreover have "ba_inv ?b'" using inv' v by (auto simp: ba_inv_def)
  moreover have "ba_abs ?b' = buffer_write c (ba_abs b)"
  proof -
    have mx: "(if m_size b < ?v then ?v else m_size b) = max (m_size b) ?v" by simp
    have "take (max (m_size b) ?v) (overwrite (concat (m_nodes b)) ?w c) = overwrite (ba_content b) ?w c"
      using take_overwrite_grow [of ?w "m_size b" c "concat (m_nodes b)"] b v
        length_concat_nodes [OF inv] by (simp add: ba_content_def)
    then show ?thesis
      unfolding mx using s(1) by (simp add: ba_abs_def buffer_write_def ba_content_def)
  qed
  ultimately show ?thesis by (intro exI [of _ ?b']) simp
qed

lemma buffer_write_nil [simp]: "buffer_write [] a = a"
  by (simp add: buffer_write_def)

lemma stream_read_some:
  assumes inv: "ba_inv b" and ok: "sock_ok t" and p: "pending t \<noteq> []" and n: "0 < n" "n < 2 ^ 31"
  obtains b' t' c where "stream_read_ba t n b = Ret b' (t', int (length c))" "c \<noteq> []" "length c \<le> n"
    "pending t = c @ pending t'" "sock_ok t'" "ba_inv b'" "ba_abs b' = buffer_write c (ba_abs b)"
    "m_read_node b' = m_read_node b" "outgoing t' = outgoing t"
proof -
  obtain b1 iovs where g: "getWriteBuffers b n = Ret b1 (iovs, n)" "iovs \<noteq> []" "ba_inv b1"
    "ba_abs b1 = ba_abs b" "m_read_node b1 = m_read_node b"
    "iov_loop (m_nodes b1) (m_write_position b1 div m_base_node_size b1)
      (m_write_position b1 mod m_base_node_size b1) n = Some iovs"
    "m_write_position b1 + n \<le> m_capacity b1"
    using getWriteBuffers_spec [OF inv n] by blast
  obtain t' c where r: "sock_recv t n = (t', int (length c), c)" "c \<noteq> []" "length c \<le> n"
    "pending t = c @ pending t'" "sock_ok t'" "outgoing t' = outgoing t"
    using sock_recv_some [OF ok p n(1)] by blast
  obtain b' where w: "setWritePosition (b1\<lparr>m_nodes := scatter (m_nodes b1) iovs c\<rparr>)
      (m_write_position b1 + length c) = Ret b' ()" "ba_inv b'" "ba_abs b' = buffer_write c (ba_abs b1)"
    "m_read_node b' = m_read_node b1"
    using scatter_is_write [OF g(3) r(3) g(7,6)] by blast
  have "stream_read_ba t n b = Ret b' (t', int (length c))"
    using g(1,2) r(1,2) w(1) by (simp add: stream_read_ba_def)
  then show thesis using r w(2-) g(4,5) that by simp
qed

lemma stream_read_none:
  assumes inv: "ba_inv b" and ok: "sock_ok t" and p: "pending t = []" and n: "0 < n" "n < 2 ^ 31"
  obtains b' where "stream_read_ba t n b = Ret b' (t, at_end t)" "at_end t \<le> 0"
    "ba_inv b'" "ba_abs b' = ba_abs b" "m_read_node b' = m_read_node b"
proof -
  have "incoming t = []" using ok p by (cases "incoming t") (auto simp: sock_ok_def pending_def)
  then have "sock_recv t n = (t, at_end t, [])" "at_end t \<le> 0"
    using ok by (auto simp: sock_recv_def sock_ok_def)
  then show thesis
    using getWriteBuffers_spec [OF inv n] that by (auto simp: stream_read_ba_def)
qed


text \<open>
  The fixed-size transfers of a byte array: the loop above over \<open>read(ba, left)\<close> or
  \<open>write(ba, left)\<close>, where an exception or undefined behaviour of the array ends it.
\<close>

fun ba_step :: "(u8 sock \<Rightarrow> nat \<Rightarrow> bytearray \<Rightarrow> (u8 sock \<times> int) ba_result) \<Rightarrow>
    u8 sock \<times> unit ba_result \<Rightarrow> nat \<Rightarrow> (u8 sock \<times> unit ba_result) \<times> int" where
  "ba_step tr (t, Ret b _) left =
     (case tr t left b of
        Ret b' (t', k) \<Rightarrow> ((t', Ret b' ()), k)
      | Thr b' e \<Rightarrow> ((t, Thr b' e), - 1)
      | Ub \<Rightarrow> ((t, Ub), - 1))"
| "ba_step tr (t, r) left = ((t, r), - 1)"

definition fixsize_ba :: "(u8 sock \<Rightarrow> nat \<Rightarrow> bytearray \<Rightarrow> (u8 sock \<times> int) ba_result) \<Rightarrow>
    u8 sock \<Rightarrow> nat \<Rightarrow> bytearray \<Rightarrow> (u8 sock \<times> int) ba_result" where
  "fixsize_ba tr t len b =
     (case fixsize (ba_step tr) (t, Ret b ()) len of
        ((t', Ret b' _), k) \<Rightarrow> Ret b' (t', k)
      | ((t', Thr b' e), k) \<Rightarrow> Thr b' e
      | ((t', Ub), k) \<Rightarrow> Ub)"

definition readfixsize_ba :: "u8 sock \<Rightarrow> nat \<Rightarrow> bytearray \<Rightarrow> (u8 sock \<times> int) ba_result" where
  "readfixsize_ba = fixsize_ba stream_read_ba"

definition writefixsize_ba :: "u8 sock \<Rightarrow> nat \<Rightarrow> bytearray \<Rightarrow> (u8 sock \<times> int) ba_result" where
  "writefixsize_ba = fixsize_ba stream_write_ba"

definition array_ok :: "u8 sock \<times> unit ba_result \<Rightarrow> bool" where
  "array_ok s \<longleftrightarrow> (case snd s of Ret b _ \<Rightarrow> ba_inv b | _ \<Rightarrow> False)"

definition array_took :: "u8 sock \<times> unit ba_result \<Rightarrow> bytes \<Rightarrow> u8 sock \<times> unit ba_result \<Rightarrow> bool" where
  "array_took s c s' \<longleftrightarrow> array_ok s \<and> array_ok s' \<and>
     (case (snd s, snd s') of (Ret b _, Ret b' _) \<Rightarrow>
        ba_abs b' = buffer_write c (ba_abs b) \<and> m_read_node b' = m_read_node b | _ \<Rightarrow> False)"

lemma buffer_write_append:
  "write_pos a \<le> length (content a) \<Longrightarrow>
   buffer_write d (buffer_write c a) = buffer_write (c @ d) a"
  by (simp add: buffer_write_def overwrite_grow)

lemma write_pos_le: "ba_inv b \<Longrightarrow> write_pos (ba_abs b) \<le> length (content (ba_abs b))"
  by (simp add: ba_abs_def length_ba_content) (simp add: ba_inv_def)

lemma array_took_append:
  assumes "array_took s c s1" "array_took s1 d s2"
  shows "array_took s (c @ d) s2"
  using assms buffer_write_append write_pos_le
  by (auto simp: array_took_def array_ok_def split: outcome.splits)

interpretation into_array: byte_source "ba_step stream_read_ba" "pending \<circ> fst"
  "\<lambda>s. sock_ok (fst s) \<and> array_ok s" array_took
proof (unfold_locales, goal_cases)
  case (1 s)
  then show ?case by (auto simp: array_took_def array_ok_def split: outcome.splits)
next
  case (2 s c s1 d s2)
  then show ?case by (rule array_took_append)
next
  case (3 s n)
  then obtain b where b: "snd s = Ret b ()" "ba_inv b" by (auto simp: array_ok_def split: outcome.splits)
  obtain b' t' c where c: "stream_read_ba (fst s) n b = Ret b' (t', int (length c))" "c \<noteq> []" "length c \<le> n"
    "pending (fst s) = c @ pending t'" "sock_ok t'" "ba_inv b'" "ba_abs b' = buffer_write c (ba_abs b)"
    "m_read_node b' = m_read_node b"
    by (rule stream_read_some [OF b(2), of "fst s" n]) (use 3 in auto)
  have "ba_step stream_read_ba s n = ((t', Ret b' ()), int (length c))"
    using b(1) c(1) by (cases s) simp
  then show ?case using b c
    by (intro exI [of _ "(t', Ret b' ())"] exI [of _ c]) (simp add: array_took_def array_ok_def)
next
  case (4 s n)
  then obtain b where b: "snd s = Ret b ()" "ba_inv b" by (auto simp: array_ok_def split: outcome.splits)
  obtain b' where c: "stream_read_ba (fst s) n b = Ret b' (fst s, at_end (fst s))" "at_end (fst s) \<le> 0"
    "ba_inv b'" "ba_abs b' = ba_abs b" "m_read_node b' = m_read_node b"
    by (rule stream_read_none [OF b(2), of "fst s" n]) (use 4 in auto)
  have "ba_step stream_read_ba s n = ((fst s, Ret b' ()), at_end (fst s))"
    using b(1) c(1) by (cases s) simp
  then show ?case using b c 4
    by (intro exI [of _ "(fst s, Ret b' ())"] exI [of _ "at_end (fst s)"]) (simp add: array_took_def array_ok_def)
qed


definition array_todo :: "u8 sock \<times> unit ba_result \<Rightarrow> bytes" where
  "array_todo s = (case snd s of Ret b _ \<Rightarrow> drop (m_read_position b) (ba_content b) | _ \<Rightarrow> [])"

definition array_ready :: "u8 sock \<times> unit ba_result \<Rightarrow> bool" where
  "array_ready s \<longleftrightarrow> (case snd s of
      Ret b _ \<Rightarrow> ba_inv b \<and> (m_read_position b < m_size b \<longrightarrow> ba_readable b) | _ \<Rightarrow> False)"

lemma stream_write_some:
  assumes inv: "ba_inv b" and rd: "ba_readable b" and n: "0 < n" "n \<le> getReadSize b"
  obtains b' t' k where "stream_write_ba t n b = Ret b' (t', k)" "k \<le> int n" "ba_inv b'"
    "ba_abs b' = (ba_abs b)\<lparr>read_pos := m_read_position b + nat k\<rparr>"
    "m_read_position b' < m_size b' \<longrightarrow> ba_readable b'"
    "outgoing t' = outgoing t @ take (nat k) (drop (m_read_position b) (ba_content b))"
proof -
  let ?r = "m_read_position b"
  obtain iovs where g: "getReadBuffers b n = Ret b (iovs, n)"
    "gather (m_nodes b) iovs = window (ba_content b) ?r n"
    using getReadBuffers_spec [OF inv rd, of n] n by (auto simp: min_def)
  have w: "window (ba_content b) ?r n = take n (drop ?r (ba_content b))" by (simp add: window_def)
  have len: "length (window (ba_content b) ?r n) = n"
    using n length_ba_content [OF inv] by (simp add: w getReadSize_def)
  have ne: "iovs \<noteq> []" using g(2) len n by auto
  obtain t' k where k: "sock_send t (gather (m_nodes b) iovs) = (t', k)"
    "k \<le> int n" "outgoing t' = outgoing t @ take (nat k) (window (ba_content b) ?r n)"
    using sock_send_some [of t "gather (m_nodes b) iovs"] g(2) len by auto
  have o: "outgoing t' = outgoing t @ take (nat k) (drop ?r (ba_content b))"
    using k(2,3) by (simp add: w min_def nat_le_iff)
  show thesis
  proof (cases "0 < k")
    case False
    then have "stream_write_ba t n b = Ret b (t', k)"
      using g(1) ne k(1) by (simp add: stream_write_ba_def)
    then show thesis
      by (rule that) (use False k(2) o inv rd in \<open>simp_all add: ba_abs_def\<close>)
  next
    case True
    have le: "?r + nat k \<le> m_size b"
    proof -
      have "m_read_position b \<le> m_size b" using inv by (simp add: ba_inv_def)
      then show ?thesis using k(2) n(2) by (simp add: getReadSize_def)
    qed
    obtain b' where s: "setReadPosition b (?r + nat k) = Ret b' ()" "ba_inv b'"
      "ba_abs b' = (ba_abs b)\<lparr>read_pos := ?r + nat k\<rparr>" "ba_readable b' \<longleftrightarrow> ?r + nat k < m_capacity b"
      using setReadPosition_inv [OF inv le] by blast
    have sz: "m_size b' = m_size b" "m_read_position b' = ?r + nat k"
      using s(1) le by (auto simp: setReadPosition_def split: option.splits if_splits)
    have "stream_write_ba t n b = Ret b' (t', k)"
      using g(1) ne k(1) s(1) True by (simp add: stream_write_ba_def)
    then show thesis
      by (rule that) (use k(2) o s sz inv in \<open>auto simp: ba_inv_def\<close>)
  qed
qed

interpretation from_array: byte_sink "ba_step stream_write_ba" array_todo "outgoing \<circ> fst" array_ready
proof (unfold_locales, goal_cases)
  case (1 s n)
  then obtain b where b: "snd s = Ret b ()" "ba_inv b" "m_read_position b < m_size b \<longrightarrow> ba_readable b"
    "array_todo s = drop (m_read_position b) (ba_content b)"
    by (auto simp: array_ready_def array_todo_def split: outcome.splits)
  have n: "n \<le> getReadSize b" using 1(3) b(4) length_ba_content [OF b(2)] by (simp add: getReadSize_def)
  then have "ba_readable b" using 1(2) b(3) by (simp add: getReadSize_def)
  from stream_write_some [OF b(2) this 1(2) n, of "fst s"]
  obtain b' t' k where k: "stream_write_ba (fst s) n b = Ret b' (t', k)" "k \<le> int n" "ba_inv b'"
    "ba_abs b' = (ba_abs b)\<lparr>read_pos := m_read_position b + nat k\<rparr>"
    "m_read_position b' < m_size b' \<longrightarrow> ba_readable b'"
    "outgoing t' = outgoing (fst s) @ take (nat k) (drop (m_read_position b) (ba_content b))"
    by blast
  have "ba_step stream_write_ba s n = ((t', Ret b' ()), k)"
    using b(1) k(1) by (cases s) simp
  moreover have "array_todo (t', Ret b' ()) = drop (nat k) (array_todo s)"
    using k(4) b(4) by (simp add: array_todo_def ba_abs_def add.commute)
  ultimately show ?case
    using k b by (intro exI [of _ "(t', Ret b' ())"] exI [of _ k]) (simp add: array_ready_def)
qed

section \<open>Properties\<close>

text \<open>Reading a fixed number of bytes from a socket into a byte array, with the data spread
  over the blocks by a vectored receive: when the bytes arrive, in any segmentation, the call
  returns the number and the array is as if exactly these bytes had been written to it in one
  piece; when the stream ends too early, everything that came has been stored and the result
  is 0 or an error.\<close>

theorem socket_fills_array:
  assumes "sock_ok t" "ba_inv b" "n < 2 ^ 31"
  shows "\<exists>b' t' r. readfixsize_ba t n b = Ret b' (t', r) \<and> ba_inv b' \<and> sock_ok t' \<and>
    ba_abs b' = buffer_write (take n (pending t)) (ba_abs b) \<and> pending t' = drop n (pending t) \<and>
    (if n \<le> length (pending t) then r = int n else r \<le> 0)"
proof (cases "n \<le> length (pending t)")
  case True
  have ok: "sock_ok (fst (t, Ret b ())) \<and> array_ok (t, Ret b ())"
    using assms by (simp add: array_ok_def)
  obtain s where "fixsize (ba_step stream_read_ba) (t, Ret b ()) n = (s, int n)"
    "array_took (t, Ret b ()) (take n (pending t)) s" "pending (fst s) = drop n (pending t)"
    "sock_ok (fst s) \<and> array_ok s"
    by (rule into_array.fixsize_all [OF ok, of n]) (use True assms in auto)
  then show ?thesis using True
    by (cases s) (auto simp: readfixsize_ba_def fixsize_ba_def array_took_def array_ok_def split: outcome.splits)
next
  case False
  have ok: "sock_ok (fst (t, Ret b ())) \<and> array_ok (t, Ret b ())"
    using assms by (simp add: array_ok_def)
  obtain s e where "fixsize (ba_step stream_read_ba) (t, Ret b ()) n = (s, e)" "e \<le> 0"
    "array_took (t, Ret b ()) (pending t) s" "pending (fst s) = []"
    "sock_ok (fst s) \<and> array_ok s"
    by (rule into_array.fixsize_starves [OF ok, of n]) (use False assms in auto)
  then show ?thesis using False
    by (cases s) (auto simp: readfixsize_ba_def fixsize_ba_def array_took_def array_ok_def split: outcome.splits)
qed

definition segments_abc :: "u8 sock" where
  "segments_abc = \<lparr>is_connected = True, incoming = [[97], [98, 99]], at_end = 0, room = [2, 9], outgoing = []\<rparr>"

theorem socket_fills_array_witness:
  "\<exists>b' t' r. readfixsize_ba segments_abc 3 (ByteArray_new 2) = Ret b' (t', r) \<and> ba_inv b' \<and> sock_ok t' \<and>
    ba_abs b' = buffer_write [97, 98, 99] (ba_abs (ByteArray_new 2)) \<and> pending t' = [] \<and> r = 3"
  using socket_fills_array [of segments_abc "ByteArray_new 2" 3] ba_inv_new [of 2]
  by (simp add: sock_ok_def segments_abc_def pending_def numeral_3_eq_3)

text \<open>Sending a fixed number of unread bytes of an array: whatever each send accepts, the
  bytes that went out are the next unread bytes in order, the read cursor has moved by their
  number, and the call returns the number asked for exactly when all of them went out.\<close>

theorem socket_drains_array:
  assumes "ba_inv b" "ba_readable b" "n \<le> getReadSize b" "n < 2 ^ 31"
  shows "\<exists>b' t' r k. writefixsize_ba t n b = Ret b' (t', r) \<and> ba_inv b' \<and> k \<le> n \<and>
    outgoing t' = outgoing t @ take k (drop (m_read_position b) (ba_content b)) \<and>
    drop (m_read_position b') (ba_content b') = drop k (drop (m_read_position b) (ba_content b)) \<and>
    (k = n \<and> r = int n \<or> k < n \<and> r \<le> 0)"
proof -
  have ok: "array_ready (t, Ret b ())" using assms by (simp add: array_ready_def)
  have td: "array_todo (t, Ret b ()) = drop (m_read_position b) (ba_content b)"
    by (simp add: array_todo_def)
  have len: "n \<le> length (array_todo (t, Ret b ()))"
    using assms(3) length_ba_content [OF assms(1)] by (simp add: td getReadSize_def)
  obtain s r k where "fixsize (ba_step stream_write_ba) (t, Ret b ()) n = (s, r)" "k \<le> n"
    "array_ready s" "outgoing (fst s) = outgoing t @ take k (array_todo (t, Ret b ()))"
    "array_todo s = drop k (array_todo (t, Ret b ()))" "k = n \<and> r = int n \<or> k < n \<and> r \<le> 0"
    by (rule from_array.fixsize_sent [OF ok len assms(4)]) (rule that, simp_all)
  moreover from this(3) obtain t' b' where b': "s = (t', Ret b' ())" "ba_inv b'"
    by (cases s) (auto simp: array_ready_def split: outcome.splits)
  ultimately show ?thesis
    by (intro exI [of _ b'] exI [of _ t'] exI [of _ r] exI [of _ k])
      (simp add: array_todo_def td writefixsize_ba_def fixsize_ba_def)
qed

theorem socket_drains_array_witness:
  "\<exists>b. ba_write (ByteArray_new 2) [97, 98, 99] = Ret b () \<and>
    (\<exists>b' t' r k. writefixsize_ba segments_abc 3 b = Ret b' (t', r) \<and> ba_inv b' \<and> k \<le> 3 \<and>
    outgoing t' = take k [97, 98, 99] \<and> drop (m_read_position b') (ba_content b') = drop k [97, 98, 99] \<and>
    (k = 3 \<and> r = 3 \<or> k < 3 \<and> r \<le> 0))"
proof -
  obtain b where b: "ba_write (ByteArray_new 2) [97, 98, 99] = Ret b ()"
    "wrote (ByteArray_new 2) [97, 98, 99] b"
    using ba_write_wrote [OF ba_inv_new, of 2 "[97, 98, 99]"] by auto
  then have inv: "ba_inv b" and a: "ba_abs b = buffer_write [97, 98, 99] (ba_abs (ByteArray_new 2))"
    and nd: "m_read_node b = Some 0"
    by (simp_all add: wrote_def ByteArray_new_def)
  have f: "m_read_position b = 0" "ba_content b = [97, 98, 99]"
    using a by (simp_all add: ba_abs_def buffer_write_def ByteArray_new_def ba_content_def overwrite_def)
  have "m_size b = 3" using length_ba_content [OF inv] f(2) by simp
  then have "3 \<le> getReadSize b" using f by (simp add: getReadSize_def)
  moreover have "ba_readable b" using nd by (simp add: ba_readable_def)
  moreover have "outgoing segments_abc = []" by (simp add: segments_abc_def)
  ultimately have "\<exists>b' t' r k. writefixsize_ba segments_abc 3 b = Ret b' (t', r) \<and> ba_inv b' \<and> k \<le> 3 \<and>
    outgoing t' = take k [97, 98, 99] \<and> drop (m_read_position b') (ba_content b') = drop k [97, 98, 99] \<and>
    (k = 3 \<and> r = 3 \<or> k < 3 \<and> r \<le> 0)"
    using socket_drains_array [OF inv, of 3 segments_abc] f by simp
  then show ?thesis using b(1) by blast
qed

end
