(* ===== verification/HttpSessions.thy ===== *)
theory HttpSessions
  imports HttpParsers Streams
begin

text \<open>
  Model of \<open>src/Http/HttpSession.cc\<close>: receiving one request (head, then body) from a connected
  socket and sending one response. The buffer of 4096 bytes is the list of the bytes in it.
  Whether a body of a given size can be allocated is a parameter: \<open>std::string::resize\<close>
  throws when it cannot, and nothing in the session catches that.
\<close>

section \<open>Numbers\<close>

text \<open>
  \<open>std::stoll\<close>: leading white space, a sign, decimal digits; what follows is ignored. It
  throws (\<open>None\<close>) without digits and outside the range of \<open>long long\<close>.
\<close>

definition stoll :: "string \<Rightarrow> int option" where
  "stoll str =
     (let s = dropWhile (\<lambda>c. is_space (code c)) str;
          neg = (s \<noteq> [] \<and> hd s = CHR ''-'');
          s = (if s \<noteq> [] \<and> (hd s = CHR ''-'' \<or> hd s = CHR ''+'') then tl s else s);
          digits = takeWhile (\<lambda>c. is_digit (code c)) s;
          n = int (dec_value digits);
          v = (if neg then - n else n)
      in if digits = [] \<or> v < - (2 ^ 63) \<or> 2 ^ 63 \<le> v then None else Some v)"

section \<open>Receiving\<close>

definition buff_size :: nat where "buff_size = 4096"

text \<open>
  The loop over \<open>read\<close>. The parser keeps its state between calls; \<open>None\<close> inside the result
  stands for \<open>nullptr\<close> after the connection was closed.
\<close>

partial_function (option) recv_head ::
  "request_parser \<Rightarrow> string \<Rightarrow> char sock \<Rightarrow> (char sock \<times> (request_parser \<times> string \<times> int) option) option"
where
  "recv_head p buf t =
     (let (t', len, c) = sock_recv t (buff_size - length buf) in
      if len \<le> 0 then Some (sock_close t', None)
      else
        let last_len = length buf; buf' = buf @ c;
            (p', nparse) = rp_execute p buf' last_len
        in if rp_error p' \<or> nparse = - 1 then Some (sock_close t', None)
           else if nparse > 0 then Some (t', Some (p', buf', nparse))
           else if nparse = - 2 \<and> length buf' = buff_size then Some (sock_close t', None)
           else recv_head p' buf' t')"

datatype recv_result = Received http_request | No_request | Resize_throws

definition content_length :: "http_request \<Rightarrow> int" where
  "content_length req =
     (let length_str = rq_getHeader req ''Content-Length'' [] in
      if length_str \<noteq> [] then (case stoll length_str of Some n \<Rightarrow> n | None \<Rightarrow> 0) else 0)"

definition recv_body ::
  "(int \<Rightarrow> bool) \<Rightarrow> http_request \<Rightarrow> string \<Rightarrow> char sock \<Rightarrow> char sock \<times> recv_result" where
  "recv_body can_alloc req extra t =
     (let len = content_length req in
      if len > 0 then
        (if \<not> can_alloc len then (t, Resize_throws)
         else
           let left_len = len - int (length extra) in
           if left_len > 0 then
             let (t', r, rest) = readfixsize sock_recv t (nat left_len) in
             if r \<le> 0 then (sock_close t', No_request)
             else (t', Received (req\<lparr>rq_body := extra @ rest\<rparr>))
           else (t, Received (req\<lparr>rq_body := take (nat len) extra\<rparr>)))
      else (t, Received req))"

definition recvRequest :: "(int \<Rightarrow> bool) \<Rightarrow> char sock \<Rightarrow> (char sock \<times> recv_result) option" where
  "recvRequest can_alloc t =
     map_option (\<lambda>(t, res).
         case res of
           None \<Rightarrow> (t, No_request)
         | Some (p, buf, nparse) \<Rightarrow> recv_body can_alloc (rp_request p) (drop (nat nparse) buf) t)
       (recv_head HttpRequestParser_new [] t)"

definition sendResponse :: "char sock \<Rightarrow> http_response \<Rightarrow> char sock \<times> int" where
  "sendResponse t rsp = writefixsize sock_send t (rs_dump rsp)"

section \<open>The loop returns\<close>

lemma sock_recv_at_end:
  "sock_recv t n = (t', len, c) \<Longrightarrow> at_end t \<le> 0 \<Longrightarrow> at_end t' \<le> 0 \<and> length c \<le> n \<and> (0 < len \<longrightarrow> c \<noteq> [])"
  by (auto simp: sock_recv_def Let_def split: if_splits list.splits)

text \<open>What the loop and the body do to the connection.\<close>

lemma sock_recv_conn:
  "sock_recv t n = (t', len, c) \<Longrightarrow> is_connected t' = is_connected t \<and> outgoing t' = outgoing t \<and>
     (0 < len \<longrightarrow> is_connected t)"
  by (auto simp: sock_recv_def Let_def split: if_splits list.splits)

lemma recv_head_returns:
  assumes "at_end t \<le> 0" "length buf \<le> buff_size"
  shows "\<exists>t' r. recv_head p buf t = Some (t', r) \<and> outgoing t' = outgoing t \<and>
     (case r of None \<Rightarrow> \<not> is_connected t' | Some x \<Rightarrow> is_connected t \<and> is_connected t')"
  using assms
proof (induction "buff_size - length buf" arbitrary: p buf t rule: less_induct)
  case less
  obtain t1 len c where r: "sock_recv t (buff_size - length buf) = (t1, len, c)"
    by (metis surj_pair)
  obtain p1 nparse where e: "rp_execute p (buf @ c) (length buf) = (p1, nparse)"
    by (metis surj_pair)
  note g = sock_recv_at_end [OF r less.prems(1)] and k = sock_recv_conn [OF r]
  show ?case
  proof (cases "len \<le> 0")
    case True
    then show ?thesis using r k by (subst recv_head.simps) (simp add: sock_close_def)
  next
    case False
    then have "buff_size - length (buf @ c) < buff_size - length buf" "length (buf @ c) \<le> buff_size"
      using g less.prems(2) by (cases c; simp)+
    then obtain t' q where q: "recv_head p1 (buf @ c) t1 = Some (t', q)" "outgoing t' = outgoing t1"
      "case q of None \<Rightarrow> \<not> is_connected t' | Some x \<Rightarrow> is_connected t1 \<and> is_connected t'"
      using less.hyps g by blast
    have rec: "recv_head p buf t =
        (if rp_error p1 \<or> nparse = - 1 then Some (sock_close t1, None)
         else if nparse > 0 then Some (t1, Some (p1, buf @ c, nparse))
         else if nparse = - 2 \<and> length (buf @ c) = buff_size then Some (sock_close t1, None)
         else recv_head p1 (buf @ c) t1)"
      using False r e by (subst recv_head.simps) (simp add: Let_def)
    show ?thesis
      using q k False unfolding rec by (auto simp: sock_close_def split: option.splits)
  qed
qed

lemma readfixsize_conn:
  "readfixsize sock_recv t n = (t', r, bs) \<Longrightarrow> is_connected t' = is_connected t \<and> outgoing t' = outgoing t"
proof -
  have "fix_loop (read_step sock_recv) (t, acc) n = ((t', bs), e) \<Longrightarrow>
      is_connected t' = is_connected t \<and> outgoing t' = outgoing t" for acc e
  proof (induction n arbitrary: t acc rule: less_induct)
    case (less n)
    obtain t1 len c where r: "sock_recv t n = (t1, len, c)" by (metis surj_pair)
    note c = sock_recv_conn [OF r]
    show ?case
    proof (cases "n = 0 \<or> len \<le> 0")
      case True
      then show ?thesis
        using less.prems c r by (auto simp: fix_loop.simps [of _ "(t, acc)"] read_step_def split: if_splits)
    next
      case False
      then have "fix_loop (read_step sock_recv) (t1, acc @ c) (n - nat len) = ((t', bs), e)"
        using less.prems r by (simp add: fix_loop.simps [of _ "(t, acc)"] read_step_def)
      from less.IH [OF _ this] False c show ?thesis by simp
    qed
  qed
  then show "readfixsize sock_recv t n = (t', r, bs) \<Longrightarrow> ?thesis"
    by (auto simp: readfixsize_def fixsize_def split: prod.splits)
qed

lemma recv_body_conn:
  assumes "recv_body can_alloc req extra t = (t', res)" "is_connected t"
  shows "outgoing t' = outgoing t \<and>
    (case res of No_request \<Rightarrow> \<not> is_connected t' | Received _ \<Rightarrow> is_connected t'
     | Resize_throws \<Rightarrow> is_connected t' \<and> (\<exists>n. 0 < n \<and> \<not> can_alloc n))"
proof -
  let ?n = "nat (content_length req - int (length extra))"
  obtain t1 r bs where r: "readfixsize sock_recv t ?n = (t1, r, bs)" by (metis surj_pair)
  show ?thesis
    using assms readfixsize_conn [OF r] r
    by (auto simp: recv_body_def Let_def sock_close_def split: if_splits)
qed

section \<open>A request arrives in any segmentation\<close>

lemma append_longer: "x @ y = h @ r \<Longrightarrow> length h \<le> length x \<Longrightarrow> \<exists>us. x = h @ us \<and> us @ y = r"
  by (auto simp: append_eq_append_conv2)

lemma recv_head_pieces:
  assumes "parse_request max_headers h = Parsed q []" "length h \<le> buff_size"
    and "sock_ok t" "buf @ pending t = h @ rest" "length buf < length h"
  shows "\<exists>t' extra. recv_head HttpRequestParser_new buf t =
      Some (t', Some (request_done q, h @ extra, int (length h))) \<and>
    extra @ pending t' = rest \<and> length (h @ extra) \<le> buff_size \<and> sock_ok t' \<and>
    outgoing t' = outgoing t \<and> room t' = room t"
  using assms(3-5)
proof (induction "length h - length buf" arbitrary: buf t rule: less_induct)
  case less
  have "length (buf @ pending t) = length (h @ rest)" using less.prems(2) by simp
  then have "pending t \<noteq> []" using less.prems(3) by auto
  moreover have "0 < buff_size - length buf" using less.prems(3) assms(2) by simp
  ultimately obtain t' c where r: "sock_recv t (buff_size - length buf) = (t', int (length c), c)" "c \<noteq> []"
    "length c \<le> buff_size - length buf" "pending t = c @ pending t'" "sock_ok t'"
    "outgoing t' = outgoing t" "room t' = room t"
    using sock_recv_some [OF less.prems(1)] by blast
  have pos: "\<not> int (length c) \<le> 0" using r(2) by simp
  have eq: "(buf @ c) @ pending t' = h @ rest" using less.prems(2) r(4) by simp
  show ?case
  proof (cases "length h \<le> length (buf @ c)")
    case True
    obtain extra where x: "buf @ c = h @ extra" "extra @ pending t' = rest"
      using append_longer [OF eq True] by blast
    have "rp_execute HttpRequestParser_new (buf @ c) (length buf) = (request_done q, int (length h))"
      using rp_execute_pieces(1) [OF assms(1) less.prems(3)] x(1) by simp
    then have "recv_head HttpRequestParser_new buf t = Some (t', Some (request_done q, buf @ c, int (length h)))"
      using r(1) pos less.prems(3) by (subst recv_head.simps) (auto simp: request_done_def Let_def)
    moreover have "length (h @ extra) \<le> buff_size"
      using r(3) less.prems(3) assms(2) by (simp flip: x(1))
    ultimately show ?thesis using x r by auto
  next
    case False
    then obtain b where b: "h = (buf @ c) @ b" "b \<noteq> []"
      using append_longer [OF eq [symmetric]] by auto
    have n: "length (buf @ c) < length h" using False by simp
    have "rp_execute HttpRequestParser_new (buf @ c) (length buf) = (HttpRequestParser_new, - 2)"
      by (rule rp_execute_pieces(2) [OF assms(1) b])
    then have "recv_head HttpRequestParser_new buf t = recv_head HttpRequestParser_new (buf @ c) t'"
      using r(1) pos n assms(2) by (subst recv_head.simps) (simp add: HttpRequestParser_new_def)
    moreover have "length h - length (buf @ c) < length h - length buf"
      using n r(2) by (cases c) auto
    ultimately show ?thesis
      using less.hyps [OF _ r(5) eq n] r(6,7) by simp
  qed
qed

lemma recv_body_pieces:
  assumes "content_length req = int (length body)" "rq_body req = []" "length body < 2 ^ 31"
    and "can_alloc (int (length body))" "sock_ok t" "extra @ pending t = body @ later"
  shows "\<exists>t'. recv_body can_alloc req extra t = (t', Received (req\<lparr>rq_body := body\<rparr>)) \<and>
    later = drop (length body) extra @ pending t' \<and> sock_ok t' \<and> outgoing t' = outgoing t \<and> room t' = room t"
proof (cases "length extra < length body")
  case True
  let ?n = "length body - length extra"
  obtain b where b: "body = extra @ b" "pending t = b @ later"
    using append_longer [OF assms(6) [symmetric]] True by auto
  have n: "?n = length b" "?n < 2 ^ 31" using b(1) assms(3) by simp_all
  obtain t' where t': "readfixsize sock_recv t ?n = (t', int ?n, take ?n (pending t))"
    "pending t' = drop ?n (pending t)" "sock_ok t'" "outgoing t' = outgoing t" "room t' = room t"
    by (rule readfixsize_receives [OF assms(5) _ n(2)]) (use b n in auto)
  have "nat (int (length body) - int (length extra)) = ?n" "0 < int (length body)"
    using True by auto
  then have "recv_body can_alloc req extra t = (t', Received (req\<lparr>rq_body := body\<rparr>))"
    using t'(1) n(1) b True assms(1,4) by (simp add: recv_body_def Let_def)
  then show ?thesis using t' b n(1) True by simp
next
  case False
  then obtain lost where l: "extra = body @ lost" "lost @ pending t = later"
    using append_longer [OF assms(6)] by auto
  have "recv_body can_alloc req extra t = (t, Received (req\<lparr>rq_body := body\<rparr>))"
    using assms(1,2,4) l(1) by (cases "body = []") (simp_all add: recv_body_def Let_def)
  then show ?thesis using l assms(5) by auto
qed

lemma recvRequest_pieces:
  assumes "parse_request max_headers h = Parsed q []" "length h \<le> buff_size"
    and "content_length (fill_request q (HttpRequest_new 0x11 True)) = int (length body)"
    and "length body < 2 ^ 31" "can_alloc (int (length body))"
    and "sock_ok t" "pending t = h @ body @ later"
  shows "\<exists>t' lost. recvRequest can_alloc t =
      Some (t', Received ((fill_request q (HttpRequest_new 0x11 True))\<lparr>rq_body := body\<rparr>)) \<and>
    sock_ok t' \<and> later = lost @ pending t' \<and> outgoing t' = outgoing t \<and> room t' = room t"
proof -
  have ne: "h \<noteq> []" using assms(1) by (auto simp: parse_request_def skip_empty_line_def line_end_def)
  obtain t1 extra where h: "recv_head HttpRequestParser_new [] t =
      Some (t1, Some (request_done q, h @ extra, int (length h)))"
    "extra @ pending t1 = body @ later" "sock_ok t1" "outgoing t1 = outgoing t" "room t1 = room t"
    using recv_head_pieces [OF assms(1,2,6), of "[]" "body @ later"] assms(7) ne by auto
  have e: "rq_body (fill_request q (HttpRequest_new 0x11 True)) = []"
    by (simp add: HttpRequest_new_def)
  obtain t' where b: "recv_body can_alloc (fill_request q (HttpRequest_new 0x11 True)) extra t1 =
      (t', Received ((fill_request q (HttpRequest_new 0x11 True))\<lparr>rq_body := body\<rparr>))"
    "later = drop (length body) extra @ pending t'" "sock_ok t'" "outgoing t' = outgoing t1" "room t' = room t1"
    using recv_body_pieces [where can_alloc = can_alloc, OF assms(3) e assms(4,5) h(3,2)] by blast
  have "recvRequest can_alloc t =
      Some (t', Received ((fill_request q (HttpRequest_new 0x11 True))\<lparr>rq_body := body\<rparr>))"
    using h(1) b(1) by (simp add: recvRequest_def request_done_def)
  then show ?thesis using b h by (intro exI [of _ t'] exI [of _ "drop (length body) extra"]) simp
qed


section \<open>A printed request is a head the parser accepts\<close>

text \<open>
  The requests that can be sent as they are: what the parser admits in a target and in header
  lines, no fragment (it would become part of the query), no length header of their own.
\<close>

definition sendable :: "http_request \<Rightarrow> bool" where
  "sendable rq \<longleftrightarrow> rq_wf rq \<and> rq_method rq \<noteq> INVALID_METHOD \<and> rq_version rq \<in> {0x10, 0x11} \<and>
     \<not> rq_websocket rq \<and> rq_path rq \<noteq> [] \<and> list_all target_char (rq_path rq) \<and>
     CHR ''?'' \<notin> set (rq_path rq) \<and> list_all target_char (rq_query rq) \<and> rq_fragment rq = [] \<and>
     list_all header_ok (rq_headers rq) \<and> length (rq_headers rq) \<le> 98 \<and>
     ci_find ''content-length'' (rq_headers rq) = None"

definition sent_headers :: "http_request \<Rightarrow> phr_header list" where
  "sent_headers rq =
     (''connection'', if rq_close rq then ''close'' else ''keep-alive'') #
     filter (\<lambda>(k, v). \<not> is_connection k) (rq_headers rq) @
     (if rq_body rq \<noteq> [] then [(''content-length'', dec_string (length (rq_body rq)))] else [])"

definition sent_as :: "http_request \<Rightarrow> phr_request" where
  "sent_as rq =
     \<lparr>pr_method = the (HttpMethodToString (rq_method rq)),
      pr_path = rq_path rq @ (if rq_query rq = [] then [] else CHR ''?'' # rq_query rq),
      pr_minor = rq_version rq mod 16, pr_headers = sent_headers rq\<rparr>"

lemma method_tokens:
  "list_all (\<lambda>(m, s). s \<noteq> [] \<and> list_all token_char s) http_method_map"
  by code_simp

lemma method_sent:
  assumes "m \<noteq> INVALID_METHOD"
  obtains s where "HttpMethodToString m = Some s" "StringToHttpMethod s = m" "s \<noteq> []" "list_all token_char s"
proof -
  from assms have "\<exists>s. (m, s) \<in> set http_method_map"
    by (cases m) (auto simp: http_method_map_def)
  then obtain s where s: "(m, s) \<in> set http_method_map" by blast
  from bspec [OF method_table [unfolded list_all_iff] s] bspec [OF method_tokens [unfolded list_all_iff] s]
  show thesis using that [of s] by (simp add: list_all_iff)
qed

lemma dec_string_header: "header_ok (''content-length'', dec_string n)"
proof -
  have d: "all_digits (dec_string n)" by simp
  have "is_digit (code c) \<Longrightarrow> \<not> is_ctl c \<and> \<not> is_blank c" for c
    by (auto simp: is_digit_def is_ctl_def IS_PRINTABLE_ASCII_def is_blank_def SP_def TAB_def code_def)
  then have "list_all (\<lambda>c. \<not> is_ctl c \<and> \<not> is_blank c) (dec_string n)" "dec_string n \<noteq> []"
    using d by (auto simp: all_digits_def list_all_iff)
  moreover have "list_all token_char ''content-length''" by code_simp
  ultimately show ?thesis
    by (auto simp: header_ok_def list_all_iff)
qed

lemma connection_header: "header_ok (''connection'', ''close'')" "header_ok (''connection'', ''keep-alive'')"
  by code_simp+

lemma sent_request_ok:
  assumes "sendable rq"
  shows "request_ok (sent_as rq) \<and> length (pr_headers (sent_as rq)) \<le> max_headers"
proof -
  obtain s where s: "HttpMethodToString (rq_method rq) = Some s" "s \<noteq> []" "list_all token_char s"
    using method_sent [of "rq_method rq"] assms by (auto simp: sendable_def)
  have "length (filter (\<lambda>(k, v). \<not> is_connection k) (rq_headers rq)) \<le> 98"
    by (rule le_trans [OF length_filter_le]) (use assms in \<open>simp add: sendable_def\<close>)
  moreover have "list_all header_ok (sent_headers rq)"
    using assms connection_header dec_string_header by (auto simp: sent_headers_def sendable_def list_all_iff)
  moreover have "target_char (CHR ''?'')" by code_simp
  ultimately show ?thesis
    using assms s by (auto simp: request_ok_def sent_as_def sendable_def sent_headers_def max_headers_def)
qed

lemma CRLF_chars: "CRLF = [CR, LF]"
  by code_simp

lemma dump_headers_show:
  "dump_headers False hs = concat (map show_header (filter (\<lambda>(k, v). \<not> is_connection k) hs))"
proof -
  have "(\<lambda>(k, v). k @ '': '' @ v @ CRLF) = show_header"
    by (auto simp: show_header_def CRLF_chars)
  then show ?thesis by (simp add: dump_headers_def)
qed

lemma rq_dump_show:
  assumes "sendable rq"
  shows "rq_dump rq = Some (show_request (sent_as rq) @ rq_body rq)"
proof -
  obtain s where s: "HttpMethodToString (rq_method rq) = Some s"
    using method_sent [of "rq_method rq"] assms by (auto simp: sendable_def)
  have d: "dec_string 1 = ''1''" by code_simp
  have v: "dump_version (rq_version rq) = ''HTTP/1.'' @ dec_string (rq_version rq mod 16)"
    using assms d by (auto simp: sendable_def dump_version_def)
  show ?thesis
    using assms s by (simp add: rq_dump_def v dump_headers_show show_request_def sent_as_def sendable_def
        dump_connection_def dump_body_def sent_headers_def show_header_def CRLF_chars)
qed

section \<open>Its fields come back\<close>

lemma stoll_dec_string: "n < 2 ^ 63 \<Longrightarrow> stoll (dec_string n) = Some (int n)"
proof -
  assume n: "n < 2 ^ 63"
  have d: "all_digits (dec_string n)" by simp
  then obtain c cs where c: "dec_string n = c # cs" "is_digit (code c)" "list_all (\<lambda>c. is_digit (code c)) cs"
    by (cases "dec_string n") (auto simp: all_digits_def)
  have "\<not> is_space (code c)" "c \<noteq> CHR ''-''" "c \<noteq> CHR ''+''"
    using c(2) by (auto simp: is_digit_def is_space_def code_def)
  moreover have "takeWhile (\<lambda>c. is_digit (code c)) (dec_string n) = dec_string n"
    using d by (auto simp: all_digits_def list_all_iff takeWhile_eq_all_conv)
  moreover have "int n < 2 ^ 63" using n by simp
  moreover have "dec_value (dec_string n) = n" by simp
  ultimately show ?thesis
    using c(1) by (simp add: stoll_def Let_def)
qed

lemma last_header_append:
  "last_header k (a @ b) = (case last_header k b of Some v \<Rightarrow> Some v | None \<Rightarrow> last_header k a)"
  by (induction a) (auto split: option.splits)

lemma last_header_None: "\<forall>(n, v) \<in> set hs. \<not> strcasecmp_eq k n \<Longrightarrow> last_header k hs = None"
  by (induction hs) auto

lemma last_header_filter:
  "\<not> strcasecmp_eq k ''connection'' \<Longrightarrow> last_header k (filter (\<lambda>(n, v). \<not> is_connection n) hs) = last_header k hs"
  by (induction hs) (auto simp: is_connection_def strcasecmp_eq_def split: option.splits)

lemma last_header_sorted: "ci_sorted hs \<Longrightarrow> last_header k hs = ci_find k hs"
proof (induction hs)
  case (Cons h hs)
  obtain n v where h: "h = (n, v)" by (cases h)
  have s: "ci_sorted hs" "\<forall>k' \<in> set (okeys hs). CompareIngnoreCase n k'"
    using Cons.prems by (auto simp: h ci_sorted_def)
  show ?case
  proof (cases "strcasecmp_eq k n")
    case True
    then have "ci_find k hs = None"
      using ci.omap_find_less [OF s(2)] ci_find_cong by simp
    then show ?thesis using Cons.IH [OF s(1)] True ci_eqv [of k n] by (simp add: h)
  next
    case False
    show ?thesis
    proof (cases "CompareIngnoreCase k n")
      case True
      then have "\<forall>k' \<in> set (okeys hs). CompareIngnoreCase k k'" using s(2) ci.lt_trans by blast
      then have "ci_find k hs = None" by (rule ci.omap_find_less)
      then show ?thesis using Cons.IH [OF s(1)] True False by (simp add: h ci.lt_asym)
    next
      case le: False
      then show ?thesis using Cons.IH [OF s(1)] False ci_eqv [of k n] by (auto simp: h split: option.splits)
    qed
  qed
qed simp

lemma filled_from_sent:
  assumes "sendable rq" "rq' = (fill_request (sent_as rq) (HttpRequest_new 0x11 True))\<lparr>rq_body := rq_body rq\<rparr>"
  shows "rq_method rq' = rq_method rq" "rq_path rq' = rq_path rq" "rq_query rq' = rq_query rq"
    "rq_version rq' = rq_version rq" "rq_close rq' = rq_close rq"
    "\<not> is_connection k \<Longrightarrow> \<not> strcasecmp_eq k ''content-length'' \<Longrightarrow> rq_getHeader rq' k def = rq_getHeader rq k def"
    "length (rq_body rq) < 2 ^ 63 \<Longrightarrow>
       content_length (fill_request (sent_as rq) (HttpRequest_new 0x11 True)) = int (length (rq_body rq))"
proof -
  let ?q = "sent_as rq" and ?new = "HttpRequest_new 0x11 True" and ?hs = "sent_headers rq"
  obtain s where s: "HttpMethodToString (rq_method rq) = Some s" "StringToHttpMethod s = rq_method rq"
    using method_sent [of "rq_method rq"] assms(1) by (auto simp: sendable_def)
  then show "rq_method rq' = rq_method rq" by (simp add: assms(2) sent_as_def)
  have w: "ci_sorted (rq_headers rq)" using assms(1) by (simp add: sendable_def rq_wf_def)
  have p: "rq_path (fill_request ?q ?new) = rq_path rq \<and> rq_query (fill_request ?q ?new) = rq_query rq"
  proof (cases "rq_query rq = []")
    case True
    then show ?thesis
      using filled_target(2) [of ?q ?new] assms(1) by (simp add: sent_as_def sendable_def HttpRequest_new_def)
  next
    case False
    then show ?thesis
      using filled_target(1) [of "rq_path rq" ?q "rq_query rq" ?new] assms(1) by (simp add: sent_as_def sendable_def)
  qed
  then show "rq_path rq' = rq_path rq" "rq_query rq' = rq_query rq" by (simp_all add: assms(2))
  show "rq_version rq' = rq_version rq"
    using assms(1) by (auto simp: assms(2) sent_as_def sendable_def parsed_version_def)
  have f: "ci_find j (rq_headers (fill_request ?q ?new)) = last_header j ?hs" for j
    using filled_headers [of ?new j ?q] by (simp add: HttpRequest_new_def sent_as_def split: option.splits)
  have lh: "last_header j ?hs = (if strcasecmp_eq j ''content-length'' \<and> rq_body rq \<noteq> []
       then Some (dec_string (length (rq_body rq))) else ci_find j (rq_headers rq))"
    if "\<not> is_connection j" for j
    using that last_header_filter [of j "rq_headers rq"] last_header_sorted [OF w, of j]
    by (auto simp: sent_headers_def last_header_append is_connection_def split: option.splits)
  show "rq_getHeader rq' k def = rq_getHeader rq k def"
    if "\<not> is_connection k" "\<not> strcasecmp_eq k ''content-length''"
    using f [of k] lh [OF that(1)] that by (simp add: assms(2) rq_getHeader_def)
  have cl: "strcasecmp_eq ''Content-Length'' ''content-length''" "\<not> is_connection ''Content-Length''"
    "strcasecmp_eq ''Connection'' ''connection''" "\<not> strcasecmp_eq ''Connection'' ''content-length''" by code_simp+
  have "ci_find ''Content-Length'' (rq_headers rq) = None"
    using ci_find_cong [OF cl(1)] assms(1) by (simp add: sendable_def)
  then have "rq_getHeader (fill_request ?q ?new) ''Content-Length'' [] =
      (if rq_body rq = [] then [] else dec_string (length (rq_body rq)))"
    using f lh [OF cl(2)] cl(1) by (simp add: rq_getHeader_def)
  moreover have "all_digits (dec_string (length (rq_body rq)))" by simp
  then have "dec_string (length (rq_body rq)) \<noteq> []" by (simp add: all_digits_def)
  ultimately show "content_length (fill_request ?q ?new) = int (length (rq_body rq))"
    if "length (rq_body rq) < 2 ^ 63"
    using stoll_dec_string [OF that] by (simp add: content_length_def)
  have "last_header ''Connection'' ?hs = Some (if rq_close rq then ''close'' else ''keep-alive'')"
  proof -
    have "last_header ''Connection'' (filter (\<lambda>(k, v). \<not> is_connection k) (rq_headers rq)) = None"
      by (rule last_header_None) (use cl(3) in \<open>auto simp: is_connection_def strcasecmp_eq_def\<close>)
    then show ?thesis using cl(3,4) by (simp add: sent_headers_def last_header_append)
  qed
  then show "rq_close rq' = rq_close rq"
    using f by (simp add: assms(2) fill_request_def Let_def rq_getHeader_def)
qed

text \<open>What the server has when the request is complete.\<close>

definition received :: "http_request \<Rightarrow> http_request" where
  "received rq = (fill_request (sent_as rq) (HttpRequest_new 0x11 True))\<lparr>rq_body := rq_body rq\<rparr>"

lemma recvRequest_one_segment:
  assumes "sendable rq" "rq_dump rq = Some msg"
    and "is_connected t" "incoming t = (msg @ later) # segs" "length (msg @ later) \<le> buff_size"
    and "can_alloc (int (length (rq_body rq)))"
  shows "recvRequest can_alloc t = Some (t\<lparr>incoming := segs\<rparr>, Received (received rq))"
proof -
  let ?h = "show_request (sent_as rq)" and ?r = "fill_request (sent_as rq) (HttpRequest_new 0x11 True)"
  let ?b = "rq_body rq" and ?t = "t\<lparr>incoming := segs\<rparr>"
  have msg: "msg = ?h @ ?b" using rq_dump_show [OF assms(1)] assms(2) by simp
  have p: "parse_request max_headers ?h = Parsed (sent_as rq) []"
    using parse_request_show sent_request_ok [OF assms(1)] by blast
  have ne: "?h \<noteq> []" by (simp add: show_request_def)
  then have pos: "\<not> int (length (msg @ later)) \<le> 0" using msg by (cases "?h") auto
  have r: "sock_recv t buff_size = (?t, int (length (msg @ later)), msg @ later)"
    using assms(3-5) by (simp add: sock_recv_def Let_def)
  have "rp_execute HttpRequestParser_new (msg @ later) 0 = (request_done (sent_as rq), int (length ?h))"
    using rp_execute_pieces(1) [OF p, of 0 "?b @ later"] ne msg by simp
  then have "recv_head HttpRequestParser_new [] t =
      Some (?t, Some (request_done (sent_as rq), msg @ later, int (length ?h)))"
    using r ne pos by (subst recv_head.simps) (simp add: request_done_def Let_def)
  moreover have "rq_body ?r = []" by (simp add: HttpRequest_new_def)
  moreover have "length ?b < 2 ^ 63" using assms(5) msg by (simp add: buff_size_def)
  then have "content_length ?r = int (length ?b)"
    by (rule filled_from_sent(7) [OF assms(1) refl])
  ultimately show ?thesis
    using assms(6) msg by (simp add: recvRequest_def request_done_def recv_body_def received_def Let_def)
qed

text \<open>A send that the kernel takes in one piece.\<close>

lemma send_in_one:
  assumes "is_connected t" "room t = n # ns" "d \<noteq> []" "length d \<le> n" "length d < 2 ^ 31"
  shows "writefixsize sock_send t d = (t\<lparr>room := ns, outgoing := outgoing t @ d\<rparr>, int (length d))"
proof -
  have "fix_loop (write_step sock_send) (t, d) (length d) =
      ((t\<lparr>room := ns, outgoing := outgoing t @ d\<rparr>, []), None)"
    using assms(1-4) by (simp add: fix_loop.simps write_step_def sock_send_def min_def)
  then show ?thesis
    using ret_int_small [OF assms(5)] by (simp add: writefixsize_def fixsize_def)
qed

lemma rs_dump_nonempty: "rs_dump rsp \<noteq> []"
  by (simp add: rs_dump_def dump_version_def)

section \<open>Properties\<close>

text \<open>C12. Client to server: a request printed by the client's \<open>operator<<\<close> and received by
  \<open>recvRequest\<close>, however the bytes are cut into segments, comes out with its method, path,
  query, version, connection mode, body and every other header. The text that follows it loses
  at most what was read into the buffer with it.\<close>

theorem request_round_trip:
  assumes "sendable rq" "rq_dump rq = Some msg"
    and "sock_ok t" "pending t = msg @ later" "length msg \<le> buff_size + length (rq_body rq)"
    and "length (rq_body rq) < 2 ^ 31" "can_alloc (int (length (rq_body rq)))"
  shows "\<exists>t' lost rq'. recvRequest can_alloc t = Some (t', Received rq') \<and>
    rq_method rq' = rq_method rq \<and> rq_path rq' = rq_path rq \<and> rq_query rq' = rq_query rq \<and>
    rq_version rq' = rq_version rq \<and> rq_close rq' = rq_close rq \<and> rq_body rq' = rq_body rq \<and>
    (\<forall>k def. \<not> is_connection k \<and> \<not> strcasecmp_eq k ''content-length'' \<longrightarrow>
       rq_getHeader rq' k def = rq_getHeader rq k def) \<and>
    sock_ok t' \<and> later = lost @ pending t'"
proof -
  let ?h = "show_request (sent_as rq)" and ?r = "fill_request (sent_as rq) (HttpRequest_new 0x11 True)"
  have msg: "msg = ?h @ rq_body rq" using rq_dump_show [OF assms(1)] assms(2) by simp
  have p: "parse_request max_headers ?h = Parsed (sent_as rq) []"
    using parse_request_show sent_request_ok [OF assms(1)] by blast
  have h: "length ?h \<le> buff_size" using assms(5) msg by simp
  have "length (rq_body rq) < 2 ^ 63" using assms(6) by simp
  then have c: "content_length ?r = int (length (rq_body rq))"
    by (rule filled_from_sent(7) [OF assms(1) refl])
  have q: "pending t = ?h @ rq_body rq @ later" using assms(4) msg by simp
  obtain t' lost where "recvRequest can_alloc t = Some (t', Received (?r\<lparr>rq_body := rq_body rq\<rparr>))"
    "sock_ok t'" "later = lost @ pending t'"
    using recvRequest_pieces [where can_alloc = can_alloc, OF p h c assms(6,7,3) q] by blast
  then show ?thesis
    using filled_from_sent [OF assms(1) refl] by (intro exI [of _ t'] exI [of _ lost] exI) auto
qed

definition sample_request :: http_request where
  "sample_request = (HttpRequest_new 0x11 False)
     \<lparr>rq_method := HTTP_POST, rq_path := ''/a'', rq_query := ''k=v'',
      rq_headers := [(''Host'', ''x'')], rq_body := ''hi''\<rparr>"

definition sample_text :: string where
  "sample_text = ''POST /a?k=v HTTP/1.1'' @ CRLF @ ''connection: keep-alive'' @ CRLF @ ''Host: x'' @ CRLF @
     ''content-length: 2'' @ CRLF @ CRLF @ ''hi''"

definition sample_socket :: "string list \<Rightarrow> char sock" where
  "sample_socket segs = \<lparr>is_connected = True, incoming = segs, at_end = 0, room = [1000], outgoing = []\<rparr>"

lemma sample_sendable: "sendable sample_request"
  by code_simp

lemma sample_dump: "rq_dump sample_request = Some sample_text"
  by code_simp

theorem request_round_trip_witness:
  "\<exists>t' rq'. recvRequest (\<lambda>_. True) (sample_socket [take 9 sample_text, drop 9 sample_text]) = Some (t', Received rq') \<and>
    rq_method rq' = HTTP_POST \<and> rq_query rq' = ''k=v'' \<and> rq_body rq' = ''hi''"
proof -
  have n: "length sample_text = 78" by code_simp
  have "take 9 sample_text \<noteq> []" "drop 9 sample_text \<noteq> []" using n by auto
  then have "sock_ok (sample_socket [take 9 sample_text, drop 9 sample_text])"
    by (auto simp: sock_ok_def sample_socket_def)
  moreover have "pending (sample_socket [take 9 sample_text, drop 9 sample_text]) = sample_text @ []"
    by (simp add: pending_def sample_socket_def)
  moreover have "rq_method sample_request = HTTP_POST \<and> rq_query sample_request = ''k=v'' \<and> rq_body sample_request = ''hi''"
    by (simp add: sample_request_def)
  ultimately show ?thesis
    using request_round_trip [OF sample_sendable sample_dump, of _ "[]" "\<lambda>_. True"] n
    by (fastforce simp: buff_size_def)
qed

text \<open>C19. Receiving always returns: each round adds at least one byte to a buffer of 4096, so no
  peer can keep the loop going. A request comes back only on an open connection; without one
  the connection has been closed; nothing is ever written. The other outcome is a body too
  large to allocate, which throws.\<close>

theorem recvRequest_terminates:
  assumes "at_end t \<le> 0"
  shows "\<exists>t' res. recvRequest can_alloc t = Some (t', res) \<and> outgoing t' = outgoing t \<and>
    (case res of
       No_request \<Rightarrow> \<not> is_connected t'
     | Received rq \<Rightarrow> is_connected t \<and> is_connected t'
     | Resize_throws \<Rightarrow> is_connected t' \<and> (\<exists>n. 0 < n \<and> \<not> can_alloc n))"
proof -
  obtain t1 r where h: "recv_head HttpRequestParser_new [] t = Some (t1, r)"
    and c: "outgoing t1 = outgoing t \<and>
      (case r of None \<Rightarrow> \<not> is_connected t1 | Some x \<Rightarrow> is_connected t \<and> is_connected t1)"
    using recv_head_returns [OF assms, of "[]" HttpRequestParser_new] by force
  show ?thesis
  proof (cases r)
    case None
    then show ?thesis using h c by (simp add: recvRequest_def)
  next
    case (Some x)
    then obtain p buf n where x: "r = Some (p, buf, n)" by (cases x) auto
    obtain t' res where b: "recv_body can_alloc (rp_request p) (drop (nat n) buf) t1 = (t', res)"
      by (metis surj_pair)
    then show ?thesis
      using h c x recv_body_conn [OF b] by (auto simp: recvRequest_def split: recv_result.splits)
  qed
qed

theorem recvRequest_terminates_witness:
  "\<exists>t' res. recvRequest (\<lambda>_. True) (sample_socket [''GET'']) = Some (t', res) \<and> outgoing t' = []"
proof -
  have "at_end (sample_socket [''GET'']) \<le> 0" "outgoing (sample_socket [''GET'']) = []"
    by (simp_all add: sample_socket_def)
  then show ?thesis
    using recvRequest_terminates [of "sample_socket [''GET'']" "\<lambda>_. True"] by fastforce
qed

text \<open>Pipelining is lost: a second request that arrives in the same segment as the first is
  read into the buffer of the first and dropped with it, so the next call does not see it.\<close>

theorem pipelined_request_lost:
  assumes "sendable rq" "rq_dump rq = Some msg" "can_alloc (int (length (rq_body rq)))"
    and "is_connected t" "incoming t = [msg @ later]" "length (msg @ later) \<le> buff_size"
  shows "\<exists>t' rq'. recvRequest can_alloc t = Some (t', Received rq') \<and> pending t' = []"
  using recvRequest_one_segment [where can_alloc = can_alloc, OF assms(1,2,4,5,6,3)] by (auto simp: pending_def)

theorem pipelined_request_lost_witness:
  "\<exists>msg t' rq'. rq_dump (HttpRequest_new 0x11 False) = Some msg \<and>
     recvRequest (\<lambda>_. True) (sample_socket [msg @ msg]) = Some (t', Received rq') \<and> pending t' = []"
proof -
  define msg where "msg = the (rq_dump (HttpRequest_new 0x11 False))"
  have "sendable (HttpRequest_new 0x11 False)" "rq_dump (HttpRequest_new 0x11 False) = Some msg"
    "length (msg @ msg) \<le> buff_size"
    unfolding msg_def by code_simp+
  then show ?thesis
    using pipelined_request_lost [of "HttpRequest_new 0x11 False" msg "\<lambda>_. True" "sample_socket [msg @ msg]" msg]
    by (auto simp: sample_socket_def)
qed

text \<open>Sending a response: what goes out is a prefix of the printed response, and the whole of
  it exactly when the call returns its length.\<close>

theorem response_sent:
  assumes "length (rs_dump rsp) < 2 ^ 31"
  shows "\<exists>t' r k. sendResponse t rsp = (t', r) \<and> outgoing t' = outgoing t @ take k (rs_dump rsp) \<and>
    (k = length (rs_dump rsp) \<and> r = int (length (rs_dump rsp)) \<or> k < length (rs_dump rsp) \<and> r \<le> 0)"
  using writefixsize_sends [OF assms, of t] by (metis sendResponse_def)

theorem response_sent_witness:
  "\<exists>t' r k. sendResponse (sample_socket []) (HttpResponse_new 0x11 True) = (t', r) \<and>
    outgoing t' = take k (rs_dump (HttpResponse_new 0x11 True)) \<and> (k = 38 \<and> r = 38 \<or> k < 38 \<and> r \<le> 0)"
proof -
  have "length (rs_dump (HttpResponse_new 0x11 True)) = 38" by code_simp
  then show ?thesis
    using response_sent [of "HttpResponse_new 0x11 True" "sample_socket []"] by (auto simp: sample_socket_def)
qed

end
