(* ===== verification/HttpServlets.thy ===== *)
theory HttpServlets
  imports HttpSessions
begin

text \<open>
  Model of \<open>src/Http/HttpServlet.cc\<close> and \<open>HttpServlet.h\<close>: the servlets, their creators and the
  dispatcher that picks a servlet for a path: an exact match, else the first pattern that
  matches, else the default.

  A user servlet is a function of the request, the response and the session (whose socket it
  may use); \<open>fnmatch\<close> of the C library is a parameter.
\<close>

section \<open>Servlets\<close>

type_synonym servlet_callback = "http_request \<Rightarrow> http_response \<Rightarrow> char sock \<Rightarrow> http_request \<times> http_response \<times> char sock \<times> int"

datatype servlet =
    FunctionServlet servlet_callback
  | NotFoundServlet string

text \<open>\<open>HoldServletCreator\<close> hands out the servlet it holds.\<close>

datatype servlet_creator = HoldServletCreator servlet

fun creator_get :: "servlet_creator \<Rightarrow> servlet" where
  "creator_get (HoldServletCreator s) = s"

fun servlet_getName :: "servlet \<Rightarrow> string" where
  "servlet_getName (FunctionServlet cb) = ''FunctionServlet''"
| "servlet_getName (NotFoundServlet name) = ''NotFoundServlet''"

fun creator_getName :: "servlet_creator \<Rightarrow> string" where
  "creator_getName (HoldServletCreator s) = servlet_getName s"

definition not_found_content :: "string \<Rightarrow> string" where
  "not_found_content name =
     ''<html><head><title>404 Not Found'' @
     ''</title></head><body><center><h1>404 Not Found</h1></center>'' @
     ''<hr><center>'' @ name @ ''</center></body></html>''"

fun servlet_handle :: "servlet \<Rightarrow> servlet_callback" where
  "servlet_handle (FunctionServlet cb) req resp t = cb req resp t"
| "servlet_handle (NotFoundServlet name) req resp t =
     (let resp = resp\<lparr>rs_status := 404\<rparr>;
          resp = rs_setHeader resp ''Server'' ''dyx/1.0.0'';
          resp = rs_setHeader resp ''Content-Type'' ''text/html'';
          resp = resp\<lparr>rs_body := not_found_content name\<rparr>
      in (req, resp, t, 0))"

section \<open>The dispatcher\<close>

record dispatcher =
  m_datas :: "string \<Rightarrow> servlet_creator option"
  m_globs :: "(string \<times> servlet_creator) list"
  m_default :: servlet

definition ServletDispatcher_new :: dispatcher where
  "ServletDispatcher_new =
     \<lparr>m_datas = (\<lambda>uri. None), m_globs = [], m_default = NotFoundServlet ''dyx/1.0.0''\<rparr>"

definition getMatchedServlet :: "dispatcher \<Rightarrow> string \<Rightarrow> servlet option" where
  "getMatchedServlet d uri = map_option creator_get (m_datas d uri)"

definition getGlobServlet :: "(string \<Rightarrow> string \<Rightarrow> bool) \<Rightarrow> dispatcher \<Rightarrow> string \<Rightarrow> servlet option" where
  "getGlobServlet fnmatch d uri =
     (case find (\<lambda>(pat, c). fnmatch (c_str pat) (c_str uri)) (m_globs d) of
        Some (pat, c) \<Rightarrow> Some (creator_get c) | None \<Rightarrow> None)"

definition getServlet :: "(string \<Rightarrow> string \<Rightarrow> bool) \<Rightarrow> dispatcher \<Rightarrow> string \<Rightarrow> servlet" where
  "getServlet fnmatch d uri =
     (case getMatchedServlet d uri of
        Some s \<Rightarrow> s
      | None \<Rightarrow> (case getGlobServlet fnmatch d uri of Some s \<Rightarrow> s | None \<Rightarrow> m_default d))"

definition dispatch :: "(string \<Rightarrow> string \<Rightarrow> bool) \<Rightarrow> dispatcher \<Rightarrow> servlet_callback" where
  "dispatch fnmatch d req resp t = servlet_handle (getServlet fnmatch d (rq_path req)) req resp t"

definition setDefault :: "dispatcher \<Rightarrow> servlet \<Rightarrow> dispatcher" where
  "setDefault d s = d\<lparr>m_default := s\<rparr>"

text \<open>The loop that erases the first entry of a pattern and stops.\<close>

fun erase_glob :: "string \<Rightarrow> (string \<times> servlet_creator) list \<Rightarrow> (string \<times> servlet_creator) list" where
  "erase_glob uri [] = []"
| "erase_glob uri ((pat, c) # gs) = (if pat = uri then gs else (pat, c) # erase_glob uri gs)"

definition delMatchedServlet :: "dispatcher \<Rightarrow> string \<Rightarrow> dispatcher" where
  "delMatchedServlet d uri = d\<lparr>m_datas := (m_datas d)(uri := None)\<rparr>"

definition delGlobServlet :: "dispatcher \<Rightarrow> string \<Rightarrow> dispatcher" where
  "delGlobServlet d uri = d\<lparr>m_globs := erase_glob uri (m_globs d)\<rparr>"

definition addServlet :: "dispatcher \<Rightarrow> string \<Rightarrow> servlet \<Rightarrow> dispatcher" where
  "addServlet d uri s = d\<lparr>m_datas := (m_datas d)(uri := Some (HoldServletCreator s))\<rparr>"

definition addServlet_cb :: "dispatcher \<Rightarrow> string \<Rightarrow> servlet_callback \<Rightarrow> dispatcher" where
  "addServlet_cb d uri cb = d\<lparr>m_datas := (m_datas d)(uri := Some (HoldServletCreator (FunctionServlet cb)))\<rparr>"

definition addGlobServlet :: "dispatcher \<Rightarrow> string \<Rightarrow> servlet \<Rightarrow> dispatcher" where
  "addGlobServlet d uri s =
     d\<lparr>m_globs := erase_glob uri (m_globs d) @ [(uri, HoldServletCreator s)]\<rparr>"

definition addGlobServlet_cb :: "dispatcher \<Rightarrow> string \<Rightarrow> servlet_callback \<Rightarrow> dispatcher" where
  "addGlobServlet_cb d uri cb = addGlobServlet d uri (FunctionServlet cb)"

definition listAllServletCreator ::
  "dispatcher \<Rightarrow> (string \<Rightarrow> servlet_creator option) \<Rightarrow> (string \<Rightarrow> servlet_creator option)" where
  "listAllServletCreator d infos = infos ++ m_datas d"

definition listAllGlobServletCreator ::
  "dispatcher \<Rightarrow> (string \<Rightarrow> servlet_creator option) \<Rightarrow> (string \<Rightarrow> servlet_creator option)" where
  "listAllGlobServletCreator d infos = fold (\<lambda>(pat, c) infos. infos(pat \<mapsto> c)) (m_globs d) infos"

section \<open>Invariant\<close>

text \<open>No pattern is registered twice, so erasing the first entry erases the pattern.\<close>

definition dispatcher_ok :: "dispatcher \<Rightarrow> bool" where
  "dispatcher_ok d \<longleftrightarrow> distinct (map fst (m_globs d))"

lemma erase_glob_filter:
  "distinct (map fst gs) \<Longrightarrow> erase_glob uri gs = filter (\<lambda>(pat, c). pat \<noteq> uri) gs"
proof (induction gs)
  case (Cons g gs)
  have "filter (\<lambda>(pat, c). pat \<noteq> uri) gs = gs" if "uri \<notin> fst ` set gs"
    by (rule filter_True) (use that in force)
  then show ?case using Cons by (cases g) auto
qed simp

lemma distinct_filter_globs: "distinct (map fst gs) \<Longrightarrow> distinct (map fst (filter P gs))"
  by (induction gs) auto

lemma dispatcher_ok_ops:
  "dispatcher_ok ServletDispatcher_new"
  "dispatcher_ok d \<Longrightarrow> dispatcher_ok (addServlet d uri s)"
  "dispatcher_ok d \<Longrightarrow> dispatcher_ok (delMatchedServlet d uri)"
  "dispatcher_ok d \<Longrightarrow> dispatcher_ok (delGlobServlet d uri)"
  "dispatcher_ok d \<Longrightarrow> dispatcher_ok (addGlobServlet d uri s)"
  "dispatcher_ok d \<Longrightarrow> dispatcher_ok (setDefault d s)"
  by (auto simp: dispatcher_ok_def ServletDispatcher_new_def addServlet_def delMatchedServlet_def
      delGlobServlet_def addGlobServlet_def setDefault_def erase_glob_filter distinct_filter_globs)

section \<open>Properties\<close>

text \<open>Dispatch after registration. The servlet registered last for a path answers exactly that
  path, whatever patterns match it. A newly added pattern goes to the end of the list: it answers
  the paths it matches that no exact entry and no other earlier pattern claims; re-adding a
  pattern moves it behind the others. What neither claims is answered as before.\<close>

theorem getServlet_after_add:
  assumes "dispatcher_ok d"
  shows "getServlet fnmatch (addServlet d uri s) p = (if p = uri then s else getServlet fnmatch d p) \<and>
    getServlet fnmatch (addGlobServlet d pat s) p =
      (case getMatchedServlet d p of
         Some m \<Rightarrow> m
       | None \<Rightarrow>
           (case find (\<lambda>(g, c). g \<noteq> pat \<and> fnmatch (c_str g) (c_str p)) (m_globs d) of
              Some (g, c) \<Rightarrow> creator_get c
            | None \<Rightarrow> if fnmatch (c_str pat) (c_str p) then s else m_default d))"
proof (rule conjI)
  show "getServlet fnmatch (addServlet d uri s) p = (if p = uri then s else getServlet fnmatch d p)"
    by (auto simp: getServlet_def getMatchedServlet_def addServlet_def getGlobServlet_def split: option.splits)
next
  have f: "find P (filter Q gs @ [x]) =
      (case find (\<lambda>y. Q y \<and> P y) gs of Some y \<Rightarrow> Some y | None \<Rightarrow> if P x then Some x else None)"
    for P Q and gs :: "(string \<times> servlet_creator) list" and x
    by (induction gs) auto
  have g: "(\<lambda>y. (case y of (g, c) \<Rightarrow> g \<noteq> pat) \<and> (case y of (g, c) \<Rightarrow> fnmatch (c_str g) (c_str p))) =
      (\<lambda>(g, c). g \<noteq> pat \<and> fnmatch (c_str g) (c_str p))"
    by auto
  show "getServlet fnmatch (addGlobServlet d pat s) p =
      (case getMatchedServlet d p of
         Some m \<Rightarrow> m
       | None \<Rightarrow>
           (case find (\<lambda>(g, c). g \<noteq> pat \<and> fnmatch (c_str g) (c_str p)) (m_globs d) of
              Some (g, c) \<Rightarrow> creator_get c
            | None \<Rightarrow> if fnmatch (c_str pat) (c_str p) then s else m_default d))"
    using assms
    by (auto simp: getServlet_def getMatchedServlet_def addGlobServlet_def getGlobServlet_def
        dispatcher_ok_def erase_glob_filter f g split: option.splits)
qed

definition hello :: servlet where
  "hello = FunctionServlet (\<lambda>req resp t. (req, resp\<lparr>rs_body := ''hello''\<rparr>, t, 0))"

theorem getServlet_after_add_witness:
  "getServlet (\<lambda>pat s. pat = ''*'') (addGlobServlet ServletDispatcher_new ''*'' hello) ''/x'' = hello"
proof -
  have c: "c_str ''*'' = ''*''" by code_simp
  show ?thesis
    using conjunct2 [OF getServlet_after_add [OF dispatcher_ok_ops(1), of "\<lambda>pat s. pat = ''*''" "''/y''" hello "''/x''" "''*''"]]
    by (simp add: c ServletDispatcher_new_def getMatchedServlet_def)
qed

end
