(* ===== verification/HttpServers.thy ===== *)
theory HttpServers
  imports HttpServlets
begin

text \<open>
  Model of \<open>src/Http/HttpServer.cc\<close>: the loop that serves one client. \<open>serve\<close> is the dispatcher's
  \<open>handle\<close>: it gets the request, the prepared response and the session's socket, and may
  change all three.
\<close>

section \<open>Serving a client\<close>

definition prepared_response :: "bool \<Rightarrow> http_request \<Rightarrow> http_response" where
  "prepared_response keep_alive req =
     rs_setHeader (HttpResponse_new (rq_version req) (rq_close req \<or> \<not> keep_alive)) ''dyx'' ''dyx/0.1''"

text \<open>
  The flag of the result tells a normal end from an exception that leaves the function; in both
  cases the session is gone afterwards and has closed its socket.
\<close>

partial_function (option) client_loop ::
  "servlet_callback \<Rightarrow> bool \<Rightarrow> (int \<Rightarrow> bool) \<Rightarrow> char sock \<Rightarrow> (char sock \<times> bool) option" where
  "client_loop serve keep_alive can_alloc t =
     (case recvRequest can_alloc t of
        None \<Rightarrow> None
      | Some (t1, No_request) \<Rightarrow> Some (t1, True)
      | Some (t1, Resize_throws) \<Rightarrow> Some (t1, False)
      | Some (t1, Received req) \<Rightarrow>
          (let (req, resp, t2, r) = serve req (prepared_response keep_alive req) t1;
               (t3, n) = sendResponse t2 resp
           in if rq_close req \<or> \<not> keep_alive then Some (t3, True)
              else client_loop serve keep_alive can_alloc t3))"

definition handleClient ::
  "servlet_callback \<Rightarrow> bool \<Rightarrow> (int \<Rightarrow> bool) \<Rightarrow> char sock \<Rightarrow> (char sock \<times> bool) option" where
  "handleClient serve keep_alive can_alloc t =
     map_option (\<lambda>(t, returned). (sock_close t, returned)) (client_loop serve keep_alive can_alloc t)"

record http_server =
  m_keep_alive :: bool
  m_dispatcher :: dispatcher
  m_name :: string

definition HttpServer_new :: "bool \<Rightarrow> http_server" where
  "HttpServer_new keep_alive =
     \<lparr>m_keep_alive = keep_alive, m_dispatcher = ServletDispatcher_new, m_name = ''tcp_fiber_server/1.0.0''\<rparr>"

definition setName :: "http_server \<Rightarrow> string \<Rightarrow> http_server" where
  "setName s v = s\<lparr>m_name := v, m_dispatcher := setDefault (m_dispatcher s) (NotFoundServlet v)\<rparr>"

definition server_handleClient ::
  "(string \<Rightarrow> string \<Rightarrow> bool) \<Rightarrow> http_server \<Rightarrow> (int \<Rightarrow> bool) \<Rightarrow> char sock \<Rightarrow> (char sock \<times> bool) option" where
  "server_handleClient fnmatch s = handleClient (dispatch fnmatch (m_dispatcher s)) (m_keep_alive s)"

section \<open>One round\<close>

text \<open>The answer of a servlet that works on the response only.\<close>

definition answer :: "(http_request \<Rightarrow> http_response \<Rightarrow> http_response) \<Rightarrow> bool \<Rightarrow> http_request \<Rightarrow> http_response" where
  "answer f keep_alive rq = f (received rq) (prepared_response keep_alive (received rq))"

definition pure_servlet :: "(http_request \<Rightarrow> http_response \<Rightarrow> http_response) \<Rightarrow> servlet_callback" where
  "pure_servlet f = (\<lambda>req resp t. (req, f req resp, t, 0))"

text \<open>A client that waits for each answer: every request is one segment.\<close>

definition asks :: "char sock \<Rightarrow> http_request list \<Rightarrow> bool" where
  "asks t rqs \<longleftrightarrow> is_connected t \<and> at_end t \<le> 0 \<and>
     list_all2 (\<lambda>rq seg. sendable rq \<and> rq_dump rq = Some seg \<and> length seg \<le> buff_size) rqs (incoming t)"

lemma client_loop_answers:
  assumes "asks t rqs" "\<forall>rq \<in> set rqs. can_alloc (int (length (rq_body rq))) \<and> \<not> rq_close rq"
    and "list_all2 (\<lambda>rq n. length (rs_dump (answer f True rq)) \<le> n \<and>
           length (rs_dump (answer f True rq)) < 2 ^ 31) rqs (room t)"
  shows "\<exists>t'. client_loop (pure_servlet f) True can_alloc t = Some (t', True) \<and>
    outgoing t' = outgoing t @ concat (map (\<lambda>rq. rs_dump (answer f True rq)) rqs)"
  using assms
proof (induction rqs arbitrary: t)
  case Nil
  then have t: "incoming t = []" "at_end t \<le> 0" "is_connected t" by (auto simp: asks_def)
  have "recv_head HttpRequestParser_new [] t = Some (sock_close t, None)"
    using t by (subst recv_head.simps) (simp add: sock_recv_def)
  then have "recvRequest can_alloc t = Some (sock_close t, No_request)"
    by (simp add: recvRequest_def)
  then show ?case by (subst client_loop.simps) (simp add: sock_close_def)
next
  case (Cons rq rqs)
  let ?d = "rs_dump (answer f True rq)"
  obtain seg segs where s: "incoming t = seg # segs" "sendable rq" "rq_dump rq = Some seg"
    "length seg \<le> buff_size" "is_connected t" "at_end t \<le> 0"
    "list_all2 (\<lambda>rq seg. sendable rq \<and> rq_dump rq = Some seg \<and> length seg \<le> buff_size) rqs segs"
    using Cons.prems(1) by (auto simp: asks_def list_all2_Cons1)
  obtain n ns where n: "room t = n # ns" "length ?d \<le> n" "length ?d < 2 ^ 31"
    "list_all2 (\<lambda>rq n. length (rs_dump (answer f True rq)) \<le> n \<and>
           length (rs_dump (answer f True rq)) < 2 ^ 31) rqs ns"
    using Cons.prems(3) by (auto simp: list_all2_Cons1)
  let ?t1 = "t\<lparr>incoming := segs\<rparr>" and ?t2 = "t\<lparr>incoming := segs, room := ns, outgoing := outgoing t @ ?d\<rparr>"
  have r: "recvRequest can_alloc t = Some (?t1, Received (received rq))"
    by (rule recvRequest_one_segment [where later = "[]"]) (use s Cons.prems(2) in auto)
  have close: "\<not> rq_close (received rq)"
    using filled_from_sent(5) [OF s(2) refl] Cons.prems(2) by (simp add: received_def)
  have snd: "sendResponse ?t1 (answer f True rq) = (?t2, int (length ?d))"
    using send_in_one [of ?t1 n ns ?d] s(5) n rs_dump_nonempty by (simp add: sendResponse_def)
  have "client_loop (pure_servlet f) True can_alloc t = client_loop (pure_servlet f) True can_alloc ?t2"
    using r close snd by (subst client_loop.simps) (simp add: pure_servlet_def answer_def)
  moreover have "asks ?t2 rqs" using s by (simp add: asks_def)
  ultimately show ?case using Cons.IH [of ?t2] Cons.prems(2) n(4) by simp
qed

section \<open>Properties\<close>

text \<open>C11. The server answers a keep-alive client: for requests that arrive one after the other,
  each complete in a segment, a server with a servlet that fills in the response sends exactly
  the printed answers, in order, then sees the end of the stream, returns and has closed the
  connection.\<close>

theorem server_answers_in_order:
  assumes "asks t rqs" "\<forall>rq \<in> set rqs. can_alloc (int (length (rq_body rq))) \<and> \<not> rq_close rq"
    and "list_all2 (\<lambda>rq n. length (rs_dump (answer f True rq)) \<le> n \<and>
           length (rs_dump (answer f True rq)) < 2 ^ 31) rqs (room t)"
  shows "\<exists>t'. handleClient (pure_servlet f) True can_alloc t = Some (t', True) \<and> \<not> is_connected t' \<and>
    outgoing t' = outgoing t @ concat (map (\<lambda>rq. rs_dump (answer f True rq)) rqs)"
proof -
  obtain t' where "client_loop (pure_servlet f) True can_alloc t = Some (t', True)"
    "outgoing t' = outgoing t @ concat (map (\<lambda>rq. rs_dump (answer f True rq)) rqs)"
    using client_loop_answers [where can_alloc = can_alloc, OF assms] by blast
  then show ?thesis
    by (intro exI [of _ "sock_close t'"]) (simp add: handleClient_def sock_close_def)
qed

definition echo_path :: "http_request \<Rightarrow> http_response \<Rightarrow> http_response" where
  "echo_path rq rs = rs\<lparr>rs_body := rq_path rq\<rparr>"

definition get_a :: http_request where
  "get_a = (HttpRequest_new 0x11 False)\<lparr>rq_path := ''/a''\<rparr>"

definition two_asks :: "char sock" where
  "two_asks = \<lparr>is_connected = True,
     incoming = [the (rq_dump get_a), the (rq_dump sample_request)], at_end = 0,
     room = [500, 500], outgoing = []\<rparr>"

lemma two_asks_ok:
  "asks two_asks [get_a, sample_request]"
  "list_all2 (\<lambda>rq n. length (rs_dump (answer echo_path True rq)) \<le> n \<and>
     length (rs_dump (answer echo_path True rq)) < 2 ^ 31) [get_a, sample_request] (room two_asks)"
proof -
  have d: "rq_dump get_a \<noteq> None \<and> length (the (rq_dump get_a)) \<le> buff_size"
    "rq_dump sample_request \<noteq> None \<and> length (the (rq_dump sample_request)) \<le> buff_size"
    "sendable get_a" by code_simp+
  then show "asks two_asks [get_a, sample_request]"
    using sample_sendable by (auto simp: asks_def two_asks_def)
  have "length (rs_dump (answer echo_path True get_a)) \<le> 500"
    "length (rs_dump (answer echo_path True sample_request)) \<le> 500" by code_simp+
  then show "list_all2 (\<lambda>rq n. length (rs_dump (answer echo_path True rq)) \<le> n \<and>
     length (rs_dump (answer echo_path True rq)) < 2 ^ 31) [get_a, sample_request] (room two_asks)"
    by (simp add: two_asks_def)
qed

theorem server_answers_in_order_witness:
  "\<exists>t'. handleClient (pure_servlet echo_path) True (\<lambda>_. True) two_asks = Some (t', True) \<and> \<not> is_connected t' \<and>
    outgoing t' = rs_dump (answer echo_path True get_a) @ rs_dump (answer echo_path True sample_request)"
proof -
  have "\<not> rq_close get_a" "\<not> rq_close sample_request"
    by (simp_all add: get_a_def sample_request_def HttpRequest_new_def)
  then show ?thesis
    using server_answers_in_order [OF two_asks_ok(1) _ two_asks_ok(2), of "\<lambda>_. True"]
    by (simp add: two_asks_def)
qed

text \<open>Without keep-alive on either side one request is served and the connection closed,
  whatever else has arrived.\<close>

theorem server_closes_after_one:
  assumes "sendable rq" "rq_dump rq = Some msg" "can_alloc (int (length (rq_body rq)))"
    and "is_connected t" "incoming t = (msg @ later) # segs" "length (msg @ later) \<le> buff_size"
    and "rq_close rq \<or> \<not> keep_alive"
  shows "\<exists>t'. handleClient (pure_servlet f) keep_alive can_alloc t = Some (t', True) \<and> \<not> is_connected t' \<and>
    outgoing t' = outgoing (fst (sendResponse (t\<lparr>incoming := segs\<rparr>) (answer f keep_alive rq)))"
proof -
  let ?t1 = "t\<lparr>incoming := segs\<rparr>"
  have r: "recvRequest can_alloc t = Some (?t1, Received (received rq))"
    by (rule recvRequest_one_segment [OF assms(1,2,4,5,6)]) (rule assms(3))
  have close: "rq_close (received rq) = rq_close rq"
    using filled_from_sent(5) [OF assms(1) refl] by (simp add: received_def)
  obtain t2 n where snd: "sendResponse ?t1 (answer f keep_alive rq) = (t2, n)" by (metis surj_pair)
  have "client_loop (pure_servlet f) keep_alive can_alloc t = Some (t2, True)"
    using r close snd assms(7) by (subst client_loop.simps) (auto simp: pure_servlet_def answer_def)
  then show ?thesis using snd
    by (intro exI [of _ "sock_close t2"]) (simp add: handleClient_def sock_close_def)
qed

theorem server_closes_after_one_witness:
  "\<exists>t'. handleClient (pure_servlet echo_path) False (\<lambda>_. True) two_asks = Some (t', True) \<and> \<not> is_connected t' \<and>
    outgoing t' = rs_dump (answer echo_path False get_a)"
proof -
  have d: "rq_dump get_a \<noteq> None \<and> length (the (rq_dump get_a)) \<le> buff_size" "sendable get_a"
    "length (rs_dump (answer echo_path False get_a)) \<le> 500" by code_simp+
  let ?t = "two_asks\<lparr>incoming := [the (rq_dump sample_request)]\<rparr>"
  have "length (rs_dump (answer echo_path False get_a)) < 2 ^ 31" using d(3) by simp
  then have "sendResponse ?t (answer echo_path False get_a) =
     (?t\<lparr>room := [500], outgoing := outgoing ?t @ rs_dump (answer echo_path False get_a)\<rparr>,
      int (length (rs_dump (answer echo_path False get_a))))"
    unfolding sendResponse_def
    by (intro send_in_one) (use d(3) rs_dump_nonempty in \<open>simp_all add: two_asks_def\<close>)
  moreover have "incoming two_asks = (the (rq_dump get_a) @ []) # [the (rq_dump sample_request)]"
    "is_connected two_asks" "outgoing two_asks = []"
    by (simp_all add: two_asks_def)
  ultimately show ?thesis
    using server_closes_after_one [of get_a "the (rq_dump get_a)" "\<lambda>_. True" two_asks "[]"
        "[the (rq_dump sample_request)]" False echo_path] d
    by auto
qed

end
