(* ===== verification/HttpConnections.thy ===== *)
theory HttpConnections
  imports HttpSessions
begin

text \<open>
  Model of \<open>HttpConnection\<close> (\<open>src/Http/HttpConnection.cc\<close>): sending a request, receiving a
  response, and the functions that build a request from an URI and a header map.

  The receive buffer has 4097 bytes and starts with unspecified contents (\<open>junk i\<close> at position
  \<open>i\<close>). The loop computes its next offset from the parser's result as an unsigned number, so an
  incomplete head (\<open>-2\<close>) moves the offset two bytes past the data; both bytes, a NUL and an
  unspecified one, become part of the head. Beyond 4096 the space left wraps around and a
  further byte is stored outside the buffer: that outcome is \<open>Overflow\<close>.
\<close>

section \<open>Receiving\<close>

definition sendRequest :: "char sock \<Rightarrow> http_request \<Rightarrow> (char sock \<times> int) option" where
  "sendRequest t req = map_option (\<lambda>data. writefixsize sock_send t data) (rq_dump req)"

datatype head_result = Head response_parser string nat | Head_closed | Head_overflow

text \<open>\<open>offset = len - nparse\<close>, with \<open>nparse\<close> a \<open>size_t\<close> and \<open>offset\<close> an \<open>int\<close>.\<close>

definition next_offset :: "nat \<Rightarrow> int \<Rightarrow> int" where
  "next_offset len nparse = sint (of_nat len - of_int nparse :: u32)"

definition buffer_upto :: "(nat \<Rightarrow> char) \<Rightarrow> string \<Rightarrow> nat \<Rightarrow> string" where
  "buffer_upto junk data off =
     (if off \<le> length data then take off data
      else data @ NUL # map junk [length data + 1 ..< off])"

partial_function (option) response_head ::
  "(nat \<Rightarrow> char) \<Rightarrow> response_parser \<Rightarrow> string \<Rightarrow> char sock \<Rightarrow> (char sock \<times> head_result) option" where
  "response_head junk p buf t =
     (let (t', len, c) = sock_recv t (sub64 buff_size (length buf)) in
      if len \<le> 0 then Some (sock_close t', Head_closed)
      else if buff_size < length buf then Some (t', Head_overflow)
      else
        let data = buf @ c;
            (p', nparse) = sp_execute p data 0;
            offset = next_offset (length data) nparse
        in if sp_error p' then Some (sock_close t', Head_closed)
           else if offset = int buff_size then Some (sock_close t', Head_closed)
           else if sp_finished p' then Some (t', Head p' data (nat offset))
           else response_head junk p' (buffer_upto junk data (nat offset)) t')"

datatype response_result = Response http_response | No_response | Body_throws | Overflow

definition recvResponseHeader :: "(nat \<Rightarrow> char) \<Rightarrow> char sock \<Rightarrow> (char sock \<times> response_result) option" where
  "recvResponseHeader junk t =
     map_option (\<lambda>(t, h). case h of
         Head p data offset \<Rightarrow> (t, Response (sp_response p))
       | Head_closed \<Rightarrow> (t, No_response)
       | Head_overflow \<Rightarrow> (t, Overflow))
       (response_head junk HttpResponseParser_new [] t)"

definition response_length :: "http_response \<Rightarrow> int" where
  "response_length rsp =
     (let cl_str = rs_getHeader rsp ''Content-Length'' [] in
      if cl_str \<noteq> [] then (case stoll cl_str of Some n \<Rightarrow> n | None \<Rightarrow> 0) else 0)"

text \<open>
  The body. What the loop has read past the head is \<open>offset\<close> bytes; they are copied from the
  start of the buffer.
\<close>

definition response_body ::
  "(int \<Rightarrow> bool) \<Rightarrow> http_response \<Rightarrow> string \<Rightarrow> nat \<Rightarrow> char sock \<Rightarrow> char sock \<times> response_result" where
  "response_body can_alloc rsp data offset t =
     (if strcasecmp_eq (rs_getHeader rsp ''Transfer-Encoding'' []) ''chunked''
      then (sock_close t, Response (rsp\<lparr>rs_body := []\<rparr>))
      else
        let len = response_length rsp in
        if len > 0 then
          (if \<not> can_alloc len then (t, Body_throws)
           else
             let first = (if len \<ge> int offset then take offset data else take (nat len) data);
                 left = len - int offset
             in if left > 0 then
                  let (t', r, rest) = readfixsize sock_recv t (nat left) in
                  if r \<le> 0 then (sock_close t', No_response)
                  else (t', Response (rsp\<lparr>rs_body := first @ rest\<rparr>))
                else (t, Response (rsp\<lparr>rs_body := first\<rparr>)))
        else (t, Response (rsp\<lparr>rs_body := []\<rparr>)))"

definition recvResponse ::
  "(nat \<Rightarrow> char) \<Rightarrow> (int \<Rightarrow> bool) \<Rightarrow> char sock \<Rightarrow> (char sock \<times> response_result) option" where
  "recvResponse junk can_alloc t =
     map_option (\<lambda>(t, h). case h of
         Head p data offset \<Rightarrow> response_body can_alloc (sp_response p) data offset t
       | Head_closed \<Rightarrow> (t, No_response)
       | Head_overflow \<Rightarrow> (t, Overflow))
       (response_head junk HttpResponseParser_new [] t)"

definition readResponseBody :: "char sock \<Rightarrow> nat \<Rightarrow> char sock \<times> int \<times> string" where
  "readResponseBody t n = (if \<not> is_connected t then (t, - 1, []) else sock_recv t n)"

section \<open>Offsets\<close>

lemma next_offset_complete: "n \<le> len \<Longrightarrow> len < 2 ^ 31 \<Longrightarrow> next_offset len (int n) = int (len - n)"
proof -
  assume a: "n \<le> len" "len < 2 ^ 31"
  then have "(of_nat len - of_int (int n) :: u32) = of_nat (len - n)" by simp
  then show ?thesis using a(2) ret_int_small [of "len - n"] by (simp only: next_offset_def ret_int_def)
qed

lemma next_offset_incomplete: "len < 2 ^ 31 - 2 \<Longrightarrow> next_offset len (- 2) = int (len + 2)"
proof -
  assume a: "len < 2 ^ 31 - 2"
  have "(of_nat len - of_int (- 2) :: u32) = of_nat (len + 2)" by simp
  then show ?thesis using a ret_int_small [of "len + 2"] by (simp only: next_offset_def ret_int_def)
qed

section \<open>The loop returns\<close>

lemma parse_int_shorter: "parse_int m s = Parsed v r \<Longrightarrow> length r < length s"
  by (cases s) (auto split: option.splits)

lemma version_shorter: "parse_http_version s = Parsed v r \<Longrightarrow> length r < length s"
  by (auto simp: parse_http_version_def pbind_Parsed_iff split: if_splits dest!: expect_shorter parse_int_shorter)

lemma sp_shorter: "parse_sp s = Parsed v r \<Longrightarrow> length r \<le> length s"
  by (cases s) (auto simp: parse_sp_def skip_spaces_def pbind_Parsed_iff split: if_splits dest!: skip_while_shorter)

lemma status_shorter: "parse_status s = Parsed v r \<Longrightarrow> length r \<le> length s"
  by (auto simp: parse_status_def pbind_Parsed_iff split: if_splits dest!: parse_int_shorter)

lemma msg_shorter: "parse_msg s = Parsed v r \<Longrightarrow> length r \<le> length s"
  by (auto simp: parse_msg_def pbind_Parsed_iff split: if_splits dest!: eol_shorter)

lemma response_shorter: "parse_response m s = Parsed v r \<Longrightarrow> length r < length s"
  by (fastforce simp: parse_response_def pbind_Parsed_iff
      dest!: version_shorter sp_shorter status_shorter msg_shorter headers.ok_length)

text \<open>A call that neither fails nor finishes has found the head incomplete.\<close>

lemma sp_execute_open:
  assumes "sp_execute p s 0 = (p', r)" "\<not> sp_error p'" "\<not> sp_finished p'"
  shows "r = - 2"
proof (cases "parse_response max_headers s")
  case (Parsed v rest)
  then show ?thesis
    using assms response_shorter [OF Parsed]
    by (auto simp: sp_execute_def phr_parse_response_def phr_parse_def)
next
  case (Fail e)
  then have "e = - 1 \<or> e = - 2" by (rule response.fail_code)
  then show ?thesis
    using assms Fail by (auto simp: sp_execute_def phr_parse_response_def phr_parse_def)
qed

lemma response_head_returns:
  assumes "at_end t \<le> 0" "length buf \<le> buff_size + 2"
  shows "\<exists>t' h. response_head junk p buf t = Some (t', h)"
  using assms
proof (induction "buff_size + 2 - length buf" arbitrary: p buf t rule: less_induct)
  case less
  obtain t1 len c where r: "sock_recv t (sub64 buff_size (length buf)) = (t1, len, c)" by (metis surj_pair)
  obtain p1 nparse where e: "sp_execute p (buf @ c) 0 = (p1, nparse)" by (metis surj_pair)
  note g = sock_recv_at_end [OF r less.prems(1)]
  let ?off = "next_offset (length (buf @ c)) nparse"
  show ?case
  proof (cases "len \<le> 0 \<or> buff_size < length buf \<or> sp_error p1 \<or> sp_finished p1 \<or> ?off = int buff_size")
    case True
    then show ?thesis using r e by (subst response_head.simps) (auto simp: Let_def)
  next
    case False
    then have n: "nparse = - 2" using sp_execute_open [OF e] by blast
    have small: "length (buf @ c) \<le> buff_size" "c \<noteq> []"
      using g False by (auto simp: sub64_def)
    then have "?off = int (length (buf @ c) + 2)"
      unfolding n by (intro next_offset_incomplete) (simp add: buff_size_def)
    then have b: "length (buffer_upto junk (buf @ c) (nat ?off)) = length (buf @ c) + 2"
      by (simp add: buffer_upto_def nat_add_distrib)
    have "buff_size + 2 - (length (buf @ c) + 2) < buff_size + 2 - length buf"
      using small by (cases c) auto
    then have "\<exists>t' h. response_head junk p1 (buffer_upto junk (buf @ c) (nat ?off)) t1 = Some (t', h)"
      using less.hyps [of "buffer_upto junk (buf @ c) (nat ?off)"] b g small by simp
    then show ?thesis using False r e by (subst response_head.simps) (simp add: Let_def)
  qed
qed

section \<open>A head in one segment\<close>

definition response_done :: "phr_response \<Rightarrow> response_parser" where
  "response_done q = \<lparr>sp_response = fill_response q (HttpResponse_new 0x11 True), sp_error = False,
     sp_finished = True\<rparr>"

lemma sp_execute_done:
  assumes "parse_response max_headers h = Parsed q []" "h \<noteq> []"
  shows "sp_execute HttpResponseParser_new (h @ s) 0 = (response_done q, int (length h))"
proof -
  have "parse_response max_headers (h @ s) = Parsed q s"
    using response.ok_more [OF assms(1), of s] by simp
  then show ?thesis
    using assms(2) by (simp add: sp_execute_def phr_parse_response_def phr_parse_def response_done_def
        HttpResponseParser_new_def)
qed

lemma sub64_small: "b \<le> a \<Longrightarrow> a < 2 ^ 64 \<Longrightarrow> sub64 a b = a - b"
  by (simp add: sub64_def)

lemma response_head_one_segment:
  assumes "parse_response max_headers h = Parsed q []" "h \<noteq> []"
    and "is_connected t" "incoming t = (h @ extra) # segs" "length (h @ extra) \<le> buff_size"
  shows "response_head junk HttpResponseParser_new [] t =
    Some (t\<lparr>incoming := segs\<rparr>, Head (response_done q) (h @ extra) (length extra))"
proof -
  let ?t = "t\<lparr>incoming := segs\<rparr>"
  have s: "sub64 buff_size 0 = buff_size" by (simp add: sub64_small buff_size_def)
  have r: "sock_recv t buff_size = (?t, int (length (h @ extra)), h @ extra)"
    using assms(3-5) by (simp add: sock_recv_def Let_def)
  have "length (h @ extra) < 2 ^ 31" using assms(5) by (simp add: buff_size_def)
  then have n: "next_offset (length (h @ extra)) (int (length h)) = int (length extra)"
    by (subst next_offset_complete) simp_all
  have "length extra < buff_size" using assms(2,5) by (cases h) auto
  moreover have "\<not> int (length (h @ extra)) \<le> 0" using assms(2) by (cases h) auto
  ultimately show ?thesis
    using r n s sp_execute_done [OF assms(1,2), of extra]
    by (subst response_head.simps) (simp add: response_done_def Let_def)
qed

section \<open>A printed response\<close>

definition reason_text :: "http_response \<Rightarrow> string" where
  "reason_text rs = (if rs_reason rs = [] then HttpStatusToString (rs_status rs) else rs_reason rs)"

definition sendable_response :: "http_response \<Rightarrow> bool" where
  "sendable_response rs \<longleftrightarrow> ci_sorted (rs_headers rs) \<and> rs_version rs \<in> {0x10, 0x11} \<and>
     100 \<le> rs_status rs \<and> rs_status rs < 1000 \<and> \<not> rs_websocket rs \<and>
     list_all (\<lambda>c. \<not> is_ctl c) (reason_text rs) \<and> reason_text rs \<noteq> [] \<and> hd (reason_text rs) \<noteq> SP \<and>
     list_all header_ok (rs_headers rs) \<and> list_all (\<lambda>c. header_ok (''Set-Cookie'', c)) (rs_cookies rs) \<and>
     length (rs_headers rs) + length (rs_cookies rs) \<le> 98 \<and>
     ci_find ''content-length'' (rs_headers rs) = None \<and> ci_find ''transfer-encoding'' (rs_headers rs) = None"

definition response_headers :: "http_response \<Rightarrow> phr_header list" where
  "response_headers rs =
     filter (\<lambda>(k, v). \<not> is_connection k) (rs_headers rs) @
     map (\<lambda>c. (''Set-Cookie'', c)) (rs_cookies rs) @
     (''connection'', if rs_close rs then ''close'' else ''keep-alive'') #
     (if rs_body rs \<noteq> [] then [(''content-length'', dec_string (length (rs_body rs)))] else [])"

definition response_sent_as :: "http_response \<Rightarrow> phr_response" where
  "response_sent_as rs =
     \<lparr>ps_minor = rs_version rs mod 16, ps_status = rs_status rs, ps_msg = reason_text rs,
      ps_headers = response_headers rs\<rparr>"

lemma response_sent_ok:
  assumes "sendable_response rs"
  shows "response_ok (response_sent_as rs) \<and> length (ps_headers (response_sent_as rs)) \<le> max_headers"
proof -
  have "length (filter (\<lambda>(k, v). \<not> is_connection k) (rs_headers rs)) \<le> length (rs_headers rs)"
    by (rule length_filter_le)
  moreover have "length (rs_headers rs) + length (rs_cookies rs) \<le> 98"
    using assms by (simp add: sendable_response_def)
  ultimately have "length (filter (\<lambda>(k, v). \<not> is_connection k) (rs_headers rs)) + length (rs_cookies rs) \<le> 98"
    by linarith
  moreover have "list_all header_ok (response_headers rs)"
    using assms connection_header dec_string_header
    by (auto simp: response_headers_def sendable_response_def list_all_iff)
  ultimately show ?thesis
    using assms by (auto simp: response_ok_def response_sent_as_def sendable_response_def
        response_headers_def max_headers_def)
qed

lemma rs_dump_show:
  assumes "sendable_response rs"
  shows "rs_dump rs = show_response (response_sent_as rs) @ rs_body rs"
proof -
  have d: "dec_string 1 = ''1''" by code_simp
  have v: "dump_version (rs_version rs) = ''HTTP/1.'' @ dec_string (rs_version rs mod 16)"
    using assms d by (auto simp: sendable_response_def dump_version_def)
  show ?thesis
    using assms
    by (simp add: rs_dump_def v comp_def dump_headers_show show_response_def response_sent_as_def sendable_response_def
        dump_connection_def dump_body_def response_headers_def reason_text_def show_header_def CRLF_chars)
qed

lemma fill_response_fields [simp]:
  "rs_status (fill_response q rs) = ps_status q"
  "rs_version (fill_response q rs) = parsed_version (ps_minor q)"
  "ps_msg q \<noteq> [] \<Longrightarrow> rs_reason (fill_response q rs) = ps_msg q"
  "rs_headers (fill_response q rs) = assign_all (ps_headers q) (rs_headers rs)"
  by (simp_all add: fill_response_def fold_rs_setHeader Let_def)

text \<open>The header a client finds after the head of a printed response has been parsed.\<close>

lemma response_header_found:
  assumes "sendable_response rs"
  shows "ci_find k (rs_headers (fill_response (response_sent_as rs) (HttpResponse_new 0x11 True))) =
    last_header k (response_headers rs)"
  using ci_find_assign_all [of "rs_headers (HttpResponse_new 0x11 True)" "response_headers rs" k]
  by (simp add: response_sent_as_def HttpResponse_new_def split: option.splits)

lemma last_header_same: "\<not> strcasecmp_eq k n \<Longrightarrow> last_header k (map (\<lambda>c. (n, c)) cs) = None"
  by (rule last_header_None) auto

lemma last_response_header:
  assumes "sendable_response rs" "\<not> is_connection k" "\<not> strcasecmp_eq k ''Set-Cookie''"
  shows "last_header k (response_headers rs) =
    (if strcasecmp_eq k ''content-length'' \<and> rs_body rs \<noteq> [] then Some (dec_string (length (rs_body rs)))
     else ci_find k (rs_headers rs))"
  using assms last_header_filter [of k "rs_headers rs"] last_header_sorted [of "rs_headers rs" k]
    last_header_same [of k "''Set-Cookie''" "rs_cookies rs"]
  by (auto simp: response_headers_def last_header_append is_connection_def sendable_response_def split: option.splits)

lemma key_facts:
  "strcasecmp_eq ''Content-Length'' ''content-length''" "\<not> is_connection ''Content-Length''"
  "\<not> strcasecmp_eq ''Content-Length'' ''Set-Cookie''"
  "strcasecmp_eq ''Transfer-Encoding'' ''transfer-encoding''" "\<not> is_connection ''Transfer-Encoding''"
  "\<not> strcasecmp_eq ''Transfer-Encoding'' ''Set-Cookie''" "\<not> strcasecmp_eq ''Transfer-Encoding'' ''content-length''"
  "\<not> strcasecmp_eq [] ''chunked''"
  by code_simp+

lemma filled_response:
  assumes "sendable_response rs" "rs' = fill_response (response_sent_as rs) (HttpResponse_new 0x11 True)"
  shows "rs_status rs' = rs_status rs" "rs_version rs' = rs_version rs" "rs_reason rs' = reason_text rs"
    "\<not> is_connection k \<Longrightarrow> \<not> strcasecmp_eq k ''Set-Cookie'' \<Longrightarrow> \<not> strcasecmp_eq k ''content-length'' \<Longrightarrow>
       rs_getHeader rs' k def = rs_getHeader rs k def"
    "length (rs_body rs) < 2 ^ 63 \<Longrightarrow> response_length rs' = int (length (rs_body rs))"
    "rs_getHeader rs' ''Transfer-Encoding'' [] = []"
proof -
  note f = response_header_found [OF assms(1)] and l = last_response_header [OF assms(1)]
  show "rs_status rs' = rs_status rs" "rs_version rs' = rs_version rs" "rs_reason rs' = reason_text rs"
    using assms(1) by (auto simp: assms(2) response_sent_as_def sendable_response_def parsed_version_def)
  show "rs_getHeader rs' k def = rs_getHeader rs k def"
    if "\<not> is_connection k" "\<not> strcasecmp_eq k ''Set-Cookie''" "\<not> strcasecmp_eq k ''content-length''"
    using f [of k] l [OF that(1,2)] that by (simp add: assms(2) rs_getHeader_def)
  have "ci_find ''Content-Length'' (rs_headers rs) = None"
    using ci_find_cong [OF key_facts(1)] assms(1) by (simp add: sendable_response_def)
  then have "rs_getHeader rs' ''Content-Length'' [] = (if rs_body rs = [] then [] else dec_string (length (rs_body rs)))"
    using f l [OF key_facts(2,3)] key_facts(1) by (simp add: assms(2) rs_getHeader_def)
  moreover have "all_digits (dec_string (length (rs_body rs)))" by simp
  then have "dec_string (length (rs_body rs)) \<noteq> []" by (simp add: all_digits_def)
  ultimately show "response_length rs' = int (length (rs_body rs))" if "length (rs_body rs) < 2 ^ 63"
    using stoll_dec_string [OF that] by (simp add: response_length_def)
  have "ci_find ''Transfer-Encoding'' (rs_headers rs) = None"
    using ci_find_cong [OF key_facts(4)] assms(1) by (simp add: sendable_response_def)
  then show "rs_getHeader rs' ''Transfer-Encoding'' [] = []"
    using f l [OF key_facts(5,6)] key_facts(7) by (simp add: assms(2) rs_getHeader_def)
qed

section \<open>The body\<close>

text \<open>The general case: what follows the head in its segment decides what the body starts with.\<close>

lemma recvResponse_segment:
  assumes "sendable_response rs" "h = show_response (response_sent_as rs)"
    and "sock_ok t" "incoming t = (h @ extra) # segs" "length (h @ extra) \<le> buff_size"
    and "can_alloc (int (length (rs_body rs)))" "length (rs_body rs) < 2 ^ 31"
    and "length (rs_body rs) \<le> length extra + length (concat segs)"
  shows "\<exists>t'. recvResponse junk can_alloc t = Some (t', Response
      ((fill_response (response_sent_as rs) (HttpResponse_new 0x11 True))\<lparr>rs_body :=
         take (length (rs_body rs)) (take (length extra) (h @ extra)) @
         take (length (rs_body rs) - length extra) (concat segs)\<rparr>)) \<and>
      sock_ok t' \<and> pending t' = drop (length (rs_body rs) - length extra) (concat segs) \<and> outgoing t' = outgoing t"
proof -
  let ?r = "fill_response (response_sent_as rs) (HttpResponse_new 0x11 True)"
  let ?t = "t\<lparr>incoming := segs\<rparr>" and ?n = "length (rs_body rs)"
  have p: "parse_response max_headers h = Parsed (response_sent_as rs) []"
    using parse_response_show response_sent_ok [OF assms(1)] assms(2) by blast
  have ne: "h \<noteq> []" using assms(2) by (simp add: show_response_def)
  have head: "response_head junk HttpResponseParser_new [] t =
      Some (?t, Head (response_done (response_sent_as rs)) (h @ extra) (length extra))"
    using response_head_one_segment [OF p ne _ assms(4,5)] assms(3) by (simp add: sock_ok_def)
  have ok: "sock_ok ?t" "pending ?t = concat segs"
    using assms(3,4) by (auto simp: sock_ok_def pending_def)
  have te: "\<not> strcasecmp_eq (rs_getHeader ?r ''Transfer-Encoding'' []) ''chunked''"
    using filled_response(6) [OF assms(1) refl] key_facts(8) by simp
  have "?n < 2 ^ 63" using assms(7) by simp
  then have len: "response_length ?r = int ?n" by (rule filled_response(5) [OF assms(1) refl])
  have body: "\<exists>t'. response_body can_alloc ?r (h @ extra) (length extra) ?t = (t', Response
      (?r\<lparr>rs_body := take ?n (take (length extra) (h @ extra)) @ take (?n - length extra) (concat segs)\<rparr>)) \<and>
      sock_ok t' \<and> pending t' = drop (?n - length extra) (concat segs) \<and> outgoing t' = outgoing t"
  proof (cases "length extra < ?n")
    case True
    have k: "?n - length extra < 2 ^ 31" "?n - length extra \<le> length (pending ?t)"
      using assms(7,8) ok(2) by simp_all
    obtain t' where t': "readfixsize sock_recv ?t (?n - length extra) =
        (t', int (?n - length extra), take (?n - length extra) (pending ?t))"
      "pending t' = drop (?n - length extra) (pending ?t)" "sock_ok t'" "outgoing t' = outgoing ?t"
      using readfixsize_receives [OF ok(1) k(2,1)] by blast
    have "nat (int ?n - int (length extra)) = ?n - length extra" "0 < int ?n" "0 < int ?n - int (length extra)"
      "\<not> int (?n - length extra) \<le> 0"
      using True by auto
    moreover have "take ?n (take (length extra) (h @ extra)) = take (length extra) (h @ extra)"
      using True by (simp add: min_def)
    ultimately show ?thesis
      using t' te len True assms(6) ok(2) by (simp add: response_body_def Let_def)
  next
    case False
    then have "take ?n (take (length extra) (h @ extra)) = take ?n (h @ extra)"
      by (simp add: min_def)
    then show ?thesis
      using False te len assms(6) ok by (cases "rs_body rs = []") (auto simp: response_body_def Let_def)
  qed
  show ?thesis
    using head body by (auto simp: recvResponse_def response_done_def)
qed

section \<open>Heads that do not fit\<close>

lemma eol_starves: "list_all (\<lambda>c. \<not> is_ctl c) u \<Longrightarrow> get_token_to_eol u = Fail (- 2)"
  by (induction u) auto

text \<open>A reason phrase that has not ended yet.\<close>

definition long_reason :: "string \<Rightarrow> string" where
  "long_reason u = ''HTTP/1.1 200 '' @ u"

lemma long_reason_incomplete:
  assumes "list_all (\<lambda>c. \<not> is_ctl c) u"
  shows "sp_execute p (long_reason u) 0 = (p, - 2)"
proof -
  have "\<not> is_ctl SP" by code_simp
  then have e: "get_token_to_eol (SP # u) = Fail (- 2)" using assms by (intro eol_starves) simp
  have c: "code (CHR ''1'') = 49" "code (CHR ''2'') = 50" "code (CHR ''0'') = 48" by code_simp+
  have "parse_response max_headers (long_reason u) = Fail (- 2)"
    using e by (simp add: long_reason_def parse_response_def parse_http_version_def parse_sp_def skip_spaces_def
        parse_status_def parse_msg_def digit_at_def c SP_char)
  then show ?thesis by (simp add: sp_execute_def phr_parse_response_def phr_parse_def)
qed

lemma response_head_overflow:
  assumes "list_all (\<lambda>c. \<not> is_ctl c) u" "length (long_reason u) = buff_size"
    and "is_connected t" "incoming t = long_reason u # seg # segs" "seg \<noteq> []"
  shows "\<exists>t'. response_head junk HttpResponseParser_new [] t = Some (t', Head_overflow)"
proof -
  let ?p = HttpResponseParser_new and ?t = "t\<lparr>incoming := seg # segs\<rparr>"
  let ?b = "buffer_upto junk (long_reason u) (buff_size + 2)"
  have s: "sub64 buff_size 0 = buff_size" by (simp add: sub64_small buff_size_def)
  have r: "sock_recv t buff_size = (?t, int buff_size, long_reason u)"
    using assms(2-4) by (simp add: sock_recv_def Let_def)
  have n: "next_offset buff_size (- 2) = int (buff_size + 2)"
    by (rule next_offset_incomplete) (simp add: buff_size_def)
  have one: "response_head junk ?p [] t = response_head junk ?p ?b ?t"
    using r n s long_reason_incomplete [OF assms(1), of ?p] assms(2)
    by (subst response_head.simps) (simp add: HttpResponseParser_new_def Let_def buff_size_def)
  have l: "length ?b = buff_size + 2"
    using assms(2) by (simp add: buffer_upto_def)
  obtain t' c where c: "sock_recv ?t (sub64 buff_size (length ?b)) = (t', int (length c), c)" "c \<noteq> []"
  proof -
    have "0 < sub64 buff_size (length ?b)" unfolding l by (simp add: sub64_def buff_size_def)
    then show thesis using that assms(3,5) by (simp add: sock_recv_def Let_def)
  qed
  then have "response_head junk ?p ?b ?t = Some (t', Head_overflow)"
    using l by (subst response_head.simps) simp
  then show ?thesis using one by simp
qed

text \<open>After a status line, a NUL where a header should start.\<close>

lemma nul_line_refused:
  "sp_execute HttpResponseParser_new ((''HTTP/1.1 200 OK'' @ CRLF) @ [NUL, x] @ r) 0 =
     (HttpResponseParser_new\<lparr>sp_error := True\<rparr>, - 1)"
proof -
  have p: "parse_response max_headers (''HTTP/1.1 200 OK'' @ CRLF @ [NUL]) = Fail (- 1)" by code_simp
  have "parse_response max_headers ((''HTTP/1.1 200 OK'' @ CRLF @ [NUL]) @ x # r) = Fail (- 1)"
    using response.bad_more [of _ "''HTTP/1.1 200 OK'' @ CRLF @ [NUL]"] p by blast
  then show ?thesis
    by (simp add: sp_execute_def phr_parse_response_def phr_parse_def)
qed

section \<open>Properties\<close>

text \<open>C13. Server to client: when the head of a printed response comes in a segment of its own, the
  client gets the status, reason, version, the headers and the body, however the body is cut,
  and leaves what follows in the stream.\<close>

theorem response_round_trip:
  assumes "sendable_response rs" "rs_dump rs = h @ rs_body rs"
    and "sock_ok t" "incoming t = h # segs" "length h \<le> buff_size"
    and "concat segs = rs_body rs @ later" "length (rs_body rs) < 2 ^ 31"
    and "can_alloc (int (length (rs_body rs)))"
  shows "\<exists>t' rs'. recvResponse junk can_alloc t = Some (t', Response rs') \<and>
    rs_status rs' = rs_status rs \<and> rs_version rs' = rs_version rs \<and> rs_reason rs' = reason_text rs \<and>
    rs_body rs' = rs_body rs \<and>
    (\<forall>k def. \<not> is_connection k \<and> \<not> strcasecmp_eq k ''Set-Cookie'' \<and> \<not> strcasecmp_eq k ''content-length'' \<longrightarrow>
       rs_getHeader rs' k def = rs_getHeader rs k def) \<and>
    sock_ok t' \<and> pending t' = later"
proof -
  let ?r = "(fill_response (response_sent_as rs) (HttpResponse_new 0x11 True))\<lparr>rs_body := rs_body rs\<rparr>"
  have h: "h = show_response (response_sent_as rs)" using rs_dump_show [OF assms(1)] assms(2) by simp
  have l: "length (rs_body rs) \<le> length [] + length (concat segs)" using assms(6) by simp
  obtain t' where t': "recvResponse junk can_alloc t = Some (t', Response ?r)" "sock_ok t'" "pending t' = later"
    using recvResponse_segment [where can_alloc = can_alloc and extra = "[]", OF assms(1) h assms(3) _ _ assms(8,7) l]
      assms(4,5,6) by auto
  have g: "rs_getHeader ?r k def = rs_getHeader rs k def"
    if "\<not> is_connection k" "\<not> strcasecmp_eq k ''Set-Cookie''" "\<not> strcasecmp_eq k ''content-length''" for k def
    using filled_response(4) [OF assms(1) refl that] by (simp add: rs_getHeader_def)
  show ?thesis
    using t' g filled_response(1-3) [OF assms(1) refl] by (intro exI [of _ t'] exI [of _ ?r]) auto
qed

definition sample_response :: http_response where
  "sample_response = (HttpResponse_new 0x11 False)\<lparr>rs_headers := [(''Server'', ''s'')], rs_body := ''hello''\<rparr>"

definition sample_head :: string where
  "sample_head = ''HTTP/1.1 200 OK'' @ CRLF @ ''Server: s'' @ CRLF @ ''connection: keep-alive'' @ CRLF @
     ''content-length: 5'' @ CRLF @ CRLF"

lemma sample_response_ok:
  "sendable_response sample_response" "rs_dump sample_response = sample_head @ rs_body sample_response"
  "length sample_head = 73" "sample_head \<noteq> []" "[] \<noteq> sample_head"
  by code_simp+

lemma sample_response_body: "rs_body sample_response = ''hello''" "rs_status sample_response = 200"
  by (simp_all add: sample_response_def HttpResponse_new_def)

theorem response_round_trip_witness:
  "\<exists>t' rs'. recvResponse (\<lambda>_. NUL) (\<lambda>_. True) (sample_socket [sample_head, ''he'', ''llo'']) = Some (t', Response rs') \<and>
    rs_status rs' = 200 \<and> rs_body rs' = ''hello''"
proof -
  have "sock_ok (sample_socket [sample_head, ''he'', ''llo''])"
    "incoming (sample_socket [sample_head, ''he'', ''llo'']) = sample_head # [''he'', ''llo'']"
    using sample_response_ok(4,5) by (simp_all add: sock_ok_def sample_socket_def)
  then show ?thesis
    using response_round_trip [OF sample_response_ok(1,2), of "sample_socket [sample_head, ''he'', ''llo'']"
        "[''he'', ''llo'']" "[]" "\<lambda>_. True" "\<lambda>_. NUL"] sample_response_ok(3) sample_response_body
    by (fastforce simp: buff_size_def)
qed

text \<open>The body copied from the wrong place: when body bytes come in the segment of the head (as
  they do when the server's one \<open>send\<close> goes through), the client takes as many bytes from the
  start of the head instead.\<close>

theorem response_body_from_head:
  assumes "sendable_response rs" "rs_dump rs = h @ rs_body rs" "length (rs_body rs) \<le> length h"
    and "sock_ok t" "incoming t = rs_dump rs # segs" "length (rs_dump rs) \<le> buff_size"
    and "can_alloc (int (length (rs_body rs)))"
  shows "\<exists>t' rs'. recvResponse junk can_alloc t = Some (t', Response rs') \<and>
    rs_body rs' = take (length (rs_body rs)) h \<and> pending t' = concat segs"
proof -
  have h: "h = show_response (response_sent_as rs)" using rs_dump_show [OF assms(1)] assms(2) by simp
  have "length (rs_body rs) < 2 ^ 31" using assms(2,6) by (simp add: buff_size_def)
  then show ?thesis
    using recvResponse_segment [where can_alloc = can_alloc and extra = "rs_body rs" and junk = junk and segs = segs,
        OF assms(1) h assms(4)] assms
    by fastforce
qed

theorem response_body_from_head_witness:
  "\<exists>t' rs'. recvResponse (\<lambda>_. NUL) (\<lambda>_. True) (sample_socket [rs_dump sample_response]) = Some (t', Response rs') \<and>
    rs_body rs' = ''HTTP/''"
proof -
  have "take (length (rs_body sample_response)) sample_head = ''HTTP/''" "length (rs_dump sample_response) = 78"
    "length (rs_body sample_response) \<le> length sample_head" by code_simp+
  moreover have "sock_ok (sample_socket [rs_dump sample_response])"
    using sample_response_ok(2,4) by (simp add: sock_ok_def sample_socket_def)
  ultimately show ?thesis
    using response_body_from_head [OF sample_response_ok(1,2), of "sample_socket [rs_dump sample_response]" "[]"
       "\<lambda>_. True" "\<lambda>_. NUL"]
    by (auto simp: buff_size_def sample_socket_def)
qed

text \<open>C40. A reason phrase that fills the 4096 bytes of the buffer makes the client store the next
  byte it receives outside the buffer.\<close>

theorem long_reason_overflows:
  assumes "list_all (\<lambda>c. \<not> is_ctl c) u" "length (''HTTP/1.1 200 '' @ u) = buff_size"
    and "is_connected t" "incoming t = (''HTTP/1.1 200 '' @ u) # seg # segs" "seg \<noteq> []"
  shows "\<exists>t'. recvResponse junk can_alloc t = Some (t', Overflow)"
  using response_head_overflow [OF assms(1) _ assms(3) _ assms(5), of segs junk] assms(2,4)
  by (auto simp: recvResponse_def long_reason_def)

theorem long_reason_overflows_witness:
  "\<exists>t'. recvResponse (\<lambda>_. NUL) (\<lambda>_. True) (sample_socket [''HTTP/1.1 200 '' @ replicate 4083 (CHR ''a''), ''b'']) = Some (t', Overflow)"
proof -
  have "\<not> is_ctl (CHR ''a'')" by code_simp
  then have "list_all (\<lambda>c. \<not> is_ctl c) (replicate 4083 (CHR ''a''))" by (simp add: list_all_iff)
  then show ?thesis
    using long_reason_overflows [of "replicate 4083 (CHR ''a'')"
        "sample_socket [''HTTP/1.1 200 '' @ replicate 4083 (CHR ''a''), ''b'']" "''b''" "[]" "\<lambda>_. NUL" "\<lambda>_. True"]
    by (simp add: buff_size_def sample_socket_def)
qed

text \<open>A head that is cut in two: the client puts a NUL and an unspecified byte between the
  pieces, so a valid head that arrives in two segments is refused.\<close>

theorem split_head_refused:
  "\<exists>t'. recvResponse junk (\<lambda>_. True) (sample_socket [''HTTP/1.1 200 OK'' @ CRLF, CRLF]) = Some (t', No_response) \<and>
     phr_parse_response max_headers (''HTTP/1.1 200 OK'' @ CRLF @ CRLF) 0 =
       (19, Some \<lparr>ps_minor = 1, ps_status = 200, ps_msg = ''OK'', ps_headers = []\<rparr>)"
proof -
  let ?p = HttpResponseParser_new and ?a = "''HTTP/1.1 200 OK'' @ CRLF"
  let ?t1 = "(sample_socket [''x''])\<lparr>incoming := [CRLF]\<rparr>" and ?t2 = "(sample_socket [''x''])\<lparr>incoming := []\<rparr>"
  have a: "length ?a = 17" "sp_execute ?p ?a 0 = (?p, - 2)" "length CRLF = 2" "CRLF \<noteq> []" by code_simp+
  have b: "buffer_upto junk ?a 19 = ?a @ [NUL, junk 18]"
    using a(1) by (simp add: buffer_upto_def upt_rec)
  have s: "sub64 buff_size 0 = 4096" "sub64 buff_size 19 = 4077" by code_simp+
  have f: "sp_execute ?p (?a @ [NUL, x] @ CRLF) 0 = (?p\<lparr>sp_error := True\<rparr>, - 1)" for x
    using nul_line_refused [of x CRLF] by simp
  have n: "next_offset 17 (- 2) = 19" using next_offset_incomplete [of 17] by simp
  have r1: "sock_recv (sample_socket [?a, CRLF]) 4096 = (?t1, 17, ?a)"
    using a(1) by (simp add: sock_recv_def sample_socket_def Let_def)
  have r2: "sock_recv ?t1 4077 = (?t2, 2, CRLF)"
    using a(3) by (simp add: sock_recv_def sample_socket_def Let_def)
  have "response_head junk ?p [] (sample_socket [?a, CRLF]) = response_head junk ?p (?a @ [NUL, junk 18]) ?t1"
    using a s r1 n b by (subst response_head.simps) (simp add: HttpResponseParser_new_def Let_def buff_size_def)
  also have "\<dots> = Some (sock_close ?t2, Head_closed)"
    using a s r2 f [of "junk 18"] by (subst response_head.simps) (simp add: Let_def buff_size_def)
  finally have "recvResponse junk (\<lambda>_. True) (sample_socket [?a, CRLF]) = Some (sock_close ?t2, No_response)"
    by (simp add: recvResponse_def)
  moreover have "phr_parse_response max_headers (?a @ CRLF) 0 =
       (19, Some \<lparr>ps_minor = 1, ps_status = 200, ps_msg = ''OK'', ps_headers = []\<rparr>)" by code_simp
  ultimately show ?thesis by simp
qed

end
