(* ===== verification/Uris.thy ===== *)
theory Uris
  imports CStrings
begin

text \<open>
  The class \<open>Uri\<close> (\<open>src/Http/Uri.h\<close> and the end of \<open>src/Http/Uri.cc\<close>): its fields, the default path and
  ports, and its text.
\<close>

section \<open>URIs\<close>

record uri =
  u_scheme :: string
  u_userinfo :: string
  u_host :: string
  u_path :: string
  u_query :: string
  u_fragment :: string
  u_port :: int

definition Uri_new :: uri where
  "Uri_new = \<lparr>u_scheme = [], u_userinfo = [], u_host = [], u_path = [], u_query = [], u_fragment = [], u_port = 0\<rparr>"

definition isDefaultPort :: "uri \<Rightarrow> bool" where
  "isDefaultPort u =
     (if u_port u = 0 then True
      else if u_scheme u = ''http'' \<or> u_scheme u = ''ws'' then u_port u = 80
      else if u_scheme u = ''https'' \<or> u_scheme u = ''wss'' then u_port u = 443
      else False)"

definition uri_getPath :: "uri \<Rightarrow> string" where
  "uri_getPath u = (if u_path u = [] then ''/'' else u_path u)"

definition uri_getPort :: "uri \<Rightarrow> int" where
  "uri_getPort u =
     (if u_port u \<noteq> 0 then u_port u
      else if u_scheme u = ''http'' \<or> u_scheme u = ''ws'' then 80
      else if u_scheme u = ''https'' \<or> u_scheme u = ''wss'' then 443
      else u_port u)"

definition int_string :: "int \<Rightarrow> string" where
  "int_string n = (if n < 0 then CHR ''-'' # dec_string (nat (- n)) else dec_string (nat n))"

definition uri_toString :: "uri \<Rightarrow> string" where
  "uri_toString u =
     u_scheme u @ ''://'' @ u_userinfo u @ (if u_userinfo u = [] then [] else ''@'') @ u_host u @
     (if isDefaultPort u then [] else CHR '':'' # int_string (u_port u)) @ uri_getPath u @
     (if u_query u = [] then [] else ''?'') @ u_query u @
     (if u_fragment u = [] then [] else ''#'') @ u_fragment u"

end
