(* ===== verification/UriTables.thy ===== *)
theory UriTables
  imports Prelude
begin

text \<open>
  The automaton that Ragel generated from \<open>src/Http/Uri.rl\<close> into
   \<open>src/Http/Uri.cc\<close>, in the order of that
  file. A state \<open>case n:\<close> becomes \<open>Case n\<close> with the jumps of its
   \<open>switch\<close> and of the nested comparisons as
  closed ranges of the (signed) character, tried in order, and its last \<open>goto\<close>. A
   label \<open>trn:\<close> becomes
  \<open>Label n\<close> with its actions and the state it enters. \<open>St n\<close> is
   \<open>goto stn\<close>, \<open>Go n\<close> is \<open>goto trn\<close>. State 0 is the
  error state. One definition holds at most 150 lines of the file; \<open>uri_program\<close> lists
   them.
\<close>

datatype uri_action =
    Set_mark | Save_scheme | Save_userinfo | Save_host | Save_port | Save_path | Save_query
  | Save_fragment

datatype uri_goto = St int | Go int

datatype uri_code =
    Case int "(int \<times> int \<times> uri_goto) list" uri_goto
  | Label int "uri_action list" int

definition uri_code_1 :: "uri_code list" where
  "uri_code_1 = [
    Case 451 [(34, 34, St 0), (35, 35, St 453), (37, 37, St 3), (47, 47, St 458), (58, 58, St 0),
      (60, 60, St 0), (62, 62, St 0), (63, 63, St 456), (96, 96, St 0), (127, 127, St 0),
      (0, 32, St 0), (65, 90, Go 461), (91, 94, St 0), (97, 122, Go 461),
      (123, 125, St 0)] (St 452),
    Case 452 [(34, 34, St 0), (35, 35, St 453), (37, 37, St 3), (47, 47, St 455), (58, 58, St 0),
      (60, 60, St 0), (62, 62, St 0), (63, 63, St 456), (96, 96, St 0), (127, 127, St 0),
      (0, 32, St 0), (91, 94, St 0), (123, 125, St 0)] (St 452),
    Label 467 [Set_mark, Save_query] 453,
    Label 469 [Save_query] 453,
    Label 474 [Set_mark, Save_host] 453,
    Label 485 [Save_host] 453,
    Label 489 [Set_mark, Save_port] 453,
    Label 493 [Save_port] 453,
    Label 548 [Set_mark, Save_host, Save_path] 453,
    Label 559 [Save_host, Set_mark, Save_path] 453,
    Label 563 [Save_path] 453]"

definition uri_code_2 :: "uri_code list" where
  "uri_code_2 = [
    Label 566 [Set_mark, Save_port, Save_path] 453,
    Label 570 [Save_port, Set_mark, Save_path] 453,
    Case 453 [(37, 37, Go 463), (60, 60, St 0), (62, 62, St 0), (96, 96, St 0), (127, 127, St 0),
      (0, 32, St 0), (34, 35, St 0), (91, 94, St 0), (123, 125, St 0)] (Go 462),
    Label 462 [Set_mark] 454,
    Case 454 [(37, 37, St 1), (60, 60, St 0), (62, 62, St 0), (96, 96, St 0), (127, 127, St 0),
      (0, 32, St 0), (34, 35, St 0), (91, 94, St 0), (123, 125, St 0)] (St 454),
    Label 463 [Set_mark] 1,
    Case 1 [(48, 57, St 2), (65, 70, St 2), (97, 102, St 2)] (St 0),
    Case 2 [(48, 57, St 454), (65, 70, St 454), (97, 102, St 454)] (St 0),
    Case 3 [(48, 57, St 4), (65, 70, St 4), (97, 102, St 4)] (St 0),
    Case 4 [(48, 57, St 452), (65, 70, St 452), (97, 102, St 452)] (St 0)]"

definition uri_code_3 :: "uri_code list" where
  "uri_code_3 = [
    Label 476 [Set_mark, Save_host] 455,
    Label 486 [Save_host] 455,
    Label 490 [Set_mark, Save_port] 455,
    Label 494 [Save_port] 455,
    Case 455 [(34, 34, St 0), (35, 35, St 453), (37, 37, St 5), (60, 60, St 0), (62, 62, St 0),
      (63, 63, St 456), (96, 96, St 0), (127, 127, St 0), (0, 32, St 0), (91, 94, St 0),
      (123, 125, St 0)] (St 455),
    Case 5 [(48, 57, St 6), (65, 70, St 6), (97, 102, St 6)] (St 0),
    Case 6 [(48, 57, St 455), (65, 70, St 455), (97, 102, St 455)] (St 0),
    Label 482 [Set_mark, Save_host] 456,
    Label 488 [Save_host] 456,
    Label 492 [Set_mark, Save_port] 456,
    Label 496 [Save_port] 456,
    Label 556 [Set_mark, Save_host, Save_path] 456]"

definition uri_code_4 :: "uri_code list" where
  "uri_code_4 = [
    Label 562 [Save_host, Set_mark, Save_path] 456,
    Label 565 [Save_path] 456,
    Label 569 [Set_mark, Save_port, Save_path] 456,
    Label 573 [Save_port, Set_mark, Save_path] 456,
    Case 456 [(34, 34, St 0), (35, 35, Go 467), (37, 37, Go 468), (60, 60, St 0), (62, 62, St 0),
      (96, 96, St 0), (127, 127, St 0), (0, 32, St 0), (91, 94, St 0), (123, 125, St 0)] (Go 466),
    Label 466 [Set_mark] 457,
    Case 457 [(34, 34, St 0), (35, 35, Go 469), (37, 37, St 7), (60, 60, St 0), (62, 62, St 0),
      (96, 96, St 0), (127, 127, St 0), (0, 32, St 0), (91, 94, St 0), (123, 125, St 0)] (St 457),
    Label 468 [Set_mark] 7,
    Case 7 [(48, 57, St 8), (65, 70, St 8), (97, 102, St 8)] (St 0),
    Case 8 [(48, 57, St 457), (65, 70, St 457), (97, 102, St 457)] (St 0)]"

definition uri_code_5 :: "uri_code list" where
  "uri_code_5 = [
    Case 458 [(34, 34, St 0), (35, 35, St 453), (37, 37, St 5), (47, 47, St 459), (60, 60, St 0),
      (62, 62, St 0), (63, 63, St 456), (96, 96, St 0), (127, 127, St 0), (0, 32, St 0),
      (91, 94, St 0), (123, 125, St 0)] (St 455),
    Case 459 [(2, 2, Go 472), (33, 33, Go 473), (35, 35, Go 474), (37, 37, Go 475),
      (47, 47, Go 476), (48, 48, Go 477), (49, 49, Go 478), (50, 50, Go 479), (58, 58, Go 481),
      (59, 59, Go 473), (61, 61, Go 473), (63, 63, Go 482), (64, 64, Go 483), (91, 91, Go 484),
      (95, 95, Go 473), (126, 126, Go 473), (36, 46, Go 473), (51, 57, Go 480), (65, 90, Go 473),
      (97, 122, Go 473)] (St 0),
    Label 472 [Set_mark] 9,
    Case 9 [(48, 52, St 10)] (St 0),
    Case 10 [(48, 57, St 11)] (St 0),
    Case 11 [(46, 46, St 12)] (St 0),
    Case 12 [(2, 2, St 13), (48, 48, St 15), (49, 49, St 27), (50, 50, St 29),
      (51, 57, St 28)] (St 0),
    Case 13 [(48, 52, St 14)] (St 0),
    Case 14 [(48, 57, St 15)] (St 0),
    Case 15 [(46, 46, St 16)] (St 0),
    Case 16 [(2, 2, St 17), (48, 48, St 19), (49, 49, St 23), (50, 50, St 25),
      (51, 57, St 24)] (St 0),
    Case 17 [(48, 52, St 18)] (St 0),
    Case 18 [(48, 57, St 19)] (St 0),
    Case 19 [(46, 46, St 20)] (St 0)]"

definition uri_code_6 :: "uri_code list" where
  "uri_code_6 = [
    Case 20 [(2, 2, St 21), (48, 48, St 460), (49, 49, St 463), (50, 50, St 465),
      (51, 57, St 464)] (St 0),
    Case 21 [(48, 52, St 22)] (St 0),
    Case 22 [(48, 57, St 460)] (St 0),
    Case 460 [(35, 35, Go 485), (47, 47, Go 486), (58, 58, Go 487), (63, 63, Go 488)] (St 0),
    Label 507 [Set_mark, Save_host] 461,
    Label 487 [Save_host] 461,
    Case 461 [(35, 35, Go 489), (47, 47, Go 490), (63, 63, Go 492), (48, 57, Go 491)] (St 0),
    Label 491 [Set_mark] 462,
    Case 462 [(35, 35, Go 493), (47, 47, Go 494), (63, 63, Go 496), (48, 57, St 462)] (St 0),
    Case 463 [(35, 35, Go 485), (47, 47, Go 486), (58, 58, Go 487), (63, 63, Go 488),
      (48, 57, St 464)] (St 0),
    Case 464 [(35, 35, Go 485), (47, 47, Go 486), (58, 58, Go 487), (63, 63, Go 488),
      (48, 57, St 460)] (St 0),
    Case 465 [(35, 35, Go 485), (47, 47, Go 486), (53, 53, St 466), (58, 58, Go 487),
      (63, 63, Go 488), (48, 57, St 460)] (St 0),
    Case 466 [(35, 35, Go 485), (47, 47, Go 486), (58, 58, Go 487), (63, 63, Go 488),
      (48, 53, St 460)] (St 0),
    Case 23 [(46, 46, St 20), (48, 57, St 24)] (St 0)]"

definition uri_code_7 :: "uri_code list" where
  "uri_code_7 = [
    Case 24 [(46, 46, St 20), (48, 57, St 19)] (St 0),
    Case 25 [(46, 46, St 20), (53, 53, St 26), (48, 57, St 19)] (St 0),
    Case 26 [(46, 46, St 20), (48, 53, St 19)] (St 0),
    Case 27 [(46, 46, St 16), (48, 57, St 28)] (St 0),
    Case 28 [(46, 46, St 16), (48, 57, St 15)] (St 0),
    Case 29 [(46, 46, St 16), (53, 53, St 30), (48, 57, St 15)] (St 0),
    Case 30 [(46, 46, St 16), (48, 53, St 15)] (St 0),
    Label 473 [Set_mark] 467,
    Case 467 [(33, 33, St 467), (35, 35, Go 485), (37, 37, St 31), (47, 47, Go 486),
      (58, 58, Go 499), (61, 61, St 467), (63, 63, Go 488), (64, 64, Go 38), (95, 95, St 467),
      (126, 126, St 467), (36, 59, St 467), (65, 90, St 467), (97, 122, St 467)] (St 0),
    Label 475 [Set_mark] 31,
    Case 31 [(48, 57, St 32), (65, 70, St 32), (97, 102, St 32)] (St 0),
    Case 32 [(48, 57, St 467), (65, 70, St 467), (97, 102, St 467)] (St 0),
    Label 481 [Set_mark, Save_host] 468,
    Label 499 [Save_host] 468]"

definition uri_code_8 :: "uri_code list" where
  "uri_code_8 = [
    Case 468 [(33, 33, St 33), (35, 35, Go 489), (37, 37, St 34), (47, 47, Go 490),
      (61, 61, St 33), (63, 63, Go 492), (64, 64, Go 38), (95, 95, St 33), (126, 126, St 33),
      (36, 46, St 33), (48, 57, Go 500), (58, 59, St 33), (65, 90, St 33), (97, 122, St 33)] (St 0),
    Case 33 [(33, 33, St 33), (37, 37, St 34), (61, 61, St 33), (64, 64, Go 38), (95, 95, St 33),
      (126, 126, St 33), (36, 46, St 33), (48, 59, St 33), (65, 90, St 33),
      (97, 122, St 33)] (St 0),
    Case 34 [(48, 57, St 35), (65, 70, St 35), (97, 102, St 35)] (St 0),
    Case 35 [(48, 57, St 33), (65, 70, St 33), (97, 102, St 33)] (St 0),
    Label 38 [Save_userinfo] 469,
    Label 483 [Set_mark, Save_userinfo] 469,
    Case 469 [(2, 2, Go 472), (33, 33, Go 501), (35, 35, Go 474), (37, 37, Go 502),
      (47, 47, Go 476), (48, 48, Go 503), (49, 49, Go 504), (50, 50, Go 505), (58, 58, Go 507),
      (59, 59, Go 501), (61, 61, Go 501), (63, 63, Go 482), (91, 91, Go 484), (95, 95, Go 501),
      (126, 126, Go 501), (36, 46, Go 501), (51, 57, Go 506), (65, 90, Go 501),
      (97, 122, Go 501)] (St 0),
    Label 501 [Set_mark] 470]"

definition uri_code_9 :: "uri_code list" where
  "uri_code_9 = [
    Case 470 [(33, 33, St 470), (35, 35, Go 485), (37, 37, St 36), (47, 47, Go 486),
      (58, 58, Go 487), (61, 61, St 470), (63, 63, Go 488), (95, 95, St 470), (126, 126, St 470),
      (36, 59, St 470), (65, 90, St 470), (97, 122, St 470)] (St 0),
    Label 502 [Set_mark] 36,
    Case 36 [(48, 57, St 37), (65, 70, St 37), (97, 102, St 37)] (St 0),
    Case 37 [(48, 57, St 470), (65, 70, St 470), (97, 102, St 470)] (St 0),
    Label 503 [Set_mark] 471,
    Case 471 [(33, 33, St 470), (35, 35, Go 485), (37, 37, St 36), (46, 46, St 472),
      (47, 47, Go 486), (58, 58, Go 487), (61, 61, St 470), (63, 63, Go 488), (95, 95, St 470),
      (126, 126, St 470), (36, 59, St 470), (65, 90, St 470), (97, 122, St 470)] (St 0),
    Case 472 [(2, 2, St 13), (33, 33, St 470), (35, 35, Go 485), (37, 37, St 36), (47, 47, Go 486),
      (48, 48, St 473), (49, 49, St 481), (50, 50, St 483), (58, 58, Go 487), (59, 59, St 470),
      (61, 61, St 470), (63, 63, Go 488), (95, 95, St 470), (126, 126, St 470), (36, 46, St 470),
      (51, 57, St 482), (65, 90, St 470), (97, 122, St 470)] (St 0),
    Case 473 [(33, 33, St 470), (35, 35, Go 485), (37, 37, St 36), (46, 46, St 474),
      (47, 47, Go 486), (58, 58, Go 487), (61, 61, St 470), (63, 63, Go 488), (95, 95, St 470),
      (126, 126, St 470), (36, 59, St 470), (65, 90, St 470), (97, 122, St 470)] (St 0)]"

definition uri_code_10 :: "uri_code list" where
  "uri_code_10 = [
    Case 474 [(2, 2, St 17), (33, 33, St 470), (35, 35, Go 485), (37, 37, St 36), (47, 47, Go 486),
      (48, 48, St 475), (49, 49, St 477), (50, 50, St 479), (58, 58, Go 487), (59, 59, St 470),
      (61, 61, St 470), (63, 63, Go 488), (95, 95, St 470), (126, 126, St 470), (36, 46, St 470),
      (51, 57, St 478), (65, 90, St 470), (97, 122, St 470)] (St 0),
    Case 475 [(33, 33, St 470), (35, 35, Go 485), (37, 37, St 36), (46, 46, St 476),
      (47, 47, Go 486), (58, 58, Go 487), (61, 61, St 470), (63, 63, Go 488), (95, 95, St 470),
      (126, 126, St 470), (36, 59, St 470), (65, 90, St 470), (97, 122, St 470)] (St 0),
    Case 476 [(2, 2, St 21), (33, 33, St 470), (35, 35, Go 485), (37, 37, St 36), (47, 47, Go 486),
      (58, 58, Go 487), (61, 61, St 470), (63, 63, Go 488), (95, 95, St 470), (126, 126, St 470),
      (36, 59, St 470), (65, 90, St 470), (97, 122, St 470)] (St 0),
    Case 477 [(33, 33, St 470), (35, 35, Go 485), (37, 37, St 36), (46, 46, St 476),
      (47, 47, Go 486), (58, 58, Go 487), (59, 59, St 470), (61, 61, St 470), (63, 63, Go 488),
      (95, 95, St 470), (126, 126, St 470), (36, 45, St 470), (48, 57, St 478), (65, 90, St 470),
      (97, 122, St 470)] (St 0),
    Case 478 [(33, 33, St 470), (35, 35, Go 485), (37, 37, St 36), (46, 46, St 476),
      (47, 47, Go 486), (58, 58, Go 487), (59, 59, St 470), (61, 61, St 470), (63, 63, Go 488),
      (95, 95, St 470), (126, 126, St 470), (36, 45, St 470), (48, 57, St 475), (65, 90, St 470),
      (97, 122, St 470)] (St 0)]"

definition uri_code_11 :: "uri_code list" where
  "uri_code_11 = [
    Case 479 [(33, 33, St 470), (35, 35, Go 485), (37, 37, St 36), (46, 46, St 476),
      (47, 47, Go 486), (53, 53, St 480), (58, 58, Go 487), (59, 59, St 470), (61, 61, St 470),
      (63, 63, Go 488), (95, 95, St 470), (126, 126, St 470), (36, 45, St 470), (48, 57, St 475),
      (65, 90, St 470), (97, 122, St 470)] (St 0),
    Case 480 [(33, 33, St 470), (35, 35, Go 485), (37, 37, St 36), (46, 46, St 476),
      (47, 47, Go 486), (58, 58, Go 487), (61, 61, St 470), (63, 63, Go 488), (95, 95, St 470),
      (126, 126, St 470), (36, 45, St 470), (48, 53, St 475), (54, 59, St 470), (65, 90, St 470),
      (97, 122, St 470)] (St 0),
    Case 481 [(33, 33, St 470), (35, 35, Go 485), (37, 37, St 36), (46, 46, St 474),
      (47, 47, Go 486), (58, 58, Go 487), (59, 59, St 470), (61, 61, St 470), (63, 63, Go 488),
      (95, 95, St 470), (126, 126, St 470), (36, 45, St 470), (48, 57, St 482), (65, 90, St 470),
      (97, 122, St 470)] (St 0),
    Case 482 [(33, 33, St 470), (35, 35, Go 485), (37, 37, St 36), (46, 46, St 474),
      (47, 47, Go 486), (58, 58, Go 487), (59, 59, St 470), (61, 61, St 470), (63, 63, Go 488),
      (95, 95, St 470), (126, 126, St 470), (36, 45, St 470), (48, 57, St 473), (65, 90, St 470),
      (97, 122, St 470)] (St 0),
    Case 483 [(33, 33, St 470), (35, 35, Go 485), (37, 37, St 36), (46, 46, St 474),
      (47, 47, Go 486), (53, 53, St 484), (58, 58, Go 487), (59, 59, St 470), (61, 61, St 470),
      (63, 63, Go 488), (95, 95, St 470), (126, 126, St 470), (36, 45, St 470), (48, 57, St 473),
      (65, 90, St 470), (97, 122, St 470)] (St 0)]"

definition uri_code_12 :: "uri_code list" where
  "uri_code_12 = [
    Case 484 [(33, 33, St 470), (35, 35, Go 485), (37, 37, St 36), (46, 46, St 474),
      (47, 47, Go 486), (58, 58, Go 487), (61, 61, St 470), (63, 63, Go 488), (95, 95, St 470),
      (126, 126, St 470), (36, 45, St 470), (48, 53, St 473), (54, 59, St 470), (65, 90, St 470),
      (97, 122, St 470)] (St 0),
    Label 504 [Set_mark] 485,
    Case 485 [(33, 33, St 470), (35, 35, Go 485), (37, 37, St 36), (46, 46, St 472),
      (47, 47, Go 486), (58, 58, Go 487), (59, 59, St 470), (61, 61, St 470), (63, 63, Go 488),
      (95, 95, St 470), (126, 126, St 470), (36, 45, St 470), (48, 57, St 486), (65, 90, St 470),
      (97, 122, St 470)] (St 0),
    Label 506 [Set_mark] 486,
    Case 486 [(33, 33, St 470), (35, 35, Go 485), (37, 37, St 36), (46, 46, St 472),
      (47, 47, Go 486), (58, 58, Go 487), (59, 59, St 470), (61, 61, St 470), (63, 63, Go 488),
      (95, 95, St 470), (126, 126, St 470), (36, 45, St 470), (48, 57, St 471), (65, 90, St 470),
      (97, 122, St 470)] (St 0),
    Label 505 [Set_mark] 487,
    Case 487 [(33, 33, St 470), (35, 35, Go 485), (37, 37, St 36), (46, 46, St 472),
      (47, 47, Go 486), (53, 53, St 488), (58, 58, Go 487), (59, 59, St 470), (61, 61, St 470),
      (63, 63, Go 488), (95, 95, St 470), (126, 126, St 470), (36, 45, St 470), (48, 57, St 471),
      (65, 90, St 470), (97, 122, St 470)] (St 0)]"

definition uri_code_13 :: "uri_code list" where
  "uri_code_13 = [
    Case 488 [(33, 33, St 470), (35, 35, Go 485), (37, 37, St 36), (46, 46, St 472),
      (47, 47, Go 486), (58, 58, Go 487), (61, 61, St 470), (63, 63, Go 488), (95, 95, St 470),
      (126, 126, St 470), (36, 45, St 470), (48, 53, St 471), (54, 59, St 470), (65, 90, St 470),
      (97, 122, St 470)] (St 0),
    Label 484 [Set_mark] 38,
    Case 38 [(58, 58, St 146), (118, 118, St 225), (48, 57, St 39), (65, 70, St 39),
      (97, 102, St 39)] (St 0),
    Case 39 [(48, 57, St 40), (58, 58, St 43), (65, 70, St 40), (97, 102, St 40)] (St 0),
    Case 40 [(48, 57, St 41), (58, 58, St 43), (65, 70, St 41), (97, 102, St 41)] (St 0),
    Case 41 [(48, 57, St 42), (58, 58, St 43), (65, 70, St 42), (97, 102, St 42)] (St 0),
    Case 42 [(58, 58, St 43)] (St 0),
    Case 43 [(48, 57, St 44), (58, 58, St 141), (65, 70, St 44), (97, 102, St 44)] (St 0),
    Case 44 [(48, 57, St 45), (58, 58, St 48), (65, 70, St 45), (97, 102, St 45)] (St 0),
    Case 45 [(48, 57, St 46), (58, 58, St 48), (65, 70, St 46), (97, 102, St 46)] (St 0)]"

definition uri_code_14 :: "uri_code list" where
  "uri_code_14 = [
    Case 46 [(48, 57, St 47), (58, 58, St 48), (65, 70, St 47), (97, 102, St 47)] (St 0),
    Case 47 [(58, 58, St 48)] (St 0),
    Case 48 [(48, 57, St 49), (58, 58, St 136), (65, 70, St 49), (97, 102, St 49)] (St 0),
    Case 49 [(48, 57, St 50), (58, 58, St 53), (65, 70, St 50), (97, 102, St 50)] (St 0),
    Case 50 [(48, 57, St 51), (58, 58, St 53), (65, 70, St 51), (97, 102, St 51)] (St 0),
    Case 51 [(48, 57, St 52), (58, 58, St 53), (65, 70, St 52), (97, 102, St 52)] (St 0),
    Case 52 [(58, 58, St 53)] (St 0),
    Case 53 [(48, 57, St 54), (58, 58, St 131), (65, 70, St 54), (97, 102, St 54)] (St 0),
    Case 54 [(48, 57, St 55), (58, 58, St 58), (65, 70, St 55), (97, 102, St 55)] (St 0),
    Case 55 [(48, 57, St 56), (58, 58, St 58), (65, 70, St 56), (97, 102, St 56)] (St 0),
    Case 56 [(48, 57, St 57), (58, 58, St 58), (65, 70, St 57), (97, 102, St 57)] (St 0)]"

definition uri_code_15 :: "uri_code list" where
  "uri_code_15 = [
    Case 57 [(58, 58, St 58)] (St 0),
    Case 58 [(48, 57, St 59), (58, 58, St 126), (65, 70, St 59), (97, 102, St 59)] (St 0),
    Case 59 [(48, 57, St 60), (58, 58, St 63), (65, 70, St 60), (97, 102, St 60)] (St 0),
    Case 60 [(48, 57, St 61), (58, 58, St 63), (65, 70, St 61), (97, 102, St 61)] (St 0),
    Case 61 [(48, 57, St 62), (58, 58, St 63), (65, 70, St 62), (97, 102, St 62)] (St 0),
    Case 62 [(58, 58, St 63)] (St 0),
    Case 63 [(48, 57, St 64), (58, 58, St 113), (65, 70, St 64), (97, 102, St 64)] (St 0),
    Case 64 [(48, 57, St 65), (58, 58, St 68), (65, 70, St 65), (97, 102, St 65)] (St 0),
    Case 65 [(48, 57, St 66), (58, 58, St 68), (65, 70, St 66), (97, 102, St 66)] (St 0),
    Case 66 [(48, 57, St 67), (58, 58, St 68), (65, 70, St 67), (97, 102, St 67)] (St 0),
    Case 67 [(58, 58, St 68)] (St 0)]"

definition uri_code_16 :: "uri_code list" where
  "uri_code_16 = [
    Case 68 [(2, 2, St 69), (48, 48, St 96), (49, 49, St 104), (50, 50, St 107), (58, 58, St 111),
      (51, 57, St 110), (65, 70, St 112), (97, 102, St 112)] (St 0),
    Case 69 [(48, 52, St 70)] (St 0),
    Case 70 [(48, 57, St 71)] (St 0),
    Case 71 [(46, 46, St 72)] (St 0),
    Case 72 [(2, 2, St 73), (48, 48, St 75), (49, 49, St 92), (50, 50, St 94),
      (51, 57, St 93)] (St 0),
    Case 73 [(48, 52, St 74)] (St 0),
    Case 74 [(48, 57, St 75)] (St 0),
    Case 75 [(46, 46, St 76)] (St 0),
    Case 76 [(2, 2, St 77), (48, 48, St 79), (49, 49, St 88), (50, 50, St 90),
      (51, 57, St 89)] (St 0),
    Case 77 [(48, 52, St 78)] (St 0),
    Case 78 [(48, 57, St 79)] (St 0),
    Case 79 [(46, 46, St 80)] (St 0),
    Case 80 [(2, 2, St 81), (48, 48, St 83), (49, 49, St 84), (50, 50, St 86),
      (51, 57, St 85)] (St 0),
    Case 81 [(48, 52, St 82)] (St 0),
    Case 82 [(48, 57, St 83)] (St 0),
    Case 83 [(93, 93, St 460)] (St 0),
    Case 84 [(48, 57, St 85), (93, 93, St 460)] (St 0)]"

definition uri_code_17 :: "uri_code list" where
  "uri_code_17 = [
    Case 85 [(48, 57, St 83), (93, 93, St 460)] (St 0),
    Case 86 [(53, 53, St 87), (93, 93, St 460), (48, 57, St 83)] (St 0),
    Case 87 [(48, 53, St 83), (93, 93, St 460)] (St 0),
    Case 88 [(46, 46, St 80), (48, 57, St 89)] (St 0),
    Case 89 [(46, 46, St 80), (48, 57, St 79)] (St 0),
    Case 90 [(46, 46, St 80), (53, 53, St 91), (48, 57, St 79)] (St 0),
    Case 91 [(46, 46, St 80), (48, 53, St 79)] (St 0),
    Case 92 [(46, 46, St 76), (48, 57, St 93)] (St 0),
    Case 93 [(46, 46, St 76), (48, 57, St 75)] (St 0),
    Case 94 [(46, 46, St 76), (53, 53, St 95), (48, 57, St 75)] (St 0),
    Case 95 [(46, 46, St 76), (48, 53, St 75)] (St 0),
    Case 96 [(46, 46, St 72), (58, 58, St 100), (48, 57, St 97), (65, 70, St 97),
      (97, 102, St 97)] (St 0),
    Case 97 [(48, 57, St 98), (58, 58, St 100), (65, 70, St 98), (97, 102, St 98)] (St 0)]"

definition uri_code_18 :: "uri_code list" where
  "uri_code_18 = [
    Case 98 [(48, 57, St 99), (58, 58, St 100), (65, 70, St 99), (97, 102, St 99)] (St 0),
    Case 99 [(58, 58, St 100)] (St 0),
    Case 100 [(48, 57, St 101), (58, 58, St 83), (65, 70, St 101), (97, 102, St 101)] (St 0),
    Case 101 [(48, 57, St 102), (65, 70, St 102), (93, 93, St 460), (97, 102, St 102)] (St 0),
    Case 102 [(48, 57, St 103), (65, 70, St 103), (93, 93, St 460), (97, 102, St 103)] (St 0),
    Case 103 [(48, 57, St 83), (65, 70, St 83), (93, 93, St 460), (97, 102, St 83)] (St 0),
    Case 104 [(46, 46, St 72), (58, 58, St 100), (48, 57, St 105), (65, 70, St 97),
      (97, 102, St 97)] (St 0),
    Case 105 [(46, 46, St 72), (58, 58, St 100), (48, 57, St 106), (65, 70, St 98),
      (97, 102, St 98)] (St 0),
    Case 106 [(46, 46, St 72), (58, 58, St 100), (48, 57, St 99), (65, 70, St 99),
      (97, 102, St 99)] (St 0),
    Case 107 [(46, 46, St 72), (53, 53, St 109), (58, 58, St 100), (48, 57, St 108),
      (65, 70, St 97), (97, 102, St 97)] (St 0)]"

definition uri_code_19 :: "uri_code list" where
  "uri_code_19 = [
    Case 108 [(46, 46, St 72), (58, 58, St 100), (48, 57, St 98), (65, 70, St 98),
      (97, 102, St 98)] (St 0),
    Case 109 [(46, 46, St 72), (58, 58, St 100), (48, 53, St 106), (54, 57, St 98),
      (65, 70, St 98), (97, 102, St 98)] (St 0),
    Case 110 [(46, 46, St 72), (58, 58, St 100), (48, 57, St 108), (65, 70, St 97),
      (97, 102, St 97)] (St 0),
    Case 111 [(48, 57, St 101), (65, 70, St 101), (97, 102, St 101)] (St 0),
    Case 112 [(48, 57, St 97), (58, 58, St 100), (65, 70, St 97), (97, 102, St 97)] (St 0),
    Case 113 [(2, 2, St 69), (48, 48, St 114), (49, 49, St 118), (50, 50, St 121),
      (51, 57, St 124), (65, 70, St 125), (97, 102, St 125)] (St 0),
    Case 114 [(46, 46, St 72), (58, 58, St 111), (48, 57, St 115), (65, 70, St 115),
      (97, 102, St 115)] (St 0),
    Case 115 [(48, 57, St 116), (58, 58, St 111), (65, 70, St 116), (97, 102, St 116)] (St 0),
    Case 116 [(48, 57, St 117), (58, 58, St 111), (65, 70, St 117), (97, 102, St 117)] (St 0)]"

definition uri_code_20 :: "uri_code list" where
  "uri_code_20 = [
    Case 117 [(58, 58, St 111)] (St 0),
    Case 118 [(46, 46, St 72), (58, 58, St 111), (48, 57, St 119), (65, 70, St 115),
      (97, 102, St 115)] (St 0),
    Case 119 [(46, 46, St 72), (58, 58, St 111), (48, 57, St 120), (65, 70, St 116),
      (97, 102, St 116)] (St 0),
    Case 120 [(46, 46, St 72), (58, 58, St 111), (48, 57, St 117), (65, 70, St 117),
      (97, 102, St 117)] (St 0),
    Case 121 [(46, 46, St 72), (53, 53, St 123), (58, 58, St 111), (48, 57, St 122),
      (65, 70, St 115), (97, 102, St 115)] (St 0),
    Case 122 [(46, 46, St 72), (58, 58, St 111), (48, 57, St 116), (65, 70, St 116),
      (97, 102, St 116)] (St 0),
    Case 123 [(46, 46, St 72), (58, 58, St 111), (48, 53, St 120), (54, 57, St 116),
      (65, 70, St 116), (97, 102, St 116)] (St 0),
    Case 124 [(46, 46, St 72), (58, 58, St 111), (48, 57, St 122), (65, 70, St 115),
      (97, 102, St 115)] (St 0),
    Case 125 [(48, 57, St 115), (58, 58, St 111), (65, 70, St 115), (97, 102, St 115)] (St 0)]"

definition uri_code_21 :: "uri_code list" where
  "uri_code_21 = [
    Case 126 [(48, 57, St 127), (65, 70, St 127), (97, 102, St 127)] (St 0),
    Case 127 [(48, 57, St 128), (58, 58, St 113), (65, 70, St 128), (97, 102, St 128)] (St 0),
    Case 128 [(48, 57, St 129), (58, 58, St 113), (65, 70, St 129), (97, 102, St 129)] (St 0),
    Case 129 [(48, 57, St 130), (58, 58, St 113), (65, 70, St 130), (97, 102, St 130)] (St 0),
    Case 130 [(58, 58, St 113)] (St 0),
    Case 131 [(48, 57, St 132), (65, 70, St 132), (97, 102, St 132)] (St 0),
    Case 132 [(48, 57, St 133), (58, 58, St 126), (65, 70, St 133), (97, 102, St 133)] (St 0),
    Case 133 [(48, 57, St 134), (58, 58, St 126), (65, 70, St 134), (97, 102, St 134)] (St 0),
    Case 134 [(48, 57, St 135), (58, 58, St 126), (65, 70, St 135), (97, 102, St 135)] (St 0),
    Case 135 [(58, 58, St 126)] (St 0),
    Case 136 [(48, 57, St 137), (65, 70, St 137), (97, 102, St 137)] (St 0)]"

definition uri_code_22 :: "uri_code list" where
  "uri_code_22 = [
    Case 137 [(48, 57, St 138), (58, 58, St 131), (65, 70, St 138), (97, 102, St 138)] (St 0),
    Case 138 [(48, 57, St 139), (58, 58, St 131), (65, 70, St 139), (97, 102, St 139)] (St 0),
    Case 139 [(48, 57, St 140), (58, 58, St 131), (65, 70, St 140), (97, 102, St 140)] (St 0),
    Case 140 [(58, 58, St 131)] (St 0),
    Case 141 [(48, 57, St 142), (65, 70, St 142), (97, 102, St 142)] (St 0),
    Case 142 [(48, 57, St 143), (58, 58, St 136), (65, 70, St 143), (97, 102, St 143)] (St 0),
    Case 143 [(48, 57, St 144), (58, 58, St 136), (65, 70, St 144), (97, 102, St 144)] (St 0),
    Case 144 [(48, 57, St 145), (58, 58, St 136), (65, 70, St 145), (97, 102, St 145)] (St 0),
    Case 145 [(58, 58, St 136)] (St 0),
    Case 146 [(58, 58, St 147)] (St 0),
    Case 147 [(2, 2, St 69), (48, 48, St 148), (49, 49, St 217), (50, 50, St 220),
      (93, 93, St 460), (51, 57, St 223), (65, 70, St 224), (97, 102, St 224)] (St 0)]"

definition uri_code_23 :: "uri_code list" where
  "uri_code_23 = [
    Case 148 [(46, 46, St 72), (58, 58, St 152), (93, 93, St 460), (48, 57, St 149),
      (65, 70, St 149), (97, 102, St 149)] (St 0),
    Case 149 [(58, 58, St 152), (93, 93, St 460), (48, 57, St 150), (65, 70, St 150),
      (97, 102, St 150)] (St 0),
    Case 150 [(58, 58, St 152), (93, 93, St 460), (48, 57, St 151), (65, 70, St 151),
      (97, 102, St 151)] (St 0),
    Case 151 [(58, 58, St 152), (93, 93, St 460)] (St 0),
    Case 152 [(2, 2, St 69), (48, 48, St 153), (49, 49, St 209), (50, 50, St 212),
      (51, 57, St 215), (65, 70, St 216), (97, 102, St 216)] (St 0),
    Case 153 [(46, 46, St 72), (58, 58, St 157), (93, 93, St 460), (48, 57, St 154),
      (65, 70, St 154), (97, 102, St 154)] (St 0),
    Case 154 [(58, 58, St 157), (93, 93, St 460), (48, 57, St 155), (65, 70, St 155),
      (97, 102, St 155)] (St 0),
    Case 155 [(58, 58, St 157), (93, 93, St 460), (48, 57, St 156), (65, 70, St 156),
      (97, 102, St 156)] (St 0),
    Case 156 [(58, 58, St 157), (93, 93, St 460)] (St 0)]"

definition uri_code_24 :: "uri_code list" where
  "uri_code_24 = [
    Case 157 [(2, 2, St 69), (48, 48, St 158), (49, 49, St 201), (50, 50, St 204),
      (51, 57, St 207), (65, 70, St 208), (97, 102, St 208)] (St 0),
    Case 158 [(46, 46, St 72), (58, 58, St 162), (93, 93, St 460), (48, 57, St 159),
      (65, 70, St 159), (97, 102, St 159)] (St 0),
    Case 159 [(58, 58, St 162), (93, 93, St 460), (48, 57, St 160), (65, 70, St 160),
      (97, 102, St 160)] (St 0),
    Case 160 [(58, 58, St 162), (93, 93, St 460), (48, 57, St 161), (65, 70, St 161),
      (97, 102, St 161)] (St 0),
    Case 161 [(58, 58, St 162), (93, 93, St 460)] (St 0),
    Case 162 [(2, 2, St 69), (48, 48, St 163), (49, 49, St 193), (50, 50, St 196),
      (51, 57, St 199), (65, 70, St 200), (97, 102, St 200)] (St 0),
    Case 163 [(46, 46, St 72), (58, 58, St 167), (93, 93, St 460), (48, 57, St 164),
      (65, 70, St 164), (97, 102, St 164)] (St 0),
    Case 164 [(58, 58, St 167), (93, 93, St 460), (48, 57, St 165), (65, 70, St 165),
      (97, 102, St 165)] (St 0),
    Case 165 [(58, 58, St 167), (93, 93, St 460), (48, 57, St 166), (65, 70, St 166),
      (97, 102, St 166)] (St 0)]"

definition uri_code_25 :: "uri_code list" where
  "uri_code_25 = [
    Case 166 [(58, 58, St 167), (93, 93, St 460)] (St 0),
    Case 167 [(2, 2, St 69), (48, 48, St 168), (49, 49, St 185), (50, 50, St 188),
      (51, 57, St 191), (65, 70, St 192), (97, 102, St 192)] (St 0),
    Case 168 [(46, 46, St 72), (58, 58, St 172), (93, 93, St 460), (48, 57, St 169),
      (65, 70, St 169), (97, 102, St 169)] (St 0),
    Case 169 [(58, 58, St 172), (93, 93, St 460), (48, 57, St 170), (65, 70, St 170),
      (97, 102, St 170)] (St 0),
    Case 170 [(58, 58, St 172), (93, 93, St 460), (48, 57, St 171), (65, 70, St 171),
      (97, 102, St 171)] (St 0),
    Case 171 [(58, 58, St 172), (93, 93, St 460)] (St 0),
    Case 172 [(2, 2, St 69), (48, 48, St 173), (49, 49, St 177), (50, 50, St 180),
      (51, 57, St 183), (65, 70, St 184), (97, 102, St 184)] (St 0),
    Case 173 [(46, 46, St 72), (58, 58, St 111), (93, 93, St 460), (48, 57, St 174),
      (65, 70, St 174), (97, 102, St 174)] (St 0),
    Case 174 [(58, 58, St 111), (93, 93, St 460), (48, 57, St 175), (65, 70, St 175),
      (97, 102, St 175)] (St 0)]"

definition uri_code_26 :: "uri_code list" where
  "uri_code_26 = [
    Case 175 [(58, 58, St 111), (93, 93, St 460), (48, 57, St 176), (65, 70, St 176),
      (97, 102, St 176)] (St 0),
    Case 176 [(58, 58, St 111), (93, 93, St 460)] (St 0),
    Case 177 [(46, 46, St 72), (58, 58, St 111), (93, 93, St 460), (48, 57, St 178),
      (65, 70, St 174), (97, 102, St 174)] (St 0),
    Case 178 [(46, 46, St 72), (58, 58, St 111), (93, 93, St 460), (48, 57, St 179),
      (65, 70, St 175), (97, 102, St 175)] (St 0),
    Case 179 [(46, 46, St 72), (58, 58, St 111), (93, 93, St 460), (48, 57, St 176),
      (65, 70, St 176), (97, 102, St 176)] (St 0),
    Case 180 [(46, 46, St 72), (53, 53, St 182), (58, 58, St 111), (93, 93, St 460),
      (48, 57, St 181), (65, 70, St 174), (97, 102, St 174)] (St 0),
    Case 181 [(46, 46, St 72), (58, 58, St 111), (93, 93, St 460), (48, 57, St 175),
      (65, 70, St 175), (97, 102, St 175)] (St 0),
    Case 182 [(46, 46, St 72), (58, 58, St 111), (93, 93, St 460), (48, 53, St 179),
      (54, 57, St 175), (65, 70, St 175), (97, 102, St 175)] (St 0)]"

definition uri_code_27 :: "uri_code list" where
  "uri_code_27 = [
    Case 183 [(46, 46, St 72), (58, 58, St 111), (93, 93, St 460), (48, 57, St 181),
      (65, 70, St 174), (97, 102, St 174)] (St 0),
    Case 184 [(58, 58, St 111), (93, 93, St 460), (48, 57, St 174), (65, 70, St 174),
      (97, 102, St 174)] (St 0),
    Case 185 [(46, 46, St 72), (58, 58, St 172), (93, 93, St 460), (48, 57, St 186),
      (65, 70, St 169), (97, 102, St 169)] (St 0),
    Case 186 [(46, 46, St 72), (58, 58, St 172), (93, 93, St 460), (48, 57, St 187),
      (65, 70, St 170), (97, 102, St 170)] (St 0),
    Case 187 [(46, 46, St 72), (58, 58, St 172), (93, 93, St 460), (48, 57, St 171),
      (65, 70, St 171), (97, 102, St 171)] (St 0),
    Case 188 [(46, 46, St 72), (53, 53, St 190), (58, 58, St 172), (93, 93, St 460),
      (48, 57, St 189), (65, 70, St 169), (97, 102, St 169)] (St 0),
    Case 189 [(46, 46, St 72), (58, 58, St 172), (93, 93, St 460), (48, 57, St 170),
      (65, 70, St 170), (97, 102, St 170)] (St 0),
    Case 190 [(46, 46, St 72), (58, 58, St 172), (93, 93, St 460), (48, 53, St 187),
      (54, 57, St 170), (65, 70, St 170), (97, 102, St 170)] (St 0)]"

definition uri_code_28 :: "uri_code list" where
  "uri_code_28 = [
    Case 191 [(46, 46, St 72), (58, 58, St 172), (93, 93, St 460), (48, 57, St 189),
      (65, 70, St 169), (97, 102, St 169)] (St 0),
    Case 192 [(58, 58, St 172), (93, 93, St 460), (48, 57, St 169), (65, 70, St 169),
      (97, 102, St 169)] (St 0),
    Case 193 [(46, 46, St 72), (58, 58, St 167), (93, 93, St 460), (48, 57, St 194),
      (65, 70, St 164), (97, 102, St 164)] (St 0),
    Case 194 [(46, 46, St 72), (58, 58, St 167), (93, 93, St 460), (48, 57, St 195),
      (65, 70, St 165), (97, 102, St 165)] (St 0),
    Case 195 [(46, 46, St 72), (58, 58, St 167), (93, 93, St 460), (48, 57, St 166),
      (65, 70, St 166), (97, 102, St 166)] (St 0),
    Case 196 [(46, 46, St 72), (53, 53, St 198), (58, 58, St 167), (93, 93, St 460),
      (48, 57, St 197), (65, 70, St 164), (97, 102, St 164)] (St 0),
    Case 197 [(46, 46, St 72), (58, 58, St 167), (93, 93, St 460), (48, 57, St 165),
      (65, 70, St 165), (97, 102, St 165)] (St 0),
    Case 198 [(46, 46, St 72), (58, 58, St 167), (93, 93, St 460), (48, 53, St 195),
      (54, 57, St 165), (65, 70, St 165), (97, 102, St 165)] (St 0)]"

definition uri_code_29 :: "uri_code list" where
  "uri_code_29 = [
    Case 199 [(46, 46, St 72), (58, 58, St 167), (93, 93, St 460), (48, 57, St 197),
      (65, 70, St 164), (97, 102, St 164)] (St 0),
    Case 200 [(58, 58, St 167), (93, 93, St 460), (48, 57, St 164), (65, 70, St 164),
      (97, 102, St 164)] (St 0),
    Case 201 [(46, 46, St 72), (58, 58, St 162), (93, 93, St 460), (48, 57, St 202),
      (65, 70, St 159), (97, 102, St 159)] (St 0),
    Case 202 [(46, 46, St 72), (58, 58, St 162), (93, 93, St 460), (48, 57, St 203),
      (65, 70, St 160), (97, 102, St 160)] (St 0),
    Case 203 [(46, 46, St 72), (58, 58, St 162), (93, 93, St 460), (48, 57, St 161),
      (65, 70, St 161), (97, 102, St 161)] (St 0),
    Case 204 [(46, 46, St 72), (53, 53, St 206), (58, 58, St 162), (93, 93, St 460),
      (48, 57, St 205), (65, 70, St 159), (97, 102, St 159)] (St 0),
    Case 205 [(46, 46, St 72), (58, 58, St 162), (93, 93, St 460), (48, 57, St 160),
      (65, 70, St 160), (97, 102, St 160)] (St 0),
    Case 206 [(46, 46, St 72), (58, 58, St 162), (93, 93, St 460), (48, 53, St 203),
      (54, 57, St 160), (65, 70, St 160), (97, 102, St 160)] (St 0)]"

definition uri_code_30 :: "uri_code list" where
  "uri_code_30 = [
    Case 207 [(46, 46, St 72), (58, 58, St 162), (93, 93, St 460), (48, 57, St 205),
      (65, 70, St 159), (97, 102, St 159)] (St 0),
    Case 208 [(58, 58, St 162), (93, 93, St 460), (48, 57, St 159), (65, 70, St 159),
      (97, 102, St 159)] (St 0),
    Case 209 [(46, 46, St 72), (58, 58, St 157), (93, 93, St 460), (48, 57, St 210),
      (65, 70, St 154), (97, 102, St 154)] (St 0),
    Case 210 [(46, 46, St 72), (58, 58, St 157), (93, 93, St 460), (48, 57, St 211),
      (65, 70, St 155), (97, 102, St 155)] (St 0),
    Case 211 [(46, 46, St 72), (58, 58, St 157), (93, 93, St 460), (48, 57, St 156),
      (65, 70, St 156), (97, 102, St 156)] (St 0),
    Case 212 [(46, 46, St 72), (53, 53, St 214), (58, 58, St 157), (93, 93, St 460),
      (48, 57, St 213), (65, 70, St 154), (97, 102, St 154)] (St 0),
    Case 213 [(46, 46, St 72), (58, 58, St 157), (93, 93, St 460), (48, 57, St 155),
      (65, 70, St 155), (97, 102, St 155)] (St 0),
    Case 214 [(46, 46, St 72), (58, 58, St 157), (93, 93, St 460), (48, 53, St 211),
      (54, 57, St 155), (65, 70, St 155), (97, 102, St 155)] (St 0)]"

definition uri_code_31 :: "uri_code list" where
  "uri_code_31 = [
    Case 215 [(46, 46, St 72), (58, 58, St 157), (93, 93, St 460), (48, 57, St 213),
      (65, 70, St 154), (97, 102, St 154)] (St 0),
    Case 216 [(58, 58, St 157), (93, 93, St 460), (48, 57, St 154), (65, 70, St 154),
      (97, 102, St 154)] (St 0),
    Case 217 [(46, 46, St 72), (58, 58, St 152), (93, 93, St 460), (48, 57, St 218),
      (65, 70, St 149), (97, 102, St 149)] (St 0),
    Case 218 [(46, 46, St 72), (58, 58, St 152), (93, 93, St 460), (48, 57, St 219),
      (65, 70, St 150), (97, 102, St 150)] (St 0),
    Case 219 [(46, 46, St 72), (58, 58, St 152), (93, 93, St 460), (48, 57, St 151),
      (65, 70, St 151), (97, 102, St 151)] (St 0),
    Case 220 [(46, 46, St 72), (53, 53, St 222), (58, 58, St 152), (93, 93, St 460),
      (48, 57, St 221), (65, 70, St 149), (97, 102, St 149)] (St 0),
    Case 221 [(46, 46, St 72), (58, 58, St 152), (93, 93, St 460), (48, 57, St 150),
      (65, 70, St 150), (97, 102, St 150)] (St 0),
    Case 222 [(46, 46, St 72), (58, 58, St 152), (93, 93, St 460), (48, 53, St 219),
      (54, 57, St 150), (65, 70, St 150), (97, 102, St 150)] (St 0)]"

definition uri_code_32 :: "uri_code list" where
  "uri_code_32 = [
    Case 223 [(46, 46, St 72), (58, 58, St 152), (93, 93, St 460), (48, 57, St 221),
      (65, 70, St 149), (97, 102, St 149)] (St 0),
    Case 224 [(58, 58, St 152), (93, 93, St 460), (48, 57, St 149), (65, 70, St 149),
      (97, 102, St 149)] (St 0),
    Case 225 [(48, 57, St 226), (65, 70, St 226), (97, 102, St 226)] (St 0),
    Case 226 [(46, 46, St 227), (48, 57, St 226), (65, 70, St 226), (97, 102, St 226)] (St 0),
    Case 227 [(33, 33, St 228), (36, 36, St 228), (61, 61, St 228), (95, 95, St 228),
      (126, 126, St 228), (38, 46, St 228), (48, 59, St 228), (65, 90, St 228),
      (97, 122, St 228)] (St 0),
    Case 228 [(33, 33, St 228), (36, 36, St 228), (61, 61, St 228), (93, 93, St 460),
      (95, 95, St 228), (126, 126, St 228), (38, 46, St 228), (48, 59, St 228), (65, 90, St 228),
      (97, 122, St 228)] (St 0),
    Label 500 [Set_mark] 489,
    Case 489 [(33, 33, St 33), (35, 35, Go 493), (37, 37, St 34), (47, 47, Go 494),
      (61, 61, St 33), (63, 63, Go 496), (64, 64, Go 38), (95, 95, St 33), (126, 126, St 33),
      (36, 46, St 33), (48, 57, St 489), (58, 59, St 33), (65, 90, St 33), (97, 122, St 33)] (St 0),
    Label 477 [Set_mark] 490]"

definition uri_code_33 :: "uri_code list" where
  "uri_code_33 = [
    Case 490 [(33, 33, St 467), (35, 35, Go 485), (37, 37, St 31), (46, 46, St 491),
      (47, 47, Go 486), (58, 58, Go 499), (61, 61, St 467), (63, 63, Go 488), (64, 64, Go 38),
      (95, 95, St 467), (126, 126, St 467), (36, 59, St 467), (65, 90, St 467),
      (97, 122, St 467)] (St 0),
    Case 491 [(2, 2, St 13), (33, 33, St 467), (35, 35, Go 485), (37, 37, St 31), (47, 47, Go 486),
      (48, 48, St 492), (49, 49, St 500), (50, 50, St 502), (58, 58, Go 499), (59, 59, St 467),
      (61, 61, St 467), (63, 63, Go 488), (64, 64, Go 38), (95, 95, St 467), (126, 126, St 467),
      (36, 46, St 467), (51, 57, St 501), (65, 90, St 467), (97, 122, St 467)] (St 0),
    Case 492 [(33, 33, St 467), (35, 35, Go 485), (37, 37, St 31), (46, 46, St 493),
      (47, 47, Go 486), (58, 58, Go 499), (61, 61, St 467), (63, 63, Go 488), (64, 64, Go 38),
      (95, 95, St 467), (126, 126, St 467), (36, 59, St 467), (65, 90, St 467),
      (97, 122, St 467)] (St 0),
    Case 493 [(2, 2, St 17), (33, 33, St 467), (35, 35, Go 485), (37, 37, St 31), (47, 47, Go 486),
      (48, 48, St 494), (49, 49, St 496), (50, 50, St 498), (58, 58, Go 499), (59, 59, St 467),
      (61, 61, St 467), (63, 63, Go 488), (64, 64, Go 38), (95, 95, St 467), (126, 126, St 467),
      (36, 46, St 467), (51, 57, St 497), (65, 90, St 467), (97, 122, St 467)] (St 0),
    Case 494 [(33, 33, St 467), (35, 35, Go 485), (37, 37, St 31), (46, 46, St 495),
      (47, 47, Go 486), (58, 58, Go 499), (61, 61, St 467), (63, 63, Go 488), (64, 64, Go 38),
      (95, 95, St 467), (126, 126, St 467), (36, 59, St 467), (65, 90, St 467),
      (97, 122, St 467)] (St 0)]"

definition uri_code_34 :: "uri_code list" where
  "uri_code_34 = [
    Case 495 [(2, 2, St 21), (33, 33, St 467), (35, 35, Go 485), (37, 37, St 31), (47, 47, Go 486),
      (58, 58, Go 499), (61, 61, St 467), (63, 63, Go 488), (64, 64, Go 38), (95, 95, St 467),
      (126, 126, St 467), (36, 59, St 467), (65, 90, St 467), (97, 122, St 467)] (St 0),
    Case 496 [(33, 33, St 467), (35, 35, Go 485), (37, 37, St 31), (46, 46, St 495),
      (47, 47, Go 486), (58, 58, Go 499), (59, 59, St 467), (61, 61, St 467), (63, 63, Go 488),
      (64, 64, Go 38), (95, 95, St 467), (126, 126, St 467), (36, 45, St 467), (48, 57, St 497),
      (65, 90, St 467), (97, 122, St 467)] (St 0),
    Case 497 [(33, 33, St 467), (35, 35, Go 485), (37, 37, St 31), (46, 46, St 495),
      (47, 47, Go 486), (58, 58, Go 499), (59, 59, St 467), (61, 61, St 467), (63, 63, Go 488),
      (64, 64, Go 38), (95, 95, St 467), (126, 126, St 467), (36, 45, St 467), (48, 57, St 494),
      (65, 90, St 467), (97, 122, St 467)] (St 0),
    Case 498 [(33, 33, St 467), (35, 35, Go 485), (37, 37, St 31), (46, 46, St 495),
      (47, 47, Go 486), (53, 53, St 499), (58, 58, Go 499), (59, 59, St 467), (61, 61, St 467),
      (63, 63, Go 488), (64, 64, Go 38), (95, 95, St 467), (126, 126, St 467), (36, 45, St 467),
      (48, 57, St 494), (65, 90, St 467), (97, 122, St 467)] (St 0),
    Case 499 [(33, 33, St 467), (35, 35, Go 485), (37, 37, St 31), (46, 46, St 495),
      (47, 47, Go 486), (58, 58, Go 499), (61, 61, St 467), (63, 63, Go 488), (64, 64, Go 38),
      (95, 95, St 467), (126, 126, St 467), (36, 45, St 467), (48, 53, St 494), (54, 59, St 467),
      (65, 90, St 467), (97, 122, St 467)] (St 0)]"

definition uri_code_35 :: "uri_code list" where
  "uri_code_35 = [
    Case 500 [(33, 33, St 467), (35, 35, Go 485), (37, 37, St 31), (46, 46, St 493),
      (47, 47, Go 486), (58, 58, Go 499), (59, 59, St 467), (61, 61, St 467), (63, 63, Go 488),
      (64, 64, Go 38), (95, 95, St 467), (126, 126, St 467), (36, 45, St 467), (48, 57, St 501),
      (65, 90, St 467), (97, 122, St 467)] (St 0),
    Case 501 [(33, 33, St 467), (35, 35, Go 485), (37, 37, St 31), (46, 46, St 493),
      (47, 47, Go 486), (58, 58, Go 499), (59, 59, St 467), (61, 61, St 467), (63, 63, Go 488),
      (64, 64, Go 38), (95, 95, St 467), (126, 126, St 467), (36, 45, St 467), (48, 57, St 492),
      (65, 90, St 467), (97, 122, St 467)] (St 0),
    Case 502 [(33, 33, St 467), (35, 35, Go 485), (37, 37, St 31), (46, 46, St 493),
      (47, 47, Go 486), (53, 53, St 503), (58, 58, Go 499), (59, 59, St 467), (61, 61, St 467),
      (63, 63, Go 488), (64, 64, Go 38), (95, 95, St 467), (126, 126, St 467), (36, 45, St 467),
      (48, 57, St 492), (65, 90, St 467), (97, 122, St 467)] (St 0),
    Case 503 [(33, 33, St 467), (35, 35, Go 485), (37, 37, St 31), (46, 46, St 493),
      (47, 47, Go 486), (58, 58, Go 499), (61, 61, St 467), (63, 63, Go 488), (64, 64, Go 38),
      (95, 95, St 467), (126, 126, St 467), (36, 45, St 467), (48, 53, St 492), (54, 59, St 467),
      (65, 90, St 467), (97, 122, St 467)] (St 0),
    Label 478 [Set_mark] 504]"

definition uri_code_36 :: "uri_code list" where
  "uri_code_36 = [
    Case 504 [(33, 33, St 467), (35, 35, Go 485), (37, 37, St 31), (46, 46, St 491),
      (47, 47, Go 486), (58, 58, Go 499), (59, 59, St 467), (61, 61, St 467), (63, 63, Go 488),
      (64, 64, Go 38), (95, 95, St 467), (126, 126, St 467), (36, 45, St 467), (48, 57, St 505),
      (65, 90, St 467), (97, 122, St 467)] (St 0),
    Label 480 [Set_mark] 505,
    Case 505 [(33, 33, St 467), (35, 35, Go 485), (37, 37, St 31), (46, 46, St 491),
      (47, 47, Go 486), (58, 58, Go 499), (59, 59, St 467), (61, 61, St 467), (63, 63, Go 488),
      (64, 64, Go 38), (95, 95, St 467), (126, 126, St 467), (36, 45, St 467), (48, 57, St 490),
      (65, 90, St 467), (97, 122, St 467)] (St 0),
    Label 479 [Set_mark] 506,
    Case 506 [(33, 33, St 467), (35, 35, Go 485), (37, 37, St 31), (46, 46, St 491),
      (47, 47, Go 486), (53, 53, St 507), (58, 58, Go 499), (59, 59, St 467), (61, 61, St 467),
      (63, 63, Go 488), (64, 64, Go 38), (95, 95, St 467), (126, 126, St 467), (36, 45, St 467),
      (48, 57, St 490), (65, 90, St 467), (97, 122, St 467)] (St 0),
    Case 507 [(33, 33, St 467), (35, 35, Go 485), (37, 37, St 31), (46, 46, St 491),
      (47, 47, Go 486), (58, 58, Go 499), (61, 61, St 467), (63, 63, Go 488), (64, 64, Go 38),
      (95, 95, St 467), (126, 126, St 467), (36, 45, St 467), (48, 53, St 490), (54, 59, St 467),
      (65, 90, St 467), (97, 122, St 467)] (St 0),
    Label 461 [Set_mark] 508]"

definition uri_code_37 :: "uri_code list" where
  "uri_code_37 = [
    Case 508 [(34, 34, St 0), (35, 35, St 453), (37, 37, St 3), (43, 43, St 508), (47, 47, St 455),
      (58, 58, Go 543), (60, 60, St 0), (62, 62, St 0), (63, 63, St 456), (96, 96, St 0),
      (127, 127, St 0), (0, 32, St 0), (45, 57, St 508), (65, 90, St 508), (91, 94, St 0),
      (97, 122, St 508), (123, 125, St 0)] (St 452),
    Label 543 [Save_scheme] 509,
    Case 509 [(34, 34, St 0), (35, 35, St 453), (37, 37, St 5), (47, 47, St 510), (60, 60, St 0),
      (62, 62, St 0), (63, 63, St 456), (96, 96, St 0), (127, 127, St 0), (0, 32, St 0),
      (91, 94, St 0), (123, 125, St 0)] (St 455),
    Case 510 [(34, 34, St 0), (35, 35, St 453), (37, 37, St 5), (47, 47, St 511), (60, 60, St 0),
      (62, 62, St 0), (63, 63, St 456), (96, 96, St 0), (127, 127, St 0), (0, 32, St 0),
      (91, 94, St 0), (123, 125, St 0)] (St 455),
    Case 511 [(2, 2, Go 546), (33, 33, Go 547), (35, 35, Go 548), (37, 37, Go 549),
      (47, 47, Go 550), (48, 48, Go 551), (49, 49, Go 552), (50, 50, Go 553), (58, 58, Go 555),
      (59, 59, Go 547), (61, 61, Go 547), (63, 63, Go 556), (64, 64, Go 557), (91, 91, Go 558),
      (95, 95, Go 547), (126, 126, Go 547), (36, 46, Go 547), (51, 57, Go 554), (65, 90, Go 547),
      (97, 122, Go 547)] (St 0),
    Label 546 [Set_mark] 229,
    Case 229 [(48, 52, St 230)] (St 0),
    Case 230 [(48, 57, St 231)] (St 0),
    Case 231 [(46, 46, St 232)] (St 0)]"

definition uri_code_38 :: "uri_code list" where
  "uri_code_38 = [
    Case 232 [(2, 2, St 233), (48, 48, St 235), (49, 49, St 249), (50, 50, St 251),
      (51, 57, St 250)] (St 0),
    Case 233 [(48, 52, St 234)] (St 0),
    Case 234 [(48, 57, St 235)] (St 0),
    Case 235 [(46, 46, St 236)] (St 0),
    Case 236 [(2, 2, St 237), (48, 48, St 239), (49, 49, St 245), (50, 50, St 247),
      (51, 57, St 246)] (St 0),
    Case 237 [(48, 52, St 238)] (St 0),
    Case 238 [(48, 57, St 239)] (St 0),
    Case 239 [(46, 46, St 240)] (St 0),
    Case 240 [(2, 2, St 241), (48, 48, St 512), (49, 49, St 516), (50, 50, St 518),
      (51, 57, St 517)] (St 0),
    Case 241 [(48, 52, St 242)] (St 0),
    Case 242 [(48, 57, St 512)] (St 0),
    Case 512 [(35, 35, Go 559), (47, 47, Go 560), (58, 58, Go 561), (63, 63, Go 562)] (St 0),
    Label 550 [Set_mark, Save_host] 513,
    Label 567 [Set_mark, Save_port] 513,
    Label 560 [Save_host, Set_mark] 513,
    Label 571 [Save_port, Set_mark] 513]"

definition uri_code_39 :: "uri_code list" where
  "uri_code_39 = [
    Case 513 [(34, 34, St 0), (35, 35, Go 563), (37, 37, St 243), (60, 60, St 0), (62, 62, St 0),
      (63, 63, Go 565), (96, 96, St 0), (127, 127, St 0), (0, 32, St 0), (91, 94, St 0),
      (123, 125, St 0)] (St 513),
    Case 243 [(48, 57, St 244), (65, 70, St 244), (97, 102, St 244)] (St 0),
    Case 244 [(48, 57, St 513), (65, 70, St 513), (97, 102, St 513)] (St 0),
    Label 584 [Set_mark, Save_host] 514,
    Label 561 [Save_host] 514,
    Case 514 [(35, 35, Go 566), (47, 47, Go 567), (63, 63, Go 569), (48, 57, Go 568)] (St 0),
    Label 568 [Set_mark] 515,
    Case 515 [(35, 35, Go 570), (47, 47, Go 571), (63, 63, Go 573), (48, 57, St 515)] (St 0),
    Case 516 [(35, 35, Go 559), (47, 47, Go 560), (58, 58, Go 561), (63, 63, Go 562),
      (48, 57, St 517)] (St 0),
    Case 517 [(35, 35, Go 559), (47, 47, Go 560), (58, 58, Go 561), (63, 63, Go 562),
      (48, 57, St 512)] (St 0),
    Case 518 [(35, 35, Go 559), (47, 47, Go 560), (53, 53, St 519), (58, 58, Go 561),
      (63, 63, Go 562), (48, 57, St 512)] (St 0)]"

definition uri_code_40 :: "uri_code list" where
  "uri_code_40 = [
    Case 519 [(35, 35, Go 559), (47, 47, Go 560), (58, 58, Go 561), (63, 63, Go 562),
      (48, 53, St 512)] (St 0),
    Case 245 [(46, 46, St 240), (48, 57, St 246)] (St 0),
    Case 246 [(46, 46, St 240), (48, 57, St 239)] (St 0),
    Case 247 [(46, 46, St 240), (53, 53, St 248), (48, 57, St 239)] (St 0),
    Case 248 [(46, 46, St 240), (48, 53, St 239)] (St 0),
    Case 249 [(46, 46, St 236), (48, 57, St 250)] (St 0),
    Case 250 [(46, 46, St 236), (48, 57, St 235)] (St 0),
    Case 251 [(46, 46, St 236), (53, 53, St 252), (48, 57, St 235)] (St 0),
    Case 252 [(46, 46, St 236), (48, 53, St 235)] (St 0),
    Label 547 [Set_mark] 520,
    Case 520 [(33, 33, St 520), (35, 35, Go 559), (37, 37, St 253), (47, 47, Go 560),
      (58, 58, Go 576), (61, 61, St 520), (63, 63, Go 562), (64, 64, Go 263), (95, 95, St 520),
      (126, 126, St 520), (36, 59, St 520), (65, 90, St 520), (97, 122, St 520)] (St 0),
    Label 549 [Set_mark] 253,
    Case 253 [(48, 57, St 254), (65, 70, St 254), (97, 102, St 254)] (St 0),
    Case 254 [(48, 57, St 520), (65, 70, St 520), (97, 102, St 520)] (St 0)]"

definition uri_code_41 :: "uri_code list" where
  "uri_code_41 = [
    Label 555 [Set_mark, Save_host] 521,
    Label 576 [Save_host] 521,
    Case 521 [(33, 33, St 255), (35, 35, Go 566), (37, 37, St 256), (47, 47, Go 567),
      (61, 61, St 255), (63, 63, Go 569), (64, 64, Go 263), (95, 95, St 255), (126, 126, St 255),
      (36, 46, St 255), (48, 57, Go 577), (58, 59, St 255), (65, 90, St 255),
      (97, 122, St 255)] (St 0),
    Case 255 [(33, 33, St 255), (37, 37, St 256), (61, 61, St 255), (64, 64, Go 263),
      (95, 95, St 255), (126, 126, St 255), (36, 46, St 255), (48, 59, St 255), (65, 90, St 255),
      (97, 122, St 255)] (St 0),
    Case 256 [(48, 57, St 257), (65, 70, St 257), (97, 102, St 257)] (St 0),
    Case 257 [(48, 57, St 255), (65, 70, St 255), (97, 102, St 255)] (St 0),
    Label 263 [Save_userinfo] 522,
    Label 557 [Set_mark, Save_userinfo] 522]"

definition uri_code_42 :: "uri_code list" where
  "uri_code_42 = [
    Case 522 [(2, 2, Go 546), (33, 33, Go 578), (35, 35, Go 548), (37, 37, Go 579),
      (47, 47, Go 550), (48, 48, Go 580), (49, 49, Go 581), (50, 50, Go 582), (58, 58, Go 584),
      (59, 59, Go 578), (61, 61, Go 578), (63, 63, Go 556), (91, 91, Go 558), (95, 95, Go 578),
      (126, 126, Go 578), (36, 46, Go 578), (51, 57, Go 583), (65, 90, Go 578),
      (97, 122, Go 578)] (St 0),
    Label 578 [Set_mark] 523,
    Case 523 [(33, 33, St 523), (35, 35, Go 559), (37, 37, St 258), (47, 47, Go 560),
      (58, 58, Go 561), (61, 61, St 523), (63, 63, Go 562), (95, 95, St 523), (126, 126, St 523),
      (36, 59, St 523), (65, 90, St 523), (97, 122, St 523)] (St 0),
    Label 579 [Set_mark] 258,
    Case 258 [(48, 57, St 259), (65, 70, St 259), (97, 102, St 259)] (St 0),
    Case 259 [(48, 57, St 523), (65, 70, St 523), (97, 102, St 523)] (St 0),
    Label 580 [Set_mark] 524,
    Case 524 [(33, 33, St 523), (35, 35, Go 559), (37, 37, St 258), (46, 46, St 525),
      (47, 47, Go 560), (58, 58, Go 561), (61, 61, St 523), (63, 63, Go 562), (95, 95, St 523),
      (126, 126, St 523), (36, 59, St 523), (65, 90, St 523), (97, 122, St 523)] (St 0)]"

definition uri_code_43 :: "uri_code list" where
  "uri_code_43 = [
    Case 525 [(2, 2, St 233), (33, 33, St 523), (35, 35, Go 559), (37, 37, St 258),
      (47, 47, Go 560), (48, 48, St 526), (49, 49, St 534), (50, 50, St 536), (58, 58, Go 561),
      (59, 59, St 523), (61, 61, St 523), (63, 63, Go 562), (95, 95, St 523), (126, 126, St 523),
      (36, 46, St 523), (51, 57, St 535), (65, 90, St 523), (97, 122, St 523)] (St 0),
    Case 526 [(33, 33, St 523), (35, 35, Go 559), (37, 37, St 258), (46, 46, St 527),
      (47, 47, Go 560), (58, 58, Go 561), (61, 61, St 523), (63, 63, Go 562), (95, 95, St 523),
      (126, 126, St 523), (36, 59, St 523), (65, 90, St 523), (97, 122, St 523)] (St 0),
    Case 527 [(2, 2, St 237), (33, 33, St 523), (35, 35, Go 559), (37, 37, St 258),
      (47, 47, Go 560), (48, 48, St 528), (49, 49, St 530), (50, 50, St 532), (58, 58, Go 561),
      (59, 59, St 523), (61, 61, St 523), (63, 63, Go 562), (95, 95, St 523), (126, 126, St 523),
      (36, 46, St 523), (51, 57, St 531), (65, 90, St 523), (97, 122, St 523)] (St 0),
    Case 528 [(33, 33, St 523), (35, 35, Go 559), (37, 37, St 258), (46, 46, St 529),
      (47, 47, Go 560), (58, 58, Go 561), (61, 61, St 523), (63, 63, Go 562), (95, 95, St 523),
      (126, 126, St 523), (36, 59, St 523), (65, 90, St 523), (97, 122, St 523)] (St 0),
    Case 529 [(2, 2, St 241), (33, 33, St 523), (35, 35, Go 559), (37, 37, St 258),
      (47, 47, Go 560), (58, 58, Go 561), (61, 61, St 523), (63, 63, Go 562), (95, 95, St 523),
      (126, 126, St 523), (36, 59, St 523), (65, 90, St 523), (97, 122, St 523)] (St 0)]"

definition uri_code_44 :: "uri_code list" where
  "uri_code_44 = [
    Case 530 [(33, 33, St 523), (35, 35, Go 559), (37, 37, St 258), (46, 46, St 529),
      (47, 47, Go 560), (58, 58, Go 561), (59, 59, St 523), (61, 61, St 523), (63, 63, Go 562),
      (95, 95, St 523), (126, 126, St 523), (36, 45, St 523), (48, 57, St 531), (65, 90, St 523),
      (97, 122, St 523)] (St 0),
    Case 531 [(33, 33, St 523), (35, 35, Go 559), (37, 37, St 258), (46, 46, St 529),
      (47, 47, Go 560), (58, 58, Go 561), (59, 59, St 523), (61, 61, St 523), (63, 63, Go 562),
      (95, 95, St 523), (126, 126, St 523), (36, 45, St 523), (48, 57, St 528), (65, 90, St 523),
      (97, 122, St 523)] (St 0),
    Case 532 [(33, 33, St 523), (35, 35, Go 559), (37, 37, St 258), (46, 46, St 529),
      (47, 47, Go 560), (53, 53, St 533), (58, 58, Go 561), (59, 59, St 523), (61, 61, St 523),
      (63, 63, Go 562), (95, 95, St 523), (126, 126, St 523), (36, 45, St 523), (48, 57, St 528),
      (65, 90, St 523), (97, 122, St 523)] (St 0),
    Case 533 [(33, 33, St 523), (35, 35, Go 559), (37, 37, St 258), (46, 46, St 529),
      (47, 47, Go 560), (58, 58, Go 561), (61, 61, St 523), (63, 63, Go 562), (95, 95, St 523),
      (126, 126, St 523), (36, 45, St 523), (48, 53, St 528), (54, 59, St 523), (65, 90, St 523),
      (97, 122, St 523)] (St 0),
    Case 534 [(33, 33, St 523), (35, 35, Go 559), (37, 37, St 258), (46, 46, St 527),
      (47, 47, Go 560), (58, 58, Go 561), (59, 59, St 523), (61, 61, St 523), (63, 63, Go 562),
      (95, 95, St 523), (126, 126, St 523), (36, 45, St 523), (48, 57, St 535), (65, 90, St 523),
      (97, 122, St 523)] (St 0)]"

definition uri_code_45 :: "uri_code list" where
  "uri_code_45 = [
    Case 535 [(33, 33, St 523), (35, 35, Go 559), (37, 37, St 258), (46, 46, St 527),
      (47, 47, Go 560), (58, 58, Go 561), (59, 59, St 523), (61, 61, St 523), (63, 63, Go 562),
      (95, 95, St 523), (126, 126, St 523), (36, 45, St 523), (48, 57, St 526), (65, 90, St 523),
      (97, 122, St 523)] (St 0),
    Case 536 [(33, 33, St 523), (35, 35, Go 559), (37, 37, St 258), (46, 46, St 527),
      (47, 47, Go 560), (53, 53, St 537), (58, 58, Go 561), (59, 59, St 523), (61, 61, St 523),
      (63, 63, Go 562), (95, 95, St 523), (126, 126, St 523), (36, 45, St 523), (48, 57, St 526),
      (65, 90, St 523), (97, 122, St 523)] (St 0),
    Case 537 [(33, 33, St 523), (35, 35, Go 559), (37, 37, St 258), (46, 46, St 527),
      (47, 47, Go 560), (58, 58, Go 561), (61, 61, St 523), (63, 63, Go 562), (95, 95, St 523),
      (126, 126, St 523), (36, 45, St 523), (48, 53, St 526), (54, 59, St 523), (65, 90, St 523),
      (97, 122, St 523)] (St 0),
    Label 581 [Set_mark] 538,
    Case 538 [(33, 33, St 523), (35, 35, Go 559), (37, 37, St 258), (46, 46, St 525),
      (47, 47, Go 560), (58, 58, Go 561), (59, 59, St 523), (61, 61, St 523), (63, 63, Go 562),
      (95, 95, St 523), (126, 126, St 523), (36, 45, St 523), (48, 57, St 539), (65, 90, St 523),
      (97, 122, St 523)] (St 0),
    Label 583 [Set_mark] 539]"

definition uri_code_46 :: "uri_code list" where
  "uri_code_46 = [
    Case 539 [(33, 33, St 523), (35, 35, Go 559), (37, 37, St 258), (46, 46, St 525),
      (47, 47, Go 560), (58, 58, Go 561), (59, 59, St 523), (61, 61, St 523), (63, 63, Go 562),
      (95, 95, St 523), (126, 126, St 523), (36, 45, St 523), (48, 57, St 524), (65, 90, St 523),
      (97, 122, St 523)] (St 0),
    Label 582 [Set_mark] 540,
    Case 540 [(33, 33, St 523), (35, 35, Go 559), (37, 37, St 258), (46, 46, St 525),
      (47, 47, Go 560), (53, 53, St 541), (58, 58, Go 561), (59, 59, St 523), (61, 61, St 523),
      (63, 63, Go 562), (95, 95, St 523), (126, 126, St 523), (36, 45, St 523), (48, 57, St 524),
      (65, 90, St 523), (97, 122, St 523)] (St 0),
    Case 541 [(33, 33, St 523), (35, 35, Go 559), (37, 37, St 258), (46, 46, St 525),
      (47, 47, Go 560), (58, 58, Go 561), (61, 61, St 523), (63, 63, Go 562), (95, 95, St 523),
      (126, 126, St 523), (36, 45, St 523), (48, 53, St 524), (54, 59, St 523), (65, 90, St 523),
      (97, 122, St 523)] (St 0),
    Label 558 [Set_mark] 260,
    Case 260 [(58, 58, St 368), (118, 118, St 447), (48, 57, St 261), (65, 70, St 261),
      (97, 102, St 261)] (St 0),
    Case 261 [(48, 57, St 262), (58, 58, St 265), (65, 70, St 262), (97, 102, St 262)] (St 0),
    Case 262 [(48, 57, St 263), (58, 58, St 265), (65, 70, St 263), (97, 102, St 263)] (St 0)]"

definition uri_code_47 :: "uri_code list" where
  "uri_code_47 = [
    Case 263 [(48, 57, St 264), (58, 58, St 265), (65, 70, St 264), (97, 102, St 264)] (St 0),
    Case 264 [(58, 58, St 265)] (St 0),
    Case 265 [(48, 57, St 266), (58, 58, St 363), (65, 70, St 266), (97, 102, St 266)] (St 0),
    Case 266 [(48, 57, St 267), (58, 58, St 270), (65, 70, St 267), (97, 102, St 267)] (St 0),
    Case 267 [(48, 57, St 268), (58, 58, St 270), (65, 70, St 268), (97, 102, St 268)] (St 0),
    Case 268 [(48, 57, St 269), (58, 58, St 270), (65, 70, St 269), (97, 102, St 269)] (St 0),
    Case 269 [(58, 58, St 270)] (St 0),
    Case 270 [(48, 57, St 271), (58, 58, St 358), (65, 70, St 271), (97, 102, St 271)] (St 0),
    Case 271 [(48, 57, St 272), (58, 58, St 275), (65, 70, St 272), (97, 102, St 272)] (St 0),
    Case 272 [(48, 57, St 273), (58, 58, St 275), (65, 70, St 273), (97, 102, St 273)] (St 0),
    Case 273 [(48, 57, St 274), (58, 58, St 275), (65, 70, St 274), (97, 102, St 274)] (St 0)]"

definition uri_code_48 :: "uri_code list" where
  "uri_code_48 = [
    Case 274 [(58, 58, St 275)] (St 0),
    Case 275 [(48, 57, St 276), (58, 58, St 353), (65, 70, St 276), (97, 102, St 276)] (St 0),
    Case 276 [(48, 57, St 277), (58, 58, St 280), (65, 70, St 277), (97, 102, St 277)] (St 0),
    Case 277 [(48, 57, St 278), (58, 58, St 280), (65, 70, St 278), (97, 102, St 278)] (St 0),
    Case 278 [(48, 57, St 279), (58, 58, St 280), (65, 70, St 279), (97, 102, St 279)] (St 0),
    Case 279 [(58, 58, St 280)] (St 0),
    Case 280 [(48, 57, St 281), (58, 58, St 348), (65, 70, St 281), (97, 102, St 281)] (St 0),
    Case 281 [(48, 57, St 282), (58, 58, St 285), (65, 70, St 282), (97, 102, St 282)] (St 0),
    Case 282 [(48, 57, St 283), (58, 58, St 285), (65, 70, St 283), (97, 102, St 283)] (St 0),
    Case 283 [(48, 57, St 284), (58, 58, St 285), (65, 70, St 284), (97, 102, St 284)] (St 0),
    Case 284 [(58, 58, St 285)] (St 0)]"

definition uri_code_49 :: "uri_code list" where
  "uri_code_49 = [
    Case 285 [(48, 57, St 286), (58, 58, St 335), (65, 70, St 286), (97, 102, St 286)] (St 0),
    Case 286 [(48, 57, St 287), (58, 58, St 290), (65, 70, St 287), (97, 102, St 287)] (St 0),
    Case 287 [(48, 57, St 288), (58, 58, St 290), (65, 70, St 288), (97, 102, St 288)] (St 0),
    Case 288 [(48, 57, St 289), (58, 58, St 290), (65, 70, St 289), (97, 102, St 289)] (St 0),
    Case 289 [(58, 58, St 290)] (St 0),
    Case 290 [(2, 2, St 291), (48, 48, St 318), (49, 49, St 326), (50, 50, St 329),
      (58, 58, St 333), (51, 57, St 332), (65, 70, St 334), (97, 102, St 334)] (St 0),
    Case 291 [(48, 52, St 292)] (St 0),
    Case 292 [(48, 57, St 293)] (St 0),
    Case 293 [(46, 46, St 294)] (St 0),
    Case 294 [(2, 2, St 295), (48, 48, St 297), (49, 49, St 314), (50, 50, St 316),
      (51, 57, St 315)] (St 0),
    Case 295 [(48, 52, St 296)] (St 0),
    Case 296 [(48, 57, St 297)] (St 0),
    Case 297 [(46, 46, St 298)] (St 0)]"

definition uri_code_50 :: "uri_code list" where
  "uri_code_50 = [
    Case 298 [(2, 2, St 299), (48, 48, St 301), (49, 49, St 310), (50, 50, St 312),
      (51, 57, St 311)] (St 0),
    Case 299 [(48, 52, St 300)] (St 0),
    Case 300 [(48, 57, St 301)] (St 0),
    Case 301 [(46, 46, St 302)] (St 0),
    Case 302 [(2, 2, St 303), (48, 48, St 305), (49, 49, St 306), (50, 50, St 308),
      (51, 57, St 307)] (St 0),
    Case 303 [(48, 52, St 304)] (St 0),
    Case 304 [(48, 57, St 305)] (St 0),
    Case 305 [(93, 93, St 512)] (St 0),
    Case 306 [(48, 57, St 307), (93, 93, St 512)] (St 0),
    Case 307 [(48, 57, St 305), (93, 93, St 512)] (St 0),
    Case 308 [(53, 53, St 309), (93, 93, St 512), (48, 57, St 305)] (St 0),
    Case 309 [(48, 53, St 305), (93, 93, St 512)] (St 0),
    Case 310 [(46, 46, St 302), (48, 57, St 311)] (St 0),
    Case 311 [(46, 46, St 302), (48, 57, St 301)] (St 0),
    Case 312 [(46, 46, St 302), (53, 53, St 313), (48, 57, St 301)] (St 0),
    Case 313 [(46, 46, St 302), (48, 53, St 301)] (St 0),
    Case 314 [(46, 46, St 298), (48, 57, St 315)] (St 0)]"

definition uri_code_51 :: "uri_code list" where
  "uri_code_51 = [
    Case 315 [(46, 46, St 298), (48, 57, St 297)] (St 0),
    Case 316 [(46, 46, St 298), (53, 53, St 317), (48, 57, St 297)] (St 0),
    Case 317 [(46, 46, St 298), (48, 53, St 297)] (St 0),
    Case 318 [(46, 46, St 294), (58, 58, St 322), (48, 57, St 319), (65, 70, St 319),
      (97, 102, St 319)] (St 0),
    Case 319 [(48, 57, St 320), (58, 58, St 322), (65, 70, St 320), (97, 102, St 320)] (St 0),
    Case 320 [(48, 57, St 321), (58, 58, St 322), (65, 70, St 321), (97, 102, St 321)] (St 0),
    Case 321 [(58, 58, St 322)] (St 0),
    Case 322 [(48, 57, St 323), (58, 58, St 305), (65, 70, St 323), (97, 102, St 323)] (St 0),
    Case 323 [(48, 57, St 324), (65, 70, St 324), (93, 93, St 512), (97, 102, St 324)] (St 0),
    Case 324 [(48, 57, St 325), (65, 70, St 325), (93, 93, St 512), (97, 102, St 325)] (St 0),
    Case 325 [(48, 57, St 305), (65, 70, St 305), (93, 93, St 512), (97, 102, St 305)] (St 0)]"

definition uri_code_52 :: "uri_code list" where
  "uri_code_52 = [
    Case 326 [(46, 46, St 294), (58, 58, St 322), (48, 57, St 327), (65, 70, St 319),
      (97, 102, St 319)] (St 0),
    Case 327 [(46, 46, St 294), (58, 58, St 322), (48, 57, St 328), (65, 70, St 320),
      (97, 102, St 320)] (St 0),
    Case 328 [(46, 46, St 294), (58, 58, St 322), (48, 57, St 321), (65, 70, St 321),
      (97, 102, St 321)] (St 0),
    Case 329 [(46, 46, St 294), (53, 53, St 331), (58, 58, St 322), (48, 57, St 330),
      (65, 70, St 319), (97, 102, St 319)] (St 0),
    Case 330 [(46, 46, St 294), (58, 58, St 322), (48, 57, St 320), (65, 70, St 320),
      (97, 102, St 320)] (St 0),
    Case 331 [(46, 46, St 294), (58, 58, St 322), (48, 53, St 328), (54, 57, St 320),
      (65, 70, St 320), (97, 102, St 320)] (St 0),
    Case 332 [(46, 46, St 294), (58, 58, St 322), (48, 57, St 330), (65, 70, St 319),
      (97, 102, St 319)] (St 0),
    Case 333 [(48, 57, St 323), (65, 70, St 323), (97, 102, St 323)] (St 0),
    Case 334 [(48, 57, St 319), (58, 58, St 322), (65, 70, St 319), (97, 102, St 319)] (St 0)]"

definition uri_code_53 :: "uri_code list" where
  "uri_code_53 = [
    Case 335 [(2, 2, St 291), (48, 48, St 336), (49, 49, St 340), (50, 50, St 343),
      (51, 57, St 346), (65, 70, St 347), (97, 102, St 347)] (St 0),
    Case 336 [(46, 46, St 294), (58, 58, St 333), (48, 57, St 337), (65, 70, St 337),
      (97, 102, St 337)] (St 0),
    Case 337 [(48, 57, St 338), (58, 58, St 333), (65, 70, St 338), (97, 102, St 338)] (St 0),
    Case 338 [(48, 57, St 339), (58, 58, St 333), (65, 70, St 339), (97, 102, St 339)] (St 0),
    Case 339 [(58, 58, St 333)] (St 0),
    Case 340 [(46, 46, St 294), (58, 58, St 333), (48, 57, St 341), (65, 70, St 337),
      (97, 102, St 337)] (St 0),
    Case 341 [(46, 46, St 294), (58, 58, St 333), (48, 57, St 342), (65, 70, St 338),
      (97, 102, St 338)] (St 0),
    Case 342 [(46, 46, St 294), (58, 58, St 333), (48, 57, St 339), (65, 70, St 339),
      (97, 102, St 339)] (St 0),
    Case 343 [(46, 46, St 294), (53, 53, St 345), (58, 58, St 333), (48, 57, St 344),
      (65, 70, St 337), (97, 102, St 337)] (St 0)]"

definition uri_code_54 :: "uri_code list" where
  "uri_code_54 = [
    Case 344 [(46, 46, St 294), (58, 58, St 333), (48, 57, St 338), (65, 70, St 338),
      (97, 102, St 338)] (St 0),
    Case 345 [(46, 46, St 294), (58, 58, St 333), (48, 53, St 342), (54, 57, St 338),
      (65, 70, St 338), (97, 102, St 338)] (St 0),
    Case 346 [(46, 46, St 294), (58, 58, St 333), (48, 57, St 344), (65, 70, St 337),
      (97, 102, St 337)] (St 0),
    Case 347 [(48, 57, St 337), (58, 58, St 333), (65, 70, St 337), (97, 102, St 337)] (St 0),
    Case 348 [(48, 57, St 349), (65, 70, St 349), (97, 102, St 349)] (St 0),
    Case 349 [(48, 57, St 350), (58, 58, St 335), (65, 70, St 350), (97, 102, St 350)] (St 0),
    Case 350 [(48, 57, St 351), (58, 58, St 335), (65, 70, St 351), (97, 102, St 351)] (St 0),
    Case 351 [(48, 57, St 352), (58, 58, St 335), (65, 70, St 352), (97, 102, St 352)] (St 0),
    Case 352 [(58, 58, St 335)] (St 0),
    Case 353 [(48, 57, St 354), (65, 70, St 354), (97, 102, St 354)] (St 0)]"

definition uri_code_55 :: "uri_code list" where
  "uri_code_55 = [
    Case 354 [(48, 57, St 355), (58, 58, St 348), (65, 70, St 355), (97, 102, St 355)] (St 0),
    Case 355 [(48, 57, St 356), (58, 58, St 348), (65, 70, St 356), (97, 102, St 356)] (St 0),
    Case 356 [(48, 57, St 357), (58, 58, St 348), (65, 70, St 357), (97, 102, St 357)] (St 0),
    Case 357 [(58, 58, St 348)] (St 0),
    Case 358 [(48, 57, St 359), (65, 70, St 359), (97, 102, St 359)] (St 0),
    Case 359 [(48, 57, St 360), (58, 58, St 353), (65, 70, St 360), (97, 102, St 360)] (St 0),
    Case 360 [(48, 57, St 361), (58, 58, St 353), (65, 70, St 361), (97, 102, St 361)] (St 0),
    Case 361 [(48, 57, St 362), (58, 58, St 353), (65, 70, St 362), (97, 102, St 362)] (St 0),
    Case 362 [(58, 58, St 353)] (St 0),
    Case 363 [(48, 57, St 364), (65, 70, St 364), (97, 102, St 364)] (St 0),
    Case 364 [(48, 57, St 365), (58, 58, St 358), (65, 70, St 365), (97, 102, St 365)] (St 0)]"

definition uri_code_56 :: "uri_code list" where
  "uri_code_56 = [
    Case 365 [(48, 57, St 366), (58, 58, St 358), (65, 70, St 366), (97, 102, St 366)] (St 0),
    Case 366 [(48, 57, St 367), (58, 58, St 358), (65, 70, St 367), (97, 102, St 367)] (St 0),
    Case 367 [(58, 58, St 358)] (St 0),
    Case 368 [(58, 58, St 369)] (St 0),
    Case 369 [(2, 2, St 291), (48, 48, St 370), (49, 49, St 439), (50, 50, St 442),
      (93, 93, St 512), (51, 57, St 445), (65, 70, St 446), (97, 102, St 446)] (St 0),
    Case 370 [(46, 46, St 294), (58, 58, St 374), (93, 93, St 512), (48, 57, St 371),
      (65, 70, St 371), (97, 102, St 371)] (St 0),
    Case 371 [(58, 58, St 374), (93, 93, St 512), (48, 57, St 372), (65, 70, St 372),
      (97, 102, St 372)] (St 0),
    Case 372 [(58, 58, St 374), (93, 93, St 512), (48, 57, St 373), (65, 70, St 373),
      (97, 102, St 373)] (St 0),
    Case 373 [(58, 58, St 374), (93, 93, St 512)] (St 0),
    Case 374 [(2, 2, St 291), (48, 48, St 375), (49, 49, St 431), (50, 50, St 434),
      (51, 57, St 437), (65, 70, St 438), (97, 102, St 438)] (St 0)]"

definition uri_code_57 :: "uri_code list" where
  "uri_code_57 = [
    Case 375 [(46, 46, St 294), (58, 58, St 379), (93, 93, St 512), (48, 57, St 376),
      (65, 70, St 376), (97, 102, St 376)] (St 0),
    Case 376 [(58, 58, St 379), (93, 93, St 512), (48, 57, St 377), (65, 70, St 377),
      (97, 102, St 377)] (St 0),
    Case 377 [(58, 58, St 379), (93, 93, St 512), (48, 57, St 378), (65, 70, St 378),
      (97, 102, St 378)] (St 0),
    Case 378 [(58, 58, St 379), (93, 93, St 512)] (St 0),
    Case 379 [(2, 2, St 291), (48, 48, St 380), (49, 49, St 423), (50, 50, St 426),
      (51, 57, St 429), (65, 70, St 430), (97, 102, St 430)] (St 0),
    Case 380 [(46, 46, St 294), (58, 58, St 384), (93, 93, St 512), (48, 57, St 381),
      (65, 70, St 381), (97, 102, St 381)] (St 0),
    Case 381 [(58, 58, St 384), (93, 93, St 512), (48, 57, St 382), (65, 70, St 382),
      (97, 102, St 382)] (St 0),
    Case 382 [(58, 58, St 384), (93, 93, St 512), (48, 57, St 383), (65, 70, St 383),
      (97, 102, St 383)] (St 0),
    Case 383 [(58, 58, St 384), (93, 93, St 512)] (St 0)]"

definition uri_code_58 :: "uri_code list" where
  "uri_code_58 = [
    Case 384 [(2, 2, St 291), (48, 48, St 385), (49, 49, St 415), (50, 50, St 418),
      (51, 57, St 421), (65, 70, St 422), (97, 102, St 422)] (St 0),
    Case 385 [(46, 46, St 294), (58, 58, St 389), (93, 93, St 512), (48, 57, St 386),
      (65, 70, St 386), (97, 102, St 386)] (St 0),
    Case 386 [(58, 58, St 389), (93, 93, St 512), (48, 57, St 387), (65, 70, St 387),
      (97, 102, St 387)] (St 0),
    Case 387 [(58, 58, St 389), (93, 93, St 512), (48, 57, St 388), (65, 70, St 388),
      (97, 102, St 388)] (St 0),
    Case 388 [(58, 58, St 389), (93, 93, St 512)] (St 0),
    Case 389 [(2, 2, St 291), (48, 48, St 390), (49, 49, St 407), (50, 50, St 410),
      (51, 57, St 413), (65, 70, St 414), (97, 102, St 414)] (St 0),
    Case 390 [(46, 46, St 294), (58, 58, St 394), (93, 93, St 512), (48, 57, St 391),
      (65, 70, St 391), (97, 102, St 391)] (St 0),
    Case 391 [(58, 58, St 394), (93, 93, St 512), (48, 57, St 392), (65, 70, St 392),
      (97, 102, St 392)] (St 0),
    Case 392 [(58, 58, St 394), (93, 93, St 512), (48, 57, St 393), (65, 70, St 393),
      (97, 102, St 393)] (St 0)]"

definition uri_code_59 :: "uri_code list" where
  "uri_code_59 = [
    Case 393 [(58, 58, St 394), (93, 93, St 512)] (St 0),
    Case 394 [(2, 2, St 291), (48, 48, St 395), (49, 49, St 399), (50, 50, St 402),
      (51, 57, St 405), (65, 70, St 406), (97, 102, St 406)] (St 0),
    Case 395 [(46, 46, St 294), (58, 58, St 333), (93, 93, St 512), (48, 57, St 396),
      (65, 70, St 396), (97, 102, St 396)] (St 0),
    Case 396 [(58, 58, St 333), (93, 93, St 512), (48, 57, St 397), (65, 70, St 397),
      (97, 102, St 397)] (St 0),
    Case 397 [(58, 58, St 333), (93, 93, St 512), (48, 57, St 398), (65, 70, St 398),
      (97, 102, St 398)] (St 0),
    Case 398 [(58, 58, St 333), (93, 93, St 512)] (St 0),
    Case 399 [(46, 46, St 294), (58, 58, St 333), (93, 93, St 512), (48, 57, St 400),
      (65, 70, St 396), (97, 102, St 396)] (St 0),
    Case 400 [(46, 46, St 294), (58, 58, St 333), (93, 93, St 512), (48, 57, St 401),
      (65, 70, St 397), (97, 102, St 397)] (St 0),
    Case 401 [(46, 46, St 294), (58, 58, St 333), (93, 93, St 512), (48, 57, St 398),
      (65, 70, St 398), (97, 102, St 398)] (St 0)]"

definition uri_code_60 :: "uri_code list" where
  "uri_code_60 = [
    Case 402 [(46, 46, St 294), (53, 53, St 404), (58, 58, St 333), (93, 93, St 512),
      (48, 57, St 403), (65, 70, St 396), (97, 102, St 396)] (St 0),
    Case 403 [(46, 46, St 294), (58, 58, St 333), (93, 93, St 512), (48, 57, St 397),
      (65, 70, St 397), (97, 102, St 397)] (St 0),
    Case 404 [(46, 46, St 294), (58, 58, St 333), (93, 93, St 512), (48, 53, St 401),
      (54, 57, St 397), (65, 70, St 397), (97, 102, St 397)] (St 0),
    Case 405 [(46, 46, St 294), (58, 58, St 333), (93, 93, St 512), (48, 57, St 403),
      (65, 70, St 396), (97, 102, St 396)] (St 0),
    Case 406 [(58, 58, St 333), (93, 93, St 512), (48, 57, St 396), (65, 70, St 396),
      (97, 102, St 396)] (St 0),
    Case 407 [(46, 46, St 294), (58, 58, St 394), (93, 93, St 512), (48, 57, St 408),
      (65, 70, St 391), (97, 102, St 391)] (St 0),
    Case 408 [(46, 46, St 294), (58, 58, St 394), (93, 93, St 512), (48, 57, St 409),
      (65, 70, St 392), (97, 102, St 392)] (St 0),
    Case 409 [(46, 46, St 294), (58, 58, St 394), (93, 93, St 512), (48, 57, St 393),
      (65, 70, St 393), (97, 102, St 393)] (St 0)]"

definition uri_code_61 :: "uri_code list" where
  "uri_code_61 = [
    Case 410 [(46, 46, St 294), (53, 53, St 412), (58, 58, St 394), (93, 93, St 512),
      (48, 57, St 411), (65, 70, St 391), (97, 102, St 391)] (St 0),
    Case 411 [(46, 46, St 294), (58, 58, St 394), (93, 93, St 512), (48, 57, St 392),
      (65, 70, St 392), (97, 102, St 392)] (St 0),
    Case 412 [(46, 46, St 294), (58, 58, St 394), (93, 93, St 512), (48, 53, St 409),
      (54, 57, St 392), (65, 70, St 392), (97, 102, St 392)] (St 0),
    Case 413 [(46, 46, St 294), (58, 58, St 394), (93, 93, St 512), (48, 57, St 411),
      (65, 70, St 391), (97, 102, St 391)] (St 0),
    Case 414 [(58, 58, St 394), (93, 93, St 512), (48, 57, St 391), (65, 70, St 391),
      (97, 102, St 391)] (St 0),
    Case 415 [(46, 46, St 294), (58, 58, St 389), (93, 93, St 512), (48, 57, St 416),
      (65, 70, St 386), (97, 102, St 386)] (St 0),
    Case 416 [(46, 46, St 294), (58, 58, St 389), (93, 93, St 512), (48, 57, St 417),
      (65, 70, St 387), (97, 102, St 387)] (St 0),
    Case 417 [(46, 46, St 294), (58, 58, St 389), (93, 93, St 512), (48, 57, St 388),
      (65, 70, St 388), (97, 102, St 388)] (St 0)]"

definition uri_code_62 :: "uri_code list" where
  "uri_code_62 = [
    Case 418 [(46, 46, St 294), (53, 53, St 420), (58, 58, St 389), (93, 93, St 512),
      (48, 57, St 419), (65, 70, St 386), (97, 102, St 386)] (St 0),
    Case 419 [(46, 46, St 294), (58, 58, St 389), (93, 93, St 512), (48, 57, St 387),
      (65, 70, St 387), (97, 102, St 387)] (St 0),
    Case 420 [(46, 46, St 294), (58, 58, St 389), (93, 93, St 512), (48, 53, St 417),
      (54, 57, St 387), (65, 70, St 387), (97, 102, St 387)] (St 0),
    Case 421 [(46, 46, St 294), (58, 58, St 389), (93, 93, St 512), (48, 57, St 419),
      (65, 70, St 386), (97, 102, St 386)] (St 0),
    Case 422 [(58, 58, St 389), (93, 93, St 512), (48, 57, St 386), (65, 70, St 386),
      (97, 102, St 386)] (St 0),
    Case 423 [(46, 46, St 294), (58, 58, St 384), (93, 93, St 512), (48, 57, St 424),
      (65, 70, St 381), (97, 102, St 381)] (St 0),
    Case 424 [(46, 46, St 294), (58, 58, St 384), (93, 93, St 512), (48, 57, St 425),
      (65, 70, St 382), (97, 102, St 382)] (St 0),
    Case 425 [(46, 46, St 294), (58, 58, St 384), (93, 93, St 512), (48, 57, St 383),
      (65, 70, St 383), (97, 102, St 383)] (St 0)]"

definition uri_code_63 :: "uri_code list" where
  "uri_code_63 = [
    Case 426 [(46, 46, St 294), (53, 53, St 428), (58, 58, St 384), (93, 93, St 512),
      (48, 57, St 427), (65, 70, St 381), (97, 102, St 381)] (St 0),
    Case 427 [(46, 46, St 294), (58, 58, St 384), (93, 93, St 512), (48, 57, St 382),
      (65, 70, St 382), (97, 102, St 382)] (St 0),
    Case 428 [(46, 46, St 294), (58, 58, St 384), (93, 93, St 512), (48, 53, St 425),
      (54, 57, St 382), (65, 70, St 382), (97, 102, St 382)] (St 0),
    Case 429 [(46, 46, St 294), (58, 58, St 384), (93, 93, St 512), (48, 57, St 427),
      (65, 70, St 381), (97, 102, St 381)] (St 0),
    Case 430 [(58, 58, St 384), (93, 93, St 512), (48, 57, St 381), (65, 70, St 381),
      (97, 102, St 381)] (St 0),
    Case 431 [(46, 46, St 294), (58, 58, St 379), (93, 93, St 512), (48, 57, St 432),
      (65, 70, St 376), (97, 102, St 376)] (St 0),
    Case 432 [(46, 46, St 294), (58, 58, St 379), (93, 93, St 512), (48, 57, St 433),
      (65, 70, St 377), (97, 102, St 377)] (St 0),
    Case 433 [(46, 46, St 294), (58, 58, St 379), (93, 93, St 512), (48, 57, St 378),
      (65, 70, St 378), (97, 102, St 378)] (St 0)]"

definition uri_code_64 :: "uri_code list" where
  "uri_code_64 = [
    Case 434 [(46, 46, St 294), (53, 53, St 436), (58, 58, St 379), (93, 93, St 512),
      (48, 57, St 435), (65, 70, St 376), (97, 102, St 376)] (St 0),
    Case 435 [(46, 46, St 294), (58, 58, St 379), (93, 93, St 512), (48, 57, St 377),
      (65, 70, St 377), (97, 102, St 377)] (St 0),
    Case 436 [(46, 46, St 294), (58, 58, St 379), (93, 93, St 512), (48, 53, St 433),
      (54, 57, St 377), (65, 70, St 377), (97, 102, St 377)] (St 0),
    Case 437 [(46, 46, St 294), (58, 58, St 379), (93, 93, St 512), (48, 57, St 435),
      (65, 70, St 376), (97, 102, St 376)] (St 0),
    Case 438 [(58, 58, St 379), (93, 93, St 512), (48, 57, St 376), (65, 70, St 376),
      (97, 102, St 376)] (St 0),
    Case 439 [(46, 46, St 294), (58, 58, St 374), (93, 93, St 512), (48, 57, St 440),
      (65, 70, St 371), (97, 102, St 371)] (St 0),
    Case 440 [(46, 46, St 294), (58, 58, St 374), (93, 93, St 512), (48, 57, St 441),
      (65, 70, St 372), (97, 102, St 372)] (St 0),
    Case 441 [(46, 46, St 294), (58, 58, St 374), (93, 93, St 512), (48, 57, St 373),
      (65, 70, St 373), (97, 102, St 373)] (St 0)]"

definition uri_code_65 :: "uri_code list" where
  "uri_code_65 = [
    Case 442 [(46, 46, St 294), (53, 53, St 444), (58, 58, St 374), (93, 93, St 512),
      (48, 57, St 443), (65, 70, St 371), (97, 102, St 371)] (St 0),
    Case 443 [(46, 46, St 294), (58, 58, St 374), (93, 93, St 512), (48, 57, St 372),
      (65, 70, St 372), (97, 102, St 372)] (St 0),
    Case 444 [(46, 46, St 294), (58, 58, St 374), (93, 93, St 512), (48, 53, St 441),
      (54, 57, St 372), (65, 70, St 372), (97, 102, St 372)] (St 0),
    Case 445 [(46, 46, St 294), (58, 58, St 374), (93, 93, St 512), (48, 57, St 443),
      (65, 70, St 371), (97, 102, St 371)] (St 0),
    Case 446 [(58, 58, St 374), (93, 93, St 512), (48, 57, St 371), (65, 70, St 371),
      (97, 102, St 371)] (St 0),
    Case 447 [(48, 57, St 448), (65, 70, St 448), (97, 102, St 448)] (St 0),
    Case 448 [(46, 46, St 449), (48, 57, St 448), (65, 70, St 448), (97, 102, St 448)] (St 0),
    Case 449 [(33, 33, St 450), (36, 36, St 450), (61, 61, St 450), (95, 95, St 450),
      (126, 126, St 450), (38, 46, St 450), (48, 59, St 450), (65, 90, St 450),
      (97, 122, St 450)] (St 0)]"

definition uri_code_66 :: "uri_code list" where
  "uri_code_66 = [
    Case 450 [(33, 33, St 450), (36, 36, St 450), (61, 61, St 450), (93, 93, St 512),
      (95, 95, St 450), (126, 126, St 450), (38, 46, St 450), (48, 59, St 450), (65, 90, St 450),
      (97, 122, St 450)] (St 0),
    Label 577 [Set_mark] 542,
    Case 542 [(33, 33, St 255), (35, 35, Go 570), (37, 37, St 256), (47, 47, Go 571),
      (61, 61, St 255), (63, 63, Go 573), (64, 64, Go 263), (95, 95, St 255), (126, 126, St 255),
      (36, 46, St 255), (48, 57, St 542), (58, 59, St 255), (65, 90, St 255),
      (97, 122, St 255)] (St 0),
    Label 551 [Set_mark] 543,
    Case 543 [(33, 33, St 520), (35, 35, Go 559), (37, 37, St 253), (46, 46, St 544),
      (47, 47, Go 560), (58, 58, Go 576), (61, 61, St 520), (63, 63, Go 562), (64, 64, Go 263),
      (95, 95, St 520), (126, 126, St 520), (36, 59, St 520), (65, 90, St 520),
      (97, 122, St 520)] (St 0),
    Case 544 [(2, 2, St 233), (33, 33, St 520), (35, 35, Go 559), (37, 37, St 253),
      (47, 47, Go 560), (48, 48, St 545), (49, 49, St 553), (50, 50, St 555), (58, 58, Go 576),
      (59, 59, St 520), (61, 61, St 520), (63, 63, Go 562), (64, 64, Go 263), (95, 95, St 520),
      (126, 126, St 520), (36, 46, St 520), (51, 57, St 554), (65, 90, St 520),
      (97, 122, St 520)] (St 0),
    Case 545 [(33, 33, St 520), (35, 35, Go 559), (37, 37, St 253), (46, 46, St 546),
      (47, 47, Go 560), (58, 58, Go 576), (61, 61, St 520), (63, 63, Go 562), (64, 64, Go 263),
      (95, 95, St 520), (126, 126, St 520), (36, 59, St 520), (65, 90, St 520),
      (97, 122, St 520)] (St 0)]"

definition uri_code_67 :: "uri_code list" where
  "uri_code_67 = [
    Case 546 [(2, 2, St 237), (33, 33, St 520), (35, 35, Go 559), (37, 37, St 253),
      (47, 47, Go 560), (48, 48, St 547), (49, 49, St 549), (50, 50, St 551), (58, 58, Go 576),
      (59, 59, St 520), (61, 61, St 520), (63, 63, Go 562), (64, 64, Go 263), (95, 95, St 520),
      (126, 126, St 520), (36, 46, St 520), (51, 57, St 550), (65, 90, St 520),
      (97, 122, St 520)] (St 0),
    Case 547 [(33, 33, St 520), (35, 35, Go 559), (37, 37, St 253), (46, 46, St 548),
      (47, 47, Go 560), (58, 58, Go 576), (61, 61, St 520), (63, 63, Go 562), (64, 64, Go 263),
      (95, 95, St 520), (126, 126, St 520), (36, 59, St 520), (65, 90, St 520),
      (97, 122, St 520)] (St 0),
    Case 548 [(2, 2, St 241), (33, 33, St 520), (35, 35, Go 559), (37, 37, St 253),
      (47, 47, Go 560), (58, 58, Go 576), (61, 61, St 520), (63, 63, Go 562), (64, 64, Go 263),
      (95, 95, St 520), (126, 126, St 520), (36, 59, St 520), (65, 90, St 520),
      (97, 122, St 520)] (St 0),
    Case 549 [(33, 33, St 520), (35, 35, Go 559), (37, 37, St 253), (46, 46, St 548),
      (47, 47, Go 560), (58, 58, Go 576), (59, 59, St 520), (61, 61, St 520), (63, 63, Go 562),
      (64, 64, Go 263), (95, 95, St 520), (126, 126, St 520), (36, 45, St 520), (48, 57, St 550),
      (65, 90, St 520), (97, 122, St 520)] (St 0),
    Case 550 [(33, 33, St 520), (35, 35, Go 559), (37, 37, St 253), (46, 46, St 548),
      (47, 47, Go 560), (58, 58, Go 576), (59, 59, St 520), (61, 61, St 520), (63, 63, Go 562),
      (64, 64, Go 263), (95, 95, St 520), (126, 126, St 520), (36, 45, St 520), (48, 57, St 547),
      (65, 90, St 520), (97, 122, St 520)] (St 0)]"

definition uri_code_68 :: "uri_code list" where
  "uri_code_68 = [
    Case 551 [(33, 33, St 520), (35, 35, Go 559), (37, 37, St 253), (46, 46, St 548),
      (47, 47, Go 560), (53, 53, St 552), (58, 58, Go 576), (59, 59, St 520), (61, 61, St 520),
      (63, 63, Go 562), (64, 64, Go 263), (95, 95, St 520), (126, 126, St 520), (36, 45, St 520),
      (48, 57, St 547), (65, 90, St 520), (97, 122, St 520)] (St 0),
    Case 552 [(33, 33, St 520), (35, 35, Go 559), (37, 37, St 253), (46, 46, St 548),
      (47, 47, Go 560), (58, 58, Go 576), (61, 61, St 520), (63, 63, Go 562), (64, 64, Go 263),
      (95, 95, St 520), (126, 126, St 520), (36, 45, St 520), (48, 53, St 547), (54, 59, St 520),
      (65, 90, St 520), (97, 122, St 520)] (St 0),
    Case 553 [(33, 33, St 520), (35, 35, Go 559), (37, 37, St 253), (46, 46, St 546),
      (47, 47, Go 560), (58, 58, Go 576), (59, 59, St 520), (61, 61, St 520), (63, 63, Go 562),
      (64, 64, Go 263), (95, 95, St 520), (126, 126, St 520), (36, 45, St 520), (48, 57, St 554),
      (65, 90, St 520), (97, 122, St 520)] (St 0),
    Case 554 [(33, 33, St 520), (35, 35, Go 559), (37, 37, St 253), (46, 46, St 546),
      (47, 47, Go 560), (58, 58, Go 576), (59, 59, St 520), (61, 61, St 520), (63, 63, Go 562),
      (64, 64, Go 263), (95, 95, St 520), (126, 126, St 520), (36, 45, St 520), (48, 57, St 545),
      (65, 90, St 520), (97, 122, St 520)] (St 0)]"

definition uri_code_69 :: "uri_code list" where
  "uri_code_69 = [
    Case 555 [(33, 33, St 520), (35, 35, Go 559), (37, 37, St 253), (46, 46, St 546),
      (47, 47, Go 560), (53, 53, St 556), (58, 58, Go 576), (59, 59, St 520), (61, 61, St 520),
      (63, 63, Go 562), (64, 64, Go 263), (95, 95, St 520), (126, 126, St 520), (36, 45, St 520),
      (48, 57, St 545), (65, 90, St 520), (97, 122, St 520)] (St 0),
    Case 556 [(33, 33, St 520), (35, 35, Go 559), (37, 37, St 253), (46, 46, St 546),
      (47, 47, Go 560), (58, 58, Go 576), (61, 61, St 520), (63, 63, Go 562), (64, 64, Go 263),
      (95, 95, St 520), (126, 126, St 520), (36, 45, St 520), (48, 53, St 545), (54, 59, St 520),
      (65, 90, St 520), (97, 122, St 520)] (St 0),
    Label 552 [Set_mark] 557,
    Case 557 [(33, 33, St 520), (35, 35, Go 559), (37, 37, St 253), (46, 46, St 544),
      (47, 47, Go 560), (58, 58, Go 576), (59, 59, St 520), (61, 61, St 520), (63, 63, Go 562),
      (64, 64, Go 263), (95, 95, St 520), (126, 126, St 520), (36, 45, St 520), (48, 57, St 558),
      (65, 90, St 520), (97, 122, St 520)] (St 0),
    Label 554 [Set_mark] 558,
    Case 558 [(33, 33, St 520), (35, 35, Go 559), (37, 37, St 253), (46, 46, St 544),
      (47, 47, Go 560), (58, 58, Go 576), (59, 59, St 520), (61, 61, St 520), (63, 63, Go 562),
      (64, 64, Go 263), (95, 95, St 520), (126, 126, St 520), (36, 45, St 520), (48, 57, St 543),
      (65, 90, St 520), (97, 122, St 520)] (St 0),
    Label 553 [Set_mark] 559]"

definition uri_code_70 :: "uri_code list" where
  "uri_code_70 = [
    Case 559 [(33, 33, St 520), (35, 35, Go 559), (37, 37, St 253), (46, 46, St 544),
      (47, 47, Go 560), (53, 53, St 560), (58, 58, Go 576), (59, 59, St 520), (61, 61, St 520),
      (63, 63, Go 562), (64, 64, Go 263), (95, 95, St 520), (126, 126, St 520), (36, 45, St 520),
      (48, 57, St 543), (65, 90, St 520), (97, 122, St 520)] (St 0),
    Case 560 [(33, 33, St 520), (35, 35, Go 559), (37, 37, St 253), (46, 46, St 544),
      (47, 47, Go 560), (58, 58, Go 576), (61, 61, St 520), (63, 63, Go 562), (64, 64, Go 263),
      (95, 95, St 520), (126, 126, St 520), (36, 45, St 520), (48, 53, St 543), (54, 59, St 520),
      (65, 90, St 520), (97, 122, St 520)] (St 0)]"

definition uri_program :: "uri_code list list" where
  "uri_program = [
    uri_code_1, uri_code_2, uri_code_3, uri_code_4, uri_code_5, uri_code_6, uri_code_7, uri_code_8,
     uri_code_9, uri_code_10, uri_code_11, uri_code_12, uri_code_13, uri_code_14, uri_code_15,
     uri_code_16, uri_code_17, uri_code_18, uri_code_19, uri_code_20, uri_code_21, uri_code_22,
     uri_code_23, uri_code_24, uri_code_25, uri_code_26, uri_code_27, uri_code_28, uri_code_29,
     uri_code_30, uri_code_31, uri_code_32, uri_code_33, uri_code_34, uri_code_35, uri_code_36,
     uri_code_37, uri_code_38, uri_code_39, uri_code_40, uri_code_41, uri_code_42, uri_code_43,
     uri_code_44, uri_code_45, uri_code_46, uri_code_47, uri_code_48, uri_code_49, uri_code_50,
     uri_code_51, uri_code_52, uri_code_53, uri_code_54, uri_code_55, uri_code_56, uri_code_57,
     uri_code_58, uri_code_59, uri_code_60, uri_code_61, uri_code_62, uri_code_63, uri_code_64,
     uri_code_65, uri_code_66, uri_code_67, uri_code_68, uri_code_69, uri_code_70]"

text \<open>The actions at the end of the text, by the state it ends in.\<close>

definition uri_eof :: "(int list \<times> uri_action list) list" where
  "uri_eof = [
    ([462, 489],
      [Save_port]),
    ([460, 463, 464, 465, 466, 467, 470, 471, 472, 473, 474, 475, 476, 477, 478, 479, 480, 481,
     482, 483, 484, 485, 486, 487, 488, 490, 491, 492, 493, 494, 495, 496, 497, 498, 499, 500, 501,
     502, 503, 504, 505, 506, 507],
      [Save_host]),
    ([513],
      [Save_path]),
    ([457],
      [Save_query]),
    ([454],
      [Save_fragment]),
    ([456],
      [Set_mark, Save_query]),
    ([453],
      [Set_mark, Save_fragment]),
    ([461, 468],
      [Set_mark, Save_port]),
    ([459, 469],
      [Set_mark, Save_host]),
    ([514, 521],
      [Set_mark, Save_port, Save_path]),
    ([511, 522],
      [Set_mark, Save_host, Save_path]),
    ([515, 542],
      [Save_port, Set_mark, Save_path]),
    ([512, 516, 517, 518, 519, 520, 523, 524, 525, 526, 527, 528, 529, 530, 531, 532, 533, 534,
     535, 536, 537, 538, 539, 540, 541, 543, 544, 545, 546, 547, 548, 549, 550, 551, 552, 553, 554,
     555, 556, 557, 558, 559, 560],
      [Save_host, Set_mark, Save_path])]"

end
