(* ===== verification/UriMachine.thy ===== *)
theory UriMachine
  imports Uris UriTables
begin

text \<open>
  \<open>Uri::Create\<close> of \<open>src/Http/Uri.cc\<close>: the machine that runs the automaton of \<open>UriTables\<close> over the text, with
  the pointer \<open>mark\<close> and the URI it fills. A position stands for a pointer into the text. A string
  made from a null mark is undefined behaviour, as is \<open>atoi\<close> of a number that is no \<open>int\<close>.
\<close>

section \<open>The machine\<close>

fun find_first :: "('a \<Rightarrow> 'b option) \<Rightarrow> 'a list \<Rightarrow> 'b option" where
  "find_first f [] = None"
| "find_first f (x # xs) = (case f x of None \<Rightarrow> find_first f xs | Some y \<Rightarrow> Some y)"

fun case_of :: "int \<Rightarrow> uri_code list \<Rightarrow> ((int \<times> int \<times> uri_goto) list \<times> uri_goto) option" where
  "case_of s [] = None"
| "case_of s (Case n rows d # p) = (if n = s then Some (rows, d) else case_of s p)"
| "case_of s (Label n acts t # p) = case_of s p"

fun label_of :: "int \<Rightarrow> uri_code list \<Rightarrow> (uri_action list \<times> int) option" where
  "label_of s [] = None"
| "label_of s (Case n rows d # p) = label_of s p"
| "label_of s (Label n acts t # p) = (if n = s then Some (acts, t) else label_of s p)"

fun pick_goto :: "(int \<times> int \<times> uri_goto) list \<Rightarrow> uri_goto \<Rightarrow> int \<Rightarrow> uri_goto" where
  "pick_goto [] d c = d"
| "pick_goto ((lo, hi, g) # rows) d c = (if lo \<le> c \<and> c \<le> hi then g else pick_goto rows d c)"

fun follow :: "uri_goto \<Rightarrow> uri_action list \<times> int" where
  "follow (St n) = ([], n)"
| "follow (Go n) = (case find_first (label_of n) uri_program of None \<Rightarrow> ([], 0) | Some e \<Rightarrow> e)"

definition uri_edge :: "int \<Rightarrow> int \<Rightarrow> uri_action list \<times> int" where
  "uri_edge s c =
     (case find_first (case_of s) uri_program of
        None \<Rightarrow> ([], 0)
      | Some (rows, d) \<Rightarrow> follow (pick_goto rows d c))"

definition signed_char :: "char \<Rightarrow> int" where
  "signed_char c = (let n = int (code c) in if n < 128 then n else n - 256)"

section \<open>Actions\<close>

definition c_atoi :: "string \<Rightarrow> int option" where
  "c_atoi s =
     (let s = dropWhile (\<lambda>c. is_space (code c)) s;
          neg = (s \<noteq> [] \<and> hd s = CHR ''-'');
          s = (if s \<noteq> [] \<and> (hd s = CHR ''-'' \<or> hd s = CHR ''+'') then tl s else s);
          n = int (dec_value (takeWhile (\<lambda>c. is_digit (code c)) s));
          v = (if neg then - n else n)
      in if - 2147483648 \<le> v \<and> v \<le> 2147483647 then Some v else None)"

type_synonym uri_state = "nat option \<times> uri"

fun uri_act :: "string \<Rightarrow> nat \<Rightarrow> uri_action \<Rightarrow> uri_state \<Rightarrow> uri_state option" where
  "uri_act text p Set_mark (m, u) = Some (Some p, u)"
| "uri_act text p Save_scheme (m, u) =
     map_option (\<lambda>q. (None, u\<lparr>u_scheme := take (p - q) (drop q text)\<rparr>)) m"
| "uri_act text p Save_userinfo (m, u) =
     Some (None, case m of None \<Rightarrow> u | Some q \<Rightarrow> u\<lparr>u_userinfo := take (p - q) (drop q text)\<rparr>)"
| "uri_act text p Save_host (m, u) =
     Some (m, case m of None \<Rightarrow> u | Some q \<Rightarrow> u\<lparr>u_host := take (p - q) (drop q text)\<rparr>)"
| "uri_act text p Save_port (m, u) =
     (case m of
        None \<Rightarrow> None
      | Some q \<Rightarrow> if p \<noteq> q then map_option (\<lambda>v. (None, u\<lparr>u_port := v\<rparr>)) (c_atoi (drop q text))
                 else Some (None, u))"
| "uri_act text p Save_path (m, u) =
     map_option (\<lambda>q. (None, u\<lparr>u_path := take (p - q) (drop q text)\<rparr>)) m"
| "uri_act text p Save_query (m, u) =
     map_option (\<lambda>q. (None, u\<lparr>u_query := take (p - q) (drop q text)\<rparr>)) m"
| "uri_act text p Save_fragment (m, u) =
     map_option (\<lambda>q. (None, u\<lparr>u_fragment := take (p - q) (drop q text)\<rparr>)) m"

fun uri_acts :: "string \<Rightarrow> nat \<Rightarrow> uri_action list \<Rightarrow> uri_state \<Rightarrow> uri_state option" where
  "uri_acts text p [] st = Some st"
| "uri_acts text p (a # as) st =
     (case uri_act text p a st of None \<Rightarrow> None | Some st \<Rightarrow> uri_acts text p as st)"

definition eof_actions :: "int \<Rightarrow> uri_action list" where
  "eof_actions s =
     (case find_first (\<lambda>(ss, as). if s \<in> set ss then Some as else None) uri_eof of
        None \<Rightarrow> [] | Some as \<Rightarrow> as)"

section \<open>Running it\<close>

datatype uri_result = Uri_null | Uri_made uri | Uri_undefined

definition uri_parser_start :: int where "uri_parser_start = 451"
definition uri_parser_first_final :: int where "uri_parser_first_final = 451"
definition uri_parser_error :: int where "uri_parser_error = 0"

fun uri_exec :: "string \<Rightarrow> nat \<Rightarrow> string \<Rightarrow> int \<Rightarrow> uri_state \<Rightarrow> uri_result" where
  "uri_exec text p [] s st =
     (case uri_acts text p (eof_actions s) st of
        None \<Rightarrow> Uri_undefined
      | Some (m, u) \<Rightarrow> if s \<ge> uri_parser_first_final then Uri_made u else Uri_null)"
| "uri_exec text p (c # cs) s st =
     (case uri_edge s (signed_char c) of (as, t) \<Rightarrow>
        if t = uri_parser_error then Uri_null
        else case uri_acts text p as st of
               None \<Rightarrow> Uri_undefined
             | Some st \<Rightarrow> uri_exec text (Suc p) cs t st)"

definition Uri_Create :: "string \<Rightarrow> uri_result" where
  "Uri_Create text = uri_exec text 0 text uri_parser_start (None, Uri_new)"

section \<open>Looking up a state\<close>

text \<open>
  Each block as a chain of comparisons, so that the simplifier reads off a state or a label without
  unfolding the rest of the table.
\<close>

lemmas uri_code_defs =
  uri_code_1_def uri_code_2_def uri_code_3_def uri_code_4_def uri_code_5_def uri_code_6_def
  uri_code_7_def uri_code_8_def uri_code_9_def uri_code_10_def uri_code_11_def uri_code_12_def
  uri_code_13_def uri_code_14_def uri_code_15_def uri_code_16_def uri_code_17_def
  uri_code_18_def uri_code_19_def uri_code_20_def uri_code_21_def uri_code_22_def
  uri_code_23_def uri_code_24_def uri_code_25_def uri_code_26_def uri_code_27_def
  uri_code_28_def uri_code_29_def uri_code_30_def uri_code_31_def uri_code_32_def
  uri_code_33_def uri_code_34_def uri_code_35_def uri_code_36_def uri_code_37_def
  uri_code_38_def uri_code_39_def uri_code_40_def uri_code_41_def uri_code_42_def
  uri_code_43_def uri_code_44_def uri_code_45_def uri_code_46_def uri_code_47_def
  uri_code_48_def uri_code_49_def uri_code_50_def uri_code_51_def uri_code_52_def
  uri_code_53_def uri_code_54_def uri_code_55_def uri_code_56_def uri_code_57_def
  uri_code_58_def uri_code_59_def uri_code_60_def uri_code_61_def uri_code_62_def
  uri_code_63_def uri_code_64_def uri_code_65_def uri_code_66_def uri_code_67_def
  uri_code_68_def uri_code_69_def uri_code_70_def

lemmas case_blocks =
  uri_code_defs [THEN arg_cong [where f = "case_of s"], unfolded case_of.simps] for s

lemmas label_blocks =
  uri_code_defs [THEN arg_cong [where f = "label_of s"], unfolded label_of.simps] for s

lemma follow_labels:
  "follow (Go 38) = ([Save_userinfo], 469)"
  "follow (Go 263) = ([Save_userinfo], 522)"
  "follow (Go 461) = ([Set_mark], 508)"
  "follow (Go 462) = ([Set_mark], 454)"
  "follow (Go 463) = ([Set_mark], 1)"
  "follow (Go 466) = ([Set_mark], 457)"
  "follow (Go 467) = ([Set_mark, Save_query], 453)"
  "follow (Go 468) = ([Set_mark], 7)"
  "follow (Go 469) = ([Save_query], 453)"
  "follow (Go 472) = ([Set_mark], 9)"
  "follow (Go 473) = ([Set_mark], 467)"
  "follow (Go 474) = ([Set_mark, Save_host], 453)"
  "follow (Go 475) = ([Set_mark], 31)"
  "follow (Go 476) = ([Set_mark, Save_host], 455)"
  "follow (Go 477) = ([Set_mark], 490)"
  "follow (Go 478) = ([Set_mark], 504)"
  "follow (Go 479) = ([Set_mark], 506)"
  "follow (Go 480) = ([Set_mark], 505)"
  "follow (Go 481) = ([Set_mark, Save_host], 468)"
  "follow (Go 482) = ([Set_mark, Save_host], 456)"
  "follow (Go 483) = ([Set_mark, Save_userinfo], 469)"
  "follow (Go 484) = ([Set_mark], 38)"
  "follow (Go 485) = ([Save_host], 453)"
  "follow (Go 486) = ([Save_host], 455)"
  "follow (Go 487) = ([Save_host], 461)"
  "follow (Go 488) = ([Save_host], 456)"
  "follow (Go 489) = ([Set_mark, Save_port], 453)"
  "follow (Go 490) = ([Set_mark, Save_port], 455)"
  "follow (Go 491) = ([Set_mark], 462)"
  "follow (Go 492) = ([Set_mark, Save_port], 456)"
  "follow (Go 493) = ([Save_port], 453)"
  "follow (Go 494) = ([Save_port], 455)"
  "follow (Go 496) = ([Save_port], 456)"
  "follow (Go 499) = ([Save_host], 468)"
  "follow (Go 500) = ([Set_mark], 489)"
  "follow (Go 501) = ([Set_mark], 470)"
  "follow (Go 502) = ([Set_mark], 36)"
  "follow (Go 503) = ([Set_mark], 471)"
  "follow (Go 504) = ([Set_mark], 485)"
  "follow (Go 505) = ([Set_mark], 487)"
  "follow (Go 506) = ([Set_mark], 486)"
  "follow (Go 507) = ([Set_mark, Save_host], 461)"
  "follow (Go 543) = ([Save_scheme], 509)"
  "follow (Go 546) = ([Set_mark], 229)"
  "follow (Go 547) = ([Set_mark], 520)"
  "follow (Go 548) = ([Set_mark, Save_host, Save_path], 453)"
  "follow (Go 549) = ([Set_mark], 253)"
  "follow (Go 550) = ([Set_mark, Save_host], 513)"
  "follow (Go 551) = ([Set_mark], 543)"
  "follow (Go 552) = ([Set_mark], 557)"
  "follow (Go 553) = ([Set_mark], 559)"
  "follow (Go 554) = ([Set_mark], 558)"
  "follow (Go 555) = ([Set_mark, Save_host], 521)"
  "follow (Go 556) = ([Set_mark, Save_host, Save_path], 456)"
  "follow (Go 557) = ([Set_mark, Save_userinfo], 522)"
  "follow (Go 558) = ([Set_mark], 260)"
  "follow (Go 559) = ([Save_host, Set_mark, Save_path], 453)"
  "follow (Go 560) = ([Save_host, Set_mark], 513)"
  "follow (Go 561) = ([Save_host], 514)"
  "follow (Go 562) = ([Save_host, Set_mark, Save_path], 456)"
  "follow (Go 563) = ([Save_path], 453)"
  "follow (Go 565) = ([Save_path], 456)"
  "follow (Go 566) = ([Set_mark, Save_port, Save_path], 453)"
  "follow (Go 567) = ([Set_mark, Save_port], 513)"
  "follow (Go 568) = ([Set_mark], 515)"
  "follow (Go 569) = ([Set_mark, Save_port, Save_path], 456)"
  "follow (Go 570) = ([Save_port, Set_mark, Save_path], 453)"
  "follow (Go 571) = ([Save_port, Set_mark], 513)"
  "follow (Go 573) = ([Save_port, Set_mark, Save_path], 456)"
  "follow (Go 576) = ([Save_host], 521)"
  "follow (Go 577) = ([Set_mark], 542)"
  "follow (Go 578) = ([Set_mark], 523)"
  "follow (Go 579) = ([Set_mark], 258)"
  "follow (Go 580) = ([Set_mark], 524)"
  "follow (Go 581) = ([Set_mark], 538)"
  "follow (Go 582) = ([Set_mark], 540)"
  "follow (Go 583) = ([Set_mark], 539)"
  "follow (Go 584) = ([Set_mark, Save_host], 514)"
  by (simp_all only: follow.simps uri_program_def find_first.simps, simp_all add: label_blocks)

lemmas follow_simps = follow.simps(1) follow_labels

text \<open>The states that the text of a URI with a host passes through.\<close>

lemma row_451: "find_first (case_of 451) uri_program =
  Some ([(34, 34, St 0), (35, 35, St 453), (37, 37, St 3), (47, 47, St 458), (58, 58, St 0), (60,
    60, St 0), (62, 62, St 0), (63, 63, St 456), (96, 96, St 0), (127, 127, St 0), (0, 32, St 0),
    (65, 90, Go 461), (91, 94, St 0), (97, 122, Go 461), (123, 125, St 0)], St 452)"
  by (simp only: uri_program_def find_first.simps, simp add: case_blocks)

lemma row_455: "find_first (case_of 455) uri_program =
  Some ([(34, 34, St 0), (35, 35, St 453), (37, 37, St 5), (60, 60, St 0), (62, 62, St 0), (63,
    63, St 456), (96, 96, St 0), (127, 127, St 0), (0, 32, St 0), (91, 94, St 0), (123, 125, St
    0)], St 455)"
  by (simp only: uri_program_def find_first.simps, simp add: case_blocks)

lemma row_458: "find_first (case_of 458) uri_program =
  Some ([(34, 34, St 0), (35, 35, St 453), (37, 37, St 5), (47, 47, St 459), (60, 60, St 0), (62,
    62, St 0), (63, 63, St 456), (96, 96, St 0), (127, 127, St 0), (0, 32, St 0), (91, 94, St 0),
    (123, 125, St 0)], St 455)"
  by (simp only: uri_program_def find_first.simps, simp add: case_blocks)

lemma row_508: "find_first (case_of 508) uri_program =
  Some ([(34, 34, St 0), (35, 35, St 453), (37, 37, St 3), (43, 43, St 508), (47, 47, St 455),
    (58, 58, Go 543), (60, 60, St 0), (62, 62, St 0), (63, 63, St 456), (96, 96, St 0), (127,
    127, St 0), (0, 32, St 0), (45, 57, St 508), (65, 90, St 508), (91, 94, St 0), (97, 122, St
    508), (123, 125, St 0)], St 452)"
  by (simp only: uri_program_def find_first.simps, simp add: case_blocks)

lemma row_509: "find_first (case_of 509) uri_program =
  Some ([(34, 34, St 0), (35, 35, St 453), (37, 37, St 5), (47, 47, St 510), (60, 60, St 0), (62,
    62, St 0), (63, 63, St 456), (96, 96, St 0), (127, 127, St 0), (0, 32, St 0), (91, 94, St 0),
    (123, 125, St 0)], St 455)"
  by (simp only: uri_program_def find_first.simps, simp add: case_blocks)

lemma row_510: "find_first (case_of 510) uri_program =
  Some ([(34, 34, St 0), (35, 35, St 453), (37, 37, St 5), (47, 47, St 511), (60, 60, St 0), (62,
    62, St 0), (63, 63, St 456), (96, 96, St 0), (127, 127, St 0), (0, 32, St 0), (91, 94, St 0),
    (123, 125, St 0)], St 455)"
  by (simp only: uri_program_def find_first.simps, simp add: case_blocks)

lemma row_511: "find_first (case_of 511) uri_program =
  Some ([(2, 2, Go 546), (33, 33, Go 547), (35, 35, Go 548), (37, 37, Go 549), (47, 47, Go 550),
    (48, 48, Go 551), (49, 49, Go 552), (50, 50, Go 553), (58, 58, Go 555), (59, 59, Go 547),
    (61, 61, Go 547), (63, 63, Go 556), (64, 64, Go 557), (91, 91, Go 558), (95, 95, Go 547),
    (126, 126, Go 547), (36, 46, Go 547), (51, 57, Go 554), (65, 90, Go 547), (97, 122, Go 547)],
    St 0)"
  by (simp only: uri_program_def find_first.simps, simp add: case_blocks)

lemma row_520: "find_first (case_of 520) uri_program =
  Some ([(33, 33, St 520), (35, 35, Go 559), (37, 37, St 253), (47, 47, Go 560), (58, 58, Go
    576), (61, 61, St 520), (63, 63, Go 562), (64, 64, Go 263), (95, 95, St 520), (126, 126, St
    520), (36, 59, St 520), (65, 90, St 520), (97, 122, St 520)], St 0)"
  by (simp only: uri_program_def find_first.simps, simp add: case_blocks)

lemma row_543: "find_first (case_of 543) uri_program =
  Some ([(33, 33, St 520), (35, 35, Go 559), (37, 37, St 253), (46, 46, St 544), (47, 47, Go
    560), (58, 58, Go 576), (61, 61, St 520), (63, 63, Go 562), (64, 64, Go 263), (95, 95, St
    520), (126, 126, St 520), (36, 59, St 520), (65, 90, St 520), (97, 122, St 520)], St 0)"
  by (simp only: uri_program_def find_first.simps, simp add: case_blocks)

lemma row_544: "find_first (case_of 544) uri_program =
  Some ([(2, 2, St 233), (33, 33, St 520), (35, 35, Go 559), (37, 37, St 253), (47, 47, Go 560),
    (48, 48, St 545), (49, 49, St 553), (50, 50, St 555), (58, 58, Go 576), (59, 59, St 520),
    (61, 61, St 520), (63, 63, Go 562), (64, 64, Go 263), (95, 95, St 520), (126, 126, St 520),
    (36, 46, St 520), (51, 57, St 554), (65, 90, St 520), (97, 122, St 520)], St 0)"
  by (simp only: uri_program_def find_first.simps, simp add: case_blocks)

lemma row_545: "find_first (case_of 545) uri_program =
  Some ([(33, 33, St 520), (35, 35, Go 559), (37, 37, St 253), (46, 46, St 546), (47, 47, Go
    560), (58, 58, Go 576), (61, 61, St 520), (63, 63, Go 562), (64, 64, Go 263), (95, 95, St
    520), (126, 126, St 520), (36, 59, St 520), (65, 90, St 520), (97, 122, St 520)], St 0)"
  by (simp only: uri_program_def find_first.simps, simp add: case_blocks)

lemma row_546: "find_first (case_of 546) uri_program =
  Some ([(2, 2, St 237), (33, 33, St 520), (35, 35, Go 559), (37, 37, St 253), (47, 47, Go 560),
    (48, 48, St 547), (49, 49, St 549), (50, 50, St 551), (58, 58, Go 576), (59, 59, St 520),
    (61, 61, St 520), (63, 63, Go 562), (64, 64, Go 263), (95, 95, St 520), (126, 126, St 520),
    (36, 46, St 520), (51, 57, St 550), (65, 90, St 520), (97, 122, St 520)], St 0)"
  by (simp only: uri_program_def find_first.simps, simp add: case_blocks)

lemma row_547: "find_first (case_of 547) uri_program =
  Some ([(33, 33, St 520), (35, 35, Go 559), (37, 37, St 253), (46, 46, St 548), (47, 47, Go
    560), (58, 58, Go 576), (61, 61, St 520), (63, 63, Go 562), (64, 64, Go 263), (95, 95, St
    520), (126, 126, St 520), (36, 59, St 520), (65, 90, St 520), (97, 122, St 520)], St 0)"
  by (simp only: uri_program_def find_first.simps, simp add: case_blocks)

lemma row_548: "find_first (case_of 548) uri_program =
  Some ([(2, 2, St 241), (33, 33, St 520), (35, 35, Go 559), (37, 37, St 253), (47, 47, Go 560),
    (58, 58, Go 576), (61, 61, St 520), (63, 63, Go 562), (64, 64, Go 263), (95, 95, St 520),
    (126, 126, St 520), (36, 59, St 520), (65, 90, St 520), (97, 122, St 520)], St 0)"
  by (simp only: uri_program_def find_first.simps, simp add: case_blocks)

lemma row_549: "find_first (case_of 549) uri_program =
  Some ([(33, 33, St 520), (35, 35, Go 559), (37, 37, St 253), (46, 46, St 548), (47, 47, Go
    560), (58, 58, Go 576), (59, 59, St 520), (61, 61, St 520), (63, 63, Go 562), (64, 64, Go
    263), (95, 95, St 520), (126, 126, St 520), (36, 45, St 520), (48, 57, St 550), (65, 90, St
    520), (97, 122, St 520)], St 0)"
  by (simp only: uri_program_def find_first.simps, simp add: case_blocks)

lemma row_550: "find_first (case_of 550) uri_program =
  Some ([(33, 33, St 520), (35, 35, Go 559), (37, 37, St 253), (46, 46, St 548), (47, 47, Go
    560), (58, 58, Go 576), (59, 59, St 520), (61, 61, St 520), (63, 63, Go 562), (64, 64, Go
    263), (95, 95, St 520), (126, 126, St 520), (36, 45, St 520), (48, 57, St 547), (65, 90, St
    520), (97, 122, St 520)], St 0)"
  by (simp only: uri_program_def find_first.simps, simp add: case_blocks)

lemma row_551: "find_first (case_of 551) uri_program =
  Some ([(33, 33, St 520), (35, 35, Go 559), (37, 37, St 253), (46, 46, St 548), (47, 47, Go
    560), (53, 53, St 552), (58, 58, Go 576), (59, 59, St 520), (61, 61, St 520), (63, 63, Go
    562), (64, 64, Go 263), (95, 95, St 520), (126, 126, St 520), (36, 45, St 520), (48, 57, St
    547), (65, 90, St 520), (97, 122, St 520)], St 0)"
  by (simp only: uri_program_def find_first.simps, simp add: case_blocks)

lemma row_552: "find_first (case_of 552) uri_program =
  Some ([(33, 33, St 520), (35, 35, Go 559), (37, 37, St 253), (46, 46, St 548), (47, 47, Go
    560), (58, 58, Go 576), (61, 61, St 520), (63, 63, Go 562), (64, 64, Go 263), (95, 95, St
    520), (126, 126, St 520), (36, 45, St 520), (48, 53, St 547), (54, 59, St 520), (65, 90, St
    520), (97, 122, St 520)], St 0)"
  by (simp only: uri_program_def find_first.simps, simp add: case_blocks)

lemma row_553: "find_first (case_of 553) uri_program =
  Some ([(33, 33, St 520), (35, 35, Go 559), (37, 37, St 253), (46, 46, St 546), (47, 47, Go
    560), (58, 58, Go 576), (59, 59, St 520), (61, 61, St 520), (63, 63, Go 562), (64, 64, Go
    263), (95, 95, St 520), (126, 126, St 520), (36, 45, St 520), (48, 57, St 554), (65, 90, St
    520), (97, 122, St 520)], St 0)"
  by (simp only: uri_program_def find_first.simps, simp add: case_blocks)

lemma row_554: "find_first (case_of 554) uri_program =
  Some ([(33, 33, St 520), (35, 35, Go 559), (37, 37, St 253), (46, 46, St 546), (47, 47, Go
    560), (58, 58, Go 576), (59, 59, St 520), (61, 61, St 520), (63, 63, Go 562), (64, 64, Go
    263), (95, 95, St 520), (126, 126, St 520), (36, 45, St 520), (48, 57, St 545), (65, 90, St
    520), (97, 122, St 520)], St 0)"
  by (simp only: uri_program_def find_first.simps, simp add: case_blocks)

lemma row_555: "find_first (case_of 555) uri_program =
  Some ([(33, 33, St 520), (35, 35, Go 559), (37, 37, St 253), (46, 46, St 546), (47, 47, Go
    560), (53, 53, St 556), (58, 58, Go 576), (59, 59, St 520), (61, 61, St 520), (63, 63, Go
    562), (64, 64, Go 263), (95, 95, St 520), (126, 126, St 520), (36, 45, St 520), (48, 57, St
    545), (65, 90, St 520), (97, 122, St 520)], St 0)"
  by (simp only: uri_program_def find_first.simps, simp add: case_blocks)

lemma row_556: "find_first (case_of 556) uri_program =
  Some ([(33, 33, St 520), (35, 35, Go 559), (37, 37, St 253), (46, 46, St 546), (47, 47, Go
    560), (58, 58, Go 576), (61, 61, St 520), (63, 63, Go 562), (64, 64, Go 263), (95, 95, St
    520), (126, 126, St 520), (36, 45, St 520), (48, 53, St 545), (54, 59, St 520), (65, 90, St
    520), (97, 122, St 520)], St 0)"
  by (simp only: uri_program_def find_first.simps, simp add: case_blocks)

lemma row_557: "find_first (case_of 557) uri_program =
  Some ([(33, 33, St 520), (35, 35, Go 559), (37, 37, St 253), (46, 46, St 544), (47, 47, Go
    560), (58, 58, Go 576), (59, 59, St 520), (61, 61, St 520), (63, 63, Go 562), (64, 64, Go
    263), (95, 95, St 520), (126, 126, St 520), (36, 45, St 520), (48, 57, St 558), (65, 90, St
    520), (97, 122, St 520)], St 0)"
  by (simp only: uri_program_def find_first.simps, simp add: case_blocks)

lemma row_558: "find_first (case_of 558) uri_program =
  Some ([(33, 33, St 520), (35, 35, Go 559), (37, 37, St 253), (46, 46, St 544), (47, 47, Go
    560), (58, 58, Go 576), (59, 59, St 520), (61, 61, St 520), (63, 63, Go 562), (64, 64, Go
    263), (95, 95, St 520), (126, 126, St 520), (36, 45, St 520), (48, 57, St 543), (65, 90, St
    520), (97, 122, St 520)], St 0)"
  by (simp only: uri_program_def find_first.simps, simp add: case_blocks)

lemma row_559: "find_first (case_of 559) uri_program =
  Some ([(33, 33, St 520), (35, 35, Go 559), (37, 37, St 253), (46, 46, St 544), (47, 47, Go
    560), (53, 53, St 560), (58, 58, Go 576), (59, 59, St 520), (61, 61, St 520), (63, 63, Go
    562), (64, 64, Go 263), (95, 95, St 520), (126, 126, St 520), (36, 45, St 520), (48, 57, St
    543), (65, 90, St 520), (97, 122, St 520)], St 0)"
  by (simp only: uri_program_def find_first.simps, simp add: case_blocks)

lemma row_560: "find_first (case_of 560) uri_program =
  Some ([(33, 33, St 520), (35, 35, Go 559), (37, 37, St 253), (46, 46, St 544), (47, 47, Go
    560), (58, 58, Go 576), (61, 61, St 520), (63, 63, Go 562), (64, 64, Go 263), (95, 95, St
    520), (126, 126, St 520), (36, 45, St 520), (48, 53, St 543), (54, 59, St 520), (65, 90, St
    520), (97, 122, St 520)], St 0)"
  by (simp only: uri_program_def find_first.simps, simp add: case_blocks)

lemma row_521: "find_first (case_of 521) uri_program =
  Some ([(33, 33, St 255), (35, 35, Go 566), (37, 37, St 256), (47, 47, Go 567), (61, 61, St
    255), (63, 63, Go 569), (64, 64, Go 263), (95, 95, St 255), (126, 126, St 255), (36, 46, St
    255), (48, 57, Go 577), (58, 59, St 255), (65, 90, St 255), (97, 122, St 255)], St 0)"
  by (simp only: uri_program_def find_first.simps, simp add: case_blocks)

lemma row_542: "find_first (case_of 542) uri_program =
  Some ([(33, 33, St 255), (35, 35, Go 570), (37, 37, St 256), (47, 47, Go 571), (61, 61, St
    255), (63, 63, Go 573), (64, 64, Go 263), (95, 95, St 255), (126, 126, St 255), (36, 46, St
    255), (48, 57, St 542), (58, 59, St 255), (65, 90, St 255), (97, 122, St 255)], St 0)"
  by (simp only: uri_program_def find_first.simps, simp add: case_blocks)

lemma row_522: "find_first (case_of 522) uri_program =
  Some ([(2, 2, Go 546), (33, 33, Go 578), (35, 35, Go 548), (37, 37, Go 579), (47, 47, Go 550),
    (48, 48, Go 580), (49, 49, Go 581), (50, 50, Go 582), (58, 58, Go 584), (59, 59, Go 578),
    (61, 61, Go 578), (63, 63, Go 556), (91, 91, Go 558), (95, 95, Go 578), (126, 126, Go 578),
    (36, 46, Go 578), (51, 57, Go 583), (65, 90, Go 578), (97, 122, Go 578)], St 0)"
  by (simp only: uri_program_def find_first.simps, simp add: case_blocks)

lemma row_523: "find_first (case_of 523) uri_program =
  Some ([(33, 33, St 523), (35, 35, Go 559), (37, 37, St 258), (47, 47, Go 560), (58, 58, Go
    561), (61, 61, St 523), (63, 63, Go 562), (95, 95, St 523), (126, 126, St 523), (36, 59, St
    523), (65, 90, St 523), (97, 122, St 523)], St 0)"
  by (simp only: uri_program_def find_first.simps, simp add: case_blocks)

lemma row_524: "find_first (case_of 524) uri_program =
  Some ([(33, 33, St 523), (35, 35, Go 559), (37, 37, St 258), (46, 46, St 525), (47, 47, Go
    560), (58, 58, Go 561), (61, 61, St 523), (63, 63, Go 562), (95, 95, St 523), (126, 126, St
    523), (36, 59, St 523), (65, 90, St 523), (97, 122, St 523)], St 0)"
  by (simp only: uri_program_def find_first.simps, simp add: case_blocks)

lemma row_525: "find_first (case_of 525) uri_program =
  Some ([(2, 2, St 233), (33, 33, St 523), (35, 35, Go 559), (37, 37, St 258), (47, 47, Go 560),
    (48, 48, St 526), (49, 49, St 534), (50, 50, St 536), (58, 58, Go 561), (59, 59, St 523),
    (61, 61, St 523), (63, 63, Go 562), (95, 95, St 523), (126, 126, St 523), (36, 46, St 523),
    (51, 57, St 535), (65, 90, St 523), (97, 122, St 523)], St 0)"
  by (simp only: uri_program_def find_first.simps, simp add: case_blocks)

lemma row_526: "find_first (case_of 526) uri_program =
  Some ([(33, 33, St 523), (35, 35, Go 559), (37, 37, St 258), (46, 46, St 527), (47, 47, Go
    560), (58, 58, Go 561), (61, 61, St 523), (63, 63, Go 562), (95, 95, St 523), (126, 126, St
    523), (36, 59, St 523), (65, 90, St 523), (97, 122, St 523)], St 0)"
  by (simp only: uri_program_def find_first.simps, simp add: case_blocks)

lemma row_527: "find_first (case_of 527) uri_program =
  Some ([(2, 2, St 237), (33, 33, St 523), (35, 35, Go 559), (37, 37, St 258), (47, 47, Go 560),
    (48, 48, St 528), (49, 49, St 530), (50, 50, St 532), (58, 58, Go 561), (59, 59, St 523),
    (61, 61, St 523), (63, 63, Go 562), (95, 95, St 523), (126, 126, St 523), (36, 46, St 523),
    (51, 57, St 531), (65, 90, St 523), (97, 122, St 523)], St 0)"
  by (simp only: uri_program_def find_first.simps, simp add: case_blocks)

lemma row_528: "find_first (case_of 528) uri_program =
  Some ([(33, 33, St 523), (35, 35, Go 559), (37, 37, St 258), (46, 46, St 529), (47, 47, Go
    560), (58, 58, Go 561), (61, 61, St 523), (63, 63, Go 562), (95, 95, St 523), (126, 126, St
    523), (36, 59, St 523), (65, 90, St 523), (97, 122, St 523)], St 0)"
  by (simp only: uri_program_def find_first.simps, simp add: case_blocks)

lemma row_529: "find_first (case_of 529) uri_program =
  Some ([(2, 2, St 241), (33, 33, St 523), (35, 35, Go 559), (37, 37, St 258), (47, 47, Go 560),
    (58, 58, Go 561), (61, 61, St 523), (63, 63, Go 562), (95, 95, St 523), (126, 126, St 523),
    (36, 59, St 523), (65, 90, St 523), (97, 122, St 523)], St 0)"
  by (simp only: uri_program_def find_first.simps, simp add: case_blocks)

lemma row_530: "find_first (case_of 530) uri_program =
  Some ([(33, 33, St 523), (35, 35, Go 559), (37, 37, St 258), (46, 46, St 529), (47, 47, Go
    560), (58, 58, Go 561), (59, 59, St 523), (61, 61, St 523), (63, 63, Go 562), (95, 95, St
    523), (126, 126, St 523), (36, 45, St 523), (48, 57, St 531), (65, 90, St 523), (97, 122, St
    523)], St 0)"
  by (simp only: uri_program_def find_first.simps, simp add: case_blocks)

lemma row_531: "find_first (case_of 531) uri_program =
  Some ([(33, 33, St 523), (35, 35, Go 559), (37, 37, St 258), (46, 46, St 529), (47, 47, Go
    560), (58, 58, Go 561), (59, 59, St 523), (61, 61, St 523), (63, 63, Go 562), (95, 95, St
    523), (126, 126, St 523), (36, 45, St 523), (48, 57, St 528), (65, 90, St 523), (97, 122, St
    523)], St 0)"
  by (simp only: uri_program_def find_first.simps, simp add: case_blocks)

lemma row_532: "find_first (case_of 532) uri_program =
  Some ([(33, 33, St 523), (35, 35, Go 559), (37, 37, St 258), (46, 46, St 529), (47, 47, Go
    560), (53, 53, St 533), (58, 58, Go 561), (59, 59, St 523), (61, 61, St 523), (63, 63, Go
    562), (95, 95, St 523), (126, 126, St 523), (36, 45, St 523), (48, 57, St 528), (65, 90, St
    523), (97, 122, St 523)], St 0)"
  by (simp only: uri_program_def find_first.simps, simp add: case_blocks)

lemma row_533: "find_first (case_of 533) uri_program =
  Some ([(33, 33, St 523), (35, 35, Go 559), (37, 37, St 258), (46, 46, St 529), (47, 47, Go
    560), (58, 58, Go 561), (61, 61, St 523), (63, 63, Go 562), (95, 95, St 523), (126, 126, St
    523), (36, 45, St 523), (48, 53, St 528), (54, 59, St 523), (65, 90, St 523), (97, 122, St
    523)], St 0)"
  by (simp only: uri_program_def find_first.simps, simp add: case_blocks)

lemma row_534: "find_first (case_of 534) uri_program =
  Some ([(33, 33, St 523), (35, 35, Go 559), (37, 37, St 258), (46, 46, St 527), (47, 47, Go
    560), (58, 58, Go 561), (59, 59, St 523), (61, 61, St 523), (63, 63, Go 562), (95, 95, St
    523), (126, 126, St 523), (36, 45, St 523), (48, 57, St 535), (65, 90, St 523), (97, 122, St
    523)], St 0)"
  by (simp only: uri_program_def find_first.simps, simp add: case_blocks)

lemma row_535: "find_first (case_of 535) uri_program =
  Some ([(33, 33, St 523), (35, 35, Go 559), (37, 37, St 258), (46, 46, St 527), (47, 47, Go
    560), (58, 58, Go 561), (59, 59, St 523), (61, 61, St 523), (63, 63, Go 562), (95, 95, St
    523), (126, 126, St 523), (36, 45, St 523), (48, 57, St 526), (65, 90, St 523), (97, 122, St
    523)], St 0)"
  by (simp only: uri_program_def find_first.simps, simp add: case_blocks)

lemma row_536: "find_first (case_of 536) uri_program =
  Some ([(33, 33, St 523), (35, 35, Go 559), (37, 37, St 258), (46, 46, St 527), (47, 47, Go
    560), (53, 53, St 537), (58, 58, Go 561), (59, 59, St 523), (61, 61, St 523), (63, 63, Go
    562), (95, 95, St 523), (126, 126, St 523), (36, 45, St 523), (48, 57, St 526), (65, 90, St
    523), (97, 122, St 523)], St 0)"
  by (simp only: uri_program_def find_first.simps, simp add: case_blocks)

lemma row_537: "find_first (case_of 537) uri_program =
  Some ([(33, 33, St 523), (35, 35, Go 559), (37, 37, St 258), (46, 46, St 527), (47, 47, Go
    560), (58, 58, Go 561), (61, 61, St 523), (63, 63, Go 562), (95, 95, St 523), (126, 126, St
    523), (36, 45, St 523), (48, 53, St 526), (54, 59, St 523), (65, 90, St 523), (97, 122, St
    523)], St 0)"
  by (simp only: uri_program_def find_first.simps, simp add: case_blocks)

lemma row_538: "find_first (case_of 538) uri_program =
  Some ([(33, 33, St 523), (35, 35, Go 559), (37, 37, St 258), (46, 46, St 525), (47, 47, Go
    560), (58, 58, Go 561), (59, 59, St 523), (61, 61, St 523), (63, 63, Go 562), (95, 95, St
    523), (126, 126, St 523), (36, 45, St 523), (48, 57, St 539), (65, 90, St 523), (97, 122, St
    523)], St 0)"
  by (simp only: uri_program_def find_first.simps, simp add: case_blocks)

lemma row_539: "find_first (case_of 539) uri_program =
  Some ([(33, 33, St 523), (35, 35, Go 559), (37, 37, St 258), (46, 46, St 525), (47, 47, Go
    560), (58, 58, Go 561), (59, 59, St 523), (61, 61, St 523), (63, 63, Go 562), (95, 95, St
    523), (126, 126, St 523), (36, 45, St 523), (48, 57, St 524), (65, 90, St 523), (97, 122, St
    523)], St 0)"
  by (simp only: uri_program_def find_first.simps, simp add: case_blocks)

lemma row_540: "find_first (case_of 540) uri_program =
  Some ([(33, 33, St 523), (35, 35, Go 559), (37, 37, St 258), (46, 46, St 525), (47, 47, Go
    560), (53, 53, St 541), (58, 58, Go 561), (59, 59, St 523), (61, 61, St 523), (63, 63, Go
    562), (95, 95, St 523), (126, 126, St 523), (36, 45, St 523), (48, 57, St 524), (65, 90, St
    523), (97, 122, St 523)], St 0)"
  by (simp only: uri_program_def find_first.simps, simp add: case_blocks)

lemma row_541: "find_first (case_of 541) uri_program =
  Some ([(33, 33, St 523), (35, 35, Go 559), (37, 37, St 258), (46, 46, St 525), (47, 47, Go
    560), (58, 58, Go 561), (61, 61, St 523), (63, 63, Go 562), (95, 95, St 523), (126, 126, St
    523), (36, 45, St 523), (48, 53, St 524), (54, 59, St 523), (65, 90, St 523), (97, 122, St
    523)], St 0)"
  by (simp only: uri_program_def find_first.simps, simp add: case_blocks)

lemma row_514: "find_first (case_of 514) uri_program =
  Some ([(35, 35, Go 566), (47, 47, Go 567), (63, 63, Go 569), (48, 57, Go 568)], St 0)"
  by (simp only: uri_program_def find_first.simps, simp add: case_blocks)

lemma row_515: "find_first (case_of 515) uri_program =
  Some ([(35, 35, Go 570), (47, 47, Go 571), (63, 63, Go 573), (48, 57, St 515)], St 0)"
  by (simp only: uri_program_def find_first.simps, simp add: case_blocks)

lemma row_513: "find_first (case_of 513) uri_program =
  Some ([(34, 34, St 0), (35, 35, Go 563), (37, 37, St 243), (60, 60, St 0), (62, 62, St 0), (63,
    63, Go 565), (96, 96, St 0), (127, 127, St 0), (0, 32, St 0), (91, 94, St 0), (123, 125, St
    0)], St 513)"
  by (simp only: uri_program_def find_first.simps, simp add: case_blocks)

lemma row_243: "find_first (case_of 243) uri_program =
  Some ([(48, 57, St 244), (65, 70, St 244), (97, 102, St 244)], St 0)"
  by (simp only: uri_program_def find_first.simps, simp add: case_blocks)

lemma row_244: "find_first (case_of 244) uri_program =
  Some ([(48, 57, St 513), (65, 70, St 513), (97, 102, St 513)], St 0)"
  by (simp only: uri_program_def find_first.simps, simp add: case_blocks)

lemma row_456: "find_first (case_of 456) uri_program =
  Some ([(34, 34, St 0), (35, 35, Go 467), (37, 37, Go 468), (60, 60, St 0), (62, 62, St 0), (96,
    96, St 0), (127, 127, St 0), (0, 32, St 0), (91, 94, St 0), (123, 125, St 0)], Go 466)"
  by (simp only: uri_program_def find_first.simps, simp add: case_blocks)

lemma row_457: "find_first (case_of 457) uri_program =
  Some ([(34, 34, St 0), (35, 35, Go 469), (37, 37, St 7), (60, 60, St 0), (62, 62, St 0), (96,
    96, St 0), (127, 127, St 0), (0, 32, St 0), (91, 94, St 0), (123, 125, St 0)], St 457)"
  by (simp only: uri_program_def find_first.simps, simp add: case_blocks)

lemma row_7: "find_first (case_of 7) uri_program =
  Some ([(48, 57, St 8), (65, 70, St 8), (97, 102, St 8)], St 0)"
  by (simp only: uri_program_def find_first.simps, simp add: case_blocks)

lemma row_8: "find_first (case_of 8) uri_program =
  Some ([(48, 57, St 457), (65, 70, St 457), (97, 102, St 457)], St 0)"
  by (simp only: uri_program_def find_first.simps, simp add: case_blocks)

lemma row_453: "find_first (case_of 453) uri_program =
  Some ([(37, 37, Go 463), (60, 60, St 0), (62, 62, St 0), (96, 96, St 0), (127, 127, St 0), (0,
    32, St 0), (34, 35, St 0), (91, 94, St 0), (123, 125, St 0)], Go 462)"
  by (simp only: uri_program_def find_first.simps, simp add: case_blocks)

lemma row_454: "find_first (case_of 454) uri_program =
  Some ([(37, 37, St 1), (60, 60, St 0), (62, 62, St 0), (96, 96, St 0), (127, 127, St 0), (0,
    32, St 0), (34, 35, St 0), (91, 94, St 0), (123, 125, St 0)], St 454)"
  by (simp only: uri_program_def find_first.simps, simp add: case_blocks)

lemma row_1: "find_first (case_of 1) uri_program =
  Some ([(48, 57, St 2), (65, 70, St 2), (97, 102, St 2)], St 0)"
  by (simp only: uri_program_def find_first.simps, simp add: case_blocks)

lemma row_2: "find_first (case_of 2) uri_program =
  Some ([(48, 57, St 454), (65, 70, St 454), (97, 102, St 454)], St 0)"
  by (simp only: uri_program_def find_first.simps, simp add: case_blocks)

declare follow.simps(2) [simp del]

lemmas state_rows =
  row_451 row_455 row_458 row_508 row_509 row_510 row_511 row_520 row_543 row_544 row_545
  row_546 row_547 row_548 row_549 row_550 row_551 row_552 row_553 row_554 row_555 row_556
  row_557 row_558 row_559 row_560 row_521 row_542 row_522 row_523 row_524 row_525 row_526
  row_527 row_528 row_529 row_530 row_531 row_532 row_533 row_534 row_535 row_536 row_537
  row_538 row_539 row_540 row_541 row_514 row_515 row_513 row_243 row_244 row_456 row_457 row_7
  row_8 row_453 row_454 row_1 row_2

end
