(* ===== verification/UriParsers.thy ===== *)
theory UriParsers
  imports UriMachine
begin

text \<open>
  What \<open>Uri::Create\<close> does with a text: the pieces of a URI with a host are read as written, the text of a
  URI is parsed back, and the texts on which the parser runs into undefined behaviour are known.
\<close>

section \<open>Classes of characters\<close>

text \<open>A class is a list of closed ranges of signed characters.\<close>

type_synonym char_class = "(int \<times> int) list"

definition in_class :: "char_class \<Rightarrow> int \<Rightarrow> bool" where
  "in_class I n \<longleftrightarrow> list_ex (\<lambda>(lo, hi). lo \<le> n \<and> n \<le> hi) I"

definition alpha_class :: char_class where "alpha_class = [(65, 90), (97, 122)]"
definition digit_class :: char_class where "digit_class = [(48, 57)]"
definition xdigit_class :: char_class where "xdigit_class = [(48, 57), (65, 70), (97, 102)]"

definition scheme_class :: char_class where
  "scheme_class = [(43, 43), (45, 46), (48, 57), (65, 90), (97, 122)]"

text \<open>\<open>unreserved | sub_delims\<close>; \<open>pchar | "/"\<close> without the percent sign; the query adds \<open>"?"\<close>.\<close>

definition host_class :: char_class where
  "host_class = [(33, 33), (36, 36), (38, 46), (48, 57), (59, 59), (61, 61), (65, 90), (95, 95),
     (97, 122), (126, 126)]"

definition path_class :: char_class where
  "path_class = (-128, -1) # (47, 47) # (58, 58) # (64, 64) # host_class"

definition query_class :: char_class where
  "query_class = (63, 63) # path_class"

lemmas class_defs = alpha_class_def digit_class_def xdigit_class_def scheme_class_def host_class_def
  path_class_def query_class_def

text \<open>The jumps that the characters of a range take.\<close>

fun range_gotos :: "(int \<times> int \<times> uri_goto) list \<Rightarrow> uri_goto \<Rightarrow> int \<Rightarrow> int \<Rightarrow> uri_goto list" where
  "range_gotos [] d lo hi = [d]"
| "range_gotos ((l, h, g) # rows) d lo hi =
     (if h < lo \<or> hi < l then range_gotos rows d lo hi
      else g # (if lo < l then range_gotos rows d lo (l - 1) else []) @
               (if h < hi then range_gotos rows d (h + 1) hi else []))"

lemma pick_goto_in_range: "lo \<le> c \<Longrightarrow> c \<le> hi \<Longrightarrow> pick_goto rows d c \<in> set (range_gotos rows d lo hi)"
  by (induction rows d lo hi rule: range_gotos.induct) auto

text \<open>Every edge that leaves \<open>s\<close> under the class satisfies \<open>P\<close>.\<close>

definition edges_ok :: "int \<Rightarrow> char_class \<Rightarrow> (uri_action list \<times> int \<Rightarrow> bool) \<Rightarrow> bool" where
  "edges_ok s I P \<longleftrightarrow>
     (case find_first (case_of s) uri_program of
        None \<Rightarrow> False
      | Some (rows, d) \<Rightarrow>
          list_all (\<lambda>(lo, hi). list_all (\<lambda>g. P (follow g)) (range_gotos rows d lo hi)) I)"

lemma edges_okD:
  assumes "edges_ok s I P" "in_class I c"
  shows "P (uri_edge s c)"
proof -
  obtain rows d where rd: "find_first (case_of s) uri_program = Some (rows, d)"
    using assms(1) by (auto simp: edges_ok_def split: option.splits)
  obtain lo hi where "(lo, hi) \<in> set I" "lo \<le> c" "c \<le> hi"
    using assms(2) by (auto simp: in_class_def list_ex_iff)
  then show ?thesis
    using assms(1) rd pick_goto_in_range [of lo c hi rows d]
    by (auto simp: edges_ok_def uri_edge_def list_all_iff)
qed

lemmas edge_simps = edges_ok_def state_rows follow_simps class_defs

section \<open>Edges\<close>

definition host_states :: "int list" where
  "host_states = [520, 543, 544, 545, 546, 547, 548, 549, 550, 551, 552, 553, 554, 555, 556, 557,
     558, 559, 560]"

definition host2_states :: "int list" where
  "host2_states = [523, 524, 525, 526, 527, 528, 529, 530, 531, 532, 533, 534, 535, 536, 537, 538,
     539, 540, 541]"

lemma edges:
  "edges_ok 451 alpha_class (\<lambda>e. e = ([Set_mark], 508))"
  "edges_ok 508 scheme_class (\<lambda>e. e = ([], 508))"
  "edges_ok 508 [(58, 58)] (\<lambda>e. e = ([Save_scheme], 509))"
  "edges_ok 509 [(47, 47)] (\<lambda>e. e = ([], 510))"
  "edges_ok 510 [(47, 47)] (\<lambda>e. e = ([], 511))"
  "edges_ok 511 host_class (\<lambda>(as, t). as = [Set_mark] \<and> t \<in> set host_states)"
  "edges_ok 521 digit_class (\<lambda>e. e = ([Set_mark], 542))"
  "edges_ok 542 digit_class (\<lambda>e. e = ([], 542))"
  "edges_ok 522 host_class (\<lambda>(as, t). as = [Set_mark] \<and> t \<in> set host2_states)"
  "edges_ok 514 digit_class (\<lambda>e. e = ([Set_mark], 515))"
  "edges_ok 515 digit_class (\<lambda>e. e = ([], 515))"
  "edges_ok 513 path_class (\<lambda>e. e = ([], 513))"
  "edges_ok 513 [(37, 37)] (\<lambda>e. e = ([], 243))"
  "edges_ok 243 xdigit_class (\<lambda>e. e = ([], 244))"
  "edges_ok 244 xdigit_class (\<lambda>e. e = ([], 513))"
  "edges_ok 513 [(63, 63)] (\<lambda>e. e = ([Save_path], 456))"
  "edges_ok 513 [(35, 35)] (\<lambda>e. e = ([Save_path], 453))"
  "edges_ok 456 query_class (\<lambda>e. e = ([Set_mark], 457))"
  "edges_ok 456 [(37, 37)] (\<lambda>e. e = ([Set_mark], 7))"
  "edges_ok 457 query_class (\<lambda>e. e = ([], 457))"
  "edges_ok 457 [(37, 37)] (\<lambda>e. e = ([], 7))"
  "edges_ok 7 xdigit_class (\<lambda>e. e = ([], 8))"
  "edges_ok 8 xdigit_class (\<lambda>e. e = ([], 457))"
  "edges_ok 456 [(35, 35)] (\<lambda>e. e = ([Set_mark, Save_query], 453))"
  "edges_ok 457 [(35, 35)] (\<lambda>e. e = ([Save_query], 453))"
  "edges_ok 453 query_class (\<lambda>e. e = ([Set_mark], 454))"
  "edges_ok 453 [(37, 37)] (\<lambda>e. e = ([Set_mark], 1))"
  "edges_ok 454 query_class (\<lambda>e. e = ([], 454))"
  "edges_ok 454 [(37, 37)] (\<lambda>e. e = ([], 1))"
  "edges_ok 1 xdigit_class (\<lambda>e. e = ([], 2))"
  "edges_ok 2 xdigit_class (\<lambda>e. e = ([], 454))"
  by (simp_all add: edge_simps host_states_def host2_states_def)

text \<open>
  What may end the authority, after a host or a port whose action is \<open>a\<close>: the path, the query, the
  fragment, the end of the text.
\<close>

definition ends_authority :: "uri_action \<Rightarrow> int \<Rightarrow> bool" where
  "ends_authority a s \<longleftrightarrow>
     edges_ok s [(47, 47)] (\<lambda>e. e = ([a, Set_mark], 513)) \<and>
     edges_ok s [(63, 63)] (\<lambda>e. e = ([a, Set_mark, Save_path], 456)) \<and>
     edges_ok s [(35, 35)] (\<lambda>e. e = ([a, Set_mark, Save_path], 453)) \<and>
     eof_actions s = [a, Set_mark, Save_path] \<and> 451 \<le> s"

lemma host_loop:
  "s \<in> set host_states \<Longrightarrow> edges_ok s host_class (\<lambda>(as, t). as = [] \<and> t \<in> set host_states)"
  unfolding host_states_def list.set by (elim insertE emptyE) (simp_all add: edge_simps)

lemma host_leave:
  "s \<in> set host_states \<Longrightarrow> edges_ok s [(58, 58)] (\<lambda>e. e = ([Save_host], 521)) \<and>
     edges_ok s [(64, 64)] (\<lambda>e. e = ([Save_userinfo], 522)) \<and> ends_authority Save_host s"
  unfolding host_states_def list.set
  by (elim insertE emptyE) (simp_all add: edge_simps ends_authority_def eof_actions_def uri_eof_def)

lemma host2_loop:
  "s \<in> set host2_states \<Longrightarrow> edges_ok s host_class (\<lambda>(as, t). as = [] \<and> t \<in> set host2_states)"
  unfolding host2_states_def list.set by (elim insertE emptyE) (simp_all add: edge_simps)

lemma host2_leave:
  "s \<in> set host2_states \<Longrightarrow> edges_ok s [(58, 58)] (\<lambda>e. e = ([Save_host], 514)) \<and>
     ends_authority Save_host s"
  unfolding host2_states_def list.set
  by (elim insertE emptyE) (simp_all add: edge_simps ends_authority_def eof_actions_def uri_eof_def)

lemma port_leave: "ends_authority Save_port 542" "ends_authority Save_port 515"
  by (simp_all add: edge_simps ends_authority_def eof_actions_def uri_eof_def)

lemma eof_at:
  "eof_actions 513 = [Save_path]" "eof_actions 457 = [Save_query]" "eof_actions 454 = [Save_fragment]"
  by (simp_all add: eof_actions_def uri_eof_def)

section \<open>Runs\<close>

text \<open>Reading \<open>w\<close> at position \<open>p\<close> takes the machine from \<open>s\<close> and \<open>st\<close> to \<open>t\<close> and \<open>st'\<close>.\<close>

definition runs :: "string \<Rightarrow> nat \<Rightarrow> string \<Rightarrow> int \<Rightarrow> uri_state \<Rightarrow> int \<Rightarrow> uri_state \<Rightarrow> bool" where
  "runs tx p w s st t st' \<longleftrightarrow>
     (\<forall>r. uri_exec tx p (w @ r) s st = uri_exec tx (p + length w) r t st')"

lemma runs_Nil: "runs tx p [] s st s st"
  by (simp add: runs_def)

lemma runs_append:
  "runs tx p v s st t st' \<Longrightarrow> runs tx (p + length v) w t st' u st'' \<Longrightarrow> runs tx p (v @ w) s st u st''"
  by (simp add: runs_def add.assoc)

lemma runs_one:
  assumes "edges_ok s I (\<lambda>e. e = (as, t))" "in_class I (signed_char c)" "t \<noteq> 0"
    "uri_acts tx p as st = Some st'"
  shows "runs tx p [c] s st t st'"
  using edges_okD [OF assms(1,2)] assms(3,4) by (simp add: runs_def uri_parser_error_def)

lemma runs_set:
  assumes "edges_ok s I (\<lambda>(as, t). as = bs \<and> t \<in> set S)" "in_class I (signed_char c)" "0 \<notin> set S"
    "uri_acts tx p bs st = Some st'"
  shows "\<exists>t\<in>set S. runs tx p [c] s st t st'"
  using edges_okD [OF assms(1,2)] assms(3,4)
  by (force simp: runs_def uri_parser_error_def split: prod.splits)

lemma runs_loop:
  assumes "\<And>s. s \<in> set S \<Longrightarrow> edges_ok s I (\<lambda>(as, t). as = [] \<and> t \<in> set S)" "0 \<notin> set S"
    "list_all (\<lambda>c. in_class I (signed_char c)) w" "s \<in> set S"
  shows "\<exists>t\<in>set S. runs tx p w s st t st"
  using assms(3,4)
proof (induction w arbitrary: s p)
  case (Cons c w)
  note step = assms(1) [OF Cons.prems(2)]
  obtain t where t: "t \<in> set S" "runs tx p [c] s st t st"
    using runs_set [OF step _ assms(2), of c tx p st st] Cons.prems(1) by auto
  obtain u where u: "u \<in> set S" "runs tx (p + length [c]) w t st u st"
    using Cons.IH [OF _ t(1), of "Suc p"] Cons.prems(1) by auto
  show ?case using runs_append [OF t(2) u(2)] u(1) by auto
qed (auto intro: runs_Nil)

lemma runs_self:
  assumes "edges_ok s I (\<lambda>e. e = ([], s))" "s \<noteq> 0" "list_all (\<lambda>c. in_class I (signed_char c)) w"
  shows "runs tx p w s st s st"
proof -
  have e: "(\<lambda>(as, t). as = [] \<and> t \<in> set [s]) = (\<lambda>e. e = ([] :: uri_action list, s))"
    by (auto simp: fun_eq_iff)
  show ?thesis using runs_loop [of "[s]" I w s tx p st] assms by (simp only: e) simp
qed

text \<open>A text of a class with percent escapes.\<close>

fun escaped :: "char_class \<Rightarrow> string \<Rightarrow> bool" where
  "escaped I [] \<longleftrightarrow> True"
| "escaped I (c # cs) \<longleftrightarrow>
     (if c = CHR ''%''
      then (case cs of
              a # b # r \<Rightarrow> in_class xdigit_class (signed_char a) \<and>
                in_class xdigit_class (signed_char b) \<and> escaped I r
            | _ \<Rightarrow> False)
      else in_class I (signed_char c) \<and> escaped I cs)"

lemma signed_char_simps [simp]:
  "signed_char CHR ''%'' = 37" "signed_char CHR ''#'' = 35" "signed_char CHR ''?'' = 63"
  "signed_char CHR ''/'' = 47" "signed_char CHR '':'' = 58" "signed_char CHR ''@'' = 64"
  by (simp_all add: signed_char_def code_def)

lemma in_single [simp]: "in_class [(n, n)] n"
  by (simp add: in_class_def)

lemma runs_escaped:
  assumes "edges_ok s I (\<lambda>e. e = ([], s))" "edges_ok s [(37, 37)] (\<lambda>e. e = ([], a))"
    "edges_ok a xdigit_class (\<lambda>e. e = ([], b))" "edges_ok b xdigit_class (\<lambda>e. e = ([], s))"
    "s \<noteq> 0" "a \<noteq> 0" "b \<noteq> 0" "escaped I w"
  shows "runs tx p w s st s st"
  using assms(8)
proof (induction w arbitrary: p rule: length_induct)
  case (1 w)
  show ?case
  proof (cases w)
    case (Cons c cs)
    show ?thesis
    proof (cases "c = CHR ''%''")
      case True
      then obtain x y r where w: "cs = x # y # r" "in_class xdigit_class (signed_char x)"
          "in_class xdigit_class (signed_char y)" "escaped I r"
        using 1(2) Cons by (auto split: list.splits)
      have "runs tx p [c] s st a st" "runs tx (p + 1) [x] a st b st" "runs tx (p + 2) [y] b st s st"
        using runs_one [OF assms(2)] runs_one [OF assms(3)] runs_one [OF assms(4)] assms(5-7) w True
        by auto
      moreover have "runs tx (p + 3) r s st s st" using 1(1) w Cons by auto
      ultimately show ?thesis
        using Cons w runs_append [of tx p "[c]"] runs_append [of tx "p + 1" "[x]"]
          runs_append [of tx "p + 2" "[y]"]
        by (simp add: numeral_eq_Suc)
    next
      case False
      then have "in_class I (signed_char c)" "escaped I cs" using 1(2) Cons by auto
      then have "runs tx p [c] s st s st" "runs tx (p + length [c]) cs s st s st"
        using runs_one [OF assms(1)] assms(5) 1(1) Cons by auto
      from runs_append [OF this] show ?thesis using Cons by simp
    qed
  qed (simp add: runs_Nil)
qed

text \<open>A non-empty one at a state that sets the mark first.\<close>

lemma runs_marked:
  assumes "edges_ok s0 I (\<lambda>e. e = ([Set_mark], s))" "edges_ok s0 [(37, 37)] (\<lambda>e. e = ([Set_mark], a))"
    "edges_ok s I (\<lambda>e. e = ([], s))" "edges_ok s [(37, 37)] (\<lambda>e. e = ([], a))"
    "edges_ok a xdigit_class (\<lambda>e. e = ([], b))" "edges_ok b xdigit_class (\<lambda>e. e = ([], s))"
    "s \<noteq> 0" "a \<noteq> 0" "b \<noteq> 0" "escaped I w" "w \<noteq> []"
  shows "runs tx p w s0 (m, u) s (Some p, u)"
proof (cases w)
  case (Cons c cs)
  note rest = runs_escaped [OF assms(3-9)]
  show ?thesis
  proof (cases "c = CHR ''%''")
    case True
    then obtain x y r where w: "cs = x # y # r" "in_class xdigit_class (signed_char x)"
        "in_class xdigit_class (signed_char y)" "escaped I r"
      using assms(10) Cons by (auto split: list.splits)
    have "runs tx p [c] s0 (m, u) a (Some p, u)" "runs tx (p + 1) [x] a (Some p, u) b (Some p, u)"
      "runs tx (p + 2) [y] b (Some p, u) s (Some p, u)"
      using runs_one [OF assms(2)] runs_one [OF assms(5)] runs_one [OF assms(6)] assms(7-9) w True
      by auto
    with rest [OF w(4)] show ?thesis
      using Cons w runs_append [of tx p "[c]"] runs_append [of tx "p + 1" "[x]"]
        runs_append [of tx "p + 2" "[y]"]
      by (simp add: numeral_eq_Suc)
  next
    case False
    then have "in_class I (signed_char c)" "escaped I cs" using assms(10) Cons by auto
    then have "runs tx p [c] s0 (m, u) s (Some p, u)" "runs tx (p + length [c]) cs s (Some p, u) s (Some p, u)"
      using runs_one [OF assms(1)] assms(7) rest by auto
    from runs_append [OF this] show ?thesis using Cons by simp
  qed
qed (use assms(11) in simp)

section \<open>The end of a URI\<close>

definition query_part :: "string \<Rightarrow> string" where
  "query_part q = (if q = [] then [] else CHR ''?'' # q)"

definition fragment_part :: "string \<Rightarrow> string" where
  "fragment_part f = (if f = [] then [] else CHR ''#'' # f)"

lemma exec_fragment:
  assumes "drop p tx = f" "escaped query_class f" "f \<noteq> []"
  shows "uri_exec tx p f 453 (m, u) = Uri_made (u\<lparr>u_fragment := f\<rparr>)"
proof -
  have "runs tx p f 453 (m, u) 454 (Some p, u)"
    by (rule runs_marked [OF edges(26,27,28,29,30,31) _ _ _ assms(2,3)]) simp_all
  then have "uri_exec tx p (f @ []) 453 (m, u) = uri_exec tx (p + length f) [] 454 (Some p, u)"
    unfolding runs_def by blast
  then show ?thesis using assms(1) by (simp add: eof_at uri_parser_first_final_def)
qed

lemma exec_query:
  assumes "drop p tx = q @ fragment_part f" "escaped query_class q" "escaped query_class f"
    "q \<noteq> []" "u_fragment u = []"
  shows "uri_exec tx p (q @ fragment_part f) 456 (m, u) = Uri_made (u\<lparr>u_query := q, u_fragment := f\<rparr>)"
proof -
  have "runs tx p q 456 (m, u) 457 (Some p, u)"
    by (rule runs_marked [OF edges(18,19,20,21,22,23) _ _ _ assms(2,4)]) simp_all
  then have r: "uri_exec tx p (q @ fragment_part f) 456 (m, u) =
      uri_exec tx (p + length q) (fragment_part f) 457 (Some p, u)"
    unfolding runs_def by blast
  show ?thesis
  proof (cases "f = []")
    case True
    then show ?thesis using r assms by (simp add: fragment_part_def eof_at uri_parser_first_final_def)
  next
    case False
    have "drop (p + length q) tx = drop (length q) (drop p tx)" by (simp add: add.commute)
    then have t: "take (length q) (drop p tx) = q" "drop (p + length q) tx = CHR ''#'' # f"
      using assms(1) False by (simp_all add: fragment_part_def)
    have "runs tx (p + length q) [CHR ''#''] 457 (Some p, u) 453 (None, u\<lparr>u_query := q\<rparr>)"
      by (rule runs_one [OF edges(25)]) (use t in simp_all)
    moreover have "drop (Suc (p + length q)) tx = f"
      using t(2) by (metis drop_Suc list.sel(3) tl_drop)
    ultimately show ?thesis
      using r False exec_fragment [OF _ assms(3), of "Suc (p + length q)" tx] by (simp add: runs_def fragment_part_def)
  qed
qed

text \<open>The rest of the text behind the authority.\<close>

lemma drop_behind: "drop p tx = v @ w \<Longrightarrow> drop (p + length v) tx = w"
  by (metis add.commute append_eq_conv_conj drop_drop)

lemma exec_behind_path:
  assumes "drop p tx = query_part q @ fragment_part f" "escaped query_class q" "escaped query_class f"
    "u_query u = []" "u_fragment u = []"
    and s: "edges_ok s [(63, 63)] (\<lambda>e. e = (as, 456))" "edges_ok s [(35, 35)] (\<lambda>e. e = (as, 453))"
      "eof_actions s = as" "451 \<le> s" "uri_acts tx p as st = Some (m, u)"
  shows "uri_exec tx p (query_part q @ fragment_part f) s st = Uri_made (u\<lparr>u_query := q, u_fragment := f\<rparr>)"
proof (cases "q = []")
  case q: True
  show ?thesis
  proof (cases "f = []")
    case True
    then show ?thesis using q s(3-5) assms(4,5)
      by (simp add: query_part_def fragment_part_def uri_parser_first_final_def)
  next
    case False
    have "runs tx p [CHR ''#''] s st 453 (m, u)"
      by (rule runs_one [OF s(2) _ _ s(5)]) simp_all
    moreover have "drop (Suc p) tx = f"
      using assms(1) q False drop_behind [of p tx "[CHR ''#'']" f]
      by (simp add: query_part_def fragment_part_def)
    ultimately show ?thesis
      using q False exec_fragment [OF _ assms(3), of "Suc p" tx] assms(4)
      by (simp add: runs_def query_part_def fragment_part_def)
  qed
next
  case False
  have "runs tx p [CHR ''?''] s st 456 (m, u)"
    by (rule runs_one [OF s(1) _ _ s(5)]) simp_all
  moreover have "drop (Suc p) tx = q @ fragment_part f"
    using assms(1) False drop_behind [of p tx "[CHR ''?'']" "q @ fragment_part f"]
    by (simp add: query_part_def)
  ultimately show ?thesis
    using False exec_query [OF _ assms(2,3), of "Suc p" tx] assms(5)
    by (simp add: runs_def query_part_def)
qed

definition path_ok :: "string \<Rightarrow> bool" where
  "path_ok w \<longleftrightarrow> (w = [] \<or> hd w = CHR ''/'') \<and> escaped path_class w"

lemma exec_behind_authority:
  assumes "drop p tx = w @ query_part q @ fragment_part f" "path_ok w" "escaped query_class q"
    "escaped query_class f" "u_query u = []" "u_fragment u = []"
    and "ends_authority a s" "uri_act tx p a st = Some (m, u)"
  shows "uri_exec tx p (w @ query_part q @ fragment_part f) s st =
    Uri_made (u\<lparr>u_path := w, u_query := q, u_fragment := f\<rparr>)"
proof (cases w)
  case Nil
  have "uri_acts tx p [a, Set_mark, Save_path] st = Some (None, u\<lparr>u_path := []\<rparr>)"
    using assms(8) by simp
  with exec_behind_path [of p tx q f "u\<lparr>u_path := []\<rparr>" s "[a, Set_mark, Save_path]" st] Nil assms
  show ?thesis by (simp add: ends_authority_def)
next
  case (Cons c r)
  then have c: "c = CHR ''/''" "escaped path_class r"
    using assms(2) by (auto simp: path_ok_def split: if_splits)
  have "runs tx p [CHR ''/''] s st 513 (Some p, u)"
    by (rule runs_one [of s "[(47, 47)]" "[a, Set_mark]"]) (use assms(7,8) in \<open>simp_all add: ends_authority_def\<close>)
  moreover have "runs tx (p + length [CHR ''/'']) r 513 (Some p, u) 513 (Some p, u)"
    by (rule runs_escaped [OF edges(12,13,14,15)]) (simp_all add: c)
  ultimately have run: "runs tx p w s st 513 (Some p, u)"
    using runs_append Cons c by fastforce
  have "drop (p + length w) tx = query_part q @ fragment_part f"
    using drop_behind [OF assms(1)] .
  moreover have "take (length w) (drop p tx) = w" using assms(1) by simp
  ultimately have "uri_exec tx (p + length w) (query_part q @ fragment_part f) 513 (Some p, u) =
      Uri_made (u\<lparr>u_path := w, u_query := q, u_fragment := f\<rparr>)"
    using exec_behind_path [of "p + length w" tx q f "u\<lparr>u_path := w\<rparr>" 513 "[Save_path]" "(Some p, u)" None]
      assms(3-6) edges(16,17) eof_at(1) by simp
  then show ?thesis using run unfolding runs_def by simp
qed

section \<open>The authority\<close>

definition port_part :: "string \<Rightarrow> string" where
  "port_part d = (if d = [] then [] else CHR '':'' # d)"

definition port_ok :: "string \<Rightarrow> bool" where
  "port_ok d \<longleftrightarrow> list_all (\<lambda>c. is_digit (code c)) d \<and> dec_value d \<le> 2147483647"

definition end_part :: "string \<Rightarrow> string \<Rightarrow> string \<Rightarrow> string" where
  "end_part w q f = w @ query_part q @ fragment_part f"

lemma signed_digit: "is_digit (code c) \<Longrightarrow> in_class digit_class (signed_char c)"
  by (auto simp: is_digit_def digit_class_def in_class_def signed_char_def Let_def)

lemma end_part_hd: "path_ok w \<Longrightarrow> end_part w q f \<noteq> [] \<Longrightarrow> \<not> is_digit (code (hd (end_part w q f)))"
  by (cases w)
    (auto simp: end_part_def path_ok_def query_part_def fragment_part_def is_digit_def code_def split: if_splits)

lemma atoi_digits:
  assumes "port_ok d" "d \<noteq> []" "r = [] \<or> \<not> is_digit (code (hd r))"
  shows "c_atoi (d @ r) = Some (int (dec_value d))"
proof -
  obtain c cs where d: "d = c # cs" using assms(2) by (cases d) auto
  have c: "is_digit (code c)" using assms(1) d by (simp add: port_ok_def)
  then have "\<not> is_space (code c)" "c \<noteq> CHR ''-''" "c \<noteq> CHR ''+''"
    by (auto simp: is_digit_def is_space_def code_def)
  moreover have "takeWhile (\<lambda>c. is_digit (code c)) (d @ r) = d"
    using assms(1,3) by (cases r) (auto simp: port_ok_def list_all_iff takeWhile_eq_all_conv)
  ultimately show ?thesis
    using assms(1) d unfolding c_atoi_def port_ok_def by (simp add: Let_def)
qed

definition host_ok :: "string \<Rightarrow> bool" where
  "host_ok h \<longleftrightarrow> list_all (\<lambda>c. in_class host_class (signed_char c)) h"

text \<open>A non-empty run of host characters that starts with the mark.\<close>

lemma runs_host:
  assumes "edges_ok s0 host_class (\<lambda>(as, t). as = [Set_mark] \<and> t \<in> set S)"
    "\<And>s. s \<in> set S \<Longrightarrow> edges_ok s host_class (\<lambda>(as, t). as = [] \<and> t \<in> set S)" "0 \<notin> set S"
    "host_ok h" "h \<noteq> []"
  shows "\<exists>s\<in>set S. runs tx p h s0 (m, u) s (Some p, u)"
proof -
  obtain c r where h: "h = c # r" using assms(5) by (cases h) auto
  have c: "in_class host_class (signed_char c)" "list_all (\<lambda>c. in_class host_class (signed_char c)) r"
    using assms(4) h by (simp_all add: host_ok_def)
  obtain t where t: "t \<in> set S" "runs tx p [c] s0 (m, u) t (Some p, u)"
    using runs_set [OF assms(1) c(1) assms(3), of tx p "(m, u)" "(Some p, u)"] by auto
  obtain s where s: "s \<in> set S" "runs tx (p + length [c]) r t (Some p, u) s (Some p, u)"
    using runs_loop [OF assms(2,3) c(2) t(1)] by blast
  show ?thesis using runs_append [OF t(2) s(2)] s(1) h by auto
qed

lemma exec_host:
  assumes "drop p tx = h @ port_part d @ end_part w q f" "host_ok h" "h \<noteq> []" "port_ok d"
    "path_ok w" "escaped query_class q" "escaped query_class f" "u_query u = []" "u_fragment u = []"
    and S: "edges_ok s0 host_class (\<lambda>(as, t). as = [Set_mark] \<and> t \<in> set S)"
      "\<And>s. s \<in> set S \<Longrightarrow> edges_ok s host_class (\<lambda>(as, t). as = [] \<and> t \<in> set S)" "0 \<notin> set S"
      "\<And>s. s \<in> set S \<Longrightarrow> edges_ok s [(58, 58)] (\<lambda>e. e = ([Save_host], x)) \<and> ends_authority Save_host s"
      "edges_ok x digit_class (\<lambda>e. e = ([Set_mark], y))" "edges_ok y digit_class (\<lambda>e. e = ([], y))"
      "ends_authority Save_port y" "x \<noteq> 0" "y \<noteq> 0"
  shows "uri_exec tx p (h @ port_part d @ end_part w q f) s0 (m, u) =
    Uri_made (u\<lparr>u_host := h, u_port := (if d = [] then u_port u else int (dec_value d)),
      u_path := w, u_query := q, u_fragment := f\<rparr>)"
proof -
  obtain s where s: "s \<in> set S" "runs tx p h s0 (m, u) s (Some p, u)"
    using runs_host [OF S(1-3) assms(2,3)] by blast
  let ?p = "p + length h"
  have h: "take (length h) (drop p tx) = h" using assms(1) by simp
  have r: "drop ?p tx = port_part d @ end_part w q f" using drop_behind [OF assms(1)] .
  have run: "uri_exec tx p (h @ port_part d @ end_part w q f) s0 (m, u) =
      uri_exec tx ?p (port_part d @ end_part w q f) s (Some p, u)"
    using s(2) unfolding runs_def by blast
  show ?thesis
  proof (cases "d = []")
    case True
    then show ?thesis
      using run r h S(4) [OF s(1)] exec_behind_authority [of ?p tx w q f "u\<lparr>u_host := h\<rparr>" Save_host s
          "(Some p, u)" "Some p"] assms(5-9)
      by (simp add: port_part_def end_part_def)
  next
    case False
    then obtain c cs where d: "d = c # cs" by (cases d) auto
    let ?u = "u\<lparr>u_host := h\<rparr>"
    have c: "is_digit (code c)" "list_all (\<lambda>c. in_class digit_class (signed_char c)) cs"
      using assms(4) d by (auto simp: port_ok_def list_all_iff intro: signed_digit)
    have 1: "runs tx ?p [CHR '':''] s (Some p, u) x (Some p, ?u)"
      by (rule runs_one [of s "[(58, 58)]" "[Save_host]"]) (use S(4) [OF s(1)] S(8) h in simp_all)
    have 2: "runs tx (?p + length [CHR '':'']) [c] x (Some p, ?u) y (Some (?p + 1), ?u)"
      by (rule runs_one [OF S(5) signed_digit [OF c(1)]]) (use S(9) in simp_all)
    have 3: "runs tx (?p + length [CHR '':''] + length [c]) cs y (Some (?p + 1), ?u) y (Some (?p + 1), ?u)"
      by (rule runs_self [OF S(6,9) c(2)])
    have "runs tx ?p (port_part d) s (Some p, u) y (Some (?p + 1), ?u)"
      using runs_append [OF 1 runs_append [OF 2 3]] d by (simp add: port_part_def)
    then have r3: "uri_exec tx ?p (port_part d @ end_part w q f) s (Some p, u) =
        uri_exec tx (?p + length (port_part d)) (end_part w q f) y (Some (?p + 1), ?u)"
      unfolding runs_def by blast
    have e: "drop (?p + length (port_part d)) tx = end_part w q f" using drop_behind [OF r] .
    have "drop (?p + 1) tx = d @ end_part w q f"
      using drop_behind [of ?p tx "[CHR '':'']" "d @ end_part w q f"] r d by (simp add: port_part_def)
    then have "c_atoi (drop (?p + 1) tx) = Some (int (dec_value d))"
      using atoi_digits [OF assms(4) False] end_part_hd [OF assms(5)] by auto
    then have "uri_act tx (?p + length (port_part d)) Save_port (Some (?p + 1), ?u) =
        Some (None, ?u\<lparr>u_port := int (dec_value d)\<rparr>)"
      using d by (simp add: port_part_def)
    from exec_behind_authority [OF e [unfolded end_part_def] assms(5-7) _ _ S(7) this] run r3 False assms(8,9)
    show ?thesis by (simp add: end_part_def)
  qed
qed

section \<open>The whole text\<close>

definition scheme_ok :: "string \<Rightarrow> bool" where
  "scheme_ok w \<longleftrightarrow> w \<noteq> [] \<and> in_class alpha_class (signed_char (hd w)) \<and>
     list_all (\<lambda>c. in_class scheme_class (signed_char c)) w"

definition userinfo_part :: "string \<Rightarrow> string" where
  "userinfo_part w = (if w = [] then [] else w @ ''@'')"

definition uri_text :: "string \<Rightarrow> string \<Rightarrow> string \<Rightarrow> string \<Rightarrow> string \<Rightarrow> string \<Rightarrow> string \<Rightarrow> string" where
  "uri_text sch ui h d w q f =
     sch @ ''://'' @ userinfo_part ui @ h @ port_part d @ end_part w q f"

lemma runs_scheme:
  assumes "scheme_ok w" "take (length w) tx = w"
  shows "runs tx 0 (w @ ''://'') 451 (None, u) 511 (None, u\<lparr>u_scheme := w\<rparr>)"
proof -
  obtain c r where w: "w = c # r" using assms(1) by (cases w) (auto simp: scheme_ok_def)
  have c: "in_class alpha_class (signed_char c)" "list_all (\<lambda>c. in_class scheme_class (signed_char c)) r"
    using assms(1) w by (simp_all add: scheme_ok_def)
  have 1: "runs tx 0 [c] 451 (None, u) 508 (Some 0, u)"
    by (rule runs_one [OF edges(1) c(1)]) simp_all
  have 2: "runs tx (0 + length [c]) r 508 (Some 0, u) 508 (Some 0, u)"
    by (rule runs_self [OF edges(2) _ c(2)]) simp
  have 3: "runs tx (length w) [CHR '':''] 508 (Some 0, u) 509 (None, u\<lparr>u_scheme := w\<rparr>)" for u
    by (rule runs_one [OF edges(3)]) (use assms(2) in simp_all)
  have 4: "runs tx (length w + 1) [CHR ''/''] 509 st 510 st" "runs tx (length w + 2) [CHR ''/''] 510 st 511 st" for st
    by (rule runs_one [OF edges(4)] runs_one [OF edges(5)]; simp)+
  have "runs tx 0 w 451 (None, u) 508 (Some 0, u)"
    using runs_append [OF 1 2] w by simp
  moreover have "runs tx (0 + length w) ''://'' 508 (Some 0, u) 511 (None, u\<lparr>u_scheme := w\<rparr>)"
    using runs_append [OF 3, of "''//''"]
      runs_append [of tx "length w + 1" "''/''", OF 4(1), of "''/''"] 4(2) by fastforce
  ultimately show ?thesis by (rule runs_append)
qed

lemma parse_uri_text:
  assumes "scheme_ok sch" "host_ok ui" "host_ok h" "h \<noteq> []" "port_ok d" "path_ok w"
    "escaped query_class q" "escaped query_class f"
  shows "Uri_Create (uri_text sch ui h d w q f) =
    Uri_made \<lparr>u_scheme = sch, u_userinfo = ui, u_host = h, u_path = w, u_query = q, u_fragment = f,
      u_port = int (dec_value d)\<rparr>"
proof -
  let ?tx = "uri_text sch ui h d w q f"
  let ?u = "Uri_new\<lparr>u_scheme := sch\<rparr>"
  let ?p = "length (sch @ ''://'')"
  let ?r = "userinfo_part ui @ h @ port_part d @ end_part w q f"
  have "runs ?tx 0 (sch @ ''://'') 451 (None, Uri_new) 511 (None, ?u)"
    by (rule runs_scheme [OF assms(1)]) (simp add: uri_text_def)
  then have start: "Uri_Create ?tx = uri_exec ?tx ?p ?r 511 (None, ?u)"
    unfolding Uri_Create_def runs_def uri_parser_start_def
    by (metis add_0 append.assoc uri_text_def)
  have r: "drop ?p ?tx = ?r" by (simp add: uri_text_def)
  have z: "0 \<notin> set host_states" "0 \<notin> set host2_states"
    by (simp_all add: host_states_def host2_states_def)
  have zero: "dec_value [] = 0" by (simp add: dec_value_def)
  note tail = assms(3,4,5,6,7,8)
  show ?thesis
  proof (cases "ui = []")
    case True
    have l: "edges_ok s [(58, 58)] (\<lambda>e. e = ([Save_host], 521)) \<and> ends_authority Save_host s"
      if "s \<in> set host_states" for s using host_leave [OF that] by blast
    have "uri_exec ?tx ?p (h @ port_part d @ end_part w q f) 511 (None, ?u) = Uri_made (?u\<lparr>u_host := h,
        u_port := (if d = [] then u_port ?u else int (dec_value d)), u_path := w, u_query := q, u_fragment := f\<rparr>)"
      by (rule exec_host [OF _ tail _ _ edges(6) host_loop z(1) l edges(7,8) port_leave(1)])
        (use r True in \<open>simp_all add: userinfo_part_def Uri_new_def\<close>)
    then show ?thesis using start True zero by (simp add: userinfo_part_def Uri_new_def)
  next
    case False
    obtain s where s: "s \<in> set host_states" "runs ?tx ?p ui 511 (None, ?u) s (Some ?p, ?u)"
      using runs_host [OF edges(6) host_loop z(1) assms(2) False] by blast
    let ?v = "?u\<lparr>u_userinfo := ui\<rparr>"
    have at: "runs ?tx (?p + length ui) [CHR ''@''] s (Some ?p, ?u) 522 (None, ?v)"
      by (rule runs_one [of s "[(64, 64)]" "[Save_userinfo]"])
        (use host_leave [OF s(1)] r False in \<open>simp_all add: userinfo_part_def\<close>)
    have run: "uri_exec ?tx ?p ?r 511 (None, ?u) =
        uri_exec ?tx (?p + length (userinfo_part ui)) (h @ port_part d @ end_part w q f) 522 (None, ?v)"
      using runs_append [OF s(2) at] False unfolding runs_def userinfo_part_def by simp
    have "uri_exec ?tx (?p + length (userinfo_part ui)) (h @ port_part d @ end_part w q f) 522 (None, ?v) =
        Uri_made (?v\<lparr>u_host := h, u_port := (if d = [] then u_port ?v else int (dec_value d)),
          u_path := w, u_query := q, u_fragment := f\<rparr>)"
      by (rule exec_host [OF drop_behind [OF r] tail _ _ edges(9) host2_loop z(2) host2_leave edges(10,11)
            port_leave(2)]) (simp_all add: Uri_new_def)
    then show ?thesis using start run zero by (simp add: Uri_new_def)
  qed
qed

definition uri_ok :: "uri \<Rightarrow> bool" where
  "uri_ok u \<longleftrightarrow> scheme_ok (u_scheme u) \<and> host_ok (u_userinfo u) \<and> host_ok (u_host u) \<and> u_host u \<noteq> [] \<and>
     0 \<le> u_port u \<and> u_port u \<le> 2147483647 \<and> path_ok (u_path u) \<and>
     escaped query_class (u_query u) \<and> escaped query_class (u_fragment u)"

lemma parse_toString:
  assumes "uri_ok u"
  shows "Uri_Create (uri_toString u) = Uri_made (u\<lparr>u_path := uri_getPath u,
    u_port := (if isDefaultPort u then 0 else u_port u)\<rparr>)"
proof -
  let ?d = "if isDefaultPort u then [] else dec_string (nat (u_port u))"
  have ne: "dec_string n \<noteq> []" for n
    using all_digits_dec_string [of n] by (auto simp: all_digits_def)
  have t: "uri_toString u = uri_text (u_scheme u) (u_userinfo u) (u_host u) ?d (uri_getPath u) (u_query u) (u_fragment u)"
    using assms ne
    by (auto simp: uri_toString_def uri_text_def userinfo_part_def port_part_def end_part_def
        query_part_def fragment_part_def int_string_def uri_ok_def)
  have d: "port_ok ?d"
    using assms all_digits_dec_string [of "nat (u_port u)"]
    by (auto simp: port_ok_def all_digits_def uri_ok_def dec_value_def [of "[]"] nat_le_iff)
  have "path_ok (uri_getPath u)"
    using assms by (auto simp: uri_ok_def uri_getPath_def path_ok_def path_class_def in_class_def)
  then show ?thesis
    using parse_uri_text [OF _ _ _ _ d] assms unfolding t
    by (simp add: uri_ok_def dec_value_def [of "[]"])
qed

text \<open>C14. The text of a URI is parsed back. For a URI with a scheme, a host of unreserved characters
  and sub-delimiters, such a user name or none, a port that is an \<open>int\<close>, and a path, query and fragment
  of their characters and percent escapes, \<open>Create\<close> of what \<open>toString\<close> writes gives the URI, with the
  path \<open>/\<close> for an empty one and port 0 for the default port of the scheme; path and port read the same.\<close>

theorem uri_round_trip:
  assumes "uri_ok u"
  shows "\<exists>v. Uri_Create (uri_toString u) = Uri_made v \<and>
    v = u\<lparr>u_path := uri_getPath u, u_port := (if isDefaultPort u then 0 else u_port u)\<rparr> \<and>
    uri_getPath v = uri_getPath u \<and> uri_getPort v = uri_getPort u"
  using parse_toString [OF assms] by (auto simp: uri_getPath_def uri_getPort_def isDefaultPort_def)

definition example_uri :: uri where
  "example_uri = \<lparr>u_scheme = ''https'', u_userinfo = ''me'', u_host = ''a.b'', u_path = [],
     u_query = ''x=%2F'', u_fragment = ''f'', u_port = 81\<rparr>"

lemma example_uri_ok: "uri_ok example_uri"
  by (simp add: uri_ok_def example_uri_def scheme_ok_def host_ok_def path_ok_def in_class_def class_defs
      signed_char_def code_def)

theorem uri_round_trip_witness:
  "uri_toString example_uri = ''https://me@a.b:81/?x=%2F#f'' \<and>
   (\<exists>v. Uri_Create (uri_toString example_uri) = Uri_made v \<and> uri_getPort v = 81 \<and> u_host v = ''a.b'')"
proof -
  have "uri_toString example_uri = ''https://me@a.b:81/?x=%2F#f''" by code_simp
  moreover have "uri_getPort example_uri = 81" "\<not> isDefaultPort example_uri"
    by (simp_all add: example_uri_def uri_getPort_def isDefaultPort_def)
  ultimately show ?thesis
    using uri_round_trip [OF example_uri_ok] by (auto simp: example_uri_def)
qed

end
