(* ===== verification/HttpClients.thy ===== *)
theory HttpClients
  imports HttpConnections Addresses UriParsers
begin

text \<open>
  Model of the client side above the connection: the address of a URI and
  \<open>HttpConnection::DoRequest\<close> (\<open>src/Http/HttpConnection.cc\<close>).
\<close>

section \<open>The address of a URI\<close>

definition createAddress ::
  "(string \<Rightarrow> string option \<Rightarrow> raw_addr list option) \<Rightarrow> uri \<Rightarrow> address option" where
  "createAddress gai u =
     map_option (\<lambda>a. setPort a (of_int (uri_getPort u))) (LookupAnyIPAddress gai (u_host u))"

section \<open>Building a request\<close>

text \<open>The loop over the header map; the flag is \<open>has_host\<close>.\<close>

fun add_headers :: "(string \<times> string) list \<Rightarrow> http_request \<times> bool \<Rightarrow> http_request \<times> bool" where
  "add_headers [] s = s"
| "add_headers ((k, v) # hs) (req, has_host) =
     (if strcasecmp_eq k ''connection'' then
        add_headers hs (if strcasecmp_eq v ''keep-alive'' then req\<lparr>rq_close := False\<rparr> else req, has_host)
      else add_headers hs
        (rq_setHeader req k v,
         if \<not> has_host \<and> strcasecmp_eq k ''host'' then v \<noteq> [] else has_host))"

definition build_request ::
  "http_method \<Rightarrow> uri \<Rightarrow> (string \<times> string) list \<Rightarrow> string \<Rightarrow> string \<Rightarrow> http_request" where
  "build_request meth u headers host body =
     (let req = (HttpRequest_new 0x11 True)\<lparr>rq_method := meth, rq_path := uri_getPath u, rq_query := u_query u,
            rq_fragment := u_fragment u, rq_close := False\<rparr>;
          (req, has_host) = add_headers headers (req, False);
          req = (if \<not> has_host then rq_setHeader req ''Host'' host else req)
      in req\<lparr>rq_body := body\<rparr>)"

section \<open>Results\<close>

datatype result_code = OK | INVALID_URL | INVALID_HOST | CONNECT_FAIL | SEND_CLOSE_BY_PEER | SEND_SOCKET_ERROR
  | TIMEOUT | CREATE_SOCKET_ERROR | POOL_GET_CONNECTION | POOL_INVALID_CONNECTION

fun result_number :: "result_code \<Rightarrow> int" where
  "result_number OK = 0" | "result_number INVALID_URL = 1" | "result_number INVALID_HOST = 2"
| "result_number CONNECT_FAIL = 3" | "result_number SEND_CLOSE_BY_PEER = 4"
| "result_number SEND_SOCKET_ERROR = 5" | "result_number TIMEOUT = 6"
| "result_number CREATE_SOCKET_ERROR = 7" | "result_number POOL_GET_CONNECTION = 8"
| "result_number POOL_INVALID_CONNECTION = 9"

record http_result =
  hr_result :: result_code
  hr_response :: "http_response option"
  hr_error :: string

definition failed :: "result_code \<Rightarrow> string \<Rightarrow> http_result" where
  "failed r text = \<lparr>hr_result = r, hr_response = None, hr_error = text\<rparr>"

definition result_toString :: "http_result \<Rightarrow> string" where
  "result_toString r =
     ''[HttpResult result='' @ int_string (result_number (hr_result r)) @ '' error='' @ hr_error r @
     '' response='' @ (case hr_response r of Some rs \<Rightarrow> rs_dump rs | None \<Rightarrow> ''nullptr'') @ '']''"

text \<open>A call ends with a result, with an exception, or in undefined behaviour.\<close>

datatype 'a client_outcome = Done 'a | Throws | Undefined

text \<open>
  Sending and receiving on a connected socket. The loop that receives the head always ends
  (\<open>response_head_returns\<close>); its missing value is counted as undefined.
\<close>

definition exchange ::
  "(nat \<Rightarrow> char) \<Rightarrow> (int \<Rightarrow> bool) \<Rightarrow> string \<Rightarrow> http_request \<Rightarrow> char sock \<Rightarrow> char sock \<times> http_result client_outcome"
where
  "exchange junk can_alloc send_error req t =
     (case sendRequest t req of
        None \<Rightarrow> (t, Undefined)
      | Some (t, rt) \<Rightarrow>
          if rt = 0 then (t, Done (failed SEND_CLOSE_BY_PEER ''peer close''))
          else if rt < 0 then (t, Done (failed SEND_SOCKET_ERROR send_error))
          else case recvResponse junk can_alloc t of
            None \<Rightarrow> (t, Undefined)
          | Some (t, Response rsp) \<Rightarrow> (t, Done \<lparr>hr_result = OK, hr_response = Some rsp, hr_error = ''ok''\<rparr>)
          | Some (t, No_response) \<Rightarrow> (t, Done (failed TIMEOUT ''recv timeout''))
          | Some (t, Body_throws) \<Rightarrow> (t, Throws)
          | Some (t, Overflow) \<Rightarrow> (t, Undefined))"

text \<open>
  One request on a connection of its own. \<open>create_socket\<close> and \<open>connect\<close> stand for the socket calls
  on the resolved address; the connection is closed when its object dies at the end.
\<close>

definition DoRequest_on ::
  "(string \<Rightarrow> string option \<Rightarrow> raw_addr list option) \<Rightarrow> (address \<Rightarrow> 'fd option) \<Rightarrow>
   ('fd \<Rightarrow> address \<Rightarrow> nat \<Rightarrow> char sock option) \<Rightarrow> (nat \<Rightarrow> char) \<Rightarrow> (int \<Rightarrow> bool) \<Rightarrow>
   http_request \<Rightarrow> uri \<Rightarrow> nat \<Rightarrow> http_result client_outcome" where
  "DoRequest_on gai create_socket connect junk can_alloc req u timeout_ms =
     (case createAddress gai u of
        None \<Rightarrow> Done (failed INVALID_HOST ''invalid host'')
      | Some addr \<Rightarrow>
          (case create_socket addr of
             None \<Rightarrow> Done (failed CREATE_SOCKET_ERROR ''create sock fail'')
           | Some fd \<Rightarrow>
               (case connect fd addr timeout_ms of
                  None \<Rightarrow> Done (failed CONNECT_FAIL ''connect fail'')
                | Some t \<Rightarrow> snd (exchange junk can_alloc ''send error'' req t))))"

definition DoRequest_uri ::
  "(string \<Rightarrow> string option \<Rightarrow> raw_addr list option) \<Rightarrow> (address \<Rightarrow> 'fd option) \<Rightarrow>
   ('fd \<Rightarrow> address \<Rightarrow> nat \<Rightarrow> char sock option) \<Rightarrow> (nat \<Rightarrow> char) \<Rightarrow> (int \<Rightarrow> bool) \<Rightarrow>
   http_method \<Rightarrow> uri \<Rightarrow> nat \<Rightarrow> (string \<times> string) list \<Rightarrow> string \<Rightarrow> http_result client_outcome" where
  "DoRequest_uri gai create_socket connect junk can_alloc meth u timeout_ms headers body =
     DoRequest_on gai create_socket connect junk can_alloc (build_request meth u headers (u_host u) body) u timeout_ms"

definition DoRequest_url ::
  "(string \<Rightarrow> string option \<Rightarrow> raw_addr list option) \<Rightarrow> (address \<Rightarrow> 'fd option) \<Rightarrow>
   ('fd \<Rightarrow> address \<Rightarrow> nat \<Rightarrow> char sock option) \<Rightarrow> (nat \<Rightarrow> char) \<Rightarrow> (int \<Rightarrow> bool) \<Rightarrow>
   http_method \<Rightarrow> string \<Rightarrow> nat \<Rightarrow> (string \<times> string) list \<Rightarrow> string \<Rightarrow> http_result client_outcome" where
  "DoRequest_url gai create_socket connect junk can_alloc meth url timeout_ms headers body =
     (case Uri_Create url of
        Uri_null \<Rightarrow> Done (failed INVALID_URL ''invalid url'')
      | Uri_made u \<Rightarrow> DoRequest_uri gai create_socket connect junk can_alloc meth u timeout_ms headers body
      | Uri_undefined \<Rightarrow> Undefined)"

definition DoGet_url ::
  "(string \<Rightarrow> string option \<Rightarrow> raw_addr list option) \<Rightarrow> (address \<Rightarrow> 'fd option) \<Rightarrow>
   ('fd \<Rightarrow> address \<Rightarrow> nat \<Rightarrow> char sock option) \<Rightarrow> (nat \<Rightarrow> char) \<Rightarrow> (int \<Rightarrow> bool) \<Rightarrow>
   string \<Rightarrow> nat \<Rightarrow> (string \<times> string) list \<Rightarrow> string \<Rightarrow> http_result client_outcome" where
  "DoGet_url gai create_socket connect junk can_alloc url timeout_ms headers body =
     (case Uri_Create url of
        Uri_null \<Rightarrow> Done (failed INVALID_URL ''invalid url'')
      | Uri_made u \<Rightarrow> DoRequest_uri gai create_socket connect junk can_alloc HTTP_GET u timeout_ms headers body
      | Uri_undefined \<Rightarrow> Undefined)"

definition DoGet_uri ::
  "(string \<Rightarrow> string option \<Rightarrow> raw_addr list option) \<Rightarrow> (address \<Rightarrow> 'fd option) \<Rightarrow>
   ('fd \<Rightarrow> address \<Rightarrow> nat \<Rightarrow> char sock option) \<Rightarrow> (nat \<Rightarrow> char) \<Rightarrow> (int \<Rightarrow> bool) \<Rightarrow>
   uri \<Rightarrow> nat \<Rightarrow> (string \<times> string) list \<Rightarrow> string \<Rightarrow> http_result client_outcome" where
  "DoGet_uri gai create_socket connect junk can_alloc u timeout_ms headers body =
     DoRequest_uri gai create_socket connect junk can_alloc HTTP_GET u timeout_ms headers body"

definition DoPost_url ::
  "(string \<Rightarrow> string option \<Rightarrow> raw_addr list option) \<Rightarrow> (address \<Rightarrow> 'fd option) \<Rightarrow>
   ('fd \<Rightarrow> address \<Rightarrow> nat \<Rightarrow> char sock option) \<Rightarrow> (nat \<Rightarrow> char) \<Rightarrow> (int \<Rightarrow> bool) \<Rightarrow>
   string \<Rightarrow> nat \<Rightarrow> (string \<times> string) list \<Rightarrow> string \<Rightarrow> http_result client_outcome" where
  "DoPost_url gai create_socket connect junk can_alloc url timeout_ms headers body =
     (case Uri_Create url of
        Uri_null \<Rightarrow> Done (failed INVALID_URL ''invalid url'')
      | Uri_made u \<Rightarrow> DoRequest_uri gai create_socket connect junk can_alloc HTTP_POST u timeout_ms headers body
      | Uri_undefined \<Rightarrow> Undefined)"

definition DoPost_uri ::
  "(string \<Rightarrow> string option \<Rightarrow> raw_addr list option) \<Rightarrow> (address \<Rightarrow> 'fd option) \<Rightarrow>
   ('fd \<Rightarrow> address \<Rightarrow> nat \<Rightarrow> char sock option) \<Rightarrow> (nat \<Rightarrow> char) \<Rightarrow> (int \<Rightarrow> bool) \<Rightarrow>
   uri \<Rightarrow> nat \<Rightarrow> (string \<times> string) list \<Rightarrow> string \<Rightarrow> http_result client_outcome" where
  "DoPost_uri gai create_socket connect junk can_alloc u timeout_ms headers body =
     DoRequest_uri gai create_socket connect junk can_alloc HTTP_POST u timeout_ms headers body"

section \<open>Built requests\<close>

definition host_values :: "(string \<times> string) list \<Rightarrow> string list" where
  "host_values headers = map snd (filter (\<lambda>(k, v). strcasecmp_eq k ''host'') headers)"

lemma strcasecmp_eq_trans: "strcasecmp_eq a b \<Longrightarrow> strcasecmp_eq a c \<longleftrightarrow> strcasecmp_eq b c"
  by (auto simp: strcasecmp_eq_def)

lemma strcasecmp_eq_sym: "strcasecmp_eq a b \<longleftrightarrow> strcasecmp_eq b a"
  by (auto simp: strcasecmp_eq_def)

lemma add_headers_fields:
  assumes "add_headers hs (req, f) = (req', f')" "ci_sorted (rq_headers req)"
  shows "rq_method req' = rq_method req \<and> rq_path req' = rq_path req \<and> rq_query req' = rq_query req \<and>
    (rq_close req' \<longrightarrow> rq_close req) \<and> ci_sorted (rq_headers req') \<and>
    f' = (f \<or> (\<exists>v \<in> set (host_values hs). v \<noteq> [])) \<and>
    (strcasecmp_eq k ''connection'' \<longrightarrow> ci_find k (rq_headers req') = ci_find k (rq_headers req)) \<and>
    (strcasecmp_eq k ''host'' \<longrightarrow> ci_find k (rq_headers req') =
       (if host_values hs = [] then ci_find k (rq_headers req) else Some (last (host_values hs))))"
  using assms
proof (induction hs arbitrary: req f)
  case Nil
  then show ?case by (simp add: host_values_def)
next
  case (Cons h hs)
  obtain n v where h: "h = (n, v)" by (cases h)
  have d: "\<not> strcasecmp_eq ''connection'' ''host''" by code_simp
  show ?case
  proof (cases "strcasecmp_eq n ''connection''")
    case True
    then have "\<not> strcasecmp_eq n ''host''" using d strcasecmp_eq_trans by blast
    then have hv: "host_values (h # hs) = host_values hs" by (simp add: host_values_def h)
    have "add_headers hs (if strcasecmp_eq v ''keep-alive'' then req\<lparr>rq_close := False\<rparr> else req, f) = (req', f')"
      using Cons.prems(1) True by (simp add: h)
    from Cons.IH [OF this] Cons.prems(2) show ?thesis unfolding hv
      by (cases "strcasecmp_eq v ''keep-alive''") auto
  next
    case False
    let ?f = "if \<not> f \<and> strcasecmp_eq n ''host'' then v \<noteq> [] else f"
    have s: "ci_sorted (rq_headers (rq_setHeader req n v))"
      using Cons.prems(2) by (simp add: rq_setHeader_def)
    have a: "add_headers hs (rq_setHeader req n v, ?f) = (req', f')"
      using Cons.prems(1) False by (simp add: h)
    have c: "strcasecmp_eq k ''connection'' \<Longrightarrow> \<not> strcasecmp_eq k n"
      using False strcasecmp_eq_trans by blast
    have f: "ci_find k (rq_headers (rq_setHeader req n v)) =
        (if strcasecmp_eq k n then Some v else ci_find k (rq_headers req))"
      using Cons.prems(2) by (simp add: rq_setHeader_def ci_find_ops(1))
    have e: "strcasecmp_eq k ''host'' \<Longrightarrow> strcasecmp_eq k n \<longleftrightarrow> strcasecmp_eq n ''host''"
      using strcasecmp_eq_trans strcasecmp_eq_sym by blast
    have hv: "host_values (h # hs) = (if strcasecmp_eq n ''host'' then v # host_values hs else host_values hs)"
      by (simp add: host_values_def h)
    have q: "rq_method (rq_setHeader req n v) = rq_method req" "rq_path (rq_setHeader req n v) = rq_path req"
      "rq_query (rq_setHeader req n v) = rq_query req" "rq_close (rq_setHeader req n v) = rq_close req"
      by (simp_all add: rq_setHeader_def)
    show ?thesis
      using Cons.IH [OF a s] c e unfolding hv f q by auto
  qed
qed

lemma built_fields:
  defines "req u meth \<equiv> (HttpRequest_new 0x11 True)\<lparr>rq_method := meth, rq_path := uri_getPath u,
            rq_query := u_query u, rq_fragment := u_fragment u, rq_close := False\<rparr>"
  shows "rq_method (build_request meth u hs host body) = meth" "rq_path (build_request meth u hs host body) = uri_getPath u"
    "rq_query (build_request meth u hs host body) = u_query u" "\<not> rq_close (build_request meth u hs host body)"
    "rq_body (build_request meth u hs host body) = body"
    "ci_find ''Connection'' (rq_headers (build_request meth u hs host body)) = None"
    "ci_find ''Host'' (rq_headers (build_request meth u hs host body)) =
       Some (if \<exists>v \<in> set (host_values hs). v \<noteq> [] then last (host_values hs) else host)"
proof -
  obtain r f where a: "add_headers hs (req u meth, False) = (r, f)" by (metis surj_pair)
  have s: "ci_sorted (rq_headers (req u meth))" by (simp add: req_def HttpRequest_new_def)
  have b: "build_request meth u hs host body = (if \<not> f then rq_setHeader r ''Host'' host else r)\<lparr>rq_body := body\<rparr>"
    using a by (simp add: build_request_def req_def)
  have k: "strcasecmp_eq ''Connection'' ''connection''" "strcasecmp_eq ''Host'' ''host''"
    "\<not> strcasecmp_eq ''Connection'' ''Host''" "strcasecmp_eq ''Host'' ''Host''" by code_simp+
  note c = add_headers_fields [OF a s, of "''Connection''"] and h = add_headers_fields [OF a s, of "''Host''"]
  have q: "rq_method (rq_setHeader r ''Host'' host) = rq_method r" "rq_path (rq_setHeader r ''Host'' host) = rq_path r"
    "rq_query (rq_setHeader r ''Host'' host) = rq_query r" "rq_close (rq_setHeader r ''Host'' host) = rq_close r"
    by (simp_all add: rq_setHeader_def)
  have i: "rq_method (req u meth) = meth" "rq_path (req u meth) = uri_getPath u" "rq_query (req u meth) = u_query u"
    "\<not> rq_close (req u meth)" "ci_find k (rq_headers (req u meth)) = None" for k
    by (simp_all add: req_def HttpRequest_new_def)
  show "rq_method (build_request meth u hs host body) = meth" "rq_path (build_request meth u hs host body) = uri_getPath u"
    "rq_query (build_request meth u hs host body) = u_query u" "\<not> rq_close (build_request meth u hs host body)"
    "rq_body (build_request meth u hs host body) = body"
    unfolding b using c q i by auto
  have f: "ci_find j (rq_headers (rq_setHeader r ''Host'' host)) =
      (if strcasecmp_eq j ''Host'' then Some host else ci_find j (rq_headers r))" for j
    using c by (simp add: rq_setHeader_def ci_find_ops(1))
  show "ci_find ''Connection'' (rq_headers (build_request meth u hs host body)) = None"
    unfolding b using c k f [of "''Connection''"] i(5) by auto
  show "ci_find ''Host'' (rq_headers (build_request meth u hs host body)) =
       Some (if \<exists>v \<in> set (host_values hs). v \<noteq> [] then last (host_values hs) else host)"
    unfolding b using h k f [of "''Host''"] i(5) by auto
qed

section \<open>An exchange\<close>

text \<open>One printed request out, one printed response in.\<close>

lemma exchange_ok:
  assumes "rq_dump req = Some msg" "msg \<noteq> []" "length msg \<le> n" "length msg < 2 ^ 31" "room t = n # ns"
    and "sendable_response rs" "rs_dump rs = h @ rs_body rs" "sock_ok t" "incoming t = (h @ extra) # segs"
    and "length (h @ extra) \<le> buff_size" "extra @ concat segs = rs_body rs @ later" "length extra \<le> length (rs_body rs)"
    and "length (rs_body rs) < 2 ^ 31" "can_alloc (int (length (rs_body rs)))"
  shows "\<exists>t' rs'. exchange junk can_alloc err req t =
      (t', Done \<lparr>hr_result = OK, hr_response = Some rs', hr_error = ''ok''\<rparr>) \<and>
    outgoing t' = outgoing t @ msg \<and> sock_ok t' \<and> pending t' = later \<and> rs_status rs' = rs_status rs \<and>
    rs_body rs' = take (length extra) (h @ extra) @ drop (length extra) (rs_body rs)"
proof -
  let ?t = "t\<lparr>room := ns, outgoing := outgoing t @ msg\<rparr>"
  let ?b = "take (length extra) (h @ extra) @ drop (length extra) (rs_body rs)"
  let ?r = "(fill_response (response_sent_as rs) (HttpResponse_new 0x11 True))\<lparr>rs_body := ?b\<rparr>"
  have con: "is_connected t" using assms(8) by (simp add: sock_ok_def)
  have send: "sendRequest t req = Some (?t, int (length msg))"
    using send_in_one [OF con assms(5,2,3,4)] assms(1) by (simp add: sendRequest_def)
  have h: "h = show_response (response_sent_as rs)" using rs_dump_show [OF assms(6)] assms(7) by simp
  have ok: "sock_ok ?t" "incoming ?t = (h @ extra) # segs" using assms(8,9) by (simp_all add: sock_ok_def)
  have c: "concat segs = drop (length extra) (rs_body rs) @ later"
    using arg_cong [OF assms(11), of "drop (length extra)"] assms(12) by simp
  have l: "length (rs_body rs) \<le> length extra + length (concat segs)" using c assms(12) by simp
  have "take (length (rs_body rs)) (take (length extra) (h @ extra)) = take (length extra) (h @ extra)"
    "take (length (rs_body rs) - length extra) (concat segs) = drop (length extra) (rs_body rs)"
    "drop (length (rs_body rs) - length extra) (concat segs) = later"
    using assms(12) c by (simp_all add: min_def)
  then obtain t' where t': "recvResponse junk can_alloc ?t = Some (t', Response ?r)" "sock_ok t'" "pending t' = later"
    "outgoing t' = outgoing t @ msg"
    using recvResponse_segment [where can_alloc = can_alloc and junk = junk, OF assms(6) h ok assms(10,14,13) l] by auto
  have "rs_status ?r = rs_status rs" using filled_response(1) [OF assms(6) refl] by simp
  moreover have "0 < int (length msg)" using assms(2) by simp
  ultimately show ?thesis
    using send t' by (intro exI [of _ t'] exI [of _ ?r]) (simp add: exchange_def)
qed

section \<open>Properties\<close>

text \<open>C34. The request built from an URI and a header map: method, target and body as given, a \<open>Host\<close>
  header in every case (the map's last one if the map has a non-empty one, the URI's or the
  pool's host otherwise), and always keep-alive: a \<open>Connection\<close> header of the map is neither
  copied nor, when it says \<open>close\<close>, obeyed.\<close>

theorem built_request:
  "rq_method (build_request meth u hs host body) = meth \<and>
   rq_path (build_request meth u hs host body) = uri_getPath u \<and>
   rq_query (build_request meth u hs host body) = u_query u \<and>
   rq_body (build_request meth u hs host body) = body \<and>
   \<not> rq_close (build_request meth u hs host body) \<and>
   ci_find ''Connection'' (rq_headers (build_request meth u hs host body)) = None \<and>
   ci_find ''Host'' (rq_headers (build_request meth u hs host body)) =
     Some (if \<exists>v \<in> set (host_values hs). v \<noteq> [] then last (host_values hs) else host)"
  using built_fields by (intro conjI) simp_all

theorem built_request_witness:
  "rq_headers (build_request HTTP_GET (Uri_new\<lparr>u_path := ''/a''\<rparr>) [(''connection'', ''close''), (''host'', [])] ''h'' []) =
     [(''host'', ''h'')] \<and>
   \<not> rq_close (build_request HTTP_GET (Uri_new\<lparr>u_path := ''/a''\<rparr>) [(''connection'', ''close''), (''host'', [])] ''h'' [])"
proof -
  have "rq_headers (build_request HTTP_GET (Uri_new\<lparr>u_path := ''/a''\<rparr>) [(''connection'', ''close''), (''host'', [])] ''h'' []) =
     [(''host'', ''h'')]" by code_simp
  then show ?thesis
    using built_request [of HTTP_GET "Uri_new\<lparr>u_path := ''/a''\<rparr>" "[(''connection'', ''close''), (''host'', [])]" "''h''" "[]"]
    by blast
qed

end
