(* ===== verification/HttpPools.thy ===== *)
theory HttpPools
  imports HttpClients
begin

text \<open>
  Model of \<open>HttpConnectionPool\<close> (\<open>src/Http/HttpConnection.cc\<close>): a list of idle connections, a
  counter of all connections the pool has open, and the requests made through it. Times are the
  milliseconds of \<open>GetCurrentMS\<close>, read where the code reads them; adding the life time wraps
  around at 64 bits, the counter at 32. A new connection is a parameter (\<open>fresh\<close>): the socket
  that resolving, creating and connecting give, if they all succeed.
\<close>

section \<open>State\<close>

record pooled =
  c_sock :: "char sock"
  m_createTime :: nat
  m_request :: nat

record pool =
  m_host :: string
  m_vhost :: string
  m_port :: u32
  m_maxSize :: u32
  m_maxAliveTime :: u32
  m_maxRequest :: u32
  m_isHttps :: bool
  m_conns :: "pooled list"
  m_total :: u32

definition HttpConnectionPool_new ::
  "string \<Rightarrow> string \<Rightarrow> u32 \<Rightarrow> bool \<Rightarrow> u32 \<Rightarrow> u32 \<Rightarrow> u32 \<Rightarrow> pool" where
  "HttpConnectionPool_new host vhost port is_https max_size max_alive_time max_request =
     \<lparr>m_host = host, m_vhost = vhost, m_port = port, m_maxSize = max_size, m_maxAliveTime = max_alive_time,
      m_maxRequest = max_request, m_isHttps = is_https, m_conns = [], m_total = 0\<rparr>"

definition Pool_Create :: "string \<Rightarrow> string \<Rightarrow> u32 \<Rightarrow> u32 \<Rightarrow> u32 \<Rightarrow> pool option client_outcome" where
  "Pool_Create url vhost max_size max_alive_time max_request =
     (case Uri_Create url of
        Uri_null \<Rightarrow> Done None
      | Uri_made turi \<Rightarrow> Done (Some (HttpConnectionPool_new (u_host turi) vhost (of_int (uri_getPort turi))
          (u_scheme turi = ''https'') max_size max_alive_time max_request))
      | Uri_undefined \<Rightarrow> Undefined)"

definition expires :: "pool \<Rightarrow> pooled \<Rightarrow> nat" where
  "expires p c = (m_createTime c + unat (m_maxAliveTime p)) mod 2 ^ 64"

section \<open>Operations\<close>

text \<open>
  The scan of \<open>getConnection\<close>: the first usable connection, what is left of the list, and the
  connections to delete.
\<close>

fun pick :: "pool \<Rightarrow> nat \<Rightarrow> pooled list \<Rightarrow> pooled option \<times> pooled list \<times> pooled list" where
  "pick p now_ms [] = (None, [], [])"
| "pick p now_ms (c # cs) =
     (if is_connected (c_sock c) \<and> expires p c > now_ms then (Some c, cs, [])
      else let (found, rest, invalid) = pick p now_ms cs in (found, rest, c # invalid))"

definition getConnection ::
  "pool \<Rightarrow> nat \<Rightarrow> nat \<Rightarrow> char sock option \<Rightarrow> pool \<times> pooled option \<times> pooled list" where
  "getConnection p now_ms later_ms fresh =
     (let (found, rest, invalid) = pick p now_ms (m_conns p);
          p = p\<lparr>m_conns := rest, m_total := m_total p - of_nat (length invalid)\<rparr>
      in case found of
           Some c \<Rightarrow> (p, Some c, invalid)
         | None \<Rightarrow>
             (case fresh of
                None \<Rightarrow> (p, None, invalid)
              | Some t \<Rightarrow> (p\<lparr>m_total := m_total p + 1\<rparr>,
                           Some \<lparr>c_sock = t, m_createTime = later_ms, m_request = 0\<rparr>, invalid)))"

text \<open>The second result is the connection when it was deleted instead of kept.\<close>

definition ReleasePtr :: "pool \<Rightarrow> nat \<Rightarrow> pooled \<Rightarrow> pool \<times> pooled list" where
  "ReleasePtr p now_ms c =
     (let c = c\<lparr>m_request := m_request c + 1\<rparr> in
      if \<not> is_connected (c_sock c) \<or> expires p c \<le> now_ms \<or> m_request c \<ge> unat (m_maxRequest p)
      then (p\<lparr>m_total := m_total p - 1\<rparr>, [c])
      else (p\<lparr>m_conns := m_conns p @ [c]\<rparr>, []))"

definition cleanExpiredConnections :: "pool \<Rightarrow> nat \<Rightarrow> pool \<times> pooled list" where
  "cleanExpiredConnections p now_ms =
     (let bad = (\<lambda>c. \<not> is_connected (c_sock c) \<or> expires p c \<le> now_ms);
          invalid = filter bad (m_conns p)
      in (p\<lparr>m_conns := filter (\<lambda>c. \<not> bad c) (m_conns p),
            m_total := m_total p - of_nat (length invalid)\<rparr>, invalid))"

definition Pool_delete :: "pool \<Rightarrow> pool \<times> pooled list" where
  "Pool_delete p = (p\<lparr>m_conns := []\<rparr>, m_conns p)"

section \<open>Requests\<close>

text \<open>The connection goes back to the pool when the request is over.\<close>

definition pool_doRequest ::
  "(nat \<Rightarrow> char) \<Rightarrow> (int \<Rightarrow> bool) \<Rightarrow> pool \<Rightarrow> nat \<Rightarrow> nat \<Rightarrow> nat \<Rightarrow> char sock option \<Rightarrow> http_request \<Rightarrow>
   pool \<times> http_result client_outcome" where
  "pool_doRequest junk can_alloc p now_ms later_ms end_ms fresh req =
     (let (p, conn, invalid) = getConnection p now_ms later_ms fresh in
      case conn of
        None \<Rightarrow> (p, Done (failed POOL_GET_CONNECTION ''get conn fail''))
      | Some c \<Rightarrow>
          let (t, res) = exchange junk can_alloc ''socket error'' req (c_sock c);
              (p, gone) = ReleasePtr p end_ms (c\<lparr>c_sock := t\<rparr>)
          in (p, res))"

definition pool_doRequest_uri ::
  "(nat \<Rightarrow> char) \<Rightarrow> (int \<Rightarrow> bool) \<Rightarrow> pool \<Rightarrow> nat \<Rightarrow> nat \<Rightarrow> nat \<Rightarrow> char sock option \<Rightarrow>
   http_method \<Rightarrow> uri \<Rightarrow> (string \<times> string) list \<Rightarrow> string \<Rightarrow> pool \<times> http_result client_outcome" where
  "pool_doRequest_uri junk can_alloc p now_ms later_ms end_ms fresh meth u headers body =
     pool_doRequest junk can_alloc p now_ms later_ms end_ms fresh
       (build_request meth u headers (if m_vhost p = [] then m_host p else m_vhost p) body)"

definition pool_doRequest_url ::
  "(nat \<Rightarrow> char) \<Rightarrow> (int \<Rightarrow> bool) \<Rightarrow> pool \<Rightarrow> nat \<Rightarrow> nat \<Rightarrow> nat \<Rightarrow> char sock option \<Rightarrow>
   http_method \<Rightarrow> string \<Rightarrow> (string \<times> string) list \<Rightarrow> string \<Rightarrow> pool \<times> http_result client_outcome" where
  "pool_doRequest_url junk can_alloc p now_ms later_ms end_ms fresh meth url headers body =
     (case Uri_Create url of
        Uri_null \<Rightarrow> (p, Done (failed INVALID_URL ''invalid url''))
      | Uri_made u \<Rightarrow> pool_doRequest_uri junk can_alloc p now_ms later_ms end_ms fresh meth u headers body
      | Uri_undefined \<Rightarrow> (p, Undefined))"

definition pool_doGet_url ::
  "(nat \<Rightarrow> char) \<Rightarrow> (int \<Rightarrow> bool) \<Rightarrow> pool \<Rightarrow> nat \<Rightarrow> nat \<Rightarrow> nat \<Rightarrow> char sock option \<Rightarrow>
   string \<Rightarrow> (string \<times> string) list \<Rightarrow> string \<Rightarrow> pool \<times> http_result client_outcome" where
  "pool_doGet_url junk can_alloc p now_ms later_ms end_ms fresh url headers body =
     pool_doRequest_url junk can_alloc p now_ms later_ms end_ms fresh HTTP_GET url headers body"

definition pool_doGet_uri ::
  "(nat \<Rightarrow> char) \<Rightarrow> (int \<Rightarrow> bool) \<Rightarrow> pool \<Rightarrow> nat \<Rightarrow> nat \<Rightarrow> nat \<Rightarrow> char sock option \<Rightarrow>
   uri \<Rightarrow> (string \<times> string) list \<Rightarrow> string \<Rightarrow> pool \<times> http_result client_outcome" where
  "pool_doGet_uri junk can_alloc p now_ms later_ms end_ms fresh u headers body =
     pool_doRequest_uri junk can_alloc p now_ms later_ms end_ms fresh HTTP_GET u headers body"

definition pool_doPost_url ::
  "(nat \<Rightarrow> char) \<Rightarrow> (int \<Rightarrow> bool) \<Rightarrow> pool \<Rightarrow> nat \<Rightarrow> nat \<Rightarrow> nat \<Rightarrow> char sock option \<Rightarrow>
   string \<Rightarrow> (string \<times> string) list \<Rightarrow> string \<Rightarrow> pool \<times> http_result client_outcome" where
  "pool_doPost_url junk can_alloc p now_ms later_ms end_ms fresh url headers body =
     pool_doRequest_url junk can_alloc p now_ms later_ms end_ms fresh HTTP_POST url headers body"

definition pool_doPost_uri ::
  "(nat \<Rightarrow> char) \<Rightarrow> (int \<Rightarrow> bool) \<Rightarrow> pool \<Rightarrow> nat \<Rightarrow> nat \<Rightarrow> nat \<Rightarrow> char sock option \<Rightarrow>
   uri \<Rightarrow> (string \<times> string) list \<Rightarrow> string \<Rightarrow> pool \<times> http_result client_outcome" where
  "pool_doPost_uri junk can_alloc p now_ms later_ms end_ms fresh u headers body =
     pool_doRequest_uri junk can_alloc p now_ms later_ms end_ms fresh HTTP_POST u headers body"

section \<open>Requests by the text of a URI\<close>

lemma request_after_parse:
  fixes u :: uri
  defines "v \<equiv> u\<lparr>u_path := uri_getPath u, u_port := (if isDefaultPort u then 0 else u_port u)\<rparr>"
  shows "DoRequest_uri gai create_socket connect junk can_alloc meth v timeout_ms headers body =
      DoRequest_uri gai create_socket connect junk can_alloc meth u timeout_ms headers body"
    and "build_request meth v headers host body = build_request meth u headers host body"
    and "uri_getPort v = uri_getPort u"
proof -
  have f: "uri_getPath v = uri_getPath u" "uri_getPort v = uri_getPort u" "u_host v = u_host u"
    "u_query v = u_query u" "u_fragment v = u_fragment u"
    by (auto simp: v_def uri_getPath_def uri_getPort_def isDefaultPort_def)
  then show b: "build_request meth v headers host body = build_request meth u headers host body"
    and "uri_getPort v = uri_getPort u" for host
    by (simp_all add: build_request_def)
  show "DoRequest_uri gai create_socket connect junk can_alloc meth v timeout_ms headers body =
      DoRequest_uri gai create_socket connect junk can_alloc meth u timeout_ms headers body"
    using f b by (simp add: DoRequest_uri_def DoRequest_on_def createAddress_def)
qed

text \<open>C15. A request by the text of a URI is the request by the URI: for every well-formed URI, what
  \<open>DoRequest\<close>, the pool's \<open>doRequest\<close> and the creation of a pool do with the text that \<open>toString\<close> writes is
  what they do with the URI itself, whatever the resolver, the sockets and the peers answer.\<close>

theorem url_is_uri:
  assumes "uri_ok u"
  shows "DoRequest_url gai create_socket connect junk can_alloc meth (uri_toString u) timeout_ms headers body =
      DoRequest_uri gai create_socket connect junk can_alloc meth u timeout_ms headers body \<and>
    pool_doRequest_url junk can_alloc p now_ms later_ms end_ms fresh meth (uri_toString u) headers body =
      pool_doRequest_uri junk can_alloc p now_ms later_ms end_ms fresh meth u headers body \<and>
    Pool_Create (uri_toString u) vhost max_size max_alive_time max_request =
      Done (Some (HttpConnectionPool_new (u_host u) vhost (of_int (uri_getPort u)) (u_scheme u = ''https'')
        max_size max_alive_time max_request))"
proof -
  define v where "v = u\<lparr>u_path := uri_getPath u, u_port := (if isDefaultPort u then 0 else u_port u)\<rparr>"
  have p: "Uri_Create (uri_toString u) = Uri_made v"
    using parse_toString [OF assms] by (simp only: v_def)
  have "u_host v = u_host u" "u_scheme v = u_scheme u" by (simp_all add: v_def)
  then show ?thesis
    using request_after_parse [where u = u, folded v_def] p
    by (simp add: DoRequest_url_def pool_doRequest_url_def pool_doRequest_uri_def Pool_Create_def)
qed

theorem url_is_uri_witness:
  "uri_ok example_uri \<and>
   Pool_Create (uri_toString example_uri) [] 1 2 3 =
     Done (Some (HttpConnectionPool_new ''a.b'' [] 81 True 1 2 3))"
  using url_is_uri [OF example_uri_ok, THEN conjunct2, THEN conjunct2, of "[]" 1 2 3] example_uri_ok
  by (simp add: example_uri_def uri_getPort_def)

section \<open>The pool in use\<close>

text \<open>
  The pool and the connections that are lent out. While a connection is lent its user may do
  anything to its socket; its other fields are the pool's.
\<close>

inductive pool_step :: "pool \<times> pooled list \<Rightarrow> pool \<times> pooled list \<Rightarrow> bool" where
  lend: "getConnection p now_ms later_ms fresh = (p', Some c, gone) \<Longrightarrow> pool_step (p, lent) (p', c # lent)"
| fail: "getConnection p now_ms later_ms fresh = (p', None, gone) \<Longrightarrow> pool_step (p, lent) (p', lent)"
| return: "c \<in> set lent \<Longrightarrow> ReleasePtr p now_ms (c\<lparr>c_sock := t\<rparr>) = (p', gone) \<Longrightarrow>
    pool_step (p, lent) (p', remove1 c lent)"
| clean: "cleanExpiredConnections p now_ms = (p', gone) \<Longrightarrow> pool_step (p, lent) (p', lent)"

inductive_cases pool_stepE: "pool_step (p, lent) (p', lent')"

inductive pool_run :: "pool \<times> pooled list \<Rightarrow> pool \<times> pooled list \<Rightarrow> bool" where
  start: "pool_run s s"
| step: "pool_run s s' \<Longrightarrow> pool_step s' s'' \<Longrightarrow> pool_run s s''"

text \<open>The counter is the number of open connections, and no idle one has used up its requests.\<close>

definition pool_inv :: "pool \<times> pooled list \<Rightarrow> bool" where
  "pool_inv s \<longleftrightarrow>
     m_total (fst s) = of_nat (length (m_conns (fst s)) + length (snd s)) \<and>
     (\<forall>c \<in> set (m_conns (fst s)). m_request c < unat (m_maxRequest (fst s)))"

lemma pick_split:
  "pick p now_ms cs = (found, rest, invalid) \<Longrightarrow>
     set rest \<subseteq> set cs \<and> length cs = length rest + length invalid + (if found = None then 0 else 1) \<and>
     (\<forall>c. found = Some c \<longrightarrow> c \<in> set cs \<and> is_connected (c_sock c) \<and> now_ms < expires p c)"
  by (induction p now_ms cs arbitrary: found rest invalid rule: pick.induct)
    (auto split: if_splits prod.splits)

lemma pool_step_inv:
  assumes "pool_step s s'" "pool_inv s"
  shows "pool_inv s'"
  using assms
proof (induction rule: pool_step.induct)
  case (lend p now_ms later_ms fresh p' c gone lent)
  obtain found rest invalid where k: "pick p now_ms (m_conns p) = (found, rest, invalid)" by (metis surj_pair)
  show ?case
    using lend pick_split [OF k] k
    by (auto simp: getConnection_def pool_inv_def Let_def split: option.splits)
next
  case (fail p now_ms later_ms fresh p' gone lent)
  obtain found rest invalid where k: "pick p now_ms (m_conns p) = (found, rest, invalid)" by (metis surj_pair)
  show ?case
    using fail pick_split [OF k] k
    by (auto simp: getConnection_def pool_inv_def Let_def split: option.splits)
next
  case (return c lent p now_ms t p' gone)
  have "length lent = Suc (length (remove1 c lent))"
    using return(1) by (simp add: length_remove1) (metis Suc_pred length_pos_if_in_set)
  then show ?case
    using return by (auto simp: ReleasePtr_def pool_inv_def Let_def split: if_splits)
next
  case (clean p now_ms p' gone lent)
  have "length (m_conns p) = length (filter P (m_conns p)) + length (filter (\<lambda>c. \<not> P c) (m_conns p))" for P
    using sum_length_filter_compl [of P "m_conns p"] by simp
  from this [of "\<lambda>c. \<not> is_connected (c_sock c) \<or> expires p c \<le> now_ms"]
  show ?case
    using clean by (auto simp: cleanExpiredConnections_def pool_inv_def Let_def)
qed

lemma pool_run_inv: "pool_run s s' \<Longrightarrow> pool_inv s \<Longrightarrow> pool_inv s'"
  by (induction rule: pool_run.induct) (auto intro: pool_step_inv)

lemma pool_inv_new: "pool_inv (HttpConnectionPool_new host vhost port https max_size alive requests, [])"
  by (simp add: pool_inv_def HttpConnectionPool_new_def)


text \<open>Every deleted connection was unusable, and what is handed out from the list is usable.\<close>

lemma pick_None: "pick p now_ms cs = (None, rest, invalid) \<Longrightarrow> rest = []"
  by (induction p now_ms cs arbitrary: rest invalid rule: pick.induct) (auto split: if_splits prod.splits)

lemma pick_invalid:
  "pick p now_ms cs = (found, rest, invalid) \<Longrightarrow>
     \<forall>c \<in> set invalid. \<not> is_connected (c_sock c) \<or> expires p c \<le> now_ms"
  by (induction p now_ms cs arbitrary: found rest invalid rule: pick.induct)
    (auto split: if_splits prod.splits)

definition idle_pool :: "u32 \<Rightarrow> pool" where
  "idle_pool max_size = HttpConnectionPool_new ''h'' [] 80 False max_size 1000 10"

definition fresh_sock :: "char sock" where
  "fresh_sock = \<lparr>is_connected = True, incoming = [], at_end = 0, room = [], outgoing = []\<rparr>"

lemma lend_fresh:
  assumes "m_conns p = []"
  shows "pool_step (p, lent) (p\<lparr>m_total := m_total p + 1\<rparr>, \<lparr>c_sock = fresh_sock, m_createTime = 5, m_request = 0\<rparr> # lent)"
  by (rule pool_step.lend [of p 5 5 "Some fresh_sock" _ _ "[]"]) (simp add: getConnection_def assms)

section \<open>Properties\<close>

text \<open>C35. Accounting of the pool: after any sequence of lending, returning and cleaning, the counter
  is the number of idle and lent connections, and every idle connection has requests left.\<close>

theorem pool_accounting:
  assumes "pool_run (HttpConnectionPool_new host vhost port https max_size alive requests, []) (p, lent)"
  shows "m_total p = of_nat (length (m_conns p) + length lent) \<and>
    (\<forall>c \<in> set (m_conns p). m_request c < unat (m_maxRequest p))"
  using pool_run_inv [OF assms pool_inv_new] by (simp add: pool_inv_def)

theorem pool_accounting_witness:
  "\<exists>p lent. pool_run (idle_pool 1, []) (p, lent) \<and> length lent = 1 \<and> m_total p = of_nat (length (m_conns p) + length lent)"
proof -
  have "pool_run (idle_pool 1, [])
      (idle_pool 1\<lparr>m_total := m_total (idle_pool 1) + 1\<rparr>, [\<lparr>c_sock = fresh_sock, m_createTime = 5, m_request = 0\<rparr>])"
    by (rule pool_run.step [OF pool_run.start lend_fresh]) (simp add: idle_pool_def HttpConnectionPool_new_def)
  then show ?thesis
    using pool_accounting [of "''h''" "[]" 80 False 1 1000 10] by (fastforce simp: idle_pool_def)
qed

text \<open>What the pool hands out: a connection from the list is connected and its life time has not
  passed; otherwise it is a new one, with no request counted; every connection it deletes on the
  way was closed or expired.\<close>

theorem getConnection_usable:
  assumes "getConnection p now_ms later_ms fresh = (p', Some c, gone)"
  shows "(c \<in> set (m_conns p) \<and> is_connected (c_sock c) \<and> now_ms < expires p c \<or>
      fresh = Some (c_sock c) \<and> m_createTime c = later_ms \<and> m_request c = 0 \<and> m_conns p' = []) \<and>
    (\<forall>d \<in> set gone. \<not> is_connected (c_sock d) \<or> expires p d \<le> now_ms)"
proof -
  obtain found rest invalid where k: "pick p now_ms (m_conns p) = (found, rest, invalid)" by (metis surj_pair)
  have "found = None \<Longrightarrow> rest = []" using pick_None k by blast
  then show ?thesis
    using assms k pick_split [OF k] pick_invalid [OF k]
    by (auto simp: getConnection_def Let_def split: option.splits)
qed

theorem getConnection_usable_witness:
  "\<exists>p' c. getConnection (idle_pool 1) 5 6 (Some fresh_sock) = (p', Some c, []) \<and> m_request c = 0 \<and> m_conns p' = []"
proof -
  obtain p' c where g: "getConnection (idle_pool 1) 5 6 (Some fresh_sock) = (p', Some c, [])"
    by (simp add: getConnection_def idle_pool_def HttpConnectionPool_new_def)
  moreover have "m_conns (idle_pool 1) = []" by (simp add: idle_pool_def HttpConnectionPool_new_def)
  ultimately show ?thesis using getConnection_usable [OF g] by auto
qed

text \<open>The limit is not enforced: whatever \<open>max_size\<close> the pool was given, any number of
  connections can be lent out at once.\<close>

theorem pool_ignores_max_size:
  "\<exists>p lent. pool_run (idle_pool max_size, []) (p, lent) \<and> length lent = n \<and> m_conns p = []"
proof (induction n)
  case 0
  then show ?case using pool_run.start by (fastforce simp: idle_pool_def HttpConnectionPool_new_def)
next
  case (Suc n)
  then obtain p lent where p: "pool_run (idle_pool max_size, []) (p, lent)" "length lent = n" "m_conns p = []"
    by blast
  then show ?case
    using pool_run.step [OF p(1) lend_fresh [OF p(3)]]
    by (intro exI conjI) (assumption, simp_all)
qed

end
