(* ===== verification/Logs.thy ===== *)
theory Logs
  imports CStrings
begin

text \<open>
  Model of the logging module (\<open>src/Log.h\<close>, \<open>src/Log.cc\<close>) and of the log definitions of
  \<open>src/Logdefine.h\<close>: levels, the pattern language of \<open>LogFormatter\<close>, appenders, loggers, the
  manager, and the hot update from the configuration.

  Output is a value: the text on the console, and for every file appender the text of its file
  since it was last opened. \<open>strftime\<close> on the local time is a parameter. The spin locks guard
  one object each and are not part of the state, and the complaints about an invalid pattern and
  the messages the hot update itself logs are left out.
\<close>

section \<open>Levels\<close>

datatype level = DEBUG | INFO | WARN | ERROR | FATAL | UNKNOWN

fun level_num :: "level \<Rightarrow> nat" where
  "level_num DEBUG = 1" | "level_num INFO = 2" | "level_num WARN = 3"
| "level_num ERROR = 4" | "level_num FATAL = 5" | "level_num UNKNOWN = 6"

lemma level_num_inj [simp]: "level_num a = level_num b \<longleftrightarrow> a = b"
  by (cases a; cases b) auto

instantiation level :: linorder
begin

definition less_eq_level :: "level \<Rightarrow> level \<Rightarrow> bool" where
  "less_eq_level a b \<longleftrightarrow> level_num a \<le> level_num b"

definition less_level :: "level \<Rightarrow> level \<Rightarrow> bool" where
  "less_level a b \<longleftrightarrow> level_num a < level_num b"

instance
  by standard (auto simp: less_eq_level_def less_level_def)

end

fun GetlevelStr :: "level \<Rightarrow> string" where
  "GetlevelStr DEBUG = ''DEBUG''" | "GetlevelStr INFO = ''INFO''" | "GetlevelStr WARN = ''WARN''"
| "GetlevelStr ERROR = ''ERROR''" | "GetlevelStr FATAL = ''FATAL''" | "GetlevelStr UNKNOWN = ''UNKNOWN''"

definition to_upper :: "char \<Rightarrow> char" where
  "to_upper c = (if 97 \<le> code c \<and> code c \<le> 122 then char_of (code c - 32) else c)"

definition GetlevelInt :: "string \<Rightarrow> level" where
  "GetlevelInt levelStr =
     (let str = map to_upper levelStr in
      if str = ''DEBUG'' then DEBUG else if str = ''INFO'' then INFO else if str = ''WARN'' then WARN
      else if str = ''ERROR'' then ERROR else if str = ''FATAL'' then FATAL else UNKNOWN)"

section \<open>Events and format items\<close>

record log_event =
  ev_logger :: string
  ev_level :: level
  ev_filename :: string
  ev_line :: nat
  ev_elapse :: nat
  ev_thread_id :: nat
  ev_fiber_id :: nat
  ev_time :: nat
  ev_thread_name :: string
  ev_text :: string

datatype item = Mesg | Level | Elapse | LoggerName | NewLine | Line | DateTime string | Filename
  | TabI | Str string | FiberId | ThreadId | ThreadName

text \<open>\<open>strftime f t\<close> stands for the text that the C library puts into the buffer.\<close>

fun Format_Item :: "(string \<Rightarrow> nat \<Rightarrow> string) \<Rightarrow> log_event \<Rightarrow> item \<Rightarrow> string" where
  "Format_Item strftime ev Mesg = ev_text ev"
| "Format_Item strftime ev Level = GetlevelStr (ev_level ev)"
| "Format_Item strftime ev Elapse = dec_string (ev_elapse ev)"
| "Format_Item strftime ev LoggerName = ev_logger ev"
| "Format_Item strftime ev NewLine = [CHR 0x0A]"
| "Format_Item strftime ev Line = dec_string (ev_line ev)"
| "Format_Item strftime ev (DateTime f) = strftime (c_str f) (ev_time ev)"
| "Format_Item strftime ev Filename = ev_filename ev"
| "Format_Item strftime ev TabI = [CHR 0x09]"
| "Format_Item strftime ev (Str s) = s"
| "Format_Item strftime ev FiberId = dec_string (ev_fiber_id ev)"
| "Format_Item strftime ev ThreadId = dec_string (ev_thread_id ev)"
| "Format_Item strftime ev ThreadName = ev_thread_name ev"

section \<open>Patterns\<close>

definition is_alpha :: "char \<Rightarrow> bool" where
  "is_alpha c \<longleftrightarrow> 65 \<le> code c \<and> code c \<le> 90 \<or> 97 \<le> code c \<and> code c \<le> 122"

text \<open>
  The loop of \<open>LogFormatter::Init\<close> over the characters after a \<open>%\<close>. In state 0 it takes letters
  and closing braces; an opening brace starts the argument (state 1), which ends at the next
  closing brace. \<open>Some (str, fmt, rest)\<close> when it ends in state 0.
\<close>

fun scan_argument :: "string \<Rightarrow> (string \<times> string) option" where
  "scan_argument [] = None"
| "scan_argument (c # cs) =
     (if c = CHR ''}'' then Some ([], cs)
      else map_option (\<lambda>(fmt, rest). (c # fmt, rest)) (scan_argument cs))"

fun scan_item :: "string \<Rightarrow> string \<Rightarrow> (string \<times> string \<times> string) option" where
  "scan_item str [] = Some (str, [], [])"
| "scan_item str (c # cs) =
     (if is_alpha c \<or> c = CHR ''}'' then scan_item (str @ [c]) cs
      else if c = CHR ''{'' then map_option (\<lambda>(fmt, rest). (str, fmt, rest)) (scan_argument cs)
      else Some (str, [], c # cs))"

lemma scan_argument_shorter: "scan_argument s = Some (fmt, rest) \<Longrightarrow> length rest < length s"
  by (induction s arbitrary: fmt rest) (fastforce split: if_splits)+

lemma scan_item_shorter: "scan_item str s = Some (a, b, rest) \<Longrightarrow> length rest \<le> length s"
  by (induction str s arbitrary: a b rest rule: scan_item.induct)
    (fastforce dest: scan_argument_shorter split: if_splits)+

text \<open>
  The entries of \<open>vec\<close>: literal text, or an item with its argument. The flag says whether an
  argument was left open. In that case the pending literal text is kept and the scan goes on
  behind the percent sign.
\<close>

datatype piece = Literal string | Escape string string

definition flush :: "string \<Rightarrow> piece list" where
  "flush nstr = (if nstr \<noteq> [] then [Literal nstr] else [])"

function parse_pattern :: "string \<Rightarrow> string \<Rightarrow> piece list \<times> bool" where
  "parse_pattern nstr [] = (flush nstr, False)"
| "parse_pattern nstr (c # cs) =
     (if c \<noteq> CHR ''%'' then parse_pattern (nstr @ [c]) cs
      else if cs \<noteq> [] \<and> hd cs = CHR ''%'' then parse_pattern (nstr @ [CHR ''%'']) cs
      else case scan_item [] cs of
        Some (str, fmt, rest) \<Rightarrow>
          let (ps, e) = parse_pattern [] rest in (flush nstr @ Escape str fmt # ps, e)
      | None \<Rightarrow>
          let (ps, e) = parse_pattern nstr cs in (Literal ''<<pattern_error>>'' # ps, True))"
  by pat_completeness auto
termination
  by (relation "measure (\<lambda>(nstr, s). length s)") (auto dest!: scan_item_shorter)

declare parse_pattern.simps(2) [simp del]

definition format_items :: "(string \<times> (string \<Rightarrow> item)) list" where
  "format_items =
     [(''m'', \<lambda>fmt. Mesg), (''p'', \<lambda>fmt. Level), (''r'', \<lambda>fmt. Elapse), (''c'', \<lambda>fmt. LoggerName),
      (''t'', \<lambda>fmt. ThreadId), (''n'', \<lambda>fmt. NewLine), (''d'', DateTime), (''f'', \<lambda>fmt. Filename),
      (''l'', \<lambda>fmt. Line), (''T'', \<lambda>fmt. TabI), (''F'', \<lambda>fmt. FiberId), (''N'', \<lambda>fmt. ThreadName)]"

fun make_item :: "piece \<Rightarrow> item \<times> bool" where
  "make_item (Literal s) = (Str s, False)"
| "make_item (Escape str fmt) =
     (case map_of format_items str of
        None \<Rightarrow> (Str (''<<error_format %'' @ str @ ''>>''), True)
      | Some mk \<Rightarrow> (mk fmt, False))"

record formatter =
  fm_pattern :: string
  fm_items :: "item list"
  fm_has_error :: bool

definition LogFormatter_new :: "string \<Rightarrow> formatter" where
  "LogFormatter_new pattern =
     (let (vec, open_arg) = parse_pattern [] pattern; items = map make_item vec
      in \<lparr>fm_pattern = pattern, fm_items = map fst items, fm_has_error = (open_arg \<or> True \<in> snd ` set items)\<rparr>)"

definition Format :: "(string \<Rightarrow> nat \<Rightarrow> string) \<Rightarrow> formatter \<Rightarrow> log_event \<Rightarrow> string" where
  "Format strftime f ev = concat (map (Format_Item strftime ev) (fm_items f))"


section \<open>Appenders\<close>

text \<open>
  A file appender holds the text of its file since it was opened; opening truncates the file.
  Until the first event \<open>_last_time\<close> is not initialised, so its first value is an argument of the
  constructor.
\<close>

datatype sink = Console | File string

record appender =
  ap_id :: nat
  ap_sink :: sink
  ap_has_formatter :: bool
  ap_level :: level
  ap_formatter :: "formatter option"
  ap_last_time :: nat
  ap_file :: string

definition ConsoleLogAppender_new :: "nat \<Rightarrow> appender" where
  "ConsoleLogAppender_new i =
     \<lparr>ap_id = i, ap_sink = Console, ap_has_formatter = False, ap_level = DEBUG, ap_formatter = None,
      ap_last_time = 0, ap_file = []\<rparr>"

definition Reopen :: "appender \<Rightarrow> appender" where
  "Reopen a = a\<lparr>ap_file := []\<rparr>"

definition FileLogAppender_new :: "nat \<Rightarrow> nat \<Rightarrow> string \<Rightarrow> appender" where
  "FileLogAppender_new i last_time filename =
     Reopen \<lparr>ap_id = i, ap_sink = File filename, ap_has_formatter = False, ap_level = DEBUG,
      ap_formatter = None, ap_last_time = last_time, ap_file = []\<rparr>"

text \<open>The second result is what goes to the console.\<close>

definition ap_SetFormatter :: "appender \<Rightarrow> string \<Rightarrow> appender" where
  "ap_SetFormatter a pattern =
     (let f = LogFormatter_new pattern in
      if fm_has_error f then a else a\<lparr>ap_formatter := Some f, ap_has_formatter := True\<rparr>)"

definition endl :: string where "endl = [CHR 0x0A]"

definition ap_Log :: "(string \<Rightarrow> nat \<Rightarrow> string) \<Rightarrow> appender \<Rightarrow> level \<Rightarrow> log_event \<Rightarrow> appender \<times> string" where
  "ap_Log strftime a LV ev =
     (case ap_sink a of
        Console \<Rightarrow>
          if \<not> ap_has_formatter a then (a, ''ConsoleLogAppender has no formatter'' @ endl)
          else if LV \<ge> ap_level a then
            (a, case ap_formatter a of Some f \<Rightarrow> Format strftime f ev | None \<Rightarrow> [])
          else (a, [])
      | File filename \<Rightarrow>
          if LV \<ge> ap_level a then
            let now = ev_time ev;
                a = (if now \<ge> (ap_last_time a + 3) mod 2 ^ 64
                     then (Reopen a)\<lparr>ap_last_time := now\<rparr> else a)
            in case ap_formatter a of
                 None \<Rightarrow> (a, ''FileLogAppender missing formatter'' @ endl)
               | Some f \<Rightarrow> (a\<lparr>ap_file := ap_file a @ Format strftime f ev\<rparr>, [])
          else (a, []))"

section \<open>Loggers\<close>

record logger =
  lg_name :: string
  lg_formatter :: formatter
  lg_level :: level
  lg_appenders :: "appender list"
  lg_has_root :: bool

definition default_pattern :: string where
  "default_pattern = ''%d{[%Y-%m-%d %H:%M:%S]}%T[%t]%T[%N]%T[%F]%T[%p]%T[%c]%T[%f:%l]%T%m%n''"

definition Logger_new :: "string \<Rightarrow> logger" where
  "Logger_new nm =
     \<lparr>lg_name = nm, lg_formatter = LogFormatter_new default_pattern, lg_level = DEBUG, lg_appenders = [],
      lg_has_root = False\<rparr>"

definition lg_SetFormatter :: "logger \<Rightarrow> string \<Rightarrow> logger" where
  "lg_SetFormatter l pattern =
     (let f = LogFormatter_new pattern in if fm_has_error f then l else l\<lparr>lg_formatter := f\<rparr>)"

definition AddAppender :: "logger \<Rightarrow> appender \<Rightarrow> logger" where
  "AddAppender l a =
     (let a = (if ap_formatter a = None
               then a\<lparr>ap_formatter := Some (lg_formatter l), ap_has_formatter := True\<rparr> else a)
      in l\<lparr>lg_appenders := lg_appenders l @ [a]\<rparr>)"

definition DelAppender :: "logger \<Rightarrow> nat \<Rightarrow> logger \<times> bool" where
  "DelAppender l i =
     (if i \<in> ap_id ` set (lg_appenders l)
      then (l\<lparr>lg_appenders := filter (\<lambda>a. ap_id a \<noteq> i) (lg_appenders l)\<rparr>, True)
      else (l, False))"

definition ClearAppenders :: "logger \<Rightarrow> logger" where
  "ClearAppenders l = l\<lparr>lg_appenders := []\<rparr>"

section \<open>The manager\<close>

text \<open>The loggers by name; the root logger is the one named \<open>root\<close>, and only it has no root.\<close>

type_synonym loggers = "string \<Rightarrow> logger option"

fun log_all :: "(string \<Rightarrow> nat \<Rightarrow> string) \<Rightarrow> appender list \<Rightarrow> level \<Rightarrow> log_event \<Rightarrow> appender list \<times> string" where
  "log_all strftime [] LV ev = ([], [])"
| "log_all strftime (a # as) LV ev =
     (let (a', out) = ap_Log strftime a LV ev; (as', outs) = log_all strftime as LV ev
      in (a' # as', out @ outs))"

definition log_here :: "(string \<Rightarrow> nat \<Rightarrow> string) \<Rightarrow> logger \<Rightarrow> level \<Rightarrow> log_event \<Rightarrow> logger \<times> string" where
  "log_here strftime l LV ev =
     (let (as, out) = log_all strftime (lg_appenders l) LV ev in (l\<lparr>lg_appenders := as\<rparr>, out))"

text \<open>\<open>Logger::Log\<close>. The root logger has no root of its own, so the call goes up once at most.\<close>

definition Log :: "(string \<Rightarrow> nat \<Rightarrow> string) \<Rightarrow> loggers \<Rightarrow> string \<Rightarrow> level \<Rightarrow> log_event \<Rightarrow> loggers \<times> string" where
  "Log strftime m nm LV ev =
     (case m nm of
        None \<Rightarrow> (m, [])
      | Some l \<Rightarrow>
          let ev = ev\<lparr>ev_level := LV\<rparr> in
          if LV \<ge> lg_level l then
            (if lg_appenders l \<noteq> [] then
               let (l', out) = log_here strftime l LV ev in (m(nm \<mapsto> l'), out)
             else if lg_has_root l then
               (case m ''root'' of
                  None \<Rightarrow> (m, [])
                | Some r \<Rightarrow>
                    if LV \<ge> lg_level r \<and> lg_appenders r \<noteq> [] then
                      let (r', out) = log_here strftime r LV ev in (m(''root'' \<mapsto> r'), out)
                    else (m, []))
             else (m, []))
          else (m, []))"

text \<open>The macros: an event is made only when its level reaches the logger's.\<close>

definition LOG_LEVEL :: "(string \<Rightarrow> nat \<Rightarrow> string) \<Rightarrow> loggers \<Rightarrow> string \<Rightarrow> level \<Rightarrow> log_event \<Rightarrow> loggers \<times> string" where
  "LOG_LEVEL strftime m nm level ev =
     (case m nm of
        None \<Rightarrow> (m, [])
      | Some l \<Rightarrow> if lg_level l \<le> level then Log strftime m nm level (ev\<lparr>ev_logger := nm\<rparr>) else (m, []))"

definition LogManager_new :: "nat \<Rightarrow> loggers" where
  "LogManager_new i = (\<lambda>nm. None)(''root'' \<mapsto> AddAppender (Logger_new ''root'') (ConsoleLogAppender_new i))"

definition GetLogger :: "nat \<Rightarrow> loggers \<Rightarrow> string \<Rightarrow> loggers \<times> logger" where
  "GetLogger i m nm =
     (case m nm of
        Some l \<Rightarrow> (m, l)
      | None \<Rightarrow>
          let l = AddAppender ((Logger_new nm)\<lparr>lg_has_root := True\<rparr>) (ConsoleLogAppender_new i)
          in (m(nm \<mapsto> l), l))"

section \<open>Hot update\<close>

record appender_define =
  ad_type :: int
  ad_level :: level
  ad_formatter :: string
  ad_file :: string

record log_define =
  ld_name :: string
  ld_level :: level
  ld_formatter :: string
  ld_appenders :: "appender_define list"

text \<open>
  The callback registered for the configuration item \<open>logs\<close>. Its sets are ordered by name only
  and are lists of definitions with different names here. The identities and the uninitialised
  times of the appenders it creates are given by \<open>i\<close>.
\<close>

definition find_define :: "string \<Rightarrow> log_define list \<Rightarrow> log_define option" where
  "find_define nm ds = find (\<lambda>d. ld_name d = nm) ds"

definition defined_appender :: "nat \<Rightarrow> log_define \<Rightarrow> appender_define \<Rightarrow> appender option" where
  "defined_appender i v a =
     (let ap = (if ad_type a = 1 then Some (FileLogAppender_new i i (ad_file a))
                else if ad_type a = 2 then Some (ConsoleLogAppender_new i) else None)
      in map_option (\<lambda>ap.
           let ap = ap\<lparr>ap_level := (if ad_level a \<noteq> UNKNOWN then ad_level a else ld_level v)\<rparr>
           in if ad_formatter a \<noteq> [] then (ap_SetFormatter ap (ad_formatter a))\<lparr>ap_has_formatter := True\<rparr>
              else if ld_formatter v \<noteq> [] then ap_SetFormatter ap (ld_formatter v) else ap) ap)"

definition define_logger :: "nat \<Rightarrow> log_define \<Rightarrow> logger \<Rightarrow> logger" where
  "define_logger i v l =
     (let l = l\<lparr>lg_level := ld_level v\<rparr>;
          l = (if ld_formatter v \<noteq> [] then lg_SetFormatter l (ld_formatter v) else l)
      in fold (\<lambda>a l. case defined_appender i v a of None \<Rightarrow> l | Some ap \<Rightarrow> AddAppender l ap)
           (ld_appenders v) (ClearAppenders l))"

definition apply_define :: "nat \<Rightarrow> log_define list \<Rightarrow> log_define \<Rightarrow> loggers \<Rightarrow> loggers" where
  "apply_define i oldvalue v m =
     (if find_define (ld_name v) oldvalue = Some v then m
      else let (m, l) = GetLogger i m (ld_name v) in m(ld_name v \<mapsto> define_logger i v l))"

definition drop_define :: "nat \<Rightarrow> log_define list \<Rightarrow> log_define \<Rightarrow> loggers \<Rightarrow> loggers" where
  "drop_define i newvalue v m =
     (if find_define (ld_name v) newvalue = None
      then let (m, l) = GetLogger i m (ld_name v)
           in m(ld_name v \<mapsto> ClearAppenders (l\<lparr>lg_level := UNKNOWN\<rparr>))
      else m)"

definition on_logger_conf_changed :: "nat \<Rightarrow> log_define list \<Rightarrow> log_define list \<Rightarrow> loggers \<Rightarrow> loggers" where
  "on_logger_conf_changed i oldvalue newvalue m =
     fold (drop_define i newvalue) oldvalue (fold (apply_define i oldvalue) newvalue m)"


section \<open>Lemmas\<close>

lemma scan_argument_append: "CHR ''}'' \<notin> set fmt \<Longrightarrow> scan_argument (fmt @ CHR ''}'' # rest) = Some (fmt, rest)"
  by (induction fmt) auto

lemma brace_not_alpha [simp]: "\<not> is_alpha (CHR ''{'')" "\<not> is_alpha (CHR ''%'')"
  by (simp_all add: is_alpha_def code_def)

lemma parse_pattern_literal:
  "CHR ''%'' \<notin> set s \<Longrightarrow> parse_pattern nstr (s @ rest) = parse_pattern (nstr @ s) rest"
  by (induction s arbitrary: nstr) (auto simp: parse_pattern.simps(2))

lemma parse_pattern_escape:
  assumes "is_alpha (hd (s @ rest)) \<or> hd (s @ rest) \<noteq> CHR ''%''" "s @ rest \<noteq> []"
    and "scan_item [] (s @ rest) = Some (str, fmt, rest)"
  shows "parse_pattern nstr (CHR ''%'' # s @ rest) =
    (flush nstr @ Escape str fmt # fst (parse_pattern [] rest), snd (parse_pattern [] rest))"
  using assms by (auto simp: parse_pattern.simps(2) split_beta)

text \<open>How a list of pieces is written, and the lists that can be written.\<close>

fun show_piece :: "piece \<Rightarrow> string" where
  "show_piece (Literal s) = s"
| "show_piece (Escape str []) = CHR ''%'' # str"
| "show_piece (Escape str fmt) = CHR ''%'' # str @ CHR ''{'' # fmt @ ''}''"

definition show_pattern :: "piece list \<Rightarrow> string" where
  "show_pattern ps = concat (map show_piece ps)"

text \<open>A literal is not empty, has no percent sign, does not follow another one, and after an
  item without argument does not begin with what the item's name could go on with.\<close>

fun pieces_ok :: "piece list \<Rightarrow> bool" where
  "pieces_ok [] = True"
| "pieces_ok (Literal s # ps) =
     (s \<noteq> [] \<and> CHR ''%'' \<notin> set s \<and> (case ps of Literal t # _ \<Rightarrow> False | _ \<Rightarrow> True) \<and> pieces_ok ps)"
| "pieces_ok (Escape str fmt # ps) =
     (str \<noteq> [] \<and> list_all is_alpha str \<and> CHR ''}'' \<notin> set fmt \<and>
      (fmt = [] \<longrightarrow> (case ps of Literal t # _ \<Rightarrow> \<not> is_alpha (hd t) \<and> hd t \<noteq> CHR ''{'' \<and> hd t \<noteq> CHR ''}'' | _ \<Rightarrow> True)) \<and>
      pieces_ok ps)"

lemma scan_item_name:
  "list_all is_alpha str \<Longrightarrow> scan_item acc (str @ rest) = scan_item (acc @ str) rest"
  by (induction str arbitrary: acc) auto

lemma scan_item_stops:
  "rest = [] \<or> \<not> is_alpha (hd rest) \<and> hd rest \<noteq> CHR ''{'' \<and> hd rest \<noteq> CHR ''}'' \<Longrightarrow>
   scan_item acc rest = Some (acc, [], rest)"
  by (cases rest) auto

lemma pattern_head:
  assumes "pieces_ok (Escape str [] # ps)"
  shows "show_pattern ps = [] \<or> \<not> is_alpha (hd (show_pattern ps)) \<and> hd (show_pattern ps) \<noteq> CHR ''{'' \<and>
    hd (show_pattern ps) \<noteq> CHR ''}''"
proof (cases ps)
  case (Cons p qs)
  then show ?thesis
  proof (cases p)
    case (Literal t)
    then show ?thesis using assms Cons by (cases t) (auto simp: show_pattern_def)
  next
    case (Escape a b)
    then show ?thesis using Cons by (cases b) (auto simp: show_pattern_def)
  qed
qed (simp add: show_pattern_def)

lemma parse_show_pattern:
  "pieces_ok ps \<Longrightarrow> (nstr \<noteq> [] \<longrightarrow> (case ps of Literal t # _ \<Rightarrow> False | _ \<Rightarrow> True)) \<Longrightarrow>
     parse_pattern nstr (show_pattern ps) = (flush nstr @ ps, False)"
proof (induction ps arbitrary: nstr)
  case Nil
  then show ?case by (simp add: show_pattern_def)
next
  case (Cons p ps)
  have s: "show_pattern (p # ps) = show_piece p @ show_pattern ps" by (simp add: show_pattern_def)
  show ?case
  proof (cases p)
    case (Literal t)
    then have "nstr = []" "t \<noteq> []" "CHR ''%'' \<notin> set t" "pieces_ok ps"
      "case ps of Literal t # _ \<Rightarrow> False | _ \<Rightarrow> True"
      using Cons.prems by auto
    then show ?thesis
      using Cons.IH [of t] parse_pattern_literal [of t "[]" "show_pattern ps"] Literal s by (simp add: flush_def)
  next
    case (Escape str fmt)
    then have e: "str \<noteq> []" "list_all is_alpha str" "CHR ''}'' \<notin> set fmt" "pieces_ok ps"
      using Cons.prems by auto
    have ih: "parse_pattern [] (show_pattern ps) = (ps, False)"
      using Cons.IH [of "[]"] e(4) by (simp add: flush_def)
    show ?thesis
    proof (cases "fmt = []")
      case True
      have "scan_item [] (str @ show_pattern ps) = Some (str, [], show_pattern ps)"
        using scan_item_name [OF e(2)] scan_item_stops pattern_head Cons.prems(1) Escape True by auto
      moreover have "is_alpha (hd (str @ show_pattern ps))" using e(1,2) by (cases str) auto
      ultimately show ?thesis
        using parse_pattern_escape [of str "show_pattern ps" str "[]" nstr] ih e(1) Escape True s by simp
    next
      case False
      let ?s = "str @ CHR ''{'' # fmt @ ''}''"
      have "scan_item [] (?s @ show_pattern ps) = Some (str, fmt, show_pattern ps)"
        using scan_item_name [OF e(2), of "[]"] scan_argument_append [OF e(3)] by simp
      moreover have "is_alpha (hd (?s @ show_pattern ps))" using e(1,2) by (cases str) auto
      moreover have "show_piece p = CHR ''%'' # ?s" using Escape False by (cases fmt) auto
      ultimately show ?thesis
        using parse_pattern_escape [of ?s "show_pattern ps" str fmt nstr] ih Escape s by simp
    qed
  qed
qed

lemma map_of_items: "map_of format_items str \<noteq> None \<longleftrightarrow> str \<in> fst ` set format_items"
  by (metis map_of_eq_None_iff)

section \<open>Properties\<close>

text \<open>Level names: every level is read back from its name in any mixture of cases, and the
  order of the levels is the order in which they are declared.\<close>

theorem level_names:
  assumes "map to_upper s = GetlevelStr l"
  shows "GetlevelInt s = l \<and> (DEBUG \<le> l \<and> l \<le> UNKNOWN) \<and> (l < l' \<longleftrightarrow> level_num l < level_num l')"
  using assms by (cases l) (simp_all add: GetlevelInt_def less_eq_level_def less_level_def)

theorem level_names_witness: "GetlevelInt ''wArn'' = WARN"
proof -
  have "map to_upper ''wArn'' = GetlevelStr WARN" by code_simp
  then show ?thesis using level_names [of "''wArn''" WARN WARN] by simp
qed

text \<open>Patterns: a pattern written from literal text and known items, with or without an
  argument, is parsed into exactly these items without an error.\<close>

theorem pattern_round_trip:
  assumes "pieces_ok ps" "\<forall>str fmt. Escape str fmt \<in> set ps \<longrightarrow> str \<in> fst ` set format_items"
  shows "fm_items (LogFormatter_new (show_pattern ps)) = map (fst \<circ> make_item) ps \<and>
    \<not> fm_has_error (LogFormatter_new (show_pattern ps))"
proof -
  have "parse_pattern [] (show_pattern ps) = (ps, False)"
    using parse_show_pattern [OF assms(1), of "[]"] by (simp add: flush_def)
  moreover have "\<not> snd (make_item p)" if "p \<in> set ps" for p
    using assms(2) that map_of_items by (cases p) (auto split: option.splits)
  ultimately show ?thesis by (auto simp: LogFormatter_new_def Let_def)
qed

theorem pattern_round_trip_witness:
  "fm_items (LogFormatter_new ''%d{%H:%M} [%p]%m'') = [DateTime ''%H:%M'', Str '' ['', Level, Str '']'', Mesg]"
proof -
  let ?ps = "[Escape ''d'' ''%H:%M'', Literal '' ['', Escape ''p'' [], Literal '']'', Escape ''m'' []]"
  have "pieces_ok ?ps" "show_pattern ?ps = ''%d{%H:%M} [%p]%m''" by code_simp+
  moreover have "map (fst \<circ> make_item) ?ps = [DateTime ''%H:%M'', Str '' ['', Level, Str '']'', Mesg]"
    by (simp add: format_items_def)
  moreover have "\<forall>str fmt. Escape str fmt \<in> set ?ps \<longrightarrow> str \<in> fst ` set format_items"
    by (auto simp: format_items_def)
  ultimately show ?thesis using pattern_round_trip [of ?ps] by simp
qed

text \<open>A doubled percent sign does not stand for one: the second one starts an item, so text that
  ends in a doubled percent sign makes the pattern invalid.\<close>

theorem doubled_percent_is_error:
  assumes "CHR ''%'' \<notin> set s"
  shows "fm_has_error (LogFormatter_new (s @ ''%%'')) \<and>
    fm_items (LogFormatter_new (s @ ''%%'')) = [Str (s @ ''%''), Str ''<<error_format %>>'']"
proof -
  have "map_of format_items [] = None" by (simp add: format_items_def)
  moreover have "parse_pattern [] (s @ ''%%'') = ([Literal (s @ ''%''), Escape [] []], False)"
    using parse_pattern_literal [OF assms, of "[]" "''%%''"] by (simp add: parse_pattern.simps(2) flush_def)
  ultimately show ?thesis by (auto simp: LogFormatter_new_def Let_def)
qed

theorem doubled_percent_is_error_witness: "fm_has_error (LogFormatter_new ''100%%'')"
  using doubled_percent_is_error [of "''100''"] by simp

text \<open>A log file is truncated: an event at least three seconds after the last opening reopens
  the file for writing, which leaves nothing in it but this event.\<close>

theorem file_log_truncated:
  assumes "ap_sink a = File f" "ap_formatter a = Some fm" "ap_level a \<le> LV"
    and "ap_last_time a + 3 \<le> ev_time ev" "ap_last_time a + 3 < 2 ^ 64"
  shows "ap_file (fst (ap_Log strftime a LV ev)) = Format strftime fm ev"
  using assms by (simp add: ap_Log_def Reopen_def Let_def)

definition sample_event :: "nat \<Rightarrow> log_event" where
  "sample_event t = \<lparr>ev_logger = ''root'', ev_level = INFO, ev_filename = ''f'', ev_line = 1, ev_elapse = 0,
     ev_thread_id = 1, ev_fiber_id = 0, ev_time = t, ev_thread_name = ''main'', ev_text = ''two''\<rparr>"

theorem file_log_truncated_witness:
  "ap_file (fst (ap_Log (\<lambda>f t. f) ((ap_SetFormatter (FileLogAppender_new 1 0 ''f'') ''%m'')\<lparr>ap_file := ''one''\<rparr>)
     INFO (sample_event 3))) = ''two''"
proof -
  have f: "fm_items (LogFormatter_new ''%m'') = [Mesg]" "\<not> fm_has_error (LogFormatter_new ''%m'')"
    by code_simp+
  then show ?thesis
    using file_log_truncated [of "(ap_SetFormatter (FileLogAppender_new 1 0 ''f'') ''%m'')\<lparr>ap_file := ''one''\<rparr>"
        "''f''" "LogFormatter_new ''%m''" INFO "sample_event 3" "\<lambda>f t. f"]
    by (simp add: ap_SetFormatter_def FileLogAppender_new_def Reopen_def sample_event_def Format_def
        less_eq_level_def)
qed


section \<open>The hot update\<close>

lemma apply_define_other: "ld_name v \<noteq> nm \<Longrightarrow> apply_define i old v m nm = m nm"
  by (auto simp: apply_define_def GetLogger_def Let_def split: option.splits)

lemma drop_define_other: "ld_name v \<noteq> nm \<Longrightarrow> drop_define i new v m nm = m nm"
  by (auto simp: drop_define_def GetLogger_def Let_def split: option.splits)

lemma apply_define_here:
  "apply_define i old v m (ld_name v) =
     (if find_define (ld_name v) old = Some v then m (ld_name v)
      else Some (define_logger i v (snd (GetLogger i m (ld_name v)))))"
  by (auto simp: apply_define_def split_beta)

lemma GetLogger_cong: "m nm = m' nm \<Longrightarrow> snd (GetLogger i m nm) = snd (GetLogger i m' nm)"
  by (auto simp: GetLogger_def Let_def split: option.splits)

text \<open>A fold over definitions with different names acts on a name through its definition only.\<close>

lemma fold_defines:
  assumes "distinct (map ld_name ds)" and other: "\<And>v m. ld_name v \<noteq> nm \<Longrightarrow> g v m nm = m nm"
    and cong: "\<And>v m m'. ld_name v = nm \<Longrightarrow> m nm = m' nm \<Longrightarrow> g v m nm = g v m' nm"
  shows "fold g ds m nm = (case find_define nm ds of None \<Rightarrow> m nm | Some v \<Rightarrow> g v m nm)"
  using assms(1)
proof (induction ds arbitrary: m)
  case (Cons d ds)
  have absent: "find_define nm ds = None" if "ld_name d = nm"
  proof -
    have "ld_name d' \<noteq> nm" if "d' \<in> set ds" for d' using Cons.prems \<open>ld_name d = nm\<close> imageI [OF that, of ld_name] by auto
    then show ?thesis by (simp add: find_define_def find_None_iff)
  qed
  show ?case
  proof (cases "ld_name d = nm")
    case True
    then show ?thesis using Cons absent by (simp add: find_define_def)
  next
    case False
    have "find_define nm (d # ds) = find_define nm ds" using False by (simp add: find_define_def)
    moreover have "ld_name v = nm" if "find_define nm ds = Some v" for v
      using that by (auto simp: find_define_def find_Some_iff)
    moreover have "fold g ds (g d m) nm =
        (case find_define nm ds of None \<Rightarrow> g d m nm | Some v \<Rightarrow> g v (g d m) nm)"
      using Cons by simp
    moreover note other [OF False, of m] cong [where m = "g d m" and m' = m]
    ultimately show ?thesis by (simp split: option.split)
  qed
qed (simp add: find_define_def)

lemma apply_defines:
  assumes "distinct (map ld_name ds)"
  shows "fold (apply_define i old) ds m nm =
    (case find_define nm ds of None \<Rightarrow> m nm | Some v \<Rightarrow> apply_define i old v m nm)"
proof (rule fold_defines [OF assms apply_define_other])
  show "ld_name v = nm \<Longrightarrow> m nm = m' nm \<Longrightarrow> apply_define i old v m nm = apply_define i old v m' nm" for v m m'
    using GetLogger_cong [of m "ld_name v" m' i] by (auto simp: apply_define_here)
qed

lemma drop_defines:
  assumes "distinct (map ld_name ds)"
  shows "fold (drop_define i new) ds m nm =
    (case find_define nm ds of None \<Rightarrow> m nm | Some v \<Rightarrow> drop_define i new v m nm)"
proof (rule fold_defines [OF assms drop_define_other])
  show "ld_name v = nm \<Longrightarrow> m nm = m' nm \<Longrightarrow> drop_define i new v m nm = drop_define i new v m' nm" for v m m'
    by (auto simp: drop_define_def GetLogger_def Let_def split: option.splits)
qed

lemma dropped_silent:
  "find_define (ld_name v) new = None \<Longrightarrow>
     \<exists>l. drop_define i new v m (ld_name v) = Some l \<and> lg_level l = UNKNOWN \<and> lg_appenders l = []"
  by (auto simp: drop_define_def GetLogger_def ClearAppenders_def Let_def split: option.splits)

lemma find_define_name: "find_define nm ds = Some v \<Longrightarrow> ld_name v = nm"
  by (auto simp: find_define_def find_Some_iff)

lemma hot_update_cases:
  assumes "distinct (map ld_name oldvalue)" "distinct (map ld_name newvalue)"
    and m': "m' = on_logger_conf_changed i oldvalue newvalue m"
  shows "case find_define nm newvalue of
      Some v \<Rightarrow> m' nm = (if find_define nm oldvalue = Some v then m nm
                          else Some (define_logger i v (snd (GetLogger i m nm))))
    | None \<Rightarrow> if find_define nm oldvalue = None then m' nm = m nm
              else (\<forall>strftime LV ev. LV < UNKNOWN \<longrightarrow> LOG_LEVEL strftime m' nm LV ev = (m', []))"
proof -
  let ?m1 = "fold (apply_define i oldvalue) newvalue m"
  have e: "m' nm = (case find_define nm oldvalue of None \<Rightarrow> ?m1 nm | Some v \<Rightarrow> drop_define i newvalue v ?m1 nm)"
    using drop_defines [OF assms(1)] by (simp add: m' on_logger_conf_changed_def)
  note a = apply_defines [OF assms(2), of i oldvalue m nm]
  show ?thesis
  proof (cases "find_define nm newvalue")
    case (Some v)
    have "ld_name v = nm" using Some by (rule find_define_name)
    then have "?m1 nm = (if find_define nm oldvalue = Some v then m nm
        else Some (define_logger i v (snd (GetLogger i m nm))))"
      using a Some apply_define_here [of i oldvalue v m] by simp
    moreover have "drop_define i newvalue w ?m1 = ?m1" if "find_define nm oldvalue = Some w" for w
      using find_define_name [OF that] Some by (simp add: drop_define_def)
    ultimately show ?thesis using e Some by (auto split: option.splits)
  next
    case None
    then have m1: "?m1 nm = m nm" using a by simp
    show ?thesis
    proof (cases "find_define nm oldvalue")
      case None': None
      then show ?thesis using None e m1 by simp
    next
      case (Some w)
      have w: "ld_name w = nm" using Some by (rule find_define_name)
      obtain l where "m' nm = Some l" "lg_level l = UNKNOWN"
        using dropped_silent [of w newvalue i ?m1] None Some w e by auto
      then have "LOG_LEVEL strftime m' nm LV ev = (m', [])" if "LV < UNKNOWN" for strftime LV ev
        using that by (auto simp: LOG_LEVEL_def not_le)
      then show ?thesis using None Some by simp
    qed
  qed
qed

text \<open>Hot update: a logger whose definition is new or has changed is defined anew, one whose
  definition did not change or that has none keeps its state, and one whose definition was removed
  is left without appenders at a level that no message reaches, so that it logs nothing.\<close>

theorem hot_update:
  assumes "distinct (map ld_name oldvalue)" "distinct (map ld_name newvalue)"
    and m': "m' = on_logger_conf_changed i oldvalue newvalue m"
  shows "case find_define nm newvalue of
      Some v \<Rightarrow> m' nm = (if find_define nm oldvalue = Some v then m nm
                          else Some (define_logger i v (snd (GetLogger i m nm))))
    | None \<Rightarrow> if find_define nm oldvalue = None then m' nm = m nm
              else (\<forall>strftime LV ev. LV < UNKNOWN \<longrightarrow> LOG_LEVEL strftime m' nm LV ev = (m', []))"
  using hot_update_cases [OF assms] .

definition sample_define :: "string \<Rightarrow> log_define" where
  "sample_define nm = \<lparr>ld_name = nm, ld_level = INFO, ld_formatter = ''%m'',
     ld_appenders = [\<lparr>ad_type = 2, ad_level = UNKNOWN, ad_formatter = [], ad_file = []\<rparr>]\<rparr>"

theorem hot_update_witness:
  "\<exists>m'. m' = on_logger_conf_changed 7 [sample_define ''a''] [sample_define ''b''] (LogManager_new 0) \<and>
     LOG_LEVEL (\<lambda>f t. f) m' ''a'' FATAL (sample_event 3) = (m', [])"
proof (intro exI conjI, rule refl)
  let ?m = "on_logger_conf_changed 7 [sample_define ''a''] [sample_define ''b''] (LogManager_new 0)"
  have n: "find_define ''a'' [sample_define ''b''] = None" "find_define ''a'' [sample_define ''a''] \<noteq> None"
    by (simp_all add: find_define_def sample_define_def)
  have "FATAL < UNKNOWN" by (simp add: less_level_def)
  then show "LOG_LEVEL (\<lambda>f t. f) ?m ''a'' FATAL (sample_event 3) = (?m, [])"
    using hot_update [of "[sample_define ''a'']" "[sample_define ''b'']" ?m 7 "LogManager_new 0" "''a''"] n
    by simp
qed

end
