(* ===== verification/Configs.thy ===== *)
theory Configs
  imports Logs OrderedContainers "HOL-Library.AList"
begin

text \<open>
  Model of the configuration module (\<open>src/Config.h\<close>, \<open>src/Config.cc\<close>) and of the conversions
  of log definitions in \<open>src/Logdefine.h\<close>: configuration variables with their change callbacks,
  the manager's table of variables, the flattening of a YAML document and its loading.

  YAML is the library yaml-cpp. A document is its tree; what the code calls of the library
  (\<open>Load\<close>, \<open>Dump\<close>, subscripts, \<open>as<string>\<close>, the elements \<open>node[0..size)\<close>) is the parameter
  \<open>Y\<close>, whose documented laws are \<open>yaml_laws\<close>.
\<close>

section \<open>YAML\<close>

datatype node = Null | Scalar string | Sequence "node list" | Map "(string \<times> node) list"

record yaml =
  Load :: "string \<Rightarrow> node option"
  Dump :: "node \<Rightarrow> string"
  subscript :: "node \<Rightarrow> string \<Rightarrow> node option option"
  as_string :: "node \<Rightarrow> string option"
  elems :: "node \<Rightarrow> node list"

text \<open>
  Of the results the outer option is the exception. Loading a dumped tree gives the tree back; a
  subscript of a map is the value of the key, or undefined; a subscript of a scalar throws or is
  undefined.
\<close>

definition yaml_laws :: "yaml \<Rightarrow> node set \<Rightarrow> bool" where
  "yaml_laws Y ns \<longleftrightarrow>
     (\<forall>n \<in> ns. Load Y (Dump Y n) = Some n) \<and>
     (\<forall>kvs k. subscript Y (Map kvs) k = Some (map_of kvs k)) \<and>
     (\<forall>s k. subscript Y (Scalar s) k \<in> {None, Some None}) \<and>
     (\<forall>s. as_string Y (Scalar s) = Some s) \<and>
     (\<forall>ns. elems Y (Sequence ns) = ns)"

section \<open>Conversions of containers\<close>

text \<open>
  \<open>LexicalCast\<close> of a container from text: \<open>None\<close> is an exception, of the parser or of the
  conversion of an element. Text that is not of the right kind gives an empty container.
\<close>

definition bind_all :: "('a \<Rightarrow> 'b option) \<Rightarrow> 'a list \<Rightarrow> 'b list option" where
  "bind_all f xs =
     foldr (\<lambda>x r. Option.bind (f x) (\<lambda>y. map_option (\<lambda>ys. y # ys) r)) xs (Some [])"

definition element :: "yaml \<Rightarrow> (string \<Rightarrow> 'a option) \<Rightarrow> node \<Rightarrow> 'a option" where
  "element Y from n = Option.bind (as_string Y n) from"

definition cast_to_vector :: "yaml \<Rightarrow> (string \<Rightarrow> 'a option) \<Rightarrow> string \<Rightarrow> 'a list option" where
  "cast_to_vector Y from s =
     (case Load Y s of
        None \<Rightarrow> None
      | Some (Sequence ns) \<Rightarrow> bind_all (element Y from) (elems Y (Sequence ns))
      | Some _ \<Rightarrow> Some [])"

definition cast_from_vector :: "yaml \<Rightarrow> ('a \<Rightarrow> string) \<Rightarrow> 'a list \<Rightarrow> string" where
  "cast_from_vector Y to v = Dump Y (Sequence (map (\<lambda>e. Scalar (to e)) v))"

definition cast_to_list :: "yaml \<Rightarrow> (string \<Rightarrow> 'a option) \<Rightarrow> string \<Rightarrow> 'a list option" where
  "cast_to_list Y from s =
     (case Load Y s of
        None \<Rightarrow> None
      | Some (Sequence ns) \<Rightarrow> bind_all (element Y from) (elems Y (Sequence ns))
      | Some _ \<Rightarrow> Some [])"

definition cast_from_list :: "yaml \<Rightarrow> ('a \<Rightarrow> string) \<Rightarrow> 'a list \<Rightarrow> string" where
  "cast_from_list Y to v = Dump Y (Sequence (map (\<lambda>e. Scalar (to e)) v))"

text \<open>A \<open>std::set\<close> converts the dumped text of each element, not its scalar.\<close>

definition cast_to_set ::
  "yaml \<Rightarrow> ('a \<Rightarrow> 'a \<Rightarrow> bool) \<Rightarrow> (string \<Rightarrow> 'a option) \<Rightarrow> string \<Rightarrow> 'a list option" where
  "cast_to_set Y lt from s =
     (case Load Y s of
        None \<Rightarrow> None
      | Some (Sequence ns) \<Rightarrow>
          map_option (\<lambda>xs. fold (oset_insert lt) xs [])
            (bind_all (\<lambda>n. from (Dump Y n)) (elems Y (Sequence ns)))
      | Some _ \<Rightarrow> Some [])"

definition cast_from_set :: "yaml \<Rightarrow> ('a \<Rightarrow> string) \<Rightarrow> 'a list \<Rightarrow> string" where
  "cast_from_set Y to v = Dump Y (Sequence (map (\<lambda>e. Scalar (to e)) v))"

definition cast_to_unordered_set :: "yaml \<Rightarrow> (string \<Rightarrow> 'a option) \<Rightarrow> string \<Rightarrow> 'a set option" where
  "cast_to_unordered_set Y from s =
     (case Load Y s of
        None \<Rightarrow> None
      | Some (Sequence ns) \<Rightarrow> map_option set (bind_all (element Y from) (elems Y (Sequence ns)))
      | Some _ \<Rightarrow> Some {})"

text \<open>The elements of an unordered container are written in the order of its iteration, which is an argument.\<close>

definition cast_from_unordered_set :: "yaml \<Rightarrow> ('a \<Rightarrow> string) \<Rightarrow> 'a list \<Rightarrow> string" where
  "cast_from_unordered_set Y to v = Dump Y (Sequence (map (\<lambda>e. Scalar (to e)) v))"

text \<open>Of two entries with one key \<open>emplace\<close> keeps the first.\<close>

definition std_less :: "string \<Rightarrow> string \<Rightarrow> bool" where
  "std_less a b \<longleftrightarrow> bytes_less (map code a) (map code b)"

definition cast_entries ::
  "yaml \<Rightarrow> (string \<Rightarrow> 'a option) \<Rightarrow> (string \<times> node) list \<Rightarrow> (string \<times> 'a) list option" where
  "cast_entries Y from kvs = bind_all (\<lambda>(k, n). map_option (Pair k) (element Y from n)) kvs"

definition cast_to_map :: "yaml \<Rightarrow> (string \<Rightarrow> 'a option) \<Rightarrow> string \<Rightarrow> (string \<times> 'a) list option" where
  "cast_to_map Y from s =
     (case Load Y s of
        None \<Rightarrow> None
      | Some (Map kvs) \<Rightarrow>
          map_option (\<lambda>es. fold (\<lambda>(k, v). omap_insert std_less k v) es []) (cast_entries Y from kvs)
      | Some _ \<Rightarrow> Some [])"

definition cast_from_map :: "yaml \<Rightarrow> ('a \<Rightarrow> string) \<Rightarrow> (string \<times> 'a) list \<Rightarrow> string" where
  "cast_from_map Y to m = Dump Y (Map (map (\<lambda>(k, v). (k, Scalar (to v))) m))"

definition cast_to_unordered_map ::
  "yaml \<Rightarrow> (string \<Rightarrow> 'a option) \<Rightarrow> string \<Rightarrow> (string \<rightharpoonup> 'a) option" where
  "cast_to_unordered_map Y from s =
     (case Load Y s of
        None \<Rightarrow> None
      | Some (Map kvs) \<Rightarrow> map_option map_of (cast_entries Y from kvs)
      | Some _ \<Rightarrow> Some (\<lambda>k. None))"

definition cast_from_unordered_map :: "yaml \<Rightarrow> ('a \<Rightarrow> string) \<Rightarrow> (string \<times> 'a) list \<Rightarrow> string" where
  "cast_from_unordered_map Y to m = Dump Y (Map (map (\<lambda>(k, v). (k, Scalar (to v))) m))"

section \<open>Log definitions\<close>

text \<open>\<open>IsDefined\<close> of a field, and the text of a field that may be missing.\<close>

definition text_field :: "yaml \<Rightarrow> node \<Rightarrow> string \<Rightarrow> string option option" where
  "text_field Y n k =
     (case subscript Y n k of
        None \<Rightarrow> None
      | Some None \<Rightarrow> Some None
      | Some (Some m) \<Rightarrow> map_option Some (as_string Y m))"

text \<open>One entry of \<open>appenders\<close>: \<open>Some None\<close> when the entry is skipped with a message.\<close>

definition level_of_field :: "string option \<Rightarrow> level" where
  "level_of_field v = GetlevelInt (case v of Some s \<Rightarrow> s | None \<Rightarrow> ''UNKNOWN'')"

definition appender_of_node :: "yaml \<Rightarrow> node \<Rightarrow> appender_define option option" where
  "appender_of_node Y a =
     Option.bind (text_field Y a ''type'') (\<lambda>ty.
       let finish = (\<lambda>t f.
         Option.bind (text_field Y a ''level'') (\<lambda>lv.
         Option.bind (text_field Y a ''formatter'') (\<lambda>fm.
           Some (Some \<lparr>ad_type = t, ad_level = level_of_field lv,
             ad_formatter = (case fm of Some s \<Rightarrow> s | None \<Rightarrow> []), ad_file = f\<rparr>))))
       in case ty of
            None \<Rightarrow> Some None
          | Some t \<Rightarrow>
              if t = ''FileLogAppender'' then
                Option.bind (text_field Y a ''file'') (\<lambda>f.
                  case f of None \<Rightarrow> Some None
                  | Some f \<Rightarrow> if f = [] then Some None else finish 1 f)
              else if t = ''ConsoleLogAppender'' then finish 2 []
              else Some None)"

definition LogDefine_of_string :: "yaml \<Rightarrow> string \<Rightarrow> log_define option" where
  "LogDefine_of_string Y v =
     Option.bind (Load Y v) (\<lambda>node.
     Option.bind (text_field Y node ''name'') (\<lambda>nm.
       case nm of None \<Rightarrow> None
       | Some nm \<Rightarrow>
           Option.bind (text_field Y node ''level'') (\<lambda>lv.
           Option.bind (text_field Y node ''formatter'') (\<lambda>fm.
           Option.bind (subscript Y node ''appenders'') (\<lambda>as.
             case as of None \<Rightarrow> None
             | Some as \<Rightarrow>
                 map_option (\<lambda>ads.
                   \<lparr>ld_name = nm, ld_level = level_of_field lv,
                    ld_formatter = (case fm of Some s \<Rightarrow> s | None \<Rightarrow> []),
                    ld_appenders = concat (map (\<lambda>a. case a of None \<Rightarrow> [] | Some a \<Rightarrow> [a]) ads)\<rparr>)
                   (bind_all (appender_of_node Y) (elems Y as)))))))"

definition level_entry :: "level \<Rightarrow> (string \<times> node) list" where
  "level_entry l = (if l \<noteq> UNKNOWN then [(''level'', Scalar (GetlevelStr l))] else [])"

definition formatter_entry :: "string \<Rightarrow> (string \<times> node) list" where
  "formatter_entry f = (if f \<noteq> [] then [(''formatter'', Scalar f)] else [])"

definition node_of_appender :: "appender_define \<Rightarrow> node list" where
  "node_of_appender a =
     (if ad_type a = 1 then
        [Map ([(''type'', Scalar ''FileLogAppender''), (''file'', Scalar (ad_file a))] @
          level_entry (ad_level a) @ formatter_entry (ad_formatter a))]
      else if ad_type a = 2 then
        [Map ((''type'', Scalar ''ConsoleLogAppender'') #
          level_entry (ad_level a) @ formatter_entry (ad_formatter a))]
      else [])"

definition node_of_LogDefine :: "log_define \<Rightarrow> node" where
  "node_of_LogDefine log =
     (let as = concat (map node_of_appender (ld_appenders log))
      in Map ((''name'', Scalar (ld_name log)) # level_entry (ld_level log) @
           formatter_entry (ld_formatter log) @ (if as \<noteq> [] then [(''appenders'', Sequence as)] else [])))"

definition string_of_LogDefine :: "yaml \<Rightarrow> log_define \<Rightarrow> string" where
  "string_of_LogDefine Y log = Dump Y (node_of_LogDefine log)"

definition LogDefine_less :: "log_define \<Rightarrow> log_define \<Rightarrow> bool" where
  "LogDefine_less a b = std_less (ld_name a) (ld_name b)"

section \<open>Configuration variables\<close>

text \<open>
  A variable of any type \<open>'v\<close> together with the conversions of its type and the name of the
  type. A change callback gets the old and the new value and acts on the rest of the program
  (\<open>'w\<close>); its flag says whether it returned, \<open>False\<close> is an exception. The callbacks are listed
  in the order in which the unordered map visits them.
\<close>

type_synonym ('v, 'w) change_call_back = "'v \<Rightarrow> 'v \<Rightarrow> 'w \<Rightarrow> 'w \<times> bool"

record 'v type_desc =
  ty_name :: string
  ty_from :: "string \<Rightarrow> 'v option"
  ty_to :: "'v \<Rightarrow> string option"

record ('v, 'w) config_var =
  cv_name :: string
  cv_desc :: string
  cv_type :: "'v type_desc"
  cv_value :: 'v
  cv_callbacks :: "(nat \<times> ('v, 'w) change_call_back) list"

definition char_lower :: "char \<Rightarrow> char" where
  "char_lower c = (if 65 \<le> code c \<and> code c \<le> 90 then char_of (code c + 32) else c)"

definition ConfigVar_new :: "'v type_desc \<Rightarrow> string \<Rightarrow> 'v \<Rightarrow> string \<Rightarrow> ('v, 'w) config_var" where
  "ConfigVar_new ty nm val desc =
     \<lparr>cv_name = map char_lower nm, cv_desc = desc, cv_type = ty, cv_value = val, cv_callbacks = []\<rparr>"

fun run_callbacks :: "(nat \<times> ('v, 'w) change_call_back) list \<Rightarrow> 'v \<Rightarrow> 'v \<Rightarrow> 'w \<Rightarrow> 'w \<times> bool" where
  "run_callbacks [] old new w = (w, True)"
| "run_callbacks ((i, f) # fs) old new w =
     (let (w, returned) = f old new w in if returned then run_callbacks fs old new w else (w, False))"

text \<open>The flag is \<open>False\<close> when a callback threw; the value is then not assigned.\<close>

definition setValue :: "('v, 'w) config_var \<Rightarrow> 'v \<Rightarrow> 'w \<Rightarrow> ('v, 'w) config_var \<times> 'w \<times> bool" where
  "setValue var val w =
     (if cv_value var = val then (var, w, True)
      else let (w, returned) = run_callbacks (cv_callbacks var) (cv_value var) val w
           in if returned then (var\<lparr>cv_value := val\<rparr>, w, True) else (var, w, False))"

definition Fromstring :: "('v, 'w) config_var \<Rightarrow> string \<Rightarrow> 'w \<Rightarrow> ('v, 'w) config_var \<times> 'w \<times> bool" where
  "Fromstring var str w =
     (case ty_from (cv_type var) str of None \<Rightarrow> (var, w, False) | Some val \<Rightarrow> setValue var val w)"

definition ToString :: "('v, 'w) config_var \<Rightarrow> string" where
  "ToString var = (case ty_to (cv_type var) (cv_value var) of None \<Rightarrow> [] | Some s \<Rightarrow> s)"

text \<open>The counter is one for all variables of a type.\<close>

definition addChangeCallback ::
  "nat \<Rightarrow> ('v, 'w) config_var \<Rightarrow> ('v, 'w) change_call_back \<Rightarrow> nat \<times> ('v, 'w) config_var \<times> nat" where
  "addChangeCallback counter var f =
     (let i = (counter + 1) mod 2 ^ 64
      in (i, var\<lparr>cv_callbacks := AList.update i f (cv_callbacks var)\<rparr>, i))"

definition getChangeCallback :: "('v, 'w) config_var \<Rightarrow> nat \<Rightarrow> ('v, 'w) change_call_back option" where
  "getChangeCallback var i = map_of (cv_callbacks var) i"

definition delChangeCallback :: "('v, 'w) config_var \<Rightarrow> nat \<Rightarrow> ('v, 'w) config_var" where
  "delChangeCallback var i = var\<lparr>cv_callbacks := AList.delete i (cv_callbacks var)\<rparr>"

definition clearChangeCallbacks :: "('v, 'w) config_var \<Rightarrow> ('v, 'w) config_var" where
  "clearChangeCallbacks var = var\<lparr>cv_callbacks := []\<rparr>"

section \<open>The manager\<close>

text \<open>
  The variables by name. A pointer to a variable is its name here: no operation removes a
  variable, and each is stored under the name it was created with.
\<close>

type_synonym ('v, 'w) datas = "string \<rightharpoonup> ('v, 'w) config_var"

definition name_chars :: string where
  "name_chars = ''abcdefghikjlmnopqrstuvwxyz._012345678''"

definition name_ok :: "string \<Rightarrow> bool" where
  "name_ok s \<longleftrightarrow> list_all (\<lambda>c. c \<in> set name_chars) s"

text \<open>\<open>Inl\<close> is \<open>invalid_argument\<close>, \<open>Inr None\<close> the null pointer.\<close>

definition Lookup_default ::
  "'v type_desc \<Rightarrow> ('v, 'w) datas \<Rightarrow> string \<Rightarrow> 'v \<Rightarrow> string \<Rightarrow> ('v, 'w) datas \<times> (string + string option)" where
  "Lookup_default ty datas nm default_value description =
     (case datas nm of
        Some var \<Rightarrow> (datas, Inr (if ty_name (cv_type var) = ty_name ty then Some nm else None))
      | None \<Rightarrow>
          if \<not> name_ok nm then (datas, Inl nm)
          else (datas(nm \<mapsto> ConfigVar_new ty nm default_value description), Inr (Some nm)))"

definition Lookup_var :: "'v type_desc \<Rightarrow> ('v, 'w) datas \<Rightarrow> string \<Rightarrow> string option" where
  "Lookup_var ty datas nm =
     (case datas nm of
        None \<Rightarrow> None
      | Some var \<Rightarrow> if ty_name (cv_type var) = ty_name ty then Some nm else None)"

definition LookupBase :: "('v, 'w) datas \<Rightarrow> string \<Rightarrow> string option" where
  "LookupBase datas nm = (if datas nm = None then None else Some nm)"

fun ListAllConfigs :: "string \<Rightarrow> node \<Rightarrow> (string \<times> node) list" where
  "ListAllConfigs prefix node =
     (if \<not> name_ok prefix then []
      else (prefix, node) #
        (case node of
           Map kvs \<Rightarrow>
             concat (map (\<lambda>(k, n). ListAllConfigs (if prefix = [] then k else prefix @ ''.'' @ k) n) kvs)
         | _ \<Rightarrow> []))"

definition node_text :: "yaml \<Rightarrow> node \<Rightarrow> string" where
  "node_text Y n = (case n of Scalar s \<Rightarrow> s | _ \<Rightarrow> Dump Y n)"

fun load_configs ::
  "yaml \<Rightarrow> (string \<times> node) list \<Rightarrow> ('v, 'w) datas \<Rightarrow> 'w \<Rightarrow> ('v, 'w) datas \<times> 'w \<times> bool" where
  "load_configs Y [] datas w = (datas, w, True)"
| "load_configs Y ((prefix, n) # ps) datas w =
     (if prefix = [] then load_configs Y ps datas w
      else let key = map char_lower prefix in
        case datas key of
          None \<Rightarrow> load_configs Y ps datas w
        | Some var \<Rightarrow>
            let (var, w, ok) = Fromstring var (node_text Y n) w; datas = datas(key \<mapsto> var)
            in if ok then load_configs Y ps datas w else (datas, w, False))"

definition LoadFromYaml :: "yaml \<Rightarrow> node \<Rightarrow> ('v, 'w) datas \<Rightarrow> 'w \<Rightarrow> ('v, 'w) datas \<times> 'w \<times> bool" where
  "LoadFromYaml Y node datas w = load_configs Y (ListAllConfigs [] node) datas w"

text \<open>The action runs on every variable, in the order in which the unordered map gives them.\<close>

definition Visit :: "(('v, 'w) config_var \<Rightarrow> 's \<Rightarrow> 's) \<Rightarrow> ('v, 'w) config_var list \<Rightarrow> 's \<Rightarrow> 's" where
  "Visit act vars s = fold act vars s"

section \<open>Lemmas\<close>

lemma char_lower_ok: "c \<in> set name_chars \<Longrightarrow> char_lower c = c"
proof -
  have "list_all (\<lambda>c. char_lower c = c) name_chars" by code_simp
  then show "c \<in> set name_chars \<Longrightarrow> char_lower c = c" by (simp add: list_all_iff)
qed

lemma lower_name_ok: "name_ok s \<Longrightarrow> map char_lower s = s"
  by (simp add: name_ok_def list_all_iff char_lower_ok map_idI)

declare ListAllConfigs.simps [simp del]

lemma ListAllConfigs_ok: "(k, n) \<in> set (ListAllConfigs prefix node) \<Longrightarrow> name_ok k"
proof (induction prefix node arbitrary: k n rule: ListAllConfigs.induct)
  case (1 prefix node)
  have ok: "name_ok prefix" using 1(2) by (auto simp: ListAllConfigs.simps [of prefix node] split: if_splits)
  show ?case
  proof (cases "(k, n) = (prefix, node)")
    case False
    then obtain kvs k' n' where m: "node = Map kvs" "(k', n') \<in> set kvs"
        "(k, n) \<in> set (ListAllConfigs (if prefix = [] then k' else prefix @ ''.'' @ k') n')"
      using 1(2) ok by (auto simp: ListAllConfigs.simps [of prefix node] split: node.splits)
    show ?thesis by (rule 1(1) [OF _ m(1,2) refl m(3)]) (simp add: ok)
  qed (use ok in simp)
qed

lemma setValue_ok:
  "setValue var val w = (var', w', True) \<Longrightarrow>
     cv_value var' = val \<and> cv_type var' = cv_type var \<and> cv_callbacks var' = cv_callbacks var"
  by (auto simp: setValue_def split: if_splits prod.splits)

lemma Fromstring_ok:
  "Fromstring var s w = (var', w', True) \<Longrightarrow>
     ty_from (cv_type var) s = Some (cv_value var') \<and> cv_type var' = cv_type var \<and>
     cv_callbacks var' = cv_callbacks var"
  by (auto simp: Fromstring_def dest: setValue_ok split: option.splits)

text \<open>\<open>map_of (rev ps)\<close> is the last entry of a name.\<close>

lemma load_configs_value:
  assumes "load_configs Y ps datas w = (datas', w', True)" "\<forall>(k, n) \<in> set ps. name_ok k"
    and "datas nm = Some var"
  shows "\<exists>var'. datas' nm = Some var' \<and> cv_type var' = cv_type var \<and> cv_callbacks var' = cv_callbacks var \<and>
    (case map_of (rev ps) nm of
       None \<Rightarrow> var' = var
     | Some n \<Rightarrow> if nm = [] then var' = var else ty_from (cv_type var) (node_text Y n) = Some (cv_value var'))"
  using assms
proof (induction ps arbitrary: datas w var)
  case (Cons p ps)
  obtain k n where p: "p = (k, n)" by (cases p)
  have low: "map char_lower k = k" using Cons.prems(2) p lower_name_ok by auto
  have ok: "\<forall>(k, n) \<in> set ps. name_ok k" using Cons.prems(2) by simp
  have m: "map_of (rev (p # ps)) nm =
      (case map_of (rev ps) nm of Some x \<Rightarrow> Some x | None \<Rightarrow> if nm = k then Some n else None)"
    by (simp add: p map_add_def split: option.split)
  show ?case
  proof (cases "k = [] \<or> datas k = None")
    case True
    then have "load_configs Y ps datas w = (datas', w', True)"
      using Cons.prems(1) by (auto simp: p low Let_def split: if_splits)
    then have ih: "\<exists>var'. datas' nm = Some var' \<and> cv_type var' = cv_type var \<and> cv_callbacks var' = cv_callbacks var \<and>
      (case map_of (rev ps) nm of
         None \<Rightarrow> var' = var
       | Some n \<Rightarrow> if nm = [] then var' = var else ty_from (cv_type var) (node_text Y n) = Some (cv_value var'))"
      using Cons.IH ok Cons.prems(3) by blast
    have "nm = k \<Longrightarrow> nm = []" using True Cons.prems(3) by auto
    then show ?thesis using ih unfolding m by (cases "map_of (rev ps) nm") auto
  next
    case False
    then obtain v where v: "datas k = Some v" and k: "k \<noteq> []" by auto
    obtain v' w1 b where f: "Fromstring v (node_text Y n) w = (v', w1, b)" by (metis prod_cases3)
    have b: "b" and l: "load_configs Y ps (datas(k \<mapsto> v')) w1 = (datas', w', True)"
      using Cons.prems(1) v k f by (auto simp: p low Let_def split: if_splits)
    have fo: "ty_from (cv_type v) (node_text Y n) = Some (cv_value v')" "cv_type v' = cv_type v"
      "cv_callbacks v' = cv_callbacks v" using Fromstring_ok [of v "node_text Y n" w v' w1] f b by auto
    show ?thesis
    proof (cases "nm = k")
      case True
      then show ?thesis
        using Cons.IH [OF l ok, of v'] Cons.prems(3) v k fo unfolding m by (cases "map_of (rev ps) nm") auto
    next
      case False
      then show ?thesis
        using Cons.IH [OF l ok, of var] Cons.prems(3) unfolding m by (cases "map_of (rev ps) nm") auto
    qed
  qed
qed auto

text \<open>Conversions.\<close>

lemma bind_all_simps [simp]:
  "bind_all f [] = Some []"
  "bind_all f (x # xs) = Option.bind (f x) (\<lambda>y. map_option (\<lambda>ys. y # ys) (bind_all f xs))"
  by (simp_all add: bind_all_def)

lemma bind_all_map: "(\<And>x. x \<in> set xs \<Longrightarrow> f (g x) = Some (h x)) \<Longrightarrow> bind_all f (map g xs) = Some (map h xs)"
  by (induction xs) auto

lemma GetlevelInt_GetlevelStr [simp]: "GetlevelInt (GetlevelStr l) = l"
  by (cases l; simp; code_simp)

lemma text_field_Map:
  "yaml_laws Y ns \<Longrightarrow> text_field Y (Map kvs) k =
     (case map_of kvs k of None \<Rightarrow> Some None | Some n \<Rightarrow> map_option Some (as_string Y n))"
  by (auto simp: text_field_def yaml_laws_def split: option.split)

lemma as_string_Scalar: "yaml_laws Y ns \<Longrightarrow> as_string Y (Scalar s) = Some s"
  by (simp add: yaml_laws_def)

lemma level_of_entry:
  "level_of_field (if l \<noteq> UNKNOWN then Some (GetlevelStr l) else None) = l"
  using GetlevelInt_GetlevelStr [of UNKNOWN] by (auto simp: level_of_field_def)

definition appender_ok :: "appender_define \<Rightarrow> bool" where
  "appender_ok a \<longleftrightarrow> ad_type a = 1 \<and> ad_file a \<noteq> [] \<or> ad_type a = 2 \<and> ad_file a = []"

lemma appender_of_node_of:
  assumes "yaml_laws Y ns" "appender_ok a"
  shows "\<exists>n. node_of_appender a = [n] \<and> appender_of_node Y n = Some (Some a)"
proof -
  note f = text_field_Map [OF assms(1)] as_string_Scalar [OF assms(1)]
  show ?thesis
    using assms(2) level_of_entry [of "ad_level a"]
    by (cases "ad_level a = UNKNOWN"; cases "ad_formatter a")
      (auto simp: appender_ok_def node_of_appender_def appender_of_node_def f level_entry_def formatter_entry_def)
qed

lemma appenders_of_nodes:
  assumes "yaml_laws Y ns" "list_all appender_ok as"
  shows "bind_all (appender_of_node Y) (concat (map node_of_appender as)) = Some (map Some as)"
  using assms(2)
proof (induction as)
  case (Cons a as)
  then show ?case using appender_of_node_of [OF assms(1), of a] by auto
qed simp

lemma node_of_appender_Nil: "appender_ok a \<Longrightarrow> node_of_appender a \<noteq> []"
  by (auto simp: appender_ok_def node_of_appender_def)

lemma LogDefine_read_back:
  assumes Y: "yaml_laws Y ns" and n: "node_of_LogDefine log \<in> ns" and a: "list_all appender_ok (ld_appenders log)"
  shows "LogDefine_of_string Y (string_of_LogDefine Y log) = (if ld_appenders log = [] then None else Some log)"
proof -
  note f = text_field_Map [OF Y] as_string_Scalar [OF Y]
  let ?as = "concat (map node_of_appender (ld_appenders log))"
  have l: "Load Y (string_of_LogDefine Y log) = Some (node_of_LogDefine log)"
    using Y n by (simp add: yaml_laws_def string_of_LogDefine_def)
  have s: "subscript Y (Map kvs) k = Some (map_of kvs k)" "elems Y (Sequence ms) = ms" for kvs k ms
    using Y by (simp_all add: yaml_laws_def)
  have e: "?as = [] \<longleftrightarrow> ld_appenders log = []"
    using a node_of_appender_Nil by (cases "ld_appenders log") auto
  have c: "concat (map (\<lambda>a. case a of None \<Rightarrow> [] | Some a \<Rightarrow> [a]) (map Some as)) = as"
    for as :: "appender_define list" by (induction as) auto
  show ?thesis
    using level_of_entry [of "ld_level log"] appenders_of_nodes [OF Y a] e
    by (cases "ld_level log = UNKNOWN"; cases "ld_formatter log"; cases "ld_appenders log = []")
      (auto simp: LogDefine_of_string_def l node_of_LogDefine_def f s level_entry_def formatter_entry_def
        Let_def c simp del: map_map)
qed

lemma scalar_not_LogDefine:
  assumes "yaml_laws Y ns" "Scalar s \<in> ns"
  shows "LogDefine_of_string Y (Dump Y (Scalar s)) = None"
proof -
  have "Load Y (Dump Y (Scalar s)) = Some (Scalar s)" using assms by (simp add: yaml_laws_def)
  moreover have "subscript Y (Scalar s) ''name'' \<in> {None, Some None}" using assms by (simp add: yaml_laws_def)
  ultimately show ?thesis by (auto simp: LogDefine_of_string_def text_field_def)
qed

text \<open>A log set is ordered by name.\<close>

interpretation log_set: comparator LogDefine_less
proof
  show "\<not> LogDefine_less x x" for x by (simp add: LogDefine_less_def std_less_def bytes_less_irrefl)
  show "LogDefine_less x z" if "LogDefine_less x y" "LogDefine_less y z" for x y z
    using that bytes_less_trans unfolding LogDefine_less_def std_less_def by blast
  show "LogDefine_less x y \<or> LogDefine_less y z" if "LogDefine_less x z" for x y z
    using that bytes_less_cotrans unfolding LogDefine_less_def std_less_def by blast
qed

definition log_set_of :: "log_define list \<Rightarrow> log_define list" where
  "log_set_of vs = fold (oset_insert LogDefine_less) vs []"

lemma log_set_of_distinct: "distinct (map ld_name (log_set_of vs))"
proof -
  have "sorted_wrt LogDefine_less (fold (oset_insert LogDefine_less) vs xs)"
    if "sorted_wrt LogDefine_less xs" for xs
    using that by (induction vs arbitrary: xs) (simp_all add: log_set.sorted_oset_insert)
  then have "sorted_wrt LogDefine_less (log_set_of vs)" by (simp add: log_set_of_def)
  moreover have "sorted_wrt LogDefine_less xs \<Longrightarrow> distinct (map ld_name xs)" for xs
  proof (induction xs)
    case (Cons x xs)
    have "ld_name x \<noteq> ld_name y" if "y \<in> set xs" for y
      using Cons.prems that log_set.lt_irrefl [of x] by (auto simp: LogDefine_less_def)
    then show ?case using Cons by auto
  qed simp
  ultimately show ?thesis by blast
qed

lemma log_set_from_nodes:
  assumes Y: "yaml_laws Y ns" and v: "\<forall>v \<in> set vs. ld_appenders v \<noteq> [] \<and> list_all appender_ok (ld_appenders v) \<and>
      node_of_LogDefine v \<in> ns" and n: "Sequence (map node_of_LogDefine vs) \<in> ns"
  shows "cast_to_set Y LogDefine_less (LogDefine_of_string Y) (Dump Y (Sequence (map node_of_LogDefine vs))) =
    Some (log_set_of vs)"
proof -
  have "bind_all (\<lambda>n. LogDefine_of_string Y (Dump Y n)) (map node_of_LogDefine vs) = Some (map (\<lambda>v. v) vs)"
  proof (rule bind_all_map)
    show "LogDefine_of_string Y (Dump Y (node_of_LogDefine v)) = Some v" if "v \<in> set vs" for v
      using LogDefine_read_back [OF Y, of v] v that by (simp add: string_of_LogDefine_def)
  qed
  then show ?thesis using Y n by (simp add: cast_to_set_def yaml_laws_def log_set_of_def)
qed

section \<open>Properties\<close>

text \<open>An instance of the library for the trees of a list: the text of a tree is its place.\<close>

definition sample_yaml :: "node list \<Rightarrow> yaml" where
  "sample_yaml ns =
     \<lparr>Load = (\<lambda>s. if length s < length ns then Some (ns ! length s) else None),
      Dump = (\<lambda>n. replicate (length (takeWhile (\<lambda>m. m \<noteq> n) ns)) (CHR ''x'')),
      subscript = (\<lambda>n k. case n of Map kvs \<Rightarrow> Some (map_of kvs k) | _ \<Rightarrow> None),
      as_string = (\<lambda>n. case n of Scalar s \<Rightarrow> Some s | _ \<Rightarrow> None),
      elems = (\<lambda>n. case n of Sequence ns \<Rightarrow> ns | _ \<Rightarrow> [])\<rparr>"

lemma sample_yaml_laws: "yaml_laws (sample_yaml ns) (set ns)"
proof -
  have "length (takeWhile (\<lambda>m. m \<noteq> n) ns) < length ns \<and> ns ! length (takeWhile (\<lambda>m. m \<noteq> n) ns) = n"
    if "n \<in> set ns" for n
    using that by (induction ns) auto
  then show ?thesis by (simp add: yaml_laws_def sample_yaml_def)
qed

text \<open>C36. Loading a document: after a successful load every variable that the document names has the
  value its conversion gives for the last entry of that name, and every other variable is unchanged;
  no variable loses its type or its callbacks.\<close>

theorem load_sets_variables:
  assumes "LoadFromYaml Y node datas w = (datas', w', True)" "datas nm = Some var"
  shows "\<exists>var'. datas' nm = Some var' \<and> cv_type var' = cv_type var \<and> cv_callbacks var' = cv_callbacks var \<and>
    (case map_of (rev (ListAllConfigs [] node)) nm of
       None \<Rightarrow> var' = var
     | Some n \<Rightarrow> if nm = [] then var' = var else ty_from (cv_type var) (node_text Y n) = Some (cv_value var'))"
  using load_configs_value [OF assms(1) [unfolded LoadFromYaml_def] _ assms(2)] ListAllConfigs_ok by fastforce

definition text_var :: "string \<Rightarrow> (string, nat) config_var" where
  "text_var nm = ConfigVar_new \<lparr>ty_name = ''string'', ty_from = Some, ty_to = Some\<rparr> nm ''off'' []"

theorem load_sets_variables_witness:
  "\<exists>datas' var'. LoadFromYaml (sample_yaml []) (Map [(''log'', Map [(''a'', Scalar ''on'')])]) [''log.a'' \<mapsto> text_var ''log.a''] 0 =
     (datas', 0, True) \<and> datas' ''log.a'' = Some var' \<and> cv_value var' = ''on''"
proof -
  have l: "ListAllConfigs [] (Map [(''log'', Map [(''a'', Scalar ''on'')])]) =
      [([], Map [(''log'', Map [(''a'', Scalar ''on'')])]), (''log'', Map [(''a'', Scalar ''on'')]), (''log.a'', Scalar ''on'')]"
    by (simp add: ListAllConfigs.simps name_ok_def name_chars_def)
  have k: "map char_lower ''log'' = ''log''" "map char_lower ''log.a'' = ''log.a''" by code_simp+
  obtain datas' where d: "LoadFromYaml (sample_yaml []) (Map [(''log'', Map [(''a'', Scalar ''on'')])])
      [''log.a'' \<mapsto> text_var ''log.a''] (0 :: nat) = (datas', 0, True)"
    by (simp add: LoadFromYaml_def l k Fromstring_def text_var_def ConfigVar_new_def setValue_def node_text_def Let_def
        del: list.map)
  then show ?thesis
    using load_sets_variables [OF d, of "''log.a''" "text_var ''log.a''"] l
    by (auto simp: text_var_def ConfigVar_new_def node_text_def)
qed

text \<open>Names: \<open>Lookup\<close> rejects a name with the digit nine, which its documentation allows, and an
  entry of a document whose name has a nine or an upper case letter is skipped before its name is
  converted to lower case.\<close>

theorem nine_rejected:
  assumes "c \<in> set nm" "c = CHR ''9'' \<or> 65 \<le> code c \<and> code c \<le> 90"
  shows "LoadFromYaml Y (Map [(nm, n)]) datas w = (datas, w, True) \<and>
    (datas nm = None \<longrightarrow> Lookup_default ty datas nm val desc = (datas, Inl nm))"
proof -
  have "list_all (\<lambda>c. c \<noteq> CHR ''9'' \<and> \<not> (65 \<le> code c \<and> code c \<le> 90)) name_chars" by code_simp
  then have bad: "\<not> name_ok nm" using assms by (auto simp: name_ok_def list_all_iff)
  moreover have "ListAllConfigs [] (Map [(nm, n)]) = [([], Map [(nm, n)])]"
    using bad by (simp add: ListAllConfigs.simps) (simp add: name_ok_def)
  ultimately show ?thesis by (simp add: LoadFromYaml_def Lookup_default_def)
qed

theorem nine_rejected_witness:
  "Lookup_default \<lparr>ty_name = ''string'', ty_from = Some, ty_to = Some\<rparr> (\<lambda>k. None :: (string, nat) config_var option) ''http.port.9090'' [] [] =
     (\<lambda>k. None, Inl ''http.port.9090'')"
  using nine_rejected [of "CHR ''9''" "''http.port.9090''" "sample_yaml []" Null "\<lambda>k. None" "0 :: nat" "\<lparr>ty_name = ''string'', ty_from = Some, ty_to = Some\<rparr>" "[]" "[]"] by simp

text \<open>Log definitions: what \<open>LexicalCast\<close> writes for a log definition it reads back, as long as
  the definition has an appender; without one, the text it writes is refused by the reader.\<close>

theorem log_define_round_trip:
  assumes "yaml_laws Y ns" "node_of_LogDefine log \<in> ns" "list_all appender_ok (ld_appenders log)"
  shows "LogDefine_of_string Y (string_of_LogDefine Y log) = (if ld_appenders log = [] then None else Some log)"
  using assms by (rule LogDefine_read_back)

theorem log_define_round_trip_witness:
  "LogDefine_of_string (sample_yaml [node_of_LogDefine (sample_define ''a'')])
     (string_of_LogDefine (sample_yaml [node_of_LogDefine (sample_define ''a'')]) (sample_define ''a'')) =
   Some (sample_define ''a'')"
  using log_define_round_trip [OF sample_yaml_laws [of "[node_of_LogDefine (sample_define ''a'')]"],
      of "sample_define ''a''"]
  by (simp add: sample_define_def appender_ok_def)

text \<open>Log sets: the text that the variable \<open>logs\<close> writes for a set that is not empty cannot be
  read back. Each definition is written as a scalar, and the reader converts the dump of the scalar.\<close>

theorem log_set_unreadable:
  assumes "yaml_laws Y ns" "Sequence (map (\<lambda>v. Scalar (string_of_LogDefine Y v)) vs) \<in> ns"
    and "\<forall>v \<in> set vs. Scalar (string_of_LogDefine Y v) \<in> ns" "vs \<noteq> []"
    and ty: "ty_from (cv_type var) = cast_to_set Y LogDefine_less (LogDefine_of_string Y)"
  shows "Fromstring var (cast_from_set Y (string_of_LogDefine Y) vs) w = (var, w, False)"
proof -
  obtain v us where vs: "vs = v # us" using assms(4) by (cases vs) auto
  have "LogDefine_of_string Y (Dump Y (Scalar (string_of_LogDefine Y v))) = None"
    using scalar_not_LogDefine [OF assms(1)] assms(3) vs by simp
  then have "cast_to_set Y LogDefine_less (LogDefine_of_string Y) (cast_from_set Y (string_of_LogDefine Y) vs) = None"
    using assms(1,2) by (simp add: cast_to_set_def cast_from_set_def yaml_laws_def vs)
  then show ?thesis by (simp add: Fromstring_def ty)
qed

definition log_set_var :: "yaml \<Rightarrow> (log_define list, nat) config_var" where
  "log_set_var Y = ConfigVar_new \<lparr>ty_name = ''set'', ty_from = cast_to_set Y LogDefine_less (LogDefine_of_string Y),
     ty_to = Some \<circ> cast_from_set Y (string_of_LogDefine Y)\<rparr> ''logs'' [] []"

theorem log_set_unreadable_witness:
  "\<exists>Y. Fromstring (log_set_var Y) (cast_from_set Y (string_of_LogDefine Y) [sample_define ''a'']) 0 =
     (log_set_var Y, 0, False)"
proof
  let ?ns = "[Scalar ''xx'', Sequence [Scalar ''xx'']]"
  let ?Y = "sample_yaml ?ns"
  have s: "string_of_LogDefine ?Y (sample_define ''a'') = ''xx''"
    by (simp add: string_of_LogDefine_def sample_yaml_def node_of_LogDefine_def Let_def numeral_2_eq_2)
  show "Fromstring (log_set_var ?Y) (cast_from_set ?Y (string_of_LogDefine ?Y) [sample_define ''a'']) 0 =
      (log_set_var ?Y, 0, False)"
    by (rule log_set_unreadable [OF sample_yaml_laws [of ?ns]])
      (simp_all add: s log_set_var_def ConfigVar_new_def)
qed

end
