(* ===== verification/Sockets.thy ===== *)
theory Sockets
  imports Hooks Addresses
begin

text \<open>
  Model of the class \<open>Socket\<close> (\<open>src/Socket.h\<close>, \<open>src/Socket.cc\<close>): the object with its descriptor,
  its flag and its cached addresses.

  The system calls are those of the thread, hooked or not; they act on the rest of the world,
  and the class does not look into it. They are the operations of the record \<open>net\<close>, a
  parameter. What the kernel keeps of descriptors is stated by \<open>net_laws\<close>: \<open>socket\<close> and
  \<open>accept\<close> open a descriptor that was not open or fail with \<open>-1\<close>, \<open>close\<close> closes its own, and
  the other calls open and close nothing.
\<close>

section \<open>The system calls\<close>

datatype opt_value = Opt_int int | Opt_timeval int int

record 'w net =
  n_socket :: "u16 \<Rightarrow> int \<Rightarrow> int \<Rightarrow> 'w \<Rightarrow> int \<times> 'w"
  n_close :: "int \<Rightarrow> 'w \<Rightarrow> 'w"
  n_setsockopt :: "int \<Rightarrow> int \<Rightarrow> int \<Rightarrow> opt_value \<Rightarrow> 'w \<Rightarrow> int \<times> 'w"
  n_getsockopt :: "int \<Rightarrow> int \<Rightarrow> int \<Rightarrow> 'w \<Rightarrow> int option"
  n_errno :: "'w \<Rightarrow> int"
  n_getsockname :: "int \<Rightarrow> 'w \<Rightarrow> address option"
  n_getpeername :: "int \<Rightarrow> 'w \<Rightarrow> address option"
  n_accept :: "int \<Rightarrow> 'w \<Rightarrow> int \<times> 'w"
  n_bind :: "int \<Rightarrow> address \<Rightarrow> 'w \<Rightarrow> int \<times> 'w"
  n_listen :: "int \<Rightarrow> int \<Rightarrow> 'w \<Rightarrow> int \<times> 'w"
  n_connect :: "int \<Rightarrow> address \<Rightarrow> u64 option \<Rightarrow> 'w \<Rightarrow> int \<times> 'w"
  n_unlink :: "bytes \<Rightarrow> 'w \<Rightarrow> 'w"
  n_ctx :: "int \<Rightarrow> 'w \<Rightarrow> fd_ctx option"
  n_ctx_timeout :: "int \<Rightarrow> int \<Rightarrow> u64 \<Rightarrow> 'w \<Rightarrow> 'w"
  n_send :: "int \<Rightarrow> bytes list \<Rightarrow> address option \<Rightarrow> int \<Rightarrow> 'w \<Rightarrow> int \<times> 'w"
  n_recv :: "int \<Rightarrow> nat list \<Rightarrow> address option \<Rightarrow> int \<Rightarrow> 'w \<Rightarrow> (int \<times> bytes list) \<times> 'w"

definition opens_fresh :: "('w \<Rightarrow> int set) \<Rightarrow> 'w \<Rightarrow> int \<times> 'w \<Rightarrow> bool" where
  "opens_fresh opens w r \<longleftrightarrow>
     (case r of (fd, w') \<Rightarrow>
        fd = - 1 \<and> opens w' = opens w \<or> fd \<ge> 0 \<and> fd \<notin> opens w \<and> opens w' = insert fd (opens w))"

definition net_laws :: "'w net \<Rightarrow> ('w \<Rightarrow> int set) \<Rightarrow> bool" where
  "net_laws N opens \<longleftrightarrow>
     (\<forall>f t p w. opens_fresh opens w (n_socket N f t p w)) \<and>
     (\<forall>fd w. opens_fresh opens w (n_accept N fd w)) \<and>
     (\<forall>fd w. opens (n_close N fd w) = opens w - {fd}) \<and>
     (\<forall>fd l opt v w. opens (snd (n_setsockopt N fd l opt v w)) = opens w) \<and>
     (\<forall>fd a w. opens (snd (n_bind N fd a w)) = opens w) \<and>
     (\<forall>fd b w. opens (snd (n_listen N fd b w)) = opens w) \<and>
     (\<forall>fd a ms w. opens (snd (n_connect N fd a ms w)) = opens w) \<and>
     (\<forall>p w. opens (n_unlink N p w) = opens w) \<and>
     (\<forall>fd ty v w. opens (n_ctx_timeout N fd ty v w) = opens w)"

section \<open>The object\<close>

text \<open>The constructor leaves \<open>m_isConnected\<close> uninitialised; its first value is the argument \<open>junk\<close>.\<close>

record socket =
  m_sockfd :: int
  m_type :: int
  m_family :: u16
  m_protocol :: int
  m_isConnected :: bool
  m_localAddress :: "address option"
  m_remoteAddress :: "address option"

definition SOCK_STREAM :: int where "SOCK_STREAM = 1"
definition SOCK_DGRAM :: int where "SOCK_DGRAM = 2"
definition SO_REUSEADDR :: int where "SO_REUSEADDR = 2"
definition SO_ERROR :: int where "SO_ERROR = 4"
definition IPPROTO_TCP :: int where "IPPROTO_TCP = 6"
definition TCP_NODELAY :: int where "TCP_NODELAY = 1"
definition SOMAXCONN :: int where "SOMAXCONN = 4096"

definition Socket_new :: "bool \<Rightarrow> u16 \<Rightarrow> int \<Rightarrow> int \<Rightarrow> socket" where
  "Socket_new junk family type protocol =
     \<lparr>m_sockfd = - 1, m_type = type, m_family = family, m_protocol = protocol, m_isConnected = junk,
      m_localAddress = None, m_remoteAddress = None\<rparr>"

definition isValid :: "socket \<Rightarrow> bool" where
  "isValid s \<longleftrightarrow> m_sockfd s \<ge> 0"

definition getOption :: "'w net \<Rightarrow> socket \<Rightarrow> int \<Rightarrow> int \<Rightarrow> 'w \<Rightarrow> int option" where
  "getOption N s level opt w = n_getsockopt N (m_sockfd s) level opt w"

definition setOption :: "'w net \<Rightarrow> socket \<Rightarrow> int \<Rightarrow> int \<Rightarrow> opt_value \<Rightarrow> 'w \<Rightarrow> bool \<times> 'w" where
  "setOption N s level opt v w =
     (let (r, w) = n_setsockopt N (m_sockfd s) level opt v w in (r \<noteq> - 1, w))"

definition getErrorno :: "'w net \<Rightarrow> socket \<Rightarrow> 'w \<Rightarrow> int" where
  "getErrorno N s w = (case getOption N s SOL_SOCKET SO_ERROR w of Some v \<Rightarrow> v | None \<Rightarrow> n_errno N w)"

definition setSockfd :: "'w net \<Rightarrow> socket \<Rightarrow> 'w \<Rightarrow> 'w" where
  "setSockfd N s w =
     (let (_, w) = setOption N s SOL_SOCKET SO_REUSEADDR (Opt_int 1) w
      in if m_type s = SOCK_STREAM \<and> (m_family s = AF_INET \<or> m_family s = AF_INET6)
         then snd (setOption N s IPPROTO_TCP TCP_NODELAY (Opt_int 1) w) else w)"

definition newSockfd :: "'w net \<Rightarrow> socket \<Rightarrow> 'w \<Rightarrow> socket \<times> 'w" where
  "newSockfd N s w =
     (let (fd, w) = n_socket N (m_family s) (m_type s) (m_protocol s) w; s = s\<lparr>m_sockfd := fd\<rparr>
      in (s, if fd \<noteq> - 1 then setSockfd N s w else w))"

text \<open>
  The kernel's answer fills an address object of the socket's family. An answer is kept; a
  failure gives an unknown address, which is not kept.
\<close>

definition unknown_address :: "u16 \<Rightarrow> address" where
  "unknown_address family = UnknownAddress family (replicate 14 0)"

definition getLocalAddress :: "'w net \<Rightarrow> socket \<Rightarrow> 'w \<Rightarrow> socket \<times> address" where
  "getLocalAddress N s w =
     (case m_localAddress s of
        Some a \<Rightarrow> (s, a)
      | None \<Rightarrow>
          (case n_getsockname N (m_sockfd s) w of
             None \<Rightarrow> (s, unknown_address (m_family s))
           | Some a \<Rightarrow> (s\<lparr>m_localAddress := Some a\<rparr>, a)))"

definition getRemoteAddress :: "'w net \<Rightarrow> socket \<Rightarrow> 'w \<Rightarrow> socket \<times> address" where
  "getRemoteAddress N s w =
     (case m_remoteAddress s of
        Some a \<Rightarrow> (s, a)
      | None \<Rightarrow>
          (case n_getpeername N (m_sockfd s) w of
             None \<Rightarrow> (s, unknown_address (m_family s))
           | Some a \<Rightarrow> (s\<lparr>m_remoteAddress := Some a\<rparr>, a)))"

definition Socket_init :: "'w net \<Rightarrow> socket \<Rightarrow> int \<Rightarrow> 'w \<Rightarrow> socket \<times> 'w \<times> bool" where
  "Socket_init N s sock w =
     (case n_ctx N sock w of
        Some ctx \<Rightarrow>
          if m_isSocket ctx \<and> \<not> m_close ctx then
            let s = s\<lparr>m_sockfd := sock, m_isConnected := True\<rparr>;
                w = setSockfd N s w;
                s = fst (getLocalAddress N s w);
                s = fst (getRemoteAddress N s w)
            in (s, w, True)
          else (s, w, False)
      | None \<Rightarrow> (s, w, False))"

section \<open>Time-outs\<close>

definition timeval_of :: "int \<Rightarrow> opt_value" where
  "timeval_of v = Opt_timeval (v sdiv 1000) (v smod 1000 * 1000)"

definition socketTimeout :: "'w net \<Rightarrow> int \<Rightarrow> socket \<Rightarrow> 'w \<Rightarrow> u64" where
  "socketTimeout N typ s w =
     (case n_ctx N (m_sockfd s) w of Some ctx \<Rightarrow> getTimeout ctx typ | None \<Rightarrow> - 1)"

definition getSendTimeout :: "'w net \<Rightarrow> socket \<Rightarrow> 'w \<Rightarrow> u64" where
  "getSendTimeout N s w = socketTimeout N SO_SNDTIMEO s w"

definition getRecvTimeout :: "'w net \<Rightarrow> socket \<Rightarrow> 'w \<Rightarrow> u64" where
  "getRecvTimeout N s w = socketTimeout N SO_RCVTIMEO s w"

definition setSocketTimeout :: "'w net \<Rightarrow> int \<Rightarrow> socket \<Rightarrow> int \<Rightarrow> 'w \<Rightarrow> 'w" where
  "setSocketTimeout N typ s v w =
     (let w = (case n_ctx N (m_sockfd s) w of
                 Some ctx \<Rightarrow> n_ctx_timeout N (m_sockfd s) typ (word_of_int v) w
               | None \<Rightarrow> w)
      in snd (setOption N s SOL_SOCKET typ (timeval_of v) w))"

definition setSendTimeout :: "'w net \<Rightarrow> socket \<Rightarrow> int \<Rightarrow> 'w \<Rightarrow> 'w" where
  "setSendTimeout N s v w = setSocketTimeout N SO_SNDTIMEO s v w"

definition setRecvTimeout :: "'w net \<Rightarrow> socket \<Rightarrow> int \<Rightarrow> 'w \<Rightarrow> 'w" where
  "setRecvTimeout N s v w = setSocketTimeout N SO_RCVTIMEO s v w"

section \<open>Opening, connecting, closing\<close>

definition ensure_fd :: "'w net \<Rightarrow> socket \<Rightarrow> 'w \<Rightarrow> socket \<times> 'w" where
  "ensure_fd N s w = (if isValid s then (s, w) else newSockfd N s w)"

definition Socket_connect :: "'w net \<Rightarrow> socket \<Rightarrow> address \<Rightarrow> u64 \<Rightarrow> 'w \<Rightarrow> socket \<times> 'w \<times> bool" where
  "Socket_connect N s addr timeout_ms w =
     (let (s, w) = ensure_fd N s w in
      if \<not> isValid s then (s, w, False)
      else if getFamily addr \<noteq> m_family s then (s, w, False)
      else
        let (r, w) = n_connect N (m_sockfd s) addr (if timeout_ms = - 1 then None else Some timeout_ms) w
        in if r \<noteq> 0 then (s, w, False)
           else let s = s\<lparr>m_isConnected := True\<rparr>;
                    s = fst (getRemoteAddress N s w);
                    s = fst (getLocalAddress N s w)
                in (s, w, True))"

definition Socket_close :: "'w net \<Rightarrow> socket \<Rightarrow> 'w \<Rightarrow> socket \<times> 'w \<times> bool" where
  "Socket_close N s w =
     (if \<not> m_isConnected s \<and> m_sockfd s = - 1 then (s, w, True)
      else
        let s = s\<lparr>m_isConnected := False\<rparr>
        in if m_sockfd s \<noteq> - 1 then (s\<lparr>m_sockfd := - 1\<rparr>, n_close N (m_sockfd s) w, False) else (s, w, False))"

text \<open>The destructor closes the socket.\<close>

definition Socket_delete :: "'w net \<Rightarrow> socket \<Rightarrow> 'w \<Rightarrow> 'w" where
  "Socket_delete N s w = fst (snd (Socket_close N s w))"

definition reconnect :: "'w net \<Rightarrow> socket \<Rightarrow> u64 \<Rightarrow> 'w \<Rightarrow> socket \<times> 'w \<times> bool" where
  "reconnect N s timeout_ms w =
     (if \<not> m_isConnected s then
        (case m_remoteAddress s of None \<Rightarrow> (s, w, False) | Some a \<Rightarrow> Socket_connect N s a timeout_ms w)
      else (s, w, True))"

definition Socket_listen :: "'w net \<Rightarrow> socket \<Rightarrow> int \<Rightarrow> 'w \<Rightarrow> 'w \<times> bool" where
  "Socket_listen N s backlog w =
     (if \<not> isValid s then (w, False)
      else let (r, w) = n_listen N (m_sockfd s) backlog w in (w, r = 0))"

text \<open>A socket that \<open>init\<close> refuses is deleted; it never got the accepted descriptor.\<close>

definition Socket_accept :: "'w net \<Rightarrow> bool \<Rightarrow> socket \<Rightarrow> 'w \<Rightarrow> socket option \<times> 'w" where
  "Socket_accept N junk s w =
     (let newsock = Socket_new junk (m_family s) (m_type s) (m_protocol s);
          (fd, w) = n_accept N (m_sockfd s) w;
          (newsock, w, ret) = Socket_init N newsock fd w
      in if ret then (Some newsock, w) else (None, Socket_delete N newsock w))"

definition CreateTCP :: "bool \<Rightarrow> address \<Rightarrow> socket" where
  "CreateTCP junk a = Socket_new junk (getFamily a) SOCK_STREAM 0"

definition udp_of :: "'w net \<Rightarrow> socket \<Rightarrow> 'w \<Rightarrow> socket \<times> 'w" where
  "udp_of N s w = (let (s, w) = newSockfd N s w in (s\<lparr>m_isConnected := True\<rparr>, w))"

definition CreateUDP :: "'w net \<Rightarrow> bool \<Rightarrow> address \<Rightarrow> 'w \<Rightarrow> socket \<times> 'w" where
  "CreateUDP N junk a w = udp_of N (Socket_new junk (getFamily a) SOCK_DGRAM 0) w"

definition CreateTCPSocket :: "bool \<Rightarrow> socket" where
  "CreateTCPSocket junk = Socket_new junk AF_INET SOCK_STREAM 0"

definition CreateUDPSocket :: "'w net \<Rightarrow> bool \<Rightarrow> 'w \<Rightarrow> socket \<times> 'w" where
  "CreateUDPSocket N junk w = udp_of N (Socket_new junk AF_INET SOCK_DGRAM 0) w"

definition CreateTCPSocket6 :: "bool \<Rightarrow> socket" where
  "CreateTCPSocket6 junk = Socket_new junk AF_INET6 SOCK_STREAM 0"

definition CreateUDPSocket6 :: "'w net \<Rightarrow> bool \<Rightarrow> 'w \<Rightarrow> socket \<times> 'w" where
  "CreateUDPSocket6 N junk w = udp_of N (Socket_new junk AF_INET6 SOCK_DGRAM 0) w"

definition CreateUnixTCPSocket :: "bool \<Rightarrow> socket" where
  "CreateUnixTCPSocket junk = Socket_new junk AF_UNIX SOCK_STREAM 0"

definition CreateUnixUDPSocket :: "bool \<Rightarrow> socket" where
  "CreateUnixUDPSocket junk = Socket_new junk AF_UNIX SOCK_DGRAM 0"

text \<open>A Unix path that nobody answers on is unlinked; the probing socket is deleted afterwards.\<close>

definition probe_unix :: "'w net \<Rightarrow> bool \<Rightarrow> address \<Rightarrow> 'w \<Rightarrow> 'w \<times> bool" where
  "probe_unix N junk addr w =
     (case addr of
        UnixAddress a n \<Rightarrow>
          let (sock, w, answered) = Socket_connect N (CreateUnixTCPSocket junk) addr (- 1) w;
              w = (if answered then w else n_unlink N (getPath a n) w)
          in (Socket_delete N sock w, \<not> answered)
      | _ \<Rightarrow> (w, True))"

definition Socket_bind :: "'w net \<Rightarrow> bool \<Rightarrow> socket \<Rightarrow> address \<Rightarrow> 'w \<Rightarrow> socket \<times> 'w \<times> bool" where
  "Socket_bind N junk s addr w =
     (let (s, w) = ensure_fd N s w in
      if \<not> isValid s then (s, w, False)
      else if getFamily addr \<noteq> m_family s then (s, w, False)
      else
        let (w, free) = probe_unix N junk addr w in
        if \<not> free then (s, w, False)
        else let (r, w) = n_bind N (m_sockfd s) addr w
             in if r \<noteq> 0 then (s, w, False) else (fst (getLocalAddress N s w), w, True))"

section \<open>Transfer\<close>

definition Socket_send :: "'w net \<Rightarrow> socket \<Rightarrow> bytes \<Rightarrow> int \<Rightarrow> 'w \<Rightarrow> int \<times> 'w" where
  "Socket_send N s buffer flags w =
     (if m_isConnected s then n_send N (m_sockfd s) [buffer] None flags w else (- 1, w))"

definition Socket_sendv :: "'w net \<Rightarrow> socket \<Rightarrow> bytes list \<Rightarrow> int \<Rightarrow> 'w \<Rightarrow> int \<times> 'w" where
  "Socket_sendv N s buffers flags w =
     (if m_isConnected s then n_send N (m_sockfd s) buffers None flags w else (- 1, w))"

definition Socket_sendTo :: "'w net \<Rightarrow> socket \<Rightarrow> bytes list \<Rightarrow> address \<Rightarrow> int \<Rightarrow> 'w \<Rightarrow> int \<times> 'w" where
  "Socket_sendTo N s buffers to flags w =
     (if m_isConnected s then n_send N (m_sockfd s) buffers (Some to) flags w else (- 1, w))"

definition Socket_recv :: "'w net \<Rightarrow> socket \<Rightarrow> nat \<Rightarrow> int \<Rightarrow> 'w \<Rightarrow> (int \<times> bytes list) \<times> 'w" where
  "Socket_recv N s len flags w =
     (if m_isConnected s then n_recv N (m_sockfd s) [len] None flags w else ((- 1, []), w))"

definition Socket_recvv :: "'w net \<Rightarrow> socket \<Rightarrow> nat list \<Rightarrow> int \<Rightarrow> 'w \<Rightarrow> (int \<times> bytes list) \<times> 'w" where
  "Socket_recvv N s lens flags w =
     (if m_isConnected s then n_recv N (m_sockfd s) lens None flags w else ((- 1, []), w))"

definition Socket_recvFrom ::
  "'w net \<Rightarrow> socket \<Rightarrow> nat list \<Rightarrow> address \<Rightarrow> int \<Rightarrow> 'w \<Rightarrow> (int \<times> bytes list) \<times> 'w" where
  "Socket_recvFrom N s lens from flags w =
     (if m_isConnected s then n_recv N (m_sockfd s) lens (Some from) flags w else ((- 1, []), w))"

section \<open>Cancelling\<close>

text \<open>\<open>m\<close> is the IOManager of the thread, \<open>ok\<close> the success of \<open>epoll_ctl\<close>.\<close>

definition cancelRead :: "bool \<Rightarrow> 'c iomanager \<Rightarrow> socket \<Rightarrow> ('c, bool) iom_result" where
  "cancelRead ok m s = cancelEvent ok m (m_sockfd s) READ"

definition cancelWrite :: "bool \<Rightarrow> 'c iomanager \<Rightarrow> socket \<Rightarrow> ('c, bool) iom_result" where
  "cancelWrite ok m s = cancelEvent ok m (m_sockfd s) WRITE"

definition cancelAccept :: "bool \<Rightarrow> 'c iomanager \<Rightarrow> socket \<Rightarrow> ('c, bool) iom_result" where
  "cancelAccept ok m s = cancelEvent ok m (m_sockfd s) READ"

definition Socket_cancelAll :: "bool \<Rightarrow> 'c iomanager \<Rightarrow> socket \<Rightarrow> ('c, bool) iom_result" where
  "Socket_cancelAll ok m s = cancelAll ok m (m_sockfd s)"

section \<open>Lemmas\<close>

lemma net_lawsD:
  assumes "net_laws N opens"
  shows "opens_fresh opens w (n_socket N f t p w)" "opens_fresh opens w (n_accept N fd w)"
    "opens (n_close N fd w) = opens w - {fd}" "opens (snd (n_setsockopt N fd l opt v w)) = opens w"
    "opens (snd (n_bind N fd a w)) = opens w" "opens (snd (n_listen N fd b w)) = opens w"
    "opens (snd (n_connect N fd a ms w)) = opens w" "opens (n_unlink N path w) = opens w"
    "opens (n_ctx_timeout N fd ty u w) = opens w"
  using assms by (simp_all add: net_laws_def)

lemma getLocalAddress_keeps:
  "m_sockfd (fst (getLocalAddress N s w)) = m_sockfd s"
  "m_isConnected (fst (getLocalAddress N s w)) = m_isConnected s"
  "m_family (fst (getLocalAddress N s w)) = m_family s"
  "m_remoteAddress (fst (getLocalAddress N s w)) = m_remoteAddress s"
  by (auto simp: getLocalAddress_def split: option.split)

lemma getRemoteAddress_keeps:
  "m_sockfd (fst (getRemoteAddress N s w)) = m_sockfd s"
  "m_isConnected (fst (getRemoteAddress N s w)) = m_isConnected s"
  "m_family (fst (getRemoteAddress N s w)) = m_family s"
  "m_remoteAddress s = Some a \<Longrightarrow> getRemoteAddress N s w = (s, a)"
  by (auto simp: getRemoteAddress_def split: option.split)

lemmas address_keeps = getLocalAddress_keeps getRemoteAddress_keeps

lemma opens_setOption: "net_laws N opens \<Longrightarrow> opens (snd (setOption N s l opt v w)) = opens w"
  using net_lawsD(4) by (fastforce simp: setOption_def split_beta)

lemma opens_setSockfd: "net_laws N opens \<Longrightarrow> opens (setSockfd N s w) = opens w"
  by (simp add: setSockfd_def split_beta Let_def opens_setOption)

lemma newSockfd_opens:
  assumes "net_laws N opens" "newSockfd N s w = (s', w')"
  shows "opens_fresh opens w (m_sockfd s', w') \<and> m_family s' = m_family s \<and>
    m_remoteAddress s' = m_remoteAddress s"
proof -
  obtain fd w1 where n: "n_socket N (m_family s) (m_type s) (m_protocol s) w = (fd, w1)" by fastforce
  have "opens_fresh opens w (fd, w1)" using net_lawsD(1) [OF assms(1)] n by metis
  moreover have "s' = s\<lparr>m_sockfd := fd\<rparr>" "opens w' = opens w1"
    using assms(2) n opens_setSockfd [OF assms(1)] by (auto simp: newSockfd_def Let_def split: if_splits)
  ultimately show ?thesis by (simp add: opens_fresh_def)
qed

lemma opens_Socket_delete:
  "net_laws N opens \<Longrightarrow>
     opens (Socket_delete N s w) = (if m_sockfd s = - 1 then opens w else opens w - {m_sockfd s})"
  by (auto simp: Socket_delete_def Socket_close_def Let_def net_lawsD)

text \<open>What opening a descriptor for a socket without one leaves, and what its deletion leaves.\<close>

lemma opens_fresh_delete:
  "net_laws N opens \<Longrightarrow> opens_fresh opens w (m_sockfd s, w') \<Longrightarrow> opens (Socket_delete N s w') = opens w"
  by (auto simp: opens_fresh_def opens_Socket_delete)

lemma opens_fresh_cong: "opens w1 = opens w2 \<Longrightarrow> opens_fresh opens w (fd, w1) = opens_fresh opens w (fd, w2)"
  by (simp add: opens_fresh_def)

lemma ensure_fd_opens:
  assumes "net_laws N opens" "m_sockfd s = - 1" "ensure_fd N s w = (s', w')"
  shows "opens_fresh opens w (m_sockfd s', w') \<and> m_family s' = m_family s"
  using newSockfd_opens [OF assms(1)] assms(2,3) by (auto simp: ensure_fd_def isValid_def)

lemma Socket_connect_opens:
  assumes N: "net_laws N opens" and s: "m_sockfd s = - 1" and c: "Socket_connect N s a ms w = (s', w', ok)"
  shows "opens_fresh opens w (m_sockfd s', w')"
proof -
  obtain s1 w1 where e: "ensure_fd N s w = (s1, w1)" by fastforce
  note f = ensure_fd_opens [OF N s e]
  obtain r w2 where n: "n_connect N (m_sockfd s1) a (if ms = - 1 then None else Some ms) w1 = (r, w2)" by fastforce
  have "opens w2 = opens w1" using net_lawsD(7) [OF N] n by (metis snd_conv)
  then have "m_sockfd s' = m_sockfd s1 \<and> opens w' = opens w1"
    using c by (auto simp: Socket_connect_def e n Let_def address_keeps split: if_splits)
  then show ?thesis using f opens_fresh_cong by metis
qed

lemma probe_unix_opens:
  assumes "net_laws N opens"
  shows "opens (fst (probe_unix N junk a w)) = opens w"
proof (cases a)
  case (UnixAddress u n)
  obtain s' w' ok where c: "Socket_connect N (CreateUnixTCPSocket junk) a (- 1) w = (s', w', ok)"
    by (metis prod_cases3)
  have f: "opens_fresh opens w (m_sockfd s', w')"
    by (rule Socket_connect_opens [OF assms _ c]) (simp add: CreateUnixTCPSocket_def Socket_new_def)
  then have "opens (Socket_delete N s' (if ok then w' else n_unlink N (getPath u n) w')) = opens w"
    by (intro opens_fresh_delete [OF assms]) (simp add: opens_fresh_def net_lawsD [OF assms])
  then show ?thesis using c UnixAddress by (simp add: probe_unix_def)
qed (simp_all add: probe_unix_def)

lemma Socket_bind_opens:
  assumes N: "net_laws N opens" and s: "m_sockfd s = - 1" and b: "Socket_bind N junk s a w = (s', w', ok)"
  shows "opens_fresh opens w (m_sockfd s', w') \<and> (ok \<longrightarrow> isValid s')"
proof -
  obtain s1 w1 where e: "ensure_fd N s w = (s1, w1)" by fastforce
  note f = ensure_fd_opens [OF N s e]
  obtain w2 free where p: "probe_unix N junk a w1 = (w2, free)" by fastforce
  obtain r w3 where n: "n_bind N (m_sockfd s1) a w2 = (r, w3)" by fastforce
  have "opens w2 = opens w1" using probe_unix_opens [OF N, of junk a w1] p by simp
  moreover have "opens w3 = opens w2" using net_lawsD(5) [OF N] n by (metis snd_conv)
  ultimately have "m_sockfd s' = m_sockfd s1 \<and> opens w' = opens w1 \<and> (ok \<longrightarrow> isValid s1)"
    using b by (auto simp: Socket_bind_def e p n Let_def address_keeps split: if_splits)
  then show ?thesis using f opens_fresh_cong by (metis isValid_def)
qed

section \<open>Properties\<close>

text \<open>A network for examples: the descriptors in use are those below a counter less the closed
  ones, every call succeeds, and a peer is where the last connect went.\<close>

record toy_world =
  toy_next :: nat
  toy_closed :: "int set"
  toy_peer :: "address option"

definition toy_opens :: "toy_world \<Rightarrow> int set" where
  "toy_opens w = {int i |i. i < toy_next w} - toy_closed w"

definition toy_open :: "toy_world \<Rightarrow> int \<times> toy_world" where
  "toy_open w = (int (toy_next w), w\<lparr>toy_next := Suc (toy_next w), toy_closed := toy_closed w - {int (toy_next w)}\<rparr>)"

definition toy_net :: "toy_world net" where
  "toy_net =
     \<lparr>n_socket = (\<lambda>f t p. toy_open), n_close = (\<lambda>fd w. w\<lparr>toy_closed := insert fd (toy_closed w)\<rparr>),
      n_setsockopt = (\<lambda>fd l opt v w. (0, w)), n_getsockopt = (\<lambda>fd l opt w. Some 0), n_errno = (\<lambda>w. 0),
      n_getsockname = (\<lambda>fd w. None), n_getpeername = (\<lambda>fd w. toy_peer w), n_accept = (\<lambda>fd. toy_open),
      n_bind = (\<lambda>fd a w. (0, w)), n_listen = (\<lambda>fd b w. (0, w)),
      n_connect = (\<lambda>fd a ms w. (0, w\<lparr>toy_peer := Some a\<rparr>)), n_unlink = (\<lambda>p w. w),
      n_ctx = (\<lambda>fd w. None), n_ctx_timeout = (\<lambda>fd ty v w. w),
      n_send = (\<lambda>fd bs to flags w. (int (length (concat bs)), w)),
      n_recv = (\<lambda>fd ns from flags w. ((0, []), w))\<rparr>"

lemma toy_opens_less: "x \<in> toy_opens w \<Longrightarrow> x < int (toy_next w)"
  by (auto simp: toy_opens_def)

lemma toy_open_fresh: "opens_fresh toy_opens w (toy_open w)"
  by (auto simp: opens_fresh_def toy_open_def toy_opens_def less_Suc_eq)

lemma toy_net_laws: "net_laws toy_net toy_opens"
  using toy_open_fresh by (auto simp: net_laws_def toy_net_def toy_opens_def)

text \<open>Accepting leaks: when the descriptor that \<open>accept\<close> returned has no context, because the
  thread's calls are not hooked, \<open>Socket::accept\<close> returns no socket and leaves the descriptor open.\<close>

theorem accept_leaks:
  assumes "net_laws N opens" "n_accept N (m_sockfd s) w = (fd, w1)" "fd \<ge> 0" "n_ctx N fd w1 = None"
  shows "\<exists>w'. Socket_accept N junk s w = (None, w') \<and> fd \<notin> opens w \<and> opens w' = insert fd (opens w)"
proof -
  have "opens_fresh opens w (fd, w1)" using net_lawsD(2) [OF assms(1)] assms(2) by metis
  then have "fd \<notin> opens w \<and> opens w1 = insert fd (opens w)" using assms(3) by (auto simp: opens_fresh_def)
  then show ?thesis
    using assms(2,4) opens_Socket_delete [OF assms(1)]
    by (simp add: Socket_accept_def Socket_init_def Socket_new_def Let_def)
qed

theorem accept_leaks_witness:
  "\<exists>w'. Socket_accept toy_net False (CreateTCPSocket False) \<lparr>toy_next = 3, toy_closed = {}, toy_peer = None\<rparr> = (None, w') \<and>
     toy_opens w' = insert 3 (toy_opens \<lparr>toy_next = 3, toy_closed = {}, toy_peer = None\<rparr>)"
  using accept_leaks [OF toy_net_laws, of "CreateTCPSocket False" "\<lparr>toy_next = 3, toy_closed = {}, toy_peer = None\<rparr>"
      3 "snd (toy_open \<lparr>toy_next = 3, toy_closed = {}, toy_peer = None\<rparr>)" False]
  by (auto simp: toy_net_def toy_open_def)

text \<open>Stale address: a socket that was connected to one peer, closed and connected to another still
  reports the first as its peer, and a later \<open>reconnect\<close> goes to the first.\<close>

theorem stale_remote_address:
  assumes "m_remoteAddress s = Some a" "Socket_close N s w = (s1, w1, c)"
    and "Socket_connect N s1 b ms w1 = (s2, w2, True)"
    and "Socket_close N s2 w2 = (s3, w3, d)"
  shows "snd (getRemoteAddress N s2 w2) = a \<and> reconnect N s3 ms' w3 = Socket_connect N s3 a ms' w3"
proof -
  have s1: "m_remoteAddress s1 = Some a"
    using assms(1,2) by (auto simp: Socket_close_def Let_def split: if_splits)
  obtain t v where e: "ensure_fd N s1 w1 = (t, v)" by fastforce
  have t: "m_remoteAddress t = Some a"
    using e s1 by (auto simp: ensure_fd_def newSockfd_def split_beta Let_def split: if_splits)
  have s2: "m_remoteAddress s2 = Some a" "m_isConnected s2"
    using assms(3) t by (auto simp: Socket_connect_def e Let_def split_beta address_keeps getRemoteAddress_def split: if_splits)
  then have "m_remoteAddress s3 = Some a" "\<not> m_isConnected s3"
    using assms(4) by (auto simp: Socket_close_def Let_def split: if_splits)
  then show ?thesis using s2 by (simp add: getRemoteAddress_def reconnect_def)
qed

definition toy_addr :: "u32 \<Rightarrow> address" where
  "toy_addr n = IPv4Address (IPv4_any n 80)"

definition toy_connected :: socket where
  "toy_connected = (CreateTCPSocket False)\<lparr>m_sockfd := 0, m_isConnected := True, m_remoteAddress := Some (toy_addr 1)\<rparr>"

theorem stale_remote_address_witness:
  "\<exists>w2. snd (Socket_connect toy_net (fst (Socket_close toy_net toy_connected w)) (toy_addr 2) (- 1)
       (fst (snd (Socket_close toy_net toy_connected w)))) = (w2, True) \<and> toy_peer w2 = Some (toy_addr 2) \<and>
     snd (getRemoteAddress toy_net (toy_connected\<lparr>m_sockfd := int (toy_next w)\<rparr>) w2) = toy_addr 1"
proof -
  let ?w1 = "w\<lparr>toy_closed := insert 0 (toy_closed w)\<rparr>"
  let ?w2 = "(snd (toy_open ?w1))\<lparr>toy_peer := Some (toy_addr 2)\<rparr>"
  let ?s2 = "toy_connected\<lparr>m_sockfd := int (toy_next w)\<rparr>"
  have c: "Socket_close toy_net toy_connected w = (toy_connected\<lparr>m_isConnected := False, m_sockfd := - 1\<rparr>, ?w1, False)"
    by (simp add: Socket_close_def toy_connected_def toy_net_def Let_def)
  have f: "getFamily (toy_addr 2) = AF_INET" by (simp add: toy_addr_def IPv4_any_def)
  have o: "setSockfd toy_net s v = v" for s v
    by (simp add: setSockfd_def setOption_def toy_net_def Let_def)
  have n: "n_socket toy_net x y z v = toy_open v" "n_connect toy_net fd a ms v = (0, v\<lparr>toy_peer := Some a\<rparr>)"
    "n_getsockname toy_net fd v = None" for x y z v fd a ms
    by (simp_all add: toy_net_def)
  have k: "Socket_connect toy_net (toy_connected\<lparr>m_isConnected := False, m_sockfd := - 1\<rparr>) (toy_addr 2) (- 1) ?w1 =
      (?s2, ?w2, True)"
    by (simp add: Socket_connect_def ensure_fd_def isValid_def newSockfd_def n toy_open_def toy_connected_def
        CreateTCPSocket_def Socket_new_def o f getRemoteAddress_def getLocalAddress_def Let_def)
  have d: "Socket_close toy_net ?s2 ?w2 = (fst (Socket_close toy_net ?s2 ?w2),
      fst (snd (Socket_close toy_net ?s2 ?w2)), snd (snd (Socket_close toy_net ?s2 ?w2)))" by simp
  have "snd (getRemoteAddress toy_net ?s2 ?w2) = toy_addr 1"
    using stale_remote_address [OF _ c k d] by (simp add: toy_connected_def)
  then show ?thesis using c k by simp
qed

end
