(* ===== verification/TcpServers.thy ===== *)
theory TcpServers
  imports Sockets Configs
begin

text \<open>
  Model of \<open>TcpServer\<close> and its configuration (\<open>src/Tcp_server.h\<close>, \<open>src/Tcp_server.cc\<close>): binding a
  list of addresses, the accept loop, start and stop, and the conversions of the configuration.

  The sockets act on the world through the system calls of \<open>Sockets\<close>. Tasks pushed to a worker
  are collected in a list; the virtual \<open>handleClient\<close> is the task itself. Deleting a shared
  socket deletes the object: the server holds the only pointer.
\<close>

section \<open>The configuration\<close>

record server_conf =
  sc_address :: "string list"
  sc_keepalive :: int
  sc_timeout :: int
  sc_id :: string
  sc_type :: string
  sc_name :: string
  sc_ssl :: int
  sc_cert_file :: string
  sc_key_file :: string
  sc_accept_worker :: string
  sc_io_worker :: string
  sc_business_worker :: string
  sc_args :: "(string \<times> string) list"

definition conf_isValid :: "server_conf \<Rightarrow> bool" where
  "conf_isValid c \<longleftrightarrow> sc_address c \<noteq> []"

definition TcpServerConf_new :: server_conf where
  "TcpServerConf_new =
     \<lparr>sc_address = [], sc_keepalive = 0, sc_timeout = 1000 * 60 * 2, sc_id = [], sc_type = ''http'',
      sc_name = [], sc_ssl = 0, sc_cert_file = [], sc_key_file = [], sc_accept_worker = [],
      sc_io_worker = [], sc_business_worker = [], sc_args = []\<rparr>"

text \<open>
  What the code calls of the YAML library besides the operations of \<open>Configs\<close>: numbers, lists of
  strings, and \<open>as<string>("")\<close>, which gives the empty text for a node that is no scalar.
\<close>

record conf_yaml = yaml +
  as_int :: "node \<Rightarrow> int option"
  int_text :: "int \<Rightarrow> string"
  as_strings :: "node \<Rightarrow> string list option"
  as_string_or_empty :: "node option \<Rightarrow> string"

definition conf_yaml_laws :: "conf_yaml \<Rightarrow> node set \<Rightarrow> bool" where
  "conf_yaml_laws Y ns \<longleftrightarrow> yaml_laws (yaml.truncate Y) ns \<and>
     (\<forall>i. as_int Y (Scalar (int_text Y i)) = Some i) \<and>
     (\<forall>ss. as_strings Y (Sequence (map Scalar ss)) = Some ss) \<and>
     (\<forall>kvs. as_string_or_empty Y (Some (Map kvs)) = []) \<and>
     as_string_or_empty Y None = [] \<and>
     Load Y [] = Some Null"

text \<open>A field that the reader requires: it throws when the field is missing or of another kind.\<close>

definition need :: "conf_yaml \<Rightarrow> (node \<Rightarrow> 'a option) \<Rightarrow> node \<Rightarrow> string \<Rightarrow> 'a option" where
  "need Y conv n k =
     (case subscript Y n k of Some (Some m) \<Rightarrow> conv m | _ \<Rightarrow> None)"

definition conf_address :: "conf_yaml \<Rightarrow> node \<Rightarrow> string list option" where
  "conf_address Y n =
     (case subscript Y n ''address'' of
        None \<Rightarrow> None
      | Some None \<Rightarrow> Some []
      | Some (Some m) \<Rightarrow> as_strings Y m)"

definition conf_args :: "conf_yaml \<Rightarrow> node \<Rightarrow> (string \<times> string) list option" where
  "conf_args Y n =
     Option.bind (subscript Y n ''args'') (\<lambda>m.
       cast_to_map (yaml.truncate Y) Some (as_string_or_empty Y m))"

definition TcpServerConf_of_string :: "conf_yaml \<Rightarrow> string \<Rightarrow> server_conf option" where
  "TcpServerConf_of_string Y conf =
     Option.bind (Load Y conf) (\<lambda>n.
     Option.bind (conf_address Y n) (\<lambda>address.
     Option.bind (need Y (as_int Y) n ''keepalive'') (\<lambda>keepalive.
     Option.bind (need Y (as_int Y) n ''timeout'') (\<lambda>timeout.
     Option.bind (need Y (as_string Y) n ''id'') (\<lambda>ident.
     Option.bind (need Y (as_string Y) n ''type'') (\<lambda>ty.
     Option.bind (need Y (as_string Y) n ''name'') (\<lambda>nm.
     Option.bind (need Y (as_int Y) n ''ssl'') (\<lambda>ssl.
     Option.bind (need Y (as_string Y) n ''cert_file'') (\<lambda>cert.
     Option.bind (need Y (as_string Y) n ''key_file'') (\<lambda>key.
     Option.bind (need Y (as_string Y) n ''accept_worker'') (\<lambda>accept.
     Option.bind (need Y (as_string Y) n ''io_worker'') (\<lambda>io.
     Option.bind (need Y (as_string Y) n ''business_worker'') (\<lambda>business.
     Option.bind (conf_args Y n) (\<lambda>args.
       Some \<lparr>sc_address = address, sc_keepalive = keepalive, sc_timeout = timeout, sc_id = ident,
         sc_type = ty, sc_name = nm, sc_ssl = ssl, sc_cert_file = cert, sc_key_file = key,
         sc_accept_worker = accept, sc_io_worker = io, sc_business_worker = business,
         sc_args = args\<rparr>))))))))))))))"

text \<open>The tree of the argument map is what loading its text gives; loading may throw.\<close>

definition node_of_conf :: "conf_yaml \<Rightarrow> server_conf \<Rightarrow> node option" where
  "node_of_conf Y c =
     map_option (\<lambda>args. Map (
       [(''id'', Scalar (sc_id c)), (''type'', Scalar (sc_type c)), (''name'', Scalar (sc_name c)),
        (''keepalive'', Scalar (int_text Y (sc_keepalive c))), (''timeout'', Scalar (int_text Y (sc_timeout c))),
        (''ssl'', Scalar (int_text Y (sc_ssl c))), (''cert_file'', Scalar (sc_cert_file c)),
        (''key_file'', Scalar (sc_key_file c)), (''accept_worker'', Scalar (sc_accept_worker c)),
        (''io_worker'', Scalar (sc_io_worker c)), (''business_worker'', Scalar (sc_business_worker c)),
        (''args'', args)] @
       (if sc_address c = [] then [] else [(''address'', Sequence (map Scalar (sc_address c)))])))
     (Load Y (cast_from_map (yaml.truncate Y) id (sc_args c)))"

definition string_of_TcpServerConf :: "conf_yaml \<Rightarrow> server_conf \<Rightarrow> string option" where
  "string_of_TcpServerConf Y c = map_option (Dump Y) (node_of_conf Y c)"

section \<open>The server\<close>

datatype server_task = StartAccept socket | HandleClient socket | CloseAll

record tcp_server =
  ts_config :: "server_conf option"
  ts_socks :: "socket list"
  ts_recvTimeout :: u64
  ts_name :: string
  ts_isStop :: bool
  ts_ssl :: bool

text \<open>\<open>m_ssl\<close> is not initialised either; \<open>timeout\<close> is the value of the configuration variable.\<close>

definition TcpServer_new :: "u64 \<Rightarrow> bool \<Rightarrow> tcp_server" where
  "TcpServer_new timeout junk_ssl =
     \<lparr>ts_config = None, ts_socks = [], ts_recvTimeout = timeout, ts_name = ''tcp_fiber_server/1.0.0'',
      ts_isStop = True, ts_ssl = junk_ssl\<rparr>"

definition setConfig :: "tcp_server \<Rightarrow> server_conf \<Rightarrow> tcp_server" where
  "setConfig t v = t\<lparr>ts_config := Some v\<rparr>"

fun delete_all :: "'w net \<Rightarrow> socket list \<Rightarrow> 'w \<Rightarrow> 'w" where
  "delete_all N [] w = w"
| "delete_all N (s # ss) w = delete_all N ss (Socket_delete N s w)"

text \<open>A socket that does not bind or listen is deleted at the end of its round.\<close>

fun bind_loop ::
  "'w net \<Rightarrow> bool \<Rightarrow> address list \<Rightarrow> socket list \<Rightarrow> address list \<Rightarrow> 'w \<Rightarrow> socket list \<times> address list \<times> 'w" where
  "bind_loop N junk [] socks fails w = (socks, fails, w)"
| "bind_loop N junk (addr # addrs) socks fails w =
     (let (sock, w, bound) = Socket_bind N junk (CreateTCP junk addr) addr w in
      if \<not> bound then bind_loop N junk addrs socks (fails @ [addr]) (Socket_delete N sock w)
      else
        let (w, listening) = Socket_listen N sock SOMAXCONN w in
        if \<not> listening then bind_loop N junk addrs socks (fails @ [addr]) (Socket_delete N sock w)
        else bind_loop N junk addrs (socks @ [sock]) fails w)"

definition TcpServer_bind_all ::
  "'w net \<Rightarrow> bool \<Rightarrow> tcp_server \<Rightarrow> address list \<Rightarrow> address list \<Rightarrow> bool \<Rightarrow> 'w
   \<Rightarrow> tcp_server \<times> address list \<times> 'w \<times> bool" where
  "TcpServer_bind_all N junk t addrs fails ssl w =
     (let (socks, fails, w) = bind_loop N junk addrs (ts_socks t) fails w; t = t\<lparr>ts_ssl := ssl\<rparr> in
      if fails \<noteq> [] then (t\<lparr>ts_socks := []\<rparr>, fails, delete_all N socks w, False)
      else (t\<lparr>ts_socks := socks\<rparr>, fails, w, True))"

definition TcpServer_bind ::
  "'w net \<Rightarrow> bool \<Rightarrow> tcp_server \<Rightarrow> address \<Rightarrow> bool \<Rightarrow> 'w \<Rightarrow> tcp_server \<times> 'w \<times> bool" where
  "TcpServer_bind N junk t addr ssl w =
     (let (t, fails, w, ok) = TcpServer_bind_all N junk t [addr] [] ssl w in (t, w, ok))"

text \<open>
  The accept loop. \<open>stops\<close> are the values of \<open>m_isStop\<close> that the successive tests of the loop
  read; the loop is still waiting when the list ends.
\<close>

fun startAccept ::
  "'w net \<Rightarrow> bool \<Rightarrow> u64 \<Rightarrow> socket \<Rightarrow> bool list \<Rightarrow> 'w \<Rightarrow> server_task list \<times> 'w" where
  "startAccept N junk timeout listen_sock [] w = ([], w)"
| "startAccept N junk timeout listen_sock (stop # stops) w =
     (if stop then ([], w)
      else case Socket_accept N junk listen_sock w of
          (None, w) \<Rightarrow> startAccept N junk timeout listen_sock stops w
        | (Some client, w) \<Rightarrow>
            let w = setRecvTimeout N client (sint timeout) w;
                (tasks, w) = startAccept N junk timeout listen_sock stops w
            in (HandleClient client # tasks, w))"

definition server_start :: "tcp_server \<Rightarrow> tcp_server \<times> server_task list \<times> bool" where
  "server_start t =
     (if \<not> ts_isStop t then (t, [], True)
      else (t\<lparr>ts_isStop := False\<rparr>, map StartAccept (ts_socks t), True))"

definition server_stop :: "tcp_server \<Rightarrow> tcp_server \<times> server_task list" where
  "server_stop t = (if ts_isStop t then (t, []) else (t\<lparr>ts_isStop := True\<rparr>, [CloseAll]))"

text \<open>The task that \<open>stop\<close> pushes, on the IOManager \<open>m\<close> of its thread.\<close>

fun close_listeners ::
  "bool \<Rightarrow> 'w net \<Rightarrow> socket list \<Rightarrow> 'c iomanager \<Rightarrow> 'w \<Rightarrow> ('c, 'w) iom_result" where
  "close_listeners ok N [] m w = Ret m w"
| "close_listeners ok N (s # ss) m w =
     obind (Socket_cancelAll ok m s) (\<lambda>m _. close_listeners ok N ss m (fst (snd (Socket_close N s w))))"

definition run_CloseAll ::
  "bool \<Rightarrow> 'w net \<Rightarrow> tcp_server \<Rightarrow> 'c iomanager \<Rightarrow> 'w \<Rightarrow> ('c, tcp_server \<times> 'w) iom_result" where
  "run_CloseAll ok N t m w =
     omap (\<lambda>w. (t\<lparr>ts_socks := []\<rparr>, w)) (close_listeners ok N (ts_socks t) m w)"

text \<open>The destructor.\<close>

definition TcpServer_delete :: "'w net \<Rightarrow> tcp_server \<Rightarrow> 'w \<Rightarrow> 'w" where
  "TcpServer_delete N t w = delete_all N (ts_socks t) w"

section \<open>Lemmas\<close>

text \<open>The descriptors of a list of sockets are open, different, and not among the others (\<open>base\<close>).\<close>

definition owned :: "('w \<Rightarrow> int set) \<Rightarrow> int set \<Rightarrow> socket list \<Rightarrow> 'w \<Rightarrow> bool" where
  "owned opens base socks w \<longleftrightarrow>
     opens w = base \<union> m_sockfd ` set socks \<and> distinct (map m_sockfd socks) \<and>
     (\<forall>s \<in> set socks. m_sockfd s \<ge> 0 \<and> m_sockfd s \<notin> base)"

lemma owned_Nil [simp]: "owned opens base [] w \<longleftrightarrow> opens w = base"
  by (simp add: owned_def)

lemma owned_cong: "opens w = opens w' \<Longrightarrow> owned opens base socks w = owned opens base socks w'"
  by (simp add: owned_def)

lemma owned_append:
  "owned opens base socks w \<Longrightarrow> m_sockfd s \<ge> 0 \<Longrightarrow> m_sockfd s \<notin> opens w \<Longrightarrow>
     opens w' = insert (m_sockfd s) (opens w) \<Longrightarrow> owned opens base (socks @ [s]) w'"
  by (auto simp: owned_def)

lemma owned_Cons:
  "owned opens base (s # ss) w \<Longrightarrow> opens w' = opens w - {m_sockfd s} \<Longrightarrow> owned opens base ss w'"
  by (auto simp: owned_def)

lemma owned_fd: "owned opens base (s # ss) w \<Longrightarrow> m_sockfd s \<ge> 0"
  by (simp add: owned_def)

lemma bind_loop_owned:
  assumes "net_laws N opens" "owned opens base socks w" "bind_loop N junk addrs socks fails w = (socks', fails', w')"
  shows "owned opens base socks' w' \<and> (\<exists>new bad. socks' = socks @ new \<and> fails' = fails @ bad \<and>
    length new + length bad = length addrs \<and> set bad \<subseteq> set addrs)"
  using assms(2,3)
proof (induction addrs arbitrary: socks fails w)
  case (Cons addr addrs)
  obtain sock w1 bound where b: "Socket_bind N junk (CreateTCP junk addr) addr w = (sock, w1, bound)"
    by (metis prod_cases3)
  have f: "opens_fresh opens w (m_sockfd sock, w1)" "bound \<Longrightarrow> m_sockfd sock \<ge> 0"
    using Socket_bind_opens [OF assms(1) _ b] by (auto simp: CreateTCP_def Socket_new_def isValid_def)
  obtain w2 listening where l: "Socket_listen N sock SOMAXCONN w1 = (w2, listening)" by fastforce
  have w2: "opens w2 = opens w1"
    using l net_lawsD(6) [OF assms(1)] by (auto simp: Socket_listen_def split_beta split: if_splits)
  have drop: ?case
    if "opens v = opens w1" "bind_loop N junk addrs socks (fails @ [addr]) (Socket_delete N sock v) = (socks', fails', w')"
    for v
  proof -
    have "opens (Socket_delete N sock v) = opens w"
      using f(1) by (intro opens_fresh_delete [OF assms(1)]) (simp add: opens_fresh_cong [where opens = opens, OF that(1)])
    then have "owned opens base socks (Socket_delete N sock v)" using Cons.prems(1) owned_cong by metis
    from Cons.IH [OF this that(2)] show ?thesis by fastforce
  qed
  consider "\<not> bound" | "bound" "\<not> listening" | "bound" "listening" by blast
  then show ?case
  proof cases
    case 1
    then show ?thesis using drop [of w1] Cons.prems(2) b by simp
  next
    case 2
    then show ?thesis using drop [OF w2] Cons.prems(2) b l by simp
  next
    case 3
    have "owned opens base (socks @ [sock]) w2"
      using f 3(1) w2 by (intro owned_append [OF Cons.prems(1)]) (auto simp: opens_fresh_def)
    moreover have "bind_loop N junk addrs (socks @ [sock]) fails w2 = (socks', fails', w')"
      using Cons.prems(2) b l 3 by simp
    ultimately show ?thesis using Cons.IH by fastforce
  qed
qed auto

lemma opens_delete_all:
  "net_laws N opens \<Longrightarrow> owned opens base socks w \<Longrightarrow> opens (delete_all N socks w) = base"
proof (induction socks arbitrary: w)
  case (Cons s ss)
  have "opens (Socket_delete N s w) = opens w - {m_sockfd s}"
    using owned_fd [OF Cons.prems(2)] by (simp add: opens_Socket_delete [OF Cons.prems(1)])
  then show ?case using Cons.IH [OF Cons.prems(1) owned_Cons [OF Cons.prems(2)]] by simp
qed simp

lemma close_listeners_returns:
  assumes "net_laws N opens"
  shows "owned opens base socks w \<Longrightarrow> iom_inv m \<Longrightarrow>
    \<exists>m' w'. close_listeners ok N socks m w = Ret m' w' \<and> iom_inv m' \<and> opens w' = base"
proof (induction socks arbitrary: m w)
  case (Cons s ss)
  note fd = owned_fd [OF Cons.prems(1)]
  obtain m1 r where c: "Socket_cancelAll ok m s = Ret m1 r" "iom_inv m1"
    using cancelAll_spec [OF Cons.prems(2) fd, of ok] by (auto simp: Socket_cancelAll_def)
  have "opens (fst (snd (Socket_close N s w))) = opens w - {m_sockfd s}"
    using fd opens_Socket_delete [OF assms, of s w] by (simp add: Socket_delete_def)
  from Cons.IH [OF owned_Cons [OF Cons.prems(1) this] c(2)] show ?case using c(1) by simp
qed simp

lemma bind_all_owned:
  assumes "net_laws N opens" "ts_socks t = []" "TcpServer_bind_all N junk t addrs [] ssl w = (t', fails, w', ok)"
  shows "(ok \<longleftrightarrow> fails = []) \<and> set fails \<subseteq> set addrs \<and> ts_isStop t' = ts_isStop t \<and>
    length (ts_socks t') = (if ok then length addrs else 0) \<and> owned opens (opens w) (ts_socks t') w'"
proof -
  obtain socks bad v where b: "bind_loop N junk addrs [] [] w = (socks, bad, v)" by (metis prod_cases3)
  have o: "owned opens (opens w) socks v" "length socks + length bad = length addrs" "set bad \<subseteq> set addrs"
    using bind_loop_owned [OF assms(1) _ b] by auto
  show ?thesis
    using assms(2,3) b o opens_delete_all [OF assms(1) o(1)]
    by (auto simp: TcpServer_bind_all_def Let_def split: if_splits)
qed

subsection \<open>What the sockets are bound to\<close>

text \<open>
  What the kernel keeps of a descriptor, besides its being open: the address it is bound to and
  whether it listens. A successful \<open>bind\<close> and \<open>listen\<close> set these of their own descriptor, and no call
  that the server makes touches them for another one.
\<close>

definition serve_laws :: "'w net \<Rightarrow> ('w \<Rightarrow> int \<Rightarrow> address option \<times> bool) \<Rightarrow> bool" where
  "serve_laws N status \<longleftrightarrow>
     (\<forall>f t p w x. x \<noteq> fst (n_socket N f t p w) \<longrightarrow> status (snd (n_socket N f t p w)) x = status w x) \<and>
     (\<forall>fd w x. x \<noteq> fd \<longrightarrow> status (n_close N fd w) x = status w x) \<and>
     (\<forall>fd l opt v w. status (snd (n_setsockopt N fd l opt v w)) = status w) \<and>
     (\<forall>fd a ms w x. x \<noteq> fd \<longrightarrow> status (snd (n_connect N fd a ms w)) x = status w x) \<and>
     (\<forall>path w. status (n_unlink N path w) = status w) \<and>
     (\<forall>fd a w x. x \<noteq> fd \<longrightarrow> status (snd (n_bind N fd a w)) x = status w x) \<and>
     (\<forall>fd a w. fst (n_bind N fd a w) = 0 \<longrightarrow> status (snd (n_bind N fd a w)) fd = (Some a, snd (status w fd))) \<and>
     (\<forall>fd b w x. x \<noteq> fd \<longrightarrow> status (snd (n_listen N fd b w)) x = status w x) \<and>
     (\<forall>fd b w. fst (n_listen N fd b w) = 0 \<longrightarrow> status (snd (n_listen N fd b w)) fd = (fst (status w fd), True))"

lemma serve_lawsD:
  assumes "serve_laws N status"
  shows "x \<noteq> fst (n_socket N f t p w) \<Longrightarrow> status (snd (n_socket N f t p w)) x = status w x"
    "x \<noteq> fd \<Longrightarrow> status (n_close N fd w) x = status w x"
    "status (snd (n_setsockopt N fd l opt v w)) = status w"
    "x \<noteq> fd \<Longrightarrow> status (snd (n_connect N fd a ms w)) x = status w x"
    "status (n_unlink N path w) = status w"
    "x \<noteq> fd \<Longrightarrow> status (snd (n_bind N fd a w)) x = status w x"
    "fst (n_bind N fd a w) = 0 \<Longrightarrow> status (snd (n_bind N fd a w)) fd = (Some a, snd (status w fd))"
    "x \<noteq> fd \<Longrightarrow> status (snd (n_listen N fd b w)) x = status w x"
    "fst (n_listen N fd b w) = 0 \<Longrightarrow> status (snd (n_listen N fd b w)) fd = (fst (status w fd), True)"
  using assms by (simp_all add: serve_laws_def)

lemma status_setSockfd: "serve_laws N status \<Longrightarrow> status (setSockfd N s w) = status w"
  by (simp add: setSockfd_def setOption_def split_beta Let_def serve_lawsD(3))

lemma status_delete:
  "serve_laws N status \<Longrightarrow> x \<noteq> m_sockfd s \<Longrightarrow> status (Socket_delete N s w) x = status w x"
  by (simp add: Socket_delete_def Socket_close_def Let_def serve_lawsD(2))

lemma status_ensure_fd:
  assumes "net_laws N opens" "serve_laws N status" "m_sockfd s = - 1" "ensure_fd N s w = (s', w')"
    and "x \<in> opens w" "0 \<le> x"
  shows "x \<noteq> m_sockfd s' \<and> x \<in> opens w' \<and> status w' x = status w x"
proof -
  have f: "opens_fresh opens w (m_sockfd s', w')" using ensure_fd_opens [OF assms(1,3,4)] by blast
  then have x: "x \<noteq> m_sockfd s'" "x \<in> opens w'" using assms(5,6) by (auto simp: opens_fresh_def)
  obtain fd v where n: "n_socket N (m_family s) (m_type s) (m_protocol s) w = (fd, v)" by fastforce
  have e: "m_sockfd s' = fd" "status w' = status v"
    using assms(3,4) n status_setSockfd [OF assms(2)]
    by (auto simp: ensure_fd_def isValid_def newSockfd_def Let_def split: if_splits)
  have "status v x = status w x"
    using serve_lawsD(1) [OF assms(2), of x "m_family s" "m_type s" "m_protocol s" w] n x(1) e(1) by simp
  then show ?thesis using x e by simp
qed

lemma status_connect:
  assumes "net_laws N opens" "serve_laws N status" "m_sockfd s = - 1" "Socket_connect N s a ms w = (s', w', ok)"
    and "x \<in> opens w" "0 \<le> x"
  shows "x \<noteq> m_sockfd s' \<and> status w' x = status w x"
proof -
  obtain s1 w1 where e: "ensure_fd N s w = (s1, w1)" by fastforce
  note 1 = status_ensure_fd [OF assms(1-3) e assms(5,6)]
  obtain r w2 where n: "n_connect N (m_sockfd s1) a (if ms = - 1 then None else Some ms) w1 = (r, w2)" by fastforce
  have "status w2 x = status w1 x" using serve_lawsD(4) [OF assms(2)] n 1 by (metis snd_conv)
  then show ?thesis
    using assms(4) 1 by (auto simp: Socket_connect_def e n Let_def address_keeps split: if_splits)
qed

lemma status_probe_unix:
  assumes "net_laws N opens" "serve_laws N status" "x \<in> opens w" "0 \<le> x"
  shows "status (fst (probe_unix N junk a w)) x = status w x"
proof (cases a)
  case (UnixAddress u n)
  obtain s' w' ok where c: "Socket_connect N (CreateUnixTCPSocket junk) a (- 1) w = (s', w', ok)"
    by (metis prod_cases3)
  have "x \<noteq> m_sockfd s' \<and> status w' x = status w x"
    by (rule status_connect [OF assms(1,2) _ c assms(3,4)]) (simp add: CreateUnixTCPSocket_def Socket_new_def)
  then show ?thesis
    using c UnixAddress by (simp add: probe_unix_def status_delete [OF assms(2)] serve_lawsD(5) [OF assms(2)])
qed (simp_all add: probe_unix_def)

lemma status_bind:
  assumes "net_laws N opens" "serve_laws N status" "m_sockfd s = - 1" "Socket_bind N junk s a w = (s', w', ok)"
  shows "(\<forall>x \<in> opens w. 0 \<le> x \<longrightarrow> x \<noteq> m_sockfd s' \<and> status w' x = status w x) \<and>
    (ok \<longrightarrow> fst (status w' (m_sockfd s')) = Some a)"
proof -
  obtain s1 w1 where e: "ensure_fd N s w = (s1, w1)" by fastforce
  obtain w2 free where p: "probe_unix N junk a w1 = (w2, free)" by fastforce
  obtain r w3 where n: "n_bind N (m_sockfd s1) a w2 = (r, w3)" by fastforce
  have "x \<noteq> m_sockfd s1 \<and> status w1 x = status w x \<and> status w2 x = status w x \<and> status w3 x = status w x"
    if "x \<in> opens w" "0 \<le> x" for x
  proof -
    note 1 = status_ensure_fd [OF assms(1-3) e that]
    moreover have "status w2 x = status w1 x" using status_probe_unix [OF assms(1,2), of x w1 junk a] 1 that(2) p by simp
    moreover have "status w3 x = status w2 x" using serve_lawsD(6) [OF assms(2)] n 1 by (metis snd_conv)
    ultimately show ?thesis by simp
  qed
  moreover have "r = 0 \<longrightarrow> fst (status w3 (m_sockfd s1)) = Some a"
    using serve_lawsD(7) [OF assms(2), of "m_sockfd s1" a w2] n by simp
  ultimately have st: "\<forall>x \<in> opens w. 0 \<le> x \<longrightarrow> x \<noteq> m_sockfd s1 \<and> status w1 x = status w x \<and>
      status w2 x = status w x \<and> status w3 x = status w x" "r = 0 \<longrightarrow> fst (status w3 (m_sockfd s1)) = Some a"
    by blast+
  have "m_sockfd s' = m_sockfd s1 \<and> (w' = w1 \<or> w' = w2 \<or> w' = w3) \<and> (ok \<longrightarrow> w' = w3 \<and> r = 0)"
    using assms(4) by (auto simp: Socket_bind_def e p n Let_def address_keeps split: if_splits)
  then show ?thesis using st by metis
qed

text \<open>A socket that is bound to an address and listens.\<close>

definition serves :: "('w \<Rightarrow> int \<Rightarrow> address option \<times> bool) \<Rightarrow> 'w \<Rightarrow> socket \<Rightarrow> address \<Rightarrow> bool" where
  "serves status w s a \<longleftrightarrow> status w (m_sockfd s) = (Some a, True)"

lemma serves_keeps:
  assumes "list_all2 (serves status w) socks as" "\<forall>s \<in> set socks. status w' (m_sockfd s) = status w (m_sockfd s)"
  shows "list_all2 (serves status w') socks as"
  using assms by (auto simp: list_all2_conv_all_nth serves_def)

lemma bind_round:
  assumes "net_laws N opens" "serve_laws N status" "owned opens base socks w"
    and "Socket_bind N junk (CreateTCP junk addr) addr w = (sock, w1, bound)"
    and "Socket_listen N sock SOMAXCONN w1 = (w2, listening)"
  shows "\<forall>s \<in> set socks. status (Socket_delete N sock w1) (m_sockfd s) = status w (m_sockfd s) \<and>
      status (Socket_delete N sock w2) (m_sockfd s) = status w (m_sockfd s) \<and>
      status w2 (m_sockfd s) = status w (m_sockfd s)"
    "bound \<Longrightarrow> listening \<Longrightarrow> serves status w2 sock addr"
    "opens (Socket_delete N sock w1) = opens w" "opens (Socket_delete N sock w2) = opens w"
    "bound \<Longrightarrow> listening \<Longrightarrow> owned opens base (socks @ [sock]) w2"
proof -
  have fd: "m_sockfd (CreateTCP junk addr) = - 1" by (simp add: CreateTCP_def Socket_new_def)
  note b = status_bind [OF assms(1,2) fd assms(4)]
  have f: "opens_fresh opens w (m_sockfd sock, w1)" "bound \<Longrightarrow> m_sockfd sock \<ge> 0"
    using Socket_bind_opens [OF assms(1) fd assms(4)] by (auto simp: isValid_def)
  have o2: "opens w2 = opens w1"
    using assms(5) net_lawsD(6) [OF assms(1)] by (auto simp: Socket_listen_def split_beta split: if_splits)
  have l: "x \<noteq> m_sockfd sock \<Longrightarrow> status w2 x = status w1 x"
    "listening \<Longrightarrow> status w2 (m_sockfd sock) = (fst (status w1 (m_sockfd sock)), True)" for x
    using assms(5) serve_lawsD(8,9) [OF assms(2)] by (auto simp: Socket_listen_def split_beta split: if_splits)
  have own: "m_sockfd s \<in> opens w" "0 \<le> m_sockfd s" if "s \<in> set socks" for s
    using assms(3) that by (auto simp: owned_def)
  show "\<forall>s \<in> set socks. status (Socket_delete N sock w1) (m_sockfd s) = status w (m_sockfd s) \<and>
      status (Socket_delete N sock w2) (m_sockfd s) = status w (m_sockfd s) \<and>
      status w2 (m_sockfd s) = status w (m_sockfd s)"
    using b own l(1) status_delete [OF assms(2)] by simp
  show "serves status w2 sock addr" if "bound" "listening" using that b l(2) by (simp add: serves_def)
  show "opens (Socket_delete N sock w1) = opens w" "opens (Socket_delete N sock w2) = opens w"
    using opens_fresh_delete [OF assms(1) f(1)]
      opens_fresh_delete [OF assms(1), of w sock w2] f(1) o2 by (simp_all add: opens_fresh_def)
  show "owned opens base (socks @ [sock]) w2" if "bound" "listening"
    using f that o2 by (intro owned_append [OF assms(3)]) (auto simp: opens_fresh_def)
qed

lemma bind_loop_serves:
  assumes "net_laws N opens" "serve_laws N status" "owned opens base socks w"
    and "bind_loop N junk addrs socks fails w = (socks', fails', w')" "list_all2 (serves status w) socks as"
  shows "\<exists>served. list_all2 (serves status w') socks' (as @ served) \<and> (fails' = [] \<longrightarrow> fails = [] \<and> served = addrs)"
  using assms(3-5)
proof (induction addrs arbitrary: socks fails w as)
  case Nil
  then show ?case by (intro exI [of _ "[]"]) simp
next
  case (Cons addr addrs)
  obtain sock w1 bound where b: "Socket_bind N junk (CreateTCP junk addr) addr w = (sock, w1, bound)"
    by (metis prod_cases3)
  obtain w2 listening where l: "Socket_listen N sock SOMAXCONN w1 = (w2, listening)" by fastforce
  note r = bind_round [OF assms(1,2) Cons.prems(1) b l]
  show ?case
  proof (cases "bound \<and> listening")
    case True
    have l': "bind_loop N junk addrs (socks @ [sock]) fails w2 = (socks', fails', w')" using Cons.prems(2) b l True by simp
    have o: "owned opens base (socks @ [sock]) w2" by (rule r(5)) (simp_all add: True)
    have new: "serves status w2 sock addr" by (rule r(2)) (simp_all add: True)
    have "list_all2 (serves status w2) socks as" by (rule serves_keeps [OF Cons.prems(3)]) (use r(1) in simp)
    then have "list_all2 (serves status w2) (socks @ [sock]) (as @ [addr])" using new by (simp add: list_all2_appendI)
    from Cons.IH [OF o l' this] obtain served where "list_all2 (serves status w') socks' ((as @ [addr]) @ served)"
      "fails' = [] \<longrightarrow> fails = [] \<and> served = addrs" by blast
    then show ?thesis by (intro exI [of _ "addr # served"]) simp
  next
    case False
    define v where "v = Socket_delete N sock (if bound then w2 else w1)"
    have l': "bind_loop N junk addrs socks (fails @ [addr]) v = (socks', fails', w')"
      using Cons.prems(2) b l False by (auto simp: v_def split: if_splits)
    have "opens v = opens w" by (simp add: v_def r(3,4))
    then have o: "owned opens base socks v" using Cons.prems(1) by (simp add: owned_def)
    have "list_all2 (serves status v) socks as"
      by (rule serves_keeps [OF Cons.prems(3)]) (use r(1) in \<open>simp add: v_def\<close>)
    from Cons.IH [OF o l' this] obtain served where "list_all2 (serves status w') socks' (as @ served)"
      "fails' = [] \<longrightarrow> fails @ [addr] = [] \<and> served = addrs" by blast
    then show ?thesis by (intro exI [of _ served]) simp
  qed
qed

subsection \<open>The closing task\<close>

text \<open>What waits on a listening socket.\<close>

definition listener_waiters :: "'c iomanager \<Rightarrow> socket \<Rightarrow> (nat \<times> 'c task) list" where
  "listener_waiters m s =
     (if in_table m (m_sockfd s)
      then waiters (m_fd_contexts m ! nat (m_sockfd s)) (event_type (m_fd_contexts m ! nat (m_sockfd s))) else [])"

lemma close_listeners_wakes:
  assumes "iom_inv m" "\<forall>s \<in> set socks. 0 \<le> m_sockfd s" "distinct (map m_sockfd socks)"
    and "close_listeners True N socks m w = Ret m' w'"
  shows "length (m_fd_contexts m') = length (m_fd_contexts m) \<and>
    (\<forall>i < length (m_fd_contexts m). m_fd_contexts m' ! i =
       (if int i \<in> m_sockfd ` set socks then FdContext_new i else m_fd_contexts m ! i)) \<and>
    queued m' = queued m @ concat (map (listener_waiters m) socks)"
  using assms
proof (induction socks arbitrary: m w)
  case (Cons s ss)
  have fd: "0 \<le> m_sockfd s" using Cons.prems(2) by simp
  obtain m1 r where c: "cancelAll True m (m_sockfd s) = Ret m1 r" "iom_inv m1"
    "if in_table m (m_sockfd s)
     then m_fd_contexts m1 = (m_fd_contexts m)[nat (m_sockfd s) := FdContext_new (nat (m_sockfd s))] \<and>
       interest m1 = (interest m)(nat (m_sockfd s) := None) \<and>
       queued m1 = queued m @ waiters (m_fd_contexts m ! nat (m_sockfd s)) (event_type (m_fd_contexts m ! nat (m_sockfd s)))
     else m1 = m"
    using cancelAll_clear [OF Cons.prems(1) fd] by blast
  have q: "queued m1 = queued m @ listener_waiters m s" "length (m_fd_contexts m1) = length (m_fd_contexts m)"
    using c(3) by (auto simp: listener_waiters_def split: if_splits)
  have at: "m_fd_contexts m1 ! i = (if int i = m_sockfd s then FdContext_new i else m_fd_contexts m ! i)"
    if "i < length (m_fd_contexts m)" for i
    using c(3) that fd by (auto simp: in_table_def nth_list_update split: if_splits)
  have "listener_waiters m1 x = listener_waiters m x" if "x \<in> set ss" for x
  proof -
    have "m_sockfd x \<in> m_sockfd ` set ss" using that by simp
    then have "m_sockfd x \<noteq> m_sockfd s" using Cons.prems(3) by auto
    moreover have "0 \<le> m_sockfd x" using Cons.prems(2) that by simp
    ultimately show ?thesis using at [of "nat (m_sockfd x)"] q(2) by (auto simp: listener_waiters_def in_table_def nat_less_iff)
  qed
  then have mp: "map (listener_waiters m1) ss = map (listener_waiters m) ss" by simp
  have cl: "close_listeners True N ss m1 (fst (snd (Socket_close N s w))) = Ret m' w'"
    using Cons.prems(4) c(1) by (simp add: Socket_cancelAll_def)
  have "\<forall>s \<in> set ss. 0 \<le> m_sockfd s" "distinct (map m_sockfd ss)" using Cons.prems(2,3) by auto
  note ih = Cons.IH [OF c(2) this cl]
  have "m_fd_contexts m' ! i =
      (if int i \<in> m_sockfd ` set (s # ss) then FdContext_new i else m_fd_contexts m ! i)"
    if "i < length (m_fd_contexts m)" for i
    using ih that q(2) at [OF that] by (cases "int i \<in> m_sockfd ` set ss") auto
  moreover have "length (m_fd_contexts m') = length (m_fd_contexts m)"
    "queued m' = queued m @ concat (map (listener_waiters m) (s # ss))"
    using ih q by (simp_all add: mp del: map_map)
  ultimately show ?case by blast
qed simp

lemma close_listeners_refused:
  assumes "iom_inv m" "\<forall>s \<in> set socks. 0 \<le> m_sockfd s" "close_listeners False N socks m w = Ret m' w'"
  shows "m' = m"
  using assms
proof (induction socks arbitrary: w)
  case (Cons s ss)
  have fd: "0 \<le> m_sockfd s" using Cons.prems(2) by simp
  obtain r where "cancelAll False m (m_sockfd s) = Ret m r"
    using cancelAll_spec [OF Cons.prems(1) fd, of False] by auto
  then show ?case using Cons by (auto simp: Socket_cancelAll_def)
qed simp

lemma bind_all_serves:
  assumes "net_laws N opens" "serve_laws N status" "ts_socks t = []"
    and "TcpServer_bind_all N junk t addrs [] ssl w = (t', fails, w', True)"
  shows "list_all2 (serves status w') (ts_socks t') addrs"
proof -
  obtain socks bad v where b: "bind_loop N junk addrs [] [] w = (socks, bad, v)" by (metis prod_cases3)
  have r: "ts_socks t' = socks" "bad = []" "w' = v"
    using assms(3,4) b by (auto simp: TcpServer_bind_all_def Let_def split: if_splits)
  have "owned opens (opens w) [] w" "list_all2 (serves status w) [] []" by simp_all
  from bind_loop_serves [OF assms(1,2) this(1) b this(2)] show ?thesis using r by auto
qed

text \<open>Reading back a configuration.\<close>

lemma conf_read_back:
  assumes Y: "conf_yaml_laws Y ns" and c: "node_of_conf Y c = Some n" and n: "n \<in> ns"
    and a: "Map (map (\<lambda>(k, v). (k, Scalar v)) (sc_args c)) \<in> ns"
  shows "TcpServerConf_of_string Y (Dump Y n) = Some (c\<lparr>sc_args := []\<rparr>)"
proof -
  let ?m = "Map (map (\<lambda>(k, v). (k, Scalar v)) (sc_args c))"
  have l: "Load Y (Dump Y x) = Some x" if "x \<in> ns" for x
    using Y that by (simp add: conf_yaml_laws_def yaml_laws_def yaml.truncate_def)
  have s: "subscript Y (Map kvs) k = Some (map_of kvs k)" "as_string Y (Scalar x) = Some x" for kvs k x
    using Y by (simp_all add: conf_yaml_laws_def yaml_laws_def yaml.truncate_def)
  have i: "as_int Y (Scalar (int_text Y v)) = Some v" "as_strings Y (Sequence (map Scalar ss)) = Some ss"
    "as_string_or_empty Y (Some (Map kvs)) = []" "Load Y [] = Some Null" for v ss kvs
    using Y by (simp_all add: conf_yaml_laws_def)
  have "Load Y (cast_from_map (yaml.truncate Y) id (sc_args c)) = Some ?m"
    using l [OF a] by (simp add: cast_from_map_def yaml.truncate_def id_def)
  then have eq: "n = Map ([(''id'', Scalar (sc_id c)), (''type'', Scalar (sc_type c)), (''name'', Scalar (sc_name c)),
        (''keepalive'', Scalar (int_text Y (sc_keepalive c))), (''timeout'', Scalar (int_text Y (sc_timeout c))),
        (''ssl'', Scalar (int_text Y (sc_ssl c))), (''cert_file'', Scalar (sc_cert_file c)),
        (''key_file'', Scalar (sc_key_file c)), (''accept_worker'', Scalar (sc_accept_worker c)),
        (''io_worker'', Scalar (sc_io_worker c)), (''business_worker'', Scalar (sc_business_worker c)),
        (''args'', ?m)] @
       (if sc_address c = [] then [] else [(''address'', Sequence (map Scalar (sc_address c)))]))"
    using c by (simp add: node_of_conf_def)
  show ?thesis
    unfolding TcpServerConf_of_string_def l [OF n] unfolding eq
    by (cases "sc_address c")
      (simp_all add: conf_address_def conf_args_def need_def s i cast_to_map_def yaml.truncate_def del: list.map)
qed

section \<open>Properties\<close>

text \<open>C27. Binding a server is all or nothing. Either it succeeds: then it has one socket for each address, in
  the order of the addresses, this socket is bound to its address and listens, the descriptors are different
  and were not open before, and they are exactly those that were opened. Or it reports addresses of the list
  as failed: then the server has no socket, and every descriptor opened on the way is closed again.\<close>

theorem server_bind_all_or_nothing:
  assumes "net_laws N opens" "serve_laws N status" "ts_socks t = []"
    and "TcpServer_bind_all N junk t addrs [] ssl w = (t', fails, w', ok)"
  shows "(ok \<longleftrightarrow> fails = []) \<and> set fails \<subseteq> set addrs \<and>
    (if ok then list_all2 (\<lambda>s a. status w' (m_sockfd s) = (Some a, True)) (ts_socks t') addrs \<and>
        length (ts_socks t') = length addrs \<and> distinct (map m_sockfd (ts_socks t')) \<and>
        opens w' = opens w \<union> m_sockfd ` set (ts_socks t') \<and> opens w \<inter> m_sockfd ` set (ts_socks t') = {}
     else ts_socks t' = [] \<and> opens w' = opens w)"
proof -
  have "list_all2 (\<lambda>s a. status w' (m_sockfd s) = (Some a, True)) (ts_socks t') addrs" if ok
    using bind_all_serves [OF assms(1-3)] assms(4) that by (simp add: serves_def [abs_def])
  then show ?thesis using bind_all_owned [OF assms(1,3,4)] by (auto simp: owned_def)
qed

text \<open>A network that keeps of each descriptor its address and whether it listens, and refuses an address
  that is in use.\<close>

type_synonym serve_world = "(address option \<times> bool) option list"

definition serve_opens :: "serve_world \<Rightarrow> int set" where
  "serve_opens w = {int i |i. i < length w \<and> w ! i \<noteq> None}"

definition serve_entry :: "serve_world \<Rightarrow> int \<Rightarrow> (address option \<times> bool) option" where
  "serve_entry w fd = (if 0 \<le> fd \<and> nat fd < length w then w ! nat fd else None)"

definition serve_status :: "serve_world \<Rightarrow> int \<Rightarrow> address option \<times> bool" where
  "serve_status w fd = (case serve_entry w fd of None \<Rightarrow> (None, False) | Some st \<Rightarrow> st)"

definition serve_open :: "serve_world \<Rightarrow> int \<times> serve_world" where
  "serve_open w = (int (length w), w @ [Some (None, False)])"

definition serve_bind :: "int \<Rightarrow> address \<Rightarrow> serve_world \<Rightarrow> int \<times> serve_world" where
  "serve_bind fd a w =
     (case serve_entry w fd of
        None \<Rightarrow> (- 1, w)
      | Some st \<Rightarrow> if list_ex (\<lambda>e. e \<noteq> None \<and> fst (the e) = Some a) w then (- 1, w)
          else (0, w[nat fd := Some (Some a, snd st)]))"

definition serve_listen :: "int \<Rightarrow> int \<Rightarrow> serve_world \<Rightarrow> int \<times> serve_world" where
  "serve_listen fd backlog w =
     (case serve_entry w fd of None \<Rightarrow> (- 1, w) | Some st \<Rightarrow> (0, w[nat fd := Some (fst st, True)]))"

definition serve_net :: "serve_world net" where
  "serve_net =
     \<lparr>n_socket = (\<lambda>f t p. serve_open), n_close = (\<lambda>fd w. if 0 \<le> fd then w[nat fd := None] else w),
      n_setsockopt = (\<lambda>fd l opt v w. (0, w)), n_getsockopt = (\<lambda>fd l opt w. Some 0), n_errno = (\<lambda>w. 0),
      n_getsockname = (\<lambda>fd w. fst (serve_status w fd)), n_getpeername = (\<lambda>fd w. None), n_accept = (\<lambda>fd. serve_open),
      n_bind = serve_bind, n_listen = serve_listen, n_connect = (\<lambda>fd a ms w. (- 1, w)), n_unlink = (\<lambda>p w. w),
      n_ctx = (\<lambda>fd w. None), n_ctx_timeout = (\<lambda>fd ty v w. w),
      n_send = (\<lambda>fd bs to flags w. (int (length (concat bs)), w)),
      n_recv = (\<lambda>fd ns from flags w. ((0, []), w))\<rparr>"

lemma serve_opens_entry: "serve_opens w = {fd. serve_entry w fd \<noteq> None}"
  by (auto simp: serve_opens_def serve_entry_def split: if_splits) (metis nat_eq_iff2)+

lemma serve_entry_update:
  "serve_entry (w[nat fd := e]) x =
     (if 0 \<le> fd \<and> x = fd \<and> nat fd < length w then e else if 0 \<le> fd then serve_entry w x else serve_entry (w[nat fd := e]) x)"
  by (auto simp: serve_entry_def nth_list_update nat_eq_iff)

lemma serve_entry_append:
  "serve_entry (w @ [e]) x = (if x = int (length w) then e else serve_entry w x)"
  by (auto simp: serve_entry_def nth_append)

lemma serve_entry_Some: "serve_entry w fd = Some st \<Longrightarrow> 0 \<le> fd \<and> nat fd < length w"
  by (simp add: serve_entry_def split: if_splits)

lemma serve_bind_effect:
  "serve_entry (snd (serve_bind fd a w)) x =
     (if fst (serve_bind fd a w) = 0 \<and> x = fd then Some (Some a, snd (serve_status w fd)) else serve_entry w x)"
  "fst (serve_bind fd a w) = 0 \<Longrightarrow> serve_entry w fd \<noteq> None"
  by (auto simp: serve_bind_def serve_status_def serve_entry_update dest: serve_entry_Some split: option.splits if_splits)

lemma serve_listen_effect:
  "serve_entry (snd (serve_listen fd b w)) x =
     (if fst (serve_listen fd b w) = 0 \<and> x = fd then Some (fst (serve_status w fd), True) else serve_entry w x)"
  "fst (serve_listen fd b w) = 0 \<Longrightarrow> serve_entry w fd \<noteq> None"
  by (auto simp: serve_listen_def serve_status_def serve_entry_update dest: serve_entry_Some split: option.splits if_splits)

lemma serve_net_laws: "net_laws serve_net serve_opens"
proof -
  have "opens_fresh serve_opens w (serve_open w)" for w
    by (auto simp: opens_fresh_def serve_open_def serve_opens_entry serve_entry_append) (simp add: serve_entry_def)
  moreover have "serve_opens (if 0 \<le> fd then w[nat fd := None] else w) = serve_opens w - {fd}" for fd w
    by (auto simp: serve_opens_entry serve_entry_update) (simp_all add: serve_entry_def split: if_splits)
  moreover have "serve_opens (snd (serve_bind fd a w)) = serve_opens w" for fd a w
    using serve_bind_effect(2) by (auto simp: serve_opens_entry serve_bind_effect(1))
  moreover have "serve_opens (snd (serve_listen fd b w)) = serve_opens w" for fd b w
    using serve_listen_effect(2) by (auto simp: serve_opens_entry serve_listen_effect(1))
  ultimately show ?thesis by (simp add: net_laws_def serve_net_def)
qed

lemma serve_net_serves: "serve_laws serve_net serve_status"
  by (simp add: serve_laws_def serve_net_def serve_status_def serve_open_def serve_entry_append serve_entry_update
      serve_bind_effect(1) serve_listen_effect(1))

definition serve_start :: serve_world where
  "serve_start = replicate 4 (Some (None, False))"

lemma serve_start_binds:
  "TcpServer_bind_all serve_net False (TcpServer_new 0 False) [toy_addr 1, toy_addr 2] [] False serve_start =
     ((TcpServer_new 0 False)
       \<lparr>ts_socks := [(CreateTCP False (toy_addr 1))\<lparr>m_sockfd := 4, m_localAddress := Some (toy_addr 1)\<rparr>,
          (CreateTCP False (toy_addr 2))\<lparr>m_sockfd := 5, m_localAddress := Some (toy_addr 2)\<rparr>]\<rparr>, [],
      serve_start @ [Some (Some (toy_addr 1), True), Some (Some (toy_addr 2), True)], True)"
  "\<exists>t' w'. TcpServer_bind_all serve_net False (TcpServer_new 0 False) [toy_addr 1, toy_addr 1] [] False serve_start =
     (t', [toy_addr 1], w', False)"
proof -
  have p: "probe_unix N False (toy_addr n) v = (v, True)" for N :: "serve_world net" and n v
    by (simp add: probe_unix_def toy_addr_def)
  have f: "getFamily (toy_addr n) = AF_INET" for n by (simp add: toy_addr_def IPv4_any_def)
  have a: "toy_addr 1 \<noteq> toy_addr 2"
    by (simp add: toy_addr_def IPv4_any_def byteswap32_def, code_simp)
  have o: "setSockfd serve_net s v = v" for s v by (simp add: setSockfd_def setOption_def serve_net_def Let_def)
  have n: "n_socket serve_net x y z = serve_open" "n_bind serve_net = serve_bind" "n_listen serve_net = serve_listen"
    "n_getsockname serve_net fd v = fst (serve_status v fd)" for x y z fd v
    by (simp_all add: serve_net_def)
  note defs = TcpServer_bind_all_def TcpServer_new_def Socket_bind_def CreateTCP_def Socket_new_def ensure_fd_def
    isValid_def newSockfd_def n o f p serve_open_def serve_start_def getLocalAddress_def Socket_listen_def
    serve_bind_def serve_listen_def serve_status_def serve_entry_def numeral_eq_Suc a a [symmetric] Let_def
  show "TcpServer_bind_all serve_net False (TcpServer_new 0 False) [toy_addr 1, toy_addr 2] [] False serve_start =
     ((TcpServer_new 0 False)
       \<lparr>ts_socks := [(CreateTCP False (toy_addr 1))\<lparr>m_sockfd := 4, m_localAddress := Some (toy_addr 1)\<rparr>,
          (CreateTCP False (toy_addr 2))\<lparr>m_sockfd := 5, m_localAddress := Some (toy_addr 2)\<rparr>]\<rparr>, [],
      serve_start @ [Some (Some (toy_addr 1), True), Some (Some (toy_addr 2), True)], True)"
    by (simp add: defs)
  show "\<exists>t' w'. TcpServer_bind_all serve_net False (TcpServer_new 0 False) [toy_addr 1, toy_addr 1] [] False serve_start =
     (t', [toy_addr 1], w', False)"
    by (simp add: defs) blast
qed

theorem server_bind_all_or_nothing_witness:
  "\<exists>t1 w1 t2 w2.
     TcpServer_bind_all serve_net False (TcpServer_new 0 False) [toy_addr 1, toy_addr 2] [] False serve_start =
       (t1, [], w1, True) \<and> length (ts_socks t1) = 2 \<and>
     serve_status w1 (m_sockfd (ts_socks t1 ! 1)) = (Some (toy_addr 2), True) \<and>
     TcpServer_bind_all serve_net False (TcpServer_new 0 False) [toy_addr 1, toy_addr 1] [] False serve_start =
       (t2, [toy_addr 1], w2, False) \<and> ts_socks t2 = [] \<and> serve_opens w2 = serve_opens serve_start"
proof -
  have t: "ts_socks (TcpServer_new 0 False) = []" by (simp add: TcpServer_new_def)
  obtain t2 w2 where b: "TcpServer_bind_all serve_net False (TcpServer_new 0 False) [toy_addr 1, toy_addr 1] [] False
      serve_start = (t2, [toy_addr 1], w2, False)" using serve_start_binds(2) by blast
  obtain t1 w1 where g: "TcpServer_bind_all serve_net False (TcpServer_new 0 False) [toy_addr 1, toy_addr 2] [] False
      serve_start = (t1, [], w1, True)" using serve_start_binds(1) by blast
  have st: "list_all2 (\<lambda>s a. serve_status w1 (m_sockfd s) = (Some a, True)) (ts_socks t1) [toy_addr 1, toy_addr 2]"
    using server_bind_all_or_nothing [OF serve_net_laws serve_net_serves t g] by simp
  have "length (ts_socks t1) = 2" "serve_status w1 (m_sockfd (ts_socks t1 ! 1)) = (Some (toy_addr 2), True)"
    using list_all2_lengthD [OF st] list_all2_nthD2 [OF st, of 1] by simp_all
  then show ?thesis
    using g b server_bind_all_or_nothing [OF serve_net_laws serve_net_serves t b] by auto
qed

text \<open>C26. The life of a server that was bound to its addresses, started and stopped. \<open>start\<close> pushes one accept
  loop for each socket, each on a socket of its own that is bound to its address and listens; \<open>stop\<close>
  pushes one closing task. This task always runs to its end: afterwards the server has no socket, the
  descriptors open are those that were open before it was bound, and, where the kernel agrees, the event
  contexts of exactly the listening descriptors are cleared, with whatever waited on them queued in the
  order of the sockets and nothing else queued.\<close>

theorem server_life:
  assumes "net_laws N opens" "serve_laws N status" "ts_socks t = []" "ts_isStop t"
    and "TcpServer_bind_all N junk t addrs [] ssl w = (t1, [], w1, True)"
    and "server_start t1 = (t2, accepts, ret)" "server_stop t2 = (t3, lasts)" "iom_inv m"
  shows "ret \<and> \<not> ts_isStop t2 \<and> lasts = [CloseAll] \<and>
    (\<exists>socks. accepts = map StartAccept socks \<and> distinct (map m_sockfd socks) \<and>
      list_all2 (\<lambda>s a. status w1 (m_sockfd s) = (Some a, True)) socks addrs \<and>
      (\<exists>m' t4 w2. run_CloseAll ok N t3 m w1 = Ret m' (t4, w2) \<and> iom_inv m' \<and> ts_isStop t4 \<and> ts_socks t4 = [] \<and>
        opens w2 = opens w \<and>
        (if ok then length (m_fd_contexts m') = length (m_fd_contexts m) \<and>
           (\<forall>i < length (m_fd_contexts m). m_fd_contexts m' ! i =
              (if int i \<in> m_sockfd ` set socks then FdContext_new i else m_fd_contexts m ! i)) \<and>
           queued m' = queued m @ concat (map (listener_waiters m) socks)
         else m' = m)))"
proof -
  let ?socks = "ts_socks t1"
  have o: "ts_isStop t1" "owned opens (opens w) ?socks w1"
    using bind_all_owned [OF assms(1,3,5)] assms(4) by auto
  have fd: "\<forall>s \<in> set ?socks. 0 \<le> m_sockfd s" "distinct (map m_sockfd ?socks)" using o(2) by (auto simp: owned_def)
  have s: "list_all2 (\<lambda>s a. status w1 (m_sockfd s) = (Some a, True)) ?socks addrs"
    using bind_all_serves [OF assms(1-3,5)] by (simp add: serves_def [abs_def])
  have t: "t2 = t1\<lparr>ts_isStop := False\<rparr>" "accepts = map StartAccept ?socks" "ret" "t3 = t2\<lparr>ts_isStop := True\<rparr>"
    "lasts = [CloseAll]"
    using assms(6,7) o(1) by (auto simp: server_start_def server_stop_def)
  obtain m' w' where c: "close_listeners ok N ?socks m w1 = Ret m' w'" "iom_inv m'" "opens w' = opens w"
    using close_listeners_returns [OF assms(1) o(2) assms(8)] by blast
  have "if ok then length (m_fd_contexts m') = length (m_fd_contexts m) \<and>
      (\<forall>i < length (m_fd_contexts m). m_fd_contexts m' ! i =
         (if int i \<in> m_sockfd ` set ?socks then FdContext_new i else m_fd_contexts m ! i)) \<and>
      queued m' = queued m @ concat (map (listener_waiters m) ?socks)
    else m' = m"
  proof (cases ok)
    case True
    with c(1) have "close_listeners True N ?socks m w1 = Ret m' w'" by simp
    from close_listeners_wakes [OF assms(8) fd this] show ?thesis using True by (simp del: map_map)
  next
    case False
    with c(1) have "close_listeners False N ?socks m w1 = Ret m' w'" by simp
    from close_listeners_refused [OF assms(8) fd(1) this] show ?thesis using False by simp
  qed
  then show ?thesis using t fd(2) s c by (auto simp: run_CloseAll_def)
qed

lemma one_reader_4: "event_type (m_fd_contexts one_reader ! 4) = 0"
  by (simp add: one_reader_def addEvent_def grow_for_def in_table_def IOManager_new_def
      resizeContext_def Let_def FdContext_new_def getContext_def setContext_def event_bits empty_context_def)

theorem server_life_witness:
  "\<exists>t1 w1 accepts m' t4 w2.
     TcpServer_bind_all serve_net False (TcpServer_new 0 False) [toy_addr 1, toy_addr 2] [] False serve_start =
       (t1, [], w1, True) \<and>
     fst (snd (server_start t1)) = accepts \<and> length accepts = 2 \<and> accepts ! 0 \<noteq> accepts ! 1 \<and>
     run_CloseAll True serve_net (fst (server_stop (fst (server_start t1)))) one_reader w1 = Ret m' (t4, w2) \<and>
     queued m' = [(1, Task_cb (Some ''cb'') (- 1))] \<and> m_fd_contexts m' ! 5 = FdContext_new 5 \<and>
     serve_opens w2 = serve_opens serve_start"
proof -
  have n: "ts_socks (TcpServer_new 0 False) = []" "ts_isStop (TcpServer_new 0 False)" by (simp_all add: TcpServer_new_def)
  obtain t1 w1 where b: "TcpServer_bind_all serve_net False (TcpServer_new 0 False) [toy_addr 1, toy_addr 2] [] False
      serve_start = (t1, [], w1, True)" and s: "map m_sockfd (ts_socks t1) = [4, 5]" "\<not> \<not> ts_isStop t1"
    using serve_start_binds(1) by (simp add: TcpServer_new_def)
  obtain t2 accepts ret where st: "server_start t1 = (t2, accepts, ret)" by (metis prod_cases3)
  obtain t3 lasts where e: "server_stop t2 = (t3, lasts)" by fastforce
  have a: "accepts = map StartAccept (ts_socks t1)" using st s(2) by (auto simp: server_start_def)
  obtain socks m' t4 w2 where l: "accepts = map StartAccept socks"
      "run_CloseAll True serve_net t3 one_reader w1 = Ret m' (t4, w2)" "serve_opens w2 = serve_opens serve_start"
      "m_fd_contexts m' ! 5 = (if int 5 \<in> m_sockfd ` set socks then FdContext_new 5 else m_fd_contexts one_reader ! 5)"
      "queued m' = queued one_reader @ concat (map (listener_waiters one_reader) socks)"
    using server_life [OF serve_net_laws serve_net_serves n b st e one_reader_ok(1), of True] one_reader_ok(2) by auto
  have "socks = ts_socks t1" using l(1) a by (metis map_injective injI server_task.inject(1))
  then obtain s4 s5 where ss: "socks = [s4, s5]" "m_sockfd s4 = 4" "m_sockfd s5 = 5" using s(1) by (auto simp: map_eq_Cons_conv)
  have w: "listener_waiters one_reader s5 = [(1, Task_cb (Some ''cb'') (- 1))]"
    using one_reader_ok(2,3) one_reader_waits by (simp add: listener_waiters_def in_table_def ss waiters_def event_bits)
  have "listener_waiters one_reader s4 = []"
    using one_reader_4 by (simp add: listener_waiters_def ss waiters_def)
  then have q: "queued m' = [(1, Task_cb (Some ''cb'') (- 1))]" using l(5) w one_reader_waits(2) by (simp add: ss)
  have "accepts ! 0 \<noteq> accepts ! 1" "length accepts = 2" using l(1) ss by auto
  then show ?thesis using b st e l(2,3,4) q by (auto simp: ss)
qed

text \<open>The configuration of a server is read back from the text written for it, except for its
  arguments: they are written as a map and read as a text, so they are always lost.\<close>

theorem server_conf_loses_args:
  assumes "conf_yaml_laws Y ns" "node_of_conf Y c = Some n" "n \<in> ns"
    and "Map (map (\<lambda>(k, v). (k, Scalar v)) (sc_args c)) \<in> ns"
  shows "\<exists>s. string_of_TcpServerConf Y c = Some s \<and> TcpServerConf_of_string Y s = Some (c\<lparr>sc_args := []\<rparr>)"
  using conf_read_back [OF assms] assms(2) by (simp add: string_of_TcpServerConf_def)

definition sample_conf_yaml :: "node list \<Rightarrow> conf_yaml" where
  "sample_conf_yaml ns = yaml.extend (sample_yaml ns)
     \<lparr>as_int = (\<lambda>n. case n of
        Scalar s \<Rightarrow> Some (if s \<noteq> [] \<and> hd s = CHR ''-'' then - int (length s - 1) else int (length s)) | _ \<Rightarrow> None),
      int_text = (\<lambda>i. if i < 0 then CHR ''-'' # replicate (nat (- i)) (CHR ''x'') else replicate (nat i) (CHR ''x'')),
      as_strings = (\<lambda>n. case n of Sequence ns \<Rightarrow> bind_all (\<lambda>n. case n of Scalar s \<Rightarrow> Some s | _ \<Rightarrow> None) ns | _ \<Rightarrow> None),
      as_string_or_empty = (\<lambda>n. case n of Some (Scalar s) \<Rightarrow> s | _ \<Rightarrow> [])\<rparr>"

lemma sample_conf_yaml_laws: "conf_yaml_laws (sample_conf_yaml (Null # ns)) (set (Null # ns))"
proof -
  let ?Y = "sample_conf_yaml (Null # ns)"
  have t: "yaml.truncate ?Y = sample_yaml (Null # ns)"
    by (simp add: sample_conf_yaml_def yaml.defs sample_yaml_def)
  have i: "as_int ?Y (Scalar (int_text ?Y v)) = Some v" for v
    by (cases "nat v") (auto simp: sample_conf_yaml_def yaml.defs)
  have s: "as_strings ?Y (Sequence (map Scalar ss)) = Some ss" for ss
    by (simp add: sample_conf_yaml_def yaml.defs bind_all_map [where h = id, simplified])
  show ?thesis
    unfolding conf_yaml_laws_def t using sample_yaml_laws [of "Null # ns"] i s
    by (simp add: sample_conf_yaml_def yaml.defs sample_yaml_def)
qed

definition args_conf :: server_conf where
  "args_conf = TcpServerConf_new\<lparr>sc_args := [(''a'', ''b'')]\<rparr>"

theorem server_conf_loses_args_witness:
  "\<exists>Y s. string_of_TcpServerConf Y args_conf = Some s \<and> TcpServerConf_of_string Y s = Some TcpServerConf_new"
proof -
  let ?a = "Map [(''a'', Scalar ''b'')]"
  define n where "n = the (node_of_conf (sample_conf_yaml [Null, ?a]) args_conf)"
  let ?Y = "sample_conf_yaml [Null, ?a, n]"
  have a: "Map (map (\<lambda>(k, v). (k, Scalar v)) (sc_args args_conf)) = ?a" by (simp add: args_conf_def)
  have load: "Load (sample_conf_yaml (Null # ?a # ns)) (cast_from_map (yaml.truncate (sample_conf_yaml (Null # ?a # ns)))
      id (sc_args args_conf)) = Some ?a" for ns
    by (simp add: args_conf_def cast_from_map_def sample_conf_yaml_def yaml.defs sample_yaml_def)
  have "int_text ?Y = int_text (sample_conf_yaml [Null, ?a])" by (simp add: sample_conf_yaml_def yaml.defs)
  then have "node_of_conf ?Y args_conf = Some n"
    using load [of "[n]"] load [of "[]"] by (simp add: node_of_conf_def n_def)
  then show ?thesis
    using server_conf_loses_args [OF sample_conf_yaml_laws [of "[?a, n]"], of args_conf n] a
    by (auto simp: args_conf_def TcpServerConf_new_def)
qed

end
