(* ===== verification/Locks.thy ===== *)
theory Locks
  imports Prelude "HOL-Library.Multiset"
begin

text \<open>
  \<open>src/Mutex.h\<close>, \<open>src/Mutex.cc\<close>: the semaphore, the mutexes and the scoped guards. The objects of
  pthread are modelled by what POSIX says of them: who holds the lock. A call proceeds, makes the
  caller wait, throws, or is undefined. Threads are numbers; a run of the program is a sequence of
  calls on the guards, each labelled with the thread that makes it.

  The locale \<open>lockable\<close> is what \<open>ScopedLockImpl\<close> requires of its parameter; it is interpreted at the
  three mutexes of the library. That an operation under a guard is one critical section, which the
  other theories take for granted, is proved here (\<open>guards_exclude\<close>, \<open>rw_sections\<close>).
\<close>

section \<open>Calls that may wait\<close>

datatype 's lock_call = Proceeds 's | Blocks | Throws int | Undefined

fun lmap :: "('a \<Rightarrow> 'b) \<Rightarrow> 'a lock_call \<Rightarrow> 'b lock_call" where
  "lmap f (Proceeds s) = Proceeds (f s)"
| "lmap f Blocks = Blocks"
| "lmap f (Throws e) = Throws e"
| "lmap f Undefined = Undefined"

lemma lmap_eq_Proceeds: "lmap f c = Proceeds x \<longleftrightarrow> (\<exists>s. c = Proceeds s \<and> x = f s)"
  by (cases c) auto

lemma lmap_eq_Undefined [simp]: "lmap f c = Undefined \<longleftrightarrow> c = Undefined"
  by (cases c) auto

section \<open>Semaphore\<close>

text \<open>
  \<open>sem_t\<close> counts up to \<open>SEM_VALUE_MAX\<close>. \<open>sem_wait\<close> fails when a signal arrives while it waits (the
  argument \<open>intr\<close>), and the code then throws; \<open>EINVAL\<close>, \<open>EINTR\<close> and \<open>EOVERFLOW\<close> are the numbers of Linux.
\<close>

definition "SEM_VALUE_MAX = (2147483647 :: nat)"
definition "EINTR_no = (4 :: int)"
definition "EINVAL_no = (22 :: int)"
definition "EOVERFLOW_no = (75 :: int)"

type_synonym semaphore = nat

definition Semaphore_ctor :: "u32 \<Rightarrow> semaphore lock_call" where
  "Semaphore_ctor n = (if unat n > SEM_VALUE_MAX then Throws EINVAL_no else Proceeds (unat n))"

definition Semaphore_Wait :: "bool \<Rightarrow> semaphore \<Rightarrow> semaphore lock_call" where
  "Semaphore_Wait intr s =
     (if 0 < s then Proceeds (s - 1) else if intr then Throws EINTR_no else Blocks)"

definition Semaphore_Notify :: "semaphore \<Rightarrow> semaphore lock_call" where
  "Semaphore_Notify s = (if s = SEM_VALUE_MAX then Throws EOVERFLOW_no else Proceeds (s + 1))"

lemma notify_then_wait:
  "s < SEM_VALUE_MAX \<Longrightarrow> \<exists>s'. Semaphore_Notify s = Proceeds s' \<and> Semaphore_Wait intr s' = Proceeds s"
  by (simp add: Semaphore_Notify_def Semaphore_Wait_def)

lemma Wait_blocks_iff: "Semaphore_Wait intr s = Blocks \<longleftrightarrow> s = 0 \<and> \<not> intr"
  by (simp add: Semaphore_Wait_def)

section \<open>Mutexes\<close>

text \<open>
  A pthread mutex and a spin lock know their owner: relocking by the owner and unlocking by
  anybody else is undefined. The code ignores the results of these calls.
\<close>

type_synonym mutex = "int option"

definition Mutex_init :: mutex where "Mutex_init = None"

definition Mutex_lock :: "int \<Rightarrow> mutex \<Rightarrow> mutex lock_call" where
  "Mutex_lock t m = (case m of None \<Rightarrow> Proceeds (Some t)
                     | Some u \<Rightarrow> if u = t then Undefined else Blocks)"

definition Mutex_unlock :: "int \<Rightarrow> mutex \<Rightarrow> mutex lock_call" where
  "Mutex_unlock t m = (if m = Some t then Proceeds None else Undefined)"

datatype spin_lock = Spin_free | Spin_held int

definition SpinMutex_init :: spin_lock where "SpinMutex_init = Spin_free"

definition SpinMutex_lock :: "int \<Rightarrow> spin_lock \<Rightarrow> spin_lock lock_call" where
  "SpinMutex_lock t m = (case m of Spin_free \<Rightarrow> Proceeds (Spin_held t)
                         | Spin_held u \<Rightarrow> if u = t then Undefined else Blocks)"

definition SpinMutex_unlock :: "int \<Rightarrow> spin_lock \<Rightarrow> spin_lock lock_call" where
  "SpinMutex_unlock t m = (if m = Spin_held t then Proceeds Spin_free else Undefined)"

text \<open>
  \<open>CASMutex\<close> is an \<open>atomic_flag\<close>. One turn of its loop is one \<open>test_and_set\<close>: it returns the old flag and
  leaves the flag set; the loop ends at the turn that found it clear. A turn that found it set
  has changed nothing, so the caller is where it was: it waits.
\<close>

definition test_and_set :: "bool \<Rightarrow> bool \<times> bool" where
  "test_and_set flag = (flag, True)"

definition CASMutex_init :: bool where "CASMutex_init = False"

definition CASMutex_lock :: "int \<Rightarrow> bool \<Rightarrow> bool lock_call" where
  "CASMutex_lock t flag =
     (case test_and_set flag of (old, flag') \<Rightarrow> if old then Blocks else Proceeds flag')"

definition CASMutex_unlock :: "int \<Rightarrow> bool \<Rightarrow> bool lock_call" where
  "CASMutex_unlock t flag = Proceeds False"

lemma failed_turn_changes_nothing: "fst (test_and_set flag) \<Longrightarrow> snd (test_and_set flag) = flag"
  by (simp add: test_and_set_def)

text \<open>\<open>TestMutex\<close> does nothing.\<close>

definition TestMutex_lock :: "int \<Rightarrow> unit \<Rightarrow> unit lock_call" where
  "TestMutex_lock t m = Proceeds m"

definition TestMutex_unlock :: "int \<Rightarrow> unit \<Rightarrow> unit lock_call" where
  "TestMutex_unlock t m = Proceeds m"

section \<open>The scoped guard\<close>

record scoped_lock = m_locked :: bool

definition ScopedLock_ctor ::
  "(int \<Rightarrow> 's \<Rightarrow> 's lock_call) \<Rightarrow> int \<Rightarrow> 's \<Rightarrow> ('s \<times> scoped_lock) lock_call"
where
  "ScopedLock_ctor acquire t m = lmap (\<lambda>m'. (m', \<lparr>m_locked = True\<rparr>)) (acquire t m)"

definition ScopedLock_lock ::
  "(int \<Rightarrow> 's \<Rightarrow> 's lock_call) \<Rightarrow> int \<Rightarrow> 's \<Rightarrow> scoped_lock \<Rightarrow> ('s \<times> scoped_lock) lock_call"
where
  "ScopedLock_lock acquire t m g =
     (if \<not> m_locked g then lmap (\<lambda>m'. (m', g\<lparr>m_locked := True\<rparr>)) (acquire t m)
      else Proceeds (m, g))"

definition ScopedLock_unlock ::
  "(int \<Rightarrow> 's \<Rightarrow> 's lock_call) \<Rightarrow> int \<Rightarrow> 's \<Rightarrow> scoped_lock \<Rightarrow> ('s \<times> scoped_lock) lock_call"
where
  "ScopedLock_unlock release t m g =
     (if m_locked g then lmap (\<lambda>m'. (m', g\<lparr>m_locked := False\<rparr>)) (release t m)
      else Proceeds (m, g))"

definition ScopedLock_dtor ::
  "(int \<Rightarrow> 's \<Rightarrow> 's lock_call) \<Rightarrow> int \<Rightarrow> 's \<Rightarrow> scoped_lock \<Rightarrow> 's lock_call"
where
  "ScopedLock_dtor release t m g = lmap fst (ScopedLock_unlock release t m g)"

lemmas guard_defs = ScopedLock_ctor_def ScopedLock_lock_def ScopedLock_unlock_def ScopedLock_dtor_def

text \<open>
  The runs: every thread has at most one guard on the mutex at a time, on its stack. Data that the
  mutex protects is changed by a thread whose guard says it is locked.
\<close>

record ('s, 'd) guarded =
  lk :: 's
  data :: 'd
  guards :: "int \<Rightarrow> scoped_lock option"

definition guarded_start :: "'s \<Rightarrow> 'd \<Rightarrow> ('s, 'd) guarded" where
  "guarded_start m d = \<lparr>lk = m, data = d, guards = \<lambda>_. None\<rparr>"

definition inside :: "('s, 'd) guarded \<Rightarrow> int \<Rightarrow> bool" where
  "inside w t = (case guards w t of None \<Rightarrow> False | Some g \<Rightarrow> m_locked g)"

inductive guard_step ::
  "(int \<Rightarrow> 's \<Rightarrow> 's lock_call) \<Rightarrow> (int \<Rightarrow> 's \<Rightarrow> 's lock_call) \<Rightarrow> int \<Rightarrow>
   ('s, 'd) guarded \<Rightarrow> ('s, 'd) guarded \<Rightarrow> bool"
  for acquire release :: "int \<Rightarrow> 's \<Rightarrow> 's lock_call"
where
  construct: "guards w t = None \<Longrightarrow> ScopedLock_ctor acquire t (lk w) = Proceeds (m, g) \<Longrightarrow>
    guard_step acquire release t w (w\<lparr>lk := m, guards := (guards w)(t := Some g)\<rparr>)"
| relock: "guards w t = Some g \<Longrightarrow> ScopedLock_lock acquire t (lk w) g = Proceeds (m, g') \<Longrightarrow>
    guard_step acquire release t w (w\<lparr>lk := m, guards := (guards w)(t := Some g')\<rparr>)"
| unlock: "guards w t = Some g \<Longrightarrow> ScopedLock_unlock release t (lk w) g = Proceeds (m, g') \<Longrightarrow>
    guard_step acquire release t w (w\<lparr>lk := m, guards := (guards w)(t := Some g')\<rparr>)"
| destruct: "guards w t = Some g \<Longrightarrow> ScopedLock_dtor release t (lk w) g = Proceeds m \<Longrightarrow>
    guard_step acquire release t w (w\<lparr>lk := m, guards := (guards w)(t := None)\<rparr>)"
| access: "guards w t = Some g \<Longrightarrow> m_locked g \<Longrightarrow>
    guard_step acquire release t w (w\<lparr>data := d\<rparr>)"

definition guard_reach ::
  "(int \<Rightarrow> 's \<Rightarrow> 's lock_call) \<Rightarrow> (int \<Rightarrow> 's \<Rightarrow> 's lock_call) \<Rightarrow>
   ('s, 'd) guarded \<Rightarrow> ('s, 'd) guarded \<Rightarrow> bool"
where
  "guard_reach acquire release = (\<lambda>w w'. \<exists>t. guard_step acquire release t w w')\<^sup>*\<^sup>*"

text \<open>The call that thread \<open>t\<close> may make next is undefined.\<close>

definition call_undefined ::
  "(int \<Rightarrow> 's \<Rightarrow> 's lock_call) \<Rightarrow> (int \<Rightarrow> 's \<Rightarrow> 's lock_call) \<Rightarrow> int \<Rightarrow> ('s, 'd) guarded \<Rightarrow> bool"
where
  "call_undefined acquire release t w =
     (case guards w t of
        None \<Rightarrow> ScopedLock_ctor acquire t (lk w) = Undefined
      | Some g \<Rightarrow> ScopedLock_lock acquire t (lk w) g = Undefined \<or>
                  ScopedLock_unlock release t (lk w) g = Undefined)"

section \<open>The interface of a mutex\<close>

text \<open>\<open>owner m a\<close>: the state \<open>m\<close> of the mutex is one where \<open>a\<close> holds it.\<close>

locale lockable =
  fixes acquire release :: "int \<Rightarrow> 's \<Rightarrow> 's lock_call" and init :: 's
    and owner :: "'s \<Rightarrow> int option \<Rightarrow> bool"
  assumes init_free: "owner init None"
    and acquire_free: "owner m None \<Longrightarrow> \<exists>m'. acquire t m = Proceeds m' \<and> owner m' (Some t)"
    and acquire_taken: "owner m (Some u) \<Longrightarrow> u \<noteq> t \<Longrightarrow> acquire t m = Blocks"
    and release_own: "owner m (Some t) \<Longrightarrow> \<exists>m'. release t m = Proceeds m' \<and> owner m' None"
begin

definition agrees :: "('s, 'd) guarded \<Rightarrow> bool" where
  "agrees w \<longleftrightarrow> (\<exists>a. owner (lk w) a \<and> (\<forall>t. inside w t \<longleftrightarrow> a = Some t))"

lemma agreesI: "owner (lk w) a \<Longrightarrow> (\<And>t. inside w t \<longleftrightarrow> a = Some t) \<Longrightarrow> agrees w"
  by (auto simp: agrees_def)

lemma start_agrees: "agrees (guarded_start init d)"
  by (rule agreesI [where a = None]) (auto simp: guarded_start_def inside_def init_free)

lemma acquire_agrees:
  assumes "agrees w" "\<not> inside w t" "acquire t (lk w) = Proceeds m" "m_locked g"
  shows "agrees (w\<lparr>lk := m, guards := (guards w)(t := Some g)\<rparr>)"
proof -
  obtain a where a: "owner (lk w) a" "\<And>u. inside w u \<longleftrightarrow> a = Some u"
    using assms(1) by (auto simp: agrees_def)
  have "a = None"
    using a assms(2,3) acquire_taken by (cases a) auto
  then have "owner m (Some t)" using a(1) acquire_free [of "lk w" t] assms(3) by auto
  then show ?thesis
    using a(2) \<open>a = None\<close> assms(4) by (intro agreesI [where a = "Some t"]) (auto simp: inside_def)
qed

lemma release_agrees:
  assumes "agrees w" "inside w t" "release t (lk w) = Proceeds m" "case g of None \<Rightarrow> True | Some h \<Rightarrow> \<not> m_locked h"
  shows "agrees (w\<lparr>lk := m, guards := (guards w)(t := g)\<rparr>)"
proof -
  obtain a where a: "owner (lk w) a" "\<And>u. inside w u \<longleftrightarrow> a = Some u"
    using assms(1) by (auto simp: agrees_def)
  have "a = Some t" using a(2) assms(2) by simp
  then have "owner m None" using a(1) release_own [of "lk w" t] assms(3) by auto
  moreover have "\<not> inside w u" if "u \<noteq> t" for u using a(2) [of u] \<open>a = Some t\<close> that by auto
  ultimately show ?thesis
    using assms(4) by (intro agreesI [where a = None]) (auto simp: inside_def split: option.splits)
qed

lemma same_agrees:
  assumes "agrees w" "\<And>t. inside w' t \<longleftrightarrow> inside w t" "lk w' = lk w"
  shows "agrees w'"
  using assms by (simp add: agrees_def)

lemma step_agrees: "guard_step acquire release t w w' \<Longrightarrow> agrees w \<Longrightarrow> agrees w'"
proof (induction rule: guard_step.induct)
  case (construct w t m g)
  then show ?case
    by (auto simp: guard_defs lmap_eq_Proceeds inside_def intro!: acquire_agrees)
next
  case (relock w t g m g')
  show ?case
  proof (cases "m_locked g")
    case True
    then show ?thesis using relock by (auto simp: guard_defs inside_def elim!: same_agrees split: if_splits)
  next
    case False
    then show ?thesis
      using relock by (auto simp: guard_defs lmap_eq_Proceeds inside_def intro!: acquire_agrees)
  qed
next
  case (unlock w t g m g')
  show ?case
  proof (cases "m_locked g")
    case True
    then show ?thesis
      using unlock by (auto simp: guard_defs lmap_eq_Proceeds inside_def intro!: release_agrees)
  next
    case False
    then show ?thesis using unlock by (auto simp: guard_defs inside_def elim!: same_agrees split: if_splits)
  qed
next
  case (destruct w t g m)
  show ?case
  proof (cases "m_locked g")
    case True
    then show ?thesis
      using destruct by (auto simp: guard_defs lmap_eq_Proceeds inside_def intro!: release_agrees)
  next
    case False
    then show ?thesis using destruct by (auto simp: guard_defs inside_def elim!: same_agrees split: if_splits)
  qed
next
  case (access w t g d)
  show ?case by (rule same_agrees [OF access(3)]) (simp_all add: inside_def)
qed

lemma run_agrees:
  assumes "guard_reach acquire release (guarded_start init d) w"
  shows "agrees w"
  using assms unfolding guard_reach_def
  by (induction rule: rtranclp_induct) (auto intro: start_agrees step_agrees)

lemma agrees_one_inside: "agrees w \<Longrightarrow> inside w t \<Longrightarrow> inside w u \<Longrightarrow> t = u"
  by (auto simp: agrees_def)

lemma agrees_defined:
  assumes "agrees w"
  shows "\<not> call_undefined acquire release t w"
proof -
  obtain a where a: "owner (lk w) a" "\<And>u. inside w u \<longleftrightarrow> a = Some u"
    using assms by (auto simp: agrees_def)
  have acq: "acquire t (lk w) \<noteq> Undefined" if "\<not> inside w t"
    using a that acquire_free [of "lk w" t] acquire_taken [of "lk w" _ t] by (cases a) auto
  have rel: "release t (lk w) \<noteq> Undefined" if "inside w t"
    using a that release_own [of "lk w" t] by auto
  show ?thesis
    using acq rel by (auto simp: call_undefined_def guard_defs inside_def split: option.splits)
qed

lemma agrees_free_enters:
  assumes "agrees w" "\<And>u. \<not> inside w u" "guards w t = None"
  shows "\<exists>w'. guard_step acquire release t w w' \<and> inside w' t"
proof -
  obtain a where "owner (lk w) a" "\<And>u. inside w u \<longleftrightarrow> a = Some u"
    using assms(1) by (auto simp: agrees_def)
  then have "owner (lk w) None" using assms(2) by (cases a) auto
  then obtain m where "acquire t (lk w) = Proceeds m" using acquire_free by blast
  then have "ScopedLock_ctor acquire t (lk w) = Proceeds (m, \<lparr>m_locked = True\<rparr>)"
    by (simp add: guard_defs)
  from guard_step.construct [where release = release, OF assms(3) this] show ?thesis
    by (intro exI conjI) (assumption, simp add: inside_def)
qed

lemma agrees_leaves:
  assumes "agrees w" "guards w t = Some g"
  shows "\<exists>w'. guard_step acquire release t w w' \<and> guards w' t = None"
proof -
  have "\<exists>m. ScopedLock_dtor release t (lk w) g = Proceeds m"
  proof (cases "m_locked g")
    case True
    then have "inside w t" using assms(2) by (simp add: inside_def)
    then have "owner (lk w) (Some t)" using assms(1) by (auto simp: agrees_def)
    then obtain m where "release t (lk w) = Proceeds m" using release_own by blast
    then show ?thesis using True by (simp add: guard_defs)
  qed (simp add: guard_defs)
  then obtain m where "ScopedLock_dtor release t (lk w) g = Proceeds m" ..
  from guard_step.destruct [where acquire = acquire, OF assms(2) this] show ?thesis
    by (intro exI conjI) (assumption, simp)
qed

end

interpretation pthread_mutex: lockable Mutex_lock Mutex_unlock Mutex_init "(=)"
  by unfold_locales (auto simp: Mutex_lock_def Mutex_unlock_def Mutex_init_def)

interpretation spin_mutex: lockable SpinMutex_lock SpinMutex_unlock SpinMutex_init
  "\<lambda>m a. m = (case a of None \<Rightarrow> Spin_free | Some t \<Rightarrow> Spin_held t)"
  by unfold_locales (auto simp: SpinMutex_lock_def SpinMutex_unlock_def SpinMutex_init_def)

interpretation cas_mutex: lockable CASMutex_lock CASMutex_unlock CASMutex_init
  "\<lambda>flag a. flag = (a \<noteq> None)"
  by unfold_locales
    (auto simp: CASMutex_lock_def CASMutex_unlock_def CASMutex_init_def test_and_set_def)

text \<open>
  What a mutex owes its guards, over all runs: no call is undefined, at most one thread is inside,
  a thread may enter when nobody is inside, and a guard can always be destroyed.
\<close>

definition guards_ok ::
  "(int \<Rightarrow> 's \<Rightarrow> 's lock_call) \<Rightarrow> (int \<Rightarrow> 's \<Rightarrow> 's lock_call) \<Rightarrow> ('s, 'd) guarded \<Rightarrow> bool"
where
  "guards_ok acquire release w \<longleftrightarrow>
     (\<forall>t. \<not> call_undefined acquire release t w) \<and>
     (\<forall>t u. inside w t \<longrightarrow> inside w u \<longrightarrow> t = u) \<and>
     (\<forall>t. (\<forall>u. \<not> inside w u) \<longrightarrow> guards w t = None \<longrightarrow>
        (\<exists>w'. guard_step acquire release t w w' \<and> inside w' t)) \<and>
     (\<forall>t. guards w t \<noteq> None \<longrightarrow> (\<exists>w'. guard_step acquire release t w w' \<and> guards w' t = None))"

context lockable
begin

lemma agrees_guards_ok: "agrees w \<Longrightarrow> guards_ok acquire release w"
  unfolding guards_ok_def
  using agrees_one_inside agrees_defined agrees_free_enters agrees_leaves by blast

lemma run_guards_ok:
  "guard_reach acquire release (guarded_start init d) w \<Longrightarrow> guards_ok acquire release w"
  by (rule agrees_guards_ok [OF run_agrees])

end

lemma two_test_guards:
  "\<exists>w. guard_reach TestMutex_lock TestMutex_unlock (guarded_start () d) w \<and> inside w 1 \<and> inside w 2"
proof -
  let ?g = "\<lparr>m_locked = True\<rparr>"
  let ?w0 = "guarded_start () d"
  let ?w1 = "?w0\<lparr>lk := (), guards := (guards ?w0)(1 := Some ?g)\<rparr>"
  let ?w2 = "?w1\<lparr>lk := (), guards := (guards ?w1)(2 := Some ?g)\<rparr>"
  have c: "ScopedLock_ctor TestMutex_lock t m = Proceeds ((), ?g)" for t m
    by (simp add: guard_defs TestMutex_lock_def)
  have "guard_step TestMutex_lock TestMutex_unlock 1 ?w0 ?w1"
    by (rule guard_step.construct [OF _ c]) (simp add: guarded_start_def)
  moreover have "guard_step TestMutex_lock TestMutex_unlock 2 ?w1 ?w2"
    by (rule guard_step.construct [OF _ c]) (simp add: guarded_start_def)
  ultimately have "guard_reach TestMutex_lock TestMutex_unlock ?w0 ?w2"
    unfolding guard_reach_def by (metis (mono_tags, lifting) rtranclp.simps)
  moreover have "inside ?w2 1" "inside ?w2 2" by (simp_all add: inside_def)
  ultimately show ?thesis by blast
qed

text \<open>C24. The guards of the three mutexes of the library exclude each other. In every run in
  which threads build, relock, unlock and destroy scoped guards on a \<open>Mutex\<close>, a \<open>SpinMutex\<close> or a
  \<open>CASMutex\<close>, no call on the lock is undefined (no second unlock by the destructor after an early
  unlock), at most one thread is inside, a thread enters when nobody is inside, and every guard can
  be destroyed. The do-nothing \<open>TestMutex\<close> lets two threads in.\<close>

theorem guards_exclude:
  "(\<forall>w. guard_reach Mutex_lock Mutex_unlock (guarded_start Mutex_init d) w \<longrightarrow>
        guards_ok Mutex_lock Mutex_unlock w) \<and>
   (\<forall>w. guard_reach SpinMutex_lock SpinMutex_unlock (guarded_start SpinMutex_init d) w \<longrightarrow>
        guards_ok SpinMutex_lock SpinMutex_unlock w) \<and>
   (\<forall>w. guard_reach CASMutex_lock CASMutex_unlock (guarded_start CASMutex_init d) w \<longrightarrow>
        guards_ok CASMutex_lock CASMutex_unlock w) \<and>
   (\<exists>w. guard_reach TestMutex_lock TestMutex_unlock (guarded_start () d) w \<and>
        inside w 1 \<and> inside w 2)"
  by (intro conjI allI impI)
    (rule pthread_mutex.run_guards_ok spin_mutex.run_guards_ok cas_mutex.run_guards_ok
      two_test_guards, assumption?)+

definition thread1_inside :: "(mutex, int) guarded" where
  "thread1_inside = \<lparr>lk = Some 1, data = 0, guards = (\<lambda>_. None)(1 := Some \<lparr>m_locked = True\<rparr>)\<rparr>"

lemma thread1_gets_inside:
  "guard_reach Mutex_lock Mutex_unlock (guarded_start Mutex_init 0) thread1_inside"
proof -
  have "guard_step Mutex_lock Mutex_unlock 1 (guarded_start Mutex_init 0) thread1_inside"
    using guard_step.construct [of "guarded_start Mutex_init (0 :: int)" 1 Mutex_lock "Some 1"
        "\<lparr>m_locked = True\<rparr>" Mutex_unlock]
    by (simp add: guarded_start_def guard_defs Mutex_lock_def Mutex_init_def thread1_inside_def)
  then show ?thesis unfolding guard_reach_def by (intro r_into_rtranclp) blast
qed

theorem guards_exclude_witness:
  "guard_reach Mutex_lock Mutex_unlock (guarded_start Mutex_init 0) thread1_inside \<and>
   inside thread1_inside 1 \<and> guards_ok Mutex_lock Mutex_unlock thread1_inside"
proof -
  have "guards_ok Mutex_lock Mutex_unlock thread1_inside"
    using guards_exclude [of 0] thread1_gets_inside by blast
  then show ?thesis using thread1_gets_inside by (simp add: inside_def thread1_inside_def)
qed

section \<open>The read-write mutex and its guards\<close>

text \<open>
  A thread may hold the lock for reading several times, so readers are counted. Asking for either
  lock while holding it for writing deadlocks or fails with an error the code ignores: the model
  calls it undefined. A writer that holds the lock for reading waits for itself.
\<close>

record rwmutex =
  rw_readers :: "int multiset"
  rw_writer :: "int option"

definition RWMutex_init :: rwmutex where
  "RWMutex_init = \<lparr>rw_readers = {#}, rw_writer = None\<rparr>"

definition RWMutex_rdlock :: "int \<Rightarrow> rwmutex \<Rightarrow> rwmutex lock_call" where
  "RWMutex_rdlock t m =
     (case rw_writer m of
        None \<Rightarrow> Proceeds (m\<lparr>rw_readers := add_mset t (rw_readers m)\<rparr>)
      | Some u \<Rightarrow> if u = t then Undefined else Blocks)"

definition RWMutex_wrlock :: "int \<Rightarrow> rwmutex \<Rightarrow> rwmutex lock_call" where
  "RWMutex_wrlock t m =
     (case rw_writer m of
        None \<Rightarrow> if rw_readers m = {#} then Proceeds (m\<lparr>rw_writer := Some t\<rparr>) else Blocks
      | Some u \<Rightarrow> if u = t then Undefined else Blocks)"

definition RWMutex_unlock :: "int \<Rightarrow> rwmutex \<Rightarrow> rwmutex lock_call" where
  "RWMutex_unlock t m =
     (if rw_writer m = Some t then Proceeds (m\<lparr>rw_writer := None\<rparr>)
      else if t \<in># rw_readers m then Proceeds (m\<lparr>rw_readers := rw_readers m - {#t#}\<rparr>)
      else Undefined)"

text \<open>\<open>ReadScopedLockImpl\<close> and \<open>WriteScopedLockImpl\<close> are the guard at \<open>rdlock\<close> and at \<open>wrlock\<close>.\<close>

definition ReadScopedLock_ctor :: "int \<Rightarrow> rwmutex \<Rightarrow> (rwmutex \<times> scoped_lock) lock_call" where
  "ReadScopedLock_ctor t m = lmap (\<lambda>m'. (m', \<lparr>m_locked = True\<rparr>)) (RWMutex_rdlock t m)"

definition ReadScopedLock_lock :: "int \<Rightarrow> rwmutex \<Rightarrow> scoped_lock \<Rightarrow> (rwmutex \<times> scoped_lock) lock_call" where
  "ReadScopedLock_lock t m g =
     (if \<not> m_locked g then lmap (\<lambda>m'. (m', g\<lparr>m_locked := True\<rparr>)) (RWMutex_rdlock t m)
      else Proceeds (m, g))"

definition ReadScopedLock_unlock :: "int \<Rightarrow> rwmutex \<Rightarrow> scoped_lock \<Rightarrow> (rwmutex \<times> scoped_lock) lock_call" where
  "ReadScopedLock_unlock t m g =
     (if m_locked g then lmap (\<lambda>m'. (m', g\<lparr>m_locked := False\<rparr>)) (RWMutex_unlock t m)
      else Proceeds (m, g))"

definition ReadScopedLock_dtor :: "int \<Rightarrow> rwmutex \<Rightarrow> scoped_lock \<Rightarrow> rwmutex lock_call" where
  "ReadScopedLock_dtor t m g = lmap fst (ReadScopedLock_unlock t m g)"

definition WriteScopedLock_ctor :: "int \<Rightarrow> rwmutex \<Rightarrow> (rwmutex \<times> scoped_lock) lock_call" where
  "WriteScopedLock_ctor t m = lmap (\<lambda>m'. (m', \<lparr>m_locked = True\<rparr>)) (RWMutex_wrlock t m)"

definition WriteScopedLock_lock :: "int \<Rightarrow> rwmutex \<Rightarrow> scoped_lock \<Rightarrow> (rwmutex \<times> scoped_lock) lock_call" where
  "WriteScopedLock_lock t m g =
     (if \<not> m_locked g then lmap (\<lambda>m'. (m', g\<lparr>m_locked := True\<rparr>)) (RWMutex_wrlock t m)
      else Proceeds (m, g))"

definition WriteScopedLock_unlock :: "int \<Rightarrow> rwmutex \<Rightarrow> scoped_lock \<Rightarrow> (rwmutex \<times> scoped_lock) lock_call" where
  "WriteScopedLock_unlock t m g =
     (if m_locked g then lmap (\<lambda>m'. (m', g\<lparr>m_locked := False\<rparr>)) (RWMutex_unlock t m)
      else Proceeds (m, g))"

definition WriteScopedLock_dtor :: "int \<Rightarrow> rwmutex \<Rightarrow> scoped_lock \<Rightarrow> rwmutex lock_call" where
  "WriteScopedLock_dtor t m g = lmap fst (WriteScopedLock_unlock t m g)"

lemmas rw_guard_defs =
  ReadScopedLock_ctor_def ReadScopedLock_lock_def ReadScopedLock_unlock_def ReadScopedLock_dtor_def
  WriteScopedLock_ctor_def WriteScopedLock_lock_def WriteScopedLock_unlock_def
  WriteScopedLock_dtor_def

datatype rw_guard = RLock scoped_lock | WLock scoped_lock

record 'd rw_world =
  rw_lock :: rwmutex
  rw_data :: 'd
  rw_guards :: "int \<Rightarrow> rw_guard option"

definition rw_start :: "'d \<Rightarrow> 'd rw_world" where
  "rw_start d = \<lparr>rw_lock = RWMutex_init, rw_data = d, rw_guards = \<lambda>_. None\<rparr>"

fun read_locked :: "rw_guard option \<Rightarrow> bool" where
  "read_locked (Some (RLock g)) = m_locked g"
| "read_locked _ = False"

fun write_locked :: "rw_guard option \<Rightarrow> bool" where
  "write_locked (Some (WLock g)) = m_locked g"
| "write_locked _ = False"

abbreviation reading :: "'d rw_world \<Rightarrow> int \<Rightarrow> bool" where
  "reading w t \<equiv> read_locked (rw_guards w t)"

abbreviation writing :: "'d rw_world \<Rightarrow> int \<Rightarrow> bool" where
  "writing w t \<equiv> write_locked (rw_guards w t)"

text \<open>The calls a thread may make on its guard: what they give, and the guard after them.\<close>

datatype rw_call = Make_r | Make_w | Again | Early | Destroy

fun rw_do :: "rw_call \<Rightarrow> int \<Rightarrow> rwmutex \<Rightarrow> rw_guard option \<Rightarrow> (rwmutex \<times> rw_guard option) lock_call option"
where
  "rw_do Make_r t m None = Some (lmap (map_prod id (Some \<circ> RLock)) (ReadScopedLock_ctor t m))"
| "rw_do Make_w t m None = Some (lmap (map_prod id (Some \<circ> WLock)) (WriteScopedLock_ctor t m))"
| "rw_do Again t m (Some (RLock g)) = Some (lmap (map_prod id (Some \<circ> RLock)) (ReadScopedLock_lock t m g))"
| "rw_do Again t m (Some (WLock g)) = Some (lmap (map_prod id (Some \<circ> WLock)) (WriteScopedLock_lock t m g))"
| "rw_do Early t m (Some (RLock g)) = Some (lmap (map_prod id (Some \<circ> RLock)) (ReadScopedLock_unlock t m g))"
| "rw_do Early t m (Some (WLock g)) = Some (lmap (map_prod id (Some \<circ> WLock)) (WriteScopedLock_unlock t m g))"
| "rw_do Destroy t m (Some (RLock g)) = Some (lmap (\<lambda>m'. (m', None)) (ReadScopedLock_dtor t m g))"
| "rw_do Destroy t m (Some (WLock g)) = Some (lmap (\<lambda>m'. (m', None)) (WriteScopedLock_dtor t m g))"
| "rw_do _ t m _ = None"

inductive rw_step :: "int \<Rightarrow> 'd rw_world \<Rightarrow> 'd rw_world \<Rightarrow> bool" where
  rw_call: "rw_do c t (rw_lock w) (rw_guards w t) = Some (Proceeds (m, g)) \<Longrightarrow>
    rw_step t w (w\<lparr>rw_lock := m, rw_guards := (rw_guards w)(t := g)\<rparr>)"
| rw_access: "writing w t \<Longrightarrow> rw_step t w (w\<lparr>rw_data := d\<rparr>)"

definition rw_reach :: "'d rw_world \<Rightarrow> 'd rw_world \<Rightarrow> bool" where
  "rw_reach = (\<lambda>w w'. \<exists>t. rw_step t w w')\<^sup>*\<^sup>*"

definition rw_inv :: "'d rw_world \<Rightarrow> bool" where
  "rw_inv w \<longleftrightarrow>
     (\<forall>t. rw_writer (rw_lock w) = Some t \<longleftrightarrow> writing w t) \<and>
     (\<forall>t. count (rw_readers (rw_lock w)) t = (if reading w t then 1 else 0)) \<and>
     (rw_writer (rw_lock w) \<noteq> None \<longrightarrow> rw_readers (rw_lock w) = {#})"

text \<open>A call on a guard does nothing to the lock, or acquires it, or gives it back.\<close>

lemma rw_do_cases:
  assumes "rw_do c t m og = Some (Proceeds (m', g))"
  obtains (same) "m' = m" "read_locked g = read_locked og" "write_locked g = write_locked og"
  | (rd) "RWMutex_rdlock t m = Proceeds m'" "\<not> read_locked og" "\<not> write_locked og"
      "read_locked g" "\<not> write_locked g"
  | (wr) "RWMutex_wrlock t m = Proceeds m'" "\<not> read_locked og" "\<not> write_locked og"
      "write_locked g" "\<not> read_locked g"
  | (rel) "RWMutex_unlock t m = Proceeds m'" "read_locked og \<or> write_locked og"
      "\<not> read_locked g" "\<not> write_locked g"
  using assms
  by (cases "(c, t, m, og)" rule: rw_do.cases)
    (auto simp: rw_guard_defs lmap_eq_Proceeds split: if_splits)

lemma rw_start_inv: "rw_inv (rw_start d)"
  by (simp add: rw_inv_def rw_start_def RWMutex_init_def)

lemma rw_inv_exclusive:
  assumes "rw_inv w" "writing w t" "reading w u \<or> writing w u"
  shows "t = u"
proof -
  have wt: "rw_writer (rw_lock w) = Some t" using assms(1,2) by (simp add: rw_inv_def)
  then have "count (rw_readers (rw_lock w)) u = 0" using assms(1) by (simp add: rw_inv_def)
  then have "\<not> reading w u" using assms(1) unfolding rw_inv_def by (metis zero_neq_one)
  then have "rw_writer (rw_lock w) = Some u" using assms(1,3) by (simp add: rw_inv_def)
  then show ?thesis using wt by simp
qed

lemma rw_call_inv:
  assumes "rw_do c t (rw_lock w) (rw_guards w t) = Some (Proceeds (m, g))" "rw_inv w"
  shows "rw_inv (w\<lparr>rw_lock := m, rw_guards := (rw_guards w)(t := g)\<rparr>)"
  using assms(1)
proof (cases rule: rw_do_cases)
  case same
  then show ?thesis using assms(2) by (auto simp: rw_inv_def)
next
  case rd
  then show ?thesis using assms(2)
    by (auto simp: rw_inv_def RWMutex_rdlock_def count_eq_zero_iff split: option.splits if_splits)
next
  case wr
  then show ?thesis using assms(2)
    by (auto simp: rw_inv_def RWMutex_wrlock_def split: option.splits if_splits)
next
  case rel
  show ?thesis
  proof (cases "writing w t")
    case True
    have "\<not> writing w u" if "u \<noteq> t" for u
      using assms(2) True that unfolding rw_inv_def by (metis option.inject)
    moreover have "\<not> reading w u" if "u \<noteq> t" for u
      using assms(2) True that rw_inv_exclusive by blast
    ultimately show ?thesis
      using rel assms(2) True by (auto simp: rw_inv_def RWMutex_unlock_def)
  next
    case False
    then show ?thesis using rel assms(2)
      by (auto simp: rw_inv_def RWMutex_unlock_def split: if_splits) (metis not_in_iff)
  qed
qed

lemma rw_step_inv: "rw_step t w w' \<Longrightarrow> rw_inv w \<Longrightarrow> rw_inv w'"
  by (induction rule: rw_step.induct) (auto intro: rw_call_inv, simp add: rw_inv_def)

lemma rw_reach_inv: "rw_reach (rw_start d) w \<Longrightarrow> rw_inv w"
  unfolding rw_reach_def
  by (induction rule: rtranclp_induct) (auto intro: rw_start_inv rw_step_inv)

lemma rw_inv_defined: "rw_inv w \<Longrightarrow> rw_do c t (rw_lock w) (rw_guards w t) \<noteq> Some Undefined"
proof -
  assume inv: "rw_inv w"
  have rd: "RWMutex_rdlock t (rw_lock w) \<noteq> Undefined" "RWMutex_wrlock t (rw_lock w) \<noteq> Undefined"
    if "\<not> writing w t"
    using inv that by (auto simp: rw_inv_def RWMutex_rdlock_def RWMutex_wrlock_def split: option.splits)
  have rel: "RWMutex_unlock t (rw_lock w) \<noteq> Undefined" if "reading w t \<or> writing w t"
    using inv that by (auto simp: rw_inv_def RWMutex_unlock_def count_eq_zero_iff [symmetric])
  show ?thesis
    using rd rel
    by (cases "(c, t, rw_lock w, rw_guards w t)" rule: rw_do.cases) (auto simp: rw_guard_defs)
qed

text \<open>What a thread that holds either guard sees does not move under it.\<close>

lemma rw_other_step:
  assumes "rw_step u w w'" "u \<noteq> t" "rw_inv w" "reading w t \<or> writing w t"
  shows "rw_guards w' t = rw_guards w t \<and> rw_data w' = rw_data w"
  using assms
proof (induction rule: rw_step.induct)
  case (rw_access w u d)
  then show ?case using rw_inv_exclusive by blast
qed simp

lemma rw_others_run:
  assumes "(\<lambda>w w'. \<exists>u. u \<noteq> t \<and> rw_step u w w')\<^sup>*\<^sup>* w w'" "rw_inv w" "reading w t \<or> writing w t"
  shows "rw_inv w' \<and> rw_guards w' t = rw_guards w t \<and> rw_data w' = rw_data w"
  using assms(1)
proof (induction rule: rtranclp_induct)
  case (step y z)
  then obtain u where "u \<noteq> t" "rw_step u y z" by blast
  then show ?case using step.IH rw_other_step [of u y z t] rw_step_inv assms(3) by auto
qed (simp add: assms)

text \<open>C23. The guards of the read-write mutex make sections. In every run of threads over read and
  write guards of one \<open>RWMutex\<close>, no call of a guard on the lock is undefined; while a thread holds a
  write guard no other thread holds a guard; and while a thread holds either guard, whatever the
  other threads do, its guard stays as it is and the protected data does not change.\<close>

theorem rw_sections:
  assumes "rw_reach (rw_start d) w"
  shows "(\<forall>c t. rw_do c t (rw_lock w) (rw_guards w t) \<noteq> Some Undefined) \<and>
    (\<forall>t u. writing w t \<longrightarrow> reading w u \<or> writing w u \<longrightarrow> t = u) \<and>
    (\<forall>t w'. reading w t \<or> writing w t \<longrightarrow>
       (\<lambda>w w'. \<exists>u. u \<noteq> t \<and> rw_step u w w')\<^sup>*\<^sup>* w w' \<longrightarrow>
       rw_guards w' t = rw_guards w t \<and> rw_data w' = rw_data w)"
proof (intro conjI allI impI)
  note inv = rw_reach_inv [OF assms]
  show "rw_do c t (rw_lock w) (rw_guards w t) \<noteq> Some Undefined" for c t
    by (rule rw_inv_defined [OF inv])
  show "t = u" if "writing w t" "reading w u \<or> writing w u" for t u
    by (rule rw_inv_exclusive [OF inv that])
  fix t w'
  assume "reading w t \<or> writing w t" "(\<lambda>w w'. \<exists>u. u \<noteq> t \<and> rw_step u w w')\<^sup>*\<^sup>* w w'"
  from rw_others_run [OF this(2) inv this(1)]
  show "rw_guards w' t = rw_guards w t" "rw_data w' = rw_data w" by simp_all
qed

definition two_readers :: "int rw_world" where
  "two_readers = \<lparr>rw_lock = \<lparr>rw_readers = {#1, 2#}, rw_writer = None\<rparr>, rw_data = 7,
     rw_guards = (\<lambda>_. None)(1 := Some (RLock \<lparr>m_locked = True\<rparr>),
                            2 := Some (RLock \<lparr>m_locked = True\<rparr>))\<rparr>"

lemma two_readers_reached: "rw_reach (rw_start 7) two_readers"
proof -
  let ?g = "Some (RLock \<lparr>m_locked = True\<rparr>)"
  let ?w0 = "rw_start (7 :: int)"
  let ?w1 = "?w0\<lparr>rw_lock := \<lparr>rw_readers = {#2#}, rw_writer = None\<rparr>,
                  rw_guards := (rw_guards ?w0)(2 := ?g)\<rparr>"
  let ?w2 = "?w1\<lparr>rw_lock := \<lparr>rw_readers = {#1, 2#}, rw_writer = None\<rparr>,
                  rw_guards := (rw_guards ?w1)(1 := ?g)\<rparr>"
  have a: "rw_step 2 ?w0 ?w1"
    by (rule rw_step.rw_call [of Make_r])
      (simp add: rw_start_def RWMutex_init_def rw_guard_defs RWMutex_rdlock_def)
  have b: "rw_step 1 ?w1 ?w2"
    by (rule rw_step.rw_call [of Make_r])
      (simp add: rw_start_def RWMutex_init_def rw_guard_defs RWMutex_rdlock_def)
  have c: "?w2 = two_readers"
    by (simp add: two_readers_def rw_start_def fun_upd_twist)
  have "rw_reach ?w0 ?w2"
    unfolding rw_reach_def by (rule rtranclp_trans; rule r_into_rtranclp, rule exI) (rule a, rule b)
  then show ?thesis by (simp only: c)
qed

theorem rw_sections_witness:
  "rw_reach (rw_start 7) two_readers \<and> reading two_readers 1 \<and> reading two_readers 2 \<and>
   rw_do Make_w 3 (rw_lock two_readers) (rw_guards two_readers 3) \<noteq> Some Undefined"
proof -
  have "reading two_readers 1" "reading two_readers 2"
    by (simp_all add: two_readers_def)
  moreover have "rw_do Make_w 3 (rw_lock two_readers) (rw_guards two_readers 3) \<noteq> Some Undefined"
    by (rule rw_sections [OF two_readers_reached, THEN conjunct1, THEN spec, THEN spec])
  ultimately show ?thesis by (intro conjI two_readers_reached)
qed

end
