(* ===== verification/Threads.thy ===== *)
theory Threads
  imports Locks CStrings
begin

text \<open>
  \<open>src/Thread.h\<close>, \<open>src/Thread.cc\<close>: a thread object, its constructor that waits until the new thread has
  introduced itself, the entry function \<open>run\<close>, joining, detaching and the thread-local name. The
  creator and the new thread take turns, one statement each; the object may be gone when the new
  thread dereferences it, which is undefined.
\<close>

section \<open>The object and the thread-local variables\<close>

record 'c thread =
  th_tid :: int
  th_handle :: u64
  th_name :: string
  th_sem :: semaphore
  th_cb :: "'c option"

text \<open>
  \<open>tls_set\<close>: \<open>_local_thread\<close> points to the object (it is null before). \<open>sys_name\<close> is the name the kernel
  shows for the thread.
\<close>

record tls =
  tls_set :: bool
  tls_name :: string
  sys_name :: string

definition tls_start :: tls where
  "tls_start = \<lparr>tls_set = False, tls_name = ''UNKNOWN'', sys_name = []\<rparr>"

definition new_thread :: "'c option \<Rightarrow> string \<Rightarrow> 'c thread" where
  "new_thread cb name =
     \<lparr>th_tid = -1, th_handle = -1, th_name = (if name = [] then ''UNKNOWN'' else name),
      th_sem = 0, th_cb = cb\<rparr>"

datatype ctor_pc = Creating | Waiting | Constructed | Ctor_threw

datatype 'c run_pc =
    Not_created | Entered | Thread_set | Name_copied | Tid_stored | Name_told
  | Swapped "'c option" | Notified "'c option" | Called 'c

record 'c launch =
  obj :: "'c thread option"
  ctor :: ctor_pc
  running :: "'c run_pc"
  locals :: tls

definition launch_start :: "'c option \<Rightarrow> string \<Rightarrow> 'c launch" where
  "launch_start cb name =
     \<lparr>obj = Some (new_thread cb name), ctor = Creating, running = Not_created, locals = tls_start\<rparr>"

section \<open>The constructor\<close>

text \<open>
  \<open>ret\<close> and \<open>h\<close> are the result and the handle of \<open>pthread_create\<close>; \<open>intr\<close> says that a signal arrives
  while the creator waits. When the constructor throws, the object is gone.
\<close>

fun ctor_turn :: "int \<Rightarrow> u64 \<Rightarrow> bool \<Rightarrow> 'c launch \<Rightarrow> 'c launch lock_call" where
  "ctor_turn ret h intr w =
     (case (ctor w, obj w) of
        (Creating, Some th) \<Rightarrow>
          if ret \<noteq> 0 then Proceeds (w\<lparr>obj := None, ctor := Ctor_threw\<rparr>)
          else Proceeds (w\<lparr>obj := Some (th\<lparr>th_handle := h\<rparr>), ctor := Waiting, running := Entered\<rparr>)
      | (Waiting, Some th) \<Rightarrow>
          (case Semaphore_Wait intr (th_sem th) of
             Proceeds s \<Rightarrow> Proceeds (w\<lparr>obj := Some (th\<lparr>th_sem := s\<rparr>), ctor := Constructed\<rparr>)
           | Blocks \<Rightarrow> Blocks
           | Throws e \<Rightarrow> Proceeds (w\<lparr>obj := None, ctor := Ctor_threw\<rparr>)
           | Undefined \<Rightarrow> Undefined)
      | _ \<Rightarrow> Blocks)"

declare ctor_turn.simps [simp del]

section \<open>The entry function\<close>

text \<open>A statement that dereferences the object.\<close>

definition deref :: "'c launch \<Rightarrow> ('c thread \<Rightarrow> 'c launch lock_call) \<Rightarrow> 'c launch lock_call" where
  "deref w f = (case obj w of None \<Rightarrow> Undefined | Some th \<Rightarrow> f th)"

text \<open>\<open>k\<close> is what \<open>GetThreadId()\<close> gives in the new thread. Calling an empty function ends the process.\<close>

definition run_turn :: "int \<Rightarrow> 'c launch \<Rightarrow> 'c launch lock_call" where
  "run_turn k w =
     (case running w of
        Not_created \<Rightarrow> Blocks
      | Entered \<Rightarrow> Proceeds (w\<lparr>locals := (locals w)\<lparr>tls_set := True\<rparr>, running := Thread_set\<rparr>)
      | Thread_set \<Rightarrow> deref w (\<lambda>th.
          Proceeds (w\<lparr>locals := (locals w)\<lparr>tls_name := th_name th\<rparr>, running := Name_copied\<rparr>))
      | Name_copied \<Rightarrow> deref w (\<lambda>th.
          Proceeds (w\<lparr>obj := Some (th\<lparr>th_tid := k\<rparr>), running := Tid_stored\<rparr>))
      | Tid_stored \<Rightarrow> deref w (\<lambda>th.
          Proceeds (w\<lparr>locals := (locals w)\<lparr>sys_name := c_str (take 15 (th_name th))\<rparr>,
                      running := Name_told\<rparr>))
      | Name_told \<Rightarrow> deref w (\<lambda>th.
          Proceeds (w\<lparr>obj := Some (th\<lparr>th_cb := None\<rparr>), running := Swapped (th_cb th)\<rparr>))
      | Swapped f \<Rightarrow> deref w (\<lambda>th.
          (case Semaphore_Notify (th_sem th) of
             Proceeds s \<Rightarrow> Proceeds (w\<lparr>obj := Some (th\<lparr>th_sem := s\<rparr>), running := Notified f\<rparr>)
           | Blocks \<Rightarrow> Blocks | Throws e \<Rightarrow> Throws e | Undefined \<Rightarrow> Undefined))
      | Notified None \<Rightarrow> Throws 0
      | Notified (Some f) \<Rightarrow> Proceeds (w\<lparr>running := Called f\<rparr>)
      | Called f \<Rightarrow> Blocks)"

section \<open>Join, destructor, current name\<close>

datatype pthread_call = Pthread_join u64 | Pthread_detach u64

definition Thread_join :: "int \<Rightarrow> 'c thread \<Rightarrow> ('c thread \<times> pthread_call list) lock_call" where
  "Thread_join ret th =
     (if th_handle th \<noteq> 0
      then if ret \<noteq> 0 then Throws ret
           else Proceeds (th\<lparr>th_handle := 0\<rparr>, [Pthread_join (th_handle th)])
      else Proceeds (th, []))"

definition Thread_dtor :: "'c thread \<Rightarrow> pthread_call list" where
  "Thread_dtor th = (if th_handle th \<noteq> 0 then [Pthread_detach (th_handle th)] else [])"

definition Thread_getCurName :: "'c launch \<Rightarrow> string" where
  "Thread_getCurName w = tls_name (locals w)"

definition Thread_getThis :: "'c launch \<Rightarrow> bool" where
  "Thread_getThis w = tls_set (locals w)"

definition Thread_setCurName :: "string \<Rightarrow> 'c launch \<Rightarrow> 'c launch lock_call" where
  "Thread_setCurName name w =
     (if name = [] then Proceeds w
      else if tls_set (locals w) then deref w (\<lambda>th.
        Proceeds (w\<lparr>obj := Some (th\<lparr>th_name := name\<rparr>), locals := (locals w)\<lparr>tls_name := name\<rparr>\<rparr>))
      else Proceeds (w\<lparr>locals := (locals w)\<lparr>tls_name := name\<rparr>\<rparr>))"

text \<open>A handle is given to pthread once: joining again does nothing and nothing is left to detach.\<close>

lemma join_once:
  assumes "Thread_join 0 th = Proceeds (th', cs)"
  shows "Thread_join ret th' = Proceeds (th', []) \<and> Thread_dtor th' = [] \<and>
    cs = (if th_handle th = 0 then [] else [Pthread_join (th_handle th)])"
  using assms by (auto simp: Thread_join_def Thread_dtor_def split: if_splits)

section \<open>Turns of the two threads\<close>

text \<open>
  \<open>signals\<close>: a signal may arrive. The owner may destroy the object as soon as it is constructed.
\<close>

inductive launch_step :: "bool \<Rightarrow> int \<Rightarrow> u64 \<Rightarrow> 'c launch \<Rightarrow> 'c launch \<Rightarrow> bool"
  for signals :: bool and k :: int and h :: u64
where
  creator: "ctor_turn 0 h intr w = Proceeds w' \<Longrightarrow> intr \<longrightarrow> signals \<Longrightarrow> launch_step signals k h w w'"
| created: "run_turn k w = Proceeds w' \<Longrightarrow> launch_step signals k h w w'"
| destroy: "ctor w = Constructed \<Longrightarrow> obj w = Some th \<Longrightarrow> launch_step signals k h w (w\<lparr>obj := None\<rparr>)"

definition launch_reach :: "bool \<Rightarrow> int \<Rightarrow> u64 \<Rightarrow> 'c launch \<Rightarrow> 'c launch \<Rightarrow> bool" where
  "launch_reach signals k h = (launch_step signals k h)\<^sup>*\<^sup>*"

fun ctor_left :: "ctor_pc \<Rightarrow> nat" where
  "ctor_left Creating = 2" | "ctor_left Waiting = 1" | "ctor_left _ = 0"

fun run_left :: "'c run_pc \<Rightarrow> nat" where
  "run_left Not_created = 8" | "run_left Entered = 7" | "run_left Thread_set = 6"
| "run_left Name_copied = 5" | "run_left Tid_stored = 4" | "run_left Name_told = 3"
| "run_left (Swapped _) = 2" | "run_left (Notified _) = 1" | "run_left (Called _) = 0"

definition turns_left :: "'c launch \<Rightarrow> nat" where
  "turns_left w = ctor_left (ctor w) + run_left (running w) + (if obj w = None then 0 else 1)"

lemma ctor_turn_left: "ctor_turn ret h intr w = Proceeds w' \<Longrightarrow> running w = Not_created \<or> ctor w \<noteq> Creating \<Longrightarrow>
    turns_left w' < turns_left w"
  by (auto simp: ctor_turn.simps turns_left_def split: ctor_pc.splits option.splits if_splits lock_call.splits)

lemma run_turn_left: "run_turn k w = Proceeds w' \<Longrightarrow> turns_left w' < turns_left w"
  by (auto simp: run_turn_def deref_def turns_left_def
      split: run_pc.splits option.splits lock_call.splits)

text \<open>Where the two threads are, as long as no signal arrives.\<close>

definition introduced :: "int \<Rightarrow> u64 \<Rightarrow> string \<Rightarrow> 'c thread \<Rightarrow> bool" where
  "introduced k h name th \<longleftrightarrow> th_tid th = k \<and> th_handle th = h \<and> th_name th = name \<and> th_cb th = None"

fun launch_inv :: "'c \<Rightarrow> string \<Rightarrow> int \<Rightarrow> u64 \<Rightarrow> 'c launch \<Rightarrow> bool" where
  "launch_inv f name k h w =
     (case running w of
        Not_created \<Rightarrow> ctor w = Creating \<and>
          (\<exists>th. obj w = Some th \<and> th_name th = name \<and> th_cb th = Some f \<and> th_sem th = 0)
      | Swapped g \<Rightarrow> g = Some f \<and> ctor w = Waiting \<and>
          (\<exists>th. obj w = Some th \<and> introduced k h name th \<and> th_sem th = 0) \<and> tls_name (locals w) = name
      | Notified g \<Rightarrow> g = Some f \<and> tls_name (locals w) = name \<and>
          (\<exists>th. obj w = Some th \<and> introduced k h name th \<and> ctor w = Waiting \<and> th_sem th = 1
             \<or> (obj w = None \<or> obj w = Some th \<and> introduced k h name th) \<and> ctor w = Constructed)
      | Called g \<Rightarrow> g = f \<and> tls_name (locals w) = name \<and>
          (\<exists>th. obj w = Some th \<and> introduced k h name th \<and> ctor w = Waiting \<and> th_sem th = 1
             \<or> (obj w = None \<or> obj w = Some th \<and> introduced k h name th) \<and> ctor w = Constructed)
      | pc \<Rightarrow> ctor w = Waiting \<and>
          (\<exists>th. obj w = Some th \<and> th_name th = name \<and> th_cb th = Some f \<and> th_sem th = 0 \<and>
             th_handle th = h \<and> (pc = Tid_stored \<or> pc = Name_told \<longrightarrow> th_tid th = k)) \<and>
          (pc \<noteq> Entered \<and> pc \<noteq> Thread_set \<longrightarrow> tls_name (locals w) = name))"

declare launch_inv.simps [simp del]

lemma launch_step_inv:
  assumes "launch_step False k h w w'" "launch_inv f name k h w"
  shows "launch_inv f name k h w'"
  using assms
proof (induction rule: launch_step.induct)
  case (creator intr w w')
  then show ?case
    by (auto simp: launch_inv.simps ctor_turn.simps Semaphore_Wait_def introduced_def
        split: run_pc.splits ctor_pc.splits)
next
  case (created w w')
  then show ?case
    by (auto simp: launch_inv.simps run_turn_def deref_def Semaphore_Notify_def SEM_VALUE_MAX_def
        introduced_def split: run_pc.splits)
next
  case (destroy w th)
  then show ?case by (auto simp: launch_inv.simps split: run_pc.splits)
qed

lemma launch_start_inv:
  "launch_inv f (if name = [] then ''UNKNOWN'' else name) k h (launch_start (Some f) name)"
  by (simp add: launch_inv.simps launch_start_def new_thread_def)

lemma launch_reach_inv:
  assumes "launch_reach False k h (launch_start (Some f) name) w"
  shows "launch_inv f (if name = [] then ''UNKNOWN'' else name) k h w"
  using assms unfolding launch_reach_def
  by (induction rule: rtranclp_induct) (rule launch_start_inv, rule launch_step_inv)

lemma inv_defined:
  assumes "launch_inv f name k h w"
  shows "run_turn k w \<noteq> Undefined" and "ctor_turn 0 h intr w \<noteq> Undefined"
  using assms
  by (auto simp: launch_inv.simps run_turn_def deref_def Semaphore_Notify_def ctor_turn.simps
      Semaphore_Wait_def split: run_pc.splits option.splits ctor_pc.splits)

lemma inv_step_left:
  assumes "launch_step False k h w w'" "launch_inv f name k h w"
  shows "turns_left w' < turns_left w"
  using assms
proof (induction rule: launch_step.induct)
  case (creator intr w w')
  have "running w = Not_created \<or> ctor w \<noteq> Creating"
    using creator(3) by (auto simp: launch_inv.simps split: run_pc.splits)
  then show ?case using ctor_turn_left creator(1) by blast
next
  case (created w w')
  then show ?case using run_turn_left by blast
next
  case (destroy w th)
  then show ?case by (simp add: turns_left_def)
qed

lemma inv_ends:
  assumes "launch_inv f name k h w"
    and "\<nexists>w'. ctor_turn 0 h False w = Proceeds w'" "\<nexists>w'. run_turn k w = Proceeds w'"
  shows "ctor w = Constructed \<and> running w = Called f"
  using assms
  by (auto simp: launch_inv.simps run_turn_def deref_def Semaphore_Notify_def SEM_VALUE_MAX_def
      ctor_turn.simps Semaphore_Wait_def split: run_pc.splits)

lemma inv_constructed:
  assumes "launch_inv f name k h w" "ctor w = Constructed"
  shows "(running w = Notified (Some f) \<or> running w = Called f) \<and> Thread_getCurName w = name \<and>
    (\<forall>th. obj w = Some th \<longrightarrow> introduced k h name th)"
  using assms by (auto simp: launch_inv.simps Thread_getCurName_def split: run_pc.splits)

text \<open>C28. Starting a thread. When \<open>pthread_create\<close> succeeds and no signal arrives, in every
  interleaving of the constructor, the entry function and an owner that may destroy the object as
  soon as it is constructed: nothing undefined happens; when the constructor has returned, the object
  holds the kernel's thread id, the handle and the name (\<open>UNKNOWN\<close> for an empty one), its callback has
  moved into the new thread and the new thread's current name is set; every turn brings the end
  nearer, and when nobody can take a turn the constructor has returned and the callback is called.\<close>

theorem thread_started:
  fixes f :: 'c
  assumes "launch_reach False k h (launch_start (Some f) name) w"
  defines "name' \<equiv> if name = [] then ''UNKNOWN'' else name"
  shows "run_turn k w \<noteq> Undefined \<and> ctor_turn 0 h False w \<noteq> Undefined \<and>
    (ctor w = Constructed \<longrightarrow>
       (running w = Notified (Some f) \<or> running w = Called f) \<and> Thread_getCurName w = name' \<and>
       (\<forall>th. obj w = Some th \<longrightarrow> introduced k h name' th)) \<and>
    (\<forall>w'. launch_step False k h w w' \<longrightarrow> turns_left w' < turns_left w) \<and>
    ((\<nexists>w'. ctor_turn 0 h False w = Proceeds w') \<and> (\<nexists>w'. run_turn k w = Proceeds w') \<longrightarrow>
       ctor w = Constructed \<and> running w = Called f)"
proof -
  have inv: "launch_inv f name' k h w"
    using launch_reach_inv [OF assms(1)] by (simp add: name'_def)
  show ?thesis
    using inv_defined [OF inv] inv_step_left [OF _ inv] inv_ends [OF inv] inv_constructed [OF inv]
    by blast
qed

definition created_thread :: "nat launch" where
  "created_thread = (launch_start (Some 5) ''io'')
     \<lparr>obj := Some ((new_thread (Some 5) ''io'')\<lparr>th_handle := 9\<rparr>), ctor := Waiting, running := Entered\<rparr>"

lemma created_thread_reached: "launch_reach False 42 9 (launch_start (Some 5) ''io'') created_thread"
  unfolding launch_reach_def
  by (intro r_into_rtranclp, rule launch_step.creator [where intr = False])
    (simp_all add: ctor_turn.simps created_thread_def launch_start_def)

theorem thread_started_witness:
  "launch_reach False 42 9 (launch_start (Some 5) ''io'') created_thread \<and>
   ctor_turn 0 9 False created_thread \<noteq> Undefined \<and>
   (\<exists>w'. run_turn 42 created_thread = Proceeds w' \<and> turns_left w' < turns_left created_thread)"
proof -
  obtain w' where w: "run_turn 42 created_thread = Proceeds w'"
    by (simp add: run_turn_def created_thread_def)
  then have "launch_step False 42 9 created_thread w'" by (rule launch_step.created)
  then show ?thesis
    using thread_started [OF created_thread_reached] created_thread_reached w by blast
qed

text \<open>
  With signals the constructor may throw while the new thread is on its way: \<open>sem_wait\<close> returns
  \<open>EINTR\<close>, \<open>Semaphore::Wait\<close> throws, the object is destroyed and the entry function reads it. And a
  running callback that renames its thread writes to the object after the owner has destroyed it.
\<close>

lemma interrupted_start_undefined:
  "\<exists>w. launch_reach True k h (launch_start (Some f) name) w \<and> ctor w = Ctor_threw \<and>
     run_turn k w = Undefined"
proof -
  let ?w0 = "launch_start (Some f) name"
  let ?w1 = "?w0\<lparr>obj := Some ((new_thread (Some f) name)\<lparr>th_handle := h\<rparr>), ctor := Waiting,
               running := Entered\<rparr>"
  let ?w2 = "?w1\<lparr>obj := None, ctor := Ctor_threw\<rparr>"
  let ?w3 = "?w2\<lparr>locals := (locals ?w2)\<lparr>tls_set := True\<rparr>, running := Thread_set\<rparr>"
  have 1: "launch_step True k h ?w0 ?w1"
    by (rule launch_step.creator [where intr = False])
      (simp_all add: ctor_turn.simps launch_start_def)
  have 2: "launch_step True k h ?w1 ?w2"
    by (rule launch_step.creator [where intr = True])
      (simp_all add: ctor_turn.simps launch_start_def new_thread_def Semaphore_Wait_def)
  have 3: "launch_step True k h ?w2 ?w3"
    by (rule launch_step.created) (simp add: run_turn_def)
  have "launch_reach True k h ?w0 ?w3"
    unfolding launch_reach_def using 1 2 3 by (meson rtranclp.rtrancl_into_rtrancl rtranclp.rtrancl_refl)
  moreover have "ctor ?w3 = Ctor_threw" "run_turn k ?w3 = Undefined"
    by (simp_all add: run_turn_def deref_def)
  ultimately show ?thesis by blast
qed

lemma rename_after_destroy_undefined:
  assumes "obj w = None" "tls_set (locals w)" "name \<noteq> []"
  shows "Thread_setCurName name w = Undefined"
  using assms by (simp add: Thread_setCurName_def deref_def)

end
