(* ===== verification/UriSafety.thy ===== *)
theory UriSafety
  imports UriParsers
begin

text \<open>
  When \<open>Uri::Create\<close> is undefined. A certificate gives for each state of the automaton whether the mark
  may be null in it and whether the authority can have begun; a check of every jump against the
  certificate, which the simplifier computes over the whole table, makes it an invariant of all runs.
\<close>

section \<open>The certificate\<close>

text \<open>The states in which the mark may be null, and those before the authority.\<close>

definition null_states :: "int list" where
  "null_states = [3, 4, 5, 6, 451, 452, 453, 455, 456, 458, 459, 469, 509, 510, 511, 522]"

definition before_authority :: "int list" where
  "before_authority = [1, 2, 3, 4, 5, 6, 7, 8, 451, 452, 453, 454, 455, 456, 457, 458, 508, 509, 510]"

text \<open>The mark after some actions, from whether it may be null before; nothing if an action reads null.\<close>

fun mark_after :: "bool \<Rightarrow> uri_action list \<Rightarrow> bool option" where
  "mark_after b [] = Some b"
| "mark_after b (Set_mark # as) = mark_after False as"
| "mark_after b (Save_userinfo # as) = mark_after True as"
| "mark_after b (Save_host # as) = mark_after b as"
| "mark_after b (a # as) = (if b then None else mark_after True as)"

fun jump_ok :: "bool \<Rightarrow> bool \<Rightarrow> bool \<Rightarrow> int \<Rightarrow> int \<times> int \<times> uri_goto \<Rightarrow> bool" where
  "jump_ok null before colon n (lo, hi, g) \<longleftrightarrow>
     snd (follow g) = 0 \<or>
     (if before
      then snd (follow g) \<in> set before_authority \<or>
           lo = 47 \<and> hi = 47 \<and> (n = 510 \<or> n = 458)
      else True) \<and>
     (if snd (follow g) = 510 \<or> snd (follow g) = 458 then lo = 47 \<and> hi = 47 else True) \<and>
     (if snd (follow g) = 514 \<or> snd (follow g) = 521 then lo = 58 \<and> hi = 58 else True) \<and>
     (if colon \<and> lo = hi \<and> (lo = 47 \<or> lo = 63 \<or> lo = 35) then True
      else (case mark_after null (fst (follow g)) of
              None \<Rightarrow> False
            | Some b \<Rightarrow> if b then snd (follow g) \<in> set null_states else True))"

fun jumps_ok :: "bool \<Rightarrow> bool \<Rightarrow> bool \<Rightarrow> int \<Rightarrow> (int \<times> int \<times> uri_goto) list \<Rightarrow> bool" where
  "jumps_ok null before colon n [] \<longleftrightarrow> True"
| "jumps_ok null before colon n (j # js) \<longleftrightarrow>
     jump_ok null before colon n j \<and> jumps_ok null before colon n js"

fun code_ok :: "uri_code \<Rightarrow> bool" where
  "code_ok (Case n rows d) \<longleftrightarrow>
     jumps_ok (n \<in> set null_states) (n \<in> set before_authority) (n = 514 \<or> n = 521) n
       (rows @ [(-128, 127, d)])"
| "code_ok (Label n as t) \<longleftrightarrow> True"

lemmas check_simps = null_states_def before_authority_def follow_simps uri_code_defs

lemma table_ok_1:
  "list_all code_ok uri_code_1"
  "list_all code_ok uri_code_2"
  "list_all code_ok uri_code_3"
  "list_all code_ok uri_code_4"
  "list_all code_ok uri_code_5"
  "list_all code_ok uri_code_6"
  "list_all code_ok uri_code_7"
  by (simp_all add: check_simps)

lemma table_ok_2:
  "list_all code_ok uri_code_8"
  "list_all code_ok uri_code_9"
  "list_all code_ok uri_code_10"
  "list_all code_ok uri_code_11"
  "list_all code_ok uri_code_12"
  "list_all code_ok uri_code_13"
  "list_all code_ok uri_code_14"
  by (simp_all add: check_simps)

lemma table_ok_3:
  "list_all code_ok uri_code_15"
  "list_all code_ok uri_code_16"
  "list_all code_ok uri_code_17"
  "list_all code_ok uri_code_18"
  "list_all code_ok uri_code_19"
  "list_all code_ok uri_code_20"
  "list_all code_ok uri_code_21"
  by (simp_all add: check_simps)

lemma table_ok_4:
  "list_all code_ok uri_code_22"
  "list_all code_ok uri_code_23"
  "list_all code_ok uri_code_24"
  "list_all code_ok uri_code_25"
  "list_all code_ok uri_code_26"
  "list_all code_ok uri_code_27"
  "list_all code_ok uri_code_28"
  by (simp_all add: check_simps)

lemma table_ok_5:
  "list_all code_ok uri_code_29"
  "list_all code_ok uri_code_30"
  "list_all code_ok uri_code_31"
  "list_all code_ok uri_code_32"
  "list_all code_ok uri_code_33"
  "list_all code_ok uri_code_34"
  "list_all code_ok uri_code_35"
  by (simp_all add: check_simps)

lemma table_ok_6:
  "list_all code_ok uri_code_36"
  "list_all code_ok uri_code_37"
  "list_all code_ok uri_code_38"
  "list_all code_ok uri_code_39"
  "list_all code_ok uri_code_40"
  "list_all code_ok uri_code_41"
  "list_all code_ok uri_code_42"
  by (simp_all add: check_simps)

lemma table_ok_7:
  "list_all code_ok uri_code_43"
  "list_all code_ok uri_code_44"
  "list_all code_ok uri_code_45"
  "list_all code_ok uri_code_46"
  "list_all code_ok uri_code_47"
  "list_all code_ok uri_code_48"
  "list_all code_ok uri_code_49"
  by (simp_all add: check_simps)

lemma table_ok_8:
  "list_all code_ok uri_code_50"
  "list_all code_ok uri_code_51"
  "list_all code_ok uri_code_52"
  "list_all code_ok uri_code_53"
  "list_all code_ok uri_code_54"
  "list_all code_ok uri_code_55"
  "list_all code_ok uri_code_56"
  by (simp_all add: check_simps)

lemma table_ok_9:
  "list_all code_ok uri_code_57"
  "list_all code_ok uri_code_58"
  "list_all code_ok uri_code_59"
  "list_all code_ok uri_code_60"
  "list_all code_ok uri_code_61"
  "list_all code_ok uri_code_62"
  "list_all code_ok uri_code_63"
  by (simp_all add: check_simps)

lemma table_ok_10:
  "list_all code_ok uri_code_64"
  "list_all code_ok uri_code_65"
  "list_all code_ok uri_code_66"
  "list_all code_ok uri_code_67"
  "list_all code_ok uri_code_68"
  "list_all code_ok uri_code_69"
  "list_all code_ok uri_code_70"
  by (simp_all add: check_simps)

lemma table_ok: "list_all (list_all code_ok) uri_program"
  unfolding uri_program_def by (simp add: table_ok_1 table_ok_2 table_ok_3 table_ok_4 table_ok_5 table_ok_6 table_ok_7 table_ok_8 table_ok_9 table_ok_10)

lemma eof_ok:
  "list_all (\<lambda>(ss, as). list_all (\<lambda>s. if s = 514 \<or> s = 521 then True
     else mark_after (s \<in> set null_states) as \<noteq> None) ss) uri_eof"
  by (simp add: uri_eof_def null_states_def) blast

section \<open>The certificate is an invariant\<close>

lemma case_of_ok:
  assumes "list_all code_ok p" "case_of s p = Some (rows, d)"
  shows "code_ok (Case s rows d)"
  using assms
proof (induction s p rule: case_of.induct)
  case (2 s n rs d' p)
  show ?case
  proof (cases "n = s")
    case True
    then have "rows = rs" "d = d'" using 2(3) by simp_all
    then show ?thesis using 2(2) True by simp
  next
    case False
    then show ?thesis using 2 by simp
  qed
qed (simp_all del: code_ok.simps(1))

lemma find_case_ok:
  "list_all (list_all code_ok) ps \<Longrightarrow> find_first (case_of s) ps = Some (rows, d) \<Longrightarrow> code_ok (Case s rows d)"
  by (induction ps) (auto simp del: code_ok.simps split: option.splits intro: case_of_ok)

lemma pick_jump:
  "- 128 \<le> c \<Longrightarrow> c \<le> 127 \<Longrightarrow>
   \<exists>lo hi. (lo, hi, pick_goto rows d c) \<in> set (rows @ [(-128, 127, d)]) \<and> lo \<le> c \<and> c \<le> hi"
proof (induction rows d c rule: pick_goto.induct)
  case (2 lo hi g rows d c)
  show ?case
  proof (cases "lo \<le> c \<and> c \<le> hi")
    case False
    then obtain l h where "(l, h, pick_goto rows d c) \<in> set (rows @ [(-128, 127, d)])" "l \<le> c" "c \<le> h"
      using 2 by blast
    then show ?thesis using False by (intro exI [of _ l] exI [of _ h]) auto
  qed auto
qed auto

lemma jumps_okD: "jumps_ok null before colon n js \<Longrightarrow> j \<in> set js \<Longrightarrow> jump_ok null before colon n j"
  by (induction js) auto

lemma signed_char_range: "- 128 \<le> signed_char c" "signed_char c \<le> 127"
proof -
  have "code c < 256" by (simp add: code_def)
  then show "- 128 \<le> signed_char c" "signed_char c \<le> 127" by (auto simp: signed_char_def Let_def)
qed

text \<open>What the check says of an edge that the machine takes.\<close>

lemma edge_ok:
  assumes "uri_edge s (signed_char c) = (as, t)" "t \<noteq> 0"
  shows "(s \<in> set before_authority \<longrightarrow> t \<in> set before_authority \<or> signed_char c = 47 \<and> (s = 510 \<or> s = 458))"
    and "t = 510 \<or> t = 458 \<longrightarrow> signed_char c = 47"
    and "t = 514 \<or> t = 521 \<longrightarrow> signed_char c = 58"
    and "(s = 514 \<or> s = 521) \<and> (signed_char c = 47 \<or> signed_char c = 63 \<or> signed_char c = 35) \<or>
      (\<exists>b. mark_after (s \<in> set null_states) as = Some b \<and> (b \<longrightarrow> t \<in> set null_states))"
proof -
  obtain rows d where rd: "find_first (case_of s) uri_program = Some (rows, d)"
      "(as, t) = follow (pick_goto rows d (signed_char c))"
    using assms by (auto simp: uri_edge_def split: option.splits)
  obtain lo hi where j: "(lo, hi, pick_goto rows d (signed_char c)) \<in> set (rows @ [(-128, 127, d)])"
      "lo \<le> signed_char c" "signed_char c \<le> hi"
    using pick_jump [OF signed_char_range] by blast
  have "jump_ok (s \<in> set null_states) (s \<in> set before_authority) (s = 514 \<or> s = 521) s
      (lo, hi, pick_goto rows d (signed_char c))"
    using jumps_okD [OF _ j(1)] find_case_ok [OF table_ok rd(1)] by simp
  moreover have "fst (follow (pick_goto rows d (signed_char c))) = as" "snd (follow (pick_goto rows d (signed_char c))) = t"
    using rd(2) by (metis fst_conv, metis snd_conv)
  ultimately show "(s \<in> set before_authority \<longrightarrow> t \<in> set before_authority \<or> signed_char c = 47 \<and> (s = 510 \<or> s = 458))"
    "t = 510 \<or> t = 458 \<longrightarrow> signed_char c = 47"
    "t = 514 \<or> t = 521 \<longrightarrow> signed_char c = 58"
    "(s = 514 \<or> s = 521) \<and> (signed_char c = 47 \<or> signed_char c = 63 \<or> signed_char c = 35) \<or>
      (\<exists>b. mark_after (s \<in> set null_states) as = Some b \<and> (b \<longrightarrow> t \<in> set null_states))"
    using assms(2) j(2,3) by (auto split: if_splits option.splits)
qed

lemma acts_mark:
  assumes "mark_after b as = Some b'" "m = None \<longrightarrow> b"
  shows "(uri_acts tx p as (m, u) = None \<longrightarrow> (\<exists>n. c_atoi (drop n tx) = None)) \<and>
    (\<forall>m' u'. uri_acts tx p as (m, u) = Some (m', u') \<longrightarrow> m' = None \<longrightarrow> b')"
  using assms
  by (induction b as arbitrary: m u rule: mark_after.induct)
    (auto split: if_splits option.splits)

lemma eof_mark:
  assumes "s \<noteq> 514" "s \<noteq> 521"
  shows "mark_after (s \<in> set null_states) (eof_actions s) \<noteq> None"
proof -
  have "find_first (\<lambda>(ss, as). if s \<in> set ss then Some as else None) l = Some as \<Longrightarrow>
      list_all (\<lambda>(ss, as). list_all (\<lambda>s. if s = 514 \<or> s = 521 then True
        else mark_after (s \<in> set null_states) as \<noteq> None) ss) l \<Longrightarrow>
      mark_after (s \<in> set null_states) as \<noteq> None" for l as
    using assms by (induction l) (auto simp: list_all_iff split: if_splits)
  then show ?thesis using eof_ok by (auto simp: eof_actions_def split: option.splits)
qed

section \<open>Where a run is undefined\<close>

text \<open>An authority with a colon and no digit behind it.\<close>

definition empty_port :: "string \<Rightarrow> bool" where
  "empty_port tx \<longleftrightarrow> (\<exists>v w. tx = v @ '':'' @ w \<and> contains_list ''//'' v \<and>
     (w = [] \<or> hd w \<in> {CHR ''/'', CHR ''?'', CHR ''#''}))"

definition uri_inv :: "string \<Rightarrow> int \<Rightarrow> nat option \<Rightarrow> bool" where
  "uri_inv v s m \<longleftrightarrow> (m = None \<longrightarrow> s \<in> set null_states) \<and>
     (s \<in> set before_authority \<or> contains_list ''//'' v) \<and>
     (s = 510 \<or> s = 458 \<longrightarrow> (\<exists>x. v = x @ ''/'')) \<and>
     (s = 514 \<or> s = 521 \<longrightarrow> (\<exists>x. v = x @ '':''))"

lemma code_inj: "code c = code d \<longleftrightarrow> c = d"
  by (simp add: code_def)

lemma signed_char_inj: "signed_char c = signed_char d \<longleftrightarrow> c = d"
proof
  have "code c < 256" "code d < 256" by (simp_all add: code_def)
  moreover assume "signed_char c = signed_char d"
  ultimately have "code c = code d" by (simp add: signed_char_def Let_def split: if_splits)
  then show "c = d" by (simp add: code_inj)
qed simp

lemma signed_char_eqs:
  "signed_char c = 47 \<longleftrightarrow> c = CHR ''/''" "signed_char c = 58 \<longleftrightarrow> c = CHR '':''"
  "signed_char c = 63 \<longleftrightarrow> c = CHR ''?''" "signed_char c = 35 \<longleftrightarrow> c = CHR ''#''"
  using signed_char_inj [of c "CHR ''/''"] signed_char_inj [of c "CHR '':''"]
    signed_char_inj [of c "CHR ''?''"] signed_char_inj [of c "CHR ''#''"] by simp_all

lemma contains_slashes_butlast: "contains_list ''//'' (v @ '':'') \<Longrightarrow> contains_list ''//'' v"
proof -
  assume "contains_list ''//'' (v @ '':'')"
  then obtain x y where "v @ '':'' = x @ ''//'' @ y" by (auto simp: contains_list_iff)
  then obtain z where "v = x @ ''//'' @ z"
    by (cases y rule: rev_cases) (auto simp flip: append_assoc)
  then show ?thesis by (auto simp: contains_list_iff)
qed

lemma empty_portI:
  assumes "uri_inv v s m" "s = 514 \<or> s = 521" "w = [] \<or> hd w \<in> {CHR ''/'', CHR ''?'', CHR ''#''}"
  shows "empty_port (v @ w)"
proof -
  obtain x where x: "v = x @ '':''" using assms(1,2) by (auto simp: uri_inv_def)
  have "contains_list ''//'' v" using assms(1,2) by (auto simp: uri_inv_def before_authority_def)
  then have "contains_list ''//'' x" using x contains_slashes_butlast by simp
  then show ?thesis unfolding empty_port_def using x assms(3) by force
qed

lemma contains_list_append: "contains_list p v \<Longrightarrow> contains_list p (v @ w)"
  unfolding contains_list_iff by (metis append.assoc)

lemma uri_inv_step:
  assumes "uri_inv v s m" "uri_edge s (signed_char c) = (as, t)" "t \<noteq> 0" "m' = None \<longrightarrow> t \<in> set null_states"
  shows "uri_inv (v @ [c]) t m'"
proof -
  have "t \<in> set before_authority \<or> contains_list ''//'' (v @ [c])"
  proof (cases "s \<in> set before_authority")
    case False
    then show ?thesis using assms(1) contains_list_append by (auto simp: uri_inv_def)
  next
    case True
    show ?thesis
    proof (cases "t \<in> set before_authority")
      case False
      then have c: "c = CHR ''/''" "s = 510 \<or> s = 458"
        using edge_ok(1) [OF assms(2,3)] True signed_char_eqs by auto
      then obtain x where "v = x @ ''/''" using assms(1) by (auto simp: uri_inv_def)
      then show ?thesis using c(1) by (auto simp: contains_list_iff)
    qed simp
  qed
  moreover have "t = 510 \<or> t = 458 \<longrightarrow> c = CHR ''/''" "t = 514 \<or> t = 521 \<longrightarrow> c = CHR '':''"
    using edge_ok(2,3) [OF assms(2,3)] signed_char_eqs by auto
  ultimately show ?thesis using assms(4) by (auto simp: uri_inv_def)
qed

lemma exec_undefined:
  assumes "uri_inv v s m" "uri_exec (v @ w) (length v) w s (m, u) = Uri_undefined"
  shows "(\<exists>n. c_atoi (drop n (v @ w)) = None) \<or> empty_port (v @ w)"
  using assms
proof (induction w arbitrary: v s m u)
  case Nil
  show ?case
  proof (cases "s = 514 \<or> s = 521")
    case True
    then show ?thesis using empty_portI [OF Nil(1), of "[]"] by simp
  next
    case False
    then obtain b where b: "mark_after (s \<in> set null_states) (eof_actions s) = Some b"
      using eof_mark [of s] by auto
    have "uri_acts v (length v) (eof_actions s) (m, u) = None"
      using Nil(2) by (auto split: option.splits if_splits)
    then show ?thesis
      using acts_mark [OF b, of m v "length v" u] Nil(1) by (auto simp: uri_inv_def)
  qed
next
  case (Cons c w)
  obtain as t where e: "uri_edge s (signed_char c) = (as, t)" by (cases "uri_edge s (signed_char c)")
  have t: "t \<noteq> 0" using Cons(3) e by (auto simp: uri_parser_error_def)
  consider (colon) "s = 514 \<or> s = 521" "c \<in> {CHR ''/'', CHR ''?'', CHR ''#''}"
    | (ok) b where "mark_after (s \<in> set null_states) as = Some b" "b \<longrightarrow> t \<in> set null_states"
    using edge_ok(4) [OF e t] signed_char_eqs by auto
  then show ?case
  proof cases
    case colon
    then show ?thesis using empty_portI [OF Cons(2) colon(1), of "c # w"] by simp
  next
    case ok
    have m: "m = None \<longrightarrow> s \<in> set null_states" using Cons(2) by (simp add: uri_inv_def)
    note acts = acts_mark [OF ok(1) m, of "v @ c # w" "length v" u]
    show ?thesis
    proof (cases "uri_acts (v @ c # w) (length v) as (m, u)")
      case None
      then show ?thesis using acts by blast
    next
      case (Some st)
      obtain m' u' where st: "st = (m', u')" by (cases st)
      have "uri_inv (v @ [c]) t m'"
        using uri_inv_step [OF Cons(2) e t] acts Some st ok(2) by blast
      moreover have "uri_exec ((v @ [c]) @ w) (length (v @ [c])) w t (m', u') = Uri_undefined"
        using Cons(3) e t Some st by (simp add: uri_parser_error_def)
      ultimately show ?thesis using Cons(1) [of "v @ [c]" t m' u'] by simp
    qed
  qed
qed

text \<open>C20. \<open>Uri::Create\<close> is defined on every text except two kinds: a text with a number that \<open>atoi\<close> cannot
  return, or one whose authority has a colon without a port before a path, a query, a fragment or the
  end. Everywhere else it returns a URI or null: no action of the automaton makes a string from a
  null mark.\<close>

theorem uri_create_defined:
  assumes "\<And>n. c_atoi (drop n tx) \<noteq> None" "\<not> empty_port tx"
  shows "Uri_Create tx \<noteq> Uri_undefined"
proof
  assume "Uri_Create tx = Uri_undefined"
  moreover have "uri_inv [] 451 None"
    by (simp add: uri_inv_def null_states_def before_authority_def)
  ultimately show False
    using exec_undefined [of "[]" 451 None tx Uri_new] assms
    by (auto simp: Uri_Create_def uri_parser_start_def)
qed

section \<open>Texts that go wrong\<close>

lemmas run_simps = Uri_Create_def uri_parser_start_def uri_parser_error_def uri_parser_first_final_def
  uri_edge_def state_rows follow_simps signed_char_def code_def eof_actions_def uri_eof_def

text \<open>An empty port, which the grammar allows: the path is made from a null pointer.\<close>

lemma empty_port_undefined:
  "Uri_Create ''http://h:'' = Uri_undefined" "Uri_Create ''http://h:/a'' = Uri_undefined"
  by (simp_all add: run_simps)

text \<open>A password of digits: entering it as a port moves the mark, and the user name is lost.\<close>

lemma password_replaces_user:
  "Uri_Create ''http://me:12@h/'' =
     Uri_made (Uri_new\<lparr>u_scheme := ''http'', u_userinfo := ''12'', u_host := ''h'', u_path := ''/''\<rparr>)"
  by (simp add: run_simps)

text \<open>The path is only stored behind an authority.\<close>

lemma path_without_authority_lost:
  "Uri_Create ''/a?b'' = Uri_made (Uri_new\<lparr>u_query := ''b''\<rparr>)"
  "Uri_Create ''file:/a'' = Uri_made (Uri_new\<lparr>u_scheme := ''file''\<rparr>)"
  by (simp_all add: run_simps)

theorem uri_create_defined_witness:
  "\<not> empty_port ''/a?b'' \<and> Uri_Create ''/a?b'' \<noteq> Uri_undefined"
proof -
  have d: "set (drop n ''/a?b'') \<subseteq> set ''/a?b''" for n by (rule set_drop_subset)
  have "takeWhile (\<lambda>c. is_digit (code c)) x = []" if "set x \<subseteq> set ''/a?b''" for x
    using that by (cases x) (auto simp: is_digit_def code_def)
  moreover have "dropWhile (\<lambda>c. is_space (code c)) x = x" if "set x \<subseteq> set ''/a?b''" for x
    using that by (cases x) (auto simp: is_space_def code_def)
  moreover have "set (tl x) \<subseteq> set ''/a?b''" if "set x \<subseteq> set ''/a?b''" for x :: string
    using that by (cases x) auto
  ultimately have "c_atoi x \<noteq> None" if "set x \<subseteq> set ''/a?b''" for x
    using that by (simp add: c_atoi_def Let_def dec_value_def)
  with d have a: "c_atoi (drop n ''/a?b'') \<noteq> None" for n by blast
  have e: "\<not> empty_port ''/a?b''"
    by (auto simp: empty_port_def Cons_eq_append_conv)
  show ?thesis using uri_create_defined [OF a e] e by blast
qed

end
