(* ===== verification/ChunkedBodies.thy ===== *)
theory ChunkedBodies
  imports PicoHttp
begin

text \<open>
  The decoder of chunked bodies of \<open>src/Http/picohttpparser.c\<close>. It rewrites the buffer in place; the
  bytes written (\<open>dst\<close> of them) are a prefix, the bytes not yet read (\<open>src\<close> onwards) are untouched by the
  moves, which only write below \<open>src\<close>. So the state of a call is the decoder, the output so far and the
  unread rest; at the end the rest is moved behind the output.
\<close>

section \<open>The decoder\<close>

datatype chunk_state =
    In_chunk_size | In_chunk_ext | Header_expect_lf | In_chunk_data | Data_expect_cr | Data_expect_lf
  | Trailers_line_head | Trailers_line_middle

record chunked_decoder =
  bytes_left :: u64
  consume_trailer :: bool
  hex_count :: nat
  d_state :: chunk_state
  total_read :: u64
  total_overhead :: u64

definition zero_decoder :: "bool \<Rightarrow> chunked_decoder" where
  "zero_decoder trailer = \<lparr>bytes_left = 0, consume_trailer = trailer, hex_count = 0,
     d_state = In_chunk_size, total_read = 0, total_overhead = 0\<rparr>"

definition decode_hex :: "char \<Rightarrow> nat option" where
  "decode_hex c =
     (let n = code c in
      if 48 \<le> n \<and> n \<le> 57 then Some (n - 48)
      else if 65 \<le> n \<and> n \<le> 70 then Some (n - 65 + 10)
      else if 97 \<le> n \<and> n \<le> 102 then Some (n - 97 + 10)
      else None)"

datatype chunk_exit = Incomplete | Bad | Complete

type_synonym chunk_result = "chunk_exit \<times> chunked_decoder \<times> string \<times> string"

text \<open>
  One turn of the loop, over one character or one block of data: the exit, or the next turn. \<open>out\<close> is
  what lies in front of \<open>dst\<close>, \<open>rest\<close> what lies behind \<open>src\<close>.
\<close>

definition chunk_turn ::
  "chunked_decoder \<Rightarrow> string \<Rightarrow> string \<Rightarrow> chunk_result + chunked_decoder \<times> string \<times> string"
where
  "chunk_turn d out rest =
     (case d_state d of
        In_chunk_size \<Rightarrow>
          (case rest of
             [] \<Rightarrow> Inl (Incomplete, d, out, rest)
           | c # cs \<Rightarrow>
               (case decode_hex c of
                  None \<Rightarrow>
                    if hex_count d = 0 then Inl (Bad, d, out, rest)
                    else if c \<in> {SP, TAB, CHR '';'', LF, CR}
                    then Inr (d\<lparr>hex_count := 0, d_state := In_chunk_ext\<rparr>, out, rest)
                    else Inl (Bad, d, out, rest)
                | Some v \<Rightarrow>
                    if hex_count d = 16 then Inl (Bad, d, out, rest)
                    else Inr (d\<lparr>bytes_left := bytes_left d * 16 + of_nat v,
                                       hex_count := hex_count d + 1\<rparr>, out, cs)))
      | In_chunk_ext \<Rightarrow>
          (case rest of
             [] \<Rightarrow> Inl (Incomplete, d, out, rest)
           | c # cs \<Rightarrow>
               if c = CR then Inr (d\<lparr>d_state := Header_expect_lf\<rparr>, out, cs)
               else if c = LF then Inl (Bad, d, out, rest)
               else Inr (d, out, cs))
      | Header_expect_lf \<Rightarrow>
          (case rest of
             [] \<Rightarrow> Inl (Incomplete, d, out, rest)
           | c # cs \<Rightarrow>
               if c \<noteq> LF then Inl (Bad, d, out, rest)
               else if bytes_left d = 0 then
                 (if consume_trailer d then Inr (d\<lparr>d_state := Trailers_line_head\<rparr>, out, cs)
                  else Inl (Complete, d, out, cs))
               else Inr (d\<lparr>d_state := In_chunk_data\<rparr>, out, cs))
      | In_chunk_data \<Rightarrow>
          if length rest < unat (bytes_left d)
          then Inl (Incomplete, d\<lparr>bytes_left := bytes_left d - of_nat (length rest)\<rparr>, out @ rest, [])
          else Inr (d\<lparr>bytes_left := 0, d_state := Data_expect_cr\<rparr>,
                 out @ take (unat (bytes_left d)) rest, drop (unat (bytes_left d)) rest)
      | Data_expect_cr \<Rightarrow>
          (case rest of
             [] \<Rightarrow> Inl (Incomplete, d, out, rest)
           | c # cs \<Rightarrow>
               if c \<noteq> CR then Inl (Bad, d, out, rest)
               else Inr (d\<lparr>d_state := Data_expect_lf\<rparr>, out, cs))
      | Data_expect_lf \<Rightarrow>
          (case rest of
             [] \<Rightarrow> Inl (Incomplete, d, out, rest)
           | c # cs \<Rightarrow>
               if c \<noteq> LF then Inl (Bad, d, out, rest)
               else Inr (d\<lparr>d_state := In_chunk_size\<rparr>, out, cs))
      | Trailers_line_head \<Rightarrow>
          (case rest of
             [] \<Rightarrow> Inl (Incomplete, d, out, rest)
           | c # cs \<Rightarrow>
               if c = CR then Inr (d, out, cs)
               else if c = LF then Inl (Complete, d, out, cs)
               else Inr (d\<lparr>d_state := Trailers_line_middle\<rparr>, out, cs))
      | Trailers_line_middle \<Rightarrow>
          (case rest of
             [] \<Rightarrow> Inl (Incomplete, d, out, rest)
           | c # cs \<Rightarrow>
               if c = LF then Inr (d\<lparr>d_state := Trailers_line_head\<rparr>, out, cs)
               else Inr (d, out, cs)))"

definition turns_ahead :: "chunked_decoder \<Rightarrow> string \<Rightarrow> nat" where
  "turns_ahead d rest = 2 * length rest +
     (if d_state d = In_chunk_size \<or> d_state d = In_chunk_data then 1 else 0)"

lemma chunk_turn_less: "chunk_turn d out rest = Inr (d', out', rest') \<Longrightarrow> turns_ahead d' rest' < turns_ahead d rest"
  by (auto simp: chunk_turn_def turns_ahead_def split: chunk_state.splits list.splits option.splits if_splits)

function chunk_loop :: "chunked_decoder \<Rightarrow> string \<Rightarrow> string \<Rightarrow> chunk_result" where
  "chunk_loop d out rest =
     (case chunk_turn d out rest of Inl r \<Rightarrow> r | Inr (d, out, rest) \<Rightarrow> chunk_loop d out rest)"
  by pat_completeness auto

termination
  by (relation "measure (\<lambda>(d, out, rest). turns_ahead d rest)") (auto dest: chunk_turn_less)

declare chunk_loop.simps [simp del]

text \<open>The call: the result, the decoder, the decoded bytes and what lies behind them in the buffer.\<close>

definition phr_decode_chunked :: "chunked_decoder \<Rightarrow> string \<Rightarrow> int \<times> chunked_decoder \<times> string \<times> string" where
  "phr_decode_chunked d buf =
     (case chunk_loop (d\<lparr>total_read := total_read d + of_nat (length buf)\<rparr>) [] buf of
        (Complete, d, out, rest) \<Rightarrow> (int (length rest), d, out, rest)
      | (Bad, d, out, rest) \<Rightarrow> (-1, d, out, rest)
      | (Incomplete, d, out, rest) \<Rightarrow>
          let d = d\<lparr>total_overhead := total_overhead d + of_nat (length buf - length out)\<rparr>
          in if 100 * 1024 \<le> total_overhead d \<and> total_read d - total_overhead d < total_read d div 4
             then (-1, d, out, rest) else (-2, d, out, rest))"

definition phr_decode_chunked_is_in_data :: "chunked_decoder \<Rightarrow> bool" where
  "phr_decode_chunked_is_in_data d \<longleftrightarrow> d_state d = In_chunk_data"

section \<open>Input in pieces\<close>

lemma unat_left:
  assumes "n < unat (w :: u64)"
  shows "unat (w - of_nat n) = unat w - n"
proof -
  have "unat w < 2 ^ 64" using unsigned_less [of w] by simp
  then have "n < 2 ^ 64" using assms by simp
  then have n: "unat (of_nat n :: u64) = n" by (simp add: unat_of_nat)
  then have "(of_nat n :: u64) \<le> w" using assms by (simp add: word_le_nat_alt)
  then show ?thesis using n by (simp add: unat_sub)
qed

lemma chunk_turn_more:
  assumes "chunk_turn d out a = Inr (d', out', r)"
  shows "chunk_turn d out (a @ b) = Inr (d', out', r @ b)"
proof (cases a)
  case Nil
  then show ?thesis using assms by (simp add: chunk_turn_def split: chunk_state.splits if_splits)
next
  case (Cons c cs)
  show ?thesis
  proof (cases "d_state d")
    case In_chunk_size
    show ?thesis
      using assms Cons In_chunk_size
      by (cases "decode_hex c") (simp_all add: chunk_turn_def del: insert_iff split: if_split_asm)
  next
    case In_chunk_data
    then show ?thesis using assms by (simp add: chunk_turn_def split: if_split_asm)
  qed (use assms Cons in \<open>simp_all add: chunk_turn_def split: if_split_asm\<close>)
qed

lemma chunk_loop_turn:
  "chunk_turn d out a = Inr (d', out', r) \<Longrightarrow> chunk_loop d out a = chunk_loop d' out' r"
  "chunk_turn d out a = Inl res \<Longrightarrow> chunk_loop d out a = res"
  by (simp_all add: chunk_loop.simps [of d])

lemma data_split:
  assumes "d_state d = In_chunk_data" "length a < unat (bytes_left d)"
  shows "chunk_loop d out (a @ b) = chunk_loop (d\<lparr>bytes_left := bytes_left d - of_nat (length a)\<rparr>) (out @ a) b"
proof -
  have "chunk_turn d out (a @ b) = chunk_turn (d\<lparr>bytes_left := bytes_left d - of_nat (length a)\<rparr>) (out @ a) b"
    using assms unat_left [OF assms(2)] by (auto simp: chunk_turn_def algebra_simps)
  then show ?thesis by (simp add: chunk_loop.simps)
qed

lemma chunk_turn_incomplete:
  assumes "chunk_turn d out a = Inl (Incomplete, d', out', r)"
  shows "r = [] \<and> chunk_loop d out (a @ b) = chunk_loop d' out' b"
proof (cases "d_state d = In_chunk_data")
  case True
  then have "length a < unat (bytes_left d)" "out' = out @ a" "r = []"
    "d' = d\<lparr>bytes_left := bytes_left d - of_nat (length a)\<rparr>"
    using assms by (auto simp: chunk_turn_def split: if_splits)
  then show ?thesis using data_split [OF True] by simp
next
  case False
  then have "a = []" "d' = d" "out' = out" "r = []"
    using assms by (auto simp: chunk_turn_def split: chunk_state.splits list.splits option.splits if_splits)
  then show ?thesis by simp
qed

text \<open>A call that ran out of input resumes where it stopped; one that ended is not changed by more input.\<close>

lemma chunk_loop_incomplete:
  "chunk_loop d out a = (Incomplete, d', out', r) \<Longrightarrow>
   r = [] \<and> chunk_loop d out (a @ b) = chunk_loop d' out' b"
proof (induction d out a rule: chunk_loop.induct)
  case (1 d out a)
  show ?case
  proof (cases "chunk_turn d out a")
    case (Inl res)
    then show ?thesis using 1(2) chunk_turn_incomplete chunk_loop_turn(2) by metis
  next
    case (Inr t)
    obtain e o' s where t: "chunk_turn d out a = Inr (e, o', s)" using Inr by (cases t) auto
    then show ?thesis
      using 1 chunk_loop_turn(1) [OF t] chunk_loop_turn(1) [OF chunk_turn_more [OF t]] by auto
  qed
qed

lemma chunk_turn_ended:
  assumes "chunk_turn d out a = Inl (e, d', out', r)" "e \<noteq> Incomplete"
  shows "chunk_turn d out (a @ b) = Inl (e, d', out', r @ b)"
  using assms
  by (cases "d_state d"; cases a) (auto simp: chunk_turn_def split: option.splits if_splits)

lemma chunk_loop_ended:
  "chunk_loop d out a = (e, d', out', r) \<Longrightarrow> e \<noteq> Incomplete \<Longrightarrow>
   chunk_loop d out (a @ b) = (e, d', out', r @ b)"
proof (induction d out a rule: chunk_loop.induct)
  case (1 d out a)
  show ?case
  proof (cases "chunk_turn d out a")
    case (Inl res)
    then show ?thesis using 1(2,3) chunk_turn_ended chunk_loop_turn(2) by metis
  next
    case (Inr t)
    obtain x o' s where t: "chunk_turn d out a = Inr (x, o', s)" using Inr by (cases t) auto
    then show ?thesis
      using 1 chunk_loop_turn(1) [OF t] chunk_loop_turn(1) [OF chunk_turn_more [OF t]] by auto
  qed
qed

text \<open>The loop does not look at the totals of the decoder or at the output so far.\<close>

definition framed :: "u64 \<Rightarrow> u64 \<Rightarrow> string \<Rightarrow> chunk_result \<Rightarrow> chunk_result" where
  "framed x y o' = (\<lambda>(e, d, out, rest). (e, d\<lparr>total_read := x, total_overhead := y\<rparr>, o' @ out, rest))"

lemma chunk_turn_framed:
  "chunk_turn (d\<lparr>total_read := x, total_overhead := y\<rparr>) (o' @ out) rest =
   (case chunk_turn d out rest of
      Inl r \<Rightarrow> Inl (framed x y o' r)
    | Inr (d, out, rest) \<Rightarrow> Inr (d\<lparr>total_read := x, total_overhead := y\<rparr>, o' @ out, rest))"
  by (cases "d_state d"; cases rest)
    (simp_all add: chunk_turn_def framed_def del: insert_iff split: option.split)

lemma chunk_loop_framed:
  "chunk_loop (d\<lparr>total_read := x, total_overhead := y\<rparr>) (o' @ out) rest = framed x y o' (chunk_loop d out rest)"
proof (induction d out rest rule: chunk_loop.induct)
  case (1 d out rest)
  show ?case
  proof (cases "chunk_turn d out rest")
    case (Inl r)
    then have "chunk_turn (d\<lparr>total_read := x, total_overhead := y\<rparr>) (o' @ out) rest = Inl (framed x y o' r)"
      by (simp add: chunk_turn_framed)
    then show ?thesis using chunk_loop_turn(2) Inl by metis
  next
    case (Inr t)
    obtain d1 o1 r1 where t: "chunk_turn d out rest = Inr (d1, o1, r1)" using Inr by (cases t) auto
    then have "chunk_turn (d\<lparr>total_read := x, total_overhead := y\<rparr>) (o' @ out) rest =
        Inr (d1\<lparr>total_read := x, total_overhead := y\<rparr>, o' @ o1, r1)"
      by (simp add: chunk_turn_framed)
    then show ?thesis using 1 t chunk_loop_turn(1) by metis
  qed
qed

lemma chunk_turn_totals:
  "chunk_turn d out rest = Inr (d', out', rest') \<Longrightarrow>
   total_read d' = total_read d \<and> total_overhead d' = total_overhead d \<and> (\<exists>w. out' = out @ w)"
  "chunk_turn d out rest = Inl (e, d', out', rest') \<Longrightarrow>
   total_read d' = total_read d \<and> total_overhead d' = total_overhead d \<and> (\<exists>w. out' = out @ w)"
  by (cases "d_state d"; cases rest; auto simp: chunk_turn_def simp del: insert_iff split: option.splits if_split_asm)+

lemma chunk_loop_totals:
  "chunk_loop d out rest = (e, d', out', rest') \<Longrightarrow>
   total_read d' = total_read d \<and> total_overhead d' = total_overhead d"
proof (induction d out rest rule: chunk_loop.induct)
  case (1 d out rest)
  show ?case
  proof (cases "chunk_turn d out rest")
    case (Inl r)
    then show ?thesis using 1(2) chunk_turn_totals(2) chunk_loop_turn(2) by metis
  next
    case (Inr t)
    obtain d1 o1 r1 where t: "chunk_turn d out rest = Inr (d1, o1, r1)" using Inr by (cases t) auto
    then show ?thesis using 1 chunk_loop_turn(1) [OF t] chunk_turn_totals(1) [OF t] by auto
  qed
qed

lemma chunk_loop_Nil: "\<exists>d' out'. chunk_loop d out [] = (Incomplete, d', out', [])"
proof -
  have 1: "chunk_turn d out [] = Inl (Incomplete, d, out, [])" if "d_state d \<noteq> In_chunk_data" for d out
    using that by (cases "d_state d") (simp_all add: chunk_turn_def)
  have other: "\<exists>d' out'. chunk_loop d out [] = (Incomplete, d', out', [])" if "d_state d \<noteq> In_chunk_data" for d out
    using chunk_loop_turn(2) [OF 1 [OF that]] by simp
  show ?thesis
  proof (cases "d_state d = In_chunk_data")
    case True
    show ?thesis
    proof (cases "bytes_left d = 0")
      case b: True
      then have "chunk_turn d out [] = Inr (d\<lparr>bytes_left := 0, d_state := Data_expect_cr\<rparr>, out, [])"
        using True by (simp add: chunk_turn_def)
      then show ?thesis using other chunk_loop_turn(1) by fastforce
    next
      case False
      then show ?thesis using True chunk_loop_turn(2) by (fastforce simp: chunk_turn_def unat_gt_0)
    qed
  qed (rule other)
qed

section \<open>Chunked text\<close>

definition hex_char :: "nat \<Rightarrow> char" where
  "hex_char d = char_of (if d < 10 then 48 + d else 87 + d)"

fun hex_digits :: "nat \<Rightarrow> string" where
  "hex_digits n = (if n < 16 then [hex_char n] else hex_digits (n div 16) @ [hex_char (n mod 16)])"

declare hex_digits.simps [simp del]

definition chunk_text :: "string \<Rightarrow> string" where
  "chunk_text w = hex_digits (length w) @ [CR, LF] @ w @ [CR, LF]"

definition chunked_text :: "string list \<Rightarrow> string" where
  "chunked_text ws = concat (map chunk_text ws) @ ''0'' @ [CR, LF]"

lemma decode_hex_char: "d < 16 \<Longrightarrow> decode_hex (hex_char d) = Some d"
  by (auto simp: decode_hex_def hex_char_def code_def Let_def)

lemma length_hex_digits: "n < 16 ^ Suc k \<Longrightarrow> length (hex_digits n) \<le> Suc k"
proof (induction k arbitrary: n)
  case 0
  then show ?case by (simp add: hex_digits.simps)
next
  case (Suc k)
  then show ?case
    by (subst hex_digits.simps) (auto simp: less_mult_imp_div_less mult.commute)
qed

lemma loop_hex_digits:
  assumes "d_state d = In_chunk_size" "bytes_left d = 0" "hex_count d = 0" "n < 2 ^ 64"
  shows "chunk_loop d out (hex_digits n @ rest) =
    chunk_loop (d\<lparr>bytes_left := of_nat n, hex_count := length (hex_digits n)\<rparr>) out rest"
  using assms(4)
proof (induction n arbitrary: rest rule: hex_digits.induct)
  case (1 n)
  show ?case
  proof (cases "n < 16")
    case True
    have "chunk_turn d out (hex_char n # rest) = Inr (d\<lparr>bytes_left := of_nat n, hex_count := 1\<rparr>, out, rest)"
      using assms(1-3) decode_hex_char [OF True] by (simp add: chunk_turn_def)
    then show ?thesis using True chunk_loop_turn(1) by (simp add: hex_digits.simps [of n])
  next
    case False
    let ?d = "d\<lparr>bytes_left := of_nat (n div 16), hex_count := length (hex_digits (n div 16))\<rparr>"
    have l: "length (hex_digits (n div 16)) \<le> Suc 14"
      by (rule length_hex_digits) (use 1(2) in \<open>simp add: less_mult_imp_div_less\<close>)
    have "(of_nat (n div 16) * 16 + of_nat (n mod 16) :: u64) = of_nat n"
      by (metis div_mult_mod_eq of_nat_add of_nat_mult of_nat_numeral)
    then have "chunk_turn ?d out (hex_char (n mod 16) # rest) =
        Inr (d\<lparr>bytes_left := of_nat n, hex_count := Suc (length (hex_digits (n div 16)))\<rparr>, out, rest)"
      using assms(1) decode_hex_char [of "n mod 16"] l by (simp add: chunk_turn_def)
    then have "chunk_loop ?d out (hex_char (n mod 16) # rest) =
        chunk_loop (d\<lparr>bytes_left := of_nat n, hex_count := Suc (length (hex_digits (n div 16)))\<rparr>) out rest"
      by (rule chunk_loop_turn(1))
    moreover have "chunk_loop d out (hex_digits (n div 16) @ hex_char (n mod 16) # rest) =
        chunk_loop ?d out (hex_char (n mod 16) # rest)"
      using 1 False by simp
    ultimately show ?thesis using False by (simp add: hex_digits.simps [of n])
  qed
qed

lemma sep_chars:
  "decode_hex CR = None" "CR \<noteq> LF" "LF \<noteq> CR" "decode_hex CHR ''0'' = Some 0"
  by (simp_all add: decode_hex_def CR_def LF_def code_def)

definition fresh :: "chunked_decoder \<Rightarrow> bool" where
  "fresh d \<longleftrightarrow> d_state d = In_chunk_size \<and> bytes_left d = 0 \<and> hex_count d = 0"

lemma hex_digits_ne: "hex_digits n \<noteq> []"
  by (subst hex_digits.simps) simp

text \<open>A line with a chunk size brings the decoder to the end of that line.\<close>

lemma loop_size_line:
  assumes "fresh d" "n < 2 ^ 64"
  shows "chunk_loop d out (hex_digits n @ CR # rest) =
    chunk_loop (d\<lparr>bytes_left := of_nat n, d_state := Header_expect_lf\<rparr>) out rest"
proof -
  let ?a = "d\<lparr>bytes_left := of_nat n, hex_count := length (hex_digits n)\<rparr>"
  have "chunk_turn ?a out (CR # rest) = Inr (?a\<lparr>hex_count := 0, d_state := In_chunk_ext\<rparr>, out, CR # rest)"
    using assms(1) sep_chars hex_digits_ne [of n] by (simp add: chunk_turn_def fresh_def)
  moreover have "chunk_turn (?a\<lparr>hex_count := 0, d_state := In_chunk_ext\<rparr>) out (CR # rest) =
      Inr (d\<lparr>bytes_left := of_nat n, d_state := Header_expect_lf\<rparr>, out, rest)"
    using assms(1) by (simp add: chunk_turn_def fresh_def)
  ultimately show ?thesis
    using loop_hex_digits [of d n out "CR # rest"] assms chunk_loop_turn(1) by (simp add: fresh_def)
qed

lemma loop_chunk:
  assumes "fresh d" "w \<noteq> []" "length w < 2 ^ 64"
  shows "chunk_loop d out (chunk_text w @ rest) = chunk_loop d (out @ w) rest"
proof -
  let ?n = "of_nat (length w) :: u64"
  have n: "unat ?n = length w" "?n \<noteq> 0" using assms(2,3)
    by (auto simp: unat_of_nat dest: arg_cong [of _ _ unat])
  let ?a = "d\<lparr>bytes_left := ?n, d_state := Header_expect_lf\<rparr>" and ?b = "d\<lparr>bytes_left := ?n, d_state := In_chunk_data\<rparr>"
    and ?c = "d\<lparr>bytes_left := 0, d_state := Data_expect_cr\<rparr>" and ?e = "d\<lparr>bytes_left := 0, d_state := Data_expect_lf\<rparr>"
  have "chunk_loop d out (chunk_text w @ rest) = chunk_loop ?a out (LF # w @ CR # LF # rest)"
    using loop_size_line [OF assms(1,3)] by (simp add: chunk_text_def)
  also have "\<dots> = chunk_loop ?b out (w @ CR # LF # rest)"
    by (rule chunk_loop_turn(1)) (use n in \<open>simp add: chunk_turn_def\<close>)
  also have "\<dots> = chunk_loop ?c (out @ w) (CR # LF # rest)"
    by (rule chunk_loop_turn(1)) (use n in \<open>simp add: chunk_turn_def\<close>)
  also have "\<dots> = chunk_loop ?e (out @ w) (LF # rest)"
    by (rule chunk_loop_turn(1)) (simp add: chunk_turn_def)
  also have "\<dots> = chunk_loop d (out @ w) rest"
    by (rule chunk_loop_turn(1)) (use assms(1) in \<open>simp add: chunk_turn_def fresh_def\<close>)
  finally show ?thesis .
qed

lemma loop_chunked_text:
  assumes "fresh d" "\<not> consume_trailer d" "\<forall>w \<in> set ws. w \<noteq> [] \<and> length w < 2 ^ 64"
  shows "chunk_loop d out (chunked_text ws @ rest) =
    (Complete, d\<lparr>d_state := Header_expect_lf\<rparr>, out @ concat ws, rest)"
  using assms(3)
proof (induction ws arbitrary: out)
  case Nil
  have "hex_digits 0 = ''0''" by code_simp
  then have "chunk_loop d out (chunked_text [] @ rest) =
      chunk_loop (d\<lparr>bytes_left := of_nat 0, d_state := Header_expect_lf\<rparr>) out (LF # rest)"
    using loop_size_line [OF assms(1), of 0] by (simp add: chunked_text_def)
  moreover have "chunk_turn (d\<lparr>bytes_left := of_nat 0, d_state := Header_expect_lf\<rparr>) out (LF # rest) =
      Inl (Complete, d\<lparr>d_state := Header_expect_lf\<rparr>, out, rest)"
    using assms(1,2) by (simp add: chunk_turn_def fresh_def)
  ultimately show ?case using chunk_loop_turn(2) by simp
next
  case (Cons w ws)
  then show ?case using loop_chunk [OF assms(1), of w] by (simp add: chunked_text_def)
qed

section \<open>Decoding as documented\<close>

text \<open>
  The header asks the caller to call the function again with the new data as long as it returns
  \<open>-2\<close>: the last result, all decoded bytes, and what is left undecoded.
\<close>

fun decode_pieces :: "chunked_decoder \<Rightarrow> string list \<Rightarrow> int \<times> string \<times> string" where
  "decode_pieces d [] = (-2, [], [])"
| "decode_pieces d (s # ss) =
     (case phr_decode_chunked d s of (ret, d, out, rest) \<Rightarrow>
        if ret = -2 then (case decode_pieces d ss of (r, o', rest) \<Rightarrow> (r, out @ o', rest))
        else (ret, out, rest))"

lemma chunk_loop_any_totals:
  "chunk_loop d [] a = (e, d', out, r) \<Longrightarrow>
   chunk_loop (d\<lparr>total_read := x, total_overhead := y\<rparr>) o' a =
     (e, d'\<lparr>total_read := x, total_overhead := y\<rparr>, o' @ out, r)"
  using chunk_loop_framed [where d = d and out = "[]" and o' = o'] by (simp add: framed_def)

lemma decode_pieces_complete:
  assumes "chunk_loop d [] (concat ss) = (Complete, d', out, r)"
    and "unat (total_overhead d) + length (concat ss) < 100 * 1024"
  shows "\<exists>r' late. decode_pieces d ss = (int (length r'), out, r') \<and> r = r' @ late"
  using assms
proof (induction ss arbitrary: d d' out)
  case Nil
  then show ?case using chunk_loop_Nil [of d "[]"] by auto
next
  case (Cons s ss)
  define n where "n = total_read d + of_nat (length s)"
  obtain e d1 o1 r1 where l: "chunk_loop d [] s = (e, d1, o1, r1)" by (metis prod_cases4)
  have "d\<lparr>total_read := n\<rparr> = d\<lparr>total_read := n, total_overhead := total_overhead d\<rparr>"
    by (cases d) simp
  then have ld: "chunk_loop (d\<lparr>total_read := total_read d + of_nat (length s)\<rparr>) [] s =
      (e, d1\<lparr>total_read := n, total_overhead := total_overhead d\<rparr>, o1, r1)"
    using chunk_loop_any_totals [OF l, where x = n and y = "total_overhead d" and o' = "[]"] by (simp add: n_def)
  show ?case
  proof (cases e)
    case Incomplete
    define y where "y = total_overhead d + of_nat (length s - length o1)"
    let ?d2 = "d1\<lparr>total_read := n, total_overhead := y\<rparr>"
    have small: "unat (total_overhead d) + (length s - length o1) < 100 * 1024"
      using Cons.prems(2) by simp
    then have "unat (of_nat (length s - length o1) :: u64) = length s - length o1"
      by (simp add: unat_of_nat)
    then have y: "unat y = unat (total_overhead d) + (length s - length o1)"
      using small unfolding y_def by (subst unat_add_lem [THEN iffD1]) simp_all
    have call: "phr_decode_chunked d s = (-2, ?d2, o1, r1)"
      using ld Incomplete small y
      by (simp add: phr_decode_chunked_def Let_def y_def [symmetric] word_le_nat_alt)
    have "chunk_loop d1 o1 (concat ss) = (Complete, d', out, r)"
      using chunk_loop_incomplete [OF l [unfolded Incomplete], of "concat ss"] Cons.prems(1) by simp
    moreover obtain e2 d2 o2 r2 where l2: "chunk_loop d1 [] (concat ss) = (e2, d2, o2, r2)"
      by (metis prod_cases4)
    moreover have "d1\<lparr>total_read := total_read d1, total_overhead := total_overhead d1\<rparr> = d1"
      by (cases d1) simp
    ultimately have o: "out = o1 @ o2" "e2 = Complete" "r2 = r"
      using chunk_loop_any_totals [OF l2, where x = "total_read d1" and y = "total_overhead d1" and o' = o1] by auto
    have "chunk_loop ?d2 [] (concat ss) = (Complete, d2\<lparr>total_read := n, total_overhead := y\<rparr>, o2, r)"
      using chunk_loop_any_totals [OF l2, where x = n and y = y and o' = "[]"] o by simp
    moreover have "unat (total_overhead ?d2) + length (concat ss) < 100 * 1024"
      using y Cons.prems(2) by simp
    ultimately obtain r' late where "decode_pieces ?d2 ss = (int (length r'), o2, r')" "r = r' @ late"
      using Cons.IH by blast
    then show ?thesis using call o by simp
  next
    case Bad
    then show ?thesis using chunk_loop_ended [OF l, of "concat ss"] Cons.prems(1) by simp
  next
    case Complete
    then have "r = r1 @ concat ss" "out = o1"
      using chunk_loop_ended [OF l, of "concat ss"] Cons.prems(1) by simp_all
    moreover have "decode_pieces d (s # ss) = (int (length r1), o1, r1)"
      using ld Complete by (simp add: phr_decode_chunked_def)
    ultimately show ?thesis by blast
  qed
qed

text \<open>C17. A chunked body is decoded, however it arrives. For non-empty chunks written with their sizes in
  hexadecimal and closed by the empty chunk, followed by anything and cut into pieces anywhere, all
  of less than 100 KB, calling the decoder on one piece after the other yields the data of the chunks,
  in order, and reports as undecoded what follows the body in the piece where it ends.\<close>

theorem chunked_body_decoded:
  assumes "\<forall>w \<in> set ws. w \<noteq> []" "concat pieces = chunked_text ws @ behind"
    and "length (concat pieces) < 100 * 1024"
  shows "\<exists>left later. decode_pieces (zero_decoder False) pieces = (int (length left), concat ws, left) \<and>
    behind = left @ later"
proof -
  have "length w < 2 ^ 64" if "w \<in> set ws" for w
  proof -
    have "length (chunk_text w) \<le> length (concat (map chunk_text ws))"
      using that by (auto simp: length_concat intro: member_le_sum_list)
    then show ?thesis using assms(2,3) by (simp add: chunked_text_def chunk_text_def)
  qed
  then have "chunk_loop (zero_decoder False) [] (concat pieces) =
      (Complete, (zero_decoder False)\<lparr>d_state := Header_expect_lf\<rparr>, concat ws, behind)"
    using loop_chunked_text [of "zero_decoder False" ws "[]" behind] assms(1,2)
    by (simp add: fresh_def zero_decoder_def)
  then show ?thesis using decode_pieces_complete assms(3) by (simp add: zero_decoder_def)
qed

theorem chunked_body_decoded_witness:
  "\<exists>left later. decode_pieces (zero_decoder False) [[CHR ''2'', CR], [LF, CHR ''h''], ''i'' @ [CR, LF] @ ''0'', [CR, LF] @ ''x''] =
     (int (length left), ''hi'', left) \<and> ''x'' = left @ later"
proof -
  have digits: "hex_digits (length ''hi'') = ''2''" by code_simp
  have "chunked_text [''hi''] = ''2'' @ [CR, LF] @ ''hi'' @ [CR, LF] @ ''0'' @ [CR, LF]"
    by (simp only: chunked_text_def chunk_text_def digits list.map concat.simps append.simps)
  then have pieces: "concat [[CHR ''2'', CR], [LF, CHR ''h''], ''i'' @ [CR, LF] @ ''0'', [CR, LF] @ ''x''] =
      chunked_text [''hi''] @ ''x''"
    by simp
  have "\<forall>w \<in> set [''hi'']. w \<noteq> []" by simp
  from chunked_body_decoded [OF this pieces] show ?thesis
    by (simp del: decode_pieces.simps)
qed

end
