(* ===== verification/LogDumps.thy ===== *)
theory LogDumps
  imports Configs
begin

text \<open>
  The rest of \<open>src/Log.cc\<close>: events written with a format string, and the texts that appenders, loggers
  and the manager give of themselves as YAML. The result of \<open>vasprintf\<close> is an argument (\<open>None\<close> for
  \<open>-1\<close>); \<open>ss << node\<close> writes what \<open>Dump\<close> writes.
\<close>

section \<open>Events with a format string\<close>

definition LogEvent_format :: "log_event \<Rightarrow> string option \<Rightarrow> log_event" where
  "LogEvent_format ev buf = (case buf of None \<Rightarrow> ev | Some s \<Rightarrow> ev\<lparr>ev_text := ev_text ev @ s\<rparr>)"

definition LogEventWrapper_dtor ::
  "(string \<Rightarrow> nat \<Rightarrow> string) \<Rightarrow> loggers \<Rightarrow> log_event \<Rightarrow> loggers \<times> string" where
  "LogEventWrapper_dtor strftime m ev = Log strftime m (ev_logger ev) (ev_level ev) ev"

text \<open>The macro makes an event without text; \<open>ev\<close> gives its place and time.\<close>

definition FORMAT_LOG_LEVEL ::
  "(string \<Rightarrow> nat \<Rightarrow> string) \<Rightarrow> loggers \<Rightarrow> string \<Rightarrow> level \<Rightarrow> log_event \<Rightarrow> string option \<Rightarrow> loggers \<times> string" where
  "FORMAT_LOG_LEVEL strftime m nm level ev buf =
     (case m nm of
        None \<Rightarrow> (m, [])
      | Some l \<Rightarrow>
          if lg_level l \<le> level then
            LogEventWrapper_dtor strftime m
              (LogEvent_format (ev\<lparr>ev_logger := nm, ev_level := level, ev_text := []\<rparr>) buf)
          else (m, []))"

definition lg_SetFormatter_text :: "logger \<Rightarrow> string \<Rightarrow> logger \<times> string" where
  "lg_SetFormatter_text l pattern =
     (let new_val = LogFormatter_new pattern in
      if fm_has_error new_val
      then (l, ''Logger setFormatter name='' @ lg_name l @ '' value='' @ pattern @ '' invalid formatter'' @ endl)
      else (l\<lparr>lg_formatter := new_val\<rparr>, []))"

section \<open>Dumps\<close>

definition pattern_entry :: "appender \<Rightarrow> (string \<times> node) list" where
  "pattern_entry a =
     (case ap_formatter a of
        Some f \<Rightarrow> if ap_has_formatter a then [(''formatter'', Scalar (fm_pattern f))] else []
      | None \<Rightarrow> [])"

definition Console_toYamlString :: "yaml \<Rightarrow> appender \<Rightarrow> string" where
  "Console_toYamlString Y a =
     Dump Y (Map ((''type'', Scalar ''ConsoleLogAppender'') # level_entry (ap_level a) @ pattern_entry a))"

definition File_toYamlString :: "yaml \<Rightarrow> appender \<Rightarrow> string" where
  "File_toYamlString Y a =
     Dump Y (Map ((''type'', Scalar ''FileLogAppender'') # level_entry (ap_level a) @ pattern_entry a))"

definition ap_toYamlString :: "yaml \<Rightarrow> appender \<Rightarrow> string" where
  "ap_toYamlString Y a =
     (case ap_sink a of Console \<Rightarrow> Console_toYamlString Y a | File _ \<Rightarrow> File_toYamlString Y a)"

text \<open>\<open>None\<close> is an exception of the parser.\<close>

definition lg_toYamlString :: "yaml \<Rightarrow> logger \<Rightarrow> string option" where
  "lg_toYamlString Y l =
     map_option (\<lambda>as. Dump Y (Map ((''name'', Scalar (lg_name l)) # level_entry (lg_level l) @
         (''formatter'', Scalar (fm_pattern (lg_formatter l))) #
         (if as \<noteq> [] then [(''appenders'', Sequence as)] else []))))
       (bind_all (\<lambda>a. Load Y (ap_toYamlString Y a)) (lg_appenders l))"

text \<open>The loggers in the order in which the unordered map visits them.\<close>

definition LogManager_toYamlString :: "yaml \<Rightarrow> logger list \<Rightarrow> string option" where
  "LogManager_toYamlString Y ls =
     map_option (\<lambda>ns. Dump Y (if ns \<noteq> [] then Sequence ns else Null))
       (bind_all (\<lambda>l. Option.bind (lg_toYamlString Y l) (Load Y)) ls)"

definition ShowLoggersName :: "logger list \<Rightarrow> string" where
  "ShowLoggersName ls = concat (map (\<lambda>l. lg_name l @ endl) ls)"

section \<open>Lemmas\<close>

lemma format_as_stream:
  assumes "ev_text ev = []" "ev_level ev = lv"
  shows "FORMAT_LOG_LEVEL strftime m nm lv ev (Some s) = LOG_LEVEL strftime m nm lv (ev\<lparr>ev_text := s\<rparr>)"
  using assms
  by (cases ev) (simp add: FORMAT_LOG_LEVEL_def LogEventWrapper_dtor_def LogEvent_format_def LOG_LEVEL_def
      split: option.split)

text \<open>The entries of a dumped appender, and what the reader of log definitions makes of it.\<close>

definition dump_of :: "appender \<Rightarrow> node" where
  "dump_of a =
     Map ((''type'', Scalar (if ap_sink a = Console then ''ConsoleLogAppender'' else ''FileLogAppender'')) #
       level_entry (ap_level a) @ pattern_entry a)"

lemma ap_toYamlString_dump: "ap_toYamlString Y a = Dump Y (dump_of a)"
  by (cases "ap_sink a") (simp_all add: ap_toYamlString_def Console_toYamlString_def File_toYamlString_def dump_of_def)

definition define_of :: "appender \<Rightarrow> appender_define" where
  "define_of a =
     \<lparr>ad_type = 2, ad_level = ap_level a,
      ad_formatter = (case ap_formatter a of Some f \<Rightarrow> if ap_has_formatter a then fm_pattern f else [] | None \<Rightarrow> []),
      ad_file = []\<rparr>"

lemma appender_of_dump:
  assumes "yaml_laws Y ns"
  shows "appender_of_node Y (dump_of a) = Some (if ap_sink a = Console then Some (define_of a) else None)"
proof -
  note f = text_field_Map [OF assms] as_string_Scalar [OF assms]
  show ?thesis
    using level_of_entry [of "ap_level a"]
    by (cases "ap_level a = UNKNOWN"; cases "ap_formatter a")
      (auto simp: dump_of_def appender_of_node_def f level_entry_def pattern_entry_def define_of_def Let_def)
qed

definition logger_dump :: "logger \<Rightarrow> node" where
  "logger_dump l =
     Map ((''name'', Scalar (lg_name l)) # level_entry (lg_level l) @
       (''formatter'', Scalar (fm_pattern (lg_formatter l))) #
       (if lg_appenders l \<noteq> [] then [(''appenders'', Sequence (map dump_of (lg_appenders l)))] else []))"

lemma lg_toYamlString_dump:
  assumes "yaml_laws Y ns" "dump_of ` set (lg_appenders l) \<subseteq> ns"
  shows "lg_toYamlString Y l = Some (Dump Y (logger_dump l))"
proof -
  have "bind_all (\<lambda>a. Load Y (ap_toYamlString Y a)) (map (\<lambda>a. a) (lg_appenders l)) = Some (map dump_of (lg_appenders l))"
    using assms by (intro bind_all_map) (auto simp: yaml_laws_def ap_toYamlString_dump)
  then show ?thesis by (simp add: lg_toYamlString_def logger_dump_def)
qed

section \<open>Properties\<close>

text \<open>The dump of a logger leaves out the file names: read back as a log definition it has the name, the
  level, the pattern and the console appenders of the logger, but none of its file appenders.\<close>

theorem dump_loses_files:
  assumes "yaml_laws Y ns" "dump_of ` set (lg_appenders l) \<subseteq> ns" "logger_dump l \<in> ns" "lg_appenders l \<noteq> []"
  shows "Option.bind (lg_toYamlString Y l) (LogDefine_of_string Y) =
    Some \<lparr>ld_name = lg_name l, ld_level = lg_level l, ld_formatter = fm_pattern (lg_formatter l),
      ld_appenders = map define_of (filter (\<lambda>a. ap_sink a = Console) (lg_appenders l))\<rparr>"
proof -
  note f = text_field_Map [OF assms(1)] as_string_Scalar [OF assms(1)]
  have l: "Load Y (Dump Y (logger_dump l)) = Some (logger_dump l)" using assms(1,3) by (simp add: yaml_laws_def)
  have s: "subscript Y (Map kvs) k = Some (map_of kvs k)" "elems Y (Sequence ms) = ms" for kvs k ms
    using assms(1) by (simp_all add: yaml_laws_def)
  have b: "bind_all (appender_of_node Y) (map dump_of as) =
      Some (map (\<lambda>a. if ap_sink a = Console then Some (define_of a) else None) as)" for as
    by (rule bind_all_map) (rule appender_of_dump [OF assms(1)])
  have c: "concat (map ((\<lambda>d. case d of None \<Rightarrow> [] | Some d \<Rightarrow> [d]) \<circ>
        (\<lambda>a. if ap_sink a = Console then Some (define_of a) else None)) as) =
      map define_of (filter (\<lambda>a. ap_sink a = Console) as)" for as
    by (induction as) auto
  show ?thesis
    unfolding lg_toYamlString_dump [OF assms(1,2)] LogDefine_of_string_def bind.bind_lunit l
    using level_of_entry [of "lg_level l"] assms(4)
    by (cases "lg_level l = UNKNOWN")
      (auto simp: s f b c logger_dump_def level_entry_def)
qed

theorem dump_loses_files_witness:
  "\<exists>Y l. lg_appenders l = [FileLogAppender_new 1 0 ''app.log'', ConsoleLogAppender_new 2] \<and>
     Option.bind (lg_toYamlString Y l) (LogDefine_of_string Y) =
       Some \<lparr>ld_name = ''app'', ld_level = DEBUG, ld_formatter = default_pattern,
         ld_appenders = [\<lparr>ad_type = 2, ad_level = DEBUG, ad_formatter = [], ad_file = []\<rparr>]\<rparr>"
proof -
  let ?f = "FileLogAppender_new 1 0 ''app.log''" and ?c = "ConsoleLogAppender_new 2"
  let ?l = "(Logger_new ''app'')\<lparr>lg_appenders := [?f, ?c]\<rparr>"
  let ?ns = "[dump_of ?f, dump_of ?c, logger_dump ?l]"
  have p: "fm_pattern (LogFormatter_new s) = s" for s by (simp add: LogFormatter_new_def case_prod_beta Let_def)
  show ?thesis
    using dump_loses_files [OF sample_yaml_laws [of ?ns], of ?l] p
    by (intro exI [of _ "sample_yaml ?ns"] exI [of _ ?l])
      (simp add: Logger_new_def FileLogAppender_new_def Reopen_def ConsoleLogAppender_new_def define_of_def)
qed

end
