(* ===== verification/ConnectTimeouts.thy ===== *)
theory ConnectTimeouts
  imports Configs Hooks
begin

text \<open>
  The time-out of \<open>connect\<close> (\<open>HookIniter\<close> in \<open>src/Hook.cc\<close>): a global of the hooks that starts as the value
  of the configuration variable \<open>tcp.connect.timeout\<close> and is kept up to date by a change callback.
  The conversion of an \<open>int\<close> is the generic \<open>LexicalCast\<close> of \<open>src/Config.h\<close>, which goes through a
  string stream.
\<close>

section \<open>Integers in documents\<close>

text \<open>\<open>ss >> tar\<close>: white space is skipped, a sign may follow, the digits have to reach the end of the
  text, and a number that does not fit sets the fail bit.\<close>

definition cast_int :: "string \<Rightarrow> int option" where
  "cast_int src =
     (let t = dropWhile (\<lambda>c. is_space (code c)) src;
          signed = (t \<noteq> [] \<and> (hd t = CHR ''-'' \<or> hd t = CHR ''+''));
          ds = (if signed then tl t else t);
          n = (if signed \<and> hd t = CHR ''-'' then - int (dec_value ds) else int (dec_value ds))
      in if all_digits ds \<and> - (2 ^ 31) \<le> n \<and> n < 2 ^ 31 then Some n else None)"

definition int_text :: "int \<Rightarrow> string" where
  "int_text n = (if n < 0 then CHR ''-'' # dec_string (nat (- n)) else dec_string (nat n))"

section \<open>The variable and the global\<close>

text \<open>Values of other variables are of a type the hooks do not know. The rest of the program's state
  is what extends the record.\<close>

datatype 'x conf_value = Int_value int | Other_value 'x

record hook_globals = s_connect_timeout :: u64

definition int_type :: "'x conf_value type_desc" where
  "int_type =
     \<lparr>ty_name = ''int'', ty_from = (\<lambda>s. map_option Int_value (cast_int s)),
      ty_to = (\<lambda>v. case v of Int_value n \<Rightarrow> Some (int_text n) | Other_value _ \<Rightarrow> None)\<rparr>"

text \<open>The conversion from \<open>int\<close> to \<open>uint64_t\<close>.\<close>

definition to_timeout :: "int \<Rightarrow> u64" where
  "to_timeout n = of_int n"

abbreviation timeout_name :: string where
  "timeout_name \<equiv> ''tcp.connect.timeout''"

definition g_tcp_connect_timeout ::
  "('x conf_value, 'w) datas \<Rightarrow> ('x conf_value, 'w) datas \<times> (string + string option)" where
  "g_tcp_connect_timeout datas = Lookup_default int_type datas timeout_name (Int_value 5000) ''tcp connect timeout''"

definition timeout_callback :: "('x conf_value, 'b hook_globals_scheme) change_call_back" where
  "timeout_callback old new w =
     (case new of
        Int_value n \<Rightarrow> (w\<lparr>s_connect_timeout := to_timeout n\<rparr>, True)
      | Other_value _ \<Rightarrow> (w, True))"

text \<open>\<open>None\<close>: the variable behind the pointer does not hold an \<open>int\<close>.\<close>

definition HookIniter ::
  "nat \<Rightarrow> ('x conf_value, 'b hook_globals_scheme) datas \<Rightarrow> 'b hook_globals_scheme \<Rightarrow>
     (nat \<times> ('x conf_value, 'b hook_globals_scheme) datas \<times> 'b hook_globals_scheme) option" where
  "HookIniter counter datas w =
     (case datas timeout_name of
        None \<Rightarrow> None
      | Some var \<Rightarrow>
          (case cv_value var of
             Other_value _ \<Rightarrow> None
           | Int_value n \<Rightarrow>
               let (counter, var, i) = addChangeCallback counter var timeout_callback
               in Some (counter, datas(timeout_name \<mapsto> var), w\<lparr>s_connect_timeout := to_timeout n\<rparr>)))"

definition hook_connect :: "'c hook_env \<Rightarrow> 'b hook_globals_scheme \<Rightarrow> int \<Rightarrow> io_answer list \<Rightarrow> io_result" where
  "hook_connect e w fd xs = connect_with_timeout e fd (s_connect_timeout w) xs"

text \<open>Documents loaded one after the other; a failure of one is caught.\<close>

fun load_all :: "yaml \<Rightarrow> node list \<Rightarrow> ('v, 'w) datas \<Rightarrow> 'w \<Rightarrow> ('v, 'w) datas \<times> 'w" where
  "load_all Y [] datas w = (datas, w)"
| "load_all Y (n # ns) datas w =
     (let (datas, w, ok) = LoadFromYaml Y n datas w in load_all Y ns datas w)"

section \<open>Lemmas\<close>

lemma cast_int_digits:
  assumes "all_digits ds"
  shows "int (dec_value ds) < 2 ^ 31 \<Longrightarrow> cast_int ds = Some (int (dec_value ds))"
    and "int (dec_value ds) \<le> 2 ^ 31 \<Longrightarrow> cast_int (CHR ''-'' # ds) = Some (- int (dec_value ds))"
proof -
  obtain c cs where d: "ds = c # cs" "is_digit (code c)"
    using assms by (cases ds) (auto simp: all_digits_def)
  have c: "c \<noteq> CHR ''-''" "c \<noteq> CHR ''+''" "\<not> is_space (code c)"
    using d(2) by (auto simp: is_digit_def is_space_def code_def)
  have t: "dropWhile (\<lambda>c. is_space (code c)) ds = ds" "hd ds = c" "ds \<noteq> []"
    using c(3) by (simp_all add: d(1))
  show "int (dec_value ds) < 2 ^ 31 \<Longrightarrow> cast_int ds = Some (int (dec_value ds))"
    using assms c(1,2) t by (simp add: cast_int_def Let_def)
  have m: "\<not> is_space (code CHR ''-'')" by code_simp
  show "int (dec_value ds) \<le> 2 ^ 31 \<Longrightarrow> cast_int (CHR ''-'' # ds) = Some (- int (dec_value ds))"
    using assms m by (simp add: cast_int_def Let_def)
qed

lemma cast_int_text:
  assumes "- (2 ^ 31) \<le> n" "n < 2 ^ 31"
  shows "cast_int (int_text n) = Some n"
proof (cases "n < 0")
  case True
  then show ?thesis
    using cast_int_digits(2) [of "dec_string (nat (- n))"] assms(1) by (simp add: int_text_def)
next
  case False
  then show ?thesis
    using cast_int_digits(1) [of "dec_string (nat n)"] assms(2) by (simp add: int_text_def)
qed

lemma run_callbacks_keep:
  assumes "\<forall>f \<in> snd ` set fs. \<forall>old new w. P (fst (f old new w)) = P w"
  shows "P (fst (run_callbacks fs old new w)) = P w"
  using assms
proof (induction fs old new w rule: run_callbacks.induct)
  case (2 i f fs old new w)
  obtain w1 b where f: "f old new w = (w1, b)" by fastforce
  have "P w1 = P w" using 2(2) f by (metis fst_conv image_eqI list.set_intros(1) snd_conv)
  then show ?case using 2 f by (simp add: Let_def)
qed simp

text \<open>A callback that leaves the global alone.\<close>

definition leaves_timeout :: "('v, 'b hook_globals_scheme) change_call_back \<Rightarrow> bool" where
  "leaves_timeout f \<longleftrightarrow> (\<forall>old new w. s_connect_timeout (fst (f old new w)) = s_connect_timeout w)"

definition others_leave :: "('v, 'b hook_globals_scheme) datas \<Rightarrow> bool" where
  "others_leave datas \<longleftrightarrow>
     (\<forall>nm v. nm \<noteq> timeout_name \<longrightarrow> datas nm = Some v \<longrightarrow> (\<forall>f \<in> snd ` set (cv_callbacks v). leaves_timeout f))"

definition timeout_follows ::
  "('x conf_value, 'b hook_globals_scheme) datas \<Rightarrow> 'b hook_globals_scheme \<Rightarrow> bool" where
  "timeout_follows datas w \<longleftrightarrow>
     others_leave datas \<and>
     (\<exists>var n i. datas timeout_name = Some var \<and> cv_type var = int_type \<and> cv_value var = Int_value n \<and>
        cv_callbacks var = [(i, timeout_callback)] \<and> s_connect_timeout w = to_timeout n)"

lemma Fromstring_callbacks: "cv_callbacks (fst (Fromstring var s w)) = cv_callbacks var"
  by (auto simp: Fromstring_def setValue_def Let_def split: option.splits prod.splits)

lemma Fromstring_keeps:
  assumes "\<forall>f \<in> snd ` set (cv_callbacks var). leaves_timeout f"
  shows "s_connect_timeout (fst (snd (Fromstring var s w))) = s_connect_timeout w"
  using run_callbacks_keep [of "cv_callbacks var" s_connect_timeout] assms
  by (auto simp: Fromstring_def setValue_def leaves_timeout_def Let_def case_prod_beta split: option.splits)

lemma Fromstring_timeout:
  assumes "cv_type var = int_type" "cv_value var = Int_value n" "cv_callbacks var = [(i, timeout_callback)]"
    and "s_connect_timeout w = to_timeout n" "Fromstring var s w = (var', w', ok)"
  shows "\<exists>n'. cv_type var' = int_type \<and> cv_value var' = Int_value n' \<and> cv_callbacks var' = [(i, timeout_callback)] \<and>
    s_connect_timeout w' = to_timeout n'"
proof (cases "cast_int s")
  case None
  then have "var' = var" "w' = w" using assms(1,5) by (simp_all add: Fromstring_def int_type_def)
  then show ?thesis using assms(1-4) by blast
next
  case (Some k)
  then have s: "setValue var (Int_value k) w = (var', w', ok)"
    using assms(1,5) by (simp add: Fromstring_def int_type_def)
  show ?thesis
  proof (cases "k = n")
    case True
    then have "var' = var" "w' = w" using s assms(2) by (simp_all add: setValue_def)
    then show ?thesis using assms(1-4) by blast
  next
    case False
    then have "var' = var\<lparr>cv_value := Int_value k\<rparr>" "w' = w\<lparr>s_connect_timeout := to_timeout k\<rparr>"
      using s assms(2,3) by (simp_all add: setValue_def timeout_callback_def)
    then show ?thesis using assms(1,3) by simp
  qed
qed

lemma Fromstring_follows:
  assumes "timeout_follows datas w" "datas key = Some var" "Fromstring var s w = (var', w', ok)"
  shows "timeout_follows (datas(key \<mapsto> var')) w'"
proof (cases "key = timeout_name")
  case True
  obtain n i where "cv_type var = int_type" "cv_value var = Int_value n" "cv_callbacks var = [(i, timeout_callback)]"
    "s_connect_timeout w = to_timeout n"
    using assms(1,2) unfolding True timeout_follows_def by auto
  from Fromstring_timeout [OF this assms(3)] show ?thesis
    using assms(1) unfolding True timeout_follows_def others_leave_def by auto
next
  case False
  then have "\<forall>f \<in> snd ` set (cv_callbacks var). leaves_timeout f"
    using assms(1,2) by (simp add: timeout_follows_def others_leave_def)
  then have "s_connect_timeout w' = s_connect_timeout w" "cv_callbacks var' = cv_callbacks var"
    using Fromstring_keeps [of var s w] Fromstring_callbacks [of var s w] assms(3) by simp_all
  then show ?thesis using assms(1,2) False unfolding timeout_follows_def others_leave_def by auto
qed

lemma load_configs_follows:
  "load_configs Y ps datas w = (datas', w', ok) \<Longrightarrow> timeout_follows datas w \<Longrightarrow> timeout_follows datas' w'"
proof (induction ps arbitrary: datas w)
  case (Cons p ps)
  obtain k n where p: "p = (k, n)" by (cases p)
  define key where "key = map char_lower k"
  show ?case
  proof (cases "k = [] \<or> datas key = None")
    case True
    then have "load_configs Y ps datas w = (datas', w', ok)"
      using Cons.prems(1) by (cases "k = []") (simp_all add: p Let_def key_def)
    then show ?thesis using Cons.IH Cons.prems(2) by blast
  next
    case False
    then obtain var where var: "datas key = Some var" "k \<noteq> []" by auto
    obtain var1 w1 b where f: "Fromstring var (node_text Y n) w = (var1, w1, b)" by (metis prod_cases3)
    note fol = Fromstring_follows [OF Cons.prems(2) var(1) f]
    have "if b then load_configs Y ps (datas(key \<mapsto> var1)) w1 = (datas', w', ok)
        else datas' = datas(key \<mapsto> var1) \<and> w' = w1"
      using Cons.prems(1) var f by (simp add: p Let_def flip: key_def split: if_splits)
    then show ?thesis using Cons.IH fol by (cases b) (auto simp del: fun_upd_apply)
  qed
qed simp

lemma load_all_follows:
  "load_all Y docs datas w = (datas', w') \<Longrightarrow> timeout_follows datas w \<Longrightarrow> timeout_follows datas' w'"
proof (induction docs arbitrary: datas w)
  case (Cons n ns)
  obtain d1 w1 ok where l: "LoadFromYaml Y n datas w = (d1, w1, ok)" by (metis prod_cases3)
  then show ?case using Cons load_configs_follows [of Y _ datas w d1 w1 ok] by (simp add: LoadFromYaml_def)
qed simp

lemma HookIniter_follows:
  assumes "\<forall>nm v f. datas nm = Some v \<and> f \<in> snd ` set (cv_callbacks v) \<longrightarrow> leaves_timeout f"
    and "datas timeout_name = None"
    and "HookIniter counter (fst (g_tcp_connect_timeout datas)) w = Some (c1, datas1, w1)"
  shows "timeout_follows datas1 w1 \<and> s_connect_timeout w1 = 5000"
proof -
  have n: "name_ok timeout_name" by code_simp
  have o: "others_leave (datas(timeout_name \<mapsto> var))" for var
    using assms(1) unfolding others_leave_def by (metis fun_upd_other)
  show ?thesis
    using assms(2,3) o
    by (auto simp: g_tcp_connect_timeout_def Lookup_default_def n HookIniter_def ConfigVar_new_def
        addChangeCallback_def timeout_follows_def to_timeout_def Let_def)
qed

section \<open>Properties\<close>

text \<open>C30. The time-out of \<open>connect\<close> is the configured one. From the start of the program, whatever documents
  are loaded and whether or not their loading succeeds, the variable \<open>tcp.connect.timeout\<close> holds an
  integer and the hooked \<open>connect\<close> waits for that many milliseconds at most (none of the callbacks of other
  variables writes the global of the hooks, which is local to its file).\<close>

theorem connect_timeout_configured:
  assumes "\<forall>nm v f. datas nm = Some v \<and> f \<in> snd ` set (cv_callbacks v) \<longrightarrow> leaves_timeout f"
    and "datas timeout_name = None"
    and "HookIniter counter (fst (g_tcp_connect_timeout datas)) w = Some (c1, datas1, w1)"
    and "load_all Y docs datas1 w1 = (datas2, w2)"
  shows "\<exists>var n. datas2 timeout_name = Some var \<and> cv_value var = Int_value n \<and>
    (\<forall>(e :: 'c hook_env) fd xs. hook_connect e w2 fd xs = connect_with_timeout e fd (to_timeout n) xs)"
  using load_all_follows [OF assms(4)] HookIniter_follows [OF assms(1-3)]
  by (auto simp: timeout_follows_def hook_connect_def)

text \<open>A document sets the time-out, another one fails to load, and the time-out stays.\<close>

definition timeout_doc :: node where
  "timeout_doc = Map [(''tcp'', Map [(''connect'', Map [(''timeout'', Scalar ''300'')])])]"

definition broken_doc :: node where
  "broken_doc = Map [(timeout_name, Scalar ''3s'')]"

definition no_vars :: "(nat conf_value, hook_globals) datas" where
  "no_vars = (\<lambda>k. None)"

theorem connect_timeout_configured_witness:
  "\<exists>c1 datas1 w1 datas2 w2 var.
     HookIniter 0 (fst (g_tcp_connect_timeout no_vars)) \<lparr>s_connect_timeout = - 1\<rparr> = Some (c1, datas1, w1) \<and>
     load_all (sample_yaml []) [timeout_doc, broken_doc] datas1 w1 = (datas2, w2) \<and>
     datas2 timeout_name = Some var \<and> cv_value var = Int_value 300 \<and>
     (\<forall>(e :: nat hook_env) fd xs. hook_connect e w2 fd xs = connect_with_timeout e fd 300 xs)"
proof -
  have n: "name_ok timeout_name" by code_simp
  have k: "map char_lower ''tcp'' = ''tcp''" "map char_lower ''tcp.connect'' = ''tcp.connect''"
    "map char_lower timeout_name = timeout_name" by code_simp+
  have c: "cast_int ''300'' = Some 300" "cast_int ''3s'' = None" by code_simp+
  obtain c1 datas1 w1 where h: "HookIniter 0 (fst (g_tcp_connect_timeout no_vars)) \<lparr>s_connect_timeout = - 1\<rparr> = Some (c1, datas1, w1)"
    and d: "datas1 = [timeout_name \<mapsto> \<lparr>cv_name = timeout_name, cv_desc = ''tcp connect timeout'', cv_type = int_type,
      cv_value = Int_value 5000, cv_callbacks = [(1, timeout_callback)]\<rparr>]"
    using k by (simp add: g_tcp_connect_timeout_def Lookup_default_def n no_vars_def HookIniter_def ConfigVar_new_def
        Let_def addChangeCallback_def del: list.map)
  obtain datas2 w2 where l: "load_all (sample_yaml []) [timeout_doc, broken_doc] datas1 w1 = (datas2, w2)" by fastforce
  have t: "ListAllConfigs [] timeout_doc =
      [([], timeout_doc), (''tcp'', Map [(''connect'', Map [(''timeout'', Scalar ''300'')])]),
       (''tcp.connect'', Map [(''timeout'', Scalar ''300'')]), (timeout_name, Scalar ''300'')]"
    "ListAllConfigs [] broken_doc = [([], broken_doc), (timeout_name, Scalar ''3s'')]"
    by (simp_all add: timeout_doc_def broken_doc_def ListAllConfigs.simps name_ok_def name_chars_def)
  have "map_option cv_value (datas2 timeout_name) = Some (Int_value 300)"
    using l k unfolding d
    by (auto simp: LoadFromYaml_def t Fromstring_def int_type_def c
        setValue_def timeout_callback_def node_text_def Let_def del: list.map)
  then show ?thesis
    using connect_timeout_configured [OF _ _ h l] h l by (auto simp: no_vars_def to_timeout_def)
qed

end
