(* ===== verification/Spec2Isabelle.thy ===== *)
theory Spec2Isabelle
  imports ByteArrayCodec UrlText HttpMessages Hooks Addresses HttpServers HttpPools Configs TcpServers
    Threads UriSafety ChunkedBodies LogDumps ConnectTimeouts
begin

text \<open>
  A verification of \<open>Server-based-on-fibers\<close>, a C++ network library: fibers on a pool of threads,
  an event loop on epoll, blocking-style system calls for fibers, sockets and byte streams, and an
  HTTP server and client on top, configured by YAML documents. Paths below are under \<open>src/\<close>.

  \<^bold>\<open>How the parts work together.\<close> A \<open>Scheduler\<close> owns threads and a queue of tasks; each thread runs its
  loop, takes the first task it may run and swaps into the task's fiber (\<open>Fiber\<close>). An \<open>IOManager\<close> is
  a scheduler that also waits in epoll: a fiber registers a descriptor event and yields; the report
  or a timer (\<open>TimerManager\<close>) pushes it back. The hooks replace the system calls: on a descriptor
  that the \<open>FdManager\<close> knows as a socket, a call that would block registers the event, arms the
  time-out, yields, and repeats. \<open>Socket\<close> wraps a descriptor, \<open>SocketStream\<close> moves bytes between a
  socket and a buffer or a \<open>ByteArray\<close>. \<open>HttpSession\<close> and \<open>HttpConnection\<close> receive messages with
  the vendored parser \<open>picohttpparser\<close>; \<open>HttpServer\<close> loops over a session and dispatches to servlets;
  \<open>HttpConnectionPool\<close> keeps client connections. \<open>TcpServer\<close> binds, accepts and stops. \<open>Config\<close>
  loads documents into variables whose callbacks reconfigure the loggers of \<open>Log\<close>.

  \<^bold>\<open>Theories, in the order of the code.\<close>
  \<^item> \<open>Prelude\<close>: machine words, the outcome of a call (\<open>Ret\<close>, \<open>Thr\<close> an exception or a failed assertion,
    \<open>Ub\<close> undefined behaviour), lemmas on byte lists. \<open>CStrings\<close>: C strings and decimal numbers.
    \<open>OrderedContainers\<close>: \<open>std::set\<close> and \<open>std::map\<close> with a comparator; the locale \<open>comparator\<close> proves
    their laws and is interpreted at every comparator of the code.
  \<^item> \<open>Endianness\<close> (\<open>src/Endian.h\<close>), \<open>ByteArrays\<close> and \<open>ByteArrayCodec\<close> (\<open>src/Bytearray.cc\<close>): the chain of
    blocks with its cursors and null pointers refines a byte string with two positions
    (\<open>write_refines\<close>, \<open>read_refines\<close>); the codecs are round trips on top of it.
  \<^item> \<open>Locks\<close> (\<open>src/Mutex.h\<close>, \<open>src/Mutex.cc\<close>): semaphore, mutexes and scoped guards; the locale \<open>lockable\<close> is
    what a guard asks of a mutex, interpreted at the three mutexes (\<open>guards_exclude\<close>, \<open>rw_sections\<close>).
    \<open>Threads\<close> (\<open>src/Thread.cc\<close>): the constructor and the entry function as interleaved turns
    (\<open>thread_started\<close>).
  \<^item> \<open>Timers\<close> (\<open>src/Timer.cc\<close>): timers on a heap, the ordered set, expiry and rollover.
  \<^item> \<open>Fibers\<close> (\<open>src/Fiber1.cc\<close>), \<open>Schedulers\<close> (\<open>src/Schedule1.cc\<close>), \<open>IOManagers\<close> (\<open>src/IOManager.cc\<close>): the
    fiber operations of a thread in any order as the relation \<open>fiber_op\<close> (\<open>fiber_switching_safe\<close>); the run
    loops of several threads as the step relation \<open>sched_step\<close> with invariants by rule induction, over
    the histories \<open>pushed\<close>, \<open>started\<close> and \<open>late\<close> (pushed from outside after \<open>Stop\<close>); the
    descriptor table against the kernel's masks, with the exact state after every operation.
  \<^item> \<open>FdManagers\<close> (\<open>src/FdManager.cc\<close>), \<open>Hooks\<close> (\<open>src/Hook.cc\<close>): a hooked call is a function of the list
    of answers it gets from the kernel, the event loop and the timer. \<open>ConnectTimeouts\<close>: its global
    time-out follows the configuration variable (\<open>connect_timeout_configured\<close>).
  \<^item> \<open>Addresses\<close> (\<open>src/Address.cc\<close>), \<open>Sockets\<close> (\<open>src/Socket.cc\<close>), \<open>TcpServers\<close> (\<open>src/Tcp_server.cc\<close>,
    \<open>src/Tcp_server.h\<close>): sockets act on the world through the record \<open>net\<close> of system calls; the
    descriptors that are open, and the addresses they are bound to and listen on, are followed from
    binding to the task that closes a stopped server (\<open>server_bind_all_or_nothing\<close>, \<open>server_life\<close>).
  \<^item> \<open>Streams\<close> (\<open>src/Stream.cc\<close>, \<open>src/Stream/SocketStream.cc\<close>): the locales \<open>byte_source\<close> and \<open>byte_sink\<close> state
    what the fixed-size loops ask of a transfer; they are interpreted at the plain and at the
    vectored transfer of the socket stream.
  \<^item> \<open>UrlText\<close> (\<open>src/Util.cc\<close>), \<open>HttpMessages\<close> (\<open>src/Http/Http.cc\<close>), \<open>PicoHttp\<close> (\<open>src/Http/picohttpparser.c\<close>),
    \<open>HttpParsers\<close>, \<open>HttpSessions\<close>, \<open>HttpServlets\<close>, \<open>HttpServers\<close>, \<open>HttpConnections\<close>, \<open>HttpClients\<close>,
    \<open>HttpPools\<close> (the files of these names in \<open>src/Http/\<close>; the pool and the clients are in
    \<open>HttpConnection.cc\<close>): text processing, messages, the parser with its behaviour on partial input
    (\<open>incremental_parse_equivalent\<close>),
    both receiving loops, dispatch, the serving loop, the client and its pool. \<open>ChunkedBodies\<close>: the
    decoder of \<open>picohttpparser.c\<close> for chunked bodies, which no caller in the repository uses.
  \<^item> \<open>Uris\<close>, \<open>UriTables\<close>, \<open>UriMachine\<close> (\<open>src/Http/Uri.cc\<close>, generated from \<open>src/Http/Uri.rl\<close>): the class, the
    automaton as a table of its states and labels, and the machine that runs it. \<open>UriParsers\<close> follows
    the pieces of a URI through the states (\<open>uri_round_trip\<close>); \<open>UriSafety\<close> checks a certificate against
    every jump of the table (\<open>uri_create_defined\<close>).
  \<^item> \<open>Logs\<close> (\<open>src/Log.cc\<close>, \<open>src/Logdefine.h\<close>), \<open>Configs\<close> (\<open>src/Config.h\<close>, \<open>src/Config.cc\<close>): patterns,
    appenders, loggers and their hot update; variables, callbacks, loading and the conversions.
    \<open>LogDumps\<close>: loggers as YAML text, and what a definition read back from it has lost.
  \<^item> This theory: a request from the client's call to the servlet and back
    (\<open>request_answered\<close>), and from a document to the loggers (\<open>document_updates_loggers\<close>).

  \<^bold>\<open>State and effects.\<close> A class is a record with the names of its fields; a member function takes and
  returns it. Machine integers that can wrap are words; lengths and counters that the proofs bound
  are natural numbers with the conversion written out where the code converts. Shared pointers are
  indices or keys where sharing matters (timers on a heap, blocks of a chain, descriptor slots).
  Memory that the code leaves uninitialised is an argument (\<open>junk\<close>). Threads interleave as steps of
  a relation where the property depends on it; elsewhere an operation under a guard is one step, which
  \<open>guards_exclude\<close> and \<open>rw_sections\<close> justify.

  \<^bold>\<open>Loops.\<close> Loops with a measure are total functions. The loops of a session, a connection and the
  server read from a peer and are \<open>partial_function\<close>s; \<open>recvRequest_terminates\<close>,
  \<open>response_head_returns\<close> and \<open>server_answers_in_order\<close> prove that they return. Loops that wait
  (\<open>do_io\<close>, the accept loop) consume the finite list of answers they get and say so when it ends.
  There is no fuel in the development.

  \<^bold>\<open>Parameters.\<close> What is not in the repository is an argument: the system calls and their answers, the
  clock, \<open>fnmatch\<close>, \<open>strftime\<close>, address lookup and text conversion, yaml-cpp (\<open>yaml_laws\<close>), what the
  kernel keeps of descriptors (\<open>net_laws\<close>, \<open>serve_laws\<close>), whether an
  allocation succeeds. Each property with a hypothesis has a witness at a concrete instance.

  \<^bold>\<open>Not modelled.\<close> The SSE4.2 branch of \<open>picohttpparser.c\<close>, which the
  build does not enable. Backtraces, thread names and directory walking of \<open>src/Util.cc\<close>;
  \<open>src/Env.cc\<close> and \<open>src/Logdefine.cc\<close>, which are commented out. The C++ memory model is that of
  sequentially consistent steps.
\<close>

section \<open>A request and its answer\<close>

text \<open>
  Client and server on one connection. What the client sends is the one segment the server
  receives; the server's output, cut by the network (\<open>segment\<close>), is what the client receives.
\<close>

definition conversation ::
  "(http_request \<Rightarrow> http_response \<Rightarrow> http_response) \<Rightarrow> bool \<Rightarrow> (string \<Rightarrow> string list) \<Rightarrow> (nat \<Rightarrow> char) \<Rightarrow>
   (int \<Rightarrow> bool) \<Rightarrow> nat \<Rightarrow> nat \<Rightarrow> http_request \<Rightarrow> (char sock \<times> http_result client_outcome) option" where
  "conversation f keep_alive segment junk can_alloc client_room server_room req =
     Option.bind (rq_dump req) (\<lambda>msg.
     Option.bind (handleClient (pure_servlet f) keep_alive can_alloc
         \<lparr>is_connected = True, incoming = [msg], at_end = 0, room = [server_room], outgoing = []\<rparr>) (\<lambda>(ts, returned).
     Some (exchange junk can_alloc ''send error'' req
         \<lparr>is_connected = True, incoming = segment (outgoing ts), at_end = 0, room = [client_room], outgoing = []\<rparr>)))"

lemma server_output:
  assumes "sendable req" "rq_dump req = Some msg" "length msg \<le> buff_size" "can_alloc (int (length (rq_body req)))"
    and "d = rs_dump (answer f keep_alive req)" "length d \<le> m" "length d < 2 ^ 31"
  shows "\<exists>ts. handleClient (pure_servlet f) keep_alive can_alloc
      \<lparr>is_connected = True, incoming = [msg], at_end = 0, room = [m], outgoing = []\<rparr> = Some (ts, True) \<and> outgoing ts = d"
proof (cases "rq_close req \<or> \<not> keep_alive")
  case True
  let ?t = "\<lparr>is_connected = True, incoming = [msg], at_end = 0, room = [m], outgoing = []\<rparr>"
  have "d \<noteq> []" using assms(5) rs_dump_nonempty by simp
  then have "sendResponse (?t\<lparr>incoming := []\<rparr>) (answer f keep_alive req) =
      (?t\<lparr>incoming := [], room := [], outgoing := d\<rparr>, int (length d))"
    using send_in_one [of "?t\<lparr>incoming := []\<rparr>" m "[]" d] assms(5-7) by (simp add: sendResponse_def)
  then show ?thesis
    using server_closes_after_one [where can_alloc = can_alloc and t = ?t and later = "[]" and segs = "[]" and f = f,
        OF assms(1,2,4) _ _ _ True] assms(3)
    by auto
next
  case False
  let ?t = "\<lparr>is_connected = True, incoming = [msg], at_end = 0, room = [m], outgoing = []\<rparr>"
  have "asks ?t [req]" using assms(1-3) by (simp add: asks_def)
  then obtain t' where "client_loop (pure_servlet f) True can_alloc ?t = Some (t', True)" "outgoing t' = d"
    using client_loop_answers [where can_alloc = can_alloc and t = ?t and rqs = "[req]" and f = f] False assms(4-7) by auto
  then show ?thesis using False by (simp add: handleClient_def sock_close_def)
qed

section \<open>Properties across components\<close>

text \<open>C5. A request and its answer, from the client's call to the servlet and back, when the request and the
  first segment of the answer fit into the buffers and this segment holds the head of the answer and the
  first bytes (\<open>extra\<close>) of its body. The client's exchange ends with success and the status that the
  servlet gave for the request as received, whether or not either side keeps the connection open, and with a body
  of the right length: in place of the bytes that came with the head it has as many bytes of the head, and
  then the rest of the body. So the body is the servlet's when the network cuts the answer behind its head.\<close>

theorem request_answered:
  assumes "sendable req" "rq_dump req = Some msg" "length msg \<le> buff_size" "length msg \<le> n"
    and "sendable_response (answer f keep_alive req)"
    and "rs_dump (answer f keep_alive req) = h @ rs_body (answer f keep_alive req)"
    and "segment (rs_dump (answer f keep_alive req)) = (h @ extra) # segs"
    and "extra @ concat segs = rs_body (answer f keep_alive req)"
    and "[] \<notin> set ((h @ extra) # segs)" "length (h @ extra) \<le> buff_size"
    and "length (rs_dump (answer f keep_alive req)) \<le> m" "length (rs_dump (answer f keep_alive req)) < 2 ^ 31"
    and "\<forall>k. can_alloc k"
  shows "\<exists>t' rs'. conversation f keep_alive segment junk can_alloc n m req =
      Some (t', client_outcome.Done \<lparr>hr_result = OK, hr_response = Some rs', hr_error = ''ok''\<rparr>) \<and> outgoing t' = msg \<and>
    rs_status rs' = rs_status (answer f keep_alive req) \<and>
    rs_body rs' = take (length extra) (h @ extra) @ concat segs \<and>
    (extra = [] \<longrightarrow> rs_body rs' = rs_body (answer f keep_alive req))"
proof -
  let ?a = "answer f keep_alive req"
  let ?t = "\<lparr>is_connected = True, incoming = (h @ extra) # segs, at_end = 0, room = [n], outgoing = []\<rparr>"
  obtain ts where ts: "handleClient (pure_servlet f) keep_alive can_alloc
      \<lparr>is_connected = True, incoming = [msg], at_end = 0, room = [m], outgoing = []\<rparr> = Some (ts, True)"
      "outgoing ts = rs_dump ?a"
    using server_output [where can_alloc = can_alloc, OF assms(1-3) _ refl assms(11,12)] assms(13) by blast
  have msg: "msg \<noteq> []" "length msg < 2 ^ 31" using rq_dump_show [OF assms(1)] assms(2,3) by (auto simp: buff_size_def show_request_def)
  have ok: "sock_ok ?t" using assms(9) by (simp add: sock_ok_def)
  have d: "length (rs_dump ?a) = length h + length (rs_body ?a)" using arg_cong [OF assms(6), of length] by simp
  have l: "length extra + length (concat segs) = length (rs_body ?a)" using arg_cong [OF assms(8), of length] by simp
  have body: "length extra \<le> length (rs_body ?a)" "length (rs_body ?a) < 2 ^ 31" using d l assms(12) by linarith+
  have rest: "drop (length extra) (rs_body ?a) = concat segs"
    using arg_cong [OF assms(8), of "drop (length extra)"] by simp
  have all: "extra @ concat segs = rs_body ?a @ []" "can_alloc (int (length (rs_body ?a)))" using assms(8,13) by simp_all
  have t: "room ?t = n # []" "incoming ?t = (h @ extra) # segs" "outgoing ?t = []" by simp_all
  obtain t' rs' where x: "exchange junk can_alloc ''send error'' req ?t =
      (t', client_outcome.Done \<lparr>hr_result = OK, hr_response = Some rs', hr_error = ''ok''\<rparr>)" "outgoing t' = msg"
      "rs_status rs' = rs_status ?a" "rs_body rs' = take (length extra) (h @ extra) @ concat segs"
    using exchange_ok [where junk = junk and err = "''send error''" and can_alloc = can_alloc and extra = extra
          and segs = segs and later = "[]",
        OF assms(2) msg(1) assms(4) msg(2) t(1) assms(5,6) ok t(2) assms(10) all(1) body all(2)]
    unfolding t(3) rest by auto
  have "extra = [] \<longrightarrow> rs_body rs' = rs_body ?a" using x(4) all(1) by (cases extra) simp_all
  moreover have "conversation f keep_alive segment junk can_alloc n m req =
      Some (t', client_outcome.Done \<lparr>hr_result = OK, hr_response = Some rs', hr_error = ''ok''\<rparr>)"
    using x(1) by (simp only: conversation_def assms(2,7) ts Option.bind.bind_lunit prod.case)
  ultimately show ?thesis using x(2-4) by blast
qed

text \<open>\<open>before_body k s\<close> cuts \<open>s\<close> in front of its last \<open>k\<close> bytes.\<close>

definition before_body :: "nat \<Rightarrow> string \<Rightarrow> string list" where
  "before_body k s = [take (length s - k) s, drop (length s - k) s]"

theorem request_answered_witness:
  "(\<exists>t' rs'. conversation echo_path True (before_body 2) (\<lambda>_. NUL) (\<lambda>_. True) 500 500 get_a =
      Some (t', client_outcome.Done \<lparr>hr_result = OK, hr_response = Some rs', hr_error = ''ok''\<rparr>) \<and>
    rs_body rs' = ''/a'') \<and>
   (\<exists>t' rs'. conversation echo_path True (\<lambda>s. [s]) (\<lambda>_. NUL) (\<lambda>_. True) 500 500 get_a =
      Some (t', client_outcome.Done \<lparr>hr_result = OK, hr_response = Some rs', hr_error = ''ok''\<rparr>) \<and>
    rs_body rs' = ''HT'')"
proof -
  let ?a = "answer echo_path True get_a"
  define d where "d = rs_dump ?a"
  have r: "sendable get_a" "rq_dump get_a \<noteq> None" "length (the (rq_dump get_a)) \<le> 500"
    "sendable_response ?a" "rs_body ?a = ''/a''" by code_simp+
  have "length (rs_dump ?a) \<le> 500" "drop (length (rs_dump ?a) - 2) (rs_dump ?a) = rs_body ?a"
    "take (length (rs_dump ?a) - 2) (rs_dump ?a) \<noteq> []" "take 2 (rs_dump ?a) = ''HT''" "4 \<le> length (rs_dump ?a)" by code_simp+
  then have d: "length d \<le> 500" "drop (length d - 2) d = ''/a''" "take (length d - 2) d \<noteq> []" "take 2 d = ''HT''"
    "4 \<le> length d"
    using r(5) by (simp_all add: d_def)
  have dd: "d = take (length d - 2) d @ ''/a''" using append_take_drop_id [of "length d - 2" d] d(2) by simp
  have l: "length d - 2 \<le> 4096" "length d \<le> 4096" "d \<noteq> []" using d(1,3) by auto
  have h: "take 2 (take (length d - 2) d @ ''/a'') = ''HT''" using dd d(4) by simp
  have one: "\<exists>t' rs'. conversation echo_path True (before_body 2) (\<lambda>_. NUL) (\<lambda>_. True) 500 500 get_a =
      Some (t', client_outcome.Done \<lparr>hr_result = OK, hr_response = Some rs', hr_error = ''ok''\<rparr>) \<and> rs_body rs' = ''/a''"
    using request_answered [OF r(1), of "the (rq_dump get_a)" 500 echo_path True "take (length d - 2) d" "before_body 2"
        "[]" "[''/a'']" 500 "\<lambda>_. True" "\<lambda>_. NUL"] r d l dd
    by (simp add: before_body_def buff_size_def flip: d_def) blast
  have "\<exists>t' rs'. conversation echo_path True (\<lambda>s. [s]) (\<lambda>_. NUL) (\<lambda>_. True) 500 500 get_a =
      Some (t', client_outcome.Done \<lparr>hr_result = OK, hr_response = Some rs', hr_error = ''ok''\<rparr>) \<and>
      rs_body rs' = take (length ''/a'') (take (length d - 2) d @ ''/a'')"
    using request_answered [OF r(1), of "the (rq_dump get_a)" 500 echo_path True "take (length d - 2) d" "\<lambda>s. [s]"
        "''/a''" "[]" 500 "\<lambda>_. True" "\<lambda>_. NUL"] r d(1,3) l dd
    by (simp add: buff_size_def flip: d_def) blast
  then show ?thesis using one h by (simp add: numeral_2_eq_2)
qed

text \<open>The callback that \<open>LogIniter\<close> registers acts on the loggers.\<close>

definition log_callback :: "nat \<Rightarrow> (log_define list, loggers) change_call_back" where
  "log_callback i old new m = (on_logger_conf_changed i old new m, True)"

text \<open>C29. From the configuration file to the loggers: loading a document whose entry \<open>logs\<close> lists log
  definitions stores their set in the variable and runs the hot update once, with the old and the new
  set; afterwards a logger whose definition is no longer listed logs nothing at any level.\<close>

theorem document_updates_loggers:
  assumes "yaml_laws Y ns" "Sequence (map node_of_LogDefine vs) \<in> ns"
    and "\<forall>v \<in> set vs. ld_appenders v \<noteq> [] \<and> list_all appender_ok (ld_appenders v) \<and> node_of_LogDefine v \<in> ns"
    and "datas ''logs'' = Some var" "ty_from (cv_type var) = cast_to_set Y LogDefine_less (LogDefine_of_string Y)"
    and "cv_callbacks var = [(j, log_callback i)]" "cv_value var \<noteq> log_set_of vs" "distinct (map ld_name (cv_value var))"
  shows "\<exists>m'. LoadFromYaml Y (Map [(''logs'', Sequence (map node_of_LogDefine vs))]) datas m =
      (datas(''logs'' \<mapsto> var\<lparr>cv_value := log_set_of vs\<rparr>), m', True) \<and>
    m' = on_logger_conf_changed i (cv_value var) (log_set_of vs) m \<and>
    (\<forall>nm strftime LV ev. find_define nm (cv_value var) \<noteq> None \<and> find_define nm (log_set_of vs) = None \<and> LV < UNKNOWN \<longrightarrow>
      LOG_LEVEL strftime m' nm LV ev = (m', []))"
proof (intro exI conjI)
  let ?n = "Sequence (map node_of_LogDefine vs)" and ?m = "on_logger_conf_changed i (cv_value var) (log_set_of vs) m"
  have ok: "name_ok ''logs''" "name_ok []" "map char_lower ''logs'' = ''logs''" by code_simp+
  then have l: "ListAllConfigs [] (Map [(''logs'', ?n)]) = [([], Map [(''logs'', ?n)]), (''logs'', ?n)]"
    by (simp add: ListAllConfigs.simps)
  have "ty_from (cv_type var) (node_text Y ?n) = Some (log_set_of vs)"
    using log_set_from_nodes [OF assms(1,3,2)] assms(5) by (simp add: node_text_def)
  then have "Fromstring var (node_text Y ?n) m = (var\<lparr>cv_value := log_set_of vs\<rparr>, ?m, True)"
    using assms(6,7) by (simp add: Fromstring_def setValue_def log_callback_def)
  then show "LoadFromYaml Y (Map [(''logs'', ?n)]) datas m =
      (datas(''logs'' \<mapsto> var\<lparr>cv_value := log_set_of vs\<rparr>), ?m, True)"
    using assms(4) ok(3) by (simp add: LoadFromYaml_def l Let_def del: list.map)
  show "\<forall>nm strftime LV ev. find_define nm (cv_value var) \<noteq> None \<and> find_define nm (log_set_of vs) = None \<and> LV < UNKNOWN \<longrightarrow>
      LOG_LEVEL strftime ?m nm LV ev = (?m, [])"
  proof (intro allI impI, elim conjE)
    show "LOG_LEVEL strftime ?m nm LV ev = (?m, [])"
      if "find_define nm (cv_value var) \<noteq> None" "find_define nm (log_set_of vs) = None" "LV < UNKNOWN" for nm strftime LV ev
      using hot_update_cases [where newvalue = "log_set_of vs" and i = i and m = m and nm = nm,
          OF assms(8) log_set_of_distinct refl] that by simp
  qed
qed (rule refl)

theorem document_updates_loggers_witness:
  "\<exists>Y var m'. cv_value var = [sample_define ''a''] \<and>
     LoadFromYaml Y (Map [(''logs'', Sequence [node_of_LogDefine (sample_define ''b'')])]) [''logs'' \<mapsto> var] (LogManager_new 0) =
       ([''logs'' \<mapsto> var\<lparr>cv_value := [sample_define ''b'']\<rparr>], m', True) \<and>
     LOG_LEVEL (\<lambda>f t. f) m' ''a'' FATAL (sample_event 3) = (m', [])"
proof -
  let ?n = "node_of_LogDefine (sample_define ''b'')"
  let ?ns = "[?n, Sequence [?n]]"
  let ?Y = "sample_yaml ?ns"
  define var :: "(log_define list, loggers) config_var" where
    "var = \<lparr>cv_name = ''logs'', cv_desc = [], cv_type = \<lparr>ty_name = ''set'',
       ty_from = cast_to_set ?Y LogDefine_less (LogDefine_of_string ?Y), ty_to = (\<lambda>v. None)\<rparr>,
       cv_value = [sample_define ''a''], cv_callbacks = [(1, log_callback 0)]\<rparr>"
  have s: "log_set_of [sample_define ''b''] = [sample_define ''b'']" by (simp add: log_set_of_def)
  have a: "\<forall>v \<in> set [sample_define ''b'']. ld_appenders v \<noteq> [] \<and> list_all appender_ok (ld_appenders v) \<and>
      node_of_LogDefine v \<in> set ?ns" by (simp add: sample_define_def appender_ok_def)
  have f: "find_define ''a'' [sample_define ''a''] \<noteq> None" "find_define ''a'' [sample_define ''b''] = None"
    by (simp_all add: find_define_def sample_define_def)
  have d: "[sample_define ''a''] \<noteq> [sample_define ''b'']" by (simp add: sample_define_def)
  have "FATAL < UNKNOWN" by (simp add: less_level_def)
  then show ?thesis
    using document_updates_loggers [OF sample_yaml_laws [of ?ns] _ a, of "[''logs'' \<mapsto> var]" var 1 0 "LogManager_new 0"]
      s f d by (intro exI [of _ ?Y] exI [of _ var]) (auto simp: var_def)
qed

end
